(* ===== verification/Dmq_Prelude.thy ===== *)
theory Dmq_Prelude
  imports Main "HOL-Library.Word" "HOL-Library.AList" "HOL-Library.Sublist"
begin

text \<open>
  Shared ground of the development: the Rust integer types as words, the result type of
  fallible code (an I/O error or a panic against a value), checked slicing, the
  saturating arithmetic of the standard library, the hash maps of the broker as
  association lists, and the generic list facts that the component theories use.

  Conventions.  \<open>usize\<close> values are lengths and indices of in-memory objects and are
  natural numbers; every other integer keeps its width.  A \<open>HashMap\<close> is an association
  list read with \<open>map_of\<close>, written with \<open>AList.update\<close> and \<open>AList.delete\<close>; its
  iteration order is the order of the list, and the theorems quantify over all lists, so
  they hold for every order the hasher may produce.
\<close>

text \<open>Offsets in buffers stay sums of numerals, and lookups stay lookups.\<close>

declare add_2_eq_Suc [simp del] add_2_eq_Suc' [simp del]
declare map_of_eq_Some_iff [simp del] Some_eq_map_of_iff [simp del]

section \<open>Collections of facts\<close>

named_theorems res_simps \<open>unfolding of the result monad and its checks\<close>
named_theorems codec_simps \<open>big-endian encoders and their readers\<close>
named_theorems store_simps \<open>reads and writes of the data directory\<close>

section \<open>Machine integers and results\<close>

type_synonym u8 = "8 word"
type_synonym u16 = "16 word"
type_synonym u32 = "32 word"
type_synonym u64 = "64 word"
type_synonym bytes = "u8 list"

text \<open>The kinds of \<open>io::Error\<close> the sources construct or receive from the standard library.\<close>

datatype error_kind =
    InvalidData | InvalidInput | UnexpectedEof | PermissionDenied | NotFound
  | TimedOut | NotConnected | OtherKind

text \<open>A fallible computation ends in an \<open>io::Error\<close>, in a panic, or in a value.\<close>

datatype rust_error = Io error_kind string | Panic string

type_synonym 'a io_result = "rust_error + 'a"

definition io_err :: "error_kind \<Rightarrow> string \<Rightarrow> 'a io_result" where
  "io_err k msg = Inl (Io k msg)"

text \<open>The \<open>?\<close> operator.\<close>

definition res_bind :: "'e + 'a \<Rightarrow> ('a \<Rightarrow> 'e + 'b) \<Rightarrow> 'e + 'b" where
  "res_bind r f = (case r of Inl e \<Rightarrow> Inl e | Inr a \<Rightarrow> f a)"

lemma res_bind_simps [simp, res_simps]:
  "res_bind (Inl e) f = Inl e"
  "res_bind (Inr a) f = f a"
  by (simp_all add: res_bind_def)

lemma res_bind_Inr_iff: "res_bind r f = Inr b \<longleftrightarrow> (\<exists>a. r = Inr a \<and> f a = Inr b)"
  by (cases r) auto

lemma res_bind_Inl_iff:
  "res_bind r f = Inl e \<longleftrightarrow> r = Inl e \<or> (\<exists>a. r = Inr a \<and> f a = Inl e)"
  by (cases r) auto

text \<open>The \<open>?\<close> operator where the state that was reached stays behind an error.\<close>

definition sbind :: "('e + 'a) \<times> 's \<Rightarrow> ('a \<Rightarrow> 's \<Rightarrow> ('e + 'b) \<times> 's) \<Rightarrow> ('e + 'b) \<times> 's" where
  "sbind r f = (case fst r of Inl e \<Rightarrow> (Inl e, snd r) | Inr a \<Rightarrow> f a (snd r))"

lemma sbind_simps [simp, res_simps]:
  "sbind (Inl e, s) f = (Inl e, s)"
  "sbind (Inr a, s) f = f a s"
  by (simp_all add: sbind_def)

definition is_ok :: "'e + 'a \<Rightarrow> bool" where
  "is_ok r = (case r of Inl _ \<Rightarrow> False | Inr _ \<Rightarrow> True)"

lemma is_ok_simps [simp, res_simps]: "\<not> is_ok (Inl e)" "is_ok (Inr a)"
  by (simp_all add: is_ok_def)

definition panics :: "'a io_result \<Rightarrow> bool" where
  "panics r = (case r of Inl (Panic _) \<Rightarrow> True | _ \<Rightarrow> False)"

lemma panics_simps [simp, res_simps]:
  "\<not> panics (Inr a)" "panics (Inl (Panic m))" "\<not> panics (Inl (Io k m))"
  "\<not> panics (io_err k m)"
  by (simp_all add: panics_def io_err_def)

lemma io_err_neq_Inr [simp, res_simps]: "io_err k m \<noteq> Inr a" "Inr a \<noteq> io_err k m"
  by (simp_all add: io_err_def)

lemma res_bind_io_err [simp, res_simps]: "res_bind (io_err k m) f = io_err k m"
  by (simp add: io_err_def)

section \<open>Slices\<close>

text \<open>
  \<open>&bs[i..j]\<close>: a slice expression with \<open>i \<le> j \<le> len\<close>; outside that range it panics.
\<close>

definition slice :: "nat \<Rightarrow> nat \<Rightarrow> 'a list \<Rightarrow> 'a list" where
  "slice i j xs = take (j - i) (drop i xs)"

definition checked_slice :: "nat \<Rightarrow> nat \<Rightarrow> 'a list \<Rightarrow> 'a list io_result" where
  "checked_slice i j xs =
     (if i \<le> j \<and> j \<le> length xs then Inr (slice i j xs)
      else Inl (Panic ''slice index out of range''))"

lemma length_slice [simp]: "j \<le> length xs \<Longrightarrow> length (slice i j xs) = j - i"
  by (simp add: slice_def)

lemma slice_append_mid:
  "i = length pre \<Longrightarrow> j = i + length xs \<Longrightarrow> slice i j (pre @ xs @ post) = xs"
  by (simp add: slice_def)

section \<open>Saturating arithmetic\<close>

definition sat_add :: "'a::len word \<Rightarrow> 'a word \<Rightarrow> 'a word" where
  "sat_add a b = (if unat a + unat b < 2 ^ LENGTH('a) then a + b else - 1)"

definition sat_sub :: "'a::len word \<Rightarrow> 'a word \<Rightarrow> 'a word" where
  "sat_sub a b = (if b \<le> a then a - b else 0)"

lemma unat_add_small:
  fixes a b :: "'a::len word"
  assumes "unat a + unat b < 2 ^ LENGTH('a)"
  shows "unat (a + b) = unat a + unat b"
  using assms by (simp add: unat_word_ariths)

lemma unat_Suc_small:
  fixes a :: "'a::len word"
  assumes "unat a + 1 < 2 ^ LENGTH('a)"
  shows "unat (a + 1) = unat a + 1"
proof -
  have "unat (1 :: 'a word) = 1" by simp
  with assms show ?thesis using unat_add_small [of a 1] by simp
qed

lemma unat_of_nat_small: "n < 2 ^ LENGTH('a) \<Longrightarrow> unat (of_nat n :: 'a::len word) = n"
  by (simp add: unat_of_nat)

lemmas unat_of_nat_u16 = unat_of_nat_small [where 'a = 16, simplified]
  and unat_of_nat_u32 = unat_of_nat_small [where 'a = 32, simplified]
  and unat_of_nat_u64 = unat_of_nat_small [where 'a = 64, simplified]

lemma unat_minus_one: "unat (- 1 :: 'a::len word) = 2 ^ LENGTH('a) - 1"
  by (simp add: unsigned_minus_1_eq_mask mask_eq_exp_minus_1)

lemma sat_add_mono: "a \<le> sat_add a b"
proof (cases "unat a + unat b < 2 ^ LENGTH('a)")
  case True
  then show ?thesis by (simp add: sat_add_def word_le_nat_alt unat_add_small)
next
  case False
  then show ?thesis by (simp add: sat_add_def)
qed

lemma unat_sat_add:
  fixes a b :: "'a::len word"
  shows "unat (sat_add a b) = min (unat a + unat b) (2 ^ LENGTH('a) - 1)"
  by (auto simp: sat_add_def unat_add_small unat_minus_one min_def)

lemma unat_sat_sub: "unat (sat_sub a b) = unat a - unat b"
proof (cases "b \<le> a")
  case True
  then show ?thesis by (simp add: sat_sub_def unat_sub)
next
  case False
  then have "unat a \<le> unat b" by (simp add: word_le_nat_alt)
  with False show ?thesis by (simp add: sat_sub_def)
qed

lemma sat_sub_self [simp]: "sat_sub a a = 0"
  by (simp add: sat_sub_def)

section \<open>Hash maps\<close>

type_synonym ('k, 'v) hmap = "('k \<times> 'v) list"

abbreviation hm_get :: "('k, 'v) hmap \<Rightarrow> 'k \<Rightarrow> 'v option" where
  "hm_get m k \<equiv> map_of m k"

abbreviation hm_insert :: "'k \<Rightarrow> 'v \<Rightarrow> ('k, 'v) hmap \<Rightarrow> ('k, 'v) hmap" where
  "hm_insert k v m \<equiv> AList.update k v m"

abbreviation hm_remove :: "'k \<Rightarrow> ('k, 'v) hmap \<Rightarrow> ('k, 'v) hmap" where
  "hm_remove k m \<equiv> AList.delete k m"

abbreviation hm_keys :: "('k, 'v) hmap \<Rightarrow> 'k list" where
  "hm_keys m \<equiv> map fst m"

definition hm_contains :: "('k, 'v) hmap \<Rightarrow> 'k \<Rightarrow> bool" where
  "hm_contains m k = (hm_get m k \<noteq> None)"

text \<open>\<open>m.entry(k).or_insert_with(|| v)\<close>\<close>

definition hm_or_insert :: "'k \<Rightarrow> 'v \<Rightarrow> ('k, 'v) hmap \<Rightarrow> ('k, 'v) hmap" where
  "hm_or_insert k v m = (case hm_get m k of None \<Rightarrow> hm_insert k v m | Some _ \<Rightarrow> m)"

lemma hm_get_insert [simp]:
  "hm_get (hm_insert k v m) k' = (if k' = k then Some v else hm_get m k')"
  by (simp add: update_conv)

lemma hm_get_remove [simp]:
  "hm_get (hm_remove k m) k' = (if k' = k then None else hm_get m k')"
  by (simp add: delete_conv)

lemma hm_get_or_insert [simp]:
  "hm_get (hm_or_insert k v m) k' =
     (if k' = k \<and> hm_get m k = None then Some v else hm_get m k')"
  by (auto simp: hm_or_insert_def split: option.split)

lemma hm_contains_insert [simp]:
  "hm_contains (hm_insert k v m) k' \<longleftrightarrow> k' = k \<or> hm_contains m k'"
  by (simp add: hm_contains_def)

lemma hm_contains_iff: "hm_contains m k \<longleftrightarrow> k \<in> set (hm_keys m)"
  by (auto simp: hm_contains_def map_of_eq_None_iff)

lemma distinct_hm_insert [simp, intro]:
  "distinct (hm_keys m) \<Longrightarrow> distinct (hm_keys (hm_insert k v m))"
  by (rule distinct_update)

lemma hm_insert_fresh: "hm_get m k = None \<Longrightarrow> hm_insert k v m = m @ [(k, v)]"
  by (induction m) auto

section \<open>Lists\<close>

text \<open>A vector built by pushing each decoded element, against the encoder's loop.\<close>

lemma concat_map_single: "concat (map (\<lambda>x. [f x]) xs) = map f xs"
  by (induction xs) auto

lemma find_Some_iff_first:
  "List.find P xs = Some x \<longleftrightarrow>
     (\<exists>pre post. xs = pre @ x # post \<and> P x \<and> (\<forall>y\<in>set pre. \<not> P y))"
proof (induction xs)
  case Nil
  then show ?case by simp
next
  case (Cons a xs)
  show ?case
  proof (cases "P a")
    case True
    then show ?thesis by (auto simp: Cons_eq_append_conv)
  next
    case False
    then show ?thesis
      using Cons.IH by (auto simp: Cons_eq_append_conv) (metis append_Cons set_ConsD)
  qed
qed

lemma find_SomeD: "List.find P xs = Some x \<Longrightarrow> P x \<and> x \<in> set xs"
  by (auto simp: find_Some_iff)

lemma take_drop_Suc_nth:
  "i < length xs \<Longrightarrow> drop i xs = xs ! i # drop (Suc i) xs"
  by (simp add: Cons_nth_drop_Suc)

end
