(* ===== verification/Rust_Bytes.thy ===== *)
theory Rust_Bytes
  imports Dmq_Prelude
begin

text \<open>
  Big-endian integer encoding (\<open>to_be_bytes\<close>, \<open>from_be_bytes\<close>) at every width, reads of a
  field of a buffer, and the cursor readers \<open>read_u8\<close>, \<open>read_u16\<close>, \<open>read_u64\<close> that
  \<open>cluster.rs\<close> and \<open>cluster_state.rs\<close> share: each takes the buffer and the offset and
  returns the value with the advanced offset, or the error the sources return on a short
  buffer.  The locale of fixed-width codecs states what the message layer relies on; it
  is interpreted for the three widths in use.
\<close>

section \<open>Big-endian bytes of a natural number\<close>

primrec be_of_nat :: "nat \<Rightarrow> nat \<Rightarrow> bytes" where
  "be_of_nat 0 n = []"
| "be_of_nat (Suc k) n = be_of_nat k (n div 256) @ [of_nat n]"

definition nat_of_be :: "bytes \<Rightarrow> nat" where
  "nat_of_be bs = foldl (\<lambda>a b. a * 256 + unat b) 0 bs"

lemma length_be_of_nat [simp]: "length (be_of_nat k n) = k"
  by (induction k arbitrary: n) auto

lemma be_of_nat_zero: "be_of_nat k 0 = replicate k 0"
  by (induction k) (simp_all add: replicate_append_same)

lemma nat_of_be_Nil [simp]: "nat_of_be [] = 0"
  by (simp add: nat_of_be_def)

lemma nat_of_be_snoc [simp]: "nat_of_be (bs @ [b]) = nat_of_be bs * 256 + unat b"
  by (simp add: nat_of_be_def)

lemma unat_of_nat_u8 [simp]: "unat (of_nat n :: u8) = n mod 256"
  by (simp add: unat_of_nat)

lemma nat_of_be_of_nat: "nat_of_be (be_of_nat k n) = n mod 256 ^ k"
proof (induction k arbitrary: n)
  case 0
  then show ?case by simp
next
  case (Suc k)
  have "n mod (256 * 256 ^ k) = 256 * (n div 256 mod 256 ^ k) + n mod 256"
    by (rule mod_mult2_eq)
  then show ?case by (simp add: Suc.IH)
qed

lemma nat_of_be_bound: "nat_of_be bs < 256 ^ length bs"
proof (induction bs rule: rev_induct)
  case Nil
  then show ?case by simp
next
  case (snoc b bs)
  have b: "unat b < 256" using unsigned_less [of b] by simp
  have "nat_of_be bs * 256 + unat b < (nat_of_be bs + 1) * 256" using b by simp
  also have "\<dots> \<le> 256 ^ length bs * 256"
    using snoc by (intro mult_le_mono1) simp
  finally show ?case by simp
qed

lemma be_of_nat_of_be: "length bs = k \<Longrightarrow> be_of_nat k (nat_of_be bs) = bs"
proof (induction k arbitrary: bs)
  case 0
  then show ?case by simp
next
  case (Suc k)
  then obtain xs b where bs: "bs = xs @ [b]"
    by (metis length_Suc_conv_rev)
  have "unat b < 256" using unsigned_less [of b] by simp
  moreover have "(of_nat (nat_of_be xs * 256 + unat b) :: u8) = b"
    using \<open>unat b < 256\<close> by (simp only: word_unat_eq_iff unat_of_nat_u8) simp
  ultimately show ?case using Suc bs by simp
qed

section \<open>Integers to and from bytes\<close>

definition to_be_bytes :: "'a::len word \<Rightarrow> bytes" where
  "to_be_bytes w = be_of_nat (LENGTH('a) div 8) (unat w)"

definition from_be_bytes :: "bytes \<Rightarrow> 'a::len word" where
  "from_be_bytes bs = of_nat (nat_of_be bs)"

lemma from_to_be_bytes:
  assumes "8 dvd LENGTH('a::len)"
  shows "from_be_bytes (to_be_bytes (w :: 'a word)) = w"
proof -
  have "(256::nat) ^ (LENGTH('a) div 8) = 2 ^ (8 * (LENGTH('a) div 8))"
    by (simp add: power_mult)
  also have "8 * (LENGTH('a) div 8) = LENGTH('a)"
    using assms by simp
  finally have "(256::nat) ^ (LENGTH('a) div 8) = 2 ^ LENGTH('a)" .
  then have "nat_of_be (to_be_bytes w) = unat w"
    using unsigned_less [of w] by (simp add: to_be_bytes_def nat_of_be_of_nat)
  then show ?thesis by (simp add: from_be_bytes_def)
qed

lemma length_to_be_bytes [simp]: "length (to_be_bytes (w :: 'a::len word)) = LENGTH('a) div 8"
  by (simp add: to_be_bytes_def)

text \<open>The bytes of each width, as the evaluation of closed terms needs them.\<close>

lemma to_be_bytes_u16: "to_be_bytes (w :: u16) = [of_nat (unat w div 256), of_nat (unat w)]"
  by (simp add: to_be_bytes_def numeral_2_eq_2)

lemma to_be_bytes_u32:
  "to_be_bytes (w :: u32) =
     [of_nat (unat w div 16777216), of_nat (unat w div 65536), of_nat (unat w div 256),
      of_nat (unat w)]"
proof -
  have four: "LENGTH(32) div 8 = Suc (Suc (Suc (Suc 0)))" by simp
  show ?thesis
    unfolding to_be_bytes_def four by (simp add: div_mult2_eq [symmetric])
qed

lemma from_be_bytes_pair: "(from_be_bytes [a, b] :: u16) = of_nat (unat a * 256 + unat b)"
  by (simp add: from_be_bytes_def nat_of_be_def)

text \<open>The field of \<open>n\<close> bytes at index \<open>i\<close>: \<open>uN::from_be_bytes([bs[i], \<dots>])\<close>.\<close>

definition be_at :: "nat \<Rightarrow> nat \<Rightarrow> bytes \<Rightarrow> 'a::len word" where
  "be_at i n bs = from_be_bytes (slice i (i + n) bs)"

section \<open>Fixed-width codecs\<close>

text \<open>
  What the message layer relies on for a field: encoding has a constant width and reading
  the field back at the position where it was written gives the value.
\<close>

locale fixed_codec =
  fixes enc :: "'v \<Rightarrow> bytes"
    and dec :: "bytes \<Rightarrow> 'v"
    and width :: nat
  assumes enc_width: "length (enc v) = width"
    and dec_enc: "dec (enc v) = v"
begin

lemma enc_inj: "enc v = enc v' \<Longrightarrow> v = v'"
  using dec_enc by metis

lemma field_read:
  assumes "i = length pre"
  shows "dec (slice i (i + width) (pre @ enc v @ post)) = v"
proof -
  have "slice i (i + width) (pre @ enc v @ post) = enc v"
    using assms enc_width by (intro slice_append_mid) auto
  then show ?thesis by (simp add: dec_enc)
qed

lemma field_read_head: "dec (slice 0 width (enc v @ post)) = v"
  using field_read [of 0 "[]" v post] by simp

lemma enc_concat_length: "length (concat (map enc vs)) = width * length vs"
  by (induction vs) (auto simp: enc_width)

end

interpretation u16c: fixed_codec "to_be_bytes :: u16 \<Rightarrow> bytes" from_be_bytes 2
  by unfold_locales (simp_all add: from_to_be_bytes)

interpretation u32c: fixed_codec "to_be_bytes :: u32 \<Rightarrow> bytes" from_be_bytes 4
  by unfold_locales (simp_all add: from_to_be_bytes)

interpretation u64c: fixed_codec "to_be_bytes :: u64 \<Rightarrow> bytes" from_be_bytes 8
  by unfold_locales (simp_all add: from_to_be_bytes)

lemmas be_at_read [codec_simps] =
  u16c.field_read [folded be_at_def] u32c.field_read [folded be_at_def]
  u64c.field_read [folded be_at_def]

text \<open>Skipping the fields before the one that is read, and the field at the front.\<close>

lemma be_at_skip [codec_simps]:
  "length xs \<le> i \<Longrightarrow> be_at i n (xs @ ys) = be_at (i - length xs) n ys"
  "0 < i \<Longrightarrow> be_at i n (x # ys) = be_at (i - 1) n ys"
  by (auto simp: be_at_def slice_def drop_Cons')

lemmas be_at_head [codec_simps] =
  be_at_read [where i = 0 and pre = "[]", simplified]
  be_at_read [where i = 0 and pre = "[]" and post = "[]", simplified]

lemmas be_dec_enc [simp] = u16c.dec_enc u32c.dec_enc u64c.dec_enc

section \<open>Cursor readers\<close>

definition short_buffer :: "'a io_result" where
  "short_buffer = io_err UnexpectedEof ''short buffer''"

definition read_u8 :: "bytes \<Rightarrow> nat \<Rightarrow> (u8 \<times> nat) io_result" where
  "read_u8 payload offset =
     (if offset \<ge> length payload then short_buffer
      else Inr (payload ! offset, offset + 1))"

definition read_u16 :: "bytes \<Rightarrow> nat \<Rightarrow> (u16 \<times> nat) io_result" where
  "read_u16 payload offset =
     (if offset + 2 > length payload then short_buffer
      else Inr (be_at offset 2 payload, offset + 2))"

definition read_u64 :: "bytes \<Rightarrow> nat \<Rightarrow> (u64 \<times> nat) io_result" where
  "read_u64 payload offset =
     (if offset + 8 > length payload then short_buffer
      else Inr (be_at offset 8 payload, offset + 8))"

lemma short_buffer_not_ok [simp]: "short_buffer \<noteq> Inr a" "\<not> panics short_buffer"
  by (simp_all add: short_buffer_def)

lemma read_u8_at [codec_simps]:
  "i = length pre \<Longrightarrow> read_u8 (pre @ b # post) i = Inr (b, i + 1)"
  by (simp add: read_u8_def)

lemma read_u16_at [codec_simps]:
  "i = length pre \<Longrightarrow> read_u16 (pre @ to_be_bytes v @ post) i = Inr (v, i + 2)"
  by (simp add: read_u16_def be_at_read)

lemma read_u64_at [codec_simps]:
  "i = length pre \<Longrightarrow> read_u64 (pre @ to_be_bytes v @ post) i = Inr (v, i + 8)"
  by (simp add: read_u64_def be_at_read)

lemma readers_no_panic [simp]:
  "\<not> panics (read_u8 bs i)" "\<not> panics (read_u16 bs i)" "\<not> panics (read_u64 bs i)"
  by (simp_all add: read_u8_def read_u16_def read_u64_def)

text \<open>A counted loop of a reader: \<open>for _ in 0..n { v.push(read(..)?) }\<close>.\<close>

fun read_many :: "(bytes \<Rightarrow> nat \<Rightarrow> ('a \<times> nat) io_result) \<Rightarrow> nat \<Rightarrow> bytes \<Rightarrow> nat \<Rightarrow> ('a list \<times> nat) io_result" where
  "read_many rd 0 bs i = Inr ([], i)"
| "read_many rd (Suc n) bs i =
     res_bind (rd bs i) (\<lambda>(x, j). res_bind (read_many rd n bs j) (\<lambda>(xs, k). Inr (x # xs, k)))"

text \<open>
  Reading back the concatenation of the encodings of a list, in the middle of a buffer,
  when the element reader reads back one encoding there.
\<close>

lemma read_many_concat:
  assumes rd: "\<And>x pre post. x \<in> set xs \<Longrightarrow>
      rd (pre @ enc x @ post) (length pre) = Inr (x, length pre + length (enc x))"
  shows "read_many rd (length xs) (pre @ concat (map enc xs) @ post) (length pre) =
           Inr (xs, length pre + length (concat (map enc xs)))"
  using rd
proof (induction xs arbitrary: pre)
  case Nil
  then show ?case by simp
next
  case (Cons x xs)
  have tl: "read_many rd (length xs) ((pre @ enc x) @ concat (map enc xs) @ post)
      (length (pre @ enc x)) = Inr (xs, length (pre @ enc x) + length (concat (map enc xs)))"
    by (rule Cons.IH) (use Cons.prems in simp)
  have hd: "rd (pre @ enc x @ concat (map enc xs) @ post) (length pre)
      = Inr (x, length pre + length (enc x))"
    using Cons.prems by simp
  from tl hd show ?case by (simp add: add.assoc)
qed

end
