(* ===== verification/Rust_Text.thy ===== *)
theory Rust_Text
  imports Rust_Bytes
begin

text \<open>
  What the sources use of Rust's text library: UTF-8 (\<open>String::from_utf8\<close>,
  \<open>from_utf8_lossy\<close>, \<open>as_bytes\<close>), decimal formatting and \<open>str::parse\<close> of unsigned
  integers, \<open>split\<close>, \<open>strip_prefix\<close>, \<open>strip_suffix\<close>, ASCII case folding, and the
  process environment with the two idioms by which the configuration functions read it.

  A Rust string is a HOL string whose characters are its UTF-8 bytes; \<open>valid_str\<close> says
  that it is one.
\<close>

section \<open>UTF-8\<close>

definition utf8_cont :: "u8 \<Rightarrow> bool" where
  "utf8_cont b \<longleftrightarrow> 0x80 \<le> b \<and> b \<le> 0xBF"

text \<open>The second byte of a three- or four-byte sequence, by its first byte.\<close>

definition utf8_second :: "u8 \<Rightarrow> u8 \<Rightarrow> bool" where
  "utf8_second b c =
     (if b = 0xE0 then 0xA0 \<le> c \<and> c \<le> 0xBF
      else if b = 0xED then 0x80 \<le> c \<and> c \<le> 0x9F
      else if b = 0xF0 then 0x90 \<le> c \<and> c \<le> 0xBF
      else if b = 0xF4 then 0x80 \<le> c \<and> c \<le> 0x8F
      else utf8_cont c)"

text \<open>The conditions on the bytes that follow a first byte; no character starts with others.\<close>

definition utf8_tail :: "u8 \<Rightarrow> (u8 \<Rightarrow> bool) list option" where
  "utf8_tail b =
     (if b < 0x80 then Some []
      else if 0xC2 \<le> b \<and> b \<le> 0xDF then Some [utf8_cont]
      else if 0xE0 \<le> b \<and> b \<le> 0xEF then Some [utf8_second b, utf8_cont]
      else if 0xF0 \<le> b \<and> b \<le> 0xF4 then Some [utf8_second b, utf8_cont, utf8_cont]
      else None)"

fun utf8_match :: "(u8 \<Rightarrow> bool) list \<Rightarrow> bytes \<Rightarrow> nat \<times> bool" where
  "utf8_match [] cs = (0, True)"
| "utf8_match (p # ps) [] = (0, False)"
| "utf8_match (p # ps) (c # cs) =
     (if p c then (case utf8_match ps cs of (n, ok) \<Rightarrow> (Suc n, ok)) else (0, False))"

text \<open>
  One step of the decoder at first byte \<open>b\<close> with \<open>rest\<close> behind it: how many bytes it
  consumes and whether they are a character.  An ill-formed sequence consumes its maximal
  well-formed prefix, at least one byte.
\<close>

definition utf8_step :: "u8 \<Rightarrow> bytes \<Rightarrow> nat \<times> bool" where
  "utf8_step b rest =
     (case utf8_tail b of
        None \<Rightarrow> (1, False)
      | Some ps \<Rightarrow> (case utf8_match ps rest of (n, ok) \<Rightarrow> (Suc n, ok)))"

lemma utf8_step_pos: "0 < fst (utf8_step b rest)"
  by (auto simp: utf8_step_def split: option.split prod.split)

function utf8_valid :: "bytes \<Rightarrow> bool" where
  "utf8_valid [] = True"
| "utf8_valid (b # rest) =
     (snd (utf8_step b rest) \<and> utf8_valid (drop (fst (utf8_step b rest)) (b # rest)))"
  by pat_completeness auto
termination
  by (relation "measure length") (use utf8_step_pos in \<open>auto simp: diff_less\<close>)

text \<open>\<open>from_utf8_lossy\<close>: U+FFFD (three bytes) for every ill-formed sequence.\<close>

definition replacement :: bytes where
  "replacement = [0xEF, 0xBF, 0xBD]"

function utf8_lossy :: "bytes \<Rightarrow> bytes" where
  "utf8_lossy [] = []"
| "utf8_lossy (b # rest) =
     (if snd (utf8_step b rest) then take (fst (utf8_step b rest)) (b # rest) else replacement)
     @ utf8_lossy (drop (fst (utf8_step b rest)) (b # rest))"
  by pat_completeness auto
termination
  by (relation "measure length") (use utf8_step_pos in \<open>auto simp: diff_less\<close>)

declare utf8_valid.simps(2) [simp del] utf8_lossy.simps(2) [simp del]

lemma utf8_lossy_valid: "utf8_valid bs \<Longrightarrow> utf8_lossy bs = bs"
proof (induction bs rule: utf8_valid.induct)
  case 1
  then show ?case by simp
next
  case (2 b rest)
  let ?n = "fst (utf8_step b rest)"
  from 2 have "utf8_lossy (drop ?n (b # rest)) = drop ?n (b # rest)"
    by (auto simp: utf8_valid.simps(2))
  with 2 show ?case
    by (simp add: utf8_lossy.simps(2) [of b rest] utf8_valid.simps(2) append_take_drop_id
        del: drop_Cons take_Cons)
qed

text \<open>A step that accepts looks at the accepted bytes only.\<close>

lemma utf8_match_accept:
  "utf8_match ps cs = (n, True) \<Longrightarrow>
     n \<le> length cs \<and> utf8_match ps (take n cs @ more) = (n, True)"
  by (induction ps cs arbitrary: n rule: utf8_match.induct)
    (auto split: if_splits prod.splits)

lemma utf8_step_accept_prefix:
  assumes "utf8_step b rest = (Suc n, True)"
  shows "n \<le> length rest" and "utf8_step b (take n rest @ more) = (Suc n, True)"
  using assms utf8_match_accept [of _ rest n more]
  by (auto simp: utf8_step_def split: option.splits prod.splits)

lemma utf8_valid_chunk:
  assumes "snd (utf8_step b rest)"
  shows "utf8_valid (take (fst (utf8_step b rest)) (b # rest) @ more) = utf8_valid more"
proof -
  obtain n where st: "utf8_step b rest = (Suc n, True)"
    using assms utf8_step_pos [of b rest] by (metis Suc_pred prod.collapse)
  from utf8_step_accept_prefix [OF st] have "n \<le> length rest"
    and "utf8_step b (take n rest @ more) = (Suc n, True)" by blast+
  then show ?thesis using st by (simp add: utf8_valid.simps(2))
qed

lemma utf8_valid_replacement: "utf8_valid (replacement @ more) = utf8_valid more"
proof -
  have st: "utf8_step 0xEF (0xBF # 0xBD # more) = (3, True)"
    by (simp add: utf8_step_def utf8_tail_def utf8_second_def utf8_cont_def)
  show ?thesis by (simp add: replacement_def utf8_valid.simps(2) st)
qed

lemma utf8_valid_lossy: "utf8_valid (utf8_lossy bs)"
proof (induction bs rule: utf8_lossy.induct)
  case 1
  then show ?case by simp
next
  case (2 b rest)
  then show ?case
    by (cases "snd (utf8_step b rest)")
      (simp_all only: utf8_lossy.simps(2) if_True if_False utf8_valid_chunk
        utf8_valid_replacement)
qed

lemma utf8_valid_ascii: "\<forall>b\<in>set bs. b < 0x80 \<Longrightarrow> utf8_valid (bs @ more) = utf8_valid more"
proof (induction bs)
  case Nil
  then show ?case by simp
next
  case (Cons b bs)
  then have "utf8_step b (bs @ more) = (1, True)"
    by (simp add: utf8_step_def utf8_tail_def)
  with Cons show ?case by (simp add: utf8_valid.simps(2))
qed

section \<open>Strings and their bytes\<close>

definition as_bytes :: "string \<Rightarrow> bytes" where
  "as_bytes s = map of_char s"

definition string_of_bytes :: "bytes \<Rightarrow> string" where
  "string_of_bytes bs = map (\<lambda>b. char_of (unat b)) bs"

definition valid_str :: "string \<Rightarrow> bool" where
  "valid_str s = utf8_valid (as_bytes s)"

definition from_utf8 :: "bytes \<Rightarrow> string option" where
  "from_utf8 bs = (if utf8_valid bs then Some (string_of_bytes bs) else None)"

definition from_utf8_lossy :: "bytes \<Rightarrow> string" where
  "from_utf8_lossy bs = string_of_bytes (utf8_lossy bs)"

lemma unat_of_char_u8: "unat (of_char c :: u8) = of_char c"
proof -
  have "(of_char c :: u8) = of_nat (of_char c)" by (simp add: of_char_def)
  moreover have "(of_char c :: nat) < 256" by simp
  ultimately show ?thesis by (metis unat_of_nat_u8 mod_less)
qed

lemma string_of_bytes_as_bytes [simp]: "string_of_bytes (as_bytes s) = s"
  by (induction s) (auto simp: as_bytes_def string_of_bytes_def unat_of_char_u8)

lemma as_bytes_string_of_bytes [simp]: "as_bytes (string_of_bytes bs) = bs"
proof -
  have "(of_char (char_of (unat b) :: char) :: u8) = b" for b :: u8
  proof -
    have "unat b < 256" using unsigned_less [of b] by simp
    then have "(of_char (char_of (unat b)) :: nat) = unat b" by simp
    then have "unat (of_char (char_of (unat b) :: char) :: u8) = unat b"
      by (simp add: unat_of_char_u8)
    then show ?thesis by (simp only: word_unat_eq_iff)
  qed
  then show ?thesis by (simp add: as_bytes_def string_of_bytes_def map_idI)
qed

lemma length_as_bytes [simp]: "length (as_bytes s) = length s"
  by (simp add: as_bytes_def)

lemma from_utf8_as_bytes: "valid_str s \<Longrightarrow> from_utf8 (as_bytes s) = Some s"
  by (simp add: from_utf8_def valid_str_def)

lemma from_utf8_lossy_as_bytes: "valid_str s \<Longrightarrow> from_utf8_lossy (as_bytes s) = s"
  by (simp add: from_utf8_lossy_def valid_str_def utf8_lossy_valid)

lemma valid_str_lossy: "valid_str (from_utf8_lossy bs)"
  by (simp add: valid_str_def from_utf8_lossy_def utf8_valid_lossy)

lemma from_utf8_SomeD: "from_utf8 bs = Some s \<Longrightarrow> valid_str s \<and> as_bytes s = bs"
  by (auto simp: from_utf8_def valid_str_def split: if_splits)

section \<open>Decimal numbers\<close>

definition digit_char :: "nat \<Rightarrow> char" where
  "digit_char d = char_of (48 + d)"

fun show_nat :: "nat \<Rightarrow> string" where
  "show_nat n = (if n < 10 then [digit_char n] else show_nat (n div 10) @ [digit_char (n mod 10)])"

declare show_nat.simps [simp del]

abbreviation show_word :: "'a::len word \<Rightarrow> string" where
  "show_word w \<equiv> show_nat (unat w)"

definition digit_val :: "char \<Rightarrow> nat option" where
  "digit_val c =
     (let k = of_char c :: nat in if 48 \<le> k \<and> k \<le> 57 then Some (k - 48) else None)"

fun digits_val :: "nat \<Rightarrow> string \<Rightarrow> nat option" where
  "digits_val acc [] = Some acc"
| "digits_val acc (c # cs) =
     (case digit_val c of None \<Rightarrow> None | Some d \<Rightarrow> digits_val (acc * 10 + d) cs)"

text \<open>
  \<open>s.parse::<uN>()\<close>: an optional plus sign, at least one digit, digits only, and a value
  the type holds.
\<close>

definition parse_uint :: "nat \<Rightarrow> string \<Rightarrow> nat option" where
  "parse_uint hi s =
     (let ds = (case s of c # cs \<Rightarrow> if c = CHR ''+'' then cs else s | [] \<Rightarrow> [])
      in if ds = [] then None
         else case digits_val 0 ds of
                None \<Rightarrow> None
              | Some n \<Rightarrow> if n \<le> hi then Some n else None)"

definition parse_word :: "string \<Rightarrow> 'a::len word option" where
  "parse_word s = map_option of_nat (parse_uint (2 ^ LENGTH('a) - 1) s)"

lemma digit_val_char: "d < 10 \<Longrightarrow> digit_val (digit_char d) = Some d"
  by (simp add: digit_val_def digit_char_def Let_def)

lemma digits_val_append:
  "digits_val acc (xs @ ys) =
     (case digits_val acc xs of None \<Rightarrow> None | Some a \<Rightarrow> digits_val a ys)"
  by (induction xs arbitrary: acc) (auto split: option.split)

lemma digits_val_show: "digits_val 0 (show_nat n) = Some n"
proof (induction n rule: show_nat.induct)
  case (1 n)
  show ?case
  proof (cases "n < 10")
    case True
    then show ?thesis by (simp add: show_nat.simps [of n] digit_val_char)
  next
    case False
    with 1 show ?thesis
      by (simp add: show_nat.simps [of n] digits_val_append digit_val_char)
  qed
qed

lemma show_nat_nonempty [simp]: "show_nat n \<noteq> []"
  by (simp add: show_nat.simps [of n])

lemma show_nat_digits: "c \<in> set (show_nat n) \<Longrightarrow> \<exists>d<10. c = digit_char d"
proof (induction n rule: show_nat.induct)
  case (1 n)
  show ?case
  proof (cases "n < 10")
    case True
    with 1 show ?thesis by (auto simp: show_nat.simps [of n])
  next
    case False
    with "1.prems" have "c \<in> set (show_nat (n div 10)) \<or> c = digit_char (n mod 10)"
      by (auto simp: show_nat.simps [of n])
    with 1 False show ?thesis by (metis mod_less_divisor zero_less_numeral)
  qed
qed

lemma digit_char_neq:
  assumes "d < 10"
  shows "digit_char d \<noteq> CHR ''+''" "digit_char d \<noteq> CHR ''_''" "digit_char d \<noteq> CHR '':''"
    "digit_char d \<noteq> CHR ''.''"
proof -
  have "(of_char (digit_char d) :: nat) = 48 + d" using assms by (simp add: digit_char_def)
  with assms show "digit_char d \<noteq> CHR ''+''" "digit_char d \<noteq> CHR ''_''"
    "digit_char d \<noteq> CHR '':''" "digit_char d \<noteq> CHR ''.''" by auto
qed

lemma show_nat_no_sep [simp]:
  "CHR ''_'' \<notin> set (show_nat n)" "CHR '':'' \<notin> set (show_nat n)"
  "CHR ''.'' \<notin> set (show_nat n)" "CHR ''+'' \<notin> set (show_nat n)"
  using show_nat_digits digit_char_neq by metis+

lemma parse_uint_show: "n \<le> hi \<Longrightarrow> parse_uint hi (show_nat n) = Some n"
proof (cases "show_nat n")
  case Nil
  then show ?thesis by simp
next
  case (Cons c cs)
  have "c \<noteq> CHR ''+''" using show_nat_no_sep(4) [of n] Cons by auto
  moreover have "digits_val 0 (c # cs) = Some n"
    using digits_val_show [of n] Cons by simp
  moreover assume "n \<le> hi"
  ultimately show ?thesis using Cons by (simp add: parse_uint_def Let_def)
qed

lemma parse_word_show: "parse_word (show_word (w :: 'a::len word)) = Some w"
proof -
  have "unat w \<le> 2 ^ LENGTH('a) - 1"
    using unsigned_less [of w, where ?'a = nat] by linarith
  then show ?thesis by (simp add: parse_word_def parse_uint_show)
qed

lemma show_word_inj: "show_word (a :: 'a::len word) = show_word b \<Longrightarrow> a = b"
  using parse_word_show by (metis option.inject)

section \<open>Splitting\<close>

fun split_on :: "char \<Rightarrow> string \<Rightarrow> string list" where
  "split_on c [] = [[]]"
| "split_on c (x # xs) =
     (if x = c then [] # split_on c xs
      else (case split_on c xs of y # ys \<Rightarrow> (x # y) # ys | [] \<Rightarrow> [[x]]))"

fun join_with :: "char \<Rightarrow> string list \<Rightarrow> string" where
  "join_with c [] = []"
| "join_with c [x] = x"
| "join_with c (x # y # ys) = x @ [c] @ join_with c (y # ys)"

lemma split_on_nonempty [simp]: "split_on c s \<noteq> []"
  by (cases s) (auto split: list.split)

lemma split_on_no_sep: "c \<notin> set s \<Longrightarrow> split_on c s = [s]"
  by (induction s) auto

lemma split_on_append: "c \<notin> set s \<Longrightarrow> split_on c (s @ c # t) = s # split_on c t"
  by (induction s) auto

lemma split_on_join:
  "xs \<noteq> [] \<Longrightarrow> \<forall>x\<in>set xs. c \<notin> set x \<Longrightarrow> split_on c (join_with c xs) = xs"
  by (induction c xs rule: join_with.induct) (auto simp: split_on_no_sep split_on_append)

definition strip_prefix :: "string \<Rightarrow> string \<Rightarrow> string option" where
  "strip_prefix p s = (if prefix p s then Some (drop (length p) s) else None)"

definition strip_suffix :: "string \<Rightarrow> string \<Rightarrow> string option" where
  "strip_suffix p s =
     (if suffix p s then Some (take (length s - length p) s) else None)"

lemma strip_prefix_append [simp]: "strip_prefix p (p @ s) = Some s"
  by (simp add: strip_prefix_def)

lemma strip_suffix_append [simp]: "strip_suffix p (s @ p) = Some s"
  by (simp add: strip_suffix_def suffix_def)

lemma strip_prefix_SomeD: "strip_prefix p s = Some t \<Longrightarrow> s = p @ t"
  by (auto simp: strip_prefix_def prefix_def split: if_splits)

lemma strip_suffix_SomeD: "strip_suffix p s = Some t \<Longrightarrow> s = t @ p"
  by (auto simp: strip_suffix_def suffix_def split: if_splits)

section \<open>White space\<close>

text \<open>
  \<open>trim\<close> removes the characters with the property \<open>White_Space\<close> at both ends; the list has
  their UTF-8 encodings.
\<close>

definition white_space :: "string list" where
  "white_space =
     map (\<lambda>b. [char_of b]) [9, 10, 11, 12, 13, 32 :: nat]
     @ map (map char_of) [[0xC2, 0x85], [0xC2, 0xA0], [0xE1, 0x9A, 0x80 :: nat]]
     @ map (\<lambda>b. map char_of [0xE2, 0x80, b]) ([0x80..<0x8B] @ [0xA8, 0xA9, 0xAF])
     @ map (map char_of) [[0xE2, 0x81, 0x9F], [0xE3, 0x80, 0x80 :: nat]]"

lemma white_space_nonempty: "w \<in> set white_space \<Longrightarrow> w \<noteq> []"
  by (auto simp: white_space_def)

function trim_start :: "string \<Rightarrow> string" where
  "trim_start s =
     (case List.find (\<lambda>w. prefix w s) white_space of
        None \<Rightarrow> s
      | Some w \<Rightarrow> trim_start (drop (length w) s))"
  by pat_completeness auto

termination
  by (relation "measure length") (auto simp: find_Some_iff prefix_def dest!: white_space_nonempty [OF nth_mem])

function trim_end :: "string \<Rightarrow> string" where
  "trim_end s =
     (case List.find (\<lambda>w. suffix w s) white_space of
        None \<Rightarrow> s
      | Some w \<Rightarrow> trim_end (take (length s - length w) s))"
  by pat_completeness auto

termination
  by (relation "measure length") (auto simp: find_Some_iff suffix_def dest!: white_space_nonempty [OF nth_mem])

declare trim_start.simps [simp del] trim_end.simps [simp del]

definition trim :: "string \<Rightarrow> string" where
  "trim s = trim_end (trim_start s)"

text \<open>A text that neither starts nor ends like white space is left alone.\<close>

lemma trim_id:
  assumes "\<forall>w\<in>set white_space. \<not> prefix w s \<and> \<not> suffix w s"
  shows "trim s = s"
proof -
  have "List.find (\<lambda>w. prefix w s) white_space = None" "List.find (\<lambda>w. suffix w s) white_space = None"
    using assms by (auto simp: find_None_iff)
  then show ?thesis by (simp add: trim_def trim_start.simps [of s] trim_end.simps [of s])
qed

section \<open>Case folding and the environment\<close>


definition ascii_lower_char :: "char \<Rightarrow> char" where
  "ascii_lower_char c =
     (let k = of_char c :: nat in if 65 \<le> k \<and> k \<le> 90 then char_of (k + 32) else c)"

definition to_ascii_lowercase :: "string \<Rightarrow> string" where
  "to_ascii_lowercase s = map ascii_lower_char s"

definition eq_ignore_ascii_case :: "string \<Rightarrow> string \<Rightarrow> bool" where
  "eq_ignore_ascii_case a b \<longleftrightarrow> to_ascii_lowercase a = to_ascii_lowercase b"

text \<open>\<open>std::env::var\<close>\<close>

type_synonym env = "string \<Rightarrow> string option"

text \<open>
  The two idioms: \<open>v == "1" || v.eq_ignore_ascii_case("true")\<close> with absence meaning
  \<open>false\<close>, and \<open>.ok().and_then(|s| s.parse().ok()).unwrap_or(default)\<close>.
\<close>

definition env_flag :: "env \<Rightarrow> string \<Rightarrow> bool" where
  "env_flag e name =
     (case e name of Some v \<Rightarrow> v = ''1'' \<or> eq_ignore_ascii_case v ''true'' | None \<Rightarrow> False)"

definition env_word :: "env \<Rightarrow> string \<Rightarrow> 'a::len word \<Rightarrow> 'a word" where
  "env_word e name dflt =
     (case e name of
        None \<Rightarrow> dflt
      | Some s \<Rightarrow> (case parse_word s of None \<Rightarrow> dflt | Some w \<Rightarrow> w))"

definition empty_env :: env where
  "empty_env = (\<lambda>_. None)"

lemma empty_env_simps [simp]:
  "empty_env x = None" "\<not> env_flag empty_env n" "env_word empty_env n d = d"
  by (simp_all add: empty_env_def env_flag_def env_word_def)

end
