(* ===== verification/Message.thy ===== *)
theory Message
  imports Rust_Text
begin

text \<open>
  The message types of \<open>dmq-protocol/src/message.rs\<close>, the encoder and decoder of every
  request, \<open>encode_message\<close> and \<open>parse_frame\<close>.  The locale \<open>request_codec\<close> is what the
  frame layer relies on for a request: encoding a request and decoding it gives it back,
  and decoding any bytes at all gives a request or an \<open>InvalidData\<close> error, never a
  panic.  It is interpreted for every request type.
\<close>

unbundle bit_operations_syntax

section \<open>Message type bytes\<close>

definition ECHO :: u8 where "ECHO = 1"
definition P_REG :: u8 where "P_REG = 2"
definition C_REG :: u8 where "C_REG = 3"
definition PCM :: u8 where "PCM = 4"
definition FETCH :: u8 where "FETCH = 5"
definition COMMIT :: u8 where "COMMIT = 6"
definition PRODUCE :: u8 where "PRODUCE = 7"
definition CREATE_TOPIC :: u8 where "CREATE_TOPIC = 8"
definition DESCRIBE_TOPIC :: u8 where "DESCRIBE_TOPIC = 9"
definition LIST_TOPICS :: u8 where "LIST_TOPICS = 10"
definition GET_LAG :: u8 where "GET_LAG = 11"
definition REPLICATE :: u8 where "REPLICATE = 12"
definition GET_CLUSTER :: u8 where "GET_CLUSTER = 13"
definition IDEMPOTENT_PRODUCE :: u8 where "IDEMPOTENT_PRODUCE = 14"
definition BROKER_HEARTBEAT :: u8 where "BROKER_HEARTBEAT = 15"
definition JOIN_GROUP :: u8 where "JOIN_GROUP = 16"
definition GROUP_HEARTBEAT :: u8 where "GROUP_HEARTBEAT = 17"
definition HANDSHAKE :: u8 where "HANDSHAKE = 18"
definition R_ECHO :: u8 where "R_ECHO = 101"
definition R_P_REG :: u8 where "R_P_REG = 102"
definition R_C_REG :: u8 where "R_C_REG = 103"
definition R_PCM :: u8 where "R_PCM = 104"
definition R_FETCH :: u8 where "R_FETCH = 105"
definition R_COMMIT :: u8 where "R_COMMIT = 106"
definition R_PRODUCE :: u8 where "R_PRODUCE = 107"
definition R_CREATE_TOPIC :: u8 where "R_CREATE_TOPIC = 108"
definition R_DESCRIBE_TOPIC :: u8 where "R_DESCRIBE_TOPIC = 109"
definition R_LIST_TOPICS :: u8 where "R_LIST_TOPICS = 110"
definition R_GET_LAG :: u8 where "R_GET_LAG = 111"
definition R_REPLICATE :: u8 where "R_REPLICATE = 112"
definition R_GET_CLUSTER :: u8 where "R_GET_CLUSTER = 113"
definition R_NOT_LEADER :: u8 where "R_NOT_LEADER = 114"
definition R_BROKER_HEARTBEAT :: u8 where "R_BROKER_HEARTBEAT = 115"
definition R_JOIN_GROUP :: u8 where "R_JOIN_GROUP = 116"
definition R_GROUP_HEARTBEAT :: u8 where "R_GROUP_HEARTBEAT = 117"
definition R_HANDSHAKE :: u8 where "R_HANDSHAKE = 118"
definition R_ERROR :: u8 where "R_ERROR = 119"

lemmas type_codes =
  ECHO_def P_REG_def C_REG_def PCM_def FETCH_def
  COMMIT_def PRODUCE_def CREATE_TOPIC_def DESCRIBE_TOPIC_def LIST_TOPICS_def
  GET_LAG_def REPLICATE_def GET_CLUSTER_def IDEMPOTENT_PRODUCE_def BROKER_HEARTBEAT_def
  JOIN_GROUP_def GROUP_HEARTBEAT_def HANDSHAKE_def R_ECHO_def R_P_REG_def
  R_C_REG_def R_PCM_def R_FETCH_def R_COMMIT_def R_PRODUCE_def
  R_CREATE_TOPIC_def R_DESCRIBE_TOPIC_def R_LIST_TOPICS_def R_GET_LAG_def R_REPLICATE_def
  R_GET_CLUSTER_def R_NOT_LEADER_def R_BROKER_HEARTBEAT_def R_JOIN_GROUP_def R_GROUP_HEARTBEAT_def
  R_HANDSHAKE_def R_ERROR_def

section \<open>Requests\<close>

record producer_register =
  preg_port :: u16
  preg_topic_id :: u16

record consumer_register =
  creg_port :: u16
  creg_topic_id :: u16
  creg_group_id :: u16

record fetch_request =
  fetch_topic_id :: u16
  fetch_partition_id :: u16
  fetch_offset :: u64
  fetch_max_bytes :: u32
  fetch_max_wait_ms :: u32

record commit_offset_request =
  commit_group_id :: u16
  commit_topic_id :: u16
  commit_partition_id :: u16
  commit_offset_at :: u64

record produce_request =
  produce_topic_id :: u16
  produce_partition_id :: u16
  produce_payload :: bytes

record create_topic_request =
  create_topic_id :: u16
  create_partition_count :: u16
  create_max_records :: u32

record describe_topic_request =
  describe_topic_id :: u16

record get_lag_request =
  lag_group_id :: u16
  lag_topic_id :: u16

record replicate_request =
  repl_topic_id :: u16
  repl_partition_id :: u16
  repl_offset :: u64
  repl_payload :: bytes

record idempotent_produce_request =
  idem_topic_id :: u16
  idem_partition_id :: u16
  idem_producer_id :: u64
  idem_sequence :: u64
  idem_payload :: bytes

record broker_heartbeat_request =
  hb_broker_id :: u16

record join_group_request =
  join_group_id :: u16
  join_topic_id :: u16
  join_member_id :: u64

record group_heartbeat_request =
  ghb_group_id :: u16
  ghb_member_id :: u64
  ghb_generation :: u32

record handshake_request =
  hs_protocol_version :: u16
  hs_auth_token :: bytes

datatype message =
    Echo string
  | ProducerRegister producer_register
  | ConsumerRegister consumer_register
  | Pcm bytes
  | Fetch fetch_request
  | CommitOffset commit_offset_request
  | Produce produce_request
  | CreateTopic create_topic_request
  | DescribeTopic describe_topic_request
  | ListTopics
  | GetLag get_lag_request
  | Replicate replicate_request
  | GetCluster
  | IdempotentProduce idempotent_produce_request
  | BrokerHeartbeat broker_heartbeat_request
  | JoinGroup join_group_request
  | GroupHeartbeat group_heartbeat_request
  | Handshake handshake_request
  | REcho string
  | RProducerRegister u8
  | RConsumerRegister u8
  | RPcm u8
  | RFetch bytes
  | RCommitOffset u8
  | RProduce u64
  | RCreateTopic u8
  | RDescribeTopic bytes
  | RListTopics bytes
  | RGetLag bytes
  | RReplicate u8
  | RGetCluster bytes
  | RNotLeader u16
  | RBrokerHeartbeat u8
  | RJoinGroup bytes
  | RGroupHeartbeat u8 u8
  | RHandshake u8 u16
  | RError u8 string

section \<open>Encoders and decoders of requests\<close>

text \<open>The registrations write a 16-bit field as \<open>(w >> 8) as u8\<close> and \<open>(w & 0xff) as u8\<close>.\<close>

definition hi_lo :: "u16 \<Rightarrow> bytes" where
  "hi_lo w = [ucast (drop_bit 8 w), ucast (w AND 0xff)]"

definition too_short :: "string \<Rightarrow> 'a io_result" where
  "too_short what = io_err InvalidData (what @ '' payload too short'')"

definition producer_register_encode :: "producer_register \<Rightarrow> bytes" where
  "producer_register_encode r = hi_lo (preg_port r) @ hi_lo (preg_topic_id r)"

definition producer_register_decode :: "bytes \<Rightarrow> producer_register io_result" where
  "producer_register_decode payload =
     (if length payload < 4 then too_short ''P_REG''
      else Inr \<lparr>preg_port = be_at 0 2 payload, preg_topic_id = be_at 2 2 payload\<rparr>)"

definition consumer_register_encode :: "consumer_register \<Rightarrow> bytes" where
  "consumer_register_encode r =
     hi_lo (creg_port r) @ hi_lo (creg_topic_id r) @ hi_lo (creg_group_id r)"

definition consumer_register_decode :: "bytes \<Rightarrow> consumer_register io_result" where
  "consumer_register_decode payload =
     (if length payload < 6 then too_short ''C_REG''
      else Inr \<lparr>creg_port = be_at 0 2 payload, creg_topic_id = be_at 2 2 payload,
                creg_group_id = be_at 4 2 payload\<rparr>)"

definition broker_heartbeat_encode :: "broker_heartbeat_request \<Rightarrow> bytes" where
  "broker_heartbeat_encode r = to_be_bytes (hb_broker_id r)"

definition broker_heartbeat_decode :: "bytes \<Rightarrow> broker_heartbeat_request io_result" where
  "broker_heartbeat_decode payload =
     (if length payload < 2 then too_short ''BROKER_HEARTBEAT''
      else Inr \<lparr>hb_broker_id = be_at 0 2 payload\<rparr>)"

definition join_group_encode :: "join_group_request \<Rightarrow> bytes" where
  "join_group_encode r =
     to_be_bytes (join_group_id r) @ to_be_bytes (join_topic_id r) @ to_be_bytes (join_member_id r)"

definition join_group_decode :: "bytes \<Rightarrow> join_group_request io_result" where
  "join_group_decode payload =
     (if length payload < 12 then too_short ''JOIN_GROUP''
      else Inr \<lparr>join_group_id = be_at 0 2 payload, join_topic_id = be_at 2 2 payload,
                join_member_id = be_at 4 8 payload\<rparr>)"

definition group_heartbeat_encode :: "group_heartbeat_request \<Rightarrow> bytes" where
  "group_heartbeat_encode r =
     to_be_bytes (ghb_group_id r) @ to_be_bytes (ghb_member_id r) @ to_be_bytes (ghb_generation r)"

definition group_heartbeat_decode :: "bytes \<Rightarrow> group_heartbeat_request io_result" where
  "group_heartbeat_decode payload =
     (if length payload < 14 then too_short ''GROUP_HEARTBEAT''
      else Inr \<lparr>ghb_group_id = be_at 0 2 payload, ghb_member_id = be_at 2 8 payload,
                ghb_generation = be_at 10 4 payload\<rparr>)"

definition encode_join_group_response :: "u8 \<Rightarrow> u64 \<Rightarrow> u32 \<Rightarrow> u16 list \<Rightarrow> bytes" where
  "encode_join_group_response code member generation partitions =
     [code] @ to_be_bytes member @ to_be_bytes generation
     @ to_be_bytes (of_nat (length partitions) :: u16) @ concat (map to_be_bytes partitions)"

definition handshake_encode :: "handshake_request \<Rightarrow> bytes" where
  "handshake_encode r =
     to_be_bytes (hs_protocol_version r) @ to_be_bytes (of_nat (length (hs_auth_token r)) :: u16)
     @ hs_auth_token r"

definition handshake_decode :: "bytes \<Rightarrow> handshake_request io_result" where
  "handshake_decode payload =
     (if length payload < 4 then too_short ''HANDSHAKE''
      else let token_len = unat (be_at 2 2 payload :: u16)
           in if length payload < 4 + token_len
              then io_err InvalidData ''HANDSHAKE token truncated''
              else Inr \<lparr>hs_protocol_version = be_at 0 2 payload,
                        hs_auth_token = slice 4 (4 + token_len) payload\<rparr>)"

definition fetch_encode :: "fetch_request \<Rightarrow> bytes" where
  "fetch_encode r =
     to_be_bytes (fetch_topic_id r) @ to_be_bytes (fetch_partition_id r)
     @ to_be_bytes (fetch_offset r) @ to_be_bytes (fetch_max_bytes r)
     @ to_be_bytes (fetch_max_wait_ms r)"

definition fetch_decode :: "bytes \<Rightarrow> fetch_request io_result" where
  "fetch_decode payload =
     (if length payload < 16 then too_short ''FETCH''
      else let wait = (if length payload \<ge> 20 then be_at 16 4 payload else 0)
           in Inr \<lparr>fetch_topic_id = be_at 0 2 payload, fetch_partition_id = be_at 2 2 payload,
                   fetch_offset = be_at 4 8 payload, fetch_max_bytes = be_at 12 4 payload,
                   fetch_max_wait_ms = wait\<rparr>)"

definition commit_offset_encode :: "commit_offset_request \<Rightarrow> bytes" where
  "commit_offset_encode r =
     to_be_bytes (commit_group_id r) @ to_be_bytes (commit_topic_id r)
     @ to_be_bytes (commit_partition_id r) @ to_be_bytes (commit_offset_at r)"

definition commit_offset_decode :: "bytes \<Rightarrow> commit_offset_request io_result" where
  "commit_offset_decode payload =
     (if length payload < 14 then too_short ''COMMIT''
      else Inr \<lparr>commit_group_id = be_at 0 2 payload, commit_topic_id = be_at 2 2 payload,
                commit_partition_id = be_at 4 2 payload, commit_offset_at = be_at 6 8 payload\<rparr>)"

definition produce_encode :: "produce_request \<Rightarrow> bytes" where
  "produce_encode r =
     to_be_bytes (produce_topic_id r) @ to_be_bytes (produce_partition_id r) @ produce_payload r"

definition produce_decode :: "bytes \<Rightarrow> produce_request io_result" where
  "produce_decode payload =
     (if length payload < 4 then too_short ''PRODUCE''
      else Inr \<lparr>produce_topic_id = be_at 0 2 payload, produce_partition_id = be_at 2 2 payload,
                produce_payload = drop 4 payload\<rparr>)"

definition create_topic_encode :: "create_topic_request \<Rightarrow> bytes" where
  "create_topic_encode r =
     to_be_bytes (create_topic_id r) @ to_be_bytes (create_partition_count r)
     @ to_be_bytes (create_max_records r)"

definition create_topic_decode :: "bytes \<Rightarrow> create_topic_request io_result" where
  "create_topic_decode payload =
     (if length payload < 8 then too_short ''CREATE_TOPIC''
      else Inr \<lparr>create_topic_id = be_at 0 2 payload, create_partition_count = be_at 2 2 payload,
                create_max_records = be_at 4 4 payload\<rparr>)"

definition describe_topic_encode :: "describe_topic_request \<Rightarrow> bytes" where
  "describe_topic_encode r = to_be_bytes (describe_topic_id r)"

definition describe_topic_decode :: "bytes \<Rightarrow> describe_topic_request io_result" where
  "describe_topic_decode payload =
     (if length payload < 2 then too_short ''DESCRIBE_TOPIC''
      else Inr \<lparr>describe_topic_id = be_at 0 2 payload\<rparr>)"

definition get_lag_encode :: "get_lag_request \<Rightarrow> bytes" where
  "get_lag_encode r = to_be_bytes (lag_group_id r) @ to_be_bytes (lag_topic_id r)"

definition get_lag_decode :: "bytes \<Rightarrow> get_lag_request io_result" where
  "get_lag_decode payload =
     (if length payload < 4 then too_short ''GET_LAG''
      else Inr \<lparr>lag_group_id = be_at 0 2 payload, lag_topic_id = be_at 2 2 payload\<rparr>)"

text \<open>The length of a replicated payload is converted with \<open>expect\<close>: a longer one panics.\<close>

definition replicate_encode :: "replicate_request \<Rightarrow> bytes io_result" where
  "replicate_encode r =
     (if length (repl_payload r) \<ge> 2 ^ 16 then Inl (Panic ''payload fits u16'')
      else Inr (to_be_bytes (repl_topic_id r) @ to_be_bytes (repl_partition_id r)
             @ to_be_bytes (repl_offset r) @ to_be_bytes (of_nat (length (repl_payload r)) :: u16)
             @ repl_payload r))"

definition replicate_decode :: "bytes \<Rightarrow> replicate_request io_result" where
  "replicate_decode payload =
     (if length payload < 14 then too_short ''REPLICATE''
      else let len = unat (be_at 12 2 payload :: u16)
           in if length payload < 14 + len
              then io_err InvalidData ''REPLICATE payload truncated''
              else Inr \<lparr>repl_topic_id = be_at 0 2 payload, repl_partition_id = be_at 2 2 payload,
                        repl_offset = be_at 4 8 payload,
                        repl_payload = slice 14 (14 + len) payload\<rparr>)"

definition idempotent_produce_encode :: "idempotent_produce_request \<Rightarrow> bytes" where
  "idempotent_produce_encode r =
     to_be_bytes (idem_topic_id r) @ to_be_bytes (idem_partition_id r)
     @ to_be_bytes (idem_producer_id r) @ to_be_bytes (idem_sequence r) @ idem_payload r"

definition idempotent_produce_decode :: "bytes \<Rightarrow> idempotent_produce_request io_result" where
  "idempotent_produce_decode payload =
     (if length payload < 20 then too_short ''IDEMPOTENT_PRODUCE''
      else Inr \<lparr>idem_topic_id = be_at 0 2 payload, idem_partition_id = be_at 2 2 payload,
                idem_producer_id = be_at 4 8 payload, idem_sequence = be_at 12 8 payload,
                idem_payload = drop 20 payload\<rparr>)"

section \<open>Frames\<close>

text \<open>\<open>payload.first().copied().unwrap_or(0)\<close>\<close>

definition first_or_0 :: "bytes \<Rightarrow> u8" where
  "first_or_0 payload = (case payload of [] \<Rightarrow> 0 | b # _ \<Rightarrow> b)"

definition parse_frame :: "bytes \<Rightarrow> message io_result" where
  "parse_frame body =
     (case body of
        [] \<Rightarrow> io_err InvalidData ''empty frame''
      | msg_type # payload \<Rightarrow>
         if msg_type = ECHO then Inr (Echo (from_utf8_lossy payload))
         else if msg_type = P_REG then res_bind (producer_register_decode payload) (\<lambda>r. Inr (ProducerRegister r))
         else if msg_type = C_REG then res_bind (consumer_register_decode payload) (\<lambda>r. Inr (ConsumerRegister r))
         else if msg_type = PCM then Inr (Pcm payload)
         else if msg_type = FETCH then res_bind (fetch_decode payload) (\<lambda>r. Inr (Fetch r))
         else if msg_type = COMMIT then res_bind (commit_offset_decode payload) (\<lambda>r. Inr (CommitOffset r))
         else if msg_type = PRODUCE then res_bind (produce_decode payload) (\<lambda>r. Inr (Produce r))
         else if msg_type = CREATE_TOPIC then res_bind (create_topic_decode payload) (\<lambda>r. Inr (CreateTopic r))
         else if msg_type = DESCRIBE_TOPIC then res_bind (describe_topic_decode payload) (\<lambda>r. Inr (DescribeTopic r))
         else if msg_type = LIST_TOPICS then Inr ListTopics
         else if msg_type = GET_LAG then res_bind (get_lag_decode payload) (\<lambda>r. Inr (GetLag r))
         else if msg_type = REPLICATE then res_bind (replicate_decode payload) (\<lambda>r. Inr (Replicate r))
         else if msg_type = GET_CLUSTER then Inr GetCluster
         else if msg_type = IDEMPOTENT_PRODUCE then res_bind (idempotent_produce_decode payload) (\<lambda>r. Inr (IdempotentProduce r))
         else if msg_type = BROKER_HEARTBEAT then res_bind (broker_heartbeat_decode payload) (\<lambda>r. Inr (BrokerHeartbeat r))
         else if msg_type = JOIN_GROUP then res_bind (join_group_decode payload) (\<lambda>r. Inr (JoinGroup r))
         else if msg_type = GROUP_HEARTBEAT then res_bind (group_heartbeat_decode payload) (\<lambda>r. Inr (GroupHeartbeat r))
         else if msg_type = HANDSHAKE then res_bind (handshake_decode payload) (\<lambda>r. Inr (Handshake r))
         else if msg_type = R_ECHO then Inr (REcho (from_utf8_lossy payload))
         else if msg_type = R_P_REG then Inr (RProducerRegister (first_or_0 payload))
         else if msg_type = R_C_REG then Inr (RConsumerRegister (first_or_0 payload))
         else if msg_type = R_PCM then Inr (RPcm (first_or_0 payload))
         else if msg_type = R_FETCH then Inr (RFetch payload)
         else if msg_type = R_COMMIT then Inr (RCommitOffset (first_or_0 payload))
         else if msg_type = R_PRODUCE then (if length payload < 8 then too_short ''R_PRODUCE'' else Inr (RProduce (be_at 0 8 payload)))
         else if msg_type = R_CREATE_TOPIC then Inr (RCreateTopic (first_or_0 payload))
         else if msg_type = R_DESCRIBE_TOPIC then Inr (RDescribeTopic payload)
         else if msg_type = R_LIST_TOPICS then Inr (RListTopics payload)
         else if msg_type = R_GET_LAG then Inr (RGetLag payload)
         else if msg_type = R_REPLICATE then Inr (RReplicate (first_or_0 payload))
         else if msg_type = R_GET_CLUSTER then Inr (RGetCluster payload)
         else if msg_type = R_NOT_LEADER then (if length payload < 2 then too_short ''R_NOT_LEADER'' else Inr (RNotLeader (be_at 0 2 payload)))
         else if msg_type = R_BROKER_HEARTBEAT then Inr (RBrokerHeartbeat (first_or_0 payload))
         else if msg_type = R_JOIN_GROUP then Inr (RJoinGroup payload)
         else if msg_type = R_GROUP_HEARTBEAT then Inr (RGroupHeartbeat (first_or_0 payload) (if length payload > 1 then payload ! 1 else 0))
         else if msg_type = R_HANDSHAKE then (if length payload < 3 then too_short ''R_HANDSHAKE''
            else Inr (RHandshake (payload ! 0) (be_at 1 2 payload)))
         else if msg_type = R_ERROR then res_bind (checked_slice 1 (length payload) payload) (\<lambda>msg.
              Inr (RError (first_or_0 payload) (from_utf8_lossy msg)))
         else io_err InvalidData (''unknown message type '' @ show_word msg_type))"

text \<open>The first match of \<open>encode_message\<close>.\<close>

fun message_payload :: "message \<Rightarrow> bytes io_result" where
  "message_payload (Echo s) = Inr (as_bytes s)"
| "message_payload (ProducerRegister r) = Inr (producer_register_encode r)"
| "message_payload (ConsumerRegister r) = Inr (consumer_register_encode r)"
| "message_payload (Pcm bs) = Inr bs"
| "message_payload (Fetch r) = Inr (fetch_encode r)"
| "message_payload (CommitOffset r) = Inr (commit_offset_encode r)"
| "message_payload (Produce r) = Inr (produce_encode r)"
| "message_payload (CreateTopic r) = Inr (create_topic_encode r)"
| "message_payload (DescribeTopic r) = Inr (describe_topic_encode r)"
| "message_payload ListTopics = Inr []"
| "message_payload (GetLag r) = Inr (get_lag_encode r)"
| "message_payload (Replicate r) = replicate_encode r"
| "message_payload GetCluster = Inr []"
| "message_payload (IdempotentProduce r) = Inr (idempotent_produce_encode r)"
| "message_payload (BrokerHeartbeat r) = Inr (broker_heartbeat_encode r)"
| "message_payload (JoinGroup r) = Inr (join_group_encode r)"
| "message_payload (GroupHeartbeat r) = Inr (group_heartbeat_encode r)"
| "message_payload (Handshake r) = Inr (handshake_encode r)"
| "message_payload (REcho s) = Inr (as_bytes s)"
| "message_payload (RProducerRegister b) = Inr [b]"
| "message_payload (RConsumerRegister b) = Inr [b]"
| "message_payload (RPcm b) = Inr [b]"
| "message_payload (RFetch bs) = Inr bs"
| "message_payload (RCommitOffset b) = Inr [b]"
| "message_payload (RProduce off) = Inr (to_be_bytes off)"
| "message_payload (RCreateTopic b) = Inr [b]"
| "message_payload (RDescribeTopic bs) = Inr bs"
| "message_payload (RListTopics bs) = Inr bs"
| "message_payload (RGetLag bs) = Inr bs"
| "message_payload (RReplicate b) = Inr [b]"
| "message_payload (RGetCluster bs) = Inr bs"
| "message_payload (RNotLeader i) = Inr (to_be_bytes i)"
| "message_payload (RBrokerHeartbeat b) = Inr [b]"
| "message_payload (RJoinGroup bs) = Inr bs"
| "message_payload (RGroupHeartbeat code flag) = Inr [code, flag]"
| "message_payload (RHandshake code version) = Inr (code # to_be_bytes version)"
| "message_payload (RError code msg) = Inr (code # as_bytes msg)"

fun message_type_byte :: "message \<Rightarrow> u8" where
  "message_type_byte (Echo _) = ECHO"
| "message_type_byte (ProducerRegister _) = P_REG"
| "message_type_byte (ConsumerRegister _) = C_REG"
| "message_type_byte (Pcm _) = PCM"
| "message_type_byte (Fetch _) = FETCH"
| "message_type_byte (CommitOffset _) = COMMIT"
| "message_type_byte (Produce _) = PRODUCE"
| "message_type_byte (CreateTopic _) = CREATE_TOPIC"
| "message_type_byte (DescribeTopic _) = DESCRIBE_TOPIC"
| "message_type_byte ListTopics = LIST_TOPICS"
| "message_type_byte (GetLag _) = GET_LAG"
| "message_type_byte (Replicate _) = REPLICATE"
| "message_type_byte GetCluster = GET_CLUSTER"
| "message_type_byte (IdempotentProduce _) = IDEMPOTENT_PRODUCE"
| "message_type_byte (BrokerHeartbeat _) = BROKER_HEARTBEAT"
| "message_type_byte (JoinGroup _) = JOIN_GROUP"
| "message_type_byte (GroupHeartbeat _) = GROUP_HEARTBEAT"
| "message_type_byte (Handshake _) = HANDSHAKE"
| "message_type_byte (REcho _) = R_ECHO"
| "message_type_byte (RProducerRegister _) = R_P_REG"
| "message_type_byte (RConsumerRegister _) = R_C_REG"
| "message_type_byte (RPcm _) = R_PCM"
| "message_type_byte (RFetch _) = R_FETCH"
| "message_type_byte (RCommitOffset _) = R_COMMIT"
| "message_type_byte (RProduce _) = R_PRODUCE"
| "message_type_byte (RCreateTopic _) = R_CREATE_TOPIC"
| "message_type_byte (RDescribeTopic _) = R_DESCRIBE_TOPIC"
| "message_type_byte (RListTopics _) = R_LIST_TOPICS"
| "message_type_byte (RGetLag _) = R_GET_LAG"
| "message_type_byte (RReplicate _) = R_REPLICATE"
| "message_type_byte (RGetCluster _) = R_GET_CLUSTER"
| "message_type_byte (RNotLeader _) = R_NOT_LEADER"
| "message_type_byte (RBrokerHeartbeat _) = R_BROKER_HEARTBEAT"
| "message_type_byte (RJoinGroup _) = R_JOIN_GROUP"
| "message_type_byte (RGroupHeartbeat _ _) = R_GROUP_HEARTBEAT"
| "message_type_byte (RHandshake _ _) = R_HANDSHAKE"
| "message_type_byte (RError _ _) = R_ERROR"

definition encode_message :: "message \<Rightarrow> bytes io_result" where
  "encode_message m = res_bind (message_payload m) (\<lambda>payload. Inr (message_type_byte m # payload))"

section \<open>Codecs of requests\<close>

lemma hi_lo_be: "hi_lo w = to_be_bytes w"
proof -
  have "ucast (drop_bit 8 w) = (of_nat (unat w div 256) :: u8)"
    by (simp add: word_unat_eq_iff unsigned_drop_bit_eq drop_bit_eq_div unsigned_ucast_eq
        take_bit_eq_mod unat_div_distrib)
  moreover have "ucast (w AND 0xff) = (of_nat (unat w) :: u8)"
  proof -
    have "w AND 0xff = take_bit 8 w" by (simp add: take_bit_eq_mask mask_eq_exp_minus_1)
    then show ?thesis
      by (simp add: word_unat_eq_iff unsigned_ucast_eq take_bit_eq_mod unat_mod_distrib)
  qed
  ultimately show ?thesis by (simp add: hi_lo_def to_be_bytes_u16)
qed

lemma too_short_not_ok [simp]: "too_short w \<noteq> Inr r" "\<not> panics (too_short w)"
  "res_bind (too_short w) f = too_short w"
  by (simp_all add: too_short_def)

locale request_codec =
  fixes enc :: "'r \<Rightarrow> bytes io_result"
    and dec :: "bytes \<Rightarrow> 'r io_result"
    and encodable :: "'r \<Rightarrow> bool"
  assumes dec_enc: "encodable r \<Longrightarrow> \<exists>bs. enc r = Inr bs \<and> dec bs = Inr r"
    and dec_ok: "dec bs = Inr r \<Longrightarrow> encodable r"
    and dec_err: "dec bs = Inl e \<Longrightarrow> \<exists>msg. e = Io InvalidData msg"
begin

lemma dec_no_panic: "\<not> panics (dec bs)"
  using dec_err [of bs] by (cases "dec bs") auto

lemma enc_inj: "encodable r \<Longrightarrow> encodable r' \<Longrightarrow> enc r = enc r' \<Longrightarrow> r = r'"
  using dec_enc [of r] dec_enc [of r'] by auto

lemma roundtrip: "encodable r \<Longrightarrow> res_bind (enc r) dec = Inr r"
  using dec_enc [of r] by auto

end

lemma unat_u16_less: "unat (w :: u16) < 65536"
  using unsigned_less [where 'a = nat and w = w] by simp

lemmas decode_simps =
  unat_u16_less too_short_def io_err_def Let_def codec_simps hi_lo_be slice_def unat_of_nat_u16

interpretation preg: request_codec "\<lambda>r. Inr (producer_register_encode r)" producer_register_decode "\<lambda>_. True"
  by unfold_locales (auto simp: producer_register_encode_def producer_register_decode_def decode_simps split: if_splits)

interpretation creg: request_codec "\<lambda>r. Inr (consumer_register_encode r)" consumer_register_decode "\<lambda>_. True"
  by unfold_locales (auto simp: consumer_register_encode_def consumer_register_decode_def decode_simps split: if_splits)

interpretation bhb: request_codec "\<lambda>r. Inr (broker_heartbeat_encode r)" broker_heartbeat_decode "\<lambda>_. True"
  by unfold_locales (auto simp: broker_heartbeat_encode_def broker_heartbeat_decode_def decode_simps split: if_splits)

interpretation jgroup: request_codec "\<lambda>r. Inr (join_group_encode r)" join_group_decode "\<lambda>_. True"
  by unfold_locales (auto simp: join_group_encode_def join_group_decode_def decode_simps split: if_splits)

interpretation ghb: request_codec "\<lambda>r. Inr (group_heartbeat_encode r)" group_heartbeat_decode "\<lambda>_. True"
  by unfold_locales (auto simp: group_heartbeat_encode_def group_heartbeat_decode_def decode_simps split: if_splits)

interpretation hshake: request_codec "\<lambda>r. Inr (handshake_encode r)" handshake_decode "\<lambda>r. length (hs_auth_token r) < 2 ^ 16"
  by unfold_locales (auto simp: handshake_encode_def handshake_decode_def decode_simps split: if_splits)

interpretation fetchc: request_codec "\<lambda>r. Inr (fetch_encode r)" fetch_decode "\<lambda>_. True"
  by unfold_locales (auto simp: fetch_encode_def fetch_decode_def decode_simps split: if_splits)

interpretation commitc: request_codec "\<lambda>r. Inr (commit_offset_encode r)" commit_offset_decode "\<lambda>_. True"
  by unfold_locales (auto simp: commit_offset_encode_def commit_offset_decode_def decode_simps split: if_splits)

interpretation producec: request_codec "\<lambda>r. Inr (produce_encode r)" produce_decode "\<lambda>_. True"
  by unfold_locales (auto simp: produce_encode_def produce_decode_def decode_simps split: if_splits)

interpretation ctopic: request_codec "\<lambda>r. Inr (create_topic_encode r)" create_topic_decode "\<lambda>_. True"
  by unfold_locales (auto simp: create_topic_encode_def create_topic_decode_def decode_simps split: if_splits)

interpretation dtopic: request_codec "\<lambda>r. Inr (describe_topic_encode r)" describe_topic_decode "\<lambda>_. True"
  by unfold_locales (auto simp: describe_topic_encode_def describe_topic_decode_def decode_simps split: if_splits)

interpretation lag: request_codec "\<lambda>r. Inr (get_lag_encode r)" get_lag_decode "\<lambda>_. True"
  by unfold_locales (auto simp: get_lag_encode_def get_lag_decode_def decode_simps split: if_splits)

interpretation repl: request_codec replicate_encode replicate_decode "\<lambda>r. length (repl_payload r) < 2 ^ 16"
  by unfold_locales (auto simp: replicate_encode_def replicate_decode_def decode_simps split: if_splits)

interpretation idemp: request_codec "\<lambda>r. Inr (idempotent_produce_encode r)" idempotent_produce_decode "\<lambda>_. True"
  by unfold_locales (auto simp: idempotent_produce_encode_def idempotent_produce_decode_def decode_simps split: if_splits)

section \<open>Properties\<close>

text \<open>
  What an in-memory message can be sent as: its strings are Rust strings, and the lengths
  that are written as 16 bits fit.
\<close>

fun message_ok :: "message \<Rightarrow> bool" where
  "message_ok (Echo s) = valid_str s"
| "message_ok (REcho s) = valid_str s"
| "message_ok (RError _ s) = valid_str s"
| "message_ok (Replicate r) = (length (repl_payload r) < 2 ^ 16)"
| "message_ok (Handshake r) = (length (hs_auth_token r) < 2 ^ 16)"
| "message_ok _ = True"

lemmas request_roundtrips =
  preg.roundtrip creg.roundtrip bhb.roundtrip jgroup.roundtrip ghb.roundtrip hshake.roundtrip
  fetchc.roundtrip commitc.roundtrip producec.roundtrip ctopic.roundtrip dtopic.roundtrip
  lag.roundtrip repl.roundtrip idemp.roundtrip

lemma encode_message_parse:
  assumes "message_ok m"
  shows "res_bind (encode_message m) parse_frame = Inr m"
proof (cases "\<exists>r. m = Replicate r")
  case True
  then obtain r where m: "m = Replicate r" by blast
  then obtain bs where "replicate_encode r = Inr bs" "replicate_decode bs = Inr r"
    using assms repl.dec_enc [of r] by auto
  with m show ?thesis by (simp add: encode_message_def parse_frame_def type_codes)
next
  case False
  with assms show ?thesis
    by (cases m)
      (simp_all add: encode_message_def parse_frame_def type_codes first_or_0_def codec_simps
        from_utf8_lossy_as_bytes checked_slice_def slice_def request_roundtrips [simplified])
qed

lemmas decoders_no_panic =
  preg.dec_no_panic creg.dec_no_panic bhb.dec_no_panic jgroup.dec_no_panic ghb.dec_no_panic
  hshake.dec_no_panic fetchc.dec_no_panic commitc.dec_no_panic producec.dec_no_panic
  ctopic.dec_no_panic dtopic.dec_no_panic lag.dec_no_panic repl.dec_no_panic idemp.dec_no_panic

definition res_all :: "('a \<Rightarrow> bool) \<Rightarrow> 'e + 'a \<Rightarrow> bool" where
  "res_all P r = (case r of Inl _ \<Rightarrow> True | Inr x \<Rightarrow> P x)"

lemma res_all_simps [simp]:
  "res_all P (Inr x) = P x" "res_all P (io_err k msg)" "res_all P (too_short w)"
  by (simp_all add: res_all_def io_err_def too_short_def)

lemma res_all_bind: "res_all P (res_bind r f) = res_all (\<lambda>x. res_all P (f x)) r"
  by (cases r) (simp_all add: res_all_def)

lemma res_all_True [simp]: "res_all (\<lambda>x. True) r"
  by (simp add: res_all_def split: sum.split)

lemma panics_bind: "panics (res_bind r (\<lambda>x. Inr (f x))) = panics r"
  by (cases r) (simp_all add: panics_def)

text \<open>
  C25: every message that can be sent is received as it was: encoding a message and parsing
  the frame gives the message back, for each of the 37 message kinds.
\<close>

theorem message_roundtrip:
  assumes "message_ok m"
  shows "\<exists>frame. encode_message m = Inr frame \<and> parse_frame frame = Inr m"
  using encode_message_parse [OF assms] by (auto simp: res_bind_Inr_iff)

theorem message_roundtrip_witness:
  "\<exists>frame. encode_message (Replicate \<lparr>repl_topic_id = 1, repl_partition_id = 0, repl_offset = 5,
        repl_payload = [104, 105]\<rparr>) = Inr frame
    \<and> parse_frame frame = Inr (Replicate \<lparr>repl_topic_id = 1, repl_partition_id = 0, repl_offset = 5,
        repl_payload = [104, 105]\<rparr>)"
  by (rule message_roundtrip) simp


text \<open>
  What the parser accepts it could have been sent: every parsed message satisfies the
  conditions of the round trip, so re-encoding it succeeds and gives a frame for the same
  message.
\<close>

theorem parse_frame_ok:
  assumes "parse_frame body = Inr m"
  shows "message_ok m"
proof -
  have "res_all message_ok (parse_frame body)"
  proof (cases body)
    case Nil
    then show ?thesis by (simp add: parse_frame_def)
  next
    case (Cons b payload)
    have "res_all message_ok (res_bind (replicate_decode payload) (\<lambda>r. Inr (Replicate r)))"
      "res_all message_ok (res_bind (handshake_decode payload) (\<lambda>r. Inr (Handshake r)))"
      using repl.dec_ok [of payload] hshake.dec_ok [of payload] by (auto simp: res_all_def res_bind_Inr_iff split: sum.split)
    with Cons show ?thesis
      by (simp add: parse_frame_def res_all_bind valid_str_lossy)
  qed
  with assms show ?thesis by simp
qed

theorem parse_frame_ok_witness:
  "message_ok (Handshake \<lparr>hs_protocol_version = 2, hs_auth_token = []\<rparr>)"
proof (rule parse_frame_ok)
  let ?r = "\<lparr>hs_protocol_version = 2, hs_auth_token = []\<rparr>"
  show "parse_frame (HANDSHAKE # handshake_encode ?r) = Inr (Handshake ?r)"
    using hshake.roundtrip [of ?r] by (simp add: parse_frame_def type_codes)
qed

end
