(* ===== verification/Framing.thy ===== *)
theory Framing
  imports Message
begin

text \<open>
  Wire framing (\<open>dmq-protocol/src/protocol.rs\<close> and the two functions at the end of
  \<open>message.rs\<close>): version 1 frames with a one-byte length, version 2 frames with a marker, a
  16-bit length, a version byte and a correlation id.  A stream is the list of the bytes
  that will arrive before it closes; a read returns the frame with the rest of the stream,
  and \<open>read_exact\<close> beyond the end is an \<open>UnexpectedEof\<close> error.
\<close>

section \<open>Frames and streams\<close>

definition PROTOCOL_V1 :: u16 where "PROTOCOL_V1 = 1"
definition PROTOCOL_V2 :: u16 where "PROTOCOL_V2 = 2"
definition MAX_PROTOCOL_VERSION :: u16 where "MAX_PROTOCOL_VERSION = PROTOCOL_V2"
definition V2_HEADER_LEN :: nat where "V2_HEADER_LEN = 6"

lemmas protocol_consts = PROTOCOL_V1_def PROTOCOL_V2_def MAX_PROTOCOL_VERSION_def V2_HEADER_LEN_def

record frame =
  correlation_id :: u32
  frame_message :: message

datatype wire_format = V1 | V2

definition frame_v1 :: "message \<Rightarrow> frame" where
  "frame_v1 m = \<lparr>correlation_id = 0, frame_message = m\<rparr>"

definition frame_v2 :: "u32 \<Rightarrow> message \<Rightarrow> frame" where
  "frame_v2 cid m = \<lparr>correlation_id = cid, frame_message = m\<rparr>"

definition take_exact :: "nat \<Rightarrow> bytes \<Rightarrow> (bytes \<times> bytes) io_result" where
  "take_exact n s =
     (if n \<le> length s then Inr (take n s, drop n s) else io_err UnexpectedEof ''early eof'')"

section \<open>Configuration\<close>

definition legacy_dialback_enabled :: "env \<Rightarrow> bool" where
  "legacy_dialback_enabled e = env_flag e ''DMQ_LEGACY_DIALBACK''"

definition require_handshake :: "env \<Rightarrow> bool" where
  "require_handshake e = env_flag e ''DMQ_REQUIRE_HANDSHAKE''"

definition negotiated_version_from_env :: "env \<Rightarrow> u16" where
  "negotiated_version_from_env e =
     min (max (env_word e ''DMQ_PROTOCOL_VERSION'' PROTOCOL_V2) PROTOCOL_V1) MAX_PROTOCOL_VERSION"

definition validate_protocol_version :: "u16 \<Rightarrow> u8 + u16" where
  "validate_protocol_version requested =
     (if requested = 0 \<or> requested > MAX_PROTOCOL_VERSION then Inl 1
      else Inr (min requested MAX_PROTOCOL_VERSION))"

section \<open>Reading and writing\<close>

definition parse_v2_body :: "bytes \<Rightarrow> (frame \<times> wire_format) io_result" where
  "parse_v2_body body =
     (if length body < V2_HEADER_LEN then io_err InvalidData ''v2 frame too short''
      else let version = body ! 0
           in if version \<noteq> 2 then
                io_err InvalidData (''unsupported frame version '' @ show_word version)
              else res_bind (parse_frame (drop 5 body)) (\<lambda>m. Inr (frame_v2 (be_at 1 4 body) m, V2)))"

definition read_frame :: "bytes \<Rightarrow> (frame \<times> wire_format \<times> bytes) io_result" where
  "read_frame s =
     res_bind (take_exact 1 s) (\<lambda>(fst_byte, s1).
     if hd fst_byte = 0xFF then
       res_bind (take_exact 1 s1) (\<lambda>(snd_byte, s2).
       if hd snd_byte \<noteq> 2 then
         io_err InvalidData (''unsupported extended frame marker '' @ show_word (hd snd_byte))
       else
         res_bind (take_exact 2 s2) (\<lambda>(lb, s3).
         res_bind (take_exact (unat (from_be_bytes lb :: u16)) s3) (\<lambda>(body, s4).
         res_bind (parse_v2_body body) (\<lambda>(f, w). Inr (f, w, s4)))))
     else
       let len = unat (hd fst_byte)
       in if len = 0 then io_err InvalidData ''empty v1 frame''
          else res_bind (take_exact len s1) (\<lambda>(body, s2).
               res_bind (parse_frame body) (\<lambda>m. Inr (frame_v1 m, V1, s2))))"

definition read_message :: "bytes \<Rightarrow> (message \<times> bytes) io_result" where
  "read_message s =
     res_bind (take_exact 1 s) (\<lambda>(lb, s1).
     res_bind (take_exact (unat (hd lb)) s1) (\<lambda>(body, s2).
     res_bind (parse_frame body) (\<lambda>m. Inr (m, s2))))"

text \<open>The bytes a write sends; the length is converted with \<open>as\<close>, which truncates.\<close>

definition write_message :: "message \<Rightarrow> bytes io_result" where
  "write_message m = res_bind (encode_message m) (\<lambda>f. Inr (of_nat (length f) # f))"

definition write_frame :: "frame \<Rightarrow> wire_format \<Rightarrow> bytes io_result" where
  "write_frame f fmt =
     (case fmt of
        V1 \<Rightarrow> write_message (frame_message f)
      | V2 \<Rightarrow>
          res_bind (encode_message (frame_message f)) (\<lambda>inner.
          let body_len = V2_HEADER_LEN - 1 + length inner
          in Inr ([0xFF, 2] @ to_be_bytes (of_nat body_len :: u16) @ [2]
                  @ to_be_bytes (correlation_id f) @ inner)))"

section \<open>Lemmas\<close>

lemma take_exact_append [simp]: "n = length xs \<Longrightarrow> take_exact n (xs @ s) = Inr (xs, s)"
  by (simp add: take_exact_def)

lemma take_exact_1_Cons [simp]: "take_exact 1 (x # s) = Inr ([x], s)"
  "take_exact (Suc 0) (x # s) = Inr ([x], s)"
  by (simp_all add: take_exact_def)

lemma take_exact_shrinks: "take_exact n s = Inr (a, b) \<Longrightarrow> length b \<le> length s"
  by (auto simp: take_exact_def split: if_splits)

lemma take_exact_no_panic [simp]: "\<not> panics (take_exact n s)"
  by (simp add: take_exact_def)

lemma encode_message_Cons: "encode_message m = Inr f \<Longrightarrow> \<exists>p. f = message_type_byte m # p"
  by (auto simp: encode_message_def res_bind_Inr_iff)

lemma message_roundtripE:
  assumes "message_ok m"
  obtains frame where "encode_message m = Inr frame" and "parse_frame frame = Inr m" and "frame \<noteq> []"
  using encode_message_parse [OF assms] encode_message_Cons [of m] by (auto simp: res_bind_Inr_iff)

lemma message_roundtripD:
  assumes "message_ok m" and "encode_message m = Inr fr"
  shows "parse_frame fr = Inr m" and "fr \<noteq> []"
  using message_roundtripE [OF assms(1)] assms(2) by (metis sum.inject(2))+

lemma read_v2_write:
  assumes "encode_message m = Inr fr" "parse_frame fr = Inr m" "fr \<noteq> []" and len: "5 + length fr < 2 ^ 16"
  shows "write_frame \<lparr>correlation_id = cid, frame_message = m\<rparr> V2 = Inr w \<Longrightarrow>
    read_frame (w @ rest) = Inr (\<lparr>correlation_id = cid, frame_message = m\<rparr>, V2, rest)"
proof -
  let ?body = "2 # to_be_bytes cid @ fr"
  have n: "unat (of_nat (5 + length fr) :: u16) = 5 + length fr"
    using len by (simp add: unat_of_nat_u16 del: of_nat_add)
  have ge: "\<not> length ?body < 6" using assms(3) by (cases fr) auto
  have body: "parse_v2_body ?body = Inr (frame_v2 cid m, V2)"
    using ge assms(2) by (simp add: parse_v2_body_def protocol_consts codec_simps)
  have "read_frame ([0xFF, 2] @ to_be_bytes (of_nat (5 + length fr) :: u16) @ ?body @ rest)
      = Inr (frame_v2 cid m, V2, rest)"
    using n body take_exact_append [of "5 + length fr" ?body rest]
      take_exact_append [of 2 "to_be_bytes (of_nat (5 + length fr) :: u16)" "?body @ rest"]
    by (simp add: read_frame_def del: of_nat_add take_exact_append)
  moreover assume "write_frame \<lparr>correlation_id = cid, frame_message = m\<rparr> V2 = Inr w"
  ultimately show ?thesis
    using assms(1) by (auto simp: write_frame_def protocol_consts frame_v2_def simp del: of_nat_add)
qed

lemma of_nat_u8_marker: "(of_nat n :: u8) = 0xFF \<longleftrightarrow> n mod 256 = 255"
proof -
  have "(of_nat n :: u8) = 0xFF \<longleftrightarrow> unat (of_nat n :: u8) = unat (0xFF :: u8)"
    by (simp only: word_unat_eq_iff)
  then show ?thesis by simp
qed

lemma read_v1_write:
  assumes "encode_message m = Inr fr" "parse_frame fr = Inr m" "fr \<noteq> []"
    and len: "length fr < 255" and "write_message m = Inr w"
  shows "read_frame (w @ rest) = Inr (frame_v1 m, V1, rest)"
proof -
  have "(of_nat (length fr) :: u8) \<noteq> 0xFF" using len by (simp add: of_nat_u8_marker)
  then show ?thesis
    using assms by (auto simp: write_message_def read_frame_def)
qed

text \<open>A version 1 read returns what is behind the first byte and as many bytes as it says.\<close>

lemma read_v1_rest:
  assumes "read_frame (b # s) = Inr (f, V1, rest)"
  shows "b \<noteq> 0xFF \<and> length s = unat b + length rest"
proof (cases "b = 0xFF")
  case True
  with assms show ?thesis
    by (auto simp: read_frame_def parse_v2_body_def res_bind_Inr_iff Let_def split: if_splits)
next
  case False
  with assms show ?thesis
    by (auto simp: read_frame_def take_exact_def res_bind_Inr_iff Let_def split: if_splits)
qed

section \<open>Properties\<close>

text \<open>
  C27: version 2 framing.  A message of at most 65530 encoded bytes is written and read
  back with its correlation id, whatever follows it on the stream, and nothing of what
  follows is consumed.
\<close>

theorem v2_frame_roundtrip:
  assumes "message_ok m" and "encode_message m = Inr fr" and "length fr \<le> 65530"
  shows "\<exists>w. write_frame (frame_v2 cid m) V2 = Inr w
    \<and> read_frame (w @ rest) = Inr (frame_v2 cid m, V2, rest)"
proof -
  obtain w where w: "write_frame (frame_v2 cid m) V2 = Inr w"
    using assms(2) by (simp add: write_frame_def frame_v2_def Let_def)
  have "parse_frame fr = Inr m" "fr \<noteq> []"
    using message_roundtripD [OF assms(1,2)] by auto
  then have "read_frame (w @ rest) = Inr (frame_v2 cid m, V2, rest)"
    using read_v2_write [OF assms(2)] assms(3) w by (simp add: frame_v2_def)
  with w show ?thesis by blast
qed

theorem v2_frame_roundtrip_witness:
  "\<exists>w. write_frame (frame_v2 7 (RProduce 41)) V2 = Inr w
    \<and> read_frame (w @ [1, 2]) = Inr (frame_v2 7 (RProduce 41), V2, [1, 2])"
  by (rule v2_frame_roundtrip [where fr = "R_PRODUCE # to_be_bytes (41 :: u64)"])
    (simp_all add: encode_message_def)

lemma v1_frame_readable:
  assumes "message_ok m" and "encode_message m = Inr fr" and "write_frame (frame_v1 m) V1 = Inr w"
  shows "read_frame (w @ rest) = Inr (frame_v1 m, V1, rest) \<longleftrightarrow> length fr \<le> 254"
proof
  have w: "w = of_nat (length fr) # fr"
    using assms(2,3) by (simp add: write_frame_def frame_v1_def write_message_def)
  {
    assume "length fr \<le> 254"
    moreover have "parse_frame fr = Inr m" "fr \<noteq> []"
      using message_roundtripD [OF assms(1,2)] by auto
    ultimately show "read_frame (w @ rest) = Inr (frame_v1 m, V1, rest)"
      using read_v1_write [OF assms(2)] assms(3) by (simp add: write_frame_def frame_v1_def)
  next
    assume "read_frame (w @ rest) = Inr (frame_v1 m, V1, rest)"
    then have "(of_nat (length fr) :: u8) \<noteq> 0xFF" "length fr = length fr mod 256"
      using read_v1_rest [of "of_nat (length fr)" "fr @ rest"] by (auto simp: w)
    moreover from this(2) have "length fr < 256" by (metis mod_less_divisor zero_less_numeral)
    ultimately show "length fr \<le> 254" by (simp add: of_nat_u8_marker)
  }
qed

lemma read_frame_rest:
  assumes "read_frame s = Inr (f, fmt, rest)"
  shows "length rest + 2 \<le> length s \<and> suffix rest s"
proof (cases s)
  case Nil
  with assms show ?thesis by (simp add: read_frame_def take_exact_def)
next
  case (Cons b s1)
  show ?thesis
  proof (cases "b = 0xFF")
    case True
    then obtain s2 n where "s1 = 2 # s2" "2 \<le> length s2" "rest = drop n (drop 2 s2)"
      using assms Cons
      by (cases s1) (auto simp: read_frame_def take_exact_def res_bind_Inr_iff split: if_splits)
    moreover from this have "suffix rest (drop 2 s2)" by (simp only: suffix_drop)
    ultimately have "s1 = 2 # s2" "2 \<le> length s2" "suffix rest (drop 2 s2)" by blast+
    then show ?thesis using Cons suffix_length_le [of rest "drop 2 s2"]
      by (auto intro: suffix_order.trans [OF _ suffix_drop] suffix_ConsI)
  next
    case False
    then have "rest = drop (unat b) s1" "0 < unat b" "unat b \<le> length s1"
      using assms Cons
      by (auto simp: read_frame_def take_exact_def res_bind_Inr_iff Let_def split: if_splits)
    then show ?thesis using Cons by (auto intro: suffix_ConsI suffix_drop)
  qed
qed

text \<open>
  C28: version 1 framing has exactly this range: a written frame is read back if and only
  if its encoding has at most 254 bytes.  At 255 bytes the length byte is the version 2
  marker, beyond that \<open>as u8\<close> truncates it.
\<close>

theorem v1_frame_roundtrip_iff:
  assumes "message_ok m" and "encode_message m = Inr fr" and "write_frame (frame_v1 m) V1 = Inr w"
  shows "read_frame (w @ rest) = Inr (frame_v1 m, V1, rest) \<longleftrightarrow> length fr \<le> 254"
  using assms by (rule v1_frame_readable)

theorem v1_frame_roundtrip_iff_witness:
  "read_frame (255 # R_FETCH # replicate 254 0) \<noteq> Inr (frame_v1 (RFetch (replicate 254 0)), V1, [])"
proof -
  define p :: bytes where "p = replicate 254 0"
  then have len: "length p = 254" by simp
  then have "write_frame (frame_v1 (RFetch p)) V1 = Inr (255 # R_FETCH # p)"
    by (simp add: write_frame_def frame_v1_def write_message_def encode_message_def)
  then have "read_frame ((255 # R_FETCH # p) @ []) \<noteq> Inr (frame_v1 (RFetch p), V1, [])"
    using v1_frame_roundtrip_iff [where m = "RFetch p" and fr = "R_FETCH # p"
        and w = "255 # R_FETCH # p" and rest = "[]"] len
    by (simp add: encode_message_def)
  then show ?thesis by (simp add: p_def)
qed

text \<open>
  A successful read of a frame consumes at least two bytes and leaves a suffix of the
  stream, so a connection that reads frame after frame makes progress.
\<close>

theorem read_frame_progress:
  assumes "read_frame s = Inr (f, fmt, rest)"
  shows "length rest + 2 \<le> length s \<and> suffix rest s"
  using assms by (rule read_frame_rest)

theorem read_frame_progress_witness:
  "length ([9] :: bytes) + 2 \<le> length [1, LIST_TOPICS, 9] \<and> suffix [9] [1, LIST_TOPICS, 9]"
proof (rule read_frame_progress)
  show "read_frame [1, LIST_TOPICS, 9] = Inr (frame_v1 ListTopics, V1, [9])"
    by (simp add: read_frame_def take_exact_def parse_frame_def type_codes)
qed

lemma u16_one_or_two: "1 \<le> w \<Longrightarrow> w \<le> 2 \<Longrightarrow> w = 1 \<or> w = 2" for w :: u16
proof -
  assume "1 \<le> w" "w \<le> 2"
  then have "unat w = 1 \<or> unat w = 2" by (auto simp: word_le_nat_alt)
  then show ?thesis by (auto simp: word_unat_eq_iff)
qed

lemma validate_version_iff: "validate_protocol_version v = Inr v' \<longleftrightarrow> v' = v \<and> (v = 1 \<or> v = 2)"
proof -
  have one: "1 \<le> w \<longleftrightarrow> w \<noteq> 0" for w :: u16
    by (simp add: word_le_nat_alt Suc_le_eq unat_gt_0)
  show ?thesis
    using u16_one_or_two [of v] by (auto simp: validate_protocol_version_def protocol_consts one not_less)
qed

text \<open>
  Protocol versions.  The handshake accepts exactly versions 1 and 2, and the version
  taken from the environment is always one of them.
\<close>

theorem protocol_versions:
  "(validate_protocol_version v = Inr v' \<longleftrightarrow> v' = v \<and> (v = 1 \<or> v = 2))
   \<and> (negotiated_version_from_env e = 1 \<or> negotiated_version_from_env e = 2)"
proof
  show "validate_protocol_version v = Inr v' \<longleftrightarrow> v' = v \<and> (v = 1 \<or> v = 2)" by (rule validate_version_iff)
  show "negotiated_version_from_env e = 1 \<or> negotiated_version_from_env e = 2"
    by (rule u16_one_or_two)
      (simp_all add: negotiated_version_from_env_def protocol_consts min_def max_def not_le
        word_le_nat_alt)
qed

end
