(* ===== verification/Data_Dir.thy ===== *)
theory Data_Dir
  imports Rust_Text
begin

text \<open>
  The data directory as the storage crate sees it: files by name with the contents the
  process reads back, the contents that survive a power loss, and the process-wide append
  counter of \<open>dmq-storage/src/fsync.rs\<close>.  A write changes the file the process sees;
  \<open>sync_data\<close> copies that file to the durable side; a crash restarts from the durable
  side.  The directory exists (every writer calls \<open>create_dir_all\<close> first) and the
  operating system reports no error of its own; errors that the contents cause, a short
  read above all, are modelled.

  The file names of every component are here too, with the theorem that no two keys share
  a file.
\<close>

section \<open>State\<close>

record data_dir =
  files :: "(string, bytes) hmap"
  durable :: "(string, bytes) hmap"
  append_counter :: u32

definition empty_dir :: data_dir where
  "empty_dir = \<lparr>files = [], durable = [], append_counter = 0\<rparr>"

definition df_get :: "data_dir \<Rightarrow> string \<Rightarrow> bytes option" where
  "df_get d name = hm_get (files d) name"

definition df_exists :: "data_dir \<Rightarrow> string \<Rightarrow> bool" where
  "df_exists d name \<longleftrightarrow> df_get d name \<noteq> None"

definition df_put :: "string \<Rightarrow> bytes \<Rightarrow> data_dir \<Rightarrow> data_dir" where
  "df_put name c d = d\<lparr>files := hm_insert name c (files d)\<rparr>"

definition df_contents :: "data_dir \<Rightarrow> string \<Rightarrow> bytes" where
  "df_contents d name = (case df_get d name of None \<Rightarrow> [] | Some c \<Rightarrow> c)"

text \<open>\<open>OpenOptions::new().create(true)\<close> without and with \<open>truncate(true)\<close>.\<close>

definition open_create :: "string \<Rightarrow> data_dir \<Rightarrow> data_dir" where
  "open_create name d = (if df_exists d name then d else df_put name [] d)"

definition open_truncate :: "string \<Rightarrow> data_dir \<Rightarrow> data_dir" where
  "open_truncate name d = df_put name [] d"

definition sync_data :: "string \<Rightarrow> data_dir \<Rightarrow> data_dir" where
  "sync_data name d = d\<lparr>durable := hm_insert name (df_contents d name) (durable d)\<rparr>"

definition crash :: "data_dir \<Rightarrow> data_dir" where
  "crash d = \<lparr>files = durable d, durable = durable d, append_counter = 0\<rparr>"

text \<open>Seek and write at an offset; a gap beyond the end reads as zeros.\<close>

definition write_at :: "nat \<Rightarrow> bytes \<Rightarrow> bytes \<Rightarrow> bytes" where
  "write_at off bs c =
     take off c @ replicate (off - length c) 0 @ bs @ drop (off + length bs) c"

definition write_file :: "string \<Rightarrow> nat \<Rightarrow> bytes \<Rightarrow> data_dir \<Rightarrow> data_dir" where
  "write_file name off bs d = df_put name (write_at off bs (df_contents d name)) d"

definition set_len :: "nat \<Rightarrow> bytes \<Rightarrow> bytes" where
  "set_len n c = take n c @ replicate (n - length c) 0"

text \<open>Seek and \<open>read_exact\<close>.\<close>

definition read_exact_at :: "nat \<Rightarrow> nat \<Rightarrow> bytes \<Rightarrow> bytes io_result" where
  "read_exact_at off n c =
     (if off + n \<le> length c then Inr (slice off (off + n) c)
      else io_err UnexpectedEof ''failed to fill whole buffer'')"

lemma write_at_end [store_simps]: "off = length c \<Longrightarrow> write_at off bs c = c @ bs"
  by (simp add: write_at_def)

lemma write_at_prefix [store_simps]:
  "length a = off \<Longrightarrow> length x = length bs \<Longrightarrow> write_at off bs (a @ x @ y) = a @ bs @ y"
  by (simp add: write_at_def)

lemma df_get_put [store_simps]:
  "df_get (df_put name c d) name' = (if name' = name then Some c else df_get d name')"
  by (simp add: df_get_def df_put_def)

lemma df_get_write_file [store_simps]:
  "df_get (write_file name off bs d) name' =
     (if name' = name then Some (write_at off bs (df_contents d name)) else df_get d name')"
  by (simp add: write_file_def df_get_put)

lemma df_get_sync [store_simps]: "df_get (sync_data name d) name' = df_get d name'"
  by (simp add: df_get_def sync_data_def)

lemma df_get_open_truncate [store_simps]:
  "df_get (open_truncate name d) name' = (if name' = name then Some [] else df_get d name')"
  by (simp add: open_truncate_def df_get_put)

lemma df_get_open_create [store_simps]:
  "df_get (open_create name d) name' =
     (if name' = name then Some (df_contents d name) else df_get d name')"
  by (auto simp: open_create_def df_get_put df_exists_def df_contents_def)

lemma df_contents_Some [simp]: "df_get d name = Some c \<Longrightarrow> df_contents d name = c"
  by (simp add: df_contents_def)

lemma df_contents_write_file [store_simps]:
  "df_contents (write_file name off bs d) name = write_at off bs (df_contents d name)"
  by (simp add: df_contents_def [of "write_file name off bs d"] df_get_write_file)

lemma df_contents_sync [store_simps]: "df_contents (sync_data name d) name' = df_contents d name'"
  by (simp add: df_contents_def df_get_sync)

lemma df_contents_open [store_simps]:
  "df_contents (open_truncate name d) name = []"
  "df_contents (open_create name d) name' = df_contents d name'"
  by (simp_all add: df_contents_def df_get_open_truncate df_get_open_create split: option.split)

lemma df_exists_iff: "df_exists d name \<longleftrightarrow> (\<exists>c. df_get d name = Some c)"
  by (auto simp: df_exists_def)

section \<open>The fsync policy\<close>

datatype fsync_policy = Always | Never | EveryN u32

text \<open>\<open>trim_start_matches\<close> removes the prefix as often as it occurs.\<close>

function trim_start_matches :: "string \<Rightarrow> string \<Rightarrow> string" where
  "trim_start_matches p s =
     (if p \<noteq> [] \<and> prefix p s then trim_start_matches p (drop (length p) s) else s)"
  by pat_completeness auto
termination
  by (relation "measure (\<lambda>(p, s). length s)") (auto simp: prefix_def)

declare trim_start_matches.simps [simp del]

definition fsync_policy_from_env :: "env \<Rightarrow> fsync_policy" where
  "fsync_policy_from_env e =
     (let s = to_ascii_lowercase (case e ''DMQ_FSYNC'' of Some v \<Rightarrow> v | None \<Rightarrow> ''always'')
      in if s = ''never'' \<or> s = ''none'' \<or> s = ''0'' then Never
         else if s = ''always'' \<or> s = ''1'' then Always
         else if prefix ''every:'' s then
           EveryN (max 1 (case parse_word (trim_start_matches ''every:'' s) of
                            Some n \<Rightarrow> n | None \<Rightarrow> 10))
         else (case parse_word s of Some n \<Rightarrow> EveryN (max 1 n) | None \<Rightarrow> Always))"

text \<open>
  The decision and the advanced counter; \<open>fetch_add\<close> returns the old value and wraps, and
  \<open>EveryN 0\<close> is never built.
\<close>

definition should_fsync_after_append :: "env \<Rightarrow> u32 \<Rightarrow> bool \<times> u32" where
  "should_fsync_after_append e counter =
     (case fsync_policy_from_env e of
        Always \<Rightarrow> (True, counter)
      | Never \<Rightarrow> (False, counter)
      | EveryN n \<Rightarrow> (unat counter mod unat n = 0, counter + 1))"

definition maybe_sync_data :: "env \<Rightarrow> string \<Rightarrow> data_dir \<Rightarrow> data_dir" where
  "maybe_sync_data e name d =
     (let (hit, c) = should_fsync_after_append e (append_counter d);
          d1 = d\<lparr>append_counter := c\<rparr>
      in if hit then sync_data name d1 else d1)"

lemma df_get_maybe_sync [store_simps]: "df_get (maybe_sync_data e name d) name' = df_get d name'"
  by (simp add: maybe_sync_data_def df_get_def sync_data_def Let_def split: prod.split)

lemma df_contents_maybe_sync [store_simps]:
  "df_contents (maybe_sync_data e name d) name' = df_contents d name'"
  by (simp add: df_contents_def df_get_maybe_sync)

lemma df_contents_put [store_simps]:
  "df_contents (df_put name c d) name' = (if name' = name then c else df_contents d name')"
  by (simp add: df_contents_def df_get_put)

text \<open>A file is safe when a crash gives back what the process sees.\<close>

definition durable_file :: "data_dir \<Rightarrow> string \<Rightarrow> bool" where
  "durable_file d name \<longleftrightarrow> df_get (crash d) name = df_get d name"

lemma df_get_crash: "df_get (crash d) name = hm_get (durable d) name"
  by (simp add: df_get_def crash_def)

lemma durable_sync: "df_exists d name \<Longrightarrow> durable_file (sync_data name d) name"
  by (auto simp: durable_file_def df_get_crash df_get_sync df_exists_iff) (simp add: sync_data_def)

lemma durable_maybe_sync_always:
  assumes "fsync_policy_from_env e = Always" and "df_exists d name"
  shows "durable_file (maybe_sync_data e name d) name"
proof -
  have "maybe_sync_data e name d = sync_data name (d\<lparr>append_counter := append_counter d\<rparr>)"
    using assms(1) by (simp add: maybe_sync_data_def should_fsync_after_append_def)
  moreover have "df_exists (d\<lparr>append_counter := append_counter d\<rparr>) name" using assms(2) by simp
  ultimately show ?thesis by (simp add: durable_sync)
qed

section \<open>File names\<close>

definition broker_metadata_path :: string where
  "broker_metadata_path = ''broker_metadata.dat''"

definition topic_metadata_path :: "u16 \<Rightarrow> string" where
  "topic_metadata_path t = ''topic_metadata_'' @ show_word t @ ''.dat''"

definition cgroup_metadata_path :: "u16 \<Rightarrow> u16 \<Rightarrow> string" where
  "cgroup_metadata_path t g = ''cgroup_metadata_'' @ show_word t @ ''_'' @ show_word g @ ''.dat''"

definition offset_metadata_path :: "u16 \<Rightarrow> u16 \<Rightarrow> u16 \<Rightarrow> string" where
  "offset_metadata_path g t p =
     ''offset_metadata_'' @ show_word g @ ''_'' @ show_word t @ ''_'' @ show_word p @ ''.dat''"

definition idempotency_path :: "u16 \<Rightarrow> u16 \<Rightarrow> u64 \<Rightarrow> string" where
  "idempotency_path t p pid =
     ''idempotency_'' @ show_word t @ ''_'' @ show_word p @ ''_'' @ show_word pid @ ''.dat''"

definition topic_config_path :: "u16 \<Rightarrow> string" where
  "topic_config_path t = ''topic_config_'' @ show_word t @ ''.dat''"

definition log_data_path :: "u16 \<Rightarrow> u16 \<Rightarrow> string" where
  "log_data_path t p = ''log_data_'' @ show_word t @ ''_'' @ show_word p @ ''.dat''"

definition log_meta_path :: "u16 \<Rightarrow> u16 \<Rightarrow> string" where
  "log_meta_path t p = ''log_meta_'' @ show_word t @ ''_'' @ show_word p @ ''.dat''"

definition partition_metadata_path :: "u16 \<Rightarrow> u16 \<Rightarrow> u16 \<Rightarrow> string" where
  "partition_metadata_path t g p =
     ''partition_metadata_'' @ show_word t @ ''_'' @ show_word g @ ''_'' @ show_word p @ ''.dat''"

definition under_arr_path :: "u16 \<Rightarrow> u16 \<Rightarrow> u16 \<Rightarrow> string" where
  "under_arr_path t g p =
     ''underArr_'' @ show_word t @ ''_'' @ show_word g @ ''_'' @ show_word p @ ''.dat''"

definition under_size_path :: "u16 \<Rightarrow> u16 \<Rightarrow> u16 \<Rightarrow> string" where
  "under_size_path t g p =
     ''underSize_'' @ show_word t @ ''_'' @ show_word g @ ''_'' @ show_word p @ ''.dat''"

definition cluster_state_path :: string where
  "cluster_state_path = ''cluster_state.dat''"

text \<open>What the files of the directory stand for, and the name each has.\<close>

datatype file_key =
    BrokerMetadata | TopicMetadata u16 | CgroupMetadata u16 u16 | OffsetMetadata u16 u16 u16
  | Idempotency u16 u16 u64 | TopicConfigFile u16 | LogData u16 u16 | LogMeta u16 u16
  | PartitionMetadata u16 u16 u16 | UnderArr u16 u16 u16 | UnderSize u16 u16 u16
  | ClusterStateFile

fun file_name :: "file_key \<Rightarrow> string" where
  "file_name BrokerMetadata = broker_metadata_path"
| "file_name (TopicMetadata t) = topic_metadata_path t"
| "file_name (CgroupMetadata t g) = cgroup_metadata_path t g"
| "file_name (OffsetMetadata g t p) = offset_metadata_path g t p"
| "file_name (Idempotency t p pid) = idempotency_path t p pid"
| "file_name (TopicConfigFile t) = topic_config_path t"
| "file_name (LogData t p) = log_data_path t p"
| "file_name (LogMeta t p) = log_meta_path t p"
| "file_name (PartitionMetadata t g p) = partition_metadata_path t g p"
| "file_name (UnderArr t g p) = under_arr_path t g p"
| "file_name (UnderSize t g p) = under_size_path t g p"
| "file_name ClusterStateFile = cluster_state_path"

lemma split_dat: "split_on CHR ''_'' (show_nat n @ ''.dat'') = [show_nat n @ ''.dat'']"
  by (rule split_on_no_sep) simp

lemmas file_name_split =
  broker_metadata_path_def topic_metadata_path_def cgroup_metadata_path_def
  offset_metadata_path_def idempotency_path_def topic_config_path_def log_data_path_def
  log_meta_path_def partition_metadata_path_def under_arr_path_def under_size_path_def
  cluster_state_path_def split_on_append split_dat

lemma file_name_eq_iff [simp]: "file_name k = file_name k' \<longleftrightarrow> k = k'"
proof
  assume "file_name k = file_name k'"
  then have "split_on CHR ''_'' (file_name k) = split_on CHR ''_'' (file_name k')" by simp
  then show "k = k'"
    by (cases k; cases k') (auto simp: file_name_split dest: show_word_inj)
qed simp

declare file_name.simps [simp del]

text \<open>Names as keys, so that the disequality of two names is that of their keys.\<close>

lemmas path_keys = file_name.simps [symmetric]

text \<open>
  No two keys of the data directory share a file, so no component overwrites another's
  state and no two partitions, groups or producers share a file.
\<close>

theorem file_names_injective: "inj file_name"
  by (rule injI) simp

end
