(* ===== verification/Partition_Log.thy ===== *)
theory Partition_Log
  imports Rust_Bytes
begin

text \<open>
  The in-memory partition log of \<open>dmq-storage/src/partition_log.rs\<close>: records with
  consecutive offsets, a base offset that retention moves forward, and a fetch bounded by
  a byte budget.  The reference is \<open>log_of m h\<close>, the log a topic with retention limit \<open>m\<close>
  must have after the payloads \<open>h\<close> were appended; \<open>append\<close> refines appending to \<open>h\<close>, and
  everything about fetch and reload is proved of the reference.

  Offsets are 64-bit words; the increments of the source wrap in a release build, so the
  theorems ask for fewer than \<open>2 ^ 64\<close> appends.
\<close>

section \<open>Data\<close>

record log_record =
  rec_offset :: u64
  rec_payload :: bytes

record fetch_result =
  fr_base_offset :: u64
  fr_next_offset :: u64
  fr_records :: "log_record list"

record partition_log =
  base_offset :: u64
  next_offset :: u64
  records :: "log_record list"
  max_records :: "nat option"

section \<open>Operations\<close>

definition log_new :: partition_log where
  "log_new = \<lparr>base_offset = 0, next_offset = 0, records = [], max_records = None\<rparr>"

definition with_max_records :: "nat \<Rightarrow> partition_log" where
  "with_max_records m = log_new\<lparr>max_records := Some m\<rparr>"

definition log_len :: "partition_log \<Rightarrow> nat" where
  "log_len log = length (records log)"

definition log_is_empty :: "partition_log \<Rightarrow> bool" where
  "log_is_empty log \<longleftrightarrow> records log = []"

definition enforce_retention :: "partition_log \<Rightarrow> partition_log" where
  "enforce_retention log =
     (case max_records log of
        None \<Rightarrow> log
      | Some m \<Rightarrow>
          if length (records log) \<le> m then log
          else
            let excess = length (records log) - m;
                log1 = log\<lparr>records := drop excess (records log),
                           base_offset := base_offset log + of_nat excess\<rparr>
            in (case records log1 of
                  first # _ \<Rightarrow> log1\<lparr>base_offset := rec_offset first\<rparr>
                | [] \<Rightarrow> log1\<lparr>base_offset := next_offset log1\<rparr>))"

definition log_append :: "partition_log \<Rightarrow> bytes \<Rightarrow> u64 \<times> partition_log" where
  "log_append log payload =
     (let offset = next_offset log;
          log1 = log\<lparr>next_offset := next_offset log + 1,
                     records := records log @ [\<lparr>rec_offset = offset, rec_payload = payload\<rparr>]\<rparr>
      in (offset, enforce_retention log1))"

definition usize_max :: nat where
  "usize_max = 2 ^ 64 - 1"

definition usize_sat_add :: "nat \<Rightarrow> nat \<Rightarrow> nat" where
  "usize_sat_add a b = min (a + b) usize_max"

fun fetch_loop :: "nat \<Rightarrow> log_record list \<Rightarrow> log_record list \<Rightarrow> nat \<Rightarrow> log_record list" where
  "fetch_loop max_bytes [] out used = out"
| "fetch_loop max_bytes (rec # rest) out used =
     (let cost = length (rec_payload rec)
      in if out \<noteq> [] \<and> usize_sat_add used cost > max_bytes then out
         else fetch_loop max_bytes rest (out @ [rec]) (usize_sat_add used cost))"

definition log_fetch :: "partition_log \<Rightarrow> u64 \<Rightarrow> nat \<Rightarrow> fetch_result" where
  "log_fetch log from_offset max_bytes =
     (let start_offset = max from_offset (base_offset log)
      in if start_offset \<ge> next_offset log \<or> records log = [] then
           \<lparr>fr_base_offset = base_offset log, fr_next_offset = next_offset log,
            fr_records = []\<rparr>
         else
           let start_idx = unat (start_offset - base_offset log)
           in \<lparr>fr_base_offset = base_offset log, fr_next_offset = next_offset log,
               fr_records = fetch_loop max_bytes (drop start_idx (records log)) [] 0\<rparr>)"

section \<open>Reference: the log of a history\<close>

definition numbered :: "bytes list \<Rightarrow> log_record list" where
  "numbered h = map (\<lambda>i. \<lparr>rec_offset = of_nat i, rec_payload = h ! i\<rparr>) [0..<length h]"

definition kept :: "nat option \<Rightarrow> nat \<Rightarrow> nat" where
  "kept mr n = (case mr of None \<Rightarrow> n | Some m \<Rightarrow> min m n)"

definition start_of :: "nat option \<Rightarrow> nat \<Rightarrow> nat" where
  "start_of mr n = n - kept mr n"

definition log_of :: "nat option \<Rightarrow> bytes list \<Rightarrow> partition_log" where
  "log_of mr h =
     \<lparr>base_offset = of_nat (start_of mr (length h)), next_offset = of_nat (length h),
      records = drop (start_of mr (length h)) (numbered h), max_records = mr\<rparr>"

text \<open>A sequence of appends.\<close>

fun append_all :: "partition_log \<Rightarrow> bytes list \<Rightarrow> partition_log" where
  "append_all log [] = log"
| "append_all log (p # ps) = append_all (snd (log_append log p)) ps"

text \<open>The representation invariant that clients of the log can rely on.\<close>

definition log_wf :: "partition_log \<Rightarrow> bool" where
  "log_wf log \<longleftrightarrow>
     unat (base_offset log) + length (records log) = unat (next_offset log) \<and>
     (\<forall>i<length (records log).
        unat (rec_offset (records log ! i)) = unat (base_offset log) + i) \<and>
     (case max_records log of None \<Rightarrow> True | Some m \<Rightarrow> length (records log) \<le> m)"

lemma length_numbered [simp]: "length (numbered h) = length h"
  by (simp add: numbered_def)

lemma numbered_nth [simp]:
  "i < length h \<Longrightarrow> numbered h ! i = \<lparr>rec_offset = of_nat i, rec_payload = h ! i\<rparr>"
  by (simp add: numbered_def)

lemma numbered_snoc:
  "numbered (h @ [p]) = numbered h @ [\<lparr>rec_offset = of_nat (length h), rec_payload = p\<rparr>]"
  by (rule nth_equalityI) (auto simp: nth_append less_Suc_eq)

lemma kept_le [simp]: "kept mr n \<le> n"
  by (simp add: kept_def split: option.split)

lemma start_of_le [simp]: "start_of mr n \<le> n"
  by (simp add: start_of_def)

lemma start_plus_kept [simp]: "n - start_of mr n = kept mr n" "start_of mr n + kept mr n = n"
  by (simp_all add: start_of_def)

lemma start_of_simps: "start_of None n = 0" "start_of (Some m) n = n - m"
  by (simp_all add: start_of_def kept_def)

lemma start_of_mono: "start_of mr n \<le> start_of mr (Suc n)"
  by (cases mr) (simp_all add: start_of_simps)

lemma log_of_sel [simp]:
  "base_offset (log_of mr h) = of_nat (start_of mr (length h))"
  "next_offset (log_of mr h) = of_nat (length h)"
  "records (log_of mr h) = drop (start_of mr (length h)) (numbered h)"
  "max_records (log_of mr h) = mr"
  by (simp_all add: log_of_def)

lemma log_of_Nil: "log_of None [] = log_new" "log_of (Some m) [] = with_max_records m"
  by (simp_all add: log_of_def log_new_def with_max_records_def start_of_simps numbered_def)

section \<open>Append refines the history\<close>

lemma enforce_retention_within:
  assumes "case max_records log of None \<Rightarrow> True | Some m \<Rightarrow> length (records log) \<le> m"
  shows "enforce_retention log = log"
  using assms by (simp add: enforce_retention_def split: option.splits)

text \<open>
  Beyond the limit, retention keeps the last \<open>m\<close> records and moves the base to the first
  of them, or to the next offset when none is left.
\<close>

lemma enforce_retention_beyond:
  assumes "max_records log = Some m" and "m < length (records log)"
  shows "enforce_retention log =
    log\<lparr>records := drop (length (records log) - m) (records log),
        base_offset := (if m = 0 then next_offset log
                        else rec_offset (records log ! (length (records log) - m)))\<rparr>"
proof -
  let ?e = "length (records log) - m"
  show ?thesis
  proof (cases "m = 0")
    case True
    with assms show ?thesis by (simp add: enforce_retention_def)
  next
    case False
    with assms have "?e < length (records log)" by simp
    then have "drop ?e (records log) = records log ! ?e # drop (Suc ?e) (records log)"
      by (rule take_drop_Suc_nth)
    with False assms show ?thesis by (simp add: enforce_retention_def Let_def)
  qed
qed

lemma enforce_retention_log_of:
  "enforce_retention \<lparr>base_offset = of_nat (start_of mr (length h)),
     next_offset = of_nat (length h) + 1,
     records = drop (start_of mr (length h)) (numbered (h @ [p])), max_records = mr\<rparr>
   = log_of mr (h @ [p])"
proof (cases "\<exists>m. mr = Some m \<and> m \<le> length h")
  case False
  then have "start_of mr (length h) = start_of mr (Suc (length h))"
    by (cases mr) (auto simp: start_of_simps)
  moreover from False have
    "case mr of None \<Rightarrow> True | Some m \<Rightarrow> Suc (length h) - start_of mr (length h) \<le> m"
    by (auto simp: start_of_simps split: option.split)
  ultimately show ?thesis
    by (subst enforce_retention_within) (simp_all add: log_of_def add.commute split: option.splits)
next
  case True
  then obtain m where m: "mr = Some m" "m \<le> length h" by blast
  let ?n = "start_of mr (Suc (length h))"
  let ?rs = "drop (start_of mr (length h)) (numbered (h @ [p]))"
  let ?log = "\<lparr>base_offset = of_nat (start_of mr (length h)),
     next_offset = of_nat (length h) + 1, records = ?rs, max_records = mr\<rparr>"
  have len: "length ?rs = Suc m" using m by (simp add: start_of_simps)
  have n: "start_of mr (length h) + 1 = ?n" using m by (simp add: start_of_simps)
  have rs: "drop 1 ?rs = drop ?n (numbered (h @ [p]))" using n by (simp add: add.commute)
  have base: "(if m = 0 then next_offset ?log else rec_offset (?rs ! 1)) = of_nat ?n"
  proof (cases "m = 0")
    case True
    with m show ?thesis by (simp add: start_of_simps add.commute)
  next
    case False
    with m have "?n < length (h @ [p])" by (simp add: start_of_simps)
    with False n len show ?thesis by (simp only: nth_drop) (simp add: add.commute)
  qed
  have lim: "max_records ?log = Some m" "m < length (records ?log)" using m len by simp_all
  have one: "length (records ?log) - m = 1" using len by simp
  have "enforce_retention ?log = ?log\<lparr>records := drop 1 ?rs,
      base_offset := (if m = 0 then next_offset ?log else rec_offset (?rs ! 1))\<rparr>"
    using enforce_retention_beyond [OF lim] unfolding one
    by (simp only: partition_log.select_convs)
  then show ?thesis
    unfolding rs base by (simp add: log_of_def add.commute)
qed

text \<open>
  Appending to the log of a history returns the history's length as the offset and gives
  the log of the extended history, at any retention limit.
\<close>

lemma log_append_log_of:
  "log_append (log_of mr h) p = (of_nat (length h), log_of mr (h @ [p]))"
proof -
  have "drop (start_of mr (length h)) (numbered h)
          @ [\<lparr>rec_offset = of_nat (length h), rec_payload = p\<rparr>]
        = drop (start_of mr (length h)) (numbered (h @ [p]))"
    by (simp add: numbered_snoc)
  then show ?thesis
    using enforce_retention_log_of [of mr h p]
    by (simp add: log_append_def log_of_def Let_def)
qed

lemma append_all_log_of: "append_all (log_of mr h) ps = log_of mr (h @ ps)"
  by (induction ps arbitrary: h) (simp_all add: log_append_log_of)

lemma unat_start_of:
  "length h < 2 ^ 64 \<Longrightarrow> unat (of_nat (start_of mr (length h)) :: u64) = start_of mr (length h)"
  using start_of_le [of mr "length h"] by (simp add: unat_of_nat_u64 del: start_of_le)

lemma log_wf_log_of:
  assumes "length h < 2 ^ 64"
  shows "log_wf (log_of mr h)"
proof -
  have "unat (rec_offset (numbered h ! (start_of mr (length h) + i))) = start_of mr (length h) + i"
    if "i < kept mr (length h)" for i
  proof -
    have "start_of mr (length h) + i < length h"
      using that start_plus_kept(2) [of mr "length h"] by linarith
    with assms show ?thesis by (simp add: unat_of_nat_u64 del: of_nat_add)
  qed
  moreover have "case mr of None \<Rightarrow> True | Some m \<Rightarrow> kept mr (length h) \<le> m"
    by (simp add: kept_def split: option.split)
  ultimately show ?thesis
    using assms by (simp add: log_wf_def unat_start_of unat_of_nat_u64 split: option.splits)
qed

section \<open>The append-only log interface\<close>

text \<open>
  What reload, replication and the broker rely on: a log represents a history, and an
  append returns the history's length as the offset and extends it.  Two logs of one
  history under one retention limit are equal, so replaying a history rebuilds the log.
\<close>

locale append_only_log =
  fixes rep :: "'l \<Rightarrow> bytes list \<Rightarrow> bool"
    and app :: "'l \<Rightarrow> bytes \<Rightarrow> u64 \<times> 'l"
    and limit :: "'l \<Rightarrow> nat option"
  assumes rep_app: "rep l h \<Longrightarrow> rep (snd (app l p)) (h @ [p])"
    and app_offset: "rep l h \<Longrightarrow> fst (app l p) = of_nat (length h)"
    and limit_app: "limit (snd (app l p)) = limit l"
    and rep_unique: "rep l h \<Longrightarrow> rep l' h \<Longrightarrow> limit l = limit l' \<Longrightarrow> l = l'"
begin

lemma rep_fold: "rep l h \<Longrightarrow> rep (fold (\<lambda>p l. snd (app l p)) ps l) (h @ ps)"
proof (induction ps arbitrary: l h)
  case Nil
  then show ?case by simp
next
  case (Cons p ps)
  then have "rep (fold (\<lambda>p l. snd (app l p)) ps (snd (app l p))) ((h @ [p]) @ ps)"
    by (intro Cons.IH rep_app)
  then show ?case by simp
qed

lemma limit_fold: "limit (fold (\<lambda>p l. snd (app l p)) ps l) = limit l"
  by (induction ps arbitrary: l) (simp_all add: limit_app)

text \<open>Replaying the whole history into any log that represents no record rebuilds the log.\<close>

lemma replay_rebuilds:
  assumes "rep l h" and "rep l0 []" and "limit l0 = limit l"
  shows "fold (\<lambda>p l. snd (app l p)) h l0 = l"
  using rep_unique [OF rep_fold [OF assms(2), of h, simplified] assms(1)] assms(3)
  by (simp add: limit_fold)

text \<open>Offsets handed out are consecutive, so no two appends get one offset.\<close>

lemma consecutive_offsets:
  assumes "rep l h"
  shows "fst (app (fold (\<lambda>p l. snd (app l p)) ps l) p) = of_nat (length h + length ps)"
  using app_offset [OF rep_fold [OF assms, of ps], of p] by simp

end

definition log_rep :: "partition_log \<Rightarrow> bytes list \<Rightarrow> bool" where
  "log_rep log h \<longleftrightarrow> log = log_of (max_records log) h"

lemma log_rep_log_of [simp]: "log_rep (log_of mr h) h"
  by (simp add: log_rep_def)

lemma log_rep_iff: "log_rep log h \<longleftrightarrow> (\<exists>mr. log = log_of mr h)"
  by (auto simp: log_rep_def)

interpretation plog: append_only_log log_rep log_append max_records
proof unfold_locales
  fix log h p
  assume "log_rep log h"
  then obtain mr where "log = log_of mr h" by (auto simp: log_rep_iff)
  then show "log_rep (snd (log_append log p)) (h @ [p])"
    and "fst (log_append log p) = of_nat (length h)"
    by (simp_all add: log_append_log_of)
next
  fix log p
  show "max_records (snd (log_append log p)) = max_records log"
    by (auto simp: log_append_def enforce_retention_def Let_def split: option.split list.split)
next
  fix log log' h
  assume "log_rep log h" "log_rep log' h" "max_records log = max_records log'"
  then show "log = log'" by (simp add: log_rep_def)
qed

lemma append_all_fold: "append_all log ps = fold (\<lambda>p l. snd (log_append l p)) ps log"
  by (induction ps arbitrary: log) simp_all

section \<open>Fetch\<close>

definition payload_bytes :: "log_record list \<Rightarrow> nat" where
  "payload_bytes rs = sum_list (map (\<lambda>r. length (rec_payload r)) rs)"

text \<open>
  A batch from the available records \<open>rs\<close> under a budget: a prefix of them, not empty
  when there are any, within the budget unless it is a single record, and not extensible.
\<close>

definition batch_spec :: "nat \<Rightarrow> log_record list \<Rightarrow> log_record list \<Rightarrow> bool" where
  "batch_spec max_bytes rs out \<longleftrightarrow>
     prefix out rs \<and> (rs \<noteq> [] \<longrightarrow> out \<noteq> []) \<and>
     (length out \<le> 1 \<or> payload_bytes out \<le> max_bytes) \<and>
     (length out < length rs \<longrightarrow> payload_bytes (take (Suc (length out)) rs) > max_bytes)"

lemma payload_bytes_simps [simp]:
  "payload_bytes [] = 0"
  "payload_bytes (r # rs) = length (rec_payload r) + payload_bytes rs"
  "payload_bytes (rs @ rs') = payload_bytes rs + payload_bytes rs'"
  by (simp_all add: payload_bytes_def)

lemma fetch_loop_spec:
  assumes "used = min (payload_bytes out) usize_max" and "max_bytes < usize_max"
    and "length out \<le> 1 \<or> payload_bytes out \<le> max_bytes"
  shows "\<exists>ext. fetch_loop max_bytes rs out used = out @ ext \<and> prefix ext rs \<and>
    (out = [] \<and> rs \<noteq> [] \<longrightarrow> ext \<noteq> []) \<and>
    (length (out @ ext) \<le> 1 \<or> payload_bytes (out @ ext) \<le> max_bytes) \<and>
    (length ext < length rs \<longrightarrow> payload_bytes (out @ take (Suc (length ext)) rs) > max_bytes)"
  using assms
proof (induction rs arbitrary: out used)
  case Nil
  then show ?case by auto
next
  case (Cons r rs)
  let ?c = "length (rec_payload r)"
  have over: "usize_sat_add used ?c > max_bytes \<longleftrightarrow> payload_bytes out + ?c > max_bytes"
    using Cons.prems(1,2) by (auto simp: usize_sat_add_def)
  show ?case
  proof (cases "out \<noteq> [] \<and> payload_bytes out + ?c > max_bytes")
    case True
    then have "fetch_loop max_bytes (r # rs) out used = out @ []" using over by simp
    moreover have "payload_bytes (out @ take (Suc (length ([] :: log_record list))) (r # rs))
        > max_bytes" using True by simp
    ultimately show ?thesis using True Cons.prems(3) by (intro exI [of _ "[]"]) simp
  next
    case False
    let ?used = "usize_sat_add used ?c"
    have "?used = min (payload_bytes (out @ [r])) usize_max"
      using Cons.prems(1) by (simp add: usize_sat_add_def)
    moreover have "length (out @ [r]) \<le> 1 \<or> payload_bytes (out @ [r]) \<le> max_bytes"
      using False by auto
    ultimately obtain ext where ext:
      "fetch_loop max_bytes rs (out @ [r]) ?used = (out @ [r]) @ ext" "prefix ext rs"
      "length ((out @ [r]) @ ext) \<le> 1 \<or> payload_bytes ((out @ [r]) @ ext) \<le> max_bytes"
      "length ext < length rs \<longrightarrow>
         payload_bytes ((out @ [r]) @ take (Suc (length ext)) rs) > max_bytes"
      using Cons.IH [of ?used "out @ [r]"] Cons.prems(2) by blast
    have "fetch_loop max_bytes (r # rs) out used = out @ r # ext"
      using False over ext(1) by (auto simp: Let_def)
    with ext(2-4) show ?thesis by (intro exI [of _ "r # ext"]) auto
  qed
qed

lemma fetch_loop_batch:
  assumes "max_bytes < usize_max"
  shows "batch_spec max_bytes rs (fetch_loop max_bytes rs [] 0)"
  using fetch_loop_spec [of 0 "[]" max_bytes rs] assms by (auto simp: batch_spec_def)

lemma batch_spec_unique:
  assumes a: "batch_spec mb rs out" and b: "batch_spec mb rs out'"
  shows "out = out'"
proof -
  have shorter: "\<not> length x < length y"
    if x: "batch_spec mb rs x" and y: "batch_spec mb rs y" for x y
  proof
    assume lt: "length x < length y"
    from y have py: "prefix y rs" by (simp add: batch_spec_def)
    then have ylen: "length y \<le> length rs" by (rule prefix_length_le)
    with lt x have gt: "payload_bytes (take (Suc (length x)) rs) > mb"
      by (simp add: batch_spec_def)
    have "take (Suc (length x)) rs = take (Suc (length x)) y"
      using py lt by (auto simp: prefix_def)
    then have "payload_bytes (take (Suc (length x)) rs) \<le> payload_bytes y"
      by (metis append_take_drop_id le_add1 payload_bytes_simps(3))
    with gt have "length y \<le> 1" using y by (auto simp: batch_spec_def)
    with lt have "x = []" by (cases x) auto
    moreover have "rs \<noteq> []" using lt ylen by auto
    ultimately show False using x by (simp add: batch_spec_def)
  qed
  have "length out = length out'" using shorter a b by (meson linorder_neqE_nat)
  then show ?thesis using a b by (auto simp: batch_spec_def prefix_def)
qed

text \<open>The records a fetch at \<open>from\<close> can return: the history from there, or from the base.\<close>

definition available :: "nat option \<Rightarrow> bytes list \<Rightarrow> u64 \<Rightarrow> log_record list" where
  "available mr h from = drop (max (unat from) (start_of mr (length h))) (numbered h)"

lemma log_fetch_available:
  assumes h: "length h < 2 ^ 64"
  shows "fr_records (log_fetch (log_of mr h) from mb) = fetch_loop mb (available mr h from) [] 0"
proof -
  let ?s = "start_of mr (length h)"
  let ?start = "max from (of_nat ?s :: u64)"
  have us: "unat (of_nat ?s :: u64) = ?s" using h by (rule unat_start_of)
  have un: "unat (of_nat (length h) :: u64) = length h" using h by (simp add: unat_of_nat_u64)
  have start: "unat ?start = max (unat from) ?s"
    using us by (simp add: max_def word_le_nat_alt)
  show ?thesis
  proof (cases "?start \<ge> of_nat (length h)")
    case True
    then have "length h \<le> max (unat from) ?s" using start un by (simp add: word_le_nat_alt)
    with True show ?thesis by (simp add: log_fetch_def available_def Let_def)
  next
    case False
    then have lt: "max (unat from) ?s < length h"
      using start un by (simp add: word_le_nat_alt not_le)
    have "unat (?start - of_nat ?s) = max (unat from) ?s - ?s"
      using start us by (subst unat_sub) (simp_all add: word_le_nat_alt)
    then have "unat (?start - of_nat ?s) + ?s = max (unat from) ?s" by simp
    moreover have "drop ?s (numbered h) \<noteq> []" using lt by simp
    ultimately show ?thesis
      using False lt by (simp add: log_fetch_def available_def Let_def)
  qed
qed

lemma available_nth:
  assumes "i < length (available mr h from)"
  shows "available mr h from ! i =
    \<lparr>rec_offset = of_nat (max (unat from) (start_of mr (length h)) + i),
     rec_payload = h ! (max (unat from) (start_of mr (length h)) + i)\<rparr>"
  using assms by (simp add: available_def)

section \<open>Properties\<close>

lemma log_append_unlimited_wf:
  fixes log p
  defines "log1 \<equiv> log\<lparr>next_offset := next_offset log + 1,
     records := records log @ [\<lparr>rec_offset = next_offset log, rec_payload = p\<rparr>]\<rparr>"
  assumes wf: "log_wf log" and bound: "unat (next_offset log) + 1 < 2 ^ 64"
  shows "unat (base_offset log1) + length (records log1) = unat (next_offset log1)"
    and "i < length (records log1) \<Longrightarrow>
           unat (rec_offset (records log1 ! i)) = unat (base_offset log1) + i"
proof -
  have nx: "unat (next_offset log + 1) = unat (next_offset log) + 1"
    using bound by (intro unat_Suc_small) simp
  from wf have b: "unat (base_offset log) + length (records log) = unat (next_offset log)"
    and o: "\<And>i. i < length (records log) \<Longrightarrow>
       unat (rec_offset (records log ! i)) = unat (base_offset log) + i"
    by (simp_all add: log_wf_def)
  show "unat (base_offset log1) + length (records log1) = unat (next_offset log1)"
    using b nx by (simp add: log1_def)
  show "unat (rec_offset (records log1 ! i)) = unat (base_offset log1) + i"
    if "i < length (records log1)"
    using that b o by (auto simp: log1_def nth_append less_Suc_eq)
qed

text \<open>
  The representation invariant (offsets consecutive from the base to the next offset, at
  most the configured number of records) is kept by every append to a well-formed log
  whose offsets are not exhausted.
\<close>

theorem log_append_wf:
  assumes wf: "log_wf log" and bound: "unat (next_offset log) + 1 < 2 ^ 64"
  shows "log_wf (snd (log_append log p))"
proof -
  define log1 where "log1 = log\<lparr>next_offset := next_offset log + 1,
     records := records log @ [\<lparr>rec_offset = next_offset log, rec_payload = p\<rparr>]\<rparr>"
  note ap = log_append_unlimited_wf [OF wf bound, where p = p, folded log1_def]
  have res: "snd (log_append log p) = enforce_retention log1"
    by (simp add: log_append_def log1_def Let_def)
  have len: "length (records log1) = Suc (length (records log))" by (simp add: log1_def)
  have mr: "max_records log1 = max_records log" by (simp add: log1_def)
  show ?thesis
  proof (cases "\<exists>m. max_records log = Some m \<and> m < length (records log1)")
    case False
    then have "case max_records log1 of None \<Rightarrow> True | Some m \<Rightarrow> length (records log1) \<le> m"
      by (auto simp: mr split: option.split)
    then show ?thesis using ap by (simp add: res enforce_retention_within log_wf_def)
  next
    case True
    then obtain m where m: "max_records log1 = Some m" "m < length (records log1)"
      by (auto simp: mr)
    moreover have "length (records log) \<le> m" using wf m mr by (simp add: log_wf_def)
    ultimately have one: "length (records log1) - m = 1" "m = length (records log)"
      using len by simp_all
    note eq = enforce_retention_beyond [OF m, unfolded one(1)]
    show ?thesis
    proof (cases "m = 0")
      case True
      then show ?thesis using len one m by (simp add: res eq log_wf_def)
    next
      case False
      then have "unat (rec_offset (records log1 ! 1)) = unat (base_offset log1) + 1"
        using ap(2) [of 1] len one by simp
      then show ?thesis using ap len one m False by (simp add: res eq log_wf_def)
    qed
  qed
qed

theorem log_append_wf_witness:
  "log_wf (snd (log_append (snd (log_append (with_max_records 1) [1])) [2]))
   \<and> base_offset (snd (log_append (snd (log_append (with_max_records 1) [1])) [2])) = 1"
proof
  let ?l = "snd (log_append (with_max_records 1) [1])"
  have l: "?l = log_of (Some 1) [[1]]"
    using log_append_log_of [of "Some 1" "[]" "[1]"] by (simp add: log_of_Nil)
  have "log_wf ?l" unfolding l by (rule log_wf_log_of) simp
  moreover have "unat (next_offset ?l) + 1 < 2 ^ 64" unfolding l by simp
  ultimately show "log_wf (snd (log_append ?l [2]))" by (rule log_append_wf)
  show "base_offset (snd (log_append ?l [2])) = 1"
    unfolding l by (simp add: log_append_log_of start_of_simps)
qed

lemma append_all_with_max: "append_all (with_max_records m) ps = log_of (Some m) ps"
  using append_all_log_of [of "Some m" "[]" ps] by (simp add: log_of_Nil)

text \<open>
  The partition log refines its history.  Appends to a fresh log with any retention
  limit hand out the offsets 0, 1, 2 and so on, and the log is at every point the
  reference log: the last \<open>m\<close> payloads under their own offsets.
\<close>

theorem log_append_refines_history:
  "log_append (append_all (with_max_records m) ps) p =
     (of_nat (length ps), log_of (Some m) (ps @ [p]))"
  using append_all_log_of [of "Some m" "[]" ps] log_append_log_of [of "Some m" ps p]
  by (simp add: log_of_Nil)

text \<open>
  A fetch returns exactly the batch the documentation promises: starting at the
  requested offset, or at the earliest retained one when that is later, the longest run
  of consecutive records within the byte budget, and never an empty batch when a record
  is available.
\<close>

theorem log_fetch_batch:
  assumes "length ps < 2 ^ 64" and "max_bytes < usize_max"
  shows "batch_spec max_bytes (available (Some m) ps from)
    (fr_records (log_fetch (append_all (with_max_records m) ps) from max_bytes))"
  using assms by (simp add: append_all_with_max log_fetch_available fetch_loop_batch)

theorem log_fetch_batch_witness:
  "batch_spec 2 (available (Some 3) [[1], [2, 2], [3, 3, 3]] 1)
     (fr_records (log_fetch (append_all (with_max_records 3) [[1], [2, 2], [3, 3, 3]]) 1 2))
   \<and> fr_records (log_fetch (append_all (with_max_records 3) [[1], [2, 2], [3, 3, 3]]) 1 2)
      = [\<lparr>rec_offset = 1, rec_payload = [2, 2]\<rparr>]"
proof
  show "batch_spec 2 (available (Some 3) [[1], [2, 2], [3, 3, 3]] 1)
     (fr_records (log_fetch (append_all (with_max_records 3) [[1], [2, 2], [3, 3, 3]]) 1 2))"
    by (rule log_fetch_batch) (simp_all add: usize_max_def)
  show "fr_records (log_fetch (append_all (with_max_records 3) [[1], [2, 2], [3, 3, 3]]) 1 2)
      = [\<lparr>rec_offset = 1, rec_payload = [2, 2]\<rparr>]"
    unfolding append_all_with_max
    by (simp add: log_fetch_available available_def numbered_def
        start_of_simps usize_sat_add_def usize_max_def upt_rec)
qed

text \<open>
  Read your own write.  Fetching at the offset an append returned gives exactly the
  appended record, whatever the budget, when the topic retains at least one record.
\<close>

theorem log_fetch_own_append:
  assumes m: "0 < m" and len: "length ps + 1 < 2 ^ 64"
  shows "fr_records (log_fetch (snd (log_append (append_all (with_max_records m) ps) p))
      (fst (log_append (append_all (with_max_records m) ps) p)) max_bytes)
    = [\<lparr>rec_offset = of_nat (length ps), rec_payload = p\<rparr>]"
proof -
  have "max (unat (of_nat (length ps) :: u64)) (start_of (Some m) (length (ps @ [p]))) = length ps"
    using m len by (simp add: unat_of_nat_u64 start_of_simps)
  then have "available (Some m) (ps @ [p]) (of_nat (length ps))
      = [\<lparr>rec_offset = of_nat (length ps), rec_payload = p\<rparr>]"
    by (simp add: available_def numbered_snoc)
  then show ?thesis
    using len by (simp add: append_all_with_max log_append_log_of log_fetch_available)
qed

theorem log_fetch_own_append_witness:
  "fr_records (log_fetch (snd (log_append (append_all (with_max_records 1) [[7]]) [8, 9]))
      (fst (log_append (append_all (with_max_records 1) [[7]]) [8, 9])) 0)
    = [\<lparr>rec_offset = 1, rec_payload = [8, 9]\<rparr>]"
  using log_fetch_own_append [of 1 "[[7]]" "[8, 9]" 0] by simp

end
