(* ===== verification/Log_Store.thy ===== *)
theory Log_Store
  imports Data_Dir Partition_Log
begin

text \<open>
  The on-disk partition log of \<open>dmq-storage/src/log_store.rs\<close>: records appended to
  \<open>log_data_T_P.dat\<close>, the offsets in \<open>log_meta_T_P.dat\<close>, and the reload that replays the
  file into a fresh in-memory log.  The loop of the reload runs on the bytes that are
  left of the file; its debug assertion on the stored offset is compiled out of a release
  build and is not part of the model.
\<close>

section \<open>Operations\<close>

definition file_append :: "string \<Rightarrow> bytes \<Rightarrow> data_dir \<Rightarrow> data_dir" where
  "file_append name bs d = write_file name (length (df_contents d name)) bs d"

definition write_u64_log :: "env \<Rightarrow> string \<Rightarrow> nat \<Rightarrow> u64 \<Rightarrow> data_dir \<Rightarrow> data_dir" where
  "write_u64_log e name off v d = maybe_sync_data e name (write_file name off (to_be_bytes v) d)"

definition store_meta_offsets ::
  "env \<Rightarrow> u16 \<Rightarrow> u16 \<Rightarrow> u64 option \<Rightarrow> u64 option \<Rightarrow> data_dir \<Rightarrow> data_dir" where
  "store_meta_offsets e t p base nxt d =
     (let name = log_meta_path t p;
          d1 = open_create name d;
          d2 = (if length (df_contents d1 name) < 16 then
                  write_u64_log e name 8 0
                    (write_u64_log e name 0 0
                      (df_put name (set_len 16 (df_contents d1 name)) d1))
                else d1);
          d3 = (case base of None \<Rightarrow> d2 | Some b \<Rightarrow> write_u64_log e name 0 b d2)
      in (case nxt of None \<Rightarrow> d3 | Some n \<Rightarrow> write_u64_log e name 8 n d3))"

definition append_record ::
  "env \<Rightarrow> u16 \<Rightarrow> u16 \<Rightarrow> log_record \<Rightarrow> data_dir \<Rightarrow> unit io_result \<times> data_dir" where
  "append_record e t p rec d =
     (let name = log_data_path t p;
          d1 = open_create name d
      in if length (rec_payload rec) \<ge> 2 ^ 16 then
           (io_err InvalidInput ''payload too large for log segment'', d1)
         else
           let d2 = file_append name (to_be_bytes (rec_offset rec)) d1;
               d3 = file_append name (to_be_bytes (of_nat (length (rec_payload rec)) :: u16)) d2;
               d4 = file_append name (rec_payload rec) d3;
               d5 = maybe_sync_data e name d4
           in (Inr (), store_meta_offsets e t p None (Some (rec_offset rec + 1)) d5))"

function load_loop :: "bytes \<Rightarrow> partition_log \<Rightarrow> partition_log io_result" where
  "load_loop bs log =
     (if length bs < 8 then Inr log
      else
        let bs1 = drop 8 bs
        in if length bs1 < 2 then io_err UnexpectedEof ''failed to fill whole buffer''
           else
             let len = unat (be_at 0 2 bs1 :: u16);
                 bs2 = drop 2 bs1
             in if length bs2 < len then io_err UnexpectedEof ''failed to fill whole buffer''
                else load_loop (drop len bs2) (snd (log_append log (take len bs2))))"
  by pat_completeness auto
termination
  by (relation "measure (\<lambda>(bs, log). length bs)") auto

declare load_loop.simps [simp del]

definition load_partition_log ::
  "data_dir \<Rightarrow> u16 \<Rightarrow> u16 \<Rightarrow> nat option \<Rightarrow> partition_log io_result" where
  "load_partition_log d t p mr =
     (let log = (case mr of Some n \<Rightarrow> with_max_records n | None \<Rightarrow> log_new)
      in case df_get d (log_data_path t p) of
           None \<Rightarrow> Inr log
         | Some contents \<Rightarrow> load_loop contents log)"

section \<open>The contents of the log file\<close>

definition encode_record :: "log_record \<Rightarrow> bytes" where
  "encode_record rec =
     to_be_bytes (rec_offset rec) @ to_be_bytes (of_nat (length (rec_payload rec)) :: u16)
     @ rec_payload rec"

abbreviation encode_log :: "log_record list \<Rightarrow> bytes" where
  "encode_log rs \<equiv> concat (map encode_record rs)"

definition small_payload :: "bytes \<Rightarrow> bool" where
  "small_payload p \<longleftrightarrow> length p < 2 ^ 16"

lemma length_encode_record: "length (encode_record rec) = 10 + length (rec_payload rec)"
  by (simp add: encode_record_def)

text \<open>One turn of the loop at a complete header.\<close>

lemma load_loop_header:
  assumes "length a = 8"
  shows "load_loop (a @ to_be_bytes (n :: u16) @ body) log =
    (if length body < unat n then io_err UnexpectedEof ''failed to fill whole buffer''
     else load_loop (drop (unat n) body) (snd (log_append log (take (unat n) body))))"
proof -
  have "(be_at 0 2 (to_be_bytes n @ body) :: u16) = n"
    using be_at_read(1) [of 0 "[]" n body] by simp
  then show ?thesis using assms by (subst load_loop.simps) (simp add: Let_def)
qed

lemma load_loop_record:
  assumes "small_payload (rec_payload rec)"
  shows "load_loop (encode_record rec @ bs) log = load_loop bs (snd (log_append log (rec_payload rec)))"
proof -
  have "unat (of_nat (length (rec_payload rec)) :: u16) = length (rec_payload rec)"
    using assms by (simp add: unat_of_nat_u16 small_payload_def)
  then show ?thesis by (simp add: encode_record_def load_loop_header)
qed

lemma load_loop_records:
  assumes "\<forall>r\<in>set rs. small_payload (rec_payload r)"
  shows "load_loop (encode_log rs @ bs) log = load_loop bs (append_all log (map rec_payload rs))"
  using assms by (induction rs arbitrary: log) (simp_all add: load_loop_record)

lemma load_loop_short: "length bs < 8 \<Longrightarrow> load_loop bs log = Inr log"
  by (simp add: load_loop.simps)

lemma map_payload_numbered [simp]: "map rec_payload (numbered h) = h"
  by (rule nth_equalityI) simp_all

lemma numbered_small:
  "\<forall>x\<in>set h. small_payload x \<Longrightarrow> \<forall>r\<in>set (numbered h). small_payload (rec_payload r)"
  by (auto simp: numbered_def)

text \<open>The data file of a partition holds the history \<open>h\<close>.\<close>

definition log_file_holds :: "data_dir \<Rightarrow> u16 \<Rightarrow> u16 \<Rightarrow> bytes list \<Rightarrow> bool" where
  "log_file_holds d t p h \<longleftrightarrow>
     (case df_get d (log_data_path t p) of
        None \<Rightarrow> h = []
      | Some c \<Rightarrow> c = encode_log (numbered h)) \<and> (\<forall>x\<in>set h. small_payload x)"

lemma log_file_holds_contents:
  "log_file_holds d t p h \<Longrightarrow> df_contents d (log_data_path t p) = encode_log (numbered h)"
  by (auto simp: log_file_holds_def df_contents_def numbered_def split: option.splits)

lemma load_partition_log_holds:
  assumes "log_file_holds d t p h"
  shows "load_partition_log d t p mr = Inr (log_of mr h)"
proof -
  let ?log = "case mr of Some n \<Rightarrow> with_max_records n | None \<Rightarrow> log_new"
  have base: "?log = log_of mr []" by (cases mr) (simp_all add: log_of_Nil)
  show ?thesis
  proof (cases "df_get d (log_data_path t p)")
    case None
    with assms base show ?thesis by (simp add: load_partition_log_def log_file_holds_def)
  next
    case (Some c)
    with assms have c: "c = encode_log (numbered h) @ []" and "\<forall>x\<in>set h. small_payload x"
      by (simp_all add: log_file_holds_def)
    then have "load_loop c ?log = load_loop [] (append_all ?log h)"
      unfolding c by (subst load_loop_records) (simp_all add: numbered_small)
    also have "\<dots> = Inr (log_of mr h)"
      by (simp add: base append_all_log_of load_loop_short)
    finally show ?thesis using Some by (simp add: load_partition_log_def)
  qed
qed

section \<open>What an append changes\<close>

lemma df_get_write_u64_log [store_simps]:
  "df_get (write_u64_log e name off v d) name' =
     (if name' = name then Some (write_at off (to_be_bytes v) (df_contents d name))
      else df_get d name')"
  by (simp add: write_u64_log_def store_simps)

lemma store_meta_frame [store_simps]:
  "name \<noteq> log_meta_path t p \<Longrightarrow> df_get (store_meta_offsets e t p b n d) name = df_get d name"
  by (simp add: store_meta_offsets_def store_simps Let_def split: option.split)

lemma append_record_data:
  assumes "small_payload (rec_payload rec)"
  shows "df_get (snd (append_record e t p rec d)) (log_data_path t p) =
           Some (df_contents d (log_data_path t p) @ encode_record rec)"
proof -
  have "log_data_path t p \<noteq> log_meta_path t p" by (simp add: path_keys)
  with assms show ?thesis
    by (simp add: append_record_def file_append_def small_payload_def encode_record_def
        store_simps Let_def)
qed

lemma append_record_ok: "small_payload (rec_payload rec) \<Longrightarrow> fst (append_record e t p rec d) = Inr ()"
  by (simp add: append_record_def small_payload_def Let_def)

lemma append_record_frame:
  assumes "name \<noteq> log_data_path t p" and "name \<noteq> log_meta_path t p"
  shows "df_get (snd (append_record e t p rec d)) name = df_get d name"
  using assms by (simp add: append_record_def file_append_def store_simps Let_def)

lemma append_record_holds:
  assumes "log_file_holds d t p h" and "small_payload x"
  shows "log_file_holds (snd (append_record e t p \<lparr>rec_offset = of_nat (length h), rec_payload = x\<rparr> d))
           t p (h @ [x])"
  using assms append_record_data [of "\<lparr>rec_offset = of_nat (length h), rec_payload = x\<rparr>" e t p d]
  by (auto simp: log_file_holds_contents numbered_snoc) (simp_all add: log_file_holds_def numbered_snoc)

text \<open>
  The storage part of a broker append: the in-memory append, the record on disk under the
  offset it returned, and the two offsets of the meta file.
\<close>

definition persist_append ::
  "env \<Rightarrow> u16 \<Rightarrow> u16 \<Rightarrow> bytes \<Rightarrow> partition_log \<times> data_dir \<Rightarrow> partition_log \<times> data_dir" where
  "persist_append e t p payload s =
     (let (off, log) = log_append (fst s) payload;
          d1 = snd (append_record e t p \<lparr>rec_offset = off, rec_payload = payload\<rparr> (snd s))
      in (log, store_meta_offsets e t p (Some (base_offset log)) (Some (next_offset log)) d1))"

lemma persist_append_holds:
  assumes "log_file_holds d t p h" and "small_payload x"
  shows "persist_append e t p x (log_of mr h, d) =
      (log_of mr (h @ [x]), snd (persist_append e t p x (log_of mr h, d)))"
    and "log_file_holds (snd (persist_append e t p x (log_of mr h, d))) t p (h @ [x])"
proof -
  show "persist_append e t p x (log_of mr h, d) =
      (log_of mr (h @ [x]), snd (persist_append e t p x (log_of mr h, d)))"
    by (simp add: persist_append_def log_append_log_of)
  have "log_data_path t p \<noteq> log_meta_path t p" by (simp add: path_keys)
  then have "df_get (snd (persist_append e t p x (log_of mr h, d))) (log_data_path t p)
     = df_get (snd (append_record e t p \<lparr>rec_offset = of_nat (length h), rec_payload = x\<rparr> d))
         (log_data_path t p)"
    by (simp add: persist_append_def log_append_log_of store_simps Let_def)
  with append_record_holds [OF assms, of e] show
    "log_file_holds (snd (persist_append e t p x (log_of mr h, d))) t p (h @ [x])"
    by (simp add: log_file_holds_def)
qed

fun persist_all ::
  "env \<Rightarrow> u16 \<Rightarrow> u16 \<Rightarrow> bytes list \<Rightarrow> partition_log \<times> data_dir \<Rightarrow> partition_log \<times> data_dir" where
  "persist_all e t p [] s = s"
| "persist_all e t p (x # xs) s = persist_all e t p xs (persist_append e t p x s)"

lemma persist_all_holds:
  assumes "log_file_holds d t p h" and "\<forall>x\<in>set xs. small_payload x"
  shows "\<exists>d'. persist_all e t p xs (log_of mr h, d) = (log_of mr (h @ xs), d')
           \<and> log_file_holds d' t p (h @ xs)"
  using assms
proof (induction xs arbitrary: h d)
  case Nil
  then show ?case by simp
next
  case (Cons x xs)
  let ?d = "snd (persist_append e t p x (log_of mr h, d))"
  from Cons.prems have "log_file_holds ?d t p (h @ [x])"
    and eq: "persist_append e t p x (log_of mr h, d) = (log_of mr (h @ [x]), ?d)"
    using persist_append_holds [of d t p h x] by simp_all
  with Cons.IH [of ?d "h @ [x]"] Cons.prems(2) show ?case by simp
qed

section \<open>Properties\<close>

lemma empty_dir_holds: "log_file_holds empty_dir t p []"
  by (simp add: log_file_holds_def empty_dir_def df_get_def)

text \<open>
  C15: recovery.  Whatever payloads of at most 65535 bytes were appended to a partition of an
  empty directory, under any retention limit and any fsync policy, reloading the partition
  from the directory gives back exactly the in-memory log: the same base and next offsets
  and the same retained records.
\<close>

theorem reload_restores_log:
  assumes "\<forall>x\<in>set xs. small_payload x"
  shows "load_partition_log (snd (persist_all e t p xs (with_max_records m, empty_dir))) t p (Some m)
    = Inr (fst (persist_all e t p xs (with_max_records m, empty_dir)))"
proof -
  obtain d where d: "persist_all e t p xs (log_of (Some m) [], empty_dir) = (log_of (Some m) xs, d)"
    "log_file_holds d t p xs"
    using persist_all_holds [OF empty_dir_holds assms, where mr = "Some m" and e = e and t = t and p = p]
    by auto
  then show ?thesis by (simp add: log_of_Nil load_partition_log_holds)
qed

theorem reload_restores_log_witness:
  "load_partition_log (snd (persist_all empty_env 4 0 [[1], [2, 3]] (with_max_records 1, empty_dir)))
      4 0 (Some 1)
    = Inr (fst (persist_all empty_env 4 0 [[1], [2, 3]] (with_max_records 1, empty_dir)))"
  by (rule reload_restores_log) (simp add: small_payload_def)



lemma durable_file_other:
  assumes "name \<noteq> name'"
  shows "durable_file (write_u64_log e name off v d) name' = durable_file d name'"
    and "durable_file (df_put name c d) name' = durable_file d name'"
  using assms
  by (simp_all add: durable_file_def crash_def write_u64_log_def maybe_sync_data_def
      write_file_def df_put_def df_get_def sync_data_def Let_def split: prod.split)

lemma durable_store_meta:
  assumes "name \<noteq> log_meta_path t p"
  shows "durable_file (store_meta_offsets e t p b n d) name = durable_file d name"
  using assms
  by (simp add: store_meta_offsets_def open_create_def durable_file_other [OF assms [symmetric]]
      Let_def split: option.split)

text \<open>
  Durability.  Under the default policy (an fsync after every append) an acknowledged
  append is on disk: after a power loss the data file has the contents the process saw.
\<close>

theorem append_record_durable:
  assumes "fsync_policy_from_env e = Always"
    and "fst (append_record e t p rec d) = Inr ()"
  shows "durable_file (snd (append_record e t p rec d)) (log_data_path t p)"
proof -
  have ne: "log_data_path t p \<noteq> log_meta_path t p" by (simp add: path_keys)
  from assms(2) have small: "\<not> length (rec_payload rec) \<ge> 2 ^ 16"
    by (auto simp: append_record_def Let_def split: if_splits)
  let ?n = "log_data_path t p"
  let ?d4 = "file_append ?n (rec_payload rec)
      (file_append ?n (to_be_bytes (of_nat (length (rec_payload rec)) :: u16))
        (file_append ?n (to_be_bytes (rec_offset rec)) (open_create ?n d)))"
  have "df_exists ?d4 ?n" by (simp add: df_exists_iff file_append_def store_simps)
  then have "durable_file (maybe_sync_data e ?n ?d4) ?n"
    by (rule durable_maybe_sync_always [OF assms(1)])
  with small ne show ?thesis by (simp add: append_record_def Let_def durable_store_meta)
qed

theorem append_record_durable_witness:
  "durable_file (snd (append_record empty_env 1 0 \<lparr>rec_offset = 0, rec_payload = [9]\<rparr> empty_dir))
     (log_data_path 1 0)"
  by (rule append_record_durable)
    (simp_all add: fsync_policy_from_env_def to_ascii_lowercase_def ascii_lower_char_def
      append_record_def Let_def)

end
