(* ===== verification/Metadata.thy ===== *)
theory Metadata
  imports Data_Dir
begin

text \<open>
  The small recovery files of \<open>dmq-storage/src/metadata.rs\<close> and the topic configuration of
  \<open>topic_config.rs\<close>: the topics of the broker, the groups of a topic, the partition count
  of a group, committed offsets, topic configurations and the last sequence of each
  idempotent producer.  Every write of a field is followed by \<open>sync_data\<close>.

  The locale \<open>file_store\<close> states what the broker relies on: a store is read back, leaves
  the other keys alone and survives a power loss.  It is interpreted for every file kind
  with a key of its own.
\<close>

section \<open>Fields of a file\<close>

definition file_read_u16 :: "bytes \<Rightarrow> nat \<Rightarrow> u16 io_result" where
  "file_read_u16 c off = res_bind (read_exact_at off 2 c) (\<lambda>buf. Inr (from_be_bytes buf))"

definition file_read_u32 :: "bytes \<Rightarrow> nat \<Rightarrow> u32 io_result" where
  "file_read_u32 c off = res_bind (read_exact_at off 4 c) (\<lambda>buf. Inr (from_be_bytes buf))"

definition file_read_u64 :: "bytes \<Rightarrow> nat \<Rightarrow> u64 io_result" where
  "file_read_u64 c off = res_bind (read_exact_at off 8 c) (\<lambda>buf. Inr (from_be_bytes buf))"

definition file_write :: "string \<Rightarrow> nat \<Rightarrow> bytes \<Rightarrow> data_dir \<Rightarrow> data_dir" where
  "file_write name off bs d = sync_data name (write_file name off bs d)"

definition write_u16 :: "string \<Rightarrow> nat \<Rightarrow> u16 \<Rightarrow> data_dir \<Rightarrow> data_dir" where
  "write_u16 name off v d = file_write name off (to_be_bytes v) d"

definition write_u32 :: "string \<Rightarrow> nat \<Rightarrow> u32 \<Rightarrow> data_dir \<Rightarrow> data_dir" where
  "write_u32 name off v d = file_write name off (to_be_bytes v) d"

definition write_u64 :: "string \<Rightarrow> nat \<Rightarrow> u64 \<Rightarrow> data_dir \<Rightarrow> data_dir" where
  "write_u64 name off v d = file_write name off (to_be_bytes v) d"

lemmas write_defs = write_u16_def write_u32_def write_u64_def file_write_def

lemmas file_read_defs = file_read_u16_def file_read_u32_def file_read_u64_def read_exact_at_def

lemma file_read_field [codec_simps]:
  "off = length pre \<Longrightarrow> file_read_u16 (pre @ to_be_bytes v16 @ post) off = Inr v16"
  "off = length pre \<Longrightarrow> file_read_u32 (pre @ to_be_bytes v32 @ post) off = Inr v32"
  "off = length pre \<Longrightarrow> file_read_u64 (pre @ to_be_bytes v64 @ post) off = Inr v64"
  by (simp_all add: file_read_defs slice_append_mid)

lemmas file_read_first [codec_simps] =
  file_read_field [where pre = "[]", simplified]

lemmas file_read_last [codec_simps] =
  file_read_field [where post = "[]", simplified] file_read_first [where post = "[]", simplified]

section \<open>Topic configuration\<close>

record topic_config =
  tc_topic_id :: u16
  tc_partition_count :: u16
  tc_max_records :: u32

definition topic_config_new :: "u16 \<Rightarrow> u16 \<Rightarrow> u32 \<Rightarrow> topic_config" where
  "topic_config_new t partition_count mr =
     \<lparr>tc_topic_id = t, tc_partition_count = max 1 partition_count, tc_max_records = max 1 mr\<rparr>"

definition topic_config_default_for :: "u16 \<Rightarrow> topic_config" where
  "topic_config_default_for t = topic_config_new t 1 10000"

definition store_topic_config :: "u16 \<Rightarrow> u16 \<Rightarrow> u32 \<Rightarrow> data_dir \<Rightarrow> data_dir" where
  "store_topic_config t partition_count mr d =
     (let name = topic_config_path t
      in write_u32 name 2 mr (write_u16 name 0 partition_count (open_truncate name d)))"

definition load_topic_config :: "data_dir \<Rightarrow> u16 \<Rightarrow> (u16 \<times> u32) option io_result" where
  "load_topic_config d t =
     (case df_get d (topic_config_path t) of
        None \<Rightarrow> Inr None
      | Some c \<Rightarrow>
          res_bind (file_read_u16 c 0) (\<lambda>pc.
          res_bind (file_read_u32 c 2) (\<lambda>mr. Inr (Some (pc, mr)))))"

section \<open>Idempotent producers\<close>

definition store_idempotency_state ::
  "u16 \<Rightarrow> u16 \<Rightarrow> u64 \<Rightarrow> u64 \<Rightarrow> u64 \<Rightarrow> data_dir \<Rightarrow> data_dir" where
  "store_idempotency_state t p pid sequence off d =
     (let name = idempotency_path t p pid
      in write_u64 name 8 off (write_u64 name 0 sequence (open_truncate name d)))"

definition load_idempotency_state ::
  "data_dir \<Rightarrow> u16 \<Rightarrow> u16 \<Rightarrow> u64 \<Rightarrow> (u64 \<times> u64) option io_result" where
  "load_idempotency_state d t p pid =
     (case df_get d (idempotency_path t p pid) of
        None \<Rightarrow> Inr None
      | Some c \<Rightarrow>
          res_bind (file_read_u64 c 0) (\<lambda>sq.
          res_bind (file_read_u64 c 8) (\<lambda>off. Inr (Some (sq, off)))))"

type_synonym idempotency_index = "(u16 \<times> u16 \<times> u64, u64 \<times> u64) hmap"

text \<open>The key that a directory entry names, if it names one.\<close>

definition idempotency_key_of_name :: "string \<Rightarrow> (u16 \<times> u16 \<times> u64) option" where
  "idempotency_key_of_name name =
     (if \<not> valid_str name then None
      else case Option.bind (strip_prefix ''idempotency_'' name) (strip_suffix ''.dat'') of
        None \<Rightarrow> None
      | Some rest \<Rightarrow>
          (case split_on CHR ''_'' rest of
             a # b # c # _ \<Rightarrow>
               (case (parse_word a, parse_word b, parse_word c) of
                  (Some t, Some p, Some pid) \<Rightarrow> Some (t, p, pid)
                | _ \<Rightarrow> None)
           | _ \<Rightarrow> None))"

fun load_all_loop ::
  "data_dir \<Rightarrow> string list \<Rightarrow> idempotency_index \<Rightarrow> idempotency_index io_result" where
  "load_all_loop d [] out = Inr out"
| "load_all_loop d (name # names) out =
     (case idempotency_key_of_name name of
        None \<Rightarrow> load_all_loop d names out
      | Some (t, p, pid) \<Rightarrow>
          res_bind (load_idempotency_state d t p pid) (\<lambda>st.
            case st of
              None \<Rightarrow> load_all_loop d names out
            | Some v \<Rightarrow> load_all_loop d names (hm_insert (t, p, pid) v out)))"

definition load_all_idempotency :: "data_dir \<Rightarrow> idempotency_index io_result" where
  "load_all_idempotency d = load_all_loop d (hm_keys (files d)) []"

section \<open>Lists of identifiers\<close>

text \<open>
  The broker's topics and a topic's groups have the same file format and the same code:
  a 32-bit count and the 16-bit identifiers behind it, each written and synced in turn.
\<close>

fun write_ids :: "string \<Rightarrow> nat \<Rightarrow> u16 list \<Rightarrow> data_dir \<Rightarrow> data_dir" where
  "write_ids name i [] d = d"
| "write_ids name i (x # xs) d = write_ids name (Suc i) xs (write_u16 name (4 + i * 2) x d)"

definition store_ids :: "string \<Rightarrow> u16 list \<Rightarrow> data_dir \<Rightarrow> data_dir" where
  "store_ids name ids d =
     write_ids name 0 ids (write_u32 name 0 (of_nat (length ids)) (open_truncate name d))"

fun read_ids :: "bytes \<Rightarrow> nat \<Rightarrow> nat \<Rightarrow> u16 list io_result" where
  "read_ids c i 0 = Inr []"
| "read_ids c i (Suc n) =
     res_bind (file_read_u16 c (4 + i * 2)) (\<lambda>x.
     res_bind (read_ids c (Suc i) n) (\<lambda>xs. Inr (x # xs)))"

definition load_ids :: "data_dir \<Rightarrow> string \<Rightarrow> u16 list io_result" where
  "load_ids d name =
     (case df_get d name of
        None \<Rightarrow> Inr []
      | Some c \<Rightarrow> res_bind (file_read_u32 c 0) (\<lambda>count. read_ids c 0 (unat count)))"

definition load_broker_topics :: "data_dir \<Rightarrow> u16 list io_result" where
  "load_broker_topics d = load_ids d broker_metadata_path"

definition store_broker_topics :: "u16 list \<Rightarrow> data_dir \<Rightarrow> data_dir" where
  "store_broker_topics ids d = store_ids broker_metadata_path ids d"

definition load_topic_groups :: "data_dir \<Rightarrow> u16 \<Rightarrow> u16 list io_result" where
  "load_topic_groups d t = load_ids d (topic_metadata_path t)"

definition store_topic_groups :: "u16 \<Rightarrow> u16 list \<Rightarrow> data_dir \<Rightarrow> data_dir" where
  "store_topic_groups t ids d = store_ids (topic_metadata_path t) ids d"

section \<open>Group partition counts and committed offsets\<close>

definition load_cgroup_partition_count :: "data_dir \<Rightarrow> u16 \<Rightarrow> u16 \<Rightarrow> u32 io_result" where
  "load_cgroup_partition_count d t g =
     (case df_get d (cgroup_metadata_path t g) of
        None \<Rightarrow> Inr 0
      | Some c \<Rightarrow> file_read_u32 c 0)"

definition store_cgroup_partition_count :: "u16 \<Rightarrow> u16 \<Rightarrow> u32 \<Rightarrow> data_dir \<Rightarrow> data_dir" where
  "store_cgroup_partition_count t g count d =
     (let name = cgroup_metadata_path t g
      in write_u32 name 0 count (open_create name d))"

definition load_committed_offset :: "data_dir \<Rightarrow> u16 \<Rightarrow> u16 \<Rightarrow> u16 \<Rightarrow> u64 option io_result" where
  "load_committed_offset d g t p =
     (case df_get d (offset_metadata_path g t p) of
        None \<Rightarrow> Inr None
      | Some c \<Rightarrow> res_bind (file_read_u64 c 0) (\<lambda>v. Inr (Some v)))"

definition store_committed_offset :: "u16 \<Rightarrow> u16 \<Rightarrow> u16 \<Rightarrow> u64 \<Rightarrow> data_dir \<Rightarrow> data_dir" where
  "store_committed_offset g t p off d =
     (let name = offset_metadata_path g t p
      in write_u64 name 0 off (open_truncate name d))"

section \<open>What a synced write does to the two sides of the directory\<close>

lemma df_get_file_write [store_simps]:
  "df_get (file_write name off bs d) n =
     (if n = name then Some (write_at off bs (df_contents d name)) else df_get d n)"
  "df_contents (file_write name off bs d) name = write_at off bs (df_contents d name)"
  by (simp_all add: file_write_def store_simps)

lemma crash_file_write [store_simps]:
  "df_get (crash (file_write name off bs d)) n =
     (if n = name then Some (write_at off bs (df_contents d name)) else df_get (crash d) n)"
  by (simp add: file_write_def df_get_crash sync_data_def store_simps)
    (simp add: write_file_def df_put_def)

lemma crash_open [store_simps]:
  "df_get (crash (open_create name d)) n = df_get (crash d) n"
  "df_get (crash (open_truncate name d)) n = df_get (crash d) n"
  by (simp_all add: df_get_crash open_create_def open_truncate_def df_put_def)

lemma write_ids_contents:
  assumes "df_contents d name = pre" and "length pre = 4 + i * 2"
  shows "df_contents (write_ids name i ids d) name = pre @ concat (map to_be_bytes ids)"
  using assms
proof (induction ids arbitrary: i d pre)
  case Nil
  then show ?case by simp
next
  case (Cons x xs)
  have "df_contents (write_u16 name (4 + i * 2) x d) name = pre @ to_be_bytes x"
    using Cons.prems by (simp add: write_u16_def store_simps)
  with Cons.IH [of "write_u16 name (4 + i * 2) x d" "pre @ to_be_bytes x" "Suc i"] Cons.prems
  show ?case by simp
qed

lemma write_ids_frame:
  "n \<noteq> name \<Longrightarrow> df_get (write_ids name i ids d) n = df_get d n"
  "n \<noteq> name \<Longrightarrow> df_get (crash (write_ids name i ids d)) n = df_get (crash d) n"
  by (induction ids arbitrary: i d) (simp_all add: write_u16_def store_simps)

lemma write_ids_durable: "durable_file d name \<Longrightarrow> durable_file (write_ids name i ids d) name"
  by (induction ids arbitrary: i d) (simp_all add: durable_file_def write_u16_def store_simps)

lemma write_ids_exists: "df_exists d name \<Longrightarrow> df_exists (write_ids name i ids d) name"
  by (induction ids arbitrary: i d) (simp_all add: df_exists_iff write_u16_def store_simps)

lemma store_ids_frame:
  "n \<noteq> name \<Longrightarrow> df_get (store_ids name ids d) n = df_get d n"
  "n \<noteq> name \<Longrightarrow> df_get (crash (store_ids name ids d)) n = df_get (crash d) n"
  by (simp_all add: store_ids_def write_ids_frame write_u32_def store_simps)

lemma store_ids_durable: "durable_file (store_ids name ids d) name"
  unfolding store_ids_def
  by (rule write_ids_durable) (simp add: durable_file_def write_u32_def store_simps)

lemma store_ids_contents:
  "df_get (store_ids name ids d) name =
     Some (to_be_bytes (of_nat (length ids) :: u32) @ concat (map to_be_bytes ids))"
proof -
  let ?d = "write_u32 name 0 (of_nat (length ids)) (open_truncate name d)"
  have "df_contents ?d name = to_be_bytes (of_nat (length ids) :: u32)"
    by (simp add: write_u32_def store_simps)
  then have "df_contents (store_ids name ids d) name
      = to_be_bytes (of_nat (length ids) :: u32) @ concat (map to_be_bytes ids)"
    unfolding store_ids_def by (intro write_ids_contents) simp_all
  moreover have "df_exists (store_ids name ids d) name"
    unfolding store_ids_def
    by (rule write_ids_exists) (simp add: df_exists_iff write_u32_def store_simps)
  ultimately show ?thesis by (auto simp: df_exists_iff)
qed

lemma read_ids_concat:
  "length pre = 4 + i * 2 \<Longrightarrow>
     read_ids (pre @ concat (map to_be_bytes ids)) i (length ids) = Inr ids"
proof (induction ids arbitrary: i pre)
  case Nil
  then show ?case by simp
next
  case (Cons x xs)
  then show ?case
    using Cons.IH [of "pre @ to_be_bytes x" "Suc i"] by (simp add: file_read_field)
qed

lemma load_store_ids:
  assumes "length ids < 2 ^ 32"
  shows "load_ids (store_ids name ids d) name = Inr ids"
proof -
  have "unat (of_nat (length ids) :: u32) = length ids"
    using assms by (simp add: unat_of_nat_u32)
  then show ?thesis
    by (simp add: load_ids_def store_ids_contents file_read_first read_ids_concat)
qed

section \<open>The contract of a metadata file\<close>

text \<open>
  \<open>ret\<close> is how the loader presents a stored value (\<open>Some\<close> for the optional ones);
  \<open>storable\<close> says which values the format can hold.
\<close>

locale file_store =
  fixes store :: "'k \<Rightarrow> 'v \<Rightarrow> data_dir \<Rightarrow> data_dir"
    and load :: "data_dir \<Rightarrow> 'k \<Rightarrow> 'r io_result"
    and ret :: "'v \<Rightarrow> 'r"
    and path :: "'k \<Rightarrow> string"
    and storable :: "'v \<Rightarrow> bool"
  assumes load_store: "storable v \<Longrightarrow> load (store k v d) k = Inr (ret v)"
    and load_file: "df_get d (path k) = df_get d' (path k) \<Longrightarrow> load d k = load d' k"
    and store_frame: "n \<noteq> path k \<Longrightarrow> df_get (store k v d) n = df_get d n"
    and crash_frame: "n \<noteq> path k \<Longrightarrow> df_get (crash (store k v d)) n = df_get (crash d) n"
    and store_durable: "durable_file (store k v d) (path k)"
    and path_inj: "path k = path k' \<Longrightarrow> k = k'"
begin

lemma load_apply:
  assumes "storable v"
  shows "load (store k v d) k' = (if k' = k then Inr (ret v) else load d k')"
proof (cases "k' = k")
  case True
  with assms show ?thesis by (simp add: load_store)
next
  case False
  then have "path k' \<noteq> path k" using path_inj by blast
  with False show ?thesis using load_file store_frame by metis
qed

lemma crash_apply:
  assumes "storable v"
  shows "load (crash (store k v d)) k' = (if k' = k then Inr (ret v) else load (crash d) k')"
proof (cases "k' = k")
  case True
  have "load (crash (store k v d)) k = load (store k v d) k"
    using store_durable by (intro load_file) (simp add: durable_file_def)
  with True assms show ?thesis by (simp add: load_store)
next
  case False
  then have "path k' \<noteq> path k" using path_inj by blast
  with False show ?thesis using load_file crash_frame by metis
qed

text \<open>After any sequence of stores a restart reads, for every key, the last value stored.\<close>

lemma crash_fold:
  assumes "\<forall>(k, v)\<in>set kvs. storable v"
  shows "load (crash (fold (\<lambda>(k, v). store k v) kvs d)) k =
    (case map_of (rev kvs) k of Some v \<Rightarrow> Inr (ret v) | None \<Rightarrow> load (crash d) k)"
  using assms
proof (induction kvs arbitrary: d)
  case Nil
  then show ?case by simp
next
  case (Cons a kvs)
  then show ?case
    by (cases a) (auto simp: crash_apply map_add_def split: option.split)
qed

end

lemma id_list_store:
  assumes "\<And>k k'. path k = path k' \<Longrightarrow> k = k'"
  shows "file_store (\<lambda>k. store_ids (path k)) (\<lambda>d k. load_ids d (path k)) (\<lambda>ids. ids)
           path (\<lambda>ids. length ids < 2 ^ 32)"
proof unfold_locales
  show "load_ids d (path k) = load_ids d' (path k)"
    if "df_get d (path k) = df_get d' (path k)" for d d' k
    using that by (simp add: load_ids_def)
qed (auto simp: load_store_ids store_ids_frame store_ids_durable dest: assms)

interpretation broker_topics: file_store
  "\<lambda>_ :: unit. store_broker_topics" "\<lambda>d _. load_broker_topics d" "\<lambda>ids. ids"
  "\<lambda>_. broker_metadata_path" "\<lambda>ids. length ids < 2 ^ 32"
  using id_list_store [of "\<lambda>_ :: unit. broker_metadata_path"]
  by (simp add: store_broker_topics_def [abs_def] load_broker_topics_def [abs_def])

interpretation topic_groups: file_store
  store_topic_groups load_topic_groups "\<lambda>ids. ids" topic_metadata_path "\<lambda>ids. length ids < 2 ^ 32"
  using id_list_store [of topic_metadata_path]
  by (simp add: store_topic_groups_def [abs_def] load_topic_groups_def [abs_def] path_keys)

interpretation topic_configs: file_store
  "\<lambda>t (pc, mr). store_topic_config t pc mr" load_topic_config Some topic_config_path "\<lambda>_. True"
  by unfold_locales
    (auto simp: store_topic_config_def load_topic_config_def durable_file_def Let_def write_u16_def
      write_u32_def path_keys store_simps codec_simps)

interpretation idempotency_files: file_store
  "\<lambda>(t, p, pid) (sq, off). store_idempotency_state t p pid sq off"
  "\<lambda>d (t, p, pid). load_idempotency_state d t p pid" Some
  "\<lambda>(t, p, pid). idempotency_path t p pid" "\<lambda>_. True"
  by unfold_locales
    (auto simp: store_idempotency_state_def load_idempotency_state_def durable_file_def Let_def
      write_u64_def path_keys store_simps codec_simps)

interpretation committed_offsets: file_store
  "\<lambda>(g, t, p). store_committed_offset g t p"
  "\<lambda>d (g, t, p). load_committed_offset d g t p" Some
  "\<lambda>(g, t, p). offset_metadata_path g t p" "\<lambda>_. True"
  by unfold_locales
    (auto simp: store_committed_offset_def load_committed_offset_def durable_file_def Let_def
      write_u64_def path_keys store_simps codec_simps)

section \<open>Properties\<close>


text \<open>
  The lists of topics and groups and the topic configurations are read back as they
  were stored, also after a power loss.
\<close>

theorem metadata_roundtrip:
  assumes "length ids < 2 ^ 32"
  shows "load_broker_topics (crash (store_broker_topics ids d)) = Inr ids
    \<and> load_topic_groups (crash (store_topic_groups t ids d)) t = Inr ids
    \<and> load_topic_config (crash (store_topic_config t pc mr d)) t = Inr (Some (pc, mr))"
  using assms broker_topics.crash_apply [where v = ids and d = d]
    topic_groups.crash_apply [where v = ids and k = t and d = d and k' = t] topic_configs.crash_apply [where v = "(pc, mr)" and k = t and d = d and k' = t]
  by simp

theorem metadata_roundtrip_witness:
  "load_broker_topics (crash (store_broker_topics [1, 42] empty_dir)) = Inr [1, 42]
   \<and> load_topic_groups (crash (store_topic_groups 7 [1, 42] empty_dir)) 7 = Inr [1, 42]
   \<and> load_topic_config (crash (store_topic_config 7 4 5000 empty_dir)) 7 = Inr (Some (4, 5000))"
  by (rule metadata_roundtrip) simp

subsection \<open>The index of idempotent producers\<close>

lemma of_char_digit: "d < 10 \<Longrightarrow> (of_char (digit_char d) :: u8) < 0x80"
  by (simp add: word_less_nat_alt unat_of_char_u8 digit_char_def)

lemma as_bytes_append [simp]: "as_bytes (s @ s') = as_bytes s @ as_bytes s'"
  by (simp add: as_bytes_def)

lemma as_bytes_show_ascii: "\<forall>b\<in>set (as_bytes (show_nat n)). b < 0x80"
  using show_nat_digits [of _ n] of_char_digit by (fastforce simp: as_bytes_def)

lemma valid_str_idempotency_path: "valid_str (idempotency_path t p pid)"
  using utf8_valid_ascii [of "as_bytes (idempotency_path t p pid)" "[]"] as_bytes_show_ascii
  by (auto simp: valid_str_def idempotency_path_def ball_Un) (auto simp: as_bytes_def)

lemma idempotency_key_of_path: "idempotency_key_of_name (idempotency_path t p pid) = Some (t, p, pid)"
proof -
  let ?rest = "show_word t @ CHR ''_'' # show_word p @ CHR ''_'' # show_word pid"
  have path: "idempotency_path t p pid = ''idempotency_'' @ (?rest @ ''.dat'')"
    by (simp add: idempotency_path_def)
  have "Option.bind (strip_prefix ''idempotency_'' (idempotency_path t p pid)) (strip_suffix ''.dat'')
      = Some ?rest"
    by (simp only: path strip_prefix_append strip_suffix_append Option.bind_lunit)
  moreover have "split_on CHR ''_'' ?rest = [show_word t, show_word p, show_word pid]"
    by (simp add: split_on_append split_on_no_sep)
  ultimately show ?thesis
    by (simp add: idempotency_key_of_name_def valid_str_idempotency_path parse_word_show)
qed

lemma load_all_loop_sound:
  assumes "load_all_loop d names out0 = Inr out"
  shows "hm_get out (t, p, pid) =
    (if (t, p, pid) \<in> Option.these (idempotency_key_of_name ` set names)
        \<and> load_idempotency_state d t p pid \<noteq> Inr None
     then projr (load_idempotency_state d t p pid) else hm_get out0 (t, p, pid))"
  using assms
proof (induction d names out0 rule: load_all_loop.induct)
  case (1 d out)
  then show ?case by (simp add: Option.these_def)
next
  case (2 d name names out0)
  show ?case
  proof (cases "idempotency_key_of_name name")
    case None
    with 2 show ?thesis by (simp add: in_these_eq)
  next
    case (Some k)
    obtain t' p' pid' where k: "k = (t', p', pid')" by (cases k)
    from "2.prems" Some k obtain st where st: "load_idempotency_state d t' p' pid' = Inr st"
      by (auto simp: res_bind_Inr_iff)
    show ?thesis
    proof (cases st)
      case None
      with 2 Some k st show ?thesis by (auto simp: in_these_eq)
    next
      case (Some v)
      with 2 \<open>idempotency_key_of_name name = Some k\<close> k st show ?thesis
        by (auto simp: in_these_eq)
    qed
  qed
qed

text \<open>The files of idempotent producers are whole: nothing stops the scan.\<close>

definition idempotency_files_whole :: "data_dir \<Rightarrow> bool" where
  "idempotency_files_whole d \<longleftrightarrow>
     (\<forall>t p pid c. df_get d (idempotency_path t p pid) = Some c \<longrightarrow> 16 \<le> length c)"

lemma load_idempotency_state_ok:
  "idempotency_files_whole d \<Longrightarrow> \<exists>st. load_idempotency_state d t p pid = Inr st"
proof (cases "df_get d (idempotency_path t p pid)")
  case (Some c)
  moreover assume "idempotency_files_whole d"
  ultimately have "16 \<le> length c" by (auto simp: idempotency_files_whole_def)
  with Some show ?thesis by (simp add: load_idempotency_state_def file_read_defs)
qed (simp add: load_idempotency_state_def)

lemma load_all_loop_total:
  "idempotency_files_whole d \<Longrightarrow> \<exists>out. load_all_loop d names out0 = Inr out"
proof (induction names arbitrary: out0)
  case Nil
  then show ?case by simp
next
  case (Cons name names)
  show ?case
  proof (cases "idempotency_key_of_name name")
    case None
    with Cons show ?thesis by simp
  next
    case (Some k)
    obtain t p pid where "k = (t, p, pid)" by (cases k)
    moreover obtain st where "load_idempotency_state d t p pid = Inr st"
      using load_idempotency_state_ok [OF Cons.prems] by blast
    ultimately show ?thesis using Some Cons by (auto split: option.split)
  qed
qed

lemma store_idempotency_whole:
  assumes "idempotency_files_whole d"
  shows "idempotency_files_whole (store_idempotency_state t p pid sq off d)"
  using assms
  by (auto simp: idempotency_files_whole_def store_idempotency_state_def write_u64_def Let_def
      store_simps)

lemma load_all_exact:
  assumes "load_all_idempotency d = Inr out"
  shows "load_idempotency_state d t p pid = Inr (hm_get out (t, p, pid))
    \<or> (\<exists>e. load_idempotency_state d t p pid = Inl e)"
proof (cases "df_get d (idempotency_path t p pid)")
  case None
  then have "load_idempotency_state d t p pid = Inr None" by (simp add: load_idempotency_state_def)
  with load_all_loop_sound [OF assms [unfolded load_all_idempotency_def], of t p pid]
  show ?thesis by simp
next
  case (Some c)
  then have "idempotency_path t p pid \<in> set (hm_keys (files d))"
    by (metis df_get_def hm_contains_def hm_contains_iff option.distinct(1))
  then have "(t, p, pid) \<in> Option.these (idempotency_key_of_name ` set (hm_keys (files d)))"
    using idempotency_key_of_path by (metis image_eqI in_these_eq)
  with load_all_loop_sound [OF assms [unfolded load_all_idempotency_def], of t p pid]
  show ?thesis
    by (cases "load_idempotency_state d t p pid"; cases "projr (load_idempotency_state d t p pid)") auto
qed

text \<open>
  Recovery of producer state.  When every producer file is whole, the scan of the
  directory at start succeeds and its index holds for every topic, partition and producer
  exactly what the file of that producer holds, whatever else lies in the directory.
\<close>

theorem load_all_idempotency_exact:
  assumes "idempotency_files_whole d"
  shows "\<exists>out. load_all_idempotency d = Inr out
    \<and> (\<forall>t p pid. load_idempotency_state d t p pid = Inr (hm_get out (t, p, pid)))"
proof -
  obtain out where out: "load_all_idempotency d = Inr out"
    using load_all_loop_total [OF assms] unfolding load_all_idempotency_def by blast
  moreover have "load_idempotency_state d t p pid = Inr (hm_get out (t, p, pid))" for t p pid
    using load_all_exact [OF out, of t p pid] load_idempotency_state_ok [OF assms, of t p pid] by auto
  ultimately show ?thesis by blast
qed

lemma empty_dir_whole: "idempotency_files_whole empty_dir"
  by (simp add: idempotency_files_whole_def df_get_def empty_dir_def)

theorem load_all_idempotency_exact_witness:
  "\<exists>out. load_all_idempotency (store_idempotency_state 1 0 99 3 42 empty_dir) = Inr out
    \<and> hm_get out (1, 0, 99) = Some (3, 42)"
proof -
  have whole: "idempotency_files_whole (store_idempotency_state 1 0 99 3 42 empty_dir)"
    by (rule store_idempotency_whole [OF empty_dir_whole])
  moreover have "load_idempotency_state (store_idempotency_state 1 0 99 3 42 empty_dir) 1 0 99
      = Inr (Some (3, 42))"
    using idempotency_files.load_apply [where v = "(3, 42)" and k = "(1, 0, 99)" and d = empty_dir and k' = "(1, 0, 99)"] by simp
  ultimately show ?thesis using load_all_idempotency_exact [OF whole] by fastforce
qed

end
