(* ===== verification/Idempotency.thy ===== *)
theory Idempotency
  imports Metadata
begin

text \<open>
  Idempotent producer state (\<open>dmq-storage/src/idempotency.rs\<close>): for each topic, partition
  and producer the last accepted sequence number and the offset it was given.  A retry of
  that sequence is answered with the same offset; anything but the next number is an
  error.  \<open>last_seq + 1\<close> wraps, as in a release build; the theorems show that the wrap is
  never reached.
\<close>

datatype idempotency_action = ReturnOffset u64 | AppendAction

record idempotency_state =
  entries :: idempotency_index

definition idempotency_default :: idempotency_state where
  "idempotency_default = \<lparr>entries = []\<rparr>"

definition idempotency_load :: "data_dir \<Rightarrow> idempotency_state io_result" where
  "idempotency_load d = res_bind (load_all_idempotency d) (\<lambda>es. Inr \<lparr>entries = es\<rparr>)"

definition resolve ::
  "idempotency_state \<Rightarrow> u16 \<Rightarrow> u16 \<Rightarrow> u64 \<Rightarrow> u64 \<Rightarrow> idempotency_action io_result" where
  "resolve st t p pid sequence =
     (case hm_get (entries st) (t, p, pid) of
        Some (last_seq, last_offset) \<Rightarrow>
          if sequence = last_seq then Inr (ReturnOffset last_offset)
          else if sequence < last_seq then
            io_err InvalidInput (''sequence '' @ show_word sequence @ '' is behind last committed ''
              @ show_word last_seq)
          else if sequence > last_seq + 1 then
            io_err InvalidInput (''sequence gap: expected '' @ show_word (last_seq + 1) @ '' got ''
              @ show_word sequence)
          else Inr AppendAction
      | None \<Rightarrow>
          if sequence \<noteq> 0 then io_err InvalidInput ''first sequence for producer must be 0''
          else Inr AppendAction)"

definition record_seq ::
  "u16 \<Rightarrow> u16 \<Rightarrow> u64 \<Rightarrow> u64 \<Rightarrow> u64 \<Rightarrow> idempotency_state \<times> data_dir \<Rightarrow> idempotency_state \<times> data_dir" where
  "record_seq t p pid sequence off s =
     (\<lparr>entries = hm_insert (t, p, pid) (sequence, off) (entries (fst s))\<rparr>,
      store_idempotency_state t p pid sequence off (snd s))"

section \<open>Properties\<close>

text \<open>
  The answer of \<open>resolve\<close> in terms of numbers: \<open>Append\<close> exactly for the successor of the
  last accepted sequence (0 when there is none), \<open>ReturnOffset\<close> exactly for a retry of it.
\<close>

lemma resolve_append_iff:
  "resolve st t p pid sq = Inr AppendAction \<longleftrightarrow>
     unat sq = (case hm_get (entries st) (t, p, pid) of None \<Rightarrow> 0 | Some (l, _) \<Rightarrow> unat l + 1)"
proof (cases "hm_get (entries st) (t, p, pid)")
  case None
  then show ?thesis by (simp add: resolve_def unat_eq_0)
next
  case (Some a)
  then obtain l off where e: "hm_get (entries st) (t, p, pid) = Some (l, off)" by (cases a) auto
  show ?thesis
  proof (cases "unat l + 1 < 2 ^ LENGTH(64)")
    case True
    then have "unat (l + 1) = unat l + 1" by (rule unat_Suc_small)
    then show ?thesis
      using e by (auto simp: resolve_def word_less_nat_alt word_unat_eq_iff)
  next
    case False
    have "unat sq < 2 ^ LENGTH(64)" by (rule unsigned_less)
    with False have "sq \<le> l" by (simp add: word_le_nat_alt)
    then show ?thesis using e by (auto simp: resolve_def word_le_nat_alt word_less_nat_alt word_unat_eq_iff)
  qed
qed

lemma resolve_return_iff:
  "resolve st t p pid sq = Inr (ReturnOffset off) \<longleftrightarrow>
     hm_get (entries st) (t, p, pid) = Some (sq, off)"
  by (auto simp: resolve_def split: option.split)

text \<open>Only those two; every other sequence is refused with an error and no panic.\<close>

lemma resolve_err_iff:
  "\<not> is_ok (resolve st t p pid sq) \<longleftrightarrow>
     \<not> (unat sq = (case hm_get (entries st) (t, p, pid) of None \<Rightarrow> 0 | Some (l, _) \<Rightarrow> unat l + 1)
        \<or> (\<exists>off. hm_get (entries st) (t, p, pid) = Some (sq, off)))"
proof (cases "resolve st t p pid sq")
  case (Inl e)
  then show ?thesis using resolve_append_iff [of st t p pid sq] resolve_return_iff [of st t p pid sq] by simp
next
  case (Inr a)
  have "unat sq = (case hm_get (entries st) (t, p, pid) of None \<Rightarrow> 0 | Some (l, _) \<Rightarrow> unat l + 1)
      \<or> (\<exists>off. hm_get (entries st) (t, p, pid) = Some (sq, off))"
    using Inr resolve_append_iff [of st t p pid sq] resolve_return_iff [of st t p pid sq]
    by (cases a) blast+
  with Inr show ?thesis by simp
qed

text \<open>
  A run of requests of one producer against an appender that hands out offsets: the
  requests that append are recorded, the others leave the state alone.  \<open>next_off\<close> is the
  offset of the next append.
\<close>

fun produce_run ::
  "u16 \<Rightarrow> u16 \<Rightarrow> u64 \<Rightarrow> u64 list \<Rightarrow> u64 \<Rightarrow> idempotency_state \<times> data_dir
    \<Rightarrow> u64 io_result list \<times> u64 list \<times> idempotency_state \<times> data_dir" where
  "produce_run t p pid [] noff s = ([], [], s)"
| "produce_run t p pid (sq # sqs) noff s =
     (case resolve (fst s) t p pid sq of
        Inl e \<Rightarrow> (case produce_run t p pid sqs noff s of (rs, as, s') \<Rightarrow> (Inl e # rs, as, s'))
      | Inr (ReturnOffset off) \<Rightarrow>
          (case produce_run t p pid sqs noff s of (rs, as, s') \<Rightarrow> (Inr off # rs, as, s'))
      | Inr AppendAction \<Rightarrow>
          (case produce_run t p pid sqs (noff + 1) (record_seq t p pid sq noff s) of
             (rs, as, s') \<Rightarrow> (Inr noff # rs, sq # as, s')))"

lemma entries_record_seq [simp]:
  "hm_get (entries (fst (record_seq t p pid sq off s))) k =
     (if k = (t, p, pid) then Some (sq, off) else hm_get (entries (fst s)) k)"
  by (simp add: record_seq_def)

text \<open>The number of the next sequence a state accepts for a producer.\<close>

definition next_seq :: "idempotency_state \<Rightarrow> u16 \<times> u16 \<times> u64 \<Rightarrow> nat" where
  "next_seq st k = (case hm_get (entries st) k of None \<Rightarrow> 0 | Some (l, _) \<Rightarrow> unat l + 1)"

lemma produce_run_appends:
  "map unat (fst (snd (produce_run t p pid sqs noff s))) =
     [next_seq (fst s) (t, p, pid)
       ..< next_seq (fst s) (t, p, pid) + length (fst (snd (produce_run t p pid sqs noff s)))]"
proof (induction sqs arbitrary: noff s)
  case Nil
  then show ?case by simp
next
  case (Cons sq sqs)
  show ?case
  proof (cases "resolve (fst s) t p pid sq")
    case (Inl e)
    with Cons [of noff s] show ?thesis by (simp add: case_prod_unfold)
  next
    case (Inr a)
    show ?thesis
    proof (cases a)
      case (ReturnOffset off)
      with Inr Cons [of noff s] show ?thesis by (simp add: case_prod_unfold)
    next
      case AppendAction
      let ?s = "record_seq t p pid sq noff s"
      have "unat sq = next_seq (fst s) (t, p, pid)"
        using Inr AppendAction resolve_append_iff by (simp add: next_seq_def)
      moreover from this have "next_seq (fst ?s) (t, p, pid) = Suc (next_seq (fst s) (t, p, pid))"
        by (simp add: next_seq_def)
      ultimately show ?thesis
        using Inr AppendAction Cons [of "noff + 1" ?s]
        by (simp add: upt_rec case_prod_unfold)
    qed
  qed
qed

text \<open>
  Exactly once.  Whatever requests arrive for a producer without a record, with any
  repetitions, reorderings and gaps, the sequences that are appended are 0, 1, 2, \<dots> in
  order, each once.
\<close>

theorem idempotent_exactly_once:
  assumes "hm_get (entries st) (t, p, pid) = None"
  shows "map unat (fst (snd (produce_run t p pid sqs noff (st, d)))) =
    [0 ..< length (fst (snd (produce_run t p pid sqs noff (st, d))))]"
  using assms produce_run_appends [of t p pid sqs noff "(st, d)"] by (simp add: next_seq_def)

theorem idempotent_exactly_once_witness:
  "map unat (fst (snd (produce_run 1 0 7 [0, 0, 2, 1, 1, 0] 5 (idempotency_default, empty_dir)))) =
    [0 ..< length (fst (snd (produce_run 1 0 7 [0, 0, 2, 1, 1, 0] 5 (idempotency_default, empty_dir))))]"
  by (rule idempotent_exactly_once) (simp add: idempotency_default_def)

text \<open>
  The decision, completely.  \<open>resolve\<close> appends exactly for the successor of the last
  accepted sequence (0 for a new producer), returns the recorded offset exactly for a
  repetition of the last one, refuses every other sequence with an error, and the wrapping
  \<open>last_seq + 1\<close> never makes sequence 0 acceptable again.
\<close>

theorem resolve_decision:
  "(resolve st t p pid sq = Inr AppendAction \<longleftrightarrow> unat sq = next_seq st (t, p, pid))
   \<and> (resolve st t p pid sq = Inr (ReturnOffset off) \<longleftrightarrow>
        hm_get (entries st) (t, p, pid) = Some (sq, off))
   \<and> (is_ok (resolve st t p pid sq) \<longleftrightarrow>
        unat sq = next_seq st (t, p, pid)
        \<or> (\<exists>off. hm_get (entries st) (t, p, pid) = Some (sq, off)))"
  using resolve_append_iff [of st t p pid sq] resolve_return_iff [of st t p pid sq off]
    resolve_err_iff [of st t p pid sq]
  unfolding next_seq_def by blast

text \<open>
  The in-memory index and the files agree; a record keeps the agreement, so a restart
  loads the same index.
\<close>

definition idem_synced :: "idempotency_state \<times> data_dir \<Rightarrow> bool" where
  "idem_synced s \<longleftrightarrow> idempotency_files_whole (snd s) \<and>
     (\<forall>t p pid. load_idempotency_state (snd s) t p pid = Inr (hm_get (entries (fst s)) (t, p, pid)))"

lemma record_seq_synced: "idem_synced s \<Longrightarrow> idem_synced (record_seq t p pid sq off s)"
proof -
  assume s: "idem_synced s"
  have "load_idempotency_state (store_idempotency_state t p pid sq off (snd s)) t' p' pid' =
      (if (t', p', pid') = (t, p, pid) then Inr (Some (sq, off))
       else load_idempotency_state (snd s) t' p' pid')" for t' p' pid'
    using idempotency_files.load_apply [where v = "(sq, off)" and k = "(t, p, pid)" and d = "snd s"
        and k' = "(t', p', pid')"]
    by simp
  with s show ?thesis
    by (simp add: idem_synced_def record_seq_def store_idempotency_whole)
qed

lemma produce_run_synced:
  "idem_synced s \<Longrightarrow> idem_synced (snd (snd (produce_run t p pid sqs noff s)))"
  by (induction sqs arbitrary: noff s)
    (auto simp: case_prod_unfold record_seq_synced split: sum.split idempotency_action.split)

text \<open>
  The dedup state survives a restart.  After any run of requests that started with the
  index and the files in agreement, loading the state from the directory succeeds and
  answers every request exactly as the running broker would.
\<close>

theorem idempotency_reload:
  assumes "idem_synced s"
  shows "\<exists>st. idempotency_load (snd (snd (snd (produce_run t p pid sqs noff s)))) = Inr st
    \<and> (\<forall>t' p' pid' sq. resolve st t' p' pid' sq =
         resolve (fst (snd (snd (produce_run t p pid sqs noff s)))) t' p' pid' sq)"
proof -
  let ?s = "snd (snd (produce_run t p pid sqs noff s))"
  have sync: "idem_synced ?s" using assms by (rule produce_run_synced)
  then obtain out where out: "load_all_idempotency (snd ?s) = Inr out"
    using load_all_loop_total unfolding load_all_idempotency_def idem_synced_def by blast
  have "hm_get out (t', p', pid') = hm_get (entries (fst ?s)) (t', p', pid')" for t' p' pid'
    using load_all_exact [OF out, of t' p' pid'] sync by (auto simp: idem_synced_def)
  then show ?thesis using out by (simp add: idempotency_load_def resolve_def)
qed

theorem idempotency_reload_witness:
  "\<exists>st. idempotency_load (snd (snd (snd (produce_run 1 0 7 [0, 1] 5 (idempotency_default, empty_dir)))))
       = Inr st
    \<and> (\<forall>t' p' pid' sq. resolve st t' p' pid' sq =
         resolve (fst (snd (snd (produce_run 1 0 7 [0, 1] 5 (idempotency_default, empty_dir)))))
           t' p' pid' sq)"
proof (rule idempotency_reload)
  show "idem_synced (idempotency_default, empty_dir)"
    using empty_dir_whole
    by (simp add: idem_synced_def idempotency_default_def load_idempotency_state_def empty_dir_def
        df_get_def)
qed

end
