(* ===== verification/Cluster.thy ===== *)
theory Cluster
  imports Rust_Text
begin

text \<open>
  The static cluster configuration of \<open>dmq-core/src/cluster.rs\<close>: brokers, partition
  assignments, the lookups the broker makes and the binary form that \<open>GET_CLUSTER\<close> sends.
  The TOML file is read by a library outside the repository; the configuration it yields is
  a parameter.
\<close>

section \<open>Data and lookups\<close>

type_synonym broker_id = u16

record broker_node =
  node_id :: broker_id
  node_host :: string
  node_port :: u16

record partition_assignment =
  pa_topic_id :: u16
  pa_partition_id :: u16
  pa_leader :: broker_id
  pa_replicas :: "broker_id list"

record cluster_config =
  cc_min_insync_replicas :: u16
  cc_brokers :: "broker_node list"
  cc_assignments :: "partition_assignment list"

definition default_min_isr :: u16 where
  "default_min_isr = 1"

definition local_broker_id :: "env \<Rightarrow> broker_id" where
  "local_broker_id e = env_word e ''DMQ_BROKER_ID'' 1"

definition cc_broker :: "cluster_config \<Rightarrow> broker_id \<Rightarrow> broker_node option" where
  "cc_broker cfg i = List.find (\<lambda>b. node_id b = i) (cc_brokers cfg)"

definition broker_addr :: "cluster_config \<Rightarrow> broker_id \<Rightarrow> string option" where
  "broker_addr cfg i = map_option (\<lambda>b. node_host b @ '':'' @ show_word (node_port b)) (cc_broker cfg i)"

definition cc_assignment :: "cluster_config \<Rightarrow> u16 \<Rightarrow> u16 \<Rightarrow> partition_assignment option" where
  "cc_assignment cfg t p =
     List.find (\<lambda>a. pa_topic_id a = t \<and> pa_partition_id a = p) (cc_assignments cfg)"

definition cc_leader_for :: "cluster_config \<Rightarrow> u16 \<Rightarrow> u16 \<Rightarrow> broker_id option" where
  "cc_leader_for cfg t p = map_option pa_leader (cc_assignment cfg t p)"

definition cc_replicas_for :: "cluster_config \<Rightarrow> u16 \<Rightarrow> u16 \<Rightarrow> broker_id list" where
  "cc_replicas_for cfg t p =
     (case cc_assignment cfg t p of Some a \<Rightarrow> pa_replicas a | None \<Rightarrow> [])"

definition cc_is_leader :: "cluster_config \<Rightarrow> broker_id \<Rightarrow> u16 \<Rightarrow> u16 \<Rightarrow> bool" where
  "cc_is_leader cfg i t p \<longleftrightarrow> cc_leader_for cfg t p = Some i"

definition cc_is_replica :: "cluster_config \<Rightarrow> broker_id \<Rightarrow> u16 \<Rightarrow> u16 \<Rightarrow> bool" where
  "cc_is_replica cfg i t p \<longleftrightarrow> i \<in> set (cc_replicas_for cfg t p)"

definition leader_addr :: "cluster_config \<Rightarrow> u16 \<Rightarrow> u16 \<Rightarrow> string option" where
  "leader_addr cfg t p = Option.bind (cc_leader_for cfg t p) (broker_addr cfg)"

definition broker_index :: "cluster_config \<Rightarrow> (broker_id, broker_node) hmap" where
  "broker_index cfg = fold (\<lambda>b m. hm_insert (node_id b) b m) (cc_brokers cfg) []"

text \<open>
  The port is parsed without an annotated type, hence as \<open>i32\<close>: a negative number is
  accepted and printed.
\<close>

definition parse_i32 :: "string \<Rightarrow> int option" where
  "parse_i32 s =
     (case s of
        [] \<Rightarrow> None
      | c # ds \<Rightarrow>
          if c = CHR ''-'' then
            (if ds = [] then None
             else case digits_val 0 ds of
                    Some n \<Rightarrow> if n \<le> 2 ^ 31 then Some (- int n) else None
                  | None \<Rightarrow> None)
          else map_option int (parse_uint (2 ^ 31 - 1) s))"

definition show_int :: "int \<Rightarrow> string" where
  "show_int i = (if i < 0 then CHR ''-'' # show_nat (nat (- i)) else show_nat (nat i))"

definition default_broker_addr :: "env \<Rightarrow> string" where
  "default_broker_addr e =
     (let port = (case Option.bind (e ''DMQ_BROKER_PORT'') parse_i32 of None \<Rightarrow> 7777 | Some n \<Rightarrow> n)
      in ''127.0.0.1:'' @ show_int port)"

text \<open>\<open>cfg\<close> is the outcome of \<open>from_env\<close>.\<close>

definition resolve_leader_addr :: "env \<Rightarrow> cluster_config option io_result \<Rightarrow> u16 \<Rightarrow> u16 \<Rightarrow> string" where
  "resolve_leader_addr e cfg t p =
     (case cfg of
        Inr (Some c) \<Rightarrow> (case leader_addr c t p of Some a \<Rightarrow> a | None \<Rightarrow> default_broker_addr e)
      | _ \<Rightarrow> default_broker_addr e)"

section \<open>The binary form\<close>

definition encode_node :: "broker_node \<Rightarrow> bytes" where
  "encode_node b =
     (let host = as_bytes (node_host b); n = min (length host) 255
      in to_be_bytes (node_id b) @ [of_nat n] @ take n host @ to_be_bytes (node_port b))"

definition encode_ids :: "u16 list \<Rightarrow> bytes" where
  "encode_ids ids = to_be_bytes (of_nat (length ids) :: u16) @ concat (map to_be_bytes ids)"

definition encode_assignment :: "partition_assignment \<Rightarrow> bytes" where
  "encode_assignment a =
     to_be_bytes (pa_topic_id a) @ to_be_bytes (pa_partition_id a) @ to_be_bytes (pa_leader a)
     @ encode_ids (pa_replicas a)"

definition cluster_config_encode :: "cluster_config \<Rightarrow> bytes" where
  "cluster_config_encode cfg =
     to_be_bytes (cc_min_insync_replicas cfg)
     @ to_be_bytes (of_nat (length (cc_brokers cfg)) :: u16) @ concat (map encode_node (cc_brokers cfg))
     @ to_be_bytes (of_nat (length (cc_assignments cfg)) :: u16)
     @ concat (map encode_assignment (cc_assignments cfg))"

text \<open>
  One turn of the loop over brokers.  The slice of the host name is not checked against the
  buffer, so it panics on a short one.
\<close>

definition read_node :: "bytes \<Rightarrow> nat \<Rightarrow> (broker_node \<times> nat) io_result" where
  "read_node payload offset =
     res_bind (read_u16 payload offset) (\<lambda>(i, o1).
     res_bind (read_u8 payload o1) (\<lambda>(hl, o2).
     res_bind (checked_slice o2 (o2 + unat hl) payload) (\<lambda>hb.
     case from_utf8 hb of
       None \<Rightarrow> io_err InvalidData ''invalid utf-8 sequence''
     | Some host \<Rightarrow>
         res_bind (read_u16 payload (o2 + unat hl)) (\<lambda>(port, o3).
         Inr (\<lparr>node_id = i, node_host = host, node_port = port\<rparr>, o3)))))"

text \<open>A 16-bit count and that many elements.\<close>

definition read_counted ::
  "(bytes \<Rightarrow> nat \<Rightarrow> ('a \<times> nat) io_result) \<Rightarrow> bytes \<Rightarrow> nat \<Rightarrow> ('a list \<times> nat) io_result" where
  "read_counted rd payload offset =
     res_bind (read_u16 payload offset) (\<lambda>(n, o1). read_many rd (unat n) payload o1)"

definition read_assignment :: "bytes \<Rightarrow> nat \<Rightarrow> (partition_assignment \<times> nat) io_result" where
  "read_assignment payload offset =
     res_bind (read_u16 payload offset) (\<lambda>(t, o1).
     res_bind (read_u16 payload o1) (\<lambda>(p, o2).
     res_bind (read_u16 payload o2) (\<lambda>(l, o3).
     res_bind (read_counted read_u16 payload o3) (\<lambda>(rs, o4).
     Inr (\<lparr>pa_topic_id = t, pa_partition_id = p, pa_leader = l, pa_replicas = rs\<rparr>, o4)))))"

definition cluster_config_decode :: "bytes \<Rightarrow> cluster_config io_result" where
  "cluster_config_decode payload =
     res_bind (read_u16 payload 0) (\<lambda>(min_isr, o1).
     res_bind (read_counted read_node payload o1) (\<lambda>(bs, o2).
     res_bind (read_counted read_assignment payload o2) (\<lambda>(as, o3).
     Inr \<lparr>cc_min_insync_replicas = min_isr, cc_brokers = bs, cc_assignments = as\<rparr>)))"

section \<open>Reading back\<close>

definition node_ok :: "broker_node \<Rightarrow> bool" where
  "node_ok b \<longleftrightarrow> valid_str (node_host b) \<and> length (node_host b) \<le> 255"

definition small_list :: "'a list \<Rightarrow> bool" where
  "small_list xs \<longleftrightarrow> length xs < 2 ^ 16"

definition config_ok :: "cluster_config \<Rightarrow> bool" where
  "config_ok cfg \<longleftrightarrow>
     small_list (cc_brokers cfg) \<and> (\<forall>b\<in>set (cc_brokers cfg). node_ok b)
     \<and> small_list (cc_assignments cfg) \<and> (\<forall>a\<in>set (cc_assignments cfg). small_list (pa_replicas a))"

text \<open>A reader reads an encoding back, wherever in a buffer it lies.\<close>

definition reads_back :: "(bytes \<Rightarrow> nat \<Rightarrow> ('a \<times> nat) io_result) \<Rightarrow> bytes \<Rightarrow> 'a \<Rightarrow> bool" where
  "reads_back rd enc x \<longleftrightarrow>
     (\<forall>pre post. rd (pre @ enc @ post) (length pre) = Inr (x, length pre + length enc))"

lemma reads_backI:
  "(\<And>pre post. rd (pre @ enc @ post) (length pre) = Inr (x, length pre + length enc))
    \<Longrightarrow> reads_back rd enc x"
  by (simp add: reads_back_def)

lemma reads_backD: "reads_back rd enc x \<Longrightarrow>
   i = length pre \<Longrightarrow> rd (pre @ enc @ post) i = Inr (x, i + length enc)"
  by (simp add: reads_back_def)

lemma reads_back_u16: "reads_back read_u16 (to_be_bytes v) v"
  by (rule reads_backI) (simp add: read_u16_at)

lemma reads_back_u64: "reads_back read_u64 (to_be_bytes v) v"
  by (rule reads_backI) (simp add: read_u64_at)

text \<open>Sequencing: the second reader starts where the first ends.\<close>

lemma reads_back_bind:
  assumes "reads_back rd e1 x" and "reads_back (k x) e2 y"
  shows "reads_back (\<lambda>bs i. res_bind (rd bs i) (\<lambda>(a, j). k a bs j)) (e1 @ e2) y"
proof (rule reads_backI)
  fix pre post
  have "k x ((pre @ e1) @ e2 @ post) (length (pre @ e1)) = Inr (y, length (pre @ e1) + length e2)"
    using assms(2) reads_backD by metis
  moreover have "rd (pre @ e1 @ e2 @ post) (length pre) = Inr (x, length pre + length e1)"
    using assms(1) by (rule reads_backD) simp
  ultimately show "res_bind (rd (pre @ (e1 @ e2) @ post) (length pre))
      (\<lambda>(a, j). k a (pre @ (e1 @ e2) @ post) j) = Inr (y, length pre + length (e1 @ e2))"
    by (simp add: add.assoc)
qed

lemma reads_back_map:
  assumes "reads_back rd e x"
  shows "reads_back (\<lambda>bs i. res_bind (rd bs i) (\<lambda>(a, j). Inr (f a, j))) e (f x)"
  using assms by (simp add: reads_back_def)

lemma reads_back_counted:
  assumes "small_list xs" and "\<And>x. x \<in> set xs \<Longrightarrow> reads_back rd (enc x) x"
  shows "reads_back (read_counted rd)
    (to_be_bytes (of_nat (length xs) :: u16) @ concat (map enc xs)) xs"
proof (rule reads_backI)
  fix pre post
  let ?n = "to_be_bytes (of_nat (length xs) :: u16)"
  have "unat (of_nat (length xs) :: u16) = length xs"
    using assms(1) by (simp add: small_list_def unat_of_nat_u16)
  moreover have "read_many rd (length xs) ((pre @ ?n) @ concat (map enc xs) @ post) (length (pre @ ?n))
      = Inr (xs, length (pre @ ?n) + length (concat (map enc xs)))"
    using assms(2) by (intro read_many_concat) (simp add: reads_back_def)
  ultimately show "read_counted rd (pre @ (?n @ concat (map enc xs)) @ post) (length pre)
      = Inr (xs, length pre + length (?n @ concat (map enc xs)))"
    by (simp add: read_counted_def read_u16_at)
qed

lemmas reads_back_ids = reads_back_counted [of _ read_u16 to_be_bytes, OF _ reads_back_u16, folded encode_ids_def]

lemma reads_back_node:
  assumes "node_ok b"
  shows "reads_back read_node (encode_node b) b"
proof (rule reads_backI)
  fix pre post
  let ?h = "as_bytes (node_host b)"
  let ?id = "to_be_bytes (node_id b)"
  let ?n = "of_nat (length ?h) :: u8"
  let ?rest = "to_be_bytes (node_port b) @ post"
  have n: "unat ?n = length ?h" using assms by (simp add: node_ok_def)
  have enc: "pre @ encode_node b @ post = pre @ ?id @ ?n # ?h @ ?rest"
    using assms by (simp add: encode_node_def node_ok_def min_def Let_def)
  have "read_u8 ((pre @ ?id) @ ?n # ?h @ ?rest) (length pre + 2) = Inr (?n, length pre + 2 + 1)"
    by (rule read_u8_at) simp
  moreover have "checked_slice (length pre + 3) (length pre + 3 + length ?h) (pre @ ?id @ ?n # ?h @ ?rest)
      = Inr ?h"
    by (simp add: checked_slice_def slice_def)
  moreover have "read_u16 ((pre @ ?id @ [?n] @ ?h) @ ?rest) (length pre + 3 + length ?h)
      = Inr (node_port b, length pre + 3 + length ?h + 2)"
    by (rule read_u16_at) simp
  moreover have "from_utf8 ?h = Some (node_host b)"
    using assms by (intro from_utf8_as_bytes) (simp add: node_ok_def)
  ultimately show "read_node (pre @ encode_node b @ post) (length pre)
      = Inr (b, length pre + length (encode_node b))"
    using assms n unfolding enc
    by (simp add: read_node_def read_u16_at encode_node_def node_ok_def min_def Let_def
        numeral_3_eq_3)
qed

lemma reads_back_assignment:
  assumes "small_list (pa_replicas a)"
  shows "reads_back read_assignment (encode_assignment a) a"
proof -
  have "reads_back read_assignment (encode_assignment a)
     \<lparr>pa_topic_id = pa_topic_id a, pa_partition_id = pa_partition_id a, pa_leader = pa_leader a,
      pa_replicas = pa_replicas a\<rparr>"
    unfolding read_assignment_def [abs_def] encode_assignment_def
    by (rule reads_back_bind [OF reads_back_u16])+ (rule reads_back_map [OF reads_back_ids [OF assms]])
  then show ?thesis by (cases a) simp
qed

section \<open>Properties\<close>

text \<open>
  The configuration sent to a client is the one received: decoding the encoding of a
  configuration whose lists and host names fit their length fields gives it back.
\<close>

theorem cluster_config_roundtrip:
  assumes "config_ok cfg"
  shows "cluster_config_decode (cluster_config_encode cfg) = Inr cfg"
proof -
  let ?m = "to_be_bytes (cc_min_insync_replicas cfg)"
  let ?b = "to_be_bytes (of_nat (length (cc_brokers cfg)) :: u16) @ concat (map encode_node (cc_brokers cfg))"
  let ?a = "to_be_bytes (of_nat (length (cc_assignments cfg)) :: u16)
    @ concat (map encode_assignment (cc_assignments cfg))"
  have b: "reads_back (read_counted read_node) ?b (cc_brokers cfg)"
    using assms by (intro reads_back_counted reads_back_node) (auto simp: config_ok_def)
  have a: "reads_back (read_counted read_assignment) ?a (cc_assignments cfg)"
    using assms by (intro reads_back_counted reads_back_assignment) (auto simp: config_ok_def)
  have "read_counted read_node (?m @ ?b @ ?a) 2 = Inr (cc_brokers cfg, 2 + length ?b)"
    by (rule reads_backD [OF b]) simp
  moreover have "read_counted read_assignment ((?m @ ?b) @ ?a @ []) (2 + length ?b)
      = Inr (cc_assignments cfg, 2 + length ?b + length ?a)"
    by (rule reads_backD [OF a]) simp
  moreover have "read_u16 ([] @ ?m @ ?b @ ?a) 0 = Inr (cc_min_insync_replicas cfg, 0 + 2)"
    by (rule read_u16_at) simp
  moreover have "cluster_config_encode cfg = ?m @ ?b @ ?a"
    by (simp add: cluster_config_encode_def)
  ultimately show ?thesis by (simp add: cluster_config_decode_def)
qed

definition sample_config :: cluster_config where
  "sample_config =
     \<lparr>cc_min_insync_replicas = 2,
      cc_brokers = [\<lparr>node_id = 1, node_host = ''a'', node_port = 7777\<rparr>,
                    \<lparr>node_id = 2, node_host = ''b'', node_port = 7778\<rparr>],
      cc_assignments = [\<lparr>pa_topic_id = 1, pa_partition_id = 0, pa_leader = 1, pa_replicas = [1, 2]\<rparr>]\<rparr>"

lemma sample_config_ok: "config_ok sample_config"
proof -
  have "valid_str ''a''" "valid_str ''b''"
    using utf8_valid_ascii [of "as_bytes ''a''" "[]"] utf8_valid_ascii [of "as_bytes ''b''" "[]"]
    by (simp_all add: valid_str_def as_bytes_def)
  then show ?thesis by (simp add: config_ok_def sample_config_def small_list_def node_ok_def)
qed

theorem cluster_config_roundtrip_witness:
  "cluster_config_decode (cluster_config_encode sample_config) = Inr sample_config"
  by (rule cluster_config_roundtrip [OF sample_config_ok])

text \<open>
  A truncated answer to \<open>GET_CLUSTER\<close> crashes the client: when a broker's host name is
  announced longer than the bytes that follow, the decoder panics instead of returning an
  error.
\<close>

theorem cluster_config_decode_panics:
  assumes "length short < unat n"
  shows "panics (cluster_config_decode
    (to_be_bytes (m :: u16) @ to_be_bytes (1 :: u16) @ to_be_bytes (i :: u16) @ n # short))"
proof -
  let ?bs = "to_be_bytes m @ to_be_bytes (1 :: u16) @ to_be_bytes i @ n # short"
  have "read_u16 ([] @ ?bs) 0 = Inr (m, 0 + 2)" by (rule read_u16_at) simp
  moreover have "read_u16 (to_be_bytes m @ to_be_bytes (1 :: u16) @ to_be_bytes i @ n # short) 2
      = Inr (1, 2 + 2)"
    by (rule read_u16_at) simp
  moreover have "read_u16 ((to_be_bytes m @ to_be_bytes (1 :: u16)) @ to_be_bytes i @ n # short) 4
      = Inr (i, 4 + 2)"
    by (rule read_u16_at) simp
  moreover have "read_u8 ((to_be_bytes m @ to_be_bytes (1 :: u16) @ to_be_bytes i) @ n # short) 6
      = Inr (n, 6 + 1)"
    by (rule read_u8_at) simp
  ultimately show ?thesis
    using assms
    by (simp add: cluster_config_decode_def read_counted_def read_node_def checked_slice_def)
qed

theorem cluster_config_decode_panics_witness:
  "panics (cluster_config_decode
    (to_be_bytes (1 :: u16) @ to_be_bytes (1 :: u16) @ to_be_bytes (1 :: u16) @ 9 # [97]))"
  by (rule cluster_config_decode_panics) simp

end
