(* ===== verification/Cluster_State.thy ===== *)
theory Cluster_State
  imports Cluster Data_Dir
begin

text \<open>
  The dynamic cluster metadata of \<open>dmq-core/src/cluster_state.rs\<close>: liveness of brokers,
  partition leadership with epochs, the failover that the controller runs, and the two
  binary forms (the persisted one with a magic number and liveness, and version 2 of the
  cluster information without it).  The clock is an argument.  The map of last-seen times
  is written in the order the hash map yields.
\<close>

section \<open>State and lookups\<close>

definition MAGIC :: bytes where
  "MAGIC = as_bytes ''DMQCS'' @ [1]"

record live_assignment =
  la_topic_id :: u16
  la_partition_id :: u16
  la_leader :: broker_id
  la_replicas :: "broker_id list"
  la_leader_epoch :: u64

record cluster_state =
  cs_min_insync_replicas :: u16
  cs_brokers :: "broker_node list"
  cs_assignments :: "live_assignment list"
  cs_broker_last_seen_ms :: "(broker_id, u64) hmap"

definition min_id :: "broker_id list \<Rightarrow> broker_id option" where
  "min_id ids = (case ids of [] \<Rightarrow> None | i # is \<Rightarrow> Some (fold min is i))"

definition controller_broker_id :: "env \<Rightarrow> broker_node list \<Rightarrow> broker_id option" where
  "controller_broker_id e bs =
     (case e ''DMQ_CONTROLLER_ID'' of
        Some s \<Rightarrow> parse_word s
      | None \<Rightarrow> min_id (map node_id bs))"

definition heartbeat_timeout_ms :: "env \<Rightarrow> u64" where
  "heartbeat_timeout_ms e = env_word e ''DMQ_HEARTBEAT_TIMEOUT_MS'' 10000"

definition heartbeat_interval_ms :: "env \<Rightarrow> u64" where
  "heartbeat_interval_ms e = env_word e ''DMQ_HEARTBEAT_INTERVAL_MS'' 3000"

definition from_seed :: "u64 \<Rightarrow> cluster_config \<Rightarrow> cluster_state" where
  "from_seed now seed =
     \<lparr>cs_min_insync_replicas = cc_min_insync_replicas seed,
      cs_brokers = cc_brokers seed,
      cs_assignments = map (\<lambda>a. \<lparr>la_topic_id = pa_topic_id a, la_partition_id = pa_partition_id a,
          la_leader = pa_leader a, la_replicas = pa_replicas a, la_leader_epoch = 1\<rparr>) (cc_assignments seed),
      cs_broker_last_seen_ms = fold (\<lambda>b m. hm_insert (node_id b) now m) (cc_brokers seed) []\<rparr>"

definition to_cluster_config :: "cluster_state \<Rightarrow> cluster_config" where
  "to_cluster_config st =
     \<lparr>cc_min_insync_replicas = cs_min_insync_replicas st,
      cc_brokers = cs_brokers st,
      cc_assignments = map (\<lambda>a. \<lparr>pa_topic_id = la_topic_id a, pa_partition_id = la_partition_id a,
          pa_leader = la_leader a, pa_replicas = la_replicas a\<rparr>) (cs_assignments st)\<rparr>"

definition controller_id :: "env \<Rightarrow> cluster_state \<Rightarrow> broker_id option" where
  "controller_id e st = controller_broker_id e (cs_brokers st)"

definition is_controller :: "env \<Rightarrow> cluster_state \<Rightarrow> broker_id \<Rightarrow> bool" where
  "is_controller e st i \<longleftrightarrow> controller_id e st = Some i"

definition record_heartbeat :: "broker_id \<Rightarrow> u64 \<Rightarrow> cluster_state \<Rightarrow> cluster_state" where
  "record_heartbeat i at_ms st =
     (if list_ex (\<lambda>b. node_id b = i) (cs_brokers st)
      then st\<lparr>cs_broker_last_seen_ms := hm_insert i at_ms (cs_broker_last_seen_ms st)\<rparr> else st)"

definition broker_alive :: "cluster_state \<Rightarrow> broker_id \<Rightarrow> u64 \<Rightarrow> u64 \<Rightarrow> bool" where
  "broker_alive st i now_ms timeout_ms =
     (case hm_get (cs_broker_last_seen_ms st) i of
        Some l \<Rightarrow> sat_sub now_ms l \<le> timeout_ms
      | None \<Rightarrow> False)"

definition cs_find :: "cluster_state \<Rightarrow> u16 \<Rightarrow> u16 \<Rightarrow> live_assignment option" where
  "cs_find st t p = List.find (\<lambda>a. la_topic_id a = t \<and> la_partition_id a = p) (cs_assignments st)"

definition leader_epoch :: "cluster_state \<Rightarrow> u16 \<Rightarrow> u16 \<Rightarrow> u64" where
  "leader_epoch st t p = (case cs_find st t p of Some a \<Rightarrow> la_leader_epoch a | None \<Rightarrow> 0)"

definition cs_leader_for :: "cluster_state \<Rightarrow> u16 \<Rightarrow> u16 \<Rightarrow> broker_id option" where
  "cs_leader_for st t p = map_option la_leader (cs_find st t p)"

section \<open>Failover\<close>

text \<open>
  The indices of the assignments with a dead leader are collected first; the loop then
  promotes, for each, the first other replica that is alive.
\<close>

fun failover_loop ::
  "u64 \<Rightarrow> u64 \<Rightarrow> nat list \<Rightarrow> cluster_state \<Rightarrow> live_assignment list \<Rightarrow> cluster_state \<times> live_assignment list" where
  "failover_loop now tmo [] st changed = (st, changed)"
| "failover_loop now tmo (idx # idxs) st changed =
     (let a = cs_assignments st ! idx
      in case List.find (\<lambda>i. i \<noteq> la_leader a \<and> broker_alive st i now tmo) (la_replicas a) of
           None \<Rightarrow> failover_loop now tmo idxs st changed
         | Some new_leader \<Rightarrow>
             let a' = a\<lparr>la_leader := new_leader, la_leader_epoch := sat_add (la_leader_epoch a) 1\<rparr>
             in failover_loop now tmo idxs
                  (st\<lparr>cs_assignments := (cs_assignments st)[idx := a']\<rparr>) (changed @ [a']))"

definition dead_leaders :: "cluster_state \<Rightarrow> u64 \<Rightarrow> u64 \<Rightarrow> nat list" where
  "dead_leaders st now tmo =
     filter (\<lambda>idx. \<not> broker_alive st (la_leader (cs_assignments st ! idx)) now tmo)
       [0..<length (cs_assignments st)]"

definition failover_dead_leaders ::
  "u64 \<Rightarrow> u64 \<Rightarrow> cluster_state \<Rightarrow> cluster_state \<times> live_assignment list" where
  "failover_dead_leaders now tmo st = failover_loop now tmo (dead_leaders st now tmo) st []"

section \<open>Binary forms\<close>

definition encode_live :: "live_assignment \<Rightarrow> bytes" where
  "encode_live a =
     to_be_bytes (la_topic_id a) @ to_be_bytes (la_partition_id a) @ to_be_bytes (la_leader a)
     @ encode_ids (la_replicas a) @ to_be_bytes (la_leader_epoch a)"

definition encode_state_body :: "cluster_state \<Rightarrow> bytes" where
  "encode_state_body st =
     to_be_bytes (cs_min_insync_replicas st)
     @ to_be_bytes (of_nat (length (cs_brokers st)) :: u16) @ concat (map encode_node (cs_brokers st))
     @ to_be_bytes (of_nat (length (cs_assignments st)) :: u16)
     @ concat (map encode_live (cs_assignments st))"

definition encode_liveness :: "broker_id \<times> u64 \<Rightarrow> bytes" where
  "encode_liveness e = to_be_bytes (fst e) @ to_be_bytes (snd e)"

definition cluster_state_encode :: "cluster_state \<Rightarrow> bytes" where
  "cluster_state_encode st =
     MAGIC @ encode_state_body st
     @ to_be_bytes (of_nat (length (cs_broker_last_seen_ms st)) :: u16)
     @ concat (map encode_liveness (cs_broker_last_seen_ms st))"

definition encode_cluster_info :: "cluster_state \<Rightarrow> bytes" where
  "encode_cluster_info st = 2 # encode_state_body st"

definition read_node_checked :: "bytes \<Rightarrow> nat \<Rightarrow> (broker_node \<times> nat) io_result" where
  "read_node_checked payload offset =
     res_bind (read_u16 payload offset) (\<lambda>(i, o1).
     res_bind (read_u8 payload o1) (\<lambda>(hl, o2).
     if o2 + unat hl + 2 > length payload then short_buffer
     else res_bind (checked_slice o2 (o2 + unat hl) payload) (\<lambda>hb.
     case from_utf8 hb of
       None \<Rightarrow> io_err InvalidData ''invalid utf-8 sequence''
     | Some host \<Rightarrow>
         res_bind (read_u16 payload (o2 + unat hl)) (\<lambda>(port, o3).
         Inr (\<lparr>node_id = i, node_host = host, node_port = port\<rparr>, o3)))))"

definition read_live :: "bytes \<Rightarrow> nat \<Rightarrow> (live_assignment \<times> nat) io_result" where
  "read_live payload offset =
     res_bind (read_u16 payload offset) (\<lambda>(t, o1).
     res_bind (read_u16 payload o1) (\<lambda>(p, o2).
     res_bind (read_u16 payload o2) (\<lambda>(l, o3).
     res_bind (read_counted read_u16 payload o3) (\<lambda>(rs, o4).
     res_bind (read_u64 payload o4) (\<lambda>(ep, o5).
     Inr (\<lparr>la_topic_id = t, la_partition_id = p, la_leader = l, la_replicas = rs,
           la_leader_epoch = ep\<rparr>, o5))))))"

definition read_liveness :: "bytes \<Rightarrow> nat \<Rightarrow> ((broker_id \<times> u64) \<times> nat) io_result" where
  "read_liveness payload offset =
     res_bind (read_u16 payload offset) (\<lambda>(i, o1).
     res_bind (read_u64 payload o1) (\<lambda>(seen, o2). Inr ((i, seen), o2)))"

definition decode_body :: "bytes \<Rightarrow> cluster_state io_result" where
  "decode_body payload =
     res_bind (read_u16 payload 0) (\<lambda>(min_isr, o1).
     res_bind (read_counted read_node_checked payload o1) (\<lambda>(bs, o2).
     res_bind (read_counted read_live payload o2) (\<lambda>(as, o3).
     res_bind (if o3 + 2 \<le> length payload then read_counted read_liveness payload o3
               else Inr ([], o3)) (\<lambda>(seen, o4).
     Inr \<lparr>cs_min_insync_replicas = min_isr, cs_brokers = bs, cs_assignments = as,
          cs_broker_last_seen_ms = fold (\<lambda>(i, s) m. hm_insert i s m) seen []\<rparr>))))"

definition cluster_state_decode :: "bytes \<Rightarrow> cluster_state io_result" where
  "cluster_state_decode bs =
     (if length bs < length MAGIC \<or> take (length MAGIC) bs \<noteq> MAGIC
      then io_err InvalidData ''invalid cluster state magic''
      else decode_body (drop (length MAGIC) bs))"

definition decode_cluster_info :: "u64 \<Rightarrow> bytes \<Rightarrow> cluster_state io_result" where
  "decode_cluster_info now bs =
     (case bs of
        [] \<Rightarrow> short_buffer
      | v # rest \<Rightarrow>
          if v = 1 then res_bind (cluster_config_decode rest) (\<lambda>cfg. Inr (from_seed now cfg))
          else if v \<noteq> 2 then io_err InvalidData ''unsupported cluster info version''
          else decode_body rest)"

section \<open>Persistence\<close>

text \<open>\<open>std::fs::write\<close> replaces the contents and does not sync.\<close>

definition cs_store :: "cluster_state \<Rightarrow> data_dir \<Rightarrow> data_dir" where
  "cs_store st d = df_put cluster_state_path (cluster_state_encode st) d"

definition open_or_bootstrap ::
  "u64 \<Rightarrow> cluster_config \<Rightarrow> data_dir \<Rightarrow> cluster_state io_result \<times> data_dir" where
  "open_or_bootstrap now seed d =
     (case df_get d cluster_state_path of
        Some c \<Rightarrow> (cluster_state_decode c, d)
      | None \<Rightarrow> let st = from_seed now seed in (Inr st, cs_store st d))"

section \<open>Failover as a function of each assignment\<close>

definition candidate :: "cluster_state \<Rightarrow> u64 \<Rightarrow> u64 \<Rightarrow> live_assignment \<Rightarrow> broker_id option" where
  "candidate st now tmo a =
     List.find (\<lambda>i. i \<noteq> la_leader a \<and> broker_alive st i now tmo) (la_replicas a)"

definition promoted :: "broker_id \<Rightarrow> live_assignment \<Rightarrow> live_assignment" where
  "promoted i a = a\<lparr>la_leader := i, la_leader_epoch := sat_add (la_leader_epoch a) 1\<rparr>"

definition promote :: "cluster_state \<Rightarrow> u64 \<Rightarrow> u64 \<Rightarrow> live_assignment \<Rightarrow> live_assignment" where
  "promote st now tmo a =
     (if broker_alive st (la_leader a) now tmo then a
      else case candidate st now tmo a of None \<Rightarrow> a | Some i \<Rightarrow> promoted i a)"

lemma broker_alive_assignments [simp]:
  "broker_alive (st\<lparr>cs_assignments := as\<rparr>) i now tmo = broker_alive st i now tmo"
  by (simp add: broker_alive_def)

lemma failover_loop_eq:
  assumes "distinct idxs" and "\<forall>i\<in>set idxs. i < length (cs_assignments st)"
    and "\<forall>i\<in>set idxs. \<not> broker_alive st (la_leader (cs_assignments st ! i)) now tmo"
  shows "failover_loop now tmo idxs st ch =
    (st\<lparr>cs_assignments := map (\<lambda>i. if i \<in> set idxs then promote st now tmo (cs_assignments st ! i)
          else cs_assignments st ! i) [0..<length (cs_assignments st)]\<rparr>,
     ch @ map (\<lambda>i. promote st now tmo (cs_assignments st ! i))
       (filter (\<lambda>i. candidate st now tmo (cs_assignments st ! i) \<noteq> None) idxs))"
  using assms
proof (induction idxs arbitrary: st ch)
  case Nil
  then show ?case by (simp add: map_nth)
next
  case (Cons i idxs)
  let ?a = "cs_assignments st ! i"
  have dead: "\<not> broker_alive st (la_leader ?a) now tmo" and i: "i < length (cs_assignments st)"
    using Cons.prems by simp_all
  show ?case
  proof (cases "candidate st now tmo ?a")
    case None
    then have "promote st now tmo ?a = ?a" by (simp add: promote_def)
    moreover have "failover_loop now tmo (i # idxs) st ch = failover_loop now tmo idxs st ch"
      using None by (simp add: candidate_def Let_def)
    ultimately show ?thesis
      using Cons.IH [of st ch] Cons.prems None by (auto intro!: map_cong)
  next
    case (Some n)
    let ?st = "st\<lparr>cs_assignments := (cs_assignments st)[i := promoted n ?a]\<rparr>"
    have p: "promote st now tmo ?a = promoted n ?a" using Some dead by (simp add: promote_def)
    have step: "failover_loop now tmo (i # idxs) st ch =
        failover_loop now tmo idxs ?st (ch @ [promoted n ?a])"
      using Some by (simp add: candidate_def promoted_def Let_def)
    have same: "promote ?st now tmo a = promote st now tmo a" "candidate ?st now tmo a = candidate st now tmo a"
      for a by (simp_all add: promote_def candidate_def)
    have ni: "i \<notin> set idxs" using Cons.prems by simp
    then have other: "(cs_assignments st)[i := promoted n ?a] ! j = cs_assignments st ! j"
      if "j \<in> set idxs" for j
      using that by (metis nth_list_update_neq)
    have "map (\<lambda>j. if j \<in> set idxs then promote st now tmo ((cs_assignments st)[i := promoted n ?a] ! j)
          else (cs_assignments st)[i := promoted n ?a] ! j) [0..<length (cs_assignments st)]
      = map (\<lambda>j. if j \<in> set (i # idxs) then promote st now tmo (cs_assignments st ! j)
          else cs_assignments st ! j) [0..<length (cs_assignments st)]"
      using other ni p i by (auto intro!: map_cong simp: nth_list_update)
    moreover have "filter (\<lambda>j. candidate st now tmo ((cs_assignments st)[i := promoted n ?a] ! j) \<noteq> None) idxs
        = filter (\<lambda>j. candidate st now tmo (cs_assignments st ! j) \<noteq> None) idxs"
      using other by (auto intro!: filter_cong)
    moreover have "map (\<lambda>j. promote st now tmo ((cs_assignments st)[i := promoted n ?a] ! j))
          (filter (\<lambda>j. candidate st now tmo (cs_assignments st ! j) \<noteq> None) idxs)
        = map (\<lambda>j. promote st now tmo (cs_assignments st ! j))
          (filter (\<lambda>j. candidate st now tmo (cs_assignments st ! j) \<noteq> None) idxs)"
      using other by (auto intro!: map_cong)
    ultimately show ?thesis
      using Cons.IH [of ?st "ch @ [promoted n ?a]"] Cons.prems other p Some step
      by (simp add: same del: failover_loop.simps)
  qed
qed

lemma failover_eq:
  "failover_dead_leaders now tmo st =
     (st\<lparr>cs_assignments := map (promote st now tmo) (cs_assignments st)\<rparr>,
      map (promote st now tmo) (filter (\<lambda>a. promote st now tmo a \<noteq> a) (cs_assignments st)))"
proof -
  let ?as = "cs_assignments st"
  let ?dead = "\<lambda>a. \<not> broker_alive st (la_leader a) now tmo"
  have loop: "failover_loop now tmo (dead_leaders st now tmo) st [] =
    (st\<lparr>cs_assignments := map (\<lambda>i. if i \<in> set (dead_leaders st now tmo) then promote st now tmo (?as ! i)
          else ?as ! i) [0..<length ?as]\<rparr>,
     [] @ map (\<lambda>i. promote st now tmo (?as ! i))
       (filter (\<lambda>i. candidate st now tmo (?as ! i) \<noteq> None) (dead_leaders st now tmo)))"
    by (rule failover_loop_eq) (auto simp: dead_leaders_def)
  have "map (\<lambda>i. if i \<in> set (dead_leaders st now tmo) then promote st now tmo (?as ! i) else ?as ! i)
      [0..<length ?as] = map (\<lambda>i. promote st now tmo (?as ! i)) [0..<length ?as]"
    by (rule map_cong) (auto simp: dead_leaders_def promote_def)
  also have "\<dots> = map (promote st now tmo) (map (\<lambda>i. ?as ! i) [0..<length ?as])" by simp
  finally have first: "map (\<lambda>i. if i \<in> set (dead_leaders st now tmo) then promote st now tmo (?as ! i)
      else ?as ! i) [0..<length ?as] = map (promote st now tmo) ?as"
    by (simp only: map_nth)
  have ch: "promote st now tmo a \<noteq> a \<longleftrightarrow> ?dead a \<and> candidate st now tmo a \<noteq> None" for a
  proof (cases "candidate st now tmo a")
    case (Some i)
    then have "la_leader (promoted i a) \<noteq> la_leader a"
      using find_SomeD by (fastforce simp: candidate_def promoted_def)
    with Some show ?thesis by (auto simp: promote_def)
  qed (simp add: promote_def)
  have "map (\<lambda>i. promote st now tmo (?as ! i))
      (filter (\<lambda>i. candidate st now tmo (?as ! i) \<noteq> None) (dead_leaders st now tmo))
    = map (\<lambda>i. promote st now tmo (?as ! i)) (filter (\<lambda>i. promote st now tmo (?as ! i) \<noteq> ?as ! i) [0..<length ?as])"
    by (auto simp: dead_leaders_def ch intro!: arg_cong [where f = "map _"] filter_cong)
  also have "\<dots> = map (promote st now tmo)
      (filter (\<lambda>a. promote st now tmo a \<noteq> a) (map (\<lambda>i. ?as ! i) [0..<length ?as]))"
    by (simp add: filter_map o_def)
  also have "\<dots> = map (promote st now tmo) (filter (\<lambda>a. promote st now tmo a \<noteq> a) ?as)"
    by (simp only: map_nth)
  finally show ?thesis using loop first by (simp add: failover_dead_leaders_def)
qed

section \<open>Reading the binary forms back\<close>

lemma read_node_checked_eq: "read_node bs i = Inr x \<Longrightarrow> read_node_checked bs i = Inr x"
  by (auto simp: read_node_def read_node_checked_def res_bind_Inr_iff read_u16_def
      split: if_splits option.splits)

lemma reads_back_node_checked: "node_ok b \<Longrightarrow> reads_back read_node_checked (encode_node b) b"
  using reads_back_node [of b] read_node_checked_eq by (auto simp: reads_back_def)

lemma reads_back_live:
  assumes "small_list (la_replicas a)"
  shows "reads_back read_live (encode_live a) a"
proof -
  have "reads_back read_live (encode_live a)
     \<lparr>la_topic_id = la_topic_id a, la_partition_id = la_partition_id a, la_leader = la_leader a,
      la_replicas = la_replicas a, la_leader_epoch = la_leader_epoch a\<rparr>"
    unfolding read_live_def [abs_def] encode_live_def
    by (rule reads_back_bind [OF reads_back_u16] reads_back_bind [OF reads_back_ids [OF assms]])+
      (rule reads_back_map [OF reads_back_u64])
  then show ?thesis by (cases a) simp
qed

lemma reads_back_liveness: "reads_back read_liveness (encode_liveness e) e"
proof -
  have "reads_back read_liveness (encode_liveness e) (fst e, snd e)"
    unfolding read_liveness_def [abs_def] encode_liveness_def
    by (rule reads_back_bind [OF reads_back_u16]) (rule reads_back_map [OF reads_back_u64])
  then show ?thesis by simp
qed

definition state_ok :: "cluster_state \<Rightarrow> bool" where
  "state_ok st \<longleftrightarrow>
     small_list (cs_brokers st) \<and> (\<forall>b\<in>set (cs_brokers st). node_ok b)
     \<and> small_list (cs_assignments st) \<and> (\<forall>a\<in>set (cs_assignments st). small_list (la_replicas a))
     \<and> small_list (cs_broker_last_seen_ms st) \<and> distinct (hm_keys (cs_broker_last_seen_ms st))"

lemma fold_insert_distinct:
  assumes "distinct (hm_keys (acc @ m))"
  shows "fold (\<lambda>(k, v) m. hm_insert k v m) m acc = acc @ m"
  using assms
proof (induction m arbitrary: acc)
  case Nil
  then show ?case by simp
next
  case (Cons kv m)
  obtain k v where kv: "kv = (k, v)" by (cases kv)
  have "hm_get acc k = None" using Cons.prems kv by (auto simp: map_of_eq_None_iff)
  then have "hm_insert k v acc = acc @ [(k, v)]" by (rule hm_insert_fresh)
  with Cons.IH [of "acc @ [(k, v)]"] Cons.prems kv show ?case by simp
qed

text \<open>The part both forms share, followed by \<open>rest\<close>.\<close>

lemma decode_body_encode:
  assumes "state_ok st"
  shows "decode_body (encode_state_body st @ rest) =
    res_bind (if 2 \<le> length rest then read_counted read_liveness (encode_state_body st @ rest)
                (length (encode_state_body st))
              else Inr ([], length (encode_state_body st))) (\<lambda>(seen, _).
     Inr (st\<lparr>cs_broker_last_seen_ms := fold (\<lambda>(i, s) m. hm_insert i s m) seen []\<rparr>))"
proof -
  let ?m = "to_be_bytes (cs_min_insync_replicas st)"
  let ?b = "to_be_bytes (of_nat (length (cs_brokers st)) :: u16) @ concat (map encode_node (cs_brokers st))"
  let ?a = "to_be_bytes (of_nat (length (cs_assignments st)) :: u16)
    @ concat (map encode_live (cs_assignments st))"
  have b: "reads_back (read_counted read_node_checked) ?b (cs_brokers st)"
    using assms by (intro reads_back_counted reads_back_node_checked) (auto simp: state_ok_def)
  have a: "reads_back (read_counted read_live) ?a (cs_assignments st)"
    using assms by (intro reads_back_counted reads_back_live) (auto simp: state_ok_def)
  have "read_counted read_node_checked (?m @ ?b @ ?a @ rest) 2 = Inr (cs_brokers st, 2 + length ?b)"
    by (rule reads_backD [OF b]) simp
  moreover have "read_counted read_live ((?m @ ?b) @ ?a @ rest) (2 + length ?b)
      = Inr (cs_assignments st, 2 + length ?b + length ?a)"
    by (rule reads_backD [OF a]) simp
  moreover have "read_u16 ([] @ ?m @ ?b @ ?a @ rest) 0 = Inr (cs_min_insync_replicas st, 0 + 2)"
    by (rule read_u16_at) simp
  moreover have "encode_state_body st = ?m @ ?b @ ?a" by (simp add: encode_state_body_def)
  moreover have upd: "st\<lparr>cs_broker_last_seen_ms := x\<rparr> =
      \<lparr>cs_min_insync_replicas = cs_min_insync_replicas st, cs_brokers = cs_brokers st,
       cs_assignments = cs_assignments st, cs_broker_last_seen_ms = x\<rparr>" for x
    by simp
  ultimately show ?thesis by (simp add: decode_body_def add.assoc upd)
qed

lemma cluster_state_decode_encode:
  assumes "state_ok st"
  shows "cluster_state_decode (cluster_state_encode st) = Inr st"
proof -
  let ?l = "to_be_bytes (of_nat (length (cs_broker_last_seen_ms st)) :: u16)
     @ concat (map encode_liveness (cs_broker_last_seen_ms st))"
  have "reads_back (read_counted read_liveness) ?l (cs_broker_last_seen_ms st)"
    using assms by (intro reads_back_counted reads_back_liveness) (simp add: state_ok_def)
  then have "read_counted read_liveness (encode_state_body st @ ?l @ []) (length (encode_state_body st))
      = Inr (cs_broker_last_seen_ms st, length (encode_state_body st) + length ?l)"
    by (rule reads_backD) simp
  moreover have "fold (\<lambda>(i, s) m. hm_insert i s m) (cs_broker_last_seen_ms st) [] = cs_broker_last_seen_ms st"
    using fold_insert_distinct [of "[]" "cs_broker_last_seen_ms st"] assms by (simp add: state_ok_def)
  ultimately have "decode_body (encode_state_body st @ ?l) = Inr st"
    using decode_body_encode [OF assms, of ?l] by simp
  then show ?thesis
    by (simp add: cluster_state_decode_def cluster_state_encode_def)
qed

text \<open>No input makes the decoders of the state panic.\<close>

definition panic_free :: "'a io_result \<Rightarrow> bool" where
  "panic_free r \<longleftrightarrow> \<not> panics r"

lemma panic_free_basic [simp]:
  "panic_free (Inr x)" "panic_free (io_err k msg)" "panic_free short_buffer"
  "panic_free (read_u8 bs i)" "panic_free (read_u16 bs i)" "panic_free (read_u64 bs i)"
  by (simp_all add: panic_free_def)

lemma panic_free_bind [intro!]:
  "panic_free r \<Longrightarrow> (\<And>a. r = Inr a \<Longrightarrow> panic_free (f a)) \<Longrightarrow> panic_free (res_bind r f)"
  by (cases r) (auto simp: panic_free_def panics_def)

lemma panic_free_read_many [intro!]:
  "(\<And>bs i. panic_free (rd bs i)) \<Longrightarrow> panic_free (read_many rd n bs i)"
  by (induction n arbitrary: i) auto

lemma panic_free_counted [intro!]:
  "(\<And>bs i. panic_free (rd bs i)) \<Longrightarrow> panic_free (read_counted rd bs i)"
  by (auto simp: read_counted_def)

lemma panic_free_elements [simp]:
  "panic_free (read_node_checked bs i)" "panic_free (read_live bs i)" "panic_free (read_liveness bs i)"
  by (auto simp: read_node_checked_def read_live_def read_liveness_def checked_slice_def
      split: option.split)

lemma decode_body_panic_free [intro]: "panic_free (decode_body bs)"
  by (auto simp: decode_body_def)

section \<open>Properties\<close>



lemma promote_leader_alive_or_stuck:
  "broker_alive st (la_leader (promote st now tmo a)) now tmo \<or> candidate st now tmo (promote st now tmo a) = None"
  by (auto simp: promote_def candidate_def promoted_def split: option.split dest: find_SomeD)

text \<open>
  Failover settles.  Running it again at the same time changes nothing and reports
  nothing, and afterwards every partition has a live leader unless no other replica of it
  is alive.
\<close>

theorem failover_idempotent:
  "failover_dead_leaders now tmo (fst (failover_dead_leaders now tmo st)) =
     (fst (failover_dead_leaders now tmo st), [])
   \<and> (\<forall>a\<in>set (cs_assignments (fst (failover_dead_leaders now tmo st))).
        broker_alive st (la_leader a) now tmo
        \<or> (\<forall>i\<in>set (la_replicas a). i \<noteq> la_leader a \<longrightarrow> \<not> broker_alive st i now tmo))"
proof -
  have stuck: "candidate st now tmo a = None \<longleftrightarrow>
      (\<forall>i\<in>set (la_replicas a). i \<noteq> la_leader a \<longrightarrow> \<not> broker_alive st i now tmo)" for a
    by (auto simp: candidate_def find_None_iff)
  have fix1: "promote st now tmo (promote st now tmo a) = promote st now tmo a" for a
    using promote_leader_alive_or_stuck [of st now tmo a] by (auto simp: promote_def [of _ _ _ "promote st now tmo a"])
  have same: "promote (st\<lparr>cs_assignments := as\<rparr>) now tmo = promote st now tmo" for as
    by (rule ext) (simp add: promote_def candidate_def)
  show ?thesis
    using promote_leader_alive_or_stuck [of st now tmo]
    by (auto simp: failover_eq same fix1 o_def stuck [symmetric])
qed

theorem failover_idempotent_witness:
  "failover_dead_leaders 12000 10000 (fst (failover_dead_leaders 12000 10000
       \<lparr>cs_min_insync_replicas = 1, cs_brokers = [],
        cs_assignments = [\<lparr>la_topic_id = 1, la_partition_id = 0, la_leader = 1, la_replicas = [1, 2],
          la_leader_epoch = 1\<rparr>],
        cs_broker_last_seen_ms = [(1, 0), (2, 9000)]\<rparr>))
   = (fst (failover_dead_leaders 12000 10000
       \<lparr>cs_min_insync_replicas = 1, cs_brokers = [],
        cs_assignments = [\<lparr>la_topic_id = 1, la_partition_id = 0, la_leader = 1, la_replicas = [1, 2],
          la_leader_epoch = 1\<rparr>],
        cs_broker_last_seen_ms = [(1, 0), (2, 9000)]\<rparr>), [])"
  using failover_idempotent by blast

text \<open>
  Epochs fence leaders.  A failover never lowers the epoch of a partition, and when it
  changes the leader of a partition whose epoch is not at the maximum, the epoch of the
  partition strictly grows.
\<close>

theorem failover_epoch_fences:
  "leader_epoch st t p \<le> leader_epoch (fst (failover_dead_leaders now tmo st)) t p
   \<and> (cs_leader_for (fst (failover_dead_leaders now tmo st)) t p \<noteq> cs_leader_for st t p
        \<longrightarrow> leader_epoch st t p \<noteq> - 1
        \<longrightarrow> leader_epoch st t p < leader_epoch (fst (failover_dead_leaders now tmo st)) t p)"
proof -
  have key: "la_topic_id (promote st now tmo a) = la_topic_id a"
    "la_partition_id (promote st now tmo a) = la_partition_id a" for a
    by (auto simp: promote_def promoted_def split: option.split)
  have find: "cs_find (fst (failover_dead_leaders now tmo st)) t p =
      map_option (promote st now tmo) (cs_find st t p)"
  proof -
    have "List.find (\<lambda>a. la_topic_id a = t \<and> la_partition_id a = p) (map (promote st now tmo) as)
      = map_option (promote st now tmo) (List.find (\<lambda>a. la_topic_id a = t \<and> la_partition_id a = p) as)"
      for as by (induction as) (auto simp: key)
    then show ?thesis by (simp add: cs_find_def failover_eq)
  qed
  have le: "la_leader_epoch a \<le> la_leader_epoch (promote st now tmo a)" for a
    by (auto simp: promote_def promoted_def sat_add_mono split: option.split)
  have less: "la_leader_epoch a < la_leader_epoch (promote st now tmo a)"
    if "la_leader (promote st now tmo a) \<noteq> la_leader a" "la_leader_epoch a \<noteq> - 1" for a
  proof -
    from that have "la_leader_epoch (promote st now tmo a) = sat_add (la_leader_epoch a) 1"
      by (auto simp: promote_def promoted_def split: option.splits if_splits)
    moreover have "sat_add (la_leader_epoch a) 1 \<noteq> la_leader_epoch a"
      using that(2) by (auto simp: sat_add_def)
    ultimately show ?thesis using sat_add_mono [of "la_leader_epoch a" 1] by simp
  qed
  show ?thesis
    using le less by (cases "cs_find st t p") (auto simp: leader_epoch_def cs_leader_for_def find)
qed

theorem failover_epoch_fences_witness:
  "leader_epoch \<lparr>cs_min_insync_replicas = 1, cs_brokers = [],
        cs_assignments = [\<lparr>la_topic_id = 1, la_partition_id = 0, la_leader = 1, la_replicas = [1, 2],
          la_leader_epoch = 1\<rparr>],
        cs_broker_last_seen_ms = [(1, 0), (2, 9000)]\<rparr> 1 0
   \<le> leader_epoch (fst (failover_dead_leaders 12000 10000
       \<lparr>cs_min_insync_replicas = 1, cs_brokers = [],
        cs_assignments = [\<lparr>la_topic_id = 1, la_partition_id = 0, la_leader = 1, la_replicas = [1, 2],
          la_leader_epoch = 1\<rparr>],
        cs_broker_last_seen_ms = [(1, 0), (2, 9000)]\<rparr>)) 1 0"
  using failover_epoch_fences by blast

text \<open>
  C29: the persisted state.  What was stored is what a restart opens, and no bytes in the
  file make the decoder panic.
\<close>

theorem cluster_state_persistence:
  assumes "state_ok st"
  shows "open_or_bootstrap now seed (cs_store st d) = (Inr st, cs_store st d)
    \<and> \<not> panics (cluster_state_decode bs)"
proof -
  have "panic_free (cluster_state_decode bs)" by (simp add: cluster_state_decode_def decode_body_panic_free)
  with assms show ?thesis
    by (simp add: open_or_bootstrap_def cs_store_def store_simps cluster_state_decode_encode panic_free_def)
qed

lemma from_seed_sample_ok: "state_ok (from_seed 5 sample_config)"
  using sample_config_ok
  by (simp add: state_ok_def config_ok_def from_seed_def sample_config_def small_list_def)

theorem cluster_state_persistence_witness:
  "open_or_bootstrap 9 sample_config (cs_store (from_seed 5 sample_config) empty_dir)
     = (Inr (from_seed 5 sample_config), cs_store (from_seed 5 sample_config) empty_dir)
   \<and> \<not> panics (cluster_state_decode [68, 77])"
  by (rule cluster_state_persistence [OF from_seed_sample_ok])

text \<open>
  The store is not synced.  After a power loss the file holds what was durable before,
  so a failover that was stored and announced can be forgotten.
\<close>

theorem cs_store_not_durable:
  "df_get (crash (cs_store st d)) name = df_get (crash d) name"
  by (simp add: cs_store_def df_get_crash df_put_def)

text \<open>
  The view a follower fetches.  Decoding the cluster information of the controller
  gives brokers, assignments and epochs as they are, but an empty liveness map: every
  broker is dead in the received view, and a failover run on it promotes nobody.
\<close>

theorem cluster_info_view:
  assumes "state_ok st"
  shows "\<exists>view. decode_cluster_info now (encode_cluster_info st) = Inr view
    \<and> view = st\<lparr>cs_broker_last_seen_ms := []\<rparr>
    \<and> failover_dead_leaders now' tmo view = (view, [])"
proof -
  let ?view = "st\<lparr>cs_broker_last_seen_ms := []\<rparr>"
  have "decode_cluster_info now (encode_cluster_info st) = Inr ?view"
    using decode_body_encode [OF assms, of "[]"]
    by (simp add: decode_cluster_info_def encode_cluster_info_def)
  moreover have "promote ?view now' tmo = id"
    by (rule ext) (auto simp: promote_def candidate_def broker_alive_def split: option.split dest: find_SomeD)
  ultimately show ?thesis by (simp add: failover_eq)
qed

theorem cluster_info_view_witness:
  "\<exists>view. decode_cluster_info 7 (encode_cluster_info (from_seed 5 sample_config)) = Inr view
    \<and> view = (from_seed 5 sample_config)\<lparr>cs_broker_last_seen_ms := []\<rparr>
    \<and> failover_dead_leaders 8 9 view = (view, [])"
  by (rule cluster_info_view [OF from_seed_sample_ok])

text \<open>
  The answer of a broker without a cluster state.  It sends the bare configuration,
  whose first byte is the high byte of the minimum of in-sync replicas; for every minimum
  below 256 the decoder of the cluster information refuses it.
\<close>

theorem bare_config_refused:
  assumes "cc_min_insync_replicas cfg < 256"
  shows "decode_cluster_info now (cluster_config_encode cfg)
    = io_err InvalidData ''unsupported cluster info version''"
proof -
  have "unat (cc_min_insync_replicas cfg) div 256 = 0"
    using assms by (simp add: word_less_nat_alt)
  then show ?thesis
    by (simp add: cluster_config_encode_def to_be_bytes_u16 decode_cluster_info_def)
qed

theorem bare_config_refused_witness:
  "decode_cluster_info 7 (cluster_config_encode sample_config)
    = io_err InvalidData ''unsupported cluster info version''"
  by (rule bare_config_refused) (simp add: sample_config_def)

end
