(* ===== verification/Coordinator.thy ===== *)
theory Coordinator
  imports Rust_Text
begin

text \<open>
  The consumer group coordinator of \<open>dmq-broker/src/coordinator.rs\<close>: joining, heartbeats,
  expiry and the range assignment of partitions to members.  The search for a free member
  id is a loop with as much fuel as the group has members; the theorems show that this is
  always enough.
\<close>

section \<open>State\<close>

record group_member =
  gm_member_id :: u64
  gm_generation :: u32
  gm_assigned_partitions :: "u16 list"
  gm_last_seen_ms :: u64

type_synonym members = "(u64, group_member) hmap"

record group_state =
  gs_group_id :: u16
  gs_topic_id :: u16
  gs_generation :: u32
  gs_members :: members
  gs_rebalance_pending :: bool

definition session_timeout_ms :: "env \<Rightarrow> u64" where
  "session_timeout_ms e = env_word e ''DMQ_GROUP_SESSION_TIMEOUT_MS'' 15000"

definition group_new :: "u16 \<Rightarrow> u16 \<Rightarrow> group_state" where
  "group_new g t = \<lparr>gs_group_id = g, gs_topic_id = t, gs_generation = 1, gs_members = [],
     gs_rebalance_pending = False\<rparr>"

section \<open>Range assignment\<close>

fun next_parts :: "nat \<Rightarrow> u16 \<Rightarrow> u16 list \<times> u16" where
  "next_parts 0 part = ([], part)"
| "next_parts (Suc n) part =
     (case next_parts n (sat_add part 1) of (ps, q) \<Rightarrow> (part # ps, q))"

fun assign_loop ::
  "nat \<Rightarrow> nat \<Rightarrow> nat \<Rightarrow> u64 list \<Rightarrow> u16 \<Rightarrow> (u64, u16 list) hmap \<Rightarrow> (u64, u16 list) hmap" where
  "assign_loop base extra idx [] part out = out"
| "assign_loop base extra idx (m # ms) part out =
     (let count = base + (if idx < extra then 1 else 0);
          (parts, nxt') = next_parts count part
      in assign_loop base extra (Suc idx) ms nxt' (hm_insert m parts out))"

definition eligible_ids :: "members \<Rightarrow> u32 \<Rightarrow> u64 list" where
  "eligible_ids ms gen =
     (let ids = map gm_member_id (filter (\<lambda>m. gm_generation m = gen \<or> gm_assigned_partitions m = [])
                  (map snd ms))
      in remdups_adj (sort (if ids = [] then hm_keys ms else ids)))"

definition range_assign :: "u16 \<Rightarrow> members \<Rightarrow> u32 \<Rightarrow> (u64, u16 list) hmap" where
  "range_assign partition_count ms gen =
     (let ids = eligible_ids ms gen; n = length ids
      in if n = 0 \<or> partition_count = 0 then []
         else assign_loop (unat partition_count div n) (unat partition_count mod n) 0 ids 0 [])"

section \<open>Operations\<close>

fun next_id_loop :: "nat \<Rightarrow> members \<Rightarrow> u64 \<Rightarrow> u64" where
  "next_id_loop 0 ms i = i"
| "next_id_loop (Suc fuel) ms i = (if hm_contains ms i then next_id_loop fuel ms (i + 1) else i)"

definition next_member_id :: "members \<Rightarrow> u64" where
  "next_member_id ms = next_id_loop (length ms) ms 1"

text \<open>The loop over the assignments; \<open>upd\<close> is what it does to a member.\<close>

definition apply_assignments ::
  "(u16 list \<Rightarrow> group_member \<Rightarrow> group_member) \<Rightarrow> (u64, u16 list) hmap \<Rightarrow> members \<Rightarrow> members" where
  "apply_assignments upd assignments ms =
     fold (\<lambda>(i, parts) acc. case hm_get acc i of
             Some m \<Rightarrow> hm_insert i (upd parts m) acc
           | None \<Rightarrow> acc) assignments ms"

definition group_join ::
  "u64 \<Rightarrow> u16 \<Rightarrow> u64 \<Rightarrow> group_state \<Rightarrow> (u64 \<times> u32 \<times> u16 list) \<times> group_state" where
  "group_join member topic_partition_count now st =
     (let assigned_id = (if member = 0 then next_member_id (gs_members st) else member);
          gen = sat_add (gs_generation st) 1;
          ms1 = hm_insert assigned_id \<lparr>gm_member_id = assigned_id, gm_generation = gen,
                  gm_assigned_partitions = [], gm_last_seen_ms = now\<rparr> (gs_members st);
          assignments = range_assign topic_partition_count ms1 gen;
          ms2 = apply_assignments (\<lambda>parts m. m\<lparr>gm_assigned_partitions := parts, gm_generation := gen,
                  gm_last_seen_ms := now\<rparr>) assignments ms1;
          parts = (case hm_get assignments assigned_id of Some ps \<Rightarrow> ps | None \<Rightarrow> [])
      in ((assigned_id, gen, parts),
          st\<lparr>gs_generation := gen, gs_members := ms2, gs_rebalance_pending := False\<rparr>))"

definition group_heartbeat_op :: "u64 \<Rightarrow> u32 \<Rightarrow> u64 \<Rightarrow> group_state \<Rightarrow> (u8 \<times> bool) \<times> group_state" where
  "group_heartbeat_op member gen now st =
     (case hm_get (gs_members st) member of
        None \<Rightarrow> ((1, True), st)
      | Some m \<Rightarrow>
          if gm_generation m \<noteq> gen then ((2, True), st)
          else ((0, gs_rebalance_pending st),
                st\<lparr>gs_members := hm_insert member (m\<lparr>gm_last_seen_ms := now\<rparr>) (gs_members st)\<rparr>))"

definition expire_stale_members :: "u64 \<Rightarrow> u64 \<Rightarrow> group_state \<Rightarrow> bool \<times> group_state" where
  "expire_stale_members now tmo st =
     (let stale = map fst (filter (\<lambda>(i, m). sat_sub now (gm_last_seen_ms m) > tmo) (gs_members st))
      in if stale = [] then (False, st)
         else (True, st\<lparr>gs_members := fold hm_remove stale (gs_members st),
                        gs_generation := sat_add (gs_generation st) 1,
                        gs_rebalance_pending := True\<rparr>))"

definition rebalance :: "u16 \<Rightarrow> u64 \<Rightarrow> group_state \<Rightarrow> (u64, u16 list) hmap \<times> group_state" where
  "rebalance topic_partition_count now st =
     (let assignments = range_assign topic_partition_count (gs_members st) (gs_generation st)
      in (assignments,
          st\<lparr>gs_members := apply_assignments (\<lambda>parts m. m\<lparr>gm_assigned_partitions := parts,
                gm_last_seen_ms := now\<rparr>) assignments (gs_members st),
             gs_rebalance_pending := False\<rparr>))"

section \<open>The shape of an assignment\<close>

lemma next_parts_eq:
  assumes "unat p + n < 2 ^ 16"
  shows "next_parts n p = (map (\<lambda>i. of_nat (unat p + i)) [0..<n], of_nat (unat p + n))"
  using assms
proof (induction n arbitrary: p)
  case 0
  then show ?case by simp
next
  case (Suc n)
  have p1: "unat (sat_add p 1) = unat p + 1" using Suc.prems by (simp add: unat_sat_add)
  have "map (\<lambda>i. of_nat (unat p + i) :: u16) [0..<Suc n] =
      p # map (\<lambda>i. of_nat (unat p + 1 + i)) [0..<n]"
    by (simp add: upt_conv_Cons map_Suc_upt [symmetric] del: upt_Suc)
  moreover have "next_parts n (sat_add p 1) =
      (map (\<lambda>i. of_nat (unat p + 1 + i)) [0..<n], of_nat (unat p + 1 + n))"
    using Suc.IH [of "sat_add p 1"] Suc.prems p1 by simp
  ultimately show ?case by (simp del: upt_Suc)
qed

text \<open>The number of partitions the members from index \<open>idx\<close> on receive.\<close>

definition quota :: "nat \<Rightarrow> nat \<Rightarrow> nat \<Rightarrow> nat" where
  "quota base extra idx = base + (if idx < extra then 1 else 0)"

fun ranges :: "nat \<Rightarrow> nat \<Rightarrow> nat \<Rightarrow> nat \<Rightarrow> nat \<Rightarrow> nat list list" where
  "ranges base extra idx start 0 = []"
| "ranges base extra idx start (Suc k) =
     [start ..< start + quota base extra idx]
       # ranges base extra (Suc idx) (start + quota base extra idx) k"

fun quota_sum :: "nat \<Rightarrow> nat \<Rightarrow> nat \<Rightarrow> nat \<Rightarrow> nat" where
  "quota_sum base extra idx 0 = 0"
| "quota_sum base extra idx (Suc k) = quota base extra idx + quota_sum base extra (Suc idx) k"

lemma length_ranges [simp]: "length (ranges base extra idx start k) = k"
  by (induction k arbitrary: idx start) auto

lemma concat_ranges:
  "concat (ranges base extra idx start k) = [start ..< start + quota_sum base extra idx k]"
proof (induction k arbitrary: idx start)
  case 0
  then show ?case by simp
next
  case (Suc k)
  let ?q = "quota base extra idx"
  have "[start ..< start + ?q + quota_sum base extra (Suc idx) k]
      = [start ..< start + ?q] @ [start + ?q ..< start + ?q + quota_sum base extra (Suc idx) k]"
    by (rule upt_add_eq_append) simp
  with Suc show ?case by (simp add: add.assoc)
qed

lemma quota_sum_eq: "quota_sum base extra idx k = base * k + (min extra (idx + k) - min extra idx)"
  by (induction k arbitrary: idx) (auto simp: quota_def min_def)

lemma quota_sum_total: "0 < n \<Longrightarrow> quota_sum (c div n) (c mod n) 0 n = c"
  by (simp add: quota_sum_eq min_def less_imp_le)

lemma assign_loop_eq:
  assumes "distinct (hm_keys out @ ids)" and "unat p + quota_sum base extra idx (length ids) < 2 ^ 16"
  shows "assign_loop base extra idx ids p out =
    out @ zip ids (map (map of_nat) (ranges base extra idx (unat p) (length ids)))"
  using assms
proof (induction ids arbitrary: idx p out)
  case Nil
  then show ?case by simp
next
  case (Cons m ids)
  let ?q = "quota base extra idx"
  have q: "unat p + ?q < 2 ^ 16" using Cons.prems(2) by simp
  have step: "next_parts ?q p = (map of_nat [unat p ..< unat p + ?q], of_nat (unat p + ?q))"
  proof -
    have "map (\<lambda>i. of_nat (unat p + i) :: u16) [0..<?q] = map of_nat [unat p ..< unat p + ?q]"
      by (rule nth_equalityI) simp_all
    then show ?thesis using next_parts_eq [OF q] by simp
  qed
  have u: "unat (of_nat (unat p + ?q) :: u16) = unat p + ?q"
    using q by (simp add: unat_of_nat_u16 del: of_nat_add)
  have "hm_get out m = None" using Cons.prems(1) by (auto simp: map_of_eq_None_iff)
  then have ins: "hm_insert m v out = out @ [(m, v)]" for v by (rule hm_insert_fresh)
  have "assign_loop base extra (Suc idx) ids (of_nat (unat p + ?q)) (out @ [(m, map of_nat [unat p ..< unat p + ?q])])
    = (out @ [(m, map of_nat [unat p ..< unat p + ?q])])
      @ zip ids (map (map of_nat) (ranges base extra (Suc idx) (unat p + ?q) (length ids)))"
    using Cons.IH [of "out @ [(m, map of_nat [unat p ..< unat p + ?q])]" "of_nat (unat p + ?q)" "Suc idx"]
      Cons.prems u by (simp add: add.assoc del: of_nat_add)
  then show ?case
    using step ins by (simp add: quota_def [symmetric] del: of_nat_add)
qed

lemma distinct_remdups_adj_sorted: "sorted (xs :: 'a::linorder list) \<Longrightarrow> distinct (remdups_adj xs)"
  by (induction xs rule: remdups_adj.induct) auto

lemma eligible_ids_sorted: "sorted (eligible_ids ms gen)" "distinct (eligible_ids ms gen)"
  by (simp_all add: eligible_ids_def Let_def sorted_remdups_adj distinct_remdups_adj_sorted)

lemma range_assign_eq:
  assumes "eligible_ids ms gen \<noteq> []" and "pc \<noteq> 0"
  shows "range_assign pc ms gen =
    (let ids = eligible_ids ms gen; n = length ids
     in zip ids (map (map of_nat) (ranges (unat pc div n) (unat pc mod n) 0 0 n)))"
proof -
  let ?ids = "eligible_ids ms gen"
  have "0 < length ?ids" using assms by simp
  then have "unat (0 :: u16) + quota_sum (unat pc div length ?ids) (unat pc mod length ?ids) 0 (length ?ids)
      < 2 ^ LENGTH(16)"
    using unsigned_less [of pc, where 'a = nat] by (simp add: quota_sum_total)
  then show ?thesis
    using assms assign_loop_eq [of "[]" ?ids 0] eligible_ids_sorted [of ms gen]
    by (simp add: range_assign_def Let_def)
qed

lemma ranges_balanced: "r \<in> set (ranges base extra idx start k) \<Longrightarrow> length r = base \<or> length r = base + 1"
  by (induction k arbitrary: idx start) (auto simp: quota_def)

section \<open>Free member ids\<close>

lemma next_id_loop_least:
  assumes "\<forall>j<k. hm_contains ms (of_nat (Suc j))" and "k + fuel < 2 ^ 64 - 1"
  shows "\<exists>n. k \<le> n \<and> n \<le> k + fuel \<and> next_id_loop fuel ms (of_nat (Suc k)) = of_nat (Suc n)
    \<and> (\<forall>j<n. hm_contains ms (of_nat (Suc j)))
    \<and> (n < k + fuel \<longrightarrow> \<not> hm_contains ms (of_nat (Suc n)))"
  using assms
proof (induction fuel arbitrary: k)
  case 0
  then show ?case by auto
next
  case (Suc fuel)
  show ?case
  proof (cases "hm_contains ms (of_nat (Suc k))")
    case True
    then have "\<forall>j<Suc k. hm_contains ms (of_nat (Suc j))" using Suc.prems(1) less_Suc_eq by auto
    from Suc.IH [OF this] Suc.prems(2) obtain n where "Suc k \<le> n" "n \<le> Suc k + fuel"
      "next_id_loop fuel ms (of_nat (Suc (Suc k))) = of_nat (Suc n)"
      "\<forall>j<n. hm_contains ms (of_nat (Suc j))"
      "n < Suc k + fuel \<longrightarrow> \<not> hm_contains ms (of_nat (Suc n))" by auto
    then show ?thesis using True by (intro exI [of _ n]) (simp add: add.commute)
  next
    case False
    then show ?thesis using Suc.prems(1) by (intro exI [of _ k]) simp
  qed
qed

lemma of_nat_Suc_inj:
  assumes "i < 2 ^ 64 - 1" "j < 2 ^ 64 - 1" and "(of_nat (Suc i) :: u64) = of_nat (Suc j)"
  shows "i = j"
proof -
  have "unat (of_nat (Suc i) :: u64) = Suc i" "unat (of_nat (Suc j) :: u64) = Suc j"
    using assms(1,2) by (intro unat_of_nat_small; simp)+
  with assms(3) show ?thesis by simp
qed

text \<open>A group of \<open>n\<close> members cannot hold the ids 1 to \<open>n + 1\<close>.\<close>

lemma members_not_full:
  assumes "\<forall>j<n. hm_contains ms (of_nat (Suc j) :: u64)" and "n < 2 ^ 64 - 1"
  shows "n \<le> length ms"
proof -
  have inj: "inj_on (\<lambda>j. of_nat (Suc j) :: u64) {..<n}"
  proof (rule inj_onI)
    fix i j
    assume "i \<in> {..<n}" "j \<in> {..<n}" "(of_nat (Suc i) :: u64) = of_nat (Suc j)"
    with assms(2) show "i = j" using of_nat_Suc_inj [of i j] by simp
  qed
  have sub: "(\<lambda>j. of_nat (Suc j)) ` {..<n} \<subseteq> set (hm_keys ms)"
    using assms(1) by (auto simp: hm_contains_iff simp del: of_nat_Suc)
  have "n = card ((\<lambda>j. of_nat (Suc j) :: u64) ` {..<n})"
    by (simp only: card_image [OF inj] card_lessThan)
  also have "\<dots> \<le> card (set (hm_keys ms))" by (rule card_mono [OF _ sub]) simp
  also have "\<dots> \<le> length ms" using card_length [of "hm_keys ms"] by simp
  finally show ?thesis .
qed

lemma next_member_id_least:
  assumes "length ms < 2 ^ 64 - 2"
  shows "\<exists>n. next_member_id ms = of_nat (Suc n) \<and> n \<le> length ms
    \<and> \<not> hm_contains ms (next_member_id ms) \<and> (\<forall>j<n. hm_contains ms (of_nat (Suc j)))"
proof -
  obtain n where n: "n \<le> length ms" "next_member_id ms = of_nat (Suc n)"
    "\<forall>j<n. hm_contains ms (of_nat (Suc j))" "n < length ms \<longrightarrow> \<not> hm_contains ms (of_nat (Suc n))"
    using next_id_loop_least [of 0 ms "length ms"] assms by (auto simp: next_member_id_def)
  have "\<not> hm_contains ms (of_nat (Suc n))"
  proof
    assume c: "hm_contains ms (of_nat (Suc n))"
    with n(4) n(1) have "n = length ms" by auto
    moreover from c n(3) have "\<forall>j<Suc n. hm_contains ms (of_nat (Suc j))" by (auto simp: less_Suc_eq)
    then have "Suc n \<le> length ms" using assms n(1) by (intro members_not_full) auto
    ultimately show False by simp
  qed
  with n show ?thesis by auto
qed

section \<open>Groups as a state machine\<close>

inductive group_step :: "group_state \<Rightarrow> group_state \<Rightarrow> bool" where
  step_join: "group_step st (snd (group_join member pc now st))"
| step_heartbeat: "group_step st (snd (group_heartbeat_op member gen now st))"
| step_expire: "group_step st (snd (expire_stale_members now tmo st))"
| step_rebalance: "group_step st (snd (rebalance pc now st))"

inductive group_reachable :: "group_state \<Rightarrow> bool" where
  init: "group_reachable (group_new g t)"
| step: "group_reachable st \<Longrightarrow> group_step st st' \<Longrightarrow> group_reachable st'"

text \<open>Members are filed under their own id and are never ahead of the group.\<close>

definition members_inv :: "u32 \<Rightarrow> members \<Rightarrow> bool" where
  "members_inv gen ms \<longleftrightarrow> distinct (hm_keys ms) \<and>
     (\<forall>i m. hm_get ms i = Some m \<longrightarrow> gm_member_id m = i \<and> gm_generation m \<le> gen)"

definition group_inv :: "group_state \<Rightarrow> bool" where
  "group_inv st \<longleftrightarrow> members_inv (gs_generation st) (gs_members st)"

lemma members_inv_insert:
  "members_inv gen ms \<Longrightarrow> gm_member_id m = i \<Longrightarrow> gm_generation m \<le> gen \<Longrightarrow>
     members_inv gen (hm_insert i m ms)"
  by (auto simp: members_inv_def)

lemma members_inv_mono: "members_inv gen ms \<Longrightarrow> gen \<le> gen' \<Longrightarrow> members_inv gen' ms"
  by (auto simp: members_inv_def intro: order_trans)

lemma members_inv_apply:
  assumes "\<And>parts m. gm_member_id (upd parts m) = gm_member_id m"
    and "\<And>parts m. gm_generation m \<le> gen \<Longrightarrow> gm_generation (upd parts m) \<le> gen"
  shows "members_inv gen ms \<Longrightarrow> members_inv gen (apply_assignments upd as ms)"
  unfolding apply_assignments_def
proof (induction as arbitrary: ms)
  case Nil
  then show ?case by simp
next
  case (Cons a as)
  obtain i parts where a: "a = (i, parts)" by (cases a)
  have "members_inv gen (hm_insert i (upd parts m) ms)" if "hm_get ms i = Some m" for m
    using that Cons.prems assms by (intro members_inv_insert) (auto simp: members_inv_def)
  with Cons a show ?case by (auto split: option.split)
qed

lemma fold_remove_get:
  "hm_get (fold hm_remove is ms) j = (if j \<in> set is then None else hm_get ms j)"
  by (induction "is" arbitrary: ms) auto

lemma members_inv_remove: "members_inv gen ms \<Longrightarrow> members_inv gen (fold hm_remove is ms)"
proof -
  have "distinct (hm_keys ms) \<Longrightarrow> distinct (hm_keys (fold hm_remove is ms))"
    by (induction "is" arbitrary: ms) (auto simp: distinct_delete)
  then show "members_inv gen ms \<Longrightarrow> members_inv gen (fold hm_remove is ms)"
    by (auto simp: members_inv_def fold_remove_get)
qed

lemma group_inv_step: "group_step st st' \<Longrightarrow> group_inv st \<Longrightarrow> group_inv st'"
proof (induction rule: group_step.induct)
  case (step_join st member pc now)
  then have "members_inv (sat_add (gs_generation st) 1) (gs_members st)"
    by (auto simp: group_inv_def intro: members_inv_mono sat_add_mono)
  then show ?case
    by (auto simp: group_inv_def group_join_def Let_def intro!: members_inv_apply members_inv_insert)
next
  case (step_heartbeat st member gen now)
  then show ?case
    by (auto simp: group_inv_def group_heartbeat_op_def members_inv_def split: option.split)
next
  case (step_expire st now tmo)
  then show ?case
    by (auto simp: group_inv_def expire_stale_members_def Let_def
        intro: members_inv_remove members_inv_mono sat_add_mono)
next
  case (step_rebalance st pc now)
  then show ?case
    by (auto simp: group_inv_def rebalance_def Let_def intro!: members_inv_apply)
qed

lemma group_reachable_inv: "group_reachable st \<Longrightarrow> group_inv st"
proof (induction rule: group_reachable.induct)
  case (init g t)
  then show ?case by (simp add: group_inv_def members_inv_def group_new_def)
next
  case (step st st')
  then show ?case using group_inv_step by blast
qed

lemma apply_assignments_get:
  assumes "distinct (hm_keys as)"
  shows "hm_get (apply_assignments upd as ms) i =
    (case hm_get ms i of
       None \<Rightarrow> None
     | Some m \<Rightarrow> Some (case hm_get as i of Some parts \<Rightarrow> upd parts m | None \<Rightarrow> m))"
  unfolding apply_assignments_def using assms
proof (induction as arbitrary: ms)
  case Nil
  then show ?case by (simp split: option.split)
next
  case (Cons a as)
  obtain j parts where a: "a = (j, parts)" by (cases a)
  then have "hm_get as j = None" using Cons.prems by (auto simp: map_of_eq_None_iff)
  with Cons a show ?case by (auto split: option.split)
qed

lemma hm_get_in_set: "distinct (hm_keys ms) \<Longrightarrow> (i, m) \<in> set ms \<longleftrightarrow> hm_get ms i = Some m"
  by (simp add: map_of_eq_Some_iff)

lemma eligible_ids_empty_iff: "eligible_ids ms gen = [] \<longleftrightarrow> ms = []"
proof -
  have nil: "sort (xs :: u64 list) = [] \<longleftrightarrow> xs = []" for xs
    by (metis length_0_conv length_sort)
  show ?thesis by (auto simp: eligible_ids_def Let_def nil)
qed

text \<open>Members behind the group that own partitions are not eligible.\<close>

lemma none_eligible:
  assumes inv: "members_inv g ms" and gen: "g < gen"
    and busy: "\<forall>j m. hm_get ms j = Some m \<longrightarrow> gm_assigned_partitions m \<noteq> []"
  shows "filter (\<lambda>m. gm_generation m = gen \<or> gm_assigned_partitions m = []) (map snd ms) = []"
proof -
  have "gm_generation m \<noteq> gen \<and> gm_assigned_partitions m \<noteq> []" if "(j, m) \<in> set ms" for j m
  proof -
    have "hm_get ms j = Some m" using that inv hm_get_in_set [of ms j m] by (simp add: members_inv_def)
    then show ?thesis using inv gen busy by (metis leD members_inv_def)
  qed
  then show ?thesis by (fastforce simp: filter_empty_conv)
qed

text \<open>When the joiner is the only eligible member, it is assigned everything.\<close>

lemma range_assign_single:
  assumes "eligible_ids ms gen = [i]" and "pc \<noteq> 0"
  shows "range_assign pc ms gen = [(i, map of_nat [0..<unat pc])]"
proof -
  have "ranges (unat pc) 0 0 0 (Suc 0) = [[0..<unat pc]]" by (simp add: quota_def)
  then show ?thesis using range_assign_eq [of ms gen pc] assms by (simp add: Let_def)
qed

lemma sat_add_1_less: "g \<noteq> (- 1 :: u32) \<Longrightarrow> g < sat_add g 1"
  using sat_add_mono [of g 1] by (cases "sat_add g 1 = g") (auto simp: sat_add_def split: if_splits)

lemma eligible_ids_joiner:
  assumes inv: "members_inv g ms" and gen: "g < gen" and fresh: "hm_get ms i = None"
    and busy: "\<forall>j m. hm_get ms j = Some m \<longrightarrow> gm_assigned_partitions m \<noteq> []"
    and m: "gm_member_id new = i" "gm_generation new = gen"
  shows "eligible_ids (hm_insert i new ms) gen = [i]"
proof -
  have ins: "hm_insert i new ms = ms @ [(i, new)]" using fresh by (rule hm_insert_fresh)
  have "filter (\<lambda>m. gm_generation m = gen \<or> gm_assigned_partitions m = []) (map snd ms) = []"
    using inv gen busy by (rule none_eligible)
  then show ?thesis using m by (simp add: eligible_ids_def ins)
qed

text \<open>A group that two members joined, one after the other.\<close>

definition sample_owner :: "u64 \<Rightarrow> u32 \<Rightarrow> u64 \<Rightarrow> group_member" where
  "sample_owner i gen now = \<lparr>gm_member_id = i, gm_generation = gen,
     gm_assigned_partitions = map of_nat [0..<unat (4 :: u16)], gm_last_seen_ms = now\<rparr>"

lemma sample_group:
  "snd (group_join 1 4 100 (group_new 1 1)) =
     \<lparr>gs_group_id = 1, gs_topic_id = 1, gs_generation = 2, gs_members = [(1, sample_owner 1 2 100)],
      gs_rebalance_pending = False\<rparr>"
  "snd (group_join 2 4 200 (snd (group_join 1 4 100 (group_new 1 1)))) =
     \<lparr>gs_group_id = 1, gs_topic_id = 1, gs_generation = 3,
      gs_members = [(1, sample_owner 1 2 100), (2, sample_owner 2 3 200)], gs_rebalance_pending = False\<rparr>"
proof -
  have gens: "sat_add 1 1 = (2 :: u32)" "sat_add 2 1 = (3 :: u32)" by (simp_all add: sat_add_def)
  have "eligible_ids [(1, \<lparr>gm_member_id = 1, gm_generation = 2, gm_assigned_partitions = [],
     gm_last_seen_ms = 100\<rparr>)] 2 = [1]" by (simp add: eligible_ids_def)
  then show one: "snd (group_join 1 4 100 (group_new 1 1)) =
     \<lparr>gs_group_id = 1, gs_topic_id = 1, gs_generation = 2, gs_members = [(1, sample_owner 1 2 100)],
      gs_rebalance_pending = False\<rparr>"
    using range_assign_single [of _ 2 1 4]
    by (simp add: group_join_def group_new_def Let_def gens apply_assignments_def sample_owner_def)
  have "eligible_ids [(1, sample_owner 1 2 100), (2, \<lparr>gm_member_id = 2, gm_generation = 3,
     gm_assigned_partitions = [], gm_last_seen_ms = 200\<rparr>)] 3 = [2]"
    by (simp add: eligible_ids_def sample_owner_def)
  then show "snd (group_join 2 4 200 (snd (group_join 1 4 100 (group_new 1 1)))) =
     \<lparr>gs_group_id = 1, gs_topic_id = 1, gs_generation = 3,
      gs_members = [(1, sample_owner 1 2 100), (2, sample_owner 2 3 200)], gs_rebalance_pending = False\<rparr>"
    using range_assign_single [of _ 3 2 4] unfolding one
    by (simp add: group_join_def Let_def gens apply_assignments_def)
      (simp add: sample_owner_def)
qed

lemma sample_group_reachable:
  "group_reachable (snd (group_join 1 4 100 (group_new 1 1)))"
  "group_reachable (snd (group_join 2 4 200 (snd (group_join 1 4 100 (group_new 1 1)))))"
  by (rule group_reachable.step [OF group_reachable.init step_join])
    (rule group_reachable.step [OF group_reachable.step [OF group_reachable.init step_join] step_join])

section \<open>Properties\<close>

text \<open>
  C19: the range assigner.  For a group with members and a topic with partitions, the
  assignment goes to the eligible members in ascending order of their ids; read in that
  order the ranges are 0, 1, \<dots> up to the last partition, so every partition has exactly
  one owner among them, and no two shares differ by more than one partition.
\<close>

theorem range_assign_partitions:
  assumes "ms \<noteq> []" and "pc \<noteq> 0"
  shows "map fst (range_assign pc ms gen) = eligible_ids ms gen
    \<and> sorted (eligible_ids ms gen) \<and> distinct (eligible_ids ms gen)
    \<and> concat (map snd (range_assign pc ms gen)) = map of_nat [0..<unat pc]
    \<and> (\<forall>parts\<in>set (map snd (range_assign pc ms gen)).
         length parts = unat pc div length (eligible_ids ms gen)
         \<or> length parts = unat pc div length (eligible_ids ms gen) + 1)"
proof -
  let ?ids = "eligible_ids ms gen" and ?n = "length (eligible_ids ms gen)"
  let ?r = "ranges (unat pc div ?n) (unat pc mod ?n) 0 0 ?n"
  have ne: "?ids \<noteq> []" using assms by (simp add: eligible_ids_empty_iff)
  have eq: "range_assign pc ms gen = zip ?ids (map (map of_nat) ?r)"
    using range_assign_eq [OF ne assms(2)] by (simp add: Let_def)
  have "concat (map (map of_nat) ?r) = map of_nat (concat ?r)" by (simp add: map_concat)
  also have "\<dots> = map of_nat [0..<unat pc]"
    using ne by (simp add: concat_ranges quota_sum_total)
  finally show ?thesis
    using eligible_ids_sorted [of ms gen] ranges_balanced by (auto simp: eq)
qed

definition sample_member :: "u64 \<Rightarrow> group_member" where
  "sample_member i = \<lparr>gm_member_id = i, gm_generation = 1, gm_assigned_partitions = [], gm_last_seen_ms = 0\<rparr>"

theorem range_assign_partitions_witness:
  "concat (map snd (range_assign 5 [(2, sample_member 2), (1, sample_member 1)] 1)) = map of_nat [0..<unat (5 :: u16)]"
  using range_assign_partitions [of "[(2, sample_member 2), (1, sample_member 1)]" 5 1] by simp

text \<open>
  New members get an id of their own: the search for a free id ends, and its result
  is the least positive id that no member has.
\<close>

theorem next_member_id_fresh:
  assumes "length ms < 2 ^ 64 - 2"
  shows "\<not> hm_contains ms (next_member_id ms) \<and> next_member_id ms \<noteq> 0
    \<and> (\<forall>i. 0 < i \<longrightarrow> i < next_member_id ms \<longrightarrow> hm_contains ms i)"
proof -
  obtain n where n: "next_member_id ms = of_nat (Suc n)" "n \<le> length ms"
    "\<not> hm_contains ms (next_member_id ms)" "\<forall>j<n. hm_contains ms (of_nat (Suc j))"
    using next_member_id_least [OF assms] by blast
  have u: "unat (next_member_id ms) = Suc n"
    unfolding n(1) using assms n(2) by (intro unat_of_nat_small) simp
  have "hm_contains ms i" if "0 < i" "i < next_member_id ms" for i
  proof -
    have "unat i - 1 < n" "0 < unat i" using that u by (auto simp: word_less_nat_alt)
    then have "hm_contains ms (of_nat (Suc (unat i - 1)))" using n(4) by blast
    moreover have "Suc (unat i - 1) = unat i" using \<open>0 < unat i\<close> by simp
    ultimately show ?thesis by simp
  qed
  then show ?thesis using n(3) u by auto
qed

theorem next_member_id_fresh_witness:
  "\<not> hm_contains [(1, sample_member 1), (3, sample_member 3)]
      (next_member_id [(1, sample_member 1), (3, sample_member 3)])"
  using next_member_id_fresh [of "[(1, sample_member 1), (3, sample_member 3)]"] by simp

text \<open>
  C20: in every reachable group the members are filed under their own ids, each id once,
  and no member carries a generation the group has not reached.
\<close>

theorem group_reachable_invariant:
  assumes "group_reachable st"
  shows "distinct (hm_keys (gs_members st))
    \<and> (\<forall>i m. hm_get (gs_members st) i = Some m \<longrightarrow>
         gm_member_id m = i \<and> gm_generation m \<le> gs_generation st)"
  using group_reachable_inv [OF assms] by (simp add: group_inv_def members_inv_def)

theorem group_reachable_invariant_witness:
  "distinct (hm_keys (gs_members (snd (group_join 0 2 100 (group_new 1 1)))))"
  using group_reachable_invariant [OF group_reachable.step [OF group_reachable.init [of 1 1] step_join [of _ 0 2 100]]]
  by blast

text \<open>
  Joining does not share.  In any reachable group in which every member owns
  partitions, a further member that joins is assigned all partitions of the topic, while
  every other member keeps its own and its generation; a heartbeat of such a member is
  still answered with success and no request to rejoin.
\<close>

theorem join_overlaps:
  assumes "group_reachable st" and "member \<noteq> 0" and "hm_get (gs_members st) member = None"
    and "\<forall>j m. hm_get (gs_members st) j = Some m \<longrightarrow> gm_assigned_partitions m \<noteq> []"
    and "gs_generation st \<noteq> - 1" and "pc \<noteq> 0"
    and "hm_get (gs_members st) j = Some m"
  shows "snd (snd (fst (group_join member pc now st))) = map of_nat [0..<unat pc]
    \<and> hm_get (gs_members (snd (group_join member pc now st))) j = Some m
    \<and> fst (group_heartbeat_op j (gm_generation m) now' (snd (group_join member pc now st))) = (0, False)"
proof -
  let ?gen = "sat_add (gs_generation st) 1"
  let ?new = "\<lparr>gm_member_id = member, gm_generation = ?gen, gm_assigned_partitions = [],
     gm_last_seen_ms = now\<rparr>"
  let ?ms = "hm_insert member ?new (gs_members st)"
  have "members_inv (gs_generation st) (gs_members st)"
    using group_reachable_inv [OF assms(1)] by (simp add: group_inv_def)
  then have "eligible_ids ?ms ?gen = [member]"
    using assms by (intro eligible_ids_joiner) (auto simp: sat_add_1_less)
  then have ra: "range_assign pc ?ms ?gen = [(member, map of_nat [0..<unat pc])]"
    using assms(6) by (rule range_assign_single)
  have "j \<noteq> member" using assms(3,7) by auto
  then have "hm_get (gs_members (snd (group_join member pc now st))) j = Some m"
    using assms ra by (simp add: group_join_def Let_def apply_assignments_get)
  moreover have "\<not> gs_rebalance_pending (snd (group_join member pc now st))"
    by (simp add: group_join_def Let_def)
  ultimately show ?thesis
    using assms ra by (simp add: group_join_def group_heartbeat_op_def Let_def)
qed

theorem join_overlaps_witness:
  "snd (snd (fst (group_join 2 4 200 (snd (group_join 1 4 100 (group_new 1 1)))))) = map of_nat [0..<unat (4 :: u16)]
   \<and> (\<exists>m. hm_get (gs_members (snd (group_join 2 4 200 (snd (group_join 1 4 100 (group_new 1 1)))))) 1 = Some m
        \<and> gm_assigned_partitions m = map of_nat [0..<unat (4 :: u16)])"
  using join_overlaps [OF sample_group_reachable(1), of 2 4 1 "sample_owner 1 2 100" 200 300]
  by (simp add: sample_group(1)) (simp add: sample_owner_def)

text \<open>
  Recovery of partitions.  When members of a reachable group expire and every survivor
  owns partitions, the rebalance that follows hands the whole topic to the survivors: the
  assignment covers all partitions exactly once, goes to all survivors, and is what the
  group records for each of them.
\<close>

theorem expire_rebalance_covers:
  assumes "group_reachable st" and "fst (expire_stale_members now tmo st)"
    and "st' = snd (expire_stale_members now tmo st)" and "gs_members st' \<noteq> []"
    and "\<forall>j m. hm_get (gs_members st') j = Some m \<longrightarrow> gm_assigned_partitions m \<noteq> []"
    and "gs_generation st \<noteq> - 1" and "pc \<noteq> 0"
  shows "map fst (fst (rebalance pc now st')) = sort (hm_keys (gs_members st'))
    \<and> concat (map snd (fst (rebalance pc now st'))) = map of_nat [0..<unat pc]
    \<and> (\<forall>j\<in>set (hm_keys (gs_members st')).
         map_option gm_assigned_partitions (hm_get (gs_members (snd (rebalance pc now st'))) j)
         = hm_get (fst (rebalance pc now st')) j)"
proof -
  have gen: "gs_generation st' = sat_add (gs_generation st) 1"
    using assms(2,3) by (auto simp: expire_stale_members_def Let_def split: if_splits)
  have inv: "members_inv (gs_generation st) (gs_members st')"
    using group_reachable_inv [OF assms(1)] assms(3)
    by (auto simp: group_inv_def expire_stale_members_def Let_def intro: members_inv_remove)
  then have dist: "distinct (hm_keys (gs_members st'))" by (simp add: members_inv_def)
  have "filter (\<lambda>m. gm_generation m = gs_generation st' \<or> gm_assigned_partitions m = [])
      (map snd (gs_members st')) = []"
    by (rule none_eligible [OF inv]) (use gen sat_add_1_less [OF assms(6)] assms(5) in auto)
  then have ids: "eligible_ids (gs_members st') (gs_generation st') = sort (hm_keys (gs_members st'))"
    using dist by (simp add: eligible_ids_def remdups_adj_distinct)
  let ?as = "range_assign pc (gs_members st') (gs_generation st')"
  have as: "map fst ?as = sort (hm_keys (gs_members st'))" "distinct (hm_keys ?as)"
    "concat (map snd ?as) = map of_nat [0..<unat pc]"
  proof -
    let ?ids = "eligible_ids (gs_members st') (gs_generation st')"
    have ne: "?ids \<noteq> []" using assms(4) by (simp add: eligible_ids_empty_iff)
    show "map fst ?as = sort (hm_keys (gs_members st'))"
      using range_assign_eq [OF ne assms(7)] ids by (simp add: Let_def)
    then show "distinct (hm_keys ?as)" using dist by simp
    show "concat (map snd ?as) = map of_nat [0..<unat pc]"
      using range_assign_eq [OF ne assms(7)] ne
      by (simp add: Let_def map_concat [symmetric] concat_ranges quota_sum_total)
  qed
  have "\<exists>m parts. hm_get (gs_members st') j = Some m \<and> hm_get ?as j = Some parts"
    if "j \<in> set (hm_keys (gs_members st'))" for j
    using that as(1) by (metis hm_contains_def hm_contains_iff not_None_eq set_sort)
  then show ?thesis
    using as by (fastforce simp: rebalance_def Let_def apply_assignments_get)
qed

theorem expire_rebalance_covers_witness:
  "concat (map snd (fst (rebalance 4 10150 (snd (expire_stale_members 10150 10000
      (snd (group_join 2 4 200 (snd (group_join 1 4 100 (group_new 1 1)))))))))) = map of_nat [0..<unat (4 :: u16)]"
proof -
  let ?st = "snd (group_join 2 4 200 (snd (group_join 1 4 100 (group_new 1 1))))"
  have ex: "expire_stale_members 10150 10000 ?st = (True, ?st\<lparr>gs_members := [(2, sample_owner 2 3 200)],
      gs_generation := 4, gs_rebalance_pending := True\<rparr>)"
    unfolding sample_group(2)
    by (simp add: expire_stale_members_def sample_owner_def sat_sub_def sat_add_def)
  from expire_rebalance_covers [OF sample_group_reachable(2), of 10150 10000 _ 4] ex
  show ?thesis by (simp add: sample_group(2) sample_owner_def)
qed

end
