(* ===== verification/Security.thy ===== *)
theory Security
  imports Rust_Text
begin

text \<open>
  The request policies of \<open>dmq-core\<close>: the topic access lists of \<open>acl.rs\<close>, the token of
  \<open>auth.rs\<close>, the size limits of \<open>limits.rs\<close>, and the counters of \<open>metrics.rs\<close>.  Everything
  is a function of the environment.  The rule set is a list without duplicates.
\<close>

section \<open>Access control\<close>

datatype operation = OpProduce | OpFetch | OpAdmin

record acl =
  acl_allowed :: "(string \<times> operation \<times> u16) list"
  acl_deny_by_default :: bool

definition parse_operation :: "string \<Rightarrow> operation option" where
  "parse_operation s =
     (let l = to_ascii_lowercase s
      in if l = ''produce'' then Some OpProduce
         else if l = ''fetch'' then Some OpFetch
         else if l = ''admin'' then Some OpAdmin
         else None)"

definition parse_rule :: "string \<Rightarrow> acl \<Rightarrow> acl" where
  "parse_rule rule a =
     (case split_on CHR '':'' rule of
        [who, opname, topic] \<Rightarrow>
          (case parse_operation opname of
             None \<Rightarrow> a
           | Some op \<Rightarrow>
               let topic_id = (case parse_word topic of Some t \<Rightarrow> t | None \<Rightarrow> 0)
               in a\<lparr>acl_allowed := List.insert (who, op, topic_id) (acl_allowed a)\<rparr>)
      | _ \<Rightarrow> a)"

definition acl_from_env :: "env \<Rightarrow> acl" where
  "acl_from_env e =
     (let a = \<lparr>acl_allowed = [], acl_deny_by_default = env_flag e ''DMQ_ACL_DENY_BY_DEFAULT''\<rparr>
      in case e ''DMQ_ACL'' of
           None \<Rightarrow> a
         | Some raw \<Rightarrow> fold parse_rule (filter (\<lambda>s. s \<noteq> []) (split_on CHR '';'' raw)) a)"

definition acl_is_configured :: "acl \<Rightarrow> bool" where
  "acl_is_configured a \<longleftrightarrow> acl_deny_by_default a \<or> acl_allowed a \<noteq> []"

definition acl_check :: "acl \<Rightarrow> string \<Rightarrow> operation \<Rightarrow> u16 \<Rightarrow> unit io_result" where
  "acl_check a who op t =
     (if \<not> acl_is_configured a then Inr ()
      else if (who, op, t) \<in> set (acl_allowed a) \<or> (who, op, 0) \<in> set (acl_allowed a)
              \<or> (''*'', op, t) \<in> set (acl_allowed a) \<or> (''*'', op, 0) \<in> set (acl_allowed a)
           then Inr ()
      else if acl_deny_by_default a then io_err PermissionDenied ''acl denied''
      else Inr ())"

section \<open>Tokens\<close>

definition auth_required :: "env \<Rightarrow> bool" where
  "auth_required e \<longleftrightarrow> e ''DMQ_AUTH_TOKEN'' \<noteq> None"

definition expected_token :: "env \<Rightarrow> string option" where
  "expected_token e = e ''DMQ_AUTH_TOKEN''"

definition validate_token :: "env \<Rightarrow> bytes \<Rightarrow> unit io_result" where
  "validate_token e token =
     (case expected_token e of
        None \<Rightarrow> Inr ()
      | Some expected \<Rightarrow>
          if token = as_bytes expected then Inr ()
          else io_err PermissionDenied ''invalid auth token'')"

definition principal_from_token :: "bytes \<Rightarrow> string" where
  "principal_from_token token = (if token = [] then ''anonymous'' else from_utf8_lossy token)"

section \<open>Limits\<close>

definition DEFAULT_MAX_PAYLOAD_BYTES :: nat where "DEFAULT_MAX_PAYLOAD_BYTES = 255"
definition DEFAULT_MAX_FETCH_BYTES :: u32 where "DEFAULT_MAX_FETCH_BYTES = 64 * 1024"

definition max_payload_bytes :: "env \<Rightarrow> nat" where
  "max_payload_bytes e =
     (case Option.bind (e ''DMQ_MAX_PAYLOAD_BYTES'') (parse_uint (2 ^ 64 - 1)) of
        Some n \<Rightarrow> n | None \<Rightarrow> DEFAULT_MAX_PAYLOAD_BYTES)"

definition max_fetch_bytes :: "env \<Rightarrow> u32" where
  "max_fetch_bytes e = env_word e ''DMQ_MAX_FETCH_BYTES'' DEFAULT_MAX_FETCH_BYTES"

definition validate_produce_payload :: "env \<Rightarrow> nat \<Rightarrow> unit io_result" where
  "validate_produce_payload e len =
     (let mx = max_payload_bytes e
      in if len > mx then
           io_err InvalidInput (''payload '' @ show_nat len @ '' bytes exceeds limit '' @ show_nat mx)
         else Inr ())"

definition clamp_fetch_bytes :: "env \<Rightarrow> u32 \<Rightarrow> u32" where
  "clamp_fetch_bytes e requested = min requested (max_fetch_bytes e)"

section \<open>Counters\<close>

definition LATENCY_BUCKETS_MS :: "u64 list" where
  "LATENCY_BUCKETS_MS = [1, 5, 10, 25, 50, 100, 250, 500, 1000, 2500]"

record broker_metrics =
  produce_total :: u64
  produce_bytes :: u64
  fetch_total :: u64
  fetch_bytes :: u64
  fetch_records :: u64
  commit_total :: u64
  request_errors :: u64
  request_latency_sum_ms :: u64
  request_latency_count :: u64
  latency_buckets :: "u64 list"

definition metrics_new :: broker_metrics where
  "metrics_new = \<lparr>produce_total = 0, produce_bytes = 0, fetch_total = 0, fetch_bytes = 0,
     fetch_records = 0, commit_total = 0, request_errors = 0, request_latency_sum_ms = 0,
     request_latency_count = 0, latency_buckets = replicate 10 0\<rparr>"

definition record_produce :: "nat \<Rightarrow> broker_metrics \<Rightarrow> broker_metrics" where
  "record_produce n m = m\<lparr>produce_total := produce_total m + 1, produce_bytes := produce_bytes m + of_nat n\<rparr>"

definition record_fetch :: "nat \<Rightarrow> nat \<Rightarrow> broker_metrics \<Rightarrow> broker_metrics" where
  "record_fetch n recs m = m\<lparr>fetch_total := fetch_total m + 1, fetch_bytes := fetch_bytes m + of_nat n,
     fetch_records := fetch_records m + of_nat recs\<rparr>"

definition record_commit :: "broker_metrics \<Rightarrow> broker_metrics" where
  "record_commit m = m\<lparr>commit_total := commit_total m + 1\<rparr>"

definition record_error :: "broker_metrics \<Rightarrow> broker_metrics" where
  "record_error m = m\<lparr>request_errors := request_errors m + 1\<rparr>"

fun bump_buckets :: "u64 \<Rightarrow> nat \<Rightarrow> u64 list \<Rightarrow> u64 list \<Rightarrow> u64 list" where
  "bump_buckets lat idx [] buckets = buckets"
| "bump_buckets lat idx (bound # bounds) buckets =
     bump_buckets lat (Suc idx) bounds
       (if lat \<le> bound then buckets[idx := buckets ! idx + 1] else buckets)"

definition record_request_latency :: "u64 \<Rightarrow> broker_metrics \<Rightarrow> broker_metrics" where
  "record_request_latency lat m = m\<lparr>request_latency_sum_ms := request_latency_sum_ms m + lat,
     request_latency_count := request_latency_count m + 1,
     latency_buckets := bump_buckets lat 0 LATENCY_BUCKETS_MS (latency_buckets m)\<rparr>"

section \<open>Lemmas\<close>

text \<open>A rule of the list speaks for a request.\<close>

definition rule_matches :: "string \<Rightarrow> operation \<Rightarrow> u16 \<Rightarrow> string \<times> operation \<times> u16 \<Rightarrow> bool" where
  "rule_matches who op t = (\<lambda>(p, o', t'). (p = who \<or> p = ''*'') \<and> o' = op \<and> (t' = t \<or> t' = 0))"

lemma bump_buckets_eq:
  assumes "length buckets = idx + length bounds"
  shows "bump_buckets lat idx bounds buckets =
    take idx buckets @ map2 (\<lambda>b c. if lat \<le> b then c + 1 else c) bounds (drop idx buckets)"
  using assms
proof (induction bounds arbitrary: idx buckets)
  case Nil
  then show ?case by simp
next
  case (Cons b bounds)
  let ?bs = "if lat \<le> b then buckets[idx := buckets ! idx + 1] else buckets"
  have i: "idx < length buckets" using Cons.prems by simp
  have "bump_buckets lat (Suc idx) bounds ?bs =
      take (Suc idx) ?bs @ map2 (\<lambda>b c. if lat \<le> b then c + 1 else c) bounds (drop (Suc idx) ?bs)"
    using Cons.IH [of ?bs "Suc idx"] Cons.prems by simp
  moreover have "take (Suc idx) ?bs = take idx buckets @ [if lat \<le> b then buckets ! idx + 1 else buckets ! idx]"
    using i by (simp add: take_Suc_conv_app_nth)
  moreover have "drop idx buckets = buckets ! idx # drop (Suc idx) buckets"
    using i by (simp add: take_drop_Suc_nth)
  ultimately show ?case by simp
qed

lemma bump_buckets_map:
  assumes "length bounds = length counts"
  shows "bump_buckets lat 0 bounds counts = map2 (\<lambda>b c. if lat \<le> b then c + 1 else c) bounds counts"
  using bump_buckets_eq [of counts 0 bounds lat] assms by simp

section \<open>Properties\<close>

text \<open>
  The access check.  A request is refused exactly when denial is the default and no
  rule names its principal (or everyone), its operation and its topic (or topic 0, which
  stands for all); in particular rules without \<open>DMQ_ACL_DENY_BY_DEFAULT\<close> refuse nothing.
\<close>

theorem acl_check_spec:
  "acl_check a who op t =
     (if acl_deny_by_default a \<and> \<not> list_ex (rule_matches who op t) (acl_allowed a)
      then io_err PermissionDenied ''acl denied'' else Inr ())"
proof -
  have "list_ex (rule_matches who op t) (acl_allowed a) \<longleftrightarrow>
      (who, op, t) \<in> set (acl_allowed a) \<or> (who, op, 0) \<in> set (acl_allowed a)
      \<or> (''*'', op, t) \<in> set (acl_allowed a) \<or> (''*'', op, 0) \<in> set (acl_allowed a)"
    by (force simp: list_ex_iff rule_matches_def)
  then show ?thesis by (auto simp: acl_check_def acl_is_configured_def)
qed

text \<open>
  A mistyped topic opens all topics.  A rule whose topic is not a number is stored for
  topic 0, so its principal may perform the operation on every topic.
\<close>

theorem acl_garbage_topic_grants_all:
  assumes "CHR '':'' \<notin> set who" and "CHR '':'' \<notin> set topic"
    and "(parse_word topic :: u16 option) = None"
  shows "acl_check (parse_rule (who @ '':fetch:'' @ topic) a) who OpFetch t = Inr ()"
proof -
  have colon: "CHR '':'' \<notin> set ''fetch''" by simp
  have "split_on CHR '':'' (who @ '':fetch:'' @ topic) = [who, ''fetch'', topic]"
    using assms split_on_append [OF colon, of topic] by (simp add: split_on_append split_on_no_sep)
  moreover have "parse_operation ''fetch'' = Some OpFetch"
    by (simp add: parse_operation_def to_ascii_lowercase_def ascii_lower_char_def)
  ultimately have "(who, OpFetch, 0) \<in> set (acl_allowed (parse_rule (who @ '':fetch:'' @ topic) a))"
    using assms(3) by (simp add: parse_rule_def)
  then show ?thesis by (simp add: acl_check_def)
qed

theorem acl_garbage_topic_grants_all_witness:
  "acl_check (parse_rule (''bob'' @ '':fetch:'' @ ''orders'') \<lparr>acl_allowed = [], acl_deny_by_default = True\<rparr>)
     ''bob'' OpFetch 7 = Inr ()"
  by (rule acl_garbage_topic_grants_all)
    (simp_all add: parse_word_def parse_uint_def digit_val_def)

text \<open>
  The latency histogram is cumulative.  After any sequence of requests each bucket
  counts exactly the requests at or below its bound, the sum is the sum of the latencies
  and the count their number, all modulo the width of the counters.
\<close>

theorem latency_histogram:
  "latency_buckets (fold record_request_latency lats metrics_new) =
     map (\<lambda>bound. of_nat (length (filter (\<lambda>l. l \<le> bound) lats))) LATENCY_BUCKETS_MS
   \<and> request_latency_sum_ms (fold record_request_latency lats metrics_new) = sum_list lats
   \<and> request_latency_count (fold record_request_latency lats metrics_new) = of_nat (length lats)"
proof (induction lats rule: rev_induct)
  case Nil
  then show ?case by (simp add: metrics_new_def LATENCY_BUCKETS_MS_def eval_nat_numeral)
next
  case (snoc l lats)
  let ?m = "fold record_request_latency lats metrics_new"
  have "bump_buckets l 0 LATENCY_BUCKETS_MS (latency_buckets ?m) =
      map2 (\<lambda>b c. if l \<le> b then c + 1 else c) LATENCY_BUCKETS_MS (latency_buckets ?m)"
    using snoc by (intro bump_buckets_map) simp
  also have "\<dots> = map (\<lambda>bound. of_nat (length (filter (\<lambda>l. l \<le> bound) (lats @ [l])))) LATENCY_BUCKETS_MS"
    using snoc by (simp add: map2_map_map [where f = id, simplified] add.commute)
  finally show ?case using snoc by (simp add: record_request_latency_def add.commute)
qed

end
