(* ===== verification/Ring_Queue.thy ===== *)
theory Ring_Queue
  imports Metadata
begin

text \<open>
  The two ring buffers of the legacy path: the in-memory \<open>Queue\<close> of
  \<open>dmq-core/src/topic.rs\<close> and the memory-mapped \<open>MmapQueue\<close> of
  \<open>dmq-storage/src/mmap_queue.rs\<close>.  A mapped buffer is the file itself: a write to it is
  seen by every reader of the file and is not synced; the head and tail in the metadata
  file are synced.  Both queues are shown to be first-in first-out queues of the locale
  \<open>fifo_queue\<close>.
\<close>

section \<open>Constants and slots\<close>

definition MAX_MSG_SIZE :: nat where "MAX_MSG_SIZE = 255"
definition QUEUE_CAPACITY :: nat where "QUEUE_CAPACITY = 10000"
definition BUFFER_BYTES :: nat where "BUFFER_BYTES = MAX_MSG_SIZE * QUEUE_CAPACITY"
definition STAGING_GROUP_ID :: u16 where "STAGING_GROUP_ID = 65535"
definition STAGING_PARTITION_ID :: u16 where "STAGING_PARTITION_ID = 65535"

definition out_of_range :: "'a io_result" where
  "out_of_range = Inl (Panic ''range end index out of range'')"

section \<open>The in-memory queue\<close>

record mem_queue =
  q_buffer :: bytes
  q_sizes :: bytes
  q_head :: nat
  q_tail :: nat
  q_base_offset :: u64
  q_next_offset :: u64

definition queue_new :: mem_queue where
  "queue_new = \<lparr>q_buffer = replicate BUFFER_BYTES 0, q_sizes = replicate QUEUE_CAPACITY 0,
     q_head = 0, q_tail = 0, q_base_offset = 0, q_next_offset = 0\<rparr>"

definition queue_append :: "bytes \<Rightarrow> mem_queue \<Rightarrow> u64 \<times> mem_queue" where
  "queue_append payload q =
     (let full = (q_next_offset q - q_base_offset q = of_nat QUEUE_CAPACITY);
          q1 = (if full then q\<lparr>q_head := (q_head q + 1) mod QUEUE_CAPACITY,
                               q_base_offset := q_base_offset q + 1\<rparr> else q);
          len = min (length payload) MAX_MSG_SIZE;
          slot = q_tail q1
      in (q_next_offset q1,
          q1\<lparr>q_buffer := write_at (slot * MAX_MSG_SIZE) (take len payload) (q_buffer q1),
             q_sizes := (q_sizes q1)[slot := of_nat len],
             q_tail := (q_tail q1 + 1) mod QUEUE_CAPACITY,
             q_next_offset := q_next_offset q1 + 1\<rparr>))"

definition queue_read_at :: "u64 \<Rightarrow> mem_queue \<Rightarrow> bytes option" where
  "queue_read_at off q =
     (if off \<ge> q_next_offset q then None
      else if off < q_base_offset q then None
      else let slot = unat off mod QUEUE_CAPACITY;
               len = unat (q_sizes q ! slot);
               start = slot * MAX_MSG_SIZE
           in Some (slice start (start + len) (q_buffer q)))"

definition queue_live_len :: "mem_queue \<Rightarrow> u64" where
  "queue_live_len q = sat_sub (q_next_offset q) (q_base_offset q)"

definition queue_pop_front :: "mem_queue \<Rightarrow> bytes option \<times> mem_queue" where
  "queue_pop_front q =
     (if q_base_offset q \<ge> q_next_offset q then (None, q)
      else case queue_read_at (q_base_offset q) q of
             None \<Rightarrow> (None, q)
           | Some bs \<Rightarrow> (Some bs, q\<lparr>q_head := (q_head q + 1) mod QUEUE_CAPACITY,
                                    q_base_offset := q_base_offset q + 1\<rparr>))"

section \<open>The memory-mapped queue\<close>

record mmap_queue =
  mq_topic :: u16
  mq_group :: u16
  mq_partition :: u16
  mq_head :: u32
  mq_tail :: u32

abbreviation mq_meta :: "mmap_queue \<Rightarrow> string" where
  "mq_meta q \<equiv> partition_metadata_path (mq_topic q) (mq_group q) (mq_partition q)"

abbreviation mq_arr :: "mmap_queue \<Rightarrow> string" where
  "mq_arr q \<equiv> under_arr_path (mq_topic q) (mq_group q) (mq_partition q)"

abbreviation mq_sizes :: "mmap_queue \<Rightarrow> string" where
  "mq_sizes q \<equiv> under_size_path (mq_topic q) (mq_group q) (mq_partition q)"

definition open_or_create_mmap :: "string \<Rightarrow> nat \<Rightarrow> data_dir \<Rightarrow> data_dir" where
  "open_or_create_mmap name len d =
     (let d1 = open_create name d
      in if length (df_contents d1 name) < len then df_put name (set_len len (df_contents d1 name)) d1
         else d1)"

definition mq_open :: "u16 \<Rightarrow> u16 \<Rightarrow> u16 \<Rightarrow> data_dir \<Rightarrow> mmap_queue io_result \<times> data_dir" where
  "mq_open t g p d =
     (let meta = partition_metadata_path t g p;
          d1 = open_create meta d;
          d2 = (if length (df_contents d1 meta) < 8 then
                  write_u32 meta 4 0 (write_u32 meta 0 0
                    (df_put meta (set_len 8 (df_contents d1 meta)) d1))
                else d1)
      in case res_bind (file_read_u32 (df_contents d2 meta) 0) (\<lambda>h.
                res_bind (file_read_u32 (df_contents d2 meta) 4) (\<lambda>v. Inr (h, v))) of
           Inl e \<Rightarrow> (Inl e, d2)
         | Inr (h, tail') \<Rightarrow>
             (Inr \<lparr>mq_topic = t, mq_group = g, mq_partition = p, mq_head = h, mq_tail = tail'\<rparr>,
              open_or_create_mmap (under_size_path t g p) BUFFER_BYTES
                (open_or_create_mmap (under_arr_path t g p) BUFFER_BYTES d2)))"

definition mq_live_len :: "mmap_queue \<Rightarrow> u64" where
  "mq_live_len q =
     (if mq_tail q \<ge> mq_head q then ucast ((mq_tail q - mq_head q) div of_nat MAX_MSG_SIZE)
      else ucast ((of_nat BUFFER_BYTES - mq_head q + mq_tail q) div of_nat MAX_MSG_SIZE))"

definition mq_is_empty :: "mmap_queue \<Rightarrow> bool" where
  "mq_is_empty q \<longleftrightarrow> mq_head q = mq_tail q"

definition mq_append ::
  "bytes \<Rightarrow> mmap_queue \<times> data_dir \<Rightarrow> u64 io_result \<times> mmap_queue \<times> data_dir" where
  "mq_append payload s =
     (let (q, d) = s;
          offset = mq_live_len q;
          len = min (length payload) MAX_MSG_SIZE;
          start = unat (mq_tail q)
      in if start + len > BUFFER_BYTES \<or> start \<ge> BUFFER_BYTES then (out_of_range, q, d)
         else
           let d1 = write_file (mq_arr q) start (take len payload) d;
               d2 = write_file (mq_sizes q) start [of_nat len] d1;
               tail' = (mq_tail q + of_nat MAX_MSG_SIZE) mod of_nat BUFFER_BYTES
           in (Inr offset, q\<lparr>mq_tail := tail'\<rparr>, write_u32 (mq_meta q) 4 tail' d2))"

definition mq_pop_front ::
  "mmap_queue \<times> data_dir \<Rightarrow> bytes option io_result \<times> mmap_queue \<times> data_dir" where
  "mq_pop_front s =
     (let (q, d) = s
      in if mq_head q = mq_tail q then (Inr None, q, d)
         else
           let start = unat (mq_head q);
               len = unat (df_contents d (mq_sizes q) ! start)
           in if start \<ge> BUFFER_BYTES \<or> start + len > BUFFER_BYTES then (out_of_range, q, d)
              else
                let head' = (mq_head q + of_nat MAX_MSG_SIZE) mod of_nat BUFFER_BYTES
                in (Inr (Some (slice start (start + len) (df_contents d (mq_arr q)))),
                    q\<lparr>mq_head := head'\<rparr>, write_u32 (mq_meta q) 0 head' d))"

section \<open>Rings\<close>

definition ring_read :: "nat \<Rightarrow> nat \<Rightarrow> (nat \<Rightarrow> 'a) \<Rightarrow> 'a list" where
  "ring_read h n f = map (\<lambda>i. f ((h + i) mod QUEUE_CAPACITY)) [0..<n]"

lemma capacity_pos [simp]: "0 < QUEUE_CAPACITY" "0 < MAX_MSG_SIZE"
  by (simp_all add: QUEUE_CAPACITY_def MAX_MSG_SIZE_def)

lemma buffer_bytes_pos: "0 < BUFFER_BYTES"
  by (simp add: BUFFER_BYTES_def)

lemma mod_add_inj:
  assumes "(h + i) mod C = (h + j) mod C" and "i < C" and "j < (C :: nat)"
  shows "i = j"
proof (cases "i \<le> j")
  case True
  with assms(1) have "C dvd j - i" using mod_eq_dvd_iff_nat [of "h + i" "h + j" C] by simp
  with assms True show ?thesis using nat_dvd_not_less [of "j - i" C] by force
next
  case False
  with assms(1) have "C dvd i - j" using mod_eq_dvd_iff_nat [of "h + j" "h + i" C] by simp
  with assms False show ?thesis using nat_dvd_not_less [of "i - j" C] by force
qed

lemma ring_read_append:
  assumes "n < QUEUE_CAPACITY" and "f' ((h + n) mod QUEUE_CAPACITY) = x"
    and "\<And>s. s < QUEUE_CAPACITY \<Longrightarrow> s \<noteq> (h + n) mod QUEUE_CAPACITY \<Longrightarrow> f' s = f s"
  shows "ring_read h (Suc n) f' = ring_read h n f @ [x]"
proof -
  have "f' ((h + i) mod QUEUE_CAPACITY) = f ((h + i) mod QUEUE_CAPACITY)" if "i < n" for i
    using that assms(1) mod_add_inj [of h i QUEUE_CAPACITY n] by (intro assms(3)) auto
  with assms(2) show ?thesis by (simp add: ring_read_def)
qed

lemma ring_read_pop:
  "ring_read h (Suc n) f = f (h mod QUEUE_CAPACITY) # ring_read ((h + 1) mod QUEUE_CAPACITY) n f"
proof -
  have "(((h + 1) mod QUEUE_CAPACITY) + i) mod QUEUE_CAPACITY = (h + Suc i) mod QUEUE_CAPACITY" for i
    by (simp add: mod_add_left_eq)
  then show ?thesis
    by (simp add: ring_read_def upt_conv_Cons map_Suc_upt [symmetric] o_def del: upt_Suc)
qed

lemma length_ring_read [simp]: "length (ring_read h n f) = n"
  by (simp add: ring_read_def)

section \<open>Slots of a buffer\<close>

lemma slice_write_at_same:
  "off \<le> length c \<Longrightarrow> n = length xs \<Longrightarrow> slice off (off + n) (write_at off xs c) = xs"
  by (simp add: slice_def write_at_def)

lemma slice_write_at_other:
  assumes "off + length xs \<le> length c" and "j + k \<le> off \<or> off + length xs \<le> j"
  shows "slice j (j + k) (write_at off xs c) = slice j (j + k) c"
  using assms(2)
proof
  assume "j + k \<le> off"
  then show ?thesis using assms(1) by (simp add: slice_def write_at_def take_drop min_def)
next
  assume "off + length xs \<le> j"
  then show ?thesis using assms(1) by (simp add: slice_def write_at_def add.commute)
qed

lemma length_write_at [simp]: "off + length xs \<le> length c \<Longrightarrow> length (write_at off xs c) = length c"
  by (simp add: write_at_def)

lemma write_at_single: "i < length c \<Longrightarrow> write_at i [b] c = c[i := b]"
  by (simp add: write_at_def upd_conv_take_nth_drop)

lemma slots_disjoint:
  assumes "s \<noteq> s'" and "n \<le> M" and "k \<le> (M :: nat)"
  shows "s' * M + k \<le> s * M \<or> s * M + n \<le> s' * M"
proof (cases "s < s'")
  case True
  then have "(s + 1) * M \<le> s' * M" by (intro mult_le_mono1) simp
  with assms(2) show ?thesis by simp
next
  case False
  with assms(1) have "(s' + 1) * M \<le> s * M" by (intro mult_le_mono1) simp
  with assms(3) show ?thesis by simp
qed

lemma slot_end: "s < QUEUE_CAPACITY \<Longrightarrow> n \<le> MAX_MSG_SIZE \<Longrightarrow> s * MAX_MSG_SIZE + n \<le> BUFFER_BYTES"
proof -
  assume "s < QUEUE_CAPACITY" "n \<le> MAX_MSG_SIZE"
  then have "(s + 1) * MAX_MSG_SIZE \<le> QUEUE_CAPACITY * MAX_MSG_SIZE" by (intro mult_le_mono1) simp
  with \<open>n \<le> MAX_MSG_SIZE\<close> show ?thesis by (simp add: BUFFER_BYTES_def mult.commute)
qed

lemma unat_size_bound: "unat (b :: u8) \<le> MAX_MSG_SIZE"
  using unsigned_less [of b, where 'a = nat] by (simp add: MAX_MSG_SIZE_def)

lemma take_min_length [simp]: "take (min (length x) n) x = take n x"
  by (simp add: min_def)

lemma unat_len: "n \<le> MAX_MSG_SIZE \<Longrightarrow> unat (of_nat n :: u8) = n"
  by (simp add: MAX_MSG_SIZE_def)

section \<open>First in, first out\<close>

text \<open>
  \<open>room n s\<close> says that \<open>n\<close> further appends are safe; messages are cut at 255 bytes.
\<close>

locale fifo_queue =
  fixes inv :: "'s \<Rightarrow> bool"
    and abs :: "'s \<Rightarrow> bytes list"
    and app :: "bytes \<Rightarrow> 's \<Rightarrow> 's"
    and pop :: "'s \<Rightarrow> bytes option \<times> 's"
    and room :: "nat \<Rightarrow> 's \<Rightarrow> bool"
  assumes app_ok: "inv s \<Longrightarrow> room (Suc n) s \<Longrightarrow>
      inv (app x s) \<and> abs (app x s) = abs s @ [take MAX_MSG_SIZE x] \<and> room n (app x s)"
    and pop_empty: "inv s \<Longrightarrow> abs s = [] \<Longrightarrow> fst (pop s) = None"
    and pop_Cons: "inv s \<Longrightarrow> abs s = x # xs \<Longrightarrow>
      fst (pop s) = Some x \<and> abs (snd (pop s)) = xs \<and> inv (snd (pop s))"
begin

lemma app_all:
  "inv s \<Longrightarrow> room (length xs) s \<Longrightarrow>
     inv (fold app xs s) \<and> abs (fold app xs s) = abs s @ map (take MAX_MSG_SIZE) xs"
proof (induction xs arbitrary: s)
  case Nil
  then show ?case by simp
next
  case (Cons x xs)
  then have "inv (app x s) \<and> abs (app x s) = abs s @ [take MAX_MSG_SIZE x] \<and> room (length xs) (app x s)"
    using app_ok [of s "length xs" x] by simp
  with Cons.IH [of "app x s"] show ?case by simp
qed

text \<open>Popping \<open>n\<close> times.\<close>

fun pops :: "nat \<Rightarrow> 's \<Rightarrow> bytes option list" where
  "pops 0 s = []"
| "pops (Suc n) s = fst (pop s) # pops n (snd (pop s))"

lemma pops_abs: "inv s \<Longrightarrow> n \<le> length (abs s) \<Longrightarrow> pops n s = map Some (take n (abs s))"
proof (induction n arbitrary: s)
  case 0
  then show ?case by simp
next
  case (Suc n)
  then obtain x xs where abs: "abs s = x # xs" by (cases "abs s") auto
  with Suc pop_Cons [OF Suc.prems(1) abs] show ?case by simp
qed

end

subsection \<open>The in-memory queue is one\<close>

definition q_slot :: "mem_queue \<Rightarrow> nat \<Rightarrow> bytes" where
  "q_slot q s = slice (s * MAX_MSG_SIZE) (s * MAX_MSG_SIZE + unat (q_sizes q ! s)) (q_buffer q)"

definition q_len :: "mem_queue \<Rightarrow> nat" where
  "q_len q = unat (q_next_offset q) - unat (q_base_offset q)"

definition queue_inv :: "mem_queue \<Rightarrow> bool" where
  "queue_inv q \<longleftrightarrow> length (q_buffer q) = BUFFER_BYTES \<and> length (q_sizes q) = QUEUE_CAPACITY
     \<and> q_head q = unat (q_base_offset q) mod QUEUE_CAPACITY
     \<and> q_tail q = unat (q_next_offset q) mod QUEUE_CAPACITY
     \<and> q_base_offset q \<le> q_next_offset q \<and> q_len q \<le> QUEUE_CAPACITY"

definition queue_abs :: "mem_queue \<Rightarrow> bytes list" where
  "queue_abs q = ring_read (unat (q_base_offset q)) (q_len q) (q_slot q)"

definition queue_room :: "nat \<Rightarrow> mem_queue \<Rightarrow> bool" where
  "queue_room n q \<longleftrightarrow> q_len q + n \<le> QUEUE_CAPACITY \<and> unat (q_next_offset q) + n < 2 ^ 64"

lemma q_slot_write:
  assumes "length (q_buffer q) = BUFFER_BYTES" "length (q_sizes q) = QUEUE_CAPACITY"
    and "t < QUEUE_CAPACITY" "len = min (length x) MAX_MSG_SIZE" "s < QUEUE_CAPACITY"
    and "q_buffer q' = write_at (t * MAX_MSG_SIZE) (take len x) (q_buffer q)"
    and "q_sizes q' = (q_sizes q)[t := of_nat len]"
  shows "q_slot q' s = (if s = t then take MAX_MSG_SIZE x else q_slot q s)"
proof (cases "s = t")
  case True
  have "t * MAX_MSG_SIZE \<le> BUFFER_BYTES" using slot_end [OF assms(3), of 0] by simp
  moreover have "unat (of_nat len :: u8) = len" using assms(4) by (intro unat_len) simp
  moreover have "take len x = take MAX_MSG_SIZE x" "length (take len x) = len" using assms(4) by auto
  ultimately show ?thesis
    using assms(1-3,6,7) True slice_write_at_same [of "t * MAX_MSG_SIZE" "q_buffer q" len "take len x"]
    by (simp add: q_slot_def)
next
  case False
  have "length (take len x) \<le> MAX_MSG_SIZE" using assms(4) by simp
  moreover from this have "t * MAX_MSG_SIZE + length (take len x) \<le> length (q_buffer q)"
    using slot_end [OF assms(3)] assms(1) by simp
  ultimately show ?thesis
    using False assms(2,3,5,6,7) slots_disjoint [of t s "length (take len x)" MAX_MSG_SIZE] unat_size_bound
    by (simp add: q_slot_def slice_write_at_other)
qed

text \<open>An append to a queue that is not full, and one to a full queue, which evicts the oldest.\<close>

lemma queue_append_not_full:
  assumes "queue_inv q" and "queue_room (Suc n) q"
  shows "queue_inv (snd (queue_append x q))
    \<and> queue_abs (snd (queue_append x q)) = queue_abs q @ [take MAX_MSG_SIZE x]
    \<and> queue_room n (snd (queue_append x q)) \<and> fst (queue_append x q) = q_next_offset q"
proof -
  let ?q = "snd (queue_append x q)"
  let ?next = "unat (q_next_offset q)" and ?base = "unat (q_base_offset q)"
  have le: "?base \<le> ?next" using assms(1) by (simp add: queue_inv_def word_le_nat_alt)
  have lt: "q_len q < QUEUE_CAPACITY" using assms(2) by (simp add: queue_room_def)
  have "unat (q_next_offset q - q_base_offset q) = q_len q"
    using le by (simp add: q_len_def unat_sub word_le_nat_alt)
  moreover have "unat (of_nat QUEUE_CAPACITY :: u64) = QUEUE_CAPACITY"
    by (simp add: QUEUE_CAPACITY_def)
  ultimately have nf: "q_next_offset q - q_base_offset q \<noteq> of_nat QUEUE_CAPACITY" using lt by auto
  have nx: "unat (q_next_offset q + 1) = ?next + 1"
    using assms(2) by (intro unat_Suc_small) (simp add: queue_room_def)
  have fields: "q_base_offset ?q = q_base_offset q" "q_next_offset ?q = q_next_offset q + 1"
    "q_head ?q = q_head q" "q_tail ?q = (q_tail q + 1) mod QUEUE_CAPACITY"
    "q_buffer ?q = write_at (q_tail q * MAX_MSG_SIZE) (take (min (length x) MAX_MSG_SIZE) x) (q_buffer q)"
    "q_sizes ?q = (q_sizes q)[q_tail q := of_nat (min (length x) MAX_MSG_SIZE)]"
    using nf by (simp_all add: queue_append_def Let_def)
  have len: "q_len ?q = Suc (q_len q)" using nx le by (simp add: q_len_def fields)
  have t: "q_tail q = (?base + q_len q) mod QUEUE_CAPACITY" "q_tail q < QUEUE_CAPACITY"
    using assms(1) le by (simp_all add: queue_inv_def q_len_def)
  have slot: "q_slot ?q s = (if s = q_tail q then take MAX_MSG_SIZE x else q_slot q s)"
    if "s < QUEUE_CAPACITY" for s
    using assms(1) that t(2) fields by (intro q_slot_write) (auto simp: queue_inv_def)
  have "ring_read ?base (Suc (q_len q)) (q_slot ?q) = ring_read ?base (q_len q) (q_slot q) @ [take MAX_MSG_SIZE x]"
    using lt slot t by (intro ring_read_append) auto
  then have "queue_abs ?q = queue_abs q @ [take MAX_MSG_SIZE x]"
    by (simp add: queue_abs_def len fields(1))
  moreover have "q_tail q * MAX_MSG_SIZE + length (take (min (length x) MAX_MSG_SIZE) x) \<le> BUFFER_BYTES"
    using t(2) by (intro slot_end) auto
  then have "queue_inv ?q"
    using assms(1) lt nx le len
    by (simp add: queue_inv_def fields word_le_nat_alt mod_Suc_eq Suc_eq_plus1 [symmetric] del: Suc_eq_plus1)
  moreover have "queue_room n ?q" using assms(2) nx len by (simp add: queue_room_def fields)
  moreover have "fst (queue_append x q) = q_next_offset q" using nf by (simp add: queue_append_def Let_def)
  ultimately show ?thesis by simp
qed

lemma queue_pop_Cons:
  assumes "queue_inv q" and "queue_abs q = x # xs"
  shows "fst (queue_pop_front q) = Some x \<and> queue_abs (snd (queue_pop_front q)) = xs
    \<and> queue_inv (snd (queue_pop_front q))"
proof -
  obtain n where n: "q_len q = Suc n"
    using assms(2) by (cases "q_len q") (auto simp: queue_abs_def ring_read_def)
  then have lt: "unat (q_base_offset q) < unat (q_next_offset q)" by (simp add: q_len_def)
  have b1: "unat (q_base_offset q + 1) = unat (q_base_offset q) + 1"
  proof (rule unat_Suc_small)
    have "unat (q_next_offset q) < 2 ^ LENGTH(64)" by (rule unsigned_less)
    with lt show "unat (q_base_offset q) + 1 < 2 ^ LENGTH(64)" by linarith
  qed
  let ?q = "q\<lparr>q_head := (q_head q + 1) mod QUEUE_CAPACITY, q_base_offset := q_base_offset q + 1\<rparr>"
  have pop: "queue_pop_front q = (Some (q_slot q (unat (q_base_offset q) mod QUEUE_CAPACITY)), ?q)"
    using lt by (simp add: queue_pop_front_def queue_read_at_def q_slot_def word_le_nat_alt
        word_less_nat_alt Let_def)
  have len: "q_len ?q = n" using n b1 by (simp add: q_len_def)
  have slot: "q_slot ?q = q_slot q" by (rule ext) (simp add: q_slot_def)
  have "x # xs = q_slot q (unat (q_base_offset q) mod QUEUE_CAPACITY)
      # ring_read ((unat (q_base_offset q) + 1) mod QUEUE_CAPACITY) n (q_slot q)"
    using assms(2) n ring_read_pop [of "unat (q_base_offset q)" n "q_slot q"] by (simp add: queue_abs_def)
  moreover have "ring_read ((unat (q_base_offset q) + 1) mod QUEUE_CAPACITY) n (q_slot q) = queue_abs ?q"
    using b1 len slot by (simp add: queue_abs_def ring_read_def mod_add_left_eq)
  moreover have "queue_inv ?q"
    using assms(1) lt b1 len n
    by (simp add: queue_inv_def q_len_def word_le_nat_alt mod_Suc_eq Suc_eq_plus1 [symmetric] del: Suc_eq_plus1)
  ultimately show ?thesis using pop by simp
qed

interpretation memq: fifo_queue queue_inv queue_abs "\<lambda>x q. snd (queue_append x q)" queue_pop_front queue_room
proof unfold_locales
  show "fst (queue_pop_front q) = None" if "queue_inv q" "queue_abs q = []" for q
    using that by (simp add: queue_pop_front_def queue_abs_def ring_read_def q_len_def word_le_nat_alt)
qed (auto simp: queue_append_not_full queue_pop_Cons)

subsection \<open>The memory-mapped queue is one\<close>

definition mq_slot :: "mmap_queue \<times> data_dir \<Rightarrow> nat \<Rightarrow> bytes" where
  "mq_slot s i =
     (let (q, d) = s; start = i * MAX_MSG_SIZE
      in slice start (start + unat (df_contents d (mq_sizes q) ! start)) (df_contents d (mq_arr q)))"

definition mq_h :: "mmap_queue \<times> data_dir \<Rightarrow> nat" where
  "mq_h s = unat (mq_head (fst s)) div MAX_MSG_SIZE"

definition mq_t :: "mmap_queue \<times> data_dir \<Rightarrow> nat" where
  "mq_t s = unat (mq_tail (fst s)) div MAX_MSG_SIZE"

definition mq_count :: "mmap_queue \<times> data_dir \<Rightarrow> nat" where
  "mq_count s = (if mq_h s \<le> mq_t s then mq_t s - mq_h s else QUEUE_CAPACITY - mq_h s + mq_t s)"

definition mq_inv :: "mmap_queue \<times> data_dir \<Rightarrow> bool" where
  "mq_inv s \<longleftrightarrow> unat (mq_head (fst s)) = mq_h s * MAX_MSG_SIZE \<and> mq_h s < QUEUE_CAPACITY
     \<and> unat (mq_tail (fst s)) = mq_t s * MAX_MSG_SIZE \<and> mq_t s < QUEUE_CAPACITY
     \<and> BUFFER_BYTES \<le> length (df_contents (snd s) (mq_arr (fst s)))
     \<and> BUFFER_BYTES \<le> length (df_contents (snd s) (mq_sizes (fst s)))
     \<and> df_get (snd s) (mq_meta (fst s)) = Some (to_be_bytes (mq_head (fst s)) @ to_be_bytes (mq_tail (fst s)))"

definition mq_abs :: "mmap_queue \<times> data_dir \<Rightarrow> bytes list" where
  "mq_abs s = ring_read (mq_h s) (mq_count s) (mq_slot s)"

definition mq_room :: "nat \<Rightarrow> mmap_queue \<times> data_dir \<Rightarrow> bool" where
  "mq_room n s \<longleftrightarrow> mq_count s + n < QUEUE_CAPACITY"

text \<open>Advancing an index by one slot.\<close>

definition advance :: "u32 \<Rightarrow> u32" where
  "advance i = (i + of_nat MAX_MSG_SIZE) mod of_nat BUFFER_BYTES"

lemma unat_advance:
  assumes "unat i = k * MAX_MSG_SIZE" and "k < QUEUE_CAPACITY"
  shows "unat (advance i) = ((k + 1) mod QUEUE_CAPACITY) * MAX_MSG_SIZE"
proof -
  have "k * MAX_MSG_SIZE + MAX_MSG_SIZE \<le> BUFFER_BYTES" using slot_end [OF assms(2)] by simp
  then have bound: "unat i + MAX_MSG_SIZE < 2 ^ 32"
    using assms(1) by (simp add: BUFFER_BYTES_def MAX_MSG_SIZE_def QUEUE_CAPACITY_def)
  have "unat (i + of_nat MAX_MSG_SIZE) = unat i + MAX_MSG_SIZE"
    using bound by (subst unat_add_small) (simp_all add: MAX_MSG_SIZE_def)
  moreover have "unat (of_nat BUFFER_BYTES :: u32) = BUFFER_BYTES"
    by (simp add: BUFFER_BYTES_def MAX_MSG_SIZE_def QUEUE_CAPACITY_def)
  ultimately have "unat (advance i) = (k * MAX_MSG_SIZE + MAX_MSG_SIZE) mod BUFFER_BYTES"
    using assms(1) by (simp add: advance_def unat_mod_distrib)
  also have "\<dots> = ((k + 1) * MAX_MSG_SIZE) mod (QUEUE_CAPACITY * MAX_MSG_SIZE)"
    by (simp add: BUFFER_BYTES_def algebra_simps)
  also have "\<dots> = ((k + 1) mod QUEUE_CAPACITY) * MAX_MSG_SIZE" by (rule mod_mult_mult2)
  finally show ?thesis .
qed

lemma mq_paths_distinct [simp]:
  "partition_metadata_path t g p \<noteq> under_arr_path t' g' p'"
  "partition_metadata_path t g p \<noteq> under_size_path t' g' p'"
  "under_arr_path t g p \<noteq> under_size_path t' g' p'"
  "under_arr_path t' g' p' \<noteq> partition_metadata_path t g p"
  "under_size_path t' g' p' \<noteq> partition_metadata_path t g p"
  "under_size_path t' g' p' \<noteq> under_arr_path t g p"
  by (simp_all add: path_keys)

lemma df_contents_write_other [store_simps]:
  "n \<noteq> name \<Longrightarrow> df_contents (write_file name off bs d) n = df_contents d n"
  "n \<noteq> name \<Longrightarrow> df_contents (file_write name off bs d) n = df_contents d n"
  by (simp_all add: df_contents_def store_simps)

lemma mq_count_eq: "mq_h s < QUEUE_CAPACITY \<Longrightarrow> mq_t s < QUEUE_CAPACITY \<Longrightarrow>
   mq_count s < QUEUE_CAPACITY \<and> (mq_h s + mq_count s) mod QUEUE_CAPACITY = mq_t s"
  by (auto simp: mq_count_def)

lemma mq_count_unique:
  assumes "h < QUEUE_CAPACITY" "t < QUEUE_CAPACITY" "n < QUEUE_CAPACITY" "(h + n) mod QUEUE_CAPACITY = t"
  shows "(if h \<le> t then t - h else QUEUE_CAPACITY - h + t) = n"
proof (cases "h + n < QUEUE_CAPACITY")
  case True
  with assms show ?thesis by auto
next
  case False
  then have "(h + n) mod QUEUE_CAPACITY = h + n - QUEUE_CAPACITY"
    using assms by (simp add: le_mod_geq not_less)
  with False assms show ?thesis by auto
qed

text \<open>What an append leaves in the files, for a queue with its invariant.\<close>

lemma mq_append_eq:
  assumes "mq_inv (q, d)"
  shows "mq_append x (q, d) =
    (Inr (mq_live_len q), q\<lparr>mq_tail := advance (mq_tail q)\<rparr>,
     write_u32 (mq_meta q) 4 (advance (mq_tail q))
       (write_file (mq_sizes q) (unat (mq_tail q)) [of_nat (min (length x) MAX_MSG_SIZE)]
         (write_file (mq_arr q) (unat (mq_tail q)) (take (min (length x) MAX_MSG_SIZE) x) d)))"
proof -
  have t: "unat (mq_tail q) = mq_t (q, d) * MAX_MSG_SIZE" "mq_t (q, d) < QUEUE_CAPACITY"
    using assms by (simp_all add: mq_inv_def)
  have "unat (mq_tail q) + MAX_MSG_SIZE \<le> BUFFER_BYTES" using slot_end [OF t(2)] t(1) by simp
  moreover from this have "\<not> unat (mq_tail q) + min (length x) MAX_MSG_SIZE > BUFFER_BYTES"
    "\<not> unat (mq_tail q) \<ge> BUFFER_BYTES"
    using capacity_pos(2) by linarith+
  ultimately show ?thesis by (simp add: mq_append_def advance_def Let_def)
qed

lemma meta_write_tail:
  "write_at 4 (to_be_bytes t') (to_be_bytes (h :: u32) @ to_be_bytes (t :: u32)) = to_be_bytes h @ to_be_bytes (t' :: u32)"
  using write_at_prefix [of "to_be_bytes h" 4 "to_be_bytes t" "to_be_bytes t'" "[]"] by simp

lemma meta_write_head:
  "write_at 0 (to_be_bytes h') (to_be_bytes (h :: u32) @ to_be_bytes (t :: u32)) = to_be_bytes (h' :: u32) @ to_be_bytes t"
  using write_at_prefix [of "[]" 0 "to_be_bytes h" "to_be_bytes h'" "to_be_bytes t"] by simp

lemma mq_append_state:
  assumes inv: "mq_inv (q, d)" and s': "s' = snd (mq_append x (q, d))"
  shows "mq_inv s'" and "mq_h s' = mq_h (q, d)" and "mq_t s' = (mq_t (q, d) + 1) mod QUEUE_CAPACITY"
    and "\<And>i. i < QUEUE_CAPACITY \<Longrightarrow>
      mq_slot s' i = (if i = mq_t (q, d) then take MAX_MSG_SIZE x else mq_slot (q, d) i)"
proof -
  define len where "len = min (length x) MAX_MSG_SIZE"
  let ?t = "mq_t (q, d)" and ?arr = "df_contents d (mq_arr q)" and ?sz = "df_contents d (mq_sizes q)"
  have t: "unat (mq_tail q) = ?t * MAX_MSG_SIZE" "?t < QUEUE_CAPACITY" using inv by (simp_all add: mq_inv_def)
  have big: "BUFFER_BYTES \<le> length ?arr" "BUFFER_BYTES \<le> length ?sz" using inv by (simp_all add: mq_inv_def)
  have adv: "unat (advance (mq_tail q)) = ((?t + 1) mod QUEUE_CAPACITY) * MAX_MSG_SIZE"
    by (rule unat_advance [OF t])
  have len: "len \<le> MAX_MSG_SIZE" "take len x = take MAX_MSG_SIZE x" "length (take len x) = len"
    by (auto simp: len_def)
  have fits: "?t * MAX_MSG_SIZE + len \<le> length ?arr" "?t * MAX_MSG_SIZE < length ?sz"
    using slot_end [OF t(2), of MAX_MSG_SIZE] len(1) big capacity_pos(2) by linarith+
  define d' where "d' = write_u32 (mq_meta q) 4 (advance (mq_tail q))
       (write_file (mq_sizes q) (unat (mq_tail q)) [of_nat len]
         (write_file (mq_arr q) (unat (mq_tail q)) (take len x) d))"
  have s: "s' = (q\<lparr>mq_tail := advance (mq_tail q)\<rparr>, d')"
    using mq_append_eq [OF inv, of x] s' by (simp add: len_def d'_def)
  have contents: "df_contents d' (mq_arr q) = write_at (?t * MAX_MSG_SIZE) (take len x) ?arr"
    "df_contents d' (mq_sizes q) = ?sz[?t * MAX_MSG_SIZE := of_nat len]"
    "df_get d' (mq_meta q) = Some (to_be_bytes (mq_head q) @ to_be_bytes (advance (mq_tail q)))"
    using inv fits t
    by (simp_all add: d'_def write_u32_def store_simps write_at_single meta_write_tail mq_inv_def)
  show h: "mq_h s' = mq_h (q, d)" by (simp add: s mq_h_def)
  show tt: "mq_t s' = (?t + 1) mod QUEUE_CAPACITY" using adv by (simp add: s mq_t_def)
  show "mq_inv s'"
    using inv adv h tt big fits len(3) unfolding mq_inv_def by (simp add: s contents)
  show "mq_slot s' i = (if i = ?t then take MAX_MSG_SIZE x else mq_slot (q, d) i)"
    if i: "i < QUEUE_CAPACITY" for i
  proof (cases "i = ?t")
    case True
    have "unat (of_nat len :: u8) = len" using len(1) by (rule unat_len)
    then show ?thesis
      using True fits len slice_write_at_same [of "?t * MAX_MSG_SIZE" ?arr len "take len x"]
      by (simp add: mq_slot_def s contents)
  next
    case False
    then have "?t * MAX_MSG_SIZE \<noteq> i * MAX_MSG_SIZE" by simp
    with False show ?thesis
      using fits len slots_disjoint [of ?t i len MAX_MSG_SIZE] unat_size_bound
      by (simp add: mq_slot_def s contents slice_write_at_other)
  qed
qed

lemma mq_append_ok:
  assumes "mq_inv s" and "mq_room (Suc n) s"
  shows "mq_inv (snd (mq_append x s)) \<and> mq_abs (snd (mq_append x s)) = mq_abs s @ [take MAX_MSG_SIZE x]
    \<and> mq_room n (snd (mq_append x s))"
proof -
  obtain q d where s: "s = (q, d)" by (cases s)
  let ?s = "snd (mq_append x s)"
  note st = mq_append_state [OF assms(1) [unfolded s] refl, where x = x, folded s]
  have ht: "mq_h s < QUEUE_CAPACITY" "mq_t s < QUEUE_CAPACITY" using assms(1) by (simp_all add: mq_inv_def)
  note cnt = mq_count_eq [OF ht]
  have lt: "Suc (mq_count s) < QUEUE_CAPACITY" using assms(2) by (simp add: mq_room_def)
  have "(mq_h s + Suc (mq_count s)) mod QUEUE_CAPACITY = (mq_t s + 1) mod QUEUE_CAPACITY"
    using cnt by (metis add_Suc_right mod_Suc_eq Suc_eq_plus1)
  then have count: "mq_count ?s = Suc (mq_count s)"
    unfolding mq_count_def [of ?s] st(2,3) using ht(1) lt by (intro mq_count_unique) auto
  have "ring_read (mq_h s) (Suc (mq_count s)) (mq_slot ?s) = ring_read (mq_h s) (mq_count s) (mq_slot s) @ [take MAX_MSG_SIZE x]"
    using st(4) cnt ht(2) by (intro ring_read_append) auto
  then show ?thesis using st(1,2) count assms(2) by (simp add: mq_abs_def mq_room_def)
qed

lemma mq_pop_Cons:
  assumes inv: "mq_inv s" and abs: "mq_abs s = x # xs"
  shows "fst (mq_pop_front s) = Inr (Some x) \<and> mq_abs (snd (mq_pop_front s)) = xs
    \<and> mq_inv (snd (mq_pop_front s))"
proof -
  obtain q d where s: "s = (q, d)" by (cases s)
  obtain n where n: "mq_count s = Suc n"
    using abs by (cases "mq_count s") (auto simp: mq_abs_def ring_read_def)
  have ht: "mq_h s < QUEUE_CAPACITY" "mq_t s < QUEUE_CAPACITY" "unat (mq_head q) = mq_h s * MAX_MSG_SIZE"
    using inv s by (simp_all add: mq_inv_def)
  note cnt = mq_count_eq [OF ht(1,2)]
  have ne: "mq_head q \<noteq> mq_tail q" using n s by (auto simp: mq_count_def mq_h_def mq_t_def)
  let ?sz = "unat (df_contents d (mq_sizes q) ! unat (mq_head q))"
  have "mq_h s * MAX_MSG_SIZE + MAX_MSG_SIZE \<le> BUFFER_BYTES" using slot_end [OF ht(1)] by simp
  then have fits: "\<not> (unat (mq_head q) \<ge> BUFFER_BYTES \<or> unat (mq_head q) + ?sz > BUFFER_BYTES)"
    using ht(3) unat_size_bound [of "df_contents d (mq_sizes q) ! unat (mq_head q)"] capacity_pos(2)
    by linarith
  let ?d = "write_u32 (mq_meta q) 0 (advance (mq_head q)) d"
  let ?s = "(q\<lparr>mq_head := advance (mq_head q)\<rparr>, ?d)"
  have pop: "mq_pop_front s = (Inr (Some (mq_slot s (mq_h s))), ?s)"
    using ne fits ht(3) by (simp add: mq_pop_front_def s advance_def mq_slot_def Let_def)
  have adv: "unat (advance (mq_head q)) = ((mq_h s + 1) mod QUEUE_CAPACITY) * MAX_MSG_SIZE"
    by (rule unat_advance [OF ht(3,1)])
  have h: "mq_h ?s = (mq_h s + 1) mod QUEUE_CAPACITY" and t: "mq_t ?s = mq_t s"
    using adv by (simp_all add: mq_h_def mq_t_def s)
  have "((mq_h s + 1) mod QUEUE_CAPACITY + n) mod QUEUE_CAPACITY = mq_t s"
    using cnt n by (simp add: mod_add_left_eq)
  then have count: "mq_count ?s = n"
    unfolding mq_count_def [of ?s] h t using ht(2) cnt n by (intro mq_count_unique) auto
  have slot: "mq_slot ?s = mq_slot s"
    by (rule ext) (simp add: mq_slot_def s write_u32_def store_simps)
  have "mq_inv ?s"
    using inv h t adv s unfolding mq_inv_def
    by (simp add: write_u32_def store_simps meta_write_head)
  moreover have "mq_abs s = mq_slot s (mq_h s) # mq_abs ?s"
    using ring_read_pop [of "mq_h s" n "mq_slot s"] ht(1) n count h slot by (simp add: mq_abs_def)
  ultimately show ?thesis using pop abs by simp
qed

interpretation mmapq: fifo_queue mq_inv mq_abs "\<lambda>x s. snd (mq_append x s)"
  "\<lambda>s. (projr (fst (mq_pop_front s)), snd (mq_pop_front s))" mq_room
proof unfold_locales
  show "fst (projr (fst (mq_pop_front s)), snd (mq_pop_front s)) = None" if "mq_inv s" "mq_abs s = []" for s
  proof -
    have "mq_head (fst s) = mq_tail (fst s)"
      using that by (auto simp: mq_abs_def ring_read_def mq_count_def mq_inv_def word_unat_eq_iff split: if_splits)
    then show ?thesis by (simp add: mq_pop_front_def case_prod_unfold)
  qed
qed (auto simp: mq_append_ok mq_pop_Cons)

section \<open>Properties\<close>

lemma mq_live_len_count:
  assumes "mq_inv (q, d)"
  shows "unat (mq_live_len q) = mq_count (q, d)"
proof -
  let ?h = "mq_h (q, d)" and ?t = "mq_t (q, d)"
  have h: "unat (mq_head q) = ?h * MAX_MSG_SIZE" "?h < QUEUE_CAPACITY"
    and t: "unat (mq_tail q) = ?t * MAX_MSG_SIZE" "?t < QUEUE_CAPACITY"
    using assms by (simp_all add: mq_inv_def)
  have m: "unat (of_nat MAX_MSG_SIZE :: u32) = MAX_MSG_SIZE" by (simp add: MAX_MSG_SIZE_def)
  have b: "unat (of_nat BUFFER_BYTES :: u32) = BUFFER_BYTES"
    by (simp add: BUFFER_BYTES_def MAX_MSG_SIZE_def QUEUE_CAPACITY_def)
  have uc: "unat (ucast w :: u64) = unat w" for w :: u32
  proof -
    have "unat w < 2 ^ LENGTH(32)" by (rule unsigned_less)
    then show ?thesis by (simp add: unsigned_ucast_eq take_bit_eq_mod)
  qed
  have le: "mq_head q \<le> mq_tail q \<longleftrightarrow> ?h \<le> ?t"
    using h(1) t(1) capacity_pos(2) by (simp add: word_le_nat_alt)
  show ?thesis
  proof (cases "?h \<le> ?t")
    case True
    then have "unat (mq_tail q - mq_head q) = (?t - ?h) * MAX_MSG_SIZE"
      using le h t by (simp add: unat_sub diff_mult_distrib)
    with True le show ?thesis by (simp add: mq_live_len_def mq_count_def uc unat_div_distrib m)
  next
    case False
    have hb: "?h * MAX_MSG_SIZE \<le> BUFFER_BYTES" using slot_end [OF h(2), of 0] by simp
    then have "unat (of_nat BUFFER_BYTES - mq_head q) = (QUEUE_CAPACITY - ?h) * MAX_MSG_SIZE"
      using b h(1) by (simp add: unat_sub word_le_nat_alt diff_mult_distrib2 BUFFER_BYTES_def mult.commute)
    moreover have "(QUEUE_CAPACITY - ?h) * MAX_MSG_SIZE + ?t * MAX_MSG_SIZE < 2 ^ 32"
    proof -
      have "(QUEUE_CAPACITY - ?h + ?t) * MAX_MSG_SIZE \<le> QUEUE_CAPACITY * MAX_MSG_SIZE"
        using False h(2) by (intro mult_le_mono1) simp
      moreover have "QUEUE_CAPACITY * MAX_MSG_SIZE < 2 ^ 32"
        by (simp add: MAX_MSG_SIZE_def QUEUE_CAPACITY_def)
      ultimately show ?thesis unfolding add_mult_distrib by linarith
    qed
    ultimately have "unat (of_nat BUFFER_BYTES - mq_head q + mq_tail q) = (QUEUE_CAPACITY - ?h + ?t) * MAX_MSG_SIZE"
      using t(1) by (simp add: unat_add_small add_mult_distrib)
    with False le show ?thesis
      by (simp add: mq_live_len_def mq_count_def uc unat_div_distrib m)
  qed
qed

fun mq_pops :: "nat \<Rightarrow> mmap_queue \<times> data_dir \<Rightarrow> bytes option io_result list" where
  "mq_pops 0 s = []"
| "mq_pops (Suc n) s = fst (mq_pop_front s) # mq_pops n (snd (mq_pop_front s))"

lemma mq_pops_eq: "mq_inv s \<Longrightarrow> n \<le> length (mq_abs s) \<Longrightarrow> mq_pops n s = map Inr (mmapq.pops n s)"
proof (induction n arbitrary: s)
  case 0
  then show ?case by simp
next
  case (Suc n)
  then obtain x xs where abs: "mq_abs s = x # xs" by (cases "mq_abs s") auto
  from mq_pop_Cons [OF Suc.prems(1) abs] Suc abs show ?case by simp
qed

text \<open>A queue opened for the first time is empty and keeps the invariant.\<close>

lemma mq_open_fresh:
  assumes "df_get d (partition_metadata_path t g p) = None" "df_get d (under_arr_path t g p) = None"
    "df_get d (under_size_path t g p) = None"
  shows "\<exists>q d'. mq_open t g p d = (Inr q, d') \<and> mq_inv (q, d') \<and> mq_abs (q, d') = []"
proof -
  let ?q = "\<lparr>mq_topic = t, mq_group = g, mq_partition = p, mq_head = 0, mq_tail = 0\<rparr>"
  have z: "to_be_bytes (0 :: u32) = replicate 4 0" by (simp add: to_be_bytes_def be_of_nat_zero)
  have w: "write_at 4 (to_be_bytes (0 :: u32)) (write_at 0 (to_be_bytes (0 :: u32)) (set_len 8 []))
      = to_be_bytes (0 :: u32) @ to_be_bytes (0 :: u32)"
    by (simp add: set_len_def write_at_def z)
  have rd: "file_read_u32 (to_be_bytes (0 :: u32) @ to_be_bytes (0 :: u32)) 0 = Inr 0"
    "file_read_u32 (to_be_bytes (0 :: u32) @ to_be_bytes (0 :: u32)) 4 = Inr 0"
    by (simp_all add: codec_simps)
  have none: "df_contents d (partition_metadata_path t g p) = []" "df_contents d (under_arr_path t g p) = []"
    "df_contents d (under_size_path t g p) = []"
    using assms by (simp_all add: df_contents_def)
  have pos: "0 < BUFFER_BYTES" by (rule buffer_bytes_pos)
  obtain d' where op: "mq_open t g p d = (Inr ?q, d')"
    and d': "df_contents d' (under_arr_path t g p) = set_len BUFFER_BYTES []"
      "df_contents d' (under_size_path t g p) = set_len BUFFER_BYTES []"
      "df_get d' (partition_metadata_path t g p) = Some (to_be_bytes (0 :: u32) @ to_be_bytes (0 :: u32))"
    using none pos
    by (simp add: mq_open_def open_or_create_mmap_def write_u32_def store_simps w rd Let_def)
  have "mq_inv (?q, d')"
    using d' by (simp add: mq_inv_def mq_h_def mq_t_def set_len_def)
  moreover have "mq_abs (?q, d') = []"
    by (simp add: mq_abs_def ring_read_def mq_count_def mq_h_def mq_t_def)
  ultimately show ?thesis using op by blast
qed

text \<open>
  C34: the memory-mapped queue is first in, first out.  Messages appended to a queue that
  keeps fewer than 10000 messages in all are popped behind the ones already there, in the
  order of the appends, each cut at 255 bytes, and no pop panics.
\<close>

theorem mmap_queue_fifo:
  assumes "mq_inv s" and "length (mq_abs s) + length xs < QUEUE_CAPACITY"
  shows "mq_pops (length (mq_abs s) + length xs) (fold (\<lambda>x s. snd (mq_append x s)) xs s)
    = map (\<lambda>x. Inr (Some x)) (mq_abs s @ map (take MAX_MSG_SIZE) xs)"
proof -
  have "mq_room (length xs) s" using assms(2) by (simp add: mq_room_def mq_abs_def)
  from mmapq.app_all [OF assms(1) this] show ?thesis
    using mmapq.pops_abs [of "fold (\<lambda>x s. snd (mq_append x s)) xs s" "length (mq_abs s) + length xs"]
    by (simp add: mq_pops_eq)
qed

theorem mmap_queue_fifo_witness:
  "\<exists>q d. mq_open 1 2 1 empty_dir = (Inr q, d) \<and>
     mq_pops 2 (fold (\<lambda>x s. snd (mq_append x s)) [[97], [98, 99]] (q, d)) = [Inr (Some [97]), Inr (Some [98, 99])]"
proof -
  obtain q d where q: "mq_open 1 2 1 empty_dir = (Inr q, d)" "mq_inv (q, d)" "mq_abs (q, d) = []"
    using mq_open_fresh [of empty_dir 1 2 1] by (auto simp: empty_dir_def df_get_def)
  have "mq_pops (length (mq_abs (q, d)) + length [[97 :: u8], [98, 99]])
      (fold (\<lambda>x s. snd (mq_append x s)) [[97], [98, 99]] (q, d))
    = map (\<lambda>x. Inr (Some x)) (mq_abs (q, d) @ map (take MAX_MSG_SIZE) [[97], [98, 99]])"
    by (rule mmap_queue_fifo [OF q(2)]) (simp add: q(3) QUEUE_CAPACITY_def)
  with q show ?thesis by (simp add: MAX_MSG_SIZE_def numeral_2_eq_2)
qed

text \<open>
  Overflow loses everything.  An append to a queue that already holds 9999 messages
  moves the tail onto the head: the queue reports success and is empty afterwards.
\<close>

theorem mmap_queue_overflow:
  assumes "mq_inv s" and "length (mq_abs s) = QUEUE_CAPACITY - 1"
  shows "is_ok (fst (mq_append x s)) \<and> mq_abs (snd (mq_append x s)) = []
    \<and> mq_is_empty (fst (snd (mq_append x s)))"
proof -
  obtain q d where s: "s = (q, d)" by (cases s)
  let ?s = "snd (mq_append x s)"
  note st = mq_append_state [OF assms(1) [unfolded s] refl, where x = x, folded s]
  have ht: "mq_h s < QUEUE_CAPACITY" "mq_t s < QUEUE_CAPACITY" using assms(1) by (simp_all add: mq_inv_def)
  have "mq_count s = QUEUE_CAPACITY - 1" using assms(2) by (simp add: mq_abs_def)
  then have "(mq_h s + QUEUE_CAPACITY) mod QUEUE_CAPACITY = (mq_t s + 1) mod QUEUE_CAPACITY"
    using mq_count_eq [OF ht] capacity_pos(1)
    by (metis One_nat_def Suc_eq_plus1 add_Suc_right mod_Suc_eq Suc_pred)
  then have eq: "mq_t ?s = mq_h ?s" using st(2,3) ht(1) by simp
  then have "mq_head (fst ?s) = mq_tail (fst ?s)"
    using st(1) by (auto simp: mq_inv_def word_unat_eq_iff)
  moreover have "mq_abs ?s = []" using eq by (simp add: mq_abs_def mq_count_def ring_read_def)
  moreover have "is_ok (fst (mq_append x s))" using mq_append_eq [OF assms(1) [unfolded s]] s by simp
  ultimately show ?thesis by (simp add: mq_is_empty_def)
qed

theorem mmap_queue_overflow_witness:
  "\<exists>s. length (mq_abs s) = QUEUE_CAPACITY - 1 \<and> mq_abs (snd (mq_append [1] s)) = []"
proof -
  obtain q d where q: "mq_inv (q, d)" "mq_abs (q, d) = []"
    using mq_open_fresh [of empty_dir 1 2 1] by (auto simp: empty_dir_def df_get_def)
  let ?xs = "replicate (QUEUE_CAPACITY - 1) [7]"
  let ?s = "fold (\<lambda>x s. snd (mq_append x s)) ?xs (q, d)"
  have "mq_count (q, d) = 0" using q(2) length_ring_read by (metis list.size(3) mq_abs_def)
  then have "mq_room (length ?xs) (q, d)" by (simp add: mq_room_def)
  from mmapq.app_all [OF q(1) this] have "mq_inv ?s" "length (mq_abs ?s) = QUEUE_CAPACITY - 1"
    using q(2) by simp_all
  with mmap_queue_overflow [of ?s "[1]"] show ?thesis by blast
qed

text \<open>
  The queue survives a restart of the process.  Opening the queue again finds the same
  head and tail and leaves the directory as it is, so the messages are the same.
\<close>

theorem mmap_queue_reopen:
  assumes "mq_inv (q, d)"
  shows "mq_open (mq_topic q) (mq_group q) (mq_partition q) d = (Inr q, d)"
proof -
  let ?b = "to_be_bytes (mq_head q) @ to_be_bytes (mq_tail q)"
  have meta: "df_get d (mq_meta q) = Some ?b"
    and big: "BUFFER_BYTES \<le> length (df_contents d (mq_arr q))" "BUFFER_BYTES \<le> length (df_contents d (mq_sizes q))"
    using assms by (simp_all add: mq_inv_def)
  have "file_read_u32 ?b 0 = Inr (mq_head q)" "file_read_u32 ?b 4 = Inr (mq_tail q)"
    by (simp_all add: codec_simps)
  moreover have "df_exists d (mq_arr q)" "df_exists d (mq_sizes q)" "df_exists d (mq_meta q)"
    using big meta buffer_bytes_pos by (auto simp: df_exists_def df_contents_def split: option.splits)
  ultimately show ?thesis
    using meta big by (simp add: mq_open_def open_or_create_mmap_def open_create_def not_less)
qed

theorem mmap_queue_reopen_witness:
  "\<exists>q d. mq_open 1 2 1 empty_dir = (Inr q, d) \<and> mq_open (mq_topic q) (mq_group q) (mq_partition q) d = (Inr q, d)"
proof -
  obtain q d where "mq_open 1 2 1 empty_dir = (Inr q, d)" "mq_inv (q, d)"
    using mq_open_fresh [of empty_dir 1 2 1] by (auto simp: empty_dir_def df_get_def)
  with mmap_queue_reopen [of q d] show ?thesis by blast
qed

text \<open>
  The in-memory ring evicts the oldest.  An append to a full queue drops exactly the
  front message and puts the new one behind the others.
\<close>

theorem queue_append_evicts:
  assumes "queue_inv q" and "length (queue_abs q) = QUEUE_CAPACITY"
    and "unat (q_next_offset q) + 1 < 2 ^ 64"
  shows "queue_abs (snd (queue_append x q)) = tl (queue_abs q) @ [take MAX_MSG_SIZE x]
    \<and> queue_inv (snd (queue_append x q))"
proof -
  have len: "q_len q = QUEUE_CAPACITY" using assms(2) by (simp add: queue_abs_def)
  have le: "q_base_offset q \<le> q_next_offset q" using assms(1) by (simp add: queue_inv_def)
  have lt: "unat (q_base_offset q) < unat (q_next_offset q)"
    using len capacity_pos(1) unfolding q_len_def by linarith
  obtain m ms where ms: "queue_abs q = m # ms" using assms(2) capacity_pos(1) by (cases "queue_abs q") auto
  let ?q = "snd (queue_pop_front q)"
  note pop = queue_pop_Cons [OF assms(1) ms]
  have "unat (q_next_offset q - q_base_offset q) = unat (of_nat QUEUE_CAPACITY :: u64)"
    using le len by (simp add: unat_sub q_len_def QUEUE_CAPACITY_def)
  then have full: "q_next_offset q - q_base_offset q = of_nat QUEUE_CAPACITY" by (simp only: word_unat_eq_iff)
  have q': "?q = q\<lparr>q_head := (q_head q + 1) mod QUEUE_CAPACITY, q_base_offset := q_base_offset q + 1\<rparr>"
    using lt by (simp add: queue_pop_front_def queue_read_at_def word_le_nat_alt word_less_nat_alt Let_def)
  have "length (queue_abs ?q) = QUEUE_CAPACITY - 1" using pop ms assms(2) by simp
  then have len': "q_len ?q = QUEUE_CAPACITY - 1" by (simp add: queue_abs_def)
  then have "q_next_offset ?q - q_base_offset ?q \<noteq> of_nat QUEUE_CAPACITY"
    using full capacity_pos(1) by (simp add: q' algebra_simps)
  then have "snd (queue_append x q) = snd (queue_append x ?q)"
    using full by (simp add: queue_append_def q' Let_def)
  moreover have "queue_room (Suc 0) ?q"
    using len' assms(3) capacity_pos(1) by (simp add: queue_room_def q')
  ultimately show ?thesis using queue_append_not_full [of ?q 0 x] pop ms by simp
qed

lemma queue_new_inv: "queue_inv queue_new" "queue_abs queue_new = []"
  by (simp_all add: queue_inv_def queue_new_def queue_abs_def q_len_def ring_read_def)

theorem queue_append_evicts_witness:
  "\<exists>q. length (queue_abs q) = QUEUE_CAPACITY
     \<and> queue_abs (snd (queue_append [1] q)) = tl (queue_abs q) @ [take MAX_MSG_SIZE [1]]"
proof -
  let ?xs = "replicate QUEUE_CAPACITY [7]"
  let ?q = "fold (\<lambda>x q. snd (queue_append x q)) ?xs queue_new"
  have fill: "q_next_offset (fold (\<lambda>x q. snd (queue_append x q)) xs q) = q_next_offset q + of_nat (length xs)"
    for xs q by (induction xs arbitrary: q) (simp_all add: queue_append_def Let_def algebra_simps)
  have "queue_room (length ?xs) queue_new"
    by (simp add: queue_room_def q_len_def queue_new_def QUEUE_CAPACITY_def)
  from memq.app_all [OF queue_new_inv(1) this] have "queue_inv ?q" "length (queue_abs ?q) = QUEUE_CAPACITY"
    by (simp_all add: queue_new_inv(2))
  moreover have "unat (q_next_offset ?q) + 1 < 2 ^ 64"
    unfolding fill by (simp add: queue_new_def QUEUE_CAPACITY_def)
  ultimately show ?thesis using queue_append_evicts [of ?q "[1]"] by blast
qed

end
