(* ===== verification/Topic.thy ===== *)
theory Topic
  imports Ring_Queue
begin

text \<open>
  The legacy push path of \<open>dmq-core\<close>: partitions (\<open>partition.rs\<close>), consumer groups
  (\<open>cgroup.rs\<close>) and topics (the second half of \<open>topic.rs\<close>), all over memory-mapped queues
  in the data directory.  The loop that drains the staging queue has as much fuel as a
  queue has slots; the theorem on draining shows that it is enough.
\<close>

section \<open>Partitions\<close>

definition partition_open :: "u16 \<Rightarrow> u16 \<Rightarrow> u16 \<Rightarrow> data_dir \<Rightarrow> mmap_queue io_result \<times> data_dir" where
  "partition_open t g p d = mq_open t g p d"

definition partition_append ::
  "bytes \<Rightarrow> mmap_queue \<times> data_dir \<Rightarrow> u64 io_result \<times> mmap_queue \<times> data_dir" where
  "partition_append payload s = mq_append payload s"

definition partition_pop_front ::
  "mmap_queue \<times> data_dir \<Rightarrow> bytes option io_result \<times> mmap_queue \<times> data_dir" where
  "partition_pop_front s = mq_pop_front s"

definition partition_len :: "mmap_queue \<Rightarrow> u64" where
  "partition_len q = mq_live_len q"

definition partition_is_empty :: "mmap_queue \<Rightarrow> bool" where
  "partition_is_empty q \<longleftrightarrow> mq_is_empty q"

section \<open>Consumer groups\<close>

record consumer_group =
  cg_group_id :: u16
  cg_partitions :: "mmap_queue list"
  cg_consumer_count :: u32

fun open_partitions ::
  "u16 \<Rightarrow> u16 \<Rightarrow> nat \<Rightarrow> nat \<Rightarrow> data_dir \<Rightarrow> mmap_queue list io_result \<times> data_dir" where
  "open_partitions t g i 0 d = (Inr [], d)"
| "open_partitions t g i (Suc n) d =
     sbind (partition_open t g (of_nat i + 1) d) (\<lambda>q d1.
     sbind (open_partitions t g (Suc i) n d1) (\<lambda>qs d2. (Inr (q # qs), d2)))"

definition cgroup_load :: "u16 \<Rightarrow> u16 \<Rightarrow> data_dir \<Rightarrow> consumer_group io_result \<times> data_dir" where
  "cgroup_load t g d =
     sbind (load_cgroup_partition_count d t g, d) (\<lambda>count d1.
     let partition_count = max count 1
     in sbind (open_partitions t g 0 (unat partition_count) d1) (\<lambda>qs d2.
        (Inr \<lparr>cg_group_id = g, cg_partitions = qs, cg_consumer_count = partition_count\<rparr>, d2)))"

definition cgroup_create_new :: "u16 \<Rightarrow> u16 \<Rightarrow> data_dir \<Rightarrow> consumer_group io_result \<times> data_dir" where
  "cgroup_create_new t g d =
     sbind (partition_open t g 1 (store_cgroup_partition_count t g 1 d)) (\<lambda>q d2.
     (Inr \<lparr>cg_group_id = g, cg_partitions = [q], cg_consumer_count = 0\<rparr>, d2))"

definition assign_partition ::
  "u16 \<Rightarrow> consumer_group \<times> data_dir \<Rightarrow> u16 io_result \<times> consumer_group \<times> data_dir" where
  "assign_partition t s =
     (let (g, d) = s;
          g1 = g\<lparr>cg_consumer_count := cg_consumer_count g + 1\<rparr>
      in if length (cg_partitions g1) < unat (cg_consumer_count g1) then
           (case partition_open t (cg_group_id g1) (of_nat (length (cg_partitions g1)) + 1) d of
              (Inl e, d1) \<Rightarrow> (Inl e, g1, d1)
            | (Inr q, d1) \<Rightarrow>
                let g2 = g1\<lparr>cg_partitions := cg_partitions g1 @ [q]\<rparr>
                in (Inr (of_nat (length (cg_partitions g2) - 1)), g2,
                    store_cgroup_partition_count t (cg_group_id g2) (of_nat (length (cg_partitions g2))) d1))
         else (Inr (of_nat (length (cg_partitions g1) - 1)), g1, d))"

fun smallest_loop :: "nat \<Rightarrow> mmap_queue list \<Rightarrow> nat \<Rightarrow> u64 \<Rightarrow> nat" where
  "smallest_loop idx [] best min_len = best"
| "smallest_loop idx (q # qs) best min_len =
     (if partition_len q < min_len then smallest_loop (Suc idx) qs idx (partition_len q)
      else smallest_loop (Suc idx) qs best min_len)"

definition smallest_partition_index :: "consumer_group \<Rightarrow> nat io_result" where
  "smallest_partition_index g =
     (case cg_partitions g of
        [] \<Rightarrow> Inl (Panic ''index out of bounds'')
      | q # qs \<Rightarrow> Inr (smallest_loop 1 qs 0 (partition_len q)))"

section \<open>Topics\<close>

record topic =
  tp_topic_id :: u16
  tp_staging :: mmap_queue
  tp_cgroups :: "consumer_group list"

fun load_groups :: "u16 \<Rightarrow> u16 list \<Rightarrow> data_dir \<Rightarrow> consumer_group list io_result \<times> data_dir" where
  "load_groups t [] d = (Inr [], d)"
| "load_groups t (g # gs) d =
     sbind (cgroup_load t g d) (\<lambda>c d1.
     sbind (load_groups t gs d1) (\<lambda>cs d2. (Inr (c # cs), d2)))"

definition topic_load :: "u16 \<Rightarrow> data_dir \<Rightarrow> topic io_result \<times> data_dir" where
  "topic_load t d =
     sbind (mq_open t STAGING_GROUP_ID STAGING_PARTITION_ID d) (\<lambda>staging d1.
     sbind (load_topic_groups d1 t, d1) (\<lambda>group_ids d2.
     sbind (load_groups t group_ids d2) (\<lambda>cs d3.
     (Inr \<lparr>tp_topic_id = t, tp_staging = staging, tp_cgroups = cs\<rparr>, d3))))"

definition topic_create :: "u16 \<Rightarrow> data_dir \<Rightarrow> topic io_result \<times> data_dir" where
  "topic_create t d =
     sbind (mq_open t STAGING_GROUP_ID STAGING_PARTITION_ID d) (\<lambda>staging d1.
     (Inr \<lparr>tp_topic_id = t, tp_staging = staging, tp_cgroups = []\<rparr>, d1))"

definition append_to_staging ::
  "bytes \<Rightarrow> topic \<times> data_dir \<Rightarrow> u64 io_result \<times> topic \<times> data_dir" where
  "append_to_staging payload s =
     (let (t, d) = s
      in case mq_append payload (tp_staging t, d) of (r, q, d1) \<Rightarrow> (r, t\<lparr>tp_staging := q\<rparr>, d1))"

text \<open>\<open>while let Some(msg) = staging.pop_front() { partition.append(&msg); }\<close>\<close>

fun drain ::
  "nat \<Rightarrow> mmap_queue \<Rightarrow> mmap_queue \<Rightarrow> data_dir \<Rightarrow> unit io_result \<times> mmap_queue \<times> mmap_queue \<times> data_dir" where
  "drain 0 st pt d = (Inr (), st, pt, d)"
| "drain (Suc n) st pt d =
     (case mq_pop_front (st, d) of
        (Inl e, st1, d1) \<Rightarrow> (Inl e, st1, pt, d1)
      | (Inr None, st1, d1) \<Rightarrow> (Inr (), st1, pt, d1)
      | (Inr (Some msg), st1, d1) \<Rightarrow>
          (case partition_append msg (pt, d1) of
             (Inl e, pt1, d2) \<Rightarrow> (Inl e, st1, pt1, d2)
           | (Inr _, pt1, d2) \<Rightarrow> drain n st1 pt1 d2))"

definition drain_staging_into ::
  "mmap_queue \<Rightarrow> topic \<times> data_dir \<Rightarrow> unit io_result \<times> mmap_queue \<times> topic \<times> data_dir" where
  "drain_staging_into pt s =
     (let (t, d) = s
      in case drain QUEUE_CAPACITY (tp_staging t) pt d of
           (r, st1, pt1, d1) \<Rightarrow> (r, pt1, t\<lparr>tp_staging := st1\<rparr>, d1))"

definition persist_groups :: "topic \<Rightarrow> data_dir \<Rightarrow> data_dir" where
  "persist_groups t d = store_topic_groups (tp_topic_id t) (map cg_group_id (tp_cgroups t)) d"

definition find_or_create_group ::
  "u16 \<Rightarrow> topic \<times> data_dir \<Rightarrow> bool io_result \<times> topic \<times> data_dir" where
  "find_or_create_group g s =
     (let (t, d) = s
      in if list_ex (\<lambda>c. cg_group_id c = g) (tp_cgroups t) then (Inr False, t, d)
         else case cgroup_create_new (tp_topic_id t) g d of
                (Inl e, d1) \<Rightarrow> (Inl e, t, d1)
              | (Inr c, d1) \<Rightarrow>
                  let t1 = t\<lparr>tp_cgroups := tp_cgroups t @ [c]\<rparr>
                  in (Inr True, t1, persist_groups t1 d1))"

definition topic_group :: "topic \<Rightarrow> u16 \<Rightarrow> consumer_group option" where
  "topic_group t g = List.find (\<lambda>c. cg_group_id c = g) (tp_cgroups t)"

text \<open>The index of the group that \<open>group_mut\<close> borrows.\<close>

definition group_index :: "topic \<Rightarrow> u16 \<Rightarrow> nat option" where
  "group_index t g =
     (if list_ex (\<lambda>c. cg_group_id c = g) (tp_cgroups t)
      then Some (length (takeWhile (\<lambda>c. cg_group_id c \<noteq> g) (tp_cgroups t))) else None)"

section \<open>Draining\<close>

definition mq_key :: "mmap_queue \<Rightarrow> u16 \<times> u16 \<times> u16" where
  "mq_key q = (mq_topic q, mq_group q, mq_partition q)"

definition mq_files :: "mmap_queue \<Rightarrow> string set" where
  "mq_files q = {mq_meta q, mq_arr q, mq_sizes q}"

lemma mq_files_disjoint: "mq_key q \<noteq> mq_key q' \<Longrightarrow> mq_files q \<inter> mq_files q' = {}"
  by (auto simp: mq_files_def mq_key_def path_keys)

text \<open>A queue looks at its own files only.\<close>

lemma mq_view_cong:
  assumes "\<forall>n\<in>mq_files q. df_get d' n = df_get d n"
  shows "mq_inv (q, d') = mq_inv (q, d)" and "mq_abs (q, d') = mq_abs (q, d)"
proof -
  have "df_contents d' (mq_arr q) = df_contents d (mq_arr q)"
    "df_contents d' (mq_sizes q) = df_contents d (mq_sizes q)" "df_get d' (mq_meta q) = df_get d (mq_meta q)"
    using assms by (simp_all add: mq_files_def df_contents_def)
  moreover from this have "mq_slot (q, d') = mq_slot (q, d)"
    by (intro ext) (simp add: mq_slot_def)
  ultimately show "mq_inv (q, d') = mq_inv (q, d)" "mq_abs (q, d') = mq_abs (q, d)"
    by (simp_all add: mq_inv_def mq_abs_def mq_h_def mq_t_def mq_count_def)
qed

lemma mq_append_frame:
  assumes "mq_inv (q, d)" and "mq_append x (q, d) = (r, q', d')"
  shows "mq_key q' = mq_key q" and "mq_files q' = mq_files q" and "r = Inr (mq_live_len q)"
    and "n \<notin> mq_files q \<Longrightarrow> df_get d' n = df_get d n"
  using assms mq_append_eq [OF assms(1), of x]
  by (auto simp: mq_files_def mq_key_def write_u32_def store_simps)

lemma mq_pop_frame:
  assumes "mq_pop_front (q, d) = (r, q', d')"
  shows "mq_key q' = mq_key q" and "mq_files q' = mq_files q"
    and "n \<notin> mq_files q \<Longrightarrow> df_get d' n = df_get d n"
  using assms
  by (auto simp: mq_pop_front_def mq_files_def mq_key_def write_u32_def store_simps Let_def split: if_splits)

text \<open>An operation on one queue leaves another queue alone.\<close>

lemma mq_other_queue:
  assumes "mq_key q \<noteq> mq_key q'" and "\<And>n. n \<notin> mq_files q \<Longrightarrow> df_get d' n = df_get d n"
  shows "mq_inv (q', d') = mq_inv (q', d)" and "mq_abs (q', d') = mq_abs (q', d)"
  using mq_view_cong [of q' d' d] mq_files_disjoint [OF assms(1)] assms(2) by blast+

lemma mq_count_length: "mq_count s = length (mq_abs s)"
  by (simp add: mq_abs_def)

lemma drain_ok:
  assumes "mq_inv (st, d)" "mq_inv (pt, d)" "mq_key st \<noteq> mq_key pt"
    and "length (mq_abs (st, d)) < n" "length (mq_abs (st, d)) + length (mq_abs (pt, d)) < QUEUE_CAPACITY"
    and "\<forall>x\<in>set (mq_abs (st, d)). length x \<le> MAX_MSG_SIZE"
  shows "\<exists>st' pt' d'. drain n st pt d = (Inr (), st', pt', d') \<and> mq_inv (st', d') \<and> mq_inv (pt', d')
    \<and> mq_abs (st', d') = [] \<and> mq_abs (pt', d') = mq_abs (pt, d) @ mq_abs (st, d)"
  using assms
proof (induction n arbitrary: st pt d)
  case 0
  then show ?case by simp
next
  case (Suc n)
  note inv = Suc.prems(1,2) and key = Suc.prems(3)
  obtain r st1 d1 where pop: "mq_pop_front (st, d) = (r, st1, d1)" by (cases "mq_pop_front (st, d)")
  show ?case
  proof (cases "mq_abs (st, d)")
    case Nil
    have "mq_head st = mq_tail st"
      using Nil inv(1) by (auto simp: mq_abs_def ring_read_def mq_count_def mq_inv_def word_unat_eq_iff split: if_splits)
    then have "drain (Suc n) st pt d = (Inr (), st, pt, d)" by (simp add: mq_pop_front_def)
    with inv Nil show ?thesis by simp
  next
    case (Cons x xs)
    from mq_pop_Cons [OF inv(1) Cons] pop
    have r: "r = Inr (Some x)" and st1: "mq_abs (st1, d1) = xs" "mq_inv (st1, d1)" by simp_all
    note fr = mq_pop_frame [OF pop]
    have pt: "mq_inv (pt, d1)" "mq_abs (pt, d1) = mq_abs (pt, d)"
      using mq_other_queue [OF key fr(3)] inv(2) by simp_all
    obtain r2 pt1 d2 where app: "mq_append x (pt, d1) = (r2, pt1, d2)" by (cases "mq_append x (pt, d1)")
    note fr2 = mq_append_frame [OF pt(1) app]
    have room: "mq_room (Suc 0) (pt, d1)"
      using Suc.prems(5) pt(2) Cons by (simp add: mq_room_def mq_count_length)
    have "length x \<le> MAX_MSG_SIZE" using Suc.prems(6) Cons by simp
    with mq_append_ok [OF pt(1) room, of x] app pt(2)
    have pt1: "mq_inv (pt1, d2)" "mq_abs (pt1, d2) = mq_abs (pt, d) @ [x]" by simp_all
    have key': "mq_key st1 \<noteq> mq_key pt1" using fr(1) fr2(1) key by simp
    have "mq_key pt \<noteq> mq_key st1" using fr(1) key by simp
    then have st2: "mq_inv (st1, d2)" "mq_abs (st1, d2) = xs"
      using mq_other_queue [of pt st1 d2 d1] fr2(4) st1 by simp_all
    have step: "drain (Suc n) st pt d = drain n st1 pt1 d2"
      using pop r app fr2(3) by (simp add: partition_append_def)
    show ?thesis
      using Suc.IH [OF st2(1) pt1(1) key'] Suc.prems(4,5,6) Cons st2(2) pt1(2) step by simp
  qed
qed

section \<open>Properties\<close>

text \<open>
  Draining the staging queue moves every staged message, in order, behind what the
  partition holds, leaves the staging queue empty, and ends.
\<close>

theorem drain_staging_moves_all:
  assumes "mq_inv (tp_staging t, d)" "mq_inv (pt, d)" "mq_key (tp_staging t) \<noteq> mq_key pt"
    and "length (mq_abs (tp_staging t, d)) + length (mq_abs (pt, d)) < QUEUE_CAPACITY"
    and "\<forall>x\<in>set (mq_abs (tp_staging t, d)). length x \<le> MAX_MSG_SIZE"
  shows "\<exists>pt' t' d'. drain_staging_into pt (t, d) = (Inr (), pt', t', d')
    \<and> mq_abs (tp_staging t', d') = []
    \<and> mq_abs (pt', d') = mq_abs (pt, d) @ mq_abs (tp_staging t, d)"
proof -
  have "length (mq_abs (tp_staging t, d)) < QUEUE_CAPACITY" using assms(4) by simp
  from drain_ok [OF assms(1-3) this assms(4,5)] show ?thesis
    by (auto simp: drain_staging_into_def)
qed

lemma open_mmap_frame: "n \<noteq> name \<Longrightarrow> df_get (open_or_create_mmap name len d) n = df_get d n"
  by (simp add: open_or_create_mmap_def store_simps Let_def)

lemma mq_open_frame:
  assumes "n \<noteq> partition_metadata_path t g p" "n \<noteq> under_arr_path t g p" "n \<noteq> under_size_path t g p"
  shows "df_get (snd (mq_open t g p d)) n = df_get d n"
proof -
  let ?meta = "partition_metadata_path t g p"
  define d2 where "d2 = (if length (df_contents (open_create ?meta d) ?meta) < 8 then
      write_u32 ?meta 4 0 (write_u32 ?meta 0 0
        (df_put ?meta (set_len 8 (df_contents (open_create ?meta d) ?meta)) (open_create ?meta d)))
      else open_create ?meta d)"
  have d2: "df_get d2 n = df_get d n" using assms(1) by (simp add: d2_def write_u32_def store_simps)
  have "snd (mq_open t g p d) = d2 \<or> snd (mq_open t g p d) =
      open_or_create_mmap (under_size_path t g p) BUFFER_BYTES
        (open_or_create_mmap (under_arr_path t g p) BUFFER_BYTES d2)"
    unfolding mq_open_def d2_def [symmetric] Let_def by (auto split: sum.split)
  with d2 assms(2,3) show ?thesis by (auto simp: open_mmap_frame)
qed

lemma mq_open_key: "fst (mq_open t g p d) = Inr q \<Longrightarrow> mq_key q = (t, g, p)"
  by (auto simp: mq_open_def mq_key_def Let_def split: sum.splits prod.splits)

lemma two_fresh_queues:
  "\<exists>q1 q2 d. mq_inv (q1, d) \<and> mq_abs (q1, d) = [] \<and> mq_inv (q2, d) \<and> mq_abs (q2, d) = [] \<and> mq_key q1 \<noteq> mq_key q2
    \<and> (\<forall>n. n \<notin> mq_files q1 \<union> mq_files q2 \<longrightarrow> df_get d n = None)"
proof -
  obtain q1 d1 where o1: "mq_open 1 2 3 empty_dir = (Inr q1, d1)" and q1: "mq_inv (q1, d1)" "mq_abs (q1, d1) = []"
    using mq_open_fresh [of empty_dir 1 2 3] by (auto simp: empty_dir_def df_get_def)
  have none: "df_get d1 n = None"
    if "n \<noteq> partition_metadata_path 1 2 3" "n \<noteq> under_arr_path 1 2 3" "n \<noteq> under_size_path 1 2 3" for n
    using mq_open_frame [OF that, of empty_dir] o1 by (simp add: empty_dir_def df_get_def)
  obtain q2 d2 where o2: "mq_open 1 2 4 d1 = (Inr q2, d2)" and q2: "mq_inv (q2, d2)" "mq_abs (q2, d2) = []"
    using mq_open_fresh [of d1 1 2 4] none by (auto simp: path_keys)
  have k: "mq_key q1 = (1, 2, 3)" "mq_key q2 = (1, 2, 4)"
    using mq_open_key [of 1 2 3 empty_dir q1] mq_open_key [of 1 2 4 d1 q2] o1 o2 by simp_all
  have d2: "df_get d2 n = df_get d1 n" if "n \<notin> mq_files q2" for n
    using mq_open_frame [of n 1 2 4 d1] that o2 k(2) by (simp add: mq_files_def mq_key_def)
  then have "mq_inv (q1, d2)" "mq_abs (q1, d2) = []"
    using mq_other_queue [of q2 q1 d2 d1] k q1 by auto
  moreover have "df_get d2 n = None" if "n \<notin> mq_files q1 \<union> mq_files q2" for n
    using d2 [of n] none [of n] that k(1) by (simp add: mq_files_def mq_key_def)
  ultimately show ?thesis using q2 k by (intro exI [of _ q1] exI [of _ q2] exI [of _ d2]) simp
qed

theorem drain_staging_moves_all_witness:
  "\<exists>pt t d pt' t' d'. drain_staging_into pt (t, d) = (Inr (), pt', t', d') \<and> mq_abs (tp_staging t', d') = []"
proof -
  obtain q1 q2 d where q: "mq_inv (q1, d)" "mq_abs (q1, d) = []" "mq_inv (q2, d)" "mq_abs (q2, d) = []"
    "mq_key q1 \<noteq> mq_key q2" using two_fresh_queues by blast
  let ?t = "\<lparr>tp_topic_id = 1, tp_staging = q1, tp_cgroups = []\<rparr>"
  have "\<exists>pt' t' d'. drain_staging_into q2 (?t, d) = (Inr (), pt', t', d') \<and> mq_abs (tp_staging t', d') = []
      \<and> mq_abs (pt', d') = mq_abs (q2, d) @ mq_abs (tp_staging ?t, d)"
    by (rule drain_staging_moves_all) (use q in simp_all)
  then show ?thesis by blast
qed

end
