(* ===== verification/Fetch_Batch.thy ===== *)
theory Fetch_Batch
  imports Partition_Log Rust_Text
begin

text \<open>
  The payload of a fetch response: the record batch of \<open>dmq-core/src/fetch_batch.rs\<close> inside
  the compression envelope of \<open>dmq-core/src/compression.rs\<close>.  The LZ4 library is not part
  of the repository; its two functions are a parameter of the definitions that call them,
  and \<open>lz4_law\<close> states what its documentation promises.
\<close>

section \<open>Record batches\<close>

definition encode_batch_record :: "log_record \<Rightarrow> bytes" where
  "encode_batch_record rec =
     (let len = (if length (rec_payload rec) < 2 ^ 16 then of_nat (length (rec_payload rec)) else - 1 :: u16)
      in to_be_bytes (rec_offset rec) @ to_be_bytes len @ take (unat len) (rec_payload rec))"

definition encode_records :: "log_record list \<Rightarrow> bytes" where
  "encode_records rs =
     (let count = (if length rs < 2 ^ 16 then of_nat (length rs) else - 1 :: u16)
      in to_be_bytes count @ concat (map encode_batch_record (take (unat count) rs)))"

fun decode_loop :: "nat \<Rightarrow> bytes \<Rightarrow> nat \<Rightarrow> log_record list io_result" where
  "decode_loop 0 bs idx = Inr []"
| "decode_loop (Suc n) bs idx =
     (if idx + 8 + 2 > length bs then io_err InvalidData ''truncated record header''
      else
        let off = be_at idx 8 bs;
            len = unat (be_at (idx + 8) 2 bs :: u16);
            idx' = idx + 8 + 2
        in if idx' + len > length bs then io_err InvalidData ''truncated record payload''
           else res_bind (decode_loop n bs (idx' + len)) (\<lambda>rs.
                  Inr (\<lparr>rec_offset = off, rec_payload = slice idx' (idx' + len) bs\<rparr> # rs)))"

definition decode_records :: "bytes \<Rightarrow> log_record list io_result" where
  "decode_records bs =
     (if length bs < 2 then io_err InvalidData ''fetch batch too short''
      else decode_loop (unat (be_at 0 2 bs :: u16)) bs 2)"

section \<open>Compression\<close>

record lz4_lib =
  lz4_compress :: "bytes \<Rightarrow> bytes"
  lz4_decompress :: "bytes \<Rightarrow> nat \<Rightarrow> string + bytes"

definition CODEC_NONE :: u8 where "CODEC_NONE = 0"
definition CODEC_LZ4 :: u8 where "CODEC_LZ4 = 1"

definition compression_enabled :: "env \<Rightarrow> bool" where
  "compression_enabled e =
     (case e ''DMQ_COMPRESSION'' of
        Some v \<Rightarrow> v = ''1'' \<or> eq_ignore_ascii_case v ''true'' \<or> eq_ignore_ascii_case v ''lz4''
      | None \<Rightarrow> False)"

definition preferred_codec :: "env \<Rightarrow> u8" where
  "preferred_codec e = (if compression_enabled e then CODEC_LZ4 else CODEC_NONE)"

definition compress :: "lz4_lib \<Rightarrow> bytes \<Rightarrow> bytes io_result" where
  "compress lz data = Inr (lz4_compress lz data)"

definition decompress :: "lz4_lib \<Rightarrow> bytes \<Rightarrow> bytes io_result" where
  "decompress lz data =
     (case lz4_decompress lz data (length data * 8) of
        Inl msg \<Rightarrow> io_err InvalidData msg
      | Inr out \<Rightarrow> Inr out)"

definition wrap_batch :: "lz4_lib \<Rightarrow> u8 \<Rightarrow> bytes \<Rightarrow> bytes io_result" where
  "wrap_batch lz codec payload =
     (if codec = CODEC_NONE then Inr (CODEC_NONE # payload)
      else if codec = CODEC_LZ4 then
        res_bind (compress lz payload) (\<lambda>compressed.
          if length compressed \<ge> length payload then Inr (CODEC_NONE # payload)
          else Inr (CODEC_LZ4 # compressed))
      else io_err InvalidData (''unknown compression codec '' @ show_word codec))"

definition unwrap_batch :: "lz4_lib \<Rightarrow> bytes \<Rightarrow> bytes io_result" where
  "unwrap_batch lz bs =
     (case bs of
        [] \<Rightarrow> io_err InvalidData ''empty compressed batch''
      | codec # rest \<Rightarrow>
          if codec = CODEC_NONE then Inr rest
          else if codec = CODEC_LZ4 then decompress lz rest
          else io_err InvalidData (''unknown compression codec '' @ show_word codec))"

text \<open>
  The documentation of the library: decompressing a compressed block into a buffer that is
  large enough gives the data back; a buffer that is too small is an error.
\<close>

definition lz4_law :: "lz4_lib \<Rightarrow> bool" where
  "lz4_law lz \<longleftrightarrow>
     (\<forall>x n. (length x \<le> n \<longrightarrow> lz4_decompress lz (lz4_compress lz x) n = Inr x)
          \<and> (n < length x \<longrightarrow> (\<exists>msg. lz4_decompress lz (lz4_compress lz x) n = Inl msg)))"

section \<open>Lemmas\<close>

definition truncate_record :: "log_record \<Rightarrow> log_record" where
  "truncate_record r = r\<lparr>rec_payload := take 65535 (rec_payload r)\<rparr>"

lemma unat_minus_1_u16: "unat (- 1 :: u16) = 65535"
  by (simp add: unat_minus_one)

lemma encode_batch_record_eq:
  "encode_batch_record r = to_be_bytes (rec_offset r)
     @ to_be_bytes (of_nat (length (rec_payload (truncate_record r))) :: u16)
     @ rec_payload (truncate_record r)"
proof (cases "length (rec_payload r) < 65536")
  case True
  then show ?thesis
    by (simp add: encode_batch_record_def truncate_record_def unat_of_nat_u16 min_def)
next
  case False
  have "to_be_bytes (65535 :: u16) = to_be_bytes (- 1 :: u16)"
    unfolding to_be_bytes_def unat_minus_1_u16 by simp
  with False show ?thesis
    by (simp add: encode_batch_record_def truncate_record_def unat_minus_1_u16 min_def)
qed

lemma decode_loop_encode:
  "decode_loop (length rs) (pre @ concat (map encode_batch_record rs) @ post) (length pre)
     = Inr (map truncate_record rs)"
proof (induction rs arbitrary: pre)
  case Nil
  then show ?case by simp
next
  case (Cons r rs)
  let ?p = "rec_payload (truncate_record r)"
  let ?h = "to_be_bytes (rec_offset r) @ to_be_bytes (of_nat (length ?p) :: u16)"
  let ?tail = "concat (map encode_batch_record rs) @ post"
  have len: "length ?p < 2 ^ 16" by (simp add: truncate_record_def)
  have buf: "pre @ concat (map encode_batch_record (r # rs)) @ post = pre @ ?h @ ?p @ ?tail"
    by (simp add: encode_batch_record_eq)
  have "decode_loop (length rs) ((pre @ ?h @ ?p) @ ?tail) (length (pre @ ?h @ ?p))
      = Inr (map truncate_record rs)"
    using Cons.IH [of "pre @ ?h @ ?p"] by simp
  moreover have "slice (length pre + 10) (length pre + 10 + length ?p) (pre @ ?h @ ?p @ ?tail) = ?p"
    by (simp add: slice_def)
  moreover have "unat (of_nat (length ?p) :: u16) = length ?p"
    using len by (simp add: unat_of_nat_u16)
  moreover have "truncate_record r = \<lparr>rec_offset = rec_offset r, rec_payload = ?p\<rparr>"
    by (simp add: truncate_record_def)
  ultimately show ?case
    unfolding buf by (simp add: codec_simps Let_def ac_simps)
qed

section \<open>Properties\<close>

lemma decode_encode_records:
  "decode_records (encode_records rs) = Inr (map truncate_record (take 65535 rs))"
proof -
  define count :: u16 where "count = (if length rs < 2 ^ 16 then of_nat (length rs) else - 1)"
  have n: "unat count = min (length rs) 65535"
    by (auto simp: count_def unat_of_nat_u16 unat_minus_1_u16)
  then have t: "take (unat count) rs = take 65535 rs" by (simp add: min_def)
  have "encode_records rs = to_be_bytes count @ concat (map encode_batch_record (take 65535 rs))"
    using t by (simp add: encode_records_def count_def Let_def)
  moreover have "unat count = length (take 65535 rs)" using n by simp
  ultimately show ?thesis
    using decode_loop_encode [of "take 65535 rs" "to_be_bytes count" "[]"]
    by (simp add: decode_records_def codec_simps)
qed

text \<open>
  C30: what a fetch response carries.  Decoding an encoded batch succeeds and gives the
  first 65535 records with their offsets, each payload cut at 65535 bytes; a batch within
  those bounds is received unchanged.
\<close>

theorem fetch_batch_roundtrip:
  "decode_records (encode_records rs) = Inr (map truncate_record (take 65535 rs))"
  by (rule decode_encode_records)

text \<open>
  C31: the limit of the compressed envelope.  With a library that keeps its documentation, a
  batch wrapped with LZ4 is unwrapped to itself exactly when it did not shrink (it is then
  sent plain) or shrank by at most a factor of eight, the size of the buffer that
  \<open>decompress\<close> asks for; a batch that compresses better cannot be read.
\<close>

theorem lz4_envelope_roundtrip_iff:
  assumes "lz4_law lz" and "wrap_batch lz CODEC_LZ4 payload = Inr w"
  shows "unwrap_batch lz w = Inr payload \<longleftrightarrow>
    length payload \<le> length (lz4_compress lz payload)
    \<or> length payload \<le> 8 * length (lz4_compress lz payload)"
proof (cases "length payload \<le> length (lz4_compress lz payload)")
  case True
  then show ?thesis
    using assms(2) by (auto simp: wrap_batch_def compress_def unwrap_batch_def CODEC_LZ4_def CODEC_NONE_def)
next
  case False
  then have w: "w = CODEC_LZ4 # lz4_compress lz payload"
    using assms(2) by (auto simp: wrap_batch_def compress_def CODEC_LZ4_def CODEC_NONE_def)
  let ?c = "lz4_compress lz payload"
  have "length payload \<le> length ?c * 8 \<Longrightarrow> lz4_decompress lz ?c (length ?c * 8) = Inr payload"
    and "\<not> length payload \<le> length ?c * 8 \<Longrightarrow> \<exists>msg. lz4_decompress lz ?c (length ?c * 8) = Inl msg"
    using assms(1) by (simp_all add: lz4_law_def)
  with False show ?thesis
    by (cases "length payload \<le> length ?c * 8")
      (auto simp: w unwrap_batch_def decompress_def CODEC_LZ4_def CODEC_NONE_def mult.commute)
qed

text \<open>A library that keeps the law and shrinks forty equal bytes to one.\<close>

definition sample_lz4 :: lz4_lib where
  "sample_lz4 =
     \<lparr>lz4_compress = (\<lambda>x. if x = replicate 40 7 then [0] else 1 # x),
      lz4_decompress = (\<lambda>c n. case c of
          [] \<Rightarrow> Inl ''empty''
        | t # x \<Rightarrow>
            let out = (if t = 0 then replicate 40 7 else x)
            in if length out \<le> n then Inr out else Inl ''output too small'')\<rparr>"

lemma sample_lz4_law: "lz4_law sample_lz4"
  by (simp add: lz4_law_def sample_lz4_def)

theorem lz4_envelope_roundtrip_iff_witness:
  "unwrap_batch sample_lz4 [CODEC_LZ4, 0] \<noteq> Inr (replicate 40 7)"
proof -
  have c: "lz4_compress sample_lz4 (replicate 40 7) = [0]" by (simp add: sample_lz4_def)
  then have "wrap_batch sample_lz4 CODEC_LZ4 (replicate 40 7) = Inr [CODEC_LZ4, 0]"
    by (simp add: wrap_batch_def compress_def CODEC_LZ4_def CODEC_NONE_def)
  from lz4_envelope_roundtrip_iff [OF sample_lz4_law this] c show ?thesis by simp
qed

end
