(* ===== verification/Broker.thy ===== *)
theory Broker
  imports Log_Store Idempotency Cluster_State Coordinator Security Topic Message Fetch_Batch
begin

text \<open>
  The broker of \<open>dmq-broker/src/broker.rs\<close>: its state as a record over the component
  states, one definition per operation, and the invariants that tie the in-memory logs to
  the files.  The data directory is part of the state; the environment and the clock are
  arguments.  An operation returns its result with the broker it leaves, on an error too.
\<close>

section \<open>State and configuration\<close>

definition BROKER_PORT :: u16 where "BROKER_PORT = 7777"

definition bind_host :: "env \<Rightarrow> string" where
  "bind_host e = (case e ''DMQ_BIND_ADDR'' of Some h \<Rightarrow> h | None \<Rightarrow> ''127.0.0.1'')"

definition broker_port :: "env \<Rightarrow> u16" where
  "broker_port e = env_word e ''DMQ_BROKER_PORT'' BROKER_PORT"

definition bind_addr :: "env \<Rightarrow> string" where
  "bind_addr e = bind_host e @ '':'' @ show_word (broker_port e)"

text \<open>The port is parsed as \<open>u32\<close> here and cut to 16 bits.\<close>

definition broker_addr_for :: "env \<Rightarrow> cluster_config option io_result \<Rightarrow> broker_id \<Rightarrow> string" where
  "broker_addr_for e cfg i =
     (let dflt = ''127.0.0.1:'' @ show_word (ucast (env_word e ''DMQ_BROKER_PORT'' (ucast BROKER_PORT :: u32)) :: u16)
      in case cfg of
           Inr (Some c) \<Rightarrow> (case broker_addr c i of Some a \<Rightarrow> a | None \<Rightarrow> dflt)
         | _ \<Rightarrow> dflt)"

record broker =
  b_topics :: "(u16, topic) hmap"
  b_logs :: "(u16 \<times> u16, partition_log) hmap"
  b_topic_configs :: "(u16, topic_config) hmap"
  b_committed_offsets :: "(u16 \<times> u16 \<times> u16, u64) hmap"
  b_dir :: data_dir
  b_metrics :: broker_metrics
  b_broker_id :: broker_id
  b_cluster :: "cluster_config option"
  b_cluster_state :: "cluster_state option"
  b_groups :: "(u16 \<times> u16, group_state) hmap"
  b_idempotency :: idempotency_state
  b_acl :: acl

section \<open>Logs and topics\<close>

definition broker_topic_config :: "broker \<Rightarrow> u16 \<Rightarrow> topic_config" where
  "broker_topic_config b t =
     (case hm_get (b_topic_configs b) t of Some c \<Rightarrow> c | None \<Rightarrow> topic_config_default_for t)"

definition ensure_log_with_config :: "u16 \<Rightarrow> u16 \<Rightarrow> broker \<Rightarrow> broker" where
  "ensure_log_with_config t p b =
     b\<lparr>b_logs := hm_or_insert (t, p)
         (with_max_records (unat (tc_max_records (broker_topic_config b t)))) (b_logs b)\<rparr>"

definition ensure_log :: "u16 \<Rightarrow> u16 \<Rightarrow> broker \<Rightarrow> broker" where
  "ensure_log t p b = ensure_log_with_config t p b"

definition persist_topics :: "broker \<Rightarrow> broker" where
  "persist_topics b = b\<lparr>b_dir := store_broker_topics (sort (hm_keys (b_topics b))) (b_dir b)\<rparr>"

definition topic_mut :: "u16 \<Rightarrow> broker \<Rightarrow> unit io_result \<times> broker" where
  "topic_mut t b =
     (if hm_contains (b_topics b) t then (Inr (), ensure_log_with_config t 0 b)
      else case topic_create t (b_dir b) of
             (Inl err, d) \<Rightarrow> (Inl err, b\<lparr>b_dir := d\<rparr>)
           | (Inr tp, d) \<Rightarrow>
               let b1 = b\<lparr>b_dir := d, b_topics := hm_insert t tp (b_topics b),
                          b_topic_configs := hm_or_insert t (topic_config_default_for t) (b_topic_configs b)\<rparr>
               in (Inr (), ensure_log_with_config t 0 (persist_topics b1)))"

definition persist_log_meta :: "env \<Rightarrow> u16 \<Rightarrow> u16 \<Rightarrow> broker \<Rightarrow> broker" where
  "persist_log_meta e t p b =
     (case hm_get (b_logs b) (t, p) of
        Some log \<Rightarrow> b\<lparr>b_dir := store_meta_offsets e t p (Some (base_offset log)) (Some (next_offset log)) (b_dir b)\<rparr>
      | None \<Rightarrow> b)"

definition log_exists_panic :: "'a io_result" where
  "log_exists_panic = Inl (Panic ''log exists'')"

text \<open>The part \<open>append_log\<close> and \<open>apply_replica\<close> share: the record on disk, then the offsets.\<close>

definition write_record :: "env \<Rightarrow> u16 \<Rightarrow> u16 \<Rightarrow> log_record \<Rightarrow> broker \<Rightarrow> unit io_result \<times> broker" where
  "write_record e t p rec b =
     (case append_record e t p rec (b_dir b) of
        (Inl err, d) \<Rightarrow> (Inl err, b\<lparr>b_dir := d\<rparr>)
      | (Inr _, d) \<Rightarrow> (Inr (), persist_log_meta e t p (b\<lparr>b_dir := d\<rparr>)))"

definition append_log :: "env \<Rightarrow> u16 \<Rightarrow> u16 \<Rightarrow> bytes \<Rightarrow> broker \<Rightarrow> u64 io_result \<times> broker" where
  "append_log e t p payload b =
     sbind (validate_produce_payload e (length payload), b) (\<lambda>_ b0.
     sbind (topic_mut t b0) (\<lambda>_ b1.
     let b2 = ensure_log_with_config t p b1
     in case hm_get (b_logs b2) (t, p) of
          None \<Rightarrow> (log_exists_panic, b2)
        | Some log \<Rightarrow>
            let (off, log') = log_append log payload;
                b3 = b2\<lparr>b_logs := hm_insert (t, p) log' (b_logs b2)\<rparr>
            in sbind (write_record e t p \<lparr>rec_offset = off, rec_payload = payload\<rparr> b3) (\<lambda>_ b4.
               (Inr off, b4\<lparr>b_metrics := record_produce (length payload) (b_metrics b4)\<rparr>))))"

definition produce_idempotent :: "env \<Rightarrow> idempotent_produce_request \<Rightarrow> broker \<Rightarrow> u64 io_result \<times> broker" where
  "produce_idempotent e req b =
     sbind (validate_produce_payload e (length (idem_payload req)), b) (\<lambda>_ b0.
     sbind (resolve (b_idempotency b0) (idem_topic_id req) (idem_partition_id req)
              (idem_producer_id req) (idem_sequence req), b0) (\<lambda>act b1.
     case act of
       ReturnOffset off \<Rightarrow> (Inr off, b1)
     | AppendAction \<Rightarrow>
         sbind (append_log e (idem_topic_id req) (idem_partition_id req) (idem_payload req) b1) (\<lambda>off b2.
         let (st, d) = record_seq (idem_topic_id req) (idem_partition_id req) (idem_producer_id req)
                         (idem_sequence req) off (b_idempotency b2, b_dir b2)
         in (Inr off, b2\<lparr>b_idempotency := st, b_dir := d\<rparr>))))"

section \<open>Leadership\<close>

definition partition_leader :: "broker \<Rightarrow> u16 \<Rightarrow> u16 \<Rightarrow> broker_id" where
  "partition_leader b t p =
     (case Option.bind (b_cluster b) (\<lambda>c. cc_leader_for c t p) of Some i \<Rightarrow> i | None \<Rightarrow> b_broker_id b)"

definition partition_replicas :: "broker \<Rightarrow> u16 \<Rightarrow> u16 \<Rightarrow> broker_id list" where
  "partition_replicas b t p =
     (case b_cluster b of Some c \<Rightarrow> cc_replicas_for c t p | None \<Rightarrow> [b_broker_id b])"

definition is_partition_leader :: "broker \<Rightarrow> u16 \<Rightarrow> u16 \<Rightarrow> bool" where
  "is_partition_leader b t p \<longleftrightarrow> partition_leader b t p = b_broker_id b"

definition is_partition_replica :: "broker \<Rightarrow> u16 \<Rightarrow> u16 \<Rightarrow> bool" where
  "is_partition_replica b t p =
     (case b_cluster b of Some c \<Rightarrow> cc_is_replica c (b_broker_id b) t p | None \<Rightarrow> True)"

definition legacy_push_enabled :: "env \<Rightarrow> broker \<Rightarrow> bool" where
  "legacy_push_enabled e b =
     (case e ''DMQ_LEGACY_PUSH'' of
        Some v \<Rightarrow> v = ''1'' \<or> eq_ignore_ascii_case v ''true''
      | None \<Rightarrow> b_cluster_state b = None)"

definition fetch_requires_leader :: "env \<Rightarrow> bool" where
  "fetch_requires_leader e =
     (case e ''DMQ_FETCH_CONSISTENCY'' of Some v \<Rightarrow> eq_ignore_ascii_case v ''leader'' | None \<Rightarrow> False)"

definition fetch_redirect_leader :: "env \<Rightarrow> broker \<Rightarrow> u16 \<Rightarrow> u16 \<Rightarrow> broker_id option" where
  "fetch_redirect_leader e b t p =
     (if fetch_requires_leader e \<and> b_cluster b \<noteq> None \<and> \<not> is_partition_leader b t p
      then Some (partition_leader b t p) else None)"

definition check_produce_acl :: "broker \<Rightarrow> string \<Rightarrow> u16 \<Rightarrow> unit io_result" where
  "check_produce_acl b who t = acl_check (b_acl b) who OpProduce t"

definition check_fetch_acl :: "broker \<Rightarrow> string \<Rightarrow> u16 \<Rightarrow> unit io_result" where
  "check_fetch_acl b who t = acl_check (b_acl b) who OpFetch t"

definition check_admin_acl :: "broker \<Rightarrow> string \<Rightarrow> u16 \<Rightarrow> unit io_result" where
  "check_admin_acl b who t = acl_check (b_acl b) who OpAdmin t"

section \<open>Replication and fetching\<close>

definition not_a_replica :: "'a io_result" where
  "not_a_replica = io_err PermissionDenied ''broker is not a replica for partition''"

definition apply_replica :: "env \<Rightarrow> u16 \<Rightarrow> u16 \<Rightarrow> u64 \<Rightarrow> bytes \<Rightarrow> broker \<Rightarrow> unit io_result \<times> broker" where
  "apply_replica e t p off payload b =
     (if \<not> is_partition_replica b t p then (not_a_replica, b)
      else
        let b1 = ensure_log_with_config t p b
        in case hm_get (b_logs b1) (t, p) of
             None \<Rightarrow> (log_exists_panic, b1)
           | Some log \<Rightarrow>
               if off < next_offset log then (Inr (), b1)
               else if off > next_offset log then
                 (io_err InvalidData (''replica gap: expected '' @ show_word (next_offset log) @ '' got ''
                    @ show_word off), b1)
               else
                 let (assigned, log') = log_append log payload;
                     b2 = b1\<lparr>b_logs := hm_insert (t, p) log' (b_logs b1)\<rparr>
                 in write_record e t p \<lparr>rec_offset = off, rec_payload = payload\<rparr> b2)"

definition fetch_log :: "env \<Rightarrow> fetch_request \<Rightarrow> broker \<Rightarrow> log_record list io_result \<times> broker" where
  "fetch_log e req b =
     (let t = fetch_topic_id req; p = fetch_partition_id req
      in if b_cluster b \<noteq> None \<and> \<not> is_partition_replica b t p then (not_a_replica, b)
         else
           let b1 = ensure_log t p b;
               mb = unat (clamp_fetch_bytes e (fetch_max_bytes req))
           in case hm_get (b_logs b1) (t, p) of
                None \<Rightarrow> (log_exists_panic, b1)
              | Some log \<Rightarrow>
                  let rs = fr_records (log_fetch log (fetch_offset req) mb)
                  in (Inr rs, b1\<lparr>b_metrics := record_fetch (sum_list (map (\<lambda>r. length (rec_payload r)) rs))
                                  (length rs) (b_metrics b1)\<rparr>))"

section \<open>Committed offsets\<close>

definition broker_commit_offset :: "commit_offset_request \<Rightarrow> broker \<Rightarrow> broker" where
  "broker_commit_offset req b =
     (let k = (commit_group_id req, commit_topic_id req, commit_partition_id req)
      in b\<lparr>b_committed_offsets := hm_insert k (commit_offset_at req) (b_committed_offsets b),
           b_dir := store_committed_offset (commit_group_id req) (commit_topic_id req)
             (commit_partition_id req) (commit_offset_at req) (b_dir b),
           b_metrics := record_commit (b_metrics b)\<rparr>)"

definition committed_offset :: "broker \<Rightarrow> u16 \<Rightarrow> u16 \<Rightarrow> u16 \<Rightarrow> u64 option" where
  "committed_offset b g t p = hm_get (b_committed_offsets b) (g, t, p)"

definition broker_load_committed_offset ::
  "u16 \<Rightarrow> u16 \<Rightarrow> u16 \<Rightarrow> broker \<Rightarrow> u64 option io_result \<times> broker" where
  "broker_load_committed_offset g t p b =
     (case committed_offset b g t p of
        Some v \<Rightarrow> (Inr (Some v), b)
      | None \<Rightarrow>
          sbind (load_committed_offset (b_dir b) g t p, b) (\<lambda>v b1.
            (Inr v, case v of
                      Some off \<Rightarrow> b1\<lparr>b_committed_offsets := hm_insert (g, t, p) off (b_committed_offsets b1)\<rparr>
                    | None \<Rightarrow> b1)))"

section \<open>Administration\<close>

definition create_topic :: "topic_config \<Rightarrow> broker \<Rightarrow> u8 io_result \<times> broker" where
  "create_topic cfg b =
     (let t = tc_topic_id cfg
      in if hm_contains (b_topics b) t then (Inr 1, b)
         else
           let b1 = b\<lparr>b_dir := store_topic_config t (tc_partition_count cfg) (tc_max_records cfg) (b_dir b),
                      b_topic_configs := hm_insert t cfg (b_topic_configs b)\<rparr>
           in sbind (topic_mut t b1) (\<lambda>_ b2.
              (Inr 0, fold (\<lambda>p. ensure_log_with_config t (of_nat p)) [0..<unat (tc_partition_count cfg)] b2)))"

definition describe_partition :: "broker \<Rightarrow> u16 \<Rightarrow> topic_config \<Rightarrow> u16 \<Rightarrow> bytes" where
  "describe_partition b t cfg p =
     (let log = (case hm_get (b_logs b) (t, p) of
                   Some l \<Rightarrow> l | None \<Rightarrow> with_max_records (unat (tc_max_records cfg)));
          replicas = partition_replicas b t p
      in to_be_bytes p @ to_be_bytes (base_offset log) @ to_be_bytes (next_offset log)
         @ to_be_bytes (of_nat (log_len log) :: u32) @ to_be_bytes (partition_leader b t p)
         @ to_be_bytes (of_nat (length replicas) :: u16) @ concat (map to_be_bytes replicas))"

definition describe_topic :: "broker \<Rightarrow> u16 \<Rightarrow> bytes" where
  "describe_topic b t =
     (if \<not> hm_contains (b_topics b) t then [0, 0]
      else let cfg = broker_topic_config b t
           in to_be_bytes (tc_partition_count cfg)
              @ concat (map (\<lambda>p. describe_partition b t cfg (of_nat p)) [0..<unat (tc_partition_count cfg)]))"

definition list_topics :: "broker \<Rightarrow> bytes" where
  "list_topics b =
     (let ids = sort (hm_keys (b_topics b))
      in to_be_bytes (of_nat (length ids) :: u16) @ concat (map to_be_bytes ids))"

definition lag_entry :: "broker \<Rightarrow> u16 \<Rightarrow> u16 \<Rightarrow> u16 \<Rightarrow> bytes" where
  "lag_entry b g t p =
     (let committed = (case committed_offset b g t p of Some v \<Rightarrow> v | None \<Rightarrow> 0);
          log_end = (case hm_get (b_logs b) (t, p) of Some l \<Rightarrow> next_offset l | None \<Rightarrow> 0);
          lag = sat_sub log_end committed
      in to_be_bytes p @ to_be_bytes committed @ to_be_bytes log_end @ to_be_bytes lag)"

definition get_lag :: "broker \<Rightarrow> u16 \<Rightarrow> u16 \<Rightarrow> bytes" where
  "get_lag b g t =
     (let cfg = broker_topic_config b t
      in to_be_bytes (tc_partition_count cfg)
         @ concat (map (\<lambda>p. lag_entry b g t (of_nat p)) [0..<unat (tc_partition_count cfg)]))"

definition cluster_info_bytes :: "env \<Rightarrow> broker \<Rightarrow> bytes" where
  "cluster_info_bytes e b =
     (case b_cluster_state b of
        Some st \<Rightarrow> encode_cluster_info st
      | None \<Rightarrow>
          (case b_cluster b of
             Some cfg \<Rightarrow> cluster_config_encode cfg
           | None \<Rightarrow> cluster_config_encode
               \<lparr>cc_min_insync_replicas = 1,
                cc_brokers = [\<lparr>node_id = b_broker_id b, node_host = ''127.0.0.1'', node_port = broker_port e\<rparr>],
                cc_assignments = []\<rparr>))"

section \<open>Cluster control\<close>

definition broker_is_controller :: "env \<Rightarrow> broker \<Rightarrow> bool" where
  "broker_is_controller e b =
     (case b_cluster_state b of Some st \<Rightarrow> is_controller e st (b_broker_id b) | None \<Rightarrow> False)"

definition sync_cluster_view :: "broker \<Rightarrow> broker" where
  "sync_cluster_view b =
     (case b_cluster_state b of Some st \<Rightarrow> b\<lparr>b_cluster := Some (to_cluster_config st)\<rparr> | None \<Rightarrow> b)"

definition apply_cluster_state :: "cluster_state \<Rightarrow> broker \<Rightarrow> broker" where
  "apply_cluster_state st b =
     sync_cluster_view (b\<lparr>b_dir := cs_store st (b_dir b), b_cluster_state := Some st\<rparr>)"

definition handle_broker_heartbeat :: "env \<Rightarrow> u64 \<Rightarrow> broker_heartbeat_request \<Rightarrow> broker \<Rightarrow> u8 \<times> broker" where
  "handle_broker_heartbeat e now req b =
     (case b_cluster_state b of
        None \<Rightarrow> (1, b)
      | Some st \<Rightarrow>
          if \<not> is_controller e st (b_broker_id b) then (1, b)
          else
            let st1 = record_heartbeat (hb_broker_id req) now st;
                (st2, changed) = failover_dead_leaders now (heartbeat_timeout_ms e) st1
            in (0, sync_cluster_view (b\<lparr>b_cluster_state := Some st2, b_dir := cs_store st2 (b_dir b)\<rparr>)))"

definition run_failover_at :: "env \<Rightarrow> u64 \<Rightarrow> broker \<Rightarrow> nat \<times> broker" where
  "run_failover_at e now b =
     (case b_cluster_state b of
        None \<Rightarrow> (0, b)
      | Some st \<Rightarrow>
          if \<not> is_controller e st (b_broker_id b) then (0, b)
          else
            let (st1, changed) = failover_dead_leaders now (heartbeat_timeout_ms e) st;
                b1 = b\<lparr>b_cluster_state := Some st1\<rparr>;
                b2 = (if changed \<noteq> [] then sync_cluster_view (b1\<lparr>b_dir := cs_store st1 (b_dir b1)\<rparr>) else b1)
            in (length changed, b2))"

definition controller_tick :: "env \<Rightarrow> u64 \<Rightarrow> broker \<Rightarrow> broker" where
  "controller_tick e now b =
     (case b_cluster_state b of
        None \<Rightarrow> b
      | Some st \<Rightarrow>
          if \<not> is_controller e st (b_broker_id b) then b
          else snd (run_failover_at e now (b\<lparr>b_cluster_state := Some (record_heartbeat (b_broker_id b) now st)\<rparr>)))"

definition controller_addr :: "env \<Rightarrow> broker \<Rightarrow> string option" where
  "controller_addr e b =
     Option.bind (b_cluster_state b) (\<lambda>st.
     Option.bind (controller_id e st) (\<lambda>i.
     map_option (\<lambda>n. node_host n @ '':'' @ show_word (node_port n))
       (List.find (\<lambda>n. node_id n = i) (cs_brokers st))))"

section \<open>Consumer groups\<close>

definition broker_join_group ::
  "u64 \<Rightarrow> join_group_request \<Rightarrow> broker \<Rightarrow> (u8 \<times> u64 \<times> u32 \<times> u16 list) io_result \<times> broker" where
  "broker_join_group now req b =
     sbind (topic_mut (join_topic_id req) b) (\<lambda>_ b1.
     let pc = tc_partition_count (broker_topic_config b1 (join_topic_id req));
         k = (join_topic_id req, join_group_id req);
         grp = (case hm_get (b_groups b1) k of
                  Some g \<Rightarrow> g | None \<Rightarrow> group_new (join_group_id req) (join_topic_id req));
         ((m, gen, parts), grp') = group_join (join_member_id req) pc now grp
     in (Inr (0, m, gen, parts), b1\<lparr>b_groups := hm_insert k grp' (b_groups b1)\<rparr>))"

text \<open>The group is looked up by its id alone, in the order of the map.\<close>

definition broker_group_heartbeat ::
  "env \<Rightarrow> u64 \<Rightarrow> group_heartbeat_request \<Rightarrow> broker \<Rightarrow> (u8 \<times> u8) \<times> broker" where
  "broker_group_heartbeat e now req b =
     (case List.find (\<lambda>((t, g), st). g = ghb_group_id req) (b_groups b) of
        None \<Rightarrow> ((1, 1), b)
      | Some (k, grp) \<Rightarrow>
          let pc = tc_partition_count (broker_topic_config b (fst k));
              (expired, g1) = expire_stale_members now (session_timeout_ms e) grp;
              g2 = (if expired then snd (rebalance pc now g1) else g1);
              ((code, again), g3) = group_heartbeat_op (ghb_member_id req) (ghb_generation req) now g2
          in ((code, if again then 1 else 0), b\<lparr>b_groups := hm_insert k g3 (b_groups b)\<rparr>))"

section \<open>The legacy push path\<close>

text \<open>An operation on the topic of the broker; \<open>topic_mut\<close> has made sure that it is there.\<close>

definition with_topic ::
  "u16 \<Rightarrow> (topic \<times> data_dir \<Rightarrow> 'a io_result \<times> topic \<times> data_dir) \<Rightarrow> broker \<Rightarrow> 'a io_result \<times> broker" where
  "with_topic t f b =
     (case hm_get (b_topics b) t of
        None \<Rightarrow> (Inl (Panic ''topic inserted''), b)
      | Some tp \<Rightarrow>
          (case f (tp, b_dir b) of (r, tp', d) \<Rightarrow> (r, b\<lparr>b_topics := hm_insert t tp' (b_topics b), b_dir := d\<rparr>)))"

definition process_echo :: "string \<Rightarrow> string" where
  "process_echo text = ''I have receiver: '' @ text"

definition register_producer :: "producer_register \<Rightarrow> broker \<Rightarrow> u8 io_result \<times> broker" where
  "register_producer reg b = sbind (topic_mut (preg_topic_id reg) b) (\<lambda>_ b1. (Inr 0, b1))"

definition assign_in_group :: "u16 \<Rightarrow> u16 \<Rightarrow> topic \<times> data_dir \<Rightarrow> u16 io_result \<times> topic \<times> data_dir" where
  "assign_in_group t g s =
     (let (tp, d) = s
      in case group_index tp g of
           None \<Rightarrow> (Inl (Panic ''group exists''), tp, d)
         | Some i \<Rightarrow>
             (case assign_partition t (tp_cgroups tp ! i, d) of
                (r, c, d1) \<Rightarrow> (r, tp\<lparr>tp_cgroups := (tp_cgroups tp)[i := c]\<rparr>, d1)))"

definition register_consumer :: "consumer_register \<Rightarrow> broker \<Rightarrow> u16 io_result \<times> broker" where
  "register_consumer reg b =
     sbind (topic_mut (creg_topic_id reg) b) (\<lambda>_ b1.
     sbind (with_topic (creg_topic_id reg) (find_or_create_group (creg_group_id reg)) b1) (\<lambda>_ b2.
     with_topic (creg_topic_id reg) (assign_in_group (creg_topic_id reg) (creg_group_id reg)) b2))"

text \<open>One turn of the loop over the groups of a topic.\<close>

definition route_group :: "bytes \<Rightarrow> nat \<Rightarrow> topic \<times> data_dir \<Rightarrow> unit io_result \<times> topic \<times> data_dir" where
  "route_group payload i s =
     (let (tp, d) = s; g = tp_cgroups tp ! i
      in case smallest_partition_index g of
           Inl err \<Rightarrow> (Inl err, tp, d)
         | Inr idx \<Rightarrow>
             (case drain QUEUE_CAPACITY (tp_staging tp) (cg_partitions g ! idx) d of
                (Inl err, st, pt, d1) \<Rightarrow>
                  (Inl err, tp\<lparr>tp_staging := st, tp_cgroups := (tp_cgroups tp)[i := g\<lparr>cg_partitions := (cg_partitions g)[idx := pt]\<rparr>]\<rparr>, d1)
              | (Inr _, st, pt, d1) \<Rightarrow>
                  (case partition_append payload (pt, d1) of
                     (r, pt1, d2) \<Rightarrow>
                       (res_bind r (\<lambda>_. Inr ()),
                        tp\<lparr>tp_staging := st, tp_cgroups := (tp_cgroups tp)[i := g\<lparr>cg_partitions := (cg_partitions g)[idx := pt1]\<rparr>]\<rparr>,
                        d2))))"

fun route_groups :: "bytes \<Rightarrow> nat \<Rightarrow> nat \<Rightarrow> topic \<times> data_dir \<Rightarrow> unit io_result \<times> topic \<times> data_dir" where
  "route_groups payload i 0 s = (Inr (), s)"
| "route_groups payload i (Suc n) s =
     sbind (route_group payload i s) (\<lambda>_ s1. route_groups payload (Suc i) n s1)"

definition produce_pcm :: "env \<Rightarrow> u16 \<Rightarrow> bytes \<Rightarrow> broker \<Rightarrow> (u8 \<times> u64) io_result \<times> broker" where
  "produce_pcm e t payload b =
     sbind (append_log e t 0 payload b) (\<lambda>log_offset b1.
     if \<not> legacy_push_enabled e b1 then (Inr (0, log_offset), b1)
     else sbind (topic_mut t b1) (\<lambda>_ b2.
       with_topic t (\<lambda>(tp, d).
         if tp_cgroups tp = [] then
           sbind (append_to_staging payload (tp, d)) (\<lambda>off s. (Inr (0, max log_offset off), s))
         else
           sbind (route_groups payload 0 (length (tp_cgroups tp)) (tp, d)) (\<lambda>_ s. (Inr (0, log_offset), s))) b2))"

text \<open>\<open>consume_one\<close>, \<open>consume_from_partition\<close> and the pop of the consumer loop.\<close>

definition pop_in_group :: "u16 \<Rightarrow> u16 \<Rightarrow> topic \<times> data_dir \<Rightarrow> bytes option io_result \<times> topic \<times> data_dir" where
  "pop_in_group g pidx s =
     (let (tp, d) = s
      in case group_index tp g of
           None \<Rightarrow> (Inr None, tp, d)
         | Some i \<Rightarrow>
             let c = tp_cgroups tp ! i; idx = unat pidx
             in if idx < length (cg_partitions c) then
                  (case partition_pop_front (cg_partitions c ! idx, d) of
                     (r, q, d1) \<Rightarrow>
                       (r, tp\<lparr>tp_cgroups := (tp_cgroups tp)[i := c\<lparr>cg_partitions := (cg_partitions c)[idx := q]\<rparr>]\<rparr>, d1))
                else (Inr None, tp, d))"

definition consume_one :: "u16 \<Rightarrow> u16 \<Rightarrow> u16 \<Rightarrow> broker \<Rightarrow> bytes option io_result \<times> broker" where
  "consume_one t g pidx b =
     (if hm_contains (b_topics b) t then
        sbind (with_topic t (find_or_create_group g) b) (\<lambda>_ b1. with_topic t (pop_in_group g pidx) b1)
      else (Inr None, b))"

definition consume_from_partition :: "u16 \<Rightarrow> u16 \<Rightarrow> u16 \<Rightarrow> broker \<Rightarrow> (bool \<times> bytes option) io_result \<times> broker" where
  "consume_from_partition t g pidx b =
     sbind (consume_one t g pidx b) (\<lambda>out b1. (Inr (out \<noteq> None, out), b1))"

text \<open>One poll of the delivery loop: a message for the consumer, or nothing yet.\<close>

definition deliver_poll :: "u16 \<Rightarrow> u16 \<Rightarrow> u16 \<Rightarrow> broker \<Rightarrow> bytes option io_result \<times> broker" where
  "deliver_poll t g pidx b =
     (if hm_contains (b_topics b) t then with_topic t (pop_in_group g pidx) b else (Inr None, b))"

definition ensure_topic :: "u16 \<Rightarrow> broker \<Rightarrow> unit io_result \<times> broker" where
  "ensure_topic t b = topic_mut t b"

definition ensure_group :: "u16 \<Rightarrow> u16 \<Rightarrow> broker \<Rightarrow> unit io_result \<times> broker" where
  "ensure_group t g b =
     sbind (topic_mut t b) (\<lambda>_ b1.
     sbind (with_topic t (find_or_create_group g) b1) (\<lambda>_ b2. (Inr (), b2)))"

section \<open>Opening a broker\<close>

fun load_topics ::
  "u16 list \<Rightarrow> (u16, topic) hmap \<Rightarrow> (u16, topic_config) hmap \<Rightarrow> data_dir
    \<Rightarrow> ((u16, topic) hmap \<times> (u16, topic_config) hmap) io_result \<times> data_dir" where
  "load_topics [] ts cs d = (Inr (ts, cs), d)"
| "load_topics (t # rest) ts cs d =
     sbind (topic_load t d) (\<lambda>tp d1.
     sbind (load_topic_config d1 t, d1) (\<lambda>c d2.
     load_topics rest (hm_insert t tp ts)
       (case c of Some (pc, mr) \<Rightarrow> hm_insert t (topic_config_new t pc mr) cs | None \<Rightarrow> cs) d2))"

fun load_partitions :: "nat \<Rightarrow> nat \<Rightarrow> u16 \<Rightarrow> nat \<Rightarrow> broker \<Rightarrow> broker io_result" where
  "load_partitions i 0 t mr b = Inr b"
| "load_partitions i (Suc n) t mr b =
     res_bind (load_partition_log (b_dir b) t (of_nat i) (Some mr)) (\<lambda>log.
     load_partitions (Suc i) n t mr (b\<lparr>b_logs := hm_insert (t, of_nat i) log (b_logs b)\<rparr>))"

fun load_logs_of :: "u16 list \<Rightarrow> broker \<Rightarrow> broker io_result" where
  "load_logs_of [] b = Inr b"
| "load_logs_of (t # ts) b =
     (let cfg = broker_topic_config b t
      in res_bind (load_partitions 0 (unat (tc_partition_count cfg)) t (unat (tc_max_records cfg)) b)
           (load_logs_of ts))"

definition load_logs :: "broker \<Rightarrow> broker io_result" where
  "load_logs b = load_logs_of (hm_keys (b_topics b)) b"

definition open_with_cluster_and_id ::
  "env \<Rightarrow> u64 \<Rightarrow> cluster_config option \<Rightarrow> broker_id \<Rightarrow> data_dir \<Rightarrow> broker io_result \<times> data_dir" where
  "open_with_cluster_and_id e now cluster i d =
     sbind (load_broker_topics d, d) (\<lambda>topic_ids d1.
     sbind (load_topics topic_ids [] [] d1) (\<lambda>(ts, cs) d2.
     sbind (case cluster of
              Some seed \<Rightarrow>
                sbind (open_or_bootstrap now seed d2) (\<lambda>st d3. (Inr (Some (to_cluster_config st), Some st), d3))
            | None \<Rightarrow> (Inr (None, None), d2)) (\<lambda>(cl, st) d4.
     sbind (idempotency_load d4, d4) (\<lambda>idem d5.
     (load_logs \<lparr>b_topics = ts, b_logs = [], b_topic_configs = cs, b_committed_offsets = [], b_dir = d5,
                 b_metrics = metrics_new, b_broker_id = i, b_cluster = cl, b_cluster_state = st,
                 b_groups = [], b_idempotency = idem, b_acl = acl_from_env e\<rparr>, d5)))))"

end
