(* ===== verification/Broker_History.thy ===== *)
theory Broker_History
  imports Broker
begin

text \<open>
  The partition logs of a broker over its operations: what each operation leaves alone,
  the history of a partition (the payloads it has received, in memory and on disk), and
  the properties of producing, fetching, retrying, replicating and reopening.
\<close>

section \<open>What the operations leave alone\<close>

text \<open>Two directories with the same partition logs.\<close>

definition logs_untouched :: "data_dir \<Rightarrow> data_dir \<Rightarrow> bool" where
  "logs_untouched d d' \<longleftrightarrow> (\<forall>t p. df_get d' (log_data_path t p) = df_get d (log_data_path t p))"

lemma logs_untouched_refl [simp, intro]: "logs_untouched d d"
  by (simp add: logs_untouched_def)

lemma logs_untouched_trans [trans]: "logs_untouched d d' \<Longrightarrow> logs_untouched d' d'' \<Longrightarrow> logs_untouched d d''"
  by (simp add: logs_untouched_def)

lemma log_path_neq [simp]:
  "log_data_path t p \<noteq> broker_metadata_path" "log_data_path t p \<noteq> topic_metadata_path t'"
  "log_data_path t p \<noteq> cgroup_metadata_path t' g" "log_data_path t p \<noteq> offset_metadata_path g t' p'"
  "log_data_path t p \<noteq> idempotency_path t' p' pid" "log_data_path t p \<noteq> topic_config_path t'"
  "log_data_path t p \<noteq> log_meta_path t' p'" "log_data_path t p \<noteq> partition_metadata_path t' g p'"
  "log_data_path t p \<noteq> under_arr_path t' g p'" "log_data_path t p \<noteq> under_size_path t' g p'"
  "log_data_path t p \<noteq> cluster_state_path"
  by (simp_all add: path_keys)

lemma log_path_eq [simp]: "log_data_path t p = log_data_path t' p' \<longleftrightarrow> t = t' \<and> p = p'"
  by (simp add: path_keys)

text \<open>Every store of metadata is a write to a file that is not a partition log.\<close>

lemma stores_untouched:
  "logs_untouched d (store_broker_topics ids d)" "logs_untouched d (store_topic_groups t ids d)"
  "logs_untouched d (store_topic_config t pc mr d)" "logs_untouched d (store_committed_offset g t p off d)"
  "logs_untouched d (store_idempotency_state t p pid sq off d)" "logs_untouched d (cs_store st d)"
  "logs_untouched d (store_cgroup_partition_count t g n d)" "logs_untouched d (store_meta_offsets e t p bo no d)"
  by (simp_all add: logs_untouched_def store_broker_topics_def store_topic_groups_def store_ids_frame
      store_topic_config_def store_committed_offset_def store_idempotency_state_def cs_store_def
      store_cgroup_partition_count_def write_u16_def write_u32_def write_u64_def store_simps Let_def)

lemma mq_open_untouched: "logs_untouched d (snd (mq_open t g p d))"
  by (simp add: logs_untouched_def mq_open_frame)

lemma mq_open_ok: "\<exists>q. fst (mq_open t g p d) = Inr q"
proof -
  let ?meta = "partition_metadata_path t g p"
  let ?d = "if length (df_contents (open_create ?meta d) ?meta) < 8 then
      write_u32 ?meta 4 0 (write_u32 ?meta 0 0
        (df_put ?meta (set_len 8 (df_contents (open_create ?meta d) ?meta)) (open_create ?meta d)))
      else open_create ?meta d"
  have "8 \<le> length (df_contents ?d ?meta)"
    by (simp add: write_u32_def store_simps set_len_def write_at_def not_less)
  then have "\<exists>h v. file_read_u32 (df_contents ?d ?meta) 0 = Inr h \<and> file_read_u32 (df_contents ?d ?meta) 4 = Inr v"
    by (simp add: file_read_defs)
  then show ?thesis by (auto simp: mq_open_def Let_def)
qed

lemma mq_append_untouched: "logs_untouched d (snd (snd (mq_append x (q, d))))"
  by (simp add: logs_untouched_def mq_append_def write_u32_def store_simps Let_def)

lemma mq_pop_untouched: "logs_untouched d (snd (snd (mq_pop_front (q, d))))"
  by (simp add: logs_untouched_def mq_pop_front_def write_u32_def store_simps Let_def)

lemma topic_create_ok: "\<exists>tp d'. topic_create t d = (Inr tp, d') \<and> logs_untouched d d'"
proof -
  obtain r d' where m: "mq_open t STAGING_GROUP_ID STAGING_PARTITION_ID d = (r, d')"
    by (cases "mq_open t STAGING_GROUP_ID STAGING_PARTITION_ID d")
  with mq_open_ok [of t STAGING_GROUP_ID STAGING_PARTITION_ID d]
    mq_open_untouched [of d t STAGING_GROUP_ID STAGING_PARTITION_ID]
  show ?thesis by (auto simp: topic_create_def sbind_def)
qed

section \<open>Histories\<close>

text \<open>
  The partition \<open>(t, p)\<close> of the broker has received the payloads \<open>h\<close>: the data file holds
  them all and the in-memory log is what a log makes of them.
\<close>

definition history :: "broker \<Rightarrow> u16 \<Rightarrow> u16 \<Rightarrow> bytes list \<Rightarrow> bool" where
  "history b t p h \<longleftrightarrow> log_file_holds (b_dir b) t p h \<and>
     (case hm_get (b_logs b) (t, p) of
        Some log \<Rightarrow> (\<exists>mr. log = log_of (Some mr) h)
      | None \<Rightarrow> h = [])"

lemma history_cong:
  assumes "logs_untouched (b_dir b) (b_dir b')" and "hm_get (b_logs b') (t, p) = hm_get (b_logs b) (t, p)"
  shows "history b' t p h = history b t p h"
  using assms by (simp add: history_def log_file_holds_def logs_untouched_def)

lemma history_ensure: "history b t' p' h \<Longrightarrow> history (ensure_log_with_config t p b) t' p' h"
proof -
  assume "history b t' p' h"
  moreover have "with_max_records m = log_of (Some m) []" for m by (simp add: log_of_Nil)
  ultimately show ?thesis
    by (auto simp: history_def ensure_log_with_config_def split: option.splits)
qed

lemma topic_mut_ok: "fst (topic_mut t b) = Inr ()"
  using topic_create_ok [of t "b_dir b"] by (auto simp: topic_mut_def Let_def)

lemma topic_mut_history: "history b t' p' h \<Longrightarrow> history (snd (topic_mut t b)) t' p' h"
proof (cases "hm_contains (b_topics b) t")
  case True
  moreover assume "history b t' p' h"
  ultimately show ?thesis by (simp add: topic_mut_def history_ensure)
next
  case False
  assume h: "history b t' p' h"
  obtain tp d where tc: "topic_create t (b_dir b) = (Inr tp, d)" "logs_untouched (b_dir b) d"
    using topic_create_ok by blast
  let ?b1 = "b\<lparr>b_dir := d, b_topics := hm_insert t tp (b_topics b),
     b_topic_configs := hm_or_insert t (topic_config_default_for t) (b_topic_configs b)\<rparr>"
  have "logs_untouched (b_dir b) (b_dir (persist_topics ?b1))"
    using tc(2) stores_untouched(1) by (auto simp: persist_topics_def intro: logs_untouched_trans)
  then have "history (persist_topics ?b1) t' p' h"
    using h by (subst history_cong [of b]) (simp_all add: persist_topics_def)
  then show ?thesis using False tc(1) by (simp add: topic_mut_def Let_def history_ensure)
qed

lemma broker_meta_frame:
  "b_dir (persist_log_meta e t p b) = (case hm_get (b_logs b) (t, p) of
     Some log \<Rightarrow> store_meta_offsets e t p (Some (base_offset log)) (Some (next_offset log)) (b_dir b)
   | None \<Rightarrow> b_dir b)"
  "b_logs (persist_log_meta e t p b) = b_logs b"
  by (simp_all add: persist_log_meta_def split: option.split)

text \<open>Appending the next record of a history, in memory and on disk.\<close>

lemma write_record_frame:
  assumes "small_payload (rec_payload rec)"
  shows "fst (write_record e t p rec b) = Inr ()"
    and "b_logs (snd (write_record e t p rec b)) = b_logs b"
    and "logs_untouched (snd (append_record e t p rec (b_dir b))) (b_dir (snd (write_record e t p rec b)))"
proof -
  obtain d where d: "append_record e t p rec (b_dir b) = (Inr (), d)"
    using append_record_ok [OF assms, of e t p "b_dir b"] by (cases "append_record e t p rec (b_dir b)") auto
  then have wr: "write_record e t p rec b = (Inr (), persist_log_meta e t p (b\<lparr>b_dir := d\<rparr>))"
    by (simp add: write_record_def)
  show "fst (write_record e t p rec b) = Inr ()" by (simp add: wr)
  show "b_logs (snd (write_record e t p rec b)) = b_logs b" by (simp add: wr broker_meta_frame)
  show "logs_untouched (snd (append_record e t p rec (b_dir b))) (b_dir (snd (write_record e t p rec b)))"
    using stores_untouched(8) by (simp add: d wr broker_meta_frame split: option.split)
qed

lemma write_record_history:
  fixes b e t p h x mr
  defines "r \<equiv> write_record e t p \<lparr>rec_offset = of_nat (length h), rec_payload = x\<rparr>
    (b\<lparr>b_logs := hm_insert (t, p) (log_of (Some mr) (h @ [x])) (b_logs b)\<rparr>)"
  assumes h: "history b t p h" and small: "small_payload x"
  shows "history (snd r) t p (h @ [x])"
    and "(t', p') \<noteq> (t, p) \<Longrightarrow> history (snd r) t' p' h' = history b t' p' h'"
proof -
  let ?rec = "\<lparr>rec_offset = of_nat (length h), rec_payload = x\<rparr>"
  let ?b = "b\<lparr>b_logs := hm_insert (t, p) (log_of (Some mr) (h @ [x])) (b_logs b)\<rparr>"
  let ?d = "snd (append_record e t p ?rec (b_dir b))"
  have fr: "b_logs (snd r) = hm_insert (t, p) (log_of (Some mr) (h @ [x])) (b_logs b)"
    "logs_untouched ?d (b_dir (snd r))"
    using write_record_frame [of ?rec e t p ?b] small by (simp_all add: r_def)
  have "log_file_holds (b_dir b) t p h" using h by (simp add: history_def)
  from append_record_holds [OF this small, of e]
  show "history (snd r) t p (h @ [x])"
    using fr(2) by (auto simp: history_def log_file_holds_def logs_untouched_def fr(1))
  assume ne: "(t', p') \<noteq> (t, p)"
  then have "log_data_path t' p' \<noteq> log_data_path t p" by auto
  then have "df_get ?d (log_data_path t' p') = df_get (b_dir b) (log_data_path t' p')"
    by (intro append_record_frame) simp_all
  with fr(2) ne show "history (snd r) t' p' h' = history b t' p' h'"
    by (auto simp: history_def log_file_holds_def logs_untouched_def fr(1))
qed

section \<open>Producing\<close>

lemma sbind_ok: "fst r = Inr a \<Longrightarrow> sbind r f = f a (snd r)"
  by (simp add: sbind_def)

lemma history_ensure_log:
  assumes "history b t p h"
  shows "\<exists>mr. hm_get (b_logs (ensure_log_with_config t p b)) (t, p) = Some (log_of (Some mr) h)"
proof -
  have "with_max_records m = log_of (Some m) []" for m by (simp add: log_of_Nil)
  with assms show ?thesis by (auto simp: history_def ensure_log_with_config_def split: option.splits)
qed

lemma history_metrics [simp]: "history (b\<lparr>b_metrics := m\<rparr>) t p h = history b t p h"
  by (simp add: history_def)

lemma append_log_eq:
  assumes h: "history b t p h" and small: "small_payload x"
    and v: "validate_produce_payload e (length x) = Inr ()"
    and log: "hm_get (b_logs (ensure_log_with_config t p (snd (topic_mut t b)))) (t, p) = Some (log_of (Some mr) h)"
  shows "\<exists>m. append_log e t p x b = (Inr (of_nat (length h)),
    (snd (write_record e t p \<lparr>rec_offset = of_nat (length h), rec_payload = x\<rparr>
      ((ensure_log_with_config t p (snd (topic_mut t b)))
        \<lparr>b_logs := hm_insert (t, p) (log_of (Some mr) (h @ [x]))
           (b_logs (ensure_log_with_config t p (snd (topic_mut t b))))\<rparr>)))\<lparr>b_metrics := m\<rparr>)"
proof -
  have ok: "fst (write_record e t p \<lparr>rec_offset = off, rec_payload = x\<rparr> b') = Inr ()" for off b'
    using write_record_frame(1) small by simp
  show ?thesis
    by (rule exI)
      (simp add: append_log_def v sbind_ok [OF topic_mut_ok] log log_append_log_of sbind_ok [OF ok] Let_def)
qed

lemma append_log_history:
  assumes h: "history b t p h" and small: "small_payload x"
    and v: "validate_produce_payload e (length x) = Inr ()"
  shows "fst (append_log e t p x b) = Inr (of_nat (length h))"
    and "history (snd (append_log e t p x b)) t p (h @ [x])"
    and "(t', p') \<noteq> (t, p) \<Longrightarrow> history b t' p' h' \<Longrightarrow> history (snd (append_log e t p x b)) t' p' h'"
proof -
  let ?b2 = "ensure_log_with_config t p (snd (topic_mut t b))"
  have h2: "history ?b2 t p h" using h by (intro history_ensure topic_mut_history)
  obtain mr where log: "hm_get (b_logs ?b2) (t, p) = Some (log_of (Some mr) h)"
    using history_ensure_log [OF topic_mut_history [OF h]] by blast
  obtain m where eq: "append_log e t p x b = (Inr (of_nat (length h)),
    (snd (write_record e t p \<lparr>rec_offset = of_nat (length h), rec_payload = x\<rparr>
      (?b2\<lparr>b_logs := hm_insert (t, p) (log_of (Some mr) (h @ [x])) (b_logs ?b2)\<rparr>)))\<lparr>b_metrics := m\<rparr>)"
    using append_log_eq [OF h small v log] by blast
  note wr = write_record_history [OF h2 small, where e = e and mr = mr]
  show "fst (append_log e t p x b) = Inr (of_nat (length h))" by (simp add: eq)
  show "history (snd (append_log e t p x b)) t p (h @ [x])" using wr(1) by (simp add: eq)
  assume "(t', p') \<noteq> (t, p)" and "history b t' p' h'"
  then show "history (snd (append_log e t p x b)) t' p' h'"
    using wr(2) by (simp add: eq history_ensure topic_mut_history)
qed

text \<open>The membership of a broker is not touched by its logs.\<close>

definition same_role :: "broker \<Rightarrow> broker \<Rightarrow> bool" where
  "same_role b b' \<longleftrightarrow> b_cluster b' = b_cluster b \<and> b_broker_id b' = b_broker_id b
     \<and> b_cluster_state b' = b_cluster_state b \<and> b_idempotency b' = b_idempotency b
     \<and> b_acl b' = b_acl b"

lemma same_role_refl [simp, intro]: "same_role b b"
  by (simp add: same_role_def)

lemma same_role_trans [trans]: "same_role b b' \<Longrightarrow> same_role b' b'' \<Longrightarrow> same_role b b''"
  by (simp add: same_role_def)

lemma same_role_ensure [intro]: "same_role b (ensure_log_with_config t p b)"
  by (simp add: same_role_def ensure_log_with_config_def)

lemma same_role_write_record [intro]: "same_role b (snd (write_record e t p rec b))"
  by (simp add: same_role_def write_record_def persist_log_meta_def split: prod.split sum.split option.split)

lemma same_role_topic_mut [intro]: "same_role b (snd (topic_mut t b))"
  by (simp add: same_role_def topic_mut_def persist_topics_def ensure_log_with_config_def Let_def
      split: prod.split sum.split)

lemma is_replica_same_role: "same_role b b' \<Longrightarrow> is_partition_replica b' t p = is_partition_replica b t p"
  by (simp add: same_role_def is_partition_replica_def split: option.split)

lemma is_leader_same_role: "same_role b b' \<Longrightarrow> is_partition_leader b' t p = is_partition_leader b t p"
  by (simp add: same_role_def is_partition_leader_def partition_leader_def split: option.split)

lemma same_role_sbind:
  "same_role b (snd r) \<Longrightarrow> (\<And>a. fst r = Inr a \<Longrightarrow> same_role (snd r) (snd (f a (snd r)))) \<Longrightarrow> same_role b (snd (sbind r f))"
  by (auto simp: sbind_def split: sum.split intro: same_role_trans)

lemma same_role_logs [simp]: "same_role b (b'\<lparr>b_logs := l\<rparr>) = same_role b b'" "same_role b (b'\<lparr>b_metrics := m\<rparr>) = same_role b b'"
  by (simp_all add: same_role_def)

lemma same_role_append_log [intro]: "same_role b (snd (append_log e t p x b))"
proof -
  let ?b2 = "\<lambda>b1. ensure_log_with_config t p b1"
  have wr: "same_role b1 (snd (write_record e t p rec ((?b2 b1)\<lparr>b_logs := l\<rparr>)))" for b1 rec l
    using same_role_write_record [of "(?b2 b1)\<lparr>b_logs := l\<rparr>" e t p rec] same_role_ensure [of b1 t p]
    by (simp add: same_role_def)
  have "same_role b1 (snd (
     let b2 = ensure_log_with_config t p b1
     in case hm_get (b_logs b2) (t, p) of
          None \<Rightarrow> (log_exists_panic, b2)
        | Some log \<Rightarrow>
            let (off, log') = log_append log x;
                b3 = b2\<lparr>b_logs := hm_insert (t, p) log' (b_logs b2)\<rparr>
            in sbind (write_record e t p \<lparr>rec_offset = off, rec_payload = x\<rparr> b3) (\<lambda>_ b4.
               (Inr off, b4\<lparr>b_metrics := record_produce (length x) (b_metrics b4)\<rparr>))))" for b1
    using wr same_role_ensure
    by (auto simp: Let_def case_prod_unfold intro!: same_role_sbind split: option.split)
  then show ?thesis unfolding append_log_def by (intro same_role_sbind) auto
qed

section \<open>Fetching\<close>

text \<open>The retention limit that applies to a partition: its log's, or its topic's when it has no log yet.\<close>

definition retention :: "broker \<Rightarrow> u16 \<Rightarrow> u16 \<Rightarrow> nat option" where
  "retention b t p =
     (case hm_get (b_logs b) (t, p) of
        Some log \<Rightarrow> max_records log
      | None \<Rightarrow> Some (unat (tc_max_records (broker_topic_config b t))))"

lemma retention_ensure [simp]: "retention (ensure_log_with_config t' p' b) t p = retention b t p"
  by (auto simp: retention_def ensure_log_with_config_def broker_topic_config_def with_max_records_def
      split: option.split)

lemma retention_topic_mut [simp]: "retention (snd (topic_mut t' b)) t p = retention b t p"
proof -
  have cong: "retention b' t p = retention b t p"
    if "b_logs b' = b_logs b" "broker_topic_config b' t = broker_topic_config b t" for b'
    using that by (simp add: retention_def split: option.split)
  show ?thesis
    unfolding topic_mut_def
    by (auto simp: Let_def persist_topics_def broker_topic_config_def intro!: cong
        split: prod.split sum.split option.split)
qed

lemma retention_metrics [simp]: "retention (b\<lparr>b_metrics := m\<rparr>) t p = retention b t p"
  by (simp add: retention_def broker_topic_config_def split: option.split)

lemma ensure_log_retention:
  assumes "history b t p h"
  shows "hm_get (b_logs (ensure_log_with_config t p b)) (t, p) = Some (log_of (retention b t p) h)"
  using assms
  by (auto simp: history_def retention_def ensure_log_with_config_def log_of_Nil split: option.splits)

lemma append_log_retention:
  assumes h: "history b t p h" and small: "small_payload x"
    and v: "validate_produce_payload e (length x) = Inr ()"
  shows "retention (snd (append_log e t p x b)) t p = retention b t p"
proof -
  obtain mr where log: "hm_get (b_logs (ensure_log_with_config t p (snd (topic_mut t b)))) (t, p)
      = Some (log_of (Some mr) h)"
    using history_ensure_log [OF topic_mut_history [OF h]] by blast
  moreover have "retention (ensure_log_with_config t p (snd (topic_mut t b))) t p = retention b t p" by simp
  ultimately have "retention b t p = Some mr"
    using log_of_sel unfolding retention_def [of "ensure_log_with_config t p (snd (topic_mut t b))"] by simp
  moreover obtain m where "append_log e t p x b = (Inr (of_nat (length h)),
    (snd (write_record e t p \<lparr>rec_offset = of_nat (length h), rec_payload = x\<rparr>
      ((ensure_log_with_config t p (snd (topic_mut t b)))
        \<lparr>b_logs := hm_insert (t, p) (log_of (Some mr) (h @ [x]))
           (b_logs (ensure_log_with_config t p (snd (topic_mut t b))))\<rparr>)))\<lparr>b_metrics := m\<rparr>)"
    using append_log_eq [OF h small v log] by blast
  ultimately show ?thesis using small by (simp add: retention_def write_record_frame(2))
qed

lemma fetch_log_eq:
  assumes "history b t p h" and "is_partition_replica b t p" and "fetch_topic_id req = t"
    and "fetch_partition_id req = p"
  shows "fst (fetch_log e req b) = Inr (fr_records (log_fetch (log_of (retention b t p) h) (fetch_offset req)
      (unat (clamp_fetch_bytes e (fetch_max_bytes req)))))"
    and "history b t' p' h' \<Longrightarrow> history (snd (fetch_log e req b)) t' p' h'"
  using assms ensure_log_retention [OF assms(1)]
  by (simp_all add: fetch_log_def Let_def ensure_log_def history_ensure)

lemma clamp_small: "unat (clamp_fetch_bytes e n) < usize_max"
proof -
  have "unat (clamp_fetch_bytes e n) < 2 ^ 32" using unsigned_less [of "clamp_fetch_bytes e n"] by simp
  then show ?thesis by (simp add: usize_max_def)
qed

text \<open>
  C13: what a fetch returns.  On a replica of the partition a fetch succeeds and returns the
  longest batch of consecutive records of the history that starts at the requested offset
  (or at the oldest one kept) and fits the limit of the request and of the broker, never
  none when there is a record; and it changes no partition.
\<close>

theorem fetch_log_returns_batch:
  assumes "history b (fetch_topic_id req) (fetch_partition_id req) h" and "length h < 2 ^ 64"
    and "is_partition_replica b (fetch_topic_id req) (fetch_partition_id req)"
  shows "\<exists>rs. fst (fetch_log e req b) = Inr rs
    \<and> batch_spec (unat (clamp_fetch_bytes e (fetch_max_bytes req)))
        (available (retention b (fetch_topic_id req) (fetch_partition_id req)) h (fetch_offset req)) rs
    \<and> (\<forall>t p h'. history b t p h' \<longrightarrow> history (snd (fetch_log e req b)) t p h')"
  using fetch_log_eq(1) [OF assms(1,3)] fetch_log_eq(2) [OF assms(1,3)] fetch_loop_batch [OF clamp_small]
  by (simp add: log_fetch_available [OF assms(2)])

definition sample_broker :: broker where
  "sample_broker =
     \<lparr>b_topics = [], b_logs = [], b_topic_configs = [], b_committed_offsets = [], b_dir = empty_dir,
      b_metrics = metrics_new, b_broker_id = 1, b_cluster = None, b_cluster_state = None, b_groups = [],
      b_idempotency = idempotency_default, b_acl = acl_from_env empty_env\<rparr>"

lemma sample_broker_history: "history sample_broker t p []"
  using empty_dir_holds by (simp add: history_def sample_broker_def)

lemma sample_broker_replica: "is_partition_replica sample_broker t p"
  by (simp add: is_partition_replica_def sample_broker_def)

theorem fetch_log_returns_batch_witness:
  "\<exists>rs. fst (fetch_log empty_env \<lparr>fetch_topic_id = 1, fetch_partition_id = 0, fetch_offset = 0,
      fetch_max_bytes = 100, fetch_max_wait_ms = 0\<rparr> sample_broker) = Inr rs"
  using fetch_log_returns_batch [of sample_broker "\<lparr>fetch_topic_id = 1, fetch_partition_id = 0,
      fetch_offset = 0, fetch_max_bytes = 100, fetch_max_wait_ms = 0\<rparr>" "[]" empty_env]
    sample_broker_history sample_broker_replica by auto

text \<open>
  C12: producing.  An append of an accepted payload succeeds, returns the number of records
  the partition has ever received as the offset, extends the history of the partition by
  that payload in memory and on disk, and leaves every other partition as it was.
\<close>

theorem append_log_extends_history:
  assumes "history b t p h" and "small_payload x" and "length x \<le> max_payload_bytes e"
  shows "fst (append_log e t p x b) = Inr (of_nat (length h))
    \<and> history (snd (append_log e t p x b)) t p (h @ [x])
    \<and> (\<forall>t' p' h'. (t', p') \<noteq> (t, p) \<longrightarrow> history b t' p' h' \<longrightarrow> history (snd (append_log e t p x b)) t' p' h')"
proof -
  have "validate_produce_payload e (length x) = Inr ()" using assms(3) by (simp add: validate_produce_payload_def)
  from append_log_history [OF assms(1,2) this] show ?thesis by blast
qed

theorem append_log_extends_history_witness:
  "fst (append_log empty_env 1 0 [7, 8] sample_broker) = Inr 0
   \<and> history (snd (append_log empty_env 1 0 [7, 8] sample_broker)) 1 0 [[7, 8]]"
  using append_log_extends_history [OF sample_broker_history, of "[7, 8]" empty_env 1 0]
  by (simp add: small_payload_def max_payload_bytes_def DEFAULT_MAX_PAYLOAD_BYTES_def)

text \<open>A fetch at the newest record returns that record alone.\<close>

lemma fetch_log_newest:
  assumes h: "history b t p (h @ [x])" "length h + 1 < 2 ^ 64" and role: "is_partition_replica b t p"
    and req: "fetch_topic_id req = t" "fetch_partition_id req = p" "fetch_offset req = of_nat (length h)"
    and keep: "retention b t p = Some m" "0 < m"
  shows "fst (fetch_log e req b) = Inr [\<lparr>rec_offset = of_nat (length h), rec_payload = x\<rparr>]"
proof -
  have "fst (fetch_log e req b) = Inr (fr_records (log_fetch (log_of (Some m) (h @ [x])) (of_nat (length h))
      (unat (clamp_fetch_bytes e (fetch_max_bytes req)))))"
    using fetch_log_eq(1) [OF h(1) role req(1,2), of e] req(3) keep(1) by simp
  moreover have "available (Some m) (h @ [x]) (of_nat (length h)) = [\<lparr>rec_offset = of_nat (length h), rec_payload = x\<rparr>]"
    using keep(2) h(2) by (simp add: available_def start_of_simps unat_of_nat_u64 numbered_snoc)
  ultimately show ?thesis using h(2) by (simp add: log_fetch_available)
qed

text \<open>
  Read your writes.  A fetch at the offset an append returned gives back exactly the
  appended record, as long as the partition keeps at least one record.
\<close>

theorem produce_then_fetch:
  assumes h: "history b t p h" "length h + 1 < 2 ^ 64" and x: "small_payload x" "length x \<le> max_payload_bytes e"
    and role: "is_partition_replica b t p"
    and app: "append_log e t p x b = (Inr off, b')"
    and req: "fetch_topic_id req = t" "fetch_partition_id req = p" "fetch_offset req = off"
    and keep: "retention b t p = Some m" "0 < m"
  shows "fst (fetch_log e req b') = Inr [\<lparr>rec_offset = off, rec_payload = x\<rparr>]"
proof -
  have v: "validate_produce_payload e (length x) = Inr ()" using x(2) by (simp add: validate_produce_payload_def)
  note ap = append_log_history [OF h(1) x(1) v, unfolded app, simplified]
  have "is_partition_replica b' t p"
    using is_replica_same_role [OF same_role_append_log [of b e t p x]] role app by simp
  moreover have "retention b' t p = Some m"
    using append_log_retention [OF h(1) x(1) v] app keep(1) by simp
  ultimately show ?thesis
    using fetch_log_newest [OF ap(2) h(2) _ req(1,2), of m e] req(3) ap(1) keep(2) by simp
qed

theorem produce_then_fetch_witness:
  "fst (fetch_log empty_env \<lparr>fetch_topic_id = 1, fetch_partition_id = 0, fetch_offset = 0,
      fetch_max_bytes = 100, fetch_max_wait_ms = 0\<rparr> (snd (append_log empty_env 1 0 [7] sample_broker)))
   = Inr [\<lparr>rec_offset = 0, rec_payload = [7]\<rparr>]"
proof -
  have v: "length [7 :: u8] \<le> max_payload_bytes empty_env" "small_payload [7]"
    by (simp_all add: max_payload_bytes_def DEFAULT_MAX_PAYLOAD_BYTES_def small_payload_def)
  have "validate_produce_payload empty_env (length [7 :: u8]) = Inr ()"
    using v(1) by (simp add: validate_produce_payload_def)
  from append_log_history(1) [OF sample_broker_history v(2) this, of 1 0]
  have app: "append_log empty_env 1 0 [7] sample_broker = (Inr 0, snd (append_log empty_env 1 0 [7] sample_broker))"
    by (simp add: prod_eq_iff)
  show ?thesis
    by (rule produce_then_fetch [OF sample_broker_history _ v(2,1) sample_broker_replica app, of _ 10000])
      (simp_all add: retention_def sample_broker_def broker_topic_config_def topic_config_default_for_def
        topic_config_new_def)
qed

section \<open>Deliveries in any order\<close>

text \<open>
  A receiver of numbered items that takes the next one and ignores or refuses the others:
  \<open>at_pos s n\<close> says that the state holds the first \<open>n\<close> items.  Both a follower of a
  partition and the broker as the receiver of an idempotent producer are of this kind.
\<close>

locale ordered_delivery =
  fixes deliver :: "nat \<Rightarrow> 's \<Rightarrow> 's" and at_pos :: "'s \<Rightarrow> nat \<Rightarrow> bool" and total :: nat
  assumes takes_next: "at_pos s n \<Longrightarrow> n < total \<Longrightarrow> at_pos (deliver n s) (Suc n)"
    and keeps_other: "at_pos s n \<Longrightarrow> i < total \<Longrightarrow> i \<noteq> n \<Longrightarrow> at_pos (deliver i s) n"
    and within: "at_pos s n \<Longrightarrow> n \<le> total"
begin

lemma prefix_safe:
  assumes "at_pos s n" and "\<forall>i\<in>set is. i < total"
  shows "\<exists>m. n \<le> m \<and> m \<le> total \<and> at_pos (fold deliver is s) m
    \<and> (subseq [n..<total] is \<longrightarrow> m = total)"
  using assms
proof (induction "is" arbitrary: s n)
  case Nil
  then show ?case using within [of s n] by (intro exI [of _ n]) (auto dest: list_emb_Nil2)
next
  case (Cons i "is")
  show ?case
  proof (cases "i = n")
    case True
    with Cons.prems have "at_pos (deliver i s) (Suc n)" using takes_next by simp
    from Cons.IH [OF this] Cons.prems obtain m where m: "Suc n \<le> m" "m \<le> total"
      "at_pos (fold deliver is (deliver i s)) m" "subseq [Suc n..<total] is \<longrightarrow> m = total" by auto
    moreover have "[n..<total] = n # [Suc n..<total]" using True Cons.prems by (simp add: upt_conv_Cons)
    ultimately show ?thesis using True by (intro exI [of _ m]) auto
  next
    case False
    with Cons.prems have "at_pos (deliver i s) n" using keeps_other by simp
    from Cons.IH [OF this] Cons.prems obtain m where m: "n \<le> m" "m \<le> total"
      "at_pos (fold deliver is (deliver i s)) m" "subseq [n..<total] is \<longrightarrow> m = total" by auto
    moreover have "subseq [n..<total] is" if "subseq [n..<total] (i # is)"
      using that False by (cases "n < total") (simp_all add: upt_conv_Cons)
    ultimately show ?thesis by (intro exI [of _ m]) auto
  qed
qed

end

section \<open>Idempotent producing\<close>

lemma produce_idempotent_recorded:
  assumes "produce_idempotent e req b = (Inr off, b')"
  shows "hm_get (entries (b_idempotency b')) (idem_topic_id req, idem_partition_id req, idem_producer_id req)
    = Some (idem_sequence req, off)"
    and "validate_produce_payload e (length (idem_payload req)) = Inr ()"
proof -
  let ?t = "idem_topic_id req" and ?p = "idem_partition_id req"
    and ?pid = "idem_producer_id req" and ?sq = "idem_sequence req"
  show v: "validate_produce_payload e (length (idem_payload req)) = Inr ()"
    using assms by (cases "validate_produce_payload e (length (idem_payload req))")
      (auto simp: produce_idempotent_def)
  show "hm_get (entries (b_idempotency b')) (?t, ?p, ?pid) = Some (?sq, off)"
  proof (cases "resolve (b_idempotency b) ?t ?p ?pid ?sq")
    case (Inl err)
    with assms v show ?thesis by (simp add: produce_idempotent_def)
  next
    case (Inr act)
    show ?thesis
    proof (cases act)
      case (ReturnOffset off')
      with Inr assms v have "off' = off" "b' = b" by (simp_all add: produce_idempotent_def)
      with Inr ReturnOffset show ?thesis by (simp add: resolve_return_iff)
    next
      case AppendAction
      obtain r b2 where ap: "append_log e ?t ?p (idem_payload req) b = (r, b2)"
        by (cases "append_log e ?t ?p (idem_payload req) b")
      with Inr AppendAction assms v show ?thesis
        by (cases r) (auto simp: produce_idempotent_def record_seq_def)
    qed
  qed
qed

text \<open>
  Retries.  Whatever the broker, when an idempotent produce is answered with an offset,
  sending the same request again is answered with the same offset and changes nothing: no
  second record, no file, no counter.
\<close>

theorem produce_idempotent_retry:
  assumes "produce_idempotent e req b = (Inr off, b')"
  shows "produce_idempotent e req b' = (Inr off, b')"
proof -
  have "resolve (b_idempotency b') (idem_topic_id req) (idem_partition_id req) (idem_producer_id req)
      (idem_sequence req) = Inr (ReturnOffset off)"
    using produce_idempotent_recorded(1) [OF assms] by (simp add: resolve_return_iff)
  with produce_idempotent_recorded(2) [OF assms] show ?thesis by (simp add: produce_idempotent_def)
qed

lemma produce_idempotent_first:
  assumes "history b (idem_topic_id req) (idem_partition_id req) h" and "small_payload (idem_payload req)"
    and "validate_produce_payload e (length (idem_payload req)) = Inr ()"
    and "resolve (b_idempotency b) (idem_topic_id req) (idem_partition_id req) (idem_producer_id req)
      (idem_sequence req) = Inr AppendAction"
  shows "fst (produce_idempotent e req b) = Inr (of_nat (length h))"
    and "history (snd (produce_idempotent e req b)) (idem_topic_id req) (idem_partition_id req)
      (h @ [idem_payload req])"
    and "(t', p') \<noteq> (idem_topic_id req, idem_partition_id req) \<Longrightarrow> history b t' p' h' \<Longrightarrow>
      history (snd (produce_idempotent e req b)) t' p' h'"
proof -
  let ?t = "idem_topic_id req" and ?p = "idem_partition_id req"
  note ap = append_log_history [OF assms(1-3)]
  let ?b2 = "snd (append_log e ?t ?p (idem_payload req) b)"
  have eq: "produce_idempotent e req b = (Inr (of_nat (length h)),
      ?b2\<lparr>b_idempotency := fst (record_seq ?t ?p (idem_producer_id req) (idem_sequence req)
            (of_nat (length h)) (b_idempotency ?b2, b_dir ?b2)),
          b_dir := store_idempotency_state ?t ?p (idem_producer_id req) (idem_sequence req)
            (of_nat (length h)) (b_dir ?b2)\<rparr>)"
    by (simp add: produce_idempotent_def assms(3,4) sbind_ok [OF ap(1)] record_seq_def)
  have cong: "history (snd (produce_idempotent e req b)) t p h' = history ?b2 t p h'" for t p h'
    by (rule history_cong) (use stores_untouched(5) in \<open>simp_all add: eq\<close>)
  show "fst (produce_idempotent e req b) = Inr (of_nat (length h))" by (simp add: eq)
  show "history (snd (produce_idempotent e req b)) ?t ?p (h @ [idem_payload req])" using ap(2) by (simp add: cong)
  assume "(t', p') \<noteq> (?t, ?p)" "history b t' p' h'"
  then show "history (snd (produce_idempotent e req b)) t' p' h'" using ap(3) by (simp add: cong)
qed

theorem produce_idempotent_retry_witness:
  "\<exists>off b'. produce_idempotent empty_env \<lparr>idem_topic_id = 1, idem_partition_id = 0,
       idem_producer_id = 7, idem_sequence = 0, idem_payload = [5]\<rparr> b' = (Inr off, b')"
proof -
  let ?req = "\<lparr>idem_topic_id = 1, idem_partition_id = 0,
       idem_producer_id = 7, idem_sequence = 0, idem_payload = [5]\<rparr>"
  have "fst (produce_idempotent empty_env ?req sample_broker) = Inr (of_nat (length ([] :: bytes list)))"
    by (rule produce_idempotent_first(1))
      (simp_all add: sample_broker_history small_payload_def validate_produce_payload_def max_payload_bytes_def
        DEFAULT_MAX_PAYLOAD_BYTES_def resolve_append_iff, simp add: sample_broker_def idempotency_default_def)
  then have "produce_idempotent empty_env ?req sample_broker
      = (Inr 0, snd (produce_idempotent empty_env ?req sample_broker))" by (simp add: prod_eq_iff)
  from produce_idempotent_retry [OF this] show ?thesis by blast
qed

text \<open>The requests of one producer for one partition: item \<open>i\<close> of \<open>xs\<close> with sequence \<open>i\<close>.\<close>

definition idem_request :: "u64 \<Rightarrow> u16 \<Rightarrow> u16 \<Rightarrow> bytes list \<Rightarrow> nat \<Rightarrow> idempotent_produce_request" where
  "idem_request pid t p xs i =
     \<lparr>idem_topic_id = t, idem_partition_id = p, idem_producer_id = pid, idem_sequence = of_nat i,
      idem_payload = xs ! i\<rparr>"

definition producer_at ::
  "env \<Rightarrow> u64 \<Rightarrow> u16 \<Rightarrow> u16 \<Rightarrow> bytes list \<Rightarrow> bytes list \<Rightarrow> broker \<Rightarrow> nat \<Rightarrow> bool" where
  "producer_at e pid t p h xs b n \<longleftrightarrow>
     n \<le> length xs \<and> length xs < 2 ^ 64
     \<and> (\<forall>x\<in>set xs. small_payload x \<and> length x \<le> max_payload_bytes e)
     \<and> next_seq (b_idempotency b) (t, p, pid) = n \<and> history b t p (h @ take n xs)"

lemma producer_takes_next:
  assumes at: "producer_at e pid t p h xs b n" and n: "n < length xs"
  shows "producer_at e pid t p h xs (snd (produce_idempotent e (idem_request pid t p xs n) b)) (Suc n)"
proof -
  let ?req = "idem_request pid t p xs n"
  have x: "small_payload (xs ! n)" "length (xs ! n) \<le> max_payload_bytes e" "history b t p (h @ take n xs)"
    "next_seq (b_idempotency b) (t, p, pid) = n" "length xs < 2 ^ 64"
    using at n by (simp_all add: producer_at_def)
  have res: "resolve (b_idempotency b) t p pid (of_nat n) = Inr AppendAction"
    using x(4,5) n by (simp add: resolve_append_iff next_seq_def unat_of_nat_u64)
  have v: "validate_produce_payload e (length (xs ! n)) = Inr ()"
    using x(2) by (simp add: validate_produce_payload_def)
  note first = produce_idempotent_first [of b ?req "h @ take n xs" e, unfolded idem_request_def, simplified,
      OF x(3,1) v res]
  obtain off b' where pi: "produce_idempotent e ?req b = (Inr off, b')"
    using first(1) by (cases "produce_idempotent e ?req b") (simp add: idem_request_def)
  have "resolve (b_idempotency b') t p pid (of_nat n) = Inr (ReturnOffset off)"
    using produce_idempotent_recorded [OF pi] by (simp add: idem_request_def resolve_return_iff)
  then have "next_seq (b_idempotency b') (t, p, pid) = Suc n"
    using n x(5) by (simp add: resolve_return_iff next_seq_def unat_of_nat_u64)
  with first(2) at n pi show ?thesis
    by (simp add: producer_at_def idem_request_def take_Suc_conv_app_nth)
qed

lemma producer_keeps_other:
  assumes at: "producer_at e pid t p h xs b n" and i: "i < length xs" "i \<noteq> n"
  shows "producer_at e pid t p h xs (snd (produce_idempotent e (idem_request pid t p xs i) b)) n"
proof -
  have "resolve (b_idempotency b) t p pid (of_nat i) \<noteq> Inr AppendAction"
    using at i by (auto simp: resolve_append_iff producer_at_def next_seq_def unat_of_nat_u64)
  moreover have "validate_produce_payload e (length (xs ! i)) = Inr ()"
    using at i by (simp add: producer_at_def validate_produce_payload_def Let_def not_less)
  ultimately have "snd (produce_idempotent e (idem_request pid t p xs i) b) = b"
    by (cases "resolve (b_idempotency b) t p pid (of_nat i)")
      (auto simp: produce_idempotent_def idem_request_def split: idempotency_action.split)
  with at show ?thesis by simp
qed

interpretation producer: ordered_delivery
  "\<lambda>i b. snd (produce_idempotent e (idem_request pid t p xs i) b)" "producer_at e pid t p h xs" "length xs"
  for e pid t p h xs
  by unfold_locales (simp_all add: producer_takes_next producer_keeps_other, simp add: producer_at_def)

text \<open>
  C11: exactly once, at the log.  Let a producer have the payloads \<open>xs\<close> for a partition, and
  let its numbered requests reach the broker in any order, any number of times.  Then the
  partition has received a prefix of \<open>xs\<close>, each payload once and in order, and all of \<open>xs\<close>
  when the requests contain every one of them in order.
\<close>

theorem produce_idempotent_exactly_once:
  assumes "history b t p h" and "hm_get (entries (b_idempotency b)) (t, p, pid) = None"
    and "length xs < 2 ^ 64" and "\<forall>x\<in>set xs. small_payload x \<and> length x \<le> max_payload_bytes e"
    and "\<forall>i\<in>set is. i < length xs"
  shows "\<exists>m\<le>length xs.
    history (fold (\<lambda>i b. snd (produce_idempotent e (idem_request pid t p xs i) b)) is b) t p (h @ take m xs)
    \<and> (subseq [0..<length xs] is \<longrightarrow> m = length xs)"
proof -
  have "producer_at e pid t p h xs b 0"
    using assms by (simp add: producer_at_def next_seq_def)
  from producer.prefix_safe [OF this assms(5)] show ?thesis
    unfolding producer_at_def by blast
qed

theorem produce_idempotent_exactly_once_witness:
  "history (fold (\<lambda>i b. snd (produce_idempotent empty_env (idem_request 7 1 0 [[5], [6]] i) b)) [0, 0, 1, 0, 1]
     sample_broker) 1 0 [[5], [6]]"
proof -
  have "\<exists>m\<le>length [[5 :: u8], [6]].
    history (fold (\<lambda>i b. snd (produce_idempotent empty_env (idem_request 7 1 0 [[5], [6]] i) b)) [0, 0, 1, 0, 1]
      sample_broker) 1 0 ([] @ take m [[5], [6]])
    \<and> (subseq [0..<length [[5 :: u8], [6]]] [0, 0, 1, 0, 1] \<longrightarrow> m = length [[5 :: u8], [6]])"
    by (rule produce_idempotent_exactly_once)
      (simp_all add: sample_broker_history small_payload_def max_payload_bytes_def DEFAULT_MAX_PAYLOAD_BYTES_def,
        simp add: sample_broker_def idempotency_default_def)
  moreover have "subseq [0..<length [[5 :: u8], [6]]] [0, 0, 1, 0, 1]" by (simp add: upt_rec)
  ultimately show ?thesis by auto
qed

section \<open>Replicating\<close>

lemma apply_replica_cases:
  assumes h: "history b t p h" and role: "is_partition_replica b t p" and small: "small_payload x"
  shows "off < of_nat (length h) \<Longrightarrow> apply_replica e t p off x b = (Inr (), ensure_log_with_config t p b)"
    and "off > of_nat (length h) \<Longrightarrow> \<exists>msg. apply_replica e t p off x b
      = (io_err InvalidData msg, ensure_log_with_config t p b)"
    and "off = of_nat (length h) \<Longrightarrow> fst (apply_replica e t p off x b) = Inr ()
      \<and> history (snd (apply_replica e t p off x b)) t p (h @ [x])"
    and "(t', p') \<noteq> (t, p) \<Longrightarrow> history b t' p' h' \<Longrightarrow> history (snd (apply_replica e t p off x b)) t' p' h'"
proof -
  let ?b1 = "ensure_log_with_config t p b"
  obtain mr where log: "hm_get (b_logs ?b1) (t, p) = Some (log_of (Some mr) h)"
    using history_ensure_log [OF h] by blast
  show behind: "off < of_nat (length h) \<Longrightarrow> apply_replica e t p off x b = (Inr (), ?b1)"
    using role log by (simp add: apply_replica_def)
  show gap: "off > of_nat (length h) \<Longrightarrow> \<exists>msg. apply_replica e t p off x b = (io_err InvalidData msg, ?b1)"
    using role log by (auto simp: apply_replica_def Let_def dest: order.asym)
  let ?r = "write_record e t p \<lparr>rec_offset = of_nat (length h), rec_payload = x\<rparr>
    (?b1\<lparr>b_logs := hm_insert (t, p) (log_of (Some mr) (h @ [x])) (b_logs ?b1)\<rparr>)"
  have eq: "off = of_nat (length h) \<Longrightarrow> apply_replica e t p off x b = ?r"
    using role log by (simp add: apply_replica_def log_append_log_of Let_def)
  note wr = write_record_history [OF history_ensure [OF h] small, where e = e and mr = mr]
  show "off = of_nat (length h) \<Longrightarrow> fst (apply_replica e t p off x b) = Inr ()
      \<and> history (snd (apply_replica e t p off x b)) t p (h @ [x])"
    using eq wr(1) write_record_frame(1) small by simp
  assume other: "(t', p') \<noteq> (t, p)" "history b t' p' h'"
  consider "off < of_nat (length h)" | "off > of_nat (length h)" | "off = of_nat (length h)" by fastforce
  then show "history (snd (apply_replica e t p off x b)) t' p' h'"
    using behind gap eq wr(2) other history_ensure [OF other(2)] by cases auto
qed

lemma same_role_apply_replica [intro]: "same_role b (snd (apply_replica e t p off x b))"
proof -
  have "same_role b (snd (write_record e t p rec ((ensure_log_with_config t p b)\<lparr>b_logs := l\<rparr>)))" for rec l
    using same_role_write_record [of "(ensure_log_with_config t p b)\<lparr>b_logs := l\<rparr>" e t p rec]
      same_role_ensure [of b t p]
    by (simp add: same_role_def)
  then show ?thesis
    using same_role_ensure by (auto simp: apply_replica_def Let_def case_prod_unfold split: option.split)
qed

text \<open>The follower holds the first \<open>n\<close> records of the leader's history \<open>xs\<close>.\<close>

definition follower_at :: "u16 \<Rightarrow> u16 \<Rightarrow> bytes list \<Rightarrow> broker \<Rightarrow> nat \<Rightarrow> bool" where
  "follower_at t p xs b n \<longleftrightarrow>
     n \<le> length xs \<and> length xs < 2 ^ 64 \<and> (\<forall>x\<in>set xs. small_payload x)
     \<and> is_partition_replica b t p \<and> history b t p (take n xs)"

lemma follower_step:
  assumes at: "follower_at t p xs b n" and i: "i < length xs"
  shows "follower_at t p xs (snd (apply_replica e t p (of_nat i) (xs ! i) b)) (if i = n then Suc n else n)"
proof -
  have f: "history b t p (take n xs)" "is_partition_replica b t p" "small_payload (xs ! i)"
    "length (take n xs) = n" "unat (of_nat i :: u64) = i" "unat (of_nat n :: u64) = n"
    using at i by (auto simp: follower_at_def unat_of_nat_u64)
  note cs = apply_replica_cases(1-3) [OF f(1-3), where off = "of_nat i" and e = e, unfolded f(4) word_less_nat_alt f(5,6)]
  have "history (snd (apply_replica e t p (of_nat i) (xs ! i) b)) t p (take (if i = n then Suc n else n) xs)"
  proof (cases "i < n" "i > n" rule: bool.exhaust [case_product bool.exhaust])
    case False_False
    then show ?thesis using cs(3) i by (simp add: take_Suc_conv_app_nth)
  next
    case False_True
    then show ?thesis using cs(2) history_ensure [OF f(1)] by auto
  qed (use cs(1) history_ensure [OF f(1)] in auto)
  then show ?thesis
    using at i is_replica_same_role [OF same_role_apply_replica] by (simp add: follower_at_def)
qed

interpretation follower: ordered_delivery
  "\<lambda>i b. snd (apply_replica e t p (of_nat i) (xs ! i) b)" "follower_at t p xs" "length xs"
  for e t p xs
proof unfold_locales
  fix b n i
  show "follower_at t p xs b n \<Longrightarrow> n < length xs \<Longrightarrow>
      follower_at t p xs (snd (apply_replica e t p (of_nat n) (xs ! n) b)) (Suc n)"
    using follower_step [of t p xs b n n e] by simp
  show "follower_at t p xs b n \<Longrightarrow> i < length xs \<Longrightarrow> i \<noteq> n \<Longrightarrow>
      follower_at t p xs (snd (apply_replica e t p (of_nat i) (xs ! i) b)) n"
    using follower_step [of t p xs b n i e] by simp
  show "follower_at t p xs b n \<Longrightarrow> n \<le> length xs" by (simp add: follower_at_def)
qed

text \<open>
  C10: followers never diverge.  Let a follower hold a prefix of the leader's history and let
  replication requests for records of the leader reach it in any order, repeated or with
  gaps.  Then it still holds a prefix of the leader's history, in memory and on disk, never
  shorter than before, and the whole of it when the requests contain the missing records
  in order.
\<close>

theorem replica_prefix:
  assumes "history b t p (take n xs)" and "n \<le> length xs" and "is_partition_replica b t p"
    and "length xs < 2 ^ 64" and "\<forall>x\<in>set xs. small_payload x" and "\<forall>i\<in>set is. i < length xs"
  shows "\<exists>m. n \<le> m \<and> m \<le> length xs
    \<and> history (fold (\<lambda>i b. snd (apply_replica e t p (of_nat i) (xs ! i) b)) is b) t p (take m xs)
    \<and> (subseq [n..<length xs] is \<longrightarrow> m = length xs)"
proof -
  have "follower_at t p xs b n" using assms by (simp add: follower_at_def)
  from follower.prefix_safe [OF this assms(6), of e] show ?thesis
    unfolding follower_at_def by blast
qed

theorem replica_prefix_witness:
  "history (fold (\<lambda>i b. snd (apply_replica empty_env 1 0 (of_nat i) ([[5], [6]] ! i) b)) [1, 0, 0, 1]
     sample_broker) 1 0 [[5], [6]]"
proof -
  have "\<exists>m. 0 \<le> m \<and> m \<le> length [[5 :: u8], [6]]
    \<and> history (fold (\<lambda>i b. snd (apply_replica empty_env 1 0 (of_nat i) ([[5], [6]] ! i) b)) [1, 0, 0, 1]
        sample_broker) 1 0 (take m [[5], [6]])
    \<and> (subseq [0..<length [[5 :: u8], [6]]] [1, 0, 0, 1] \<longrightarrow> m = length [[5 :: u8], [6]])"
    by (rule replica_prefix) (simp_all add: sample_broker_history sample_broker_replica small_payload_def)
  moreover have "subseq [0..<length [[5 :: u8], [6]]] [1, 0, 0, 1]" by (simp add: upt_rec)
  ultimately show ?thesis by auto
qed

section \<open>Payloads beyond a log segment\<close>

lemma append_record_oversized:
  assumes "2 ^ 16 \<le> length (rec_payload rec)"
  shows "append_record e t p rec d
    = (io_err InvalidInput ''payload too large for log segment'', open_create (log_data_path t p) d)"
  using assms by (simp add: append_record_def Let_def)

lemma log_file_holds_open_create:
  "log_file_holds d t p h \<Longrightarrow> log_file_holds (open_create name d) t p h"
  by (auto simp: log_file_holds_def store_simps df_contents_def numbered_def split: option.splits)

text \<open>
  A payload that the configured limit allows but a log segment cannot hold is refused
  after it has been appended in memory.  The producer gets an error, the data file keeps
  the old history, and the in-memory log has one record more than the file.
\<close>

theorem oversized_payload_diverges:
  assumes h: "history b t p h" and big: "2 ^ 16 \<le> length x" and ok: "length x \<le> max_payload_bytes e"
  shows "fst (append_log e t p x b) = io_err InvalidInput ''payload too large for log segment''
    \<and> log_file_holds (b_dir (snd (append_log e t p x b))) t p h
    \<and> (\<exists>mr. hm_get (b_logs (snd (append_log e t p x b))) (t, p) = Some (log_of (Some mr) (h @ [x])))"
proof -
  let ?b2 = "ensure_log_with_config t p (snd (topic_mut t b))"
  obtain mr where log: "hm_get (b_logs ?b2) (t, p) = Some (log_of (Some mr) h)"
    using history_ensure_log [OF topic_mut_history [OF h]] by blast
  have v: "validate_produce_payload e (length x) = Inr ()"
    using ok by (simp add: validate_produce_payload_def)
  have wr: "write_record e t p \<lparr>rec_offset = off, rec_payload = x\<rparr> b'
      = (io_err InvalidInput ''payload too large for log segment'',
         b'\<lparr>b_dir := open_create (log_data_path t p) (b_dir b')\<rparr>)" for off b'
    using append_record_oversized [of "\<lparr>rec_offset = off, rec_payload = x\<rparr>"] big
    by (simp add: write_record_def io_err_def)
  have eq: "append_log e t p x b = (io_err InvalidInput ''payload too large for log segment'',
      ?b2\<lparr>b_logs := hm_insert (t, p) (log_of (Some mr) (h @ [x])) (b_logs ?b2),
          b_dir := open_create (log_data_path t p) (b_dir ?b2)\<rparr>)"
    by (simp add: append_log_def v sbind_ok [OF topic_mut_ok] log log_append_log_of wr Let_def io_err_def)
  have "log_file_holds (b_dir ?b2) t p h"
    using history_ensure [OF topic_mut_history [OF h]] by (simp add: history_def)
  then show ?thesis by (auto simp: eq log_file_holds_open_create)
qed

definition wide_env :: env where
  "wide_env = empty_env(''DMQ_MAX_PAYLOAD_BYTES'' \<mapsto> show_nat 70000)"

lemma wide_env_limit: "max_payload_bytes wide_env = 70000"
  by (simp add: max_payload_bytes_def wide_env_def parse_uint_show)

theorem oversized_payload_diverges_witness:
  "fst (append_log wide_env 1 0 (replicate 65536 0) sample_broker)
   = io_err InvalidInput ''payload too large for log segment''"
  using oversized_payload_diverges [OF sample_broker_history, of "replicate 65536 0" wide_env 1 0] wide_env_limit
  by simp

section \<open>Reopening\<close>

lemma load_partitions_logs:
  assumes "\<forall>j. i \<le> j \<and> j < i + n \<longrightarrow> log_file_holds (b_dir b) t (of_nat j) (H (of_nat j))"
    and "i + n \<le> 2 ^ 16"
  shows "\<exists>l. load_partitions i n t mr b = Inr (b\<lparr>b_logs := l\<rparr>) \<and> (\<forall>k. hm_get l k =
    (if fst k = t \<and> i \<le> unat (snd k) \<and> unat (snd k) < i + n then Some (log_of (Some mr) (H (snd k)))
     else hm_get (b_logs b) k))"
  using assms
proof (induction n arbitrary: i b)
  case 0
  then show ?case by (intro exI [of _ "b_logs b"]) auto
next
  case (Suc n)
  let ?b = "b\<lparr>b_logs := hm_insert (t, of_nat i) (log_of (Some mr) (H (of_nat i))) (b_logs b)\<rparr>"
  have step: "load_partitions i (Suc n) t mr b = load_partitions (Suc i) n t mr ?b"
    using Suc.prems(1) load_partition_log_holds [of "b_dir b" t "of_nat i" "H (of_nat i)" "Some mr"] by simp
  obtain l where l: "load_partitions (Suc i) n t mr ?b = Inr (?b\<lparr>b_logs := l\<rparr>)"
    "\<forall>k. hm_get l k = (if fst k = t \<and> Suc i \<le> unat (snd k) \<and> unat (snd k) < Suc i + n
       then Some (log_of (Some mr) (H (snd k))) else hm_get (b_logs ?b) k)"
    using Suc.IH [of "Suc i" ?b] Suc.prems by auto
  have "unat (of_nat i :: u16) = i" using Suc.prems(2) by (simp add: unat_of_nat_u16)
  then have "k = (t, of_nat i) \<longleftrightarrow> fst k = t \<and> unat (snd k) = i" for k :: "u16 \<times> u16"
    by (cases k) (auto simp: word_unat_eq_iff)
  with l step show ?case
    by (intro exI [of _ l]) (auto simp: le_less_Suc_eq dest: le_antisym)
qed

lemma load_logs_of_logs:
  assumes "\<forall>t\<in>set ts. \<forall>p. unat p < unat (tc_partition_count (broker_topic_config b t))
      \<longrightarrow> log_file_holds (b_dir b) t p (H t p)"
  shows "\<exists>l. load_logs_of ts b = Inr (b\<lparr>b_logs := l\<rparr>) \<and> (\<forall>t p. hm_get l (t, p) =
    (if t \<in> set ts \<and> unat p < unat (tc_partition_count (broker_topic_config b t))
     then Some (log_of (Some (unat (tc_max_records (broker_topic_config b t)))) (H t p))
     else hm_get (b_logs b) (t, p)))"
  using assms
proof (induction ts arbitrary: b)
  case Nil
  then show ?case by (intro exI [of _ "b_logs b"]) auto
next
  case (Cons t ts)
  let ?c = "broker_topic_config b t"
  have "unat (tc_partition_count ?c) < 2 ^ LENGTH(16)" by (rule unsigned_less)
  then have n: "0 + unat (tc_partition_count ?c) \<le> 2 ^ 16" by simp
  have files: "\<forall>j. 0 \<le> j \<and> j < 0 + unat (tc_partition_count ?c) \<longrightarrow>
      log_file_holds (b_dir b) t (of_nat j) (H t (of_nat j))"
    using Cons.prems n by (simp add: unat_of_nat_u16)
  obtain l1 where l1: "load_partitions 0 (unat (tc_partition_count ?c)) t (unat (tc_max_records ?c)) b
      = Inr (b\<lparr>b_logs := l1\<rparr>)"
    "\<forall>k. hm_get l1 k = (if fst k = t \<and> 0 \<le> unat (snd k) \<and> unat (snd k) < 0 + unat (tc_partition_count ?c)
       then Some (log_of (Some (unat (tc_max_records ?c))) (H t (snd k))) else hm_get (b_logs b) k)"
    using load_partitions_logs [OF files n, of "unat (tc_max_records ?c)"] by blast
  have cfg: "broker_topic_config (b\<lparr>b_logs := l1\<rparr>) t' = broker_topic_config b t'" for t'
    by (simp add: broker_topic_config_def)
  obtain l where l: "load_logs_of ts (b\<lparr>b_logs := l1\<rparr>) = Inr (b\<lparr>b_logs := l\<rparr>)"
    "\<forall>t p. hm_get l (t, p) = (if t \<in> set ts \<and> unat p < unat (tc_partition_count (broker_topic_config b t))
     then Some (log_of (Some (unat (tc_max_records (broker_topic_config b t)))) (H t p))
     else hm_get l1 (t, p))"
    using Cons.IH [of "b\<lparr>b_logs := l1\<rparr>"] Cons.prems by (auto simp: cfg)
  with l1 show ?case by (intro exI [of _ l]) (auto simp: Let_def)
qed

text \<open>
  Reopening.  When the data files hold the histories \<open>H\<close>, loading the logs succeeds and
  gives every partition below the configured count of every known topic exactly the log of
  its history; no other partition gets a log, whatever its file holds.
\<close>

theorem load_logs_restores:
  assumes "b_logs b = []"
    and "\<forall>t p. hm_contains (b_topics b) t \<longrightarrow> unat p < unat (tc_partition_count (broker_topic_config b t))
      \<longrightarrow> log_file_holds (b_dir b) t p (H t p)"
  shows "\<exists>b'. load_logs b = Inr b' \<and> b_dir b' = b_dir b \<and> (\<forall>t p. hm_get (b_logs b') (t, p) =
    (if hm_contains (b_topics b) t \<and> unat p < unat (tc_partition_count (broker_topic_config b t))
     then Some (log_of (Some (unat (tc_max_records (broker_topic_config b t)))) (H t p)) else None))"
  using load_logs_of_logs [of "hm_keys (b_topics b)" b H] assms
  by (auto simp: load_logs_def hm_contains_iff)

theorem load_logs_restores_witness:
  "\<exists>b'. load_logs sample_broker = Inr b' \<and> hm_get (b_logs b') (1, 0) = None"
  using load_logs_restores [of sample_broker "\<lambda>t p. []"]
  by (auto simp: sample_broker_def hm_contains_def)

lemma load_partitions_keys:
  "load_partitions i n t mr b = Inr b' \<Longrightarrow> i + n \<le> 2 ^ 16 \<Longrightarrow> fst k \<noteq> t \<or> i + n \<le> unat (snd k) \<Longrightarrow>
     hm_get (b_logs b') k = hm_get (b_logs b) k"
proof (induction n arbitrary: i b)
  case 0
  then show ?case by simp
next
  case (Suc n)
  have "unat (of_nat i :: u16) = i" using Suc.prems(2) by (simp add: unat_of_nat_u16)
  then have "k \<noteq> (t, of_nat i)" using Suc.prems(3) by auto
  with Suc.prems Suc.IH [of "Suc i"] show ?case by (auto simp: res_bind_Inr_iff)
qed

lemma load_partitions_frame:
  "load_partitions i n t mr b = Inr b' \<Longrightarrow> b' = b\<lparr>b_logs := b_logs b'\<rparr>"
  by (induction n arbitrary: i b) (fastforce simp: res_bind_Inr_iff)+

lemma load_logs_of_keys:
  assumes "load_logs_of ts b = Inr b'" and "unat (tc_partition_count (broker_topic_config b t)) \<le> unat p"
  shows "hm_get (b_logs b') (t, p) = hm_get (b_logs b) (t, p)"
  using assms
proof (induction ts arbitrary: b)
  case Nil
  then show ?case by simp
next
  case (Cons t' ts)
  let ?c = "broker_topic_config b t'"
  from Cons.prems(1) obtain b1 where b1:
    "load_partitions 0 (unat (tc_partition_count ?c)) t' (unat (tc_max_records ?c)) b = Inr b1"
    "load_logs_of ts b1 = Inr b'" by (auto simp: Let_def res_bind_Inr_iff)
  have "unat (tc_partition_count ?c) < 2 ^ 16"
    using unsigned_less [of "tc_partition_count ?c"] by simp
  with load_partitions_keys [OF b1(1), of "(t, p)"] Cons.prems(2)
  have "hm_get (b_logs b1) (t, p) = hm_get (b_logs b) (t, p)" by auto
  moreover have "broker_topic_config b1 t = broker_topic_config b t"
    using arg_cong [OF load_partitions_frame [OF b1(1)], of "\<lambda>b. broker_topic_config b t"]
    by (simp add: broker_topic_config_def)
  ultimately show ?case using Cons.IH [OF b1(2)] Cons.prems(2) by simp
qed

lemma append_log_fresh:
  assumes "hm_get (b_logs b) (t, p) = None" and "small_payload x" and "length x \<le> max_payload_bytes e"
  shows "fst (append_log e t p x b) = Inr 0"
proof -
  have v: "validate_produce_payload e (length x) = Inr ()"
    using assms(3) by (simp add: validate_produce_payload_def)
  have "hm_get (b_logs (snd (topic_mut t b))) (t, p) \<in> {None} \<union> Some ` range with_max_records"
    using assms(1) by (auto simp: topic_mut_def persist_topics_def ensure_log_with_config_def Let_def
        split: prod.split sum.split)
  then obtain m where log: "hm_get (b_logs (ensure_log_with_config t p (snd (topic_mut t b)))) (t, p)
      = Some (log_of (Some m) [])"
    by (auto simp: ensure_log_with_config_def log_of_Nil)
  have ok: "fst (write_record e t p \<lparr>rec_offset = off, rec_payload = x\<rparr> b') = Inr ()" for off b'
    using write_record_frame(1) assms(2) by simp
  show ?thesis
    by (simp add: append_log_def v sbind_ok [OF topic_mut_ok] log log_append_log_of sbind_ok [OF ok] Let_def)
qed

text \<open>
  Partitions that the topic's configuration does not count are forgotten by a restart.
  After loading, an append to such a partition is given offset 0 again, however many
  records its file holds; a log that a follower received by replication, whose topic has
  the default configuration, is of this kind.
\<close>

theorem uncounted_partition_restarts_at_zero:
  assumes "load_logs b = Inr b'" and "b_logs b = []"
    and "unat (tc_partition_count (broker_topic_config b t)) \<le> unat p"
    and "small_payload x" and "length x \<le> max_payload_bytes e"
  shows "fst (append_log e t p x b') = Inr 0"
  using append_log_fresh [OF _ assms(4,5)] load_logs_of_keys [OF assms(1) [unfolded load_logs_def] assms(3)] assms(2)
  by simp

theorem uncounted_partition_restarts_at_zero_witness:
  "fst (append_log empty_env 1 3 [9] (sample_broker\<lparr>b_dir := df_put (log_data_path 1 3)
     (encode_log (numbered [[4], [5]])) empty_dir\<rparr>)) = Inr 0"
  by (rule uncounted_partition_restarts_at_zero [where b = "sample_broker\<lparr>b_dir := df_put (log_data_path 1 3)
     (encode_log (numbered [[4], [5]])) empty_dir\<rparr>"])
    (simp_all add: load_logs_def sample_broker_def broker_topic_config_def topic_config_default_for_def
      topic_config_new_def small_payload_def max_payload_bytes_def DEFAULT_MAX_PAYLOAD_BYTES_def)

end
