(* ===== verification/Broker_Steps.thy ===== *)
theory Broker_Steps
  imports Broker_History
begin

text \<open>
  The broker as a state machine: one step per operation that changes it, in any order, and
  the two invariants that hold over all of them.  The history of every partition only
  grows, and the view of the cluster that routes requests is the one of the replicated
  cluster state.
\<close>

section \<open>What one operation keeps\<close>

definition grows :: "broker \<Rightarrow> broker \<Rightarrow> bool" where
  "grows b b' \<longleftrightarrow> (\<forall>t p h. history b t p h \<longrightarrow> (\<exists>ext. history b' t p (h @ ext)))"

definition view_synced :: "broker \<Rightarrow> bool" where
  "view_synced b \<longleftrightarrow> b_cluster b = map_option to_cluster_config (b_cluster_state b)"

text \<open>Every partition has a history: what is in memory is what is on disk.\<close>

definition logs_ok :: "broker \<Rightarrow> bool" where
  "logs_ok b \<longleftrightarrow> (\<forall>t p. \<exists>h. history b t p h)"

definition keeps :: "broker \<Rightarrow> broker \<Rightarrow> bool" where
  "keeps b b' \<longleftrightarrow> (logs_ok b \<longrightarrow> grows b b') \<and> (view_synced b \<longrightarrow> view_synced b')"

lemma grows_ok: "grows b b' \<Longrightarrow> logs_ok b \<Longrightarrow> logs_ok b'"
  unfolding grows_def logs_ok_def by blast

lemma grows_trans: "grows b b' \<Longrightarrow> grows b' b'' \<Longrightarrow> grows b b''"
  unfolding grows_def by (metis append.assoc)

lemma keeps_refl [simp, intro]: "keeps b b"
  by (auto simp: keeps_def grows_def intro: exI [of _ "[]"])

lemma keeps_trans [trans]: "keeps b b' \<Longrightarrow> keeps b' b'' \<Longrightarrow> keeps b b''"
  unfolding keeps_def using grows_trans grows_ok by blast

lemma keeps_sbind:
  "keeps b (snd r) \<Longrightarrow> (\<And>a. fst r = Inr a \<Longrightarrow> keeps (snd r) (snd (f a (snd r)))) \<Longrightarrow> keeps b (snd (sbind r f))"
  by (auto simp: sbind_def split: sum.split intro: keeps_trans)

text \<open>An operation that touches neither the logs nor the membership.\<close>

lemma keeps_quiet:
  assumes "logs_untouched (b_dir b) (b_dir b')" and "b_logs b' = b_logs b"
    and "b_cluster b' = b_cluster b" and "b_cluster_state b' = b_cluster_state b"
  shows "keeps b b'"
  using assms history_cong [OF assms(1)] unfolding keeps_def grows_def view_synced_def
  by (metis append_Nil2)

lemma keeps_history:
  assumes "\<And>t p h. logs_ok b \<Longrightarrow> history b t p h \<Longrightarrow> \<exists>ext. history b' t p (h @ ext)" and "same_role b b'"
  shows "keeps b b'"
  using assms by (simp add: keeps_def grows_def view_synced_def same_role_def)

lemma keeps_same:
  assumes "\<And>t p h. history b t p h \<Longrightarrow> history b' t p h" and "same_role b b'"
  shows "keeps b b'"
  by (rule keeps_history [OF _ assms(2)]) (metis assms(1) append_Nil2)

lemma keeps_ensure [intro]: "keeps b (ensure_log_with_config t p b)"
  by (rule keeps_same) (auto intro: history_ensure)

lemma keeps_topic_mut [intro]: "keeps b (snd (topic_mut t b))"
  by (rule keeps_same) (auto intro: topic_mut_history)

lemma keeps_fold:
  "(\<And>x b. x \<in> set xs \<Longrightarrow> keeps b (f x b)) \<Longrightarrow> keeps b (fold f xs b)"
  by (induction xs arbitrary: b) (auto intro: keeps_trans)

section \<open>Producing, replicating, fetching\<close>

lemma keeps_append_log:
  assumes "small_payload x \<or> max_payload_bytes e < length x"
  shows "keeps b (snd (append_log e t p x b))"
proof (cases "max_payload_bytes e < length x")
  case True
  then show ?thesis by (simp add: append_log_def validate_produce_payload_def io_err_def)
next
  case False
  then have v: "validate_produce_payload e (length x) = Inr ()" and small: "small_payload x"
    using assms by (simp_all add: validate_produce_payload_def)
  show ?thesis
  proof (rule keeps_history)
    fix t' p' h'
    assume "logs_ok b" and h: "history b t' p' h'"
    then obtain h0 where h0: "history b t p h0" by (auto simp: logs_ok_def)
    note ap = append_log_history(2,3) [OF _ small v]
    show "\<exists>ext. history (snd (append_log e t p x b)) t' p' (h' @ ext)"
      using ap(1) [of b t p h'] ap(2) [OF h0 _ h] h by (cases "(t', p') = (t, p)") (auto intro: exI [of _ "[]"])
  qed (rule same_role_append_log)
qed

lemma keeps_apply_replica:
  assumes small: "small_payload x"
  shows "keeps b (snd (apply_replica e t p off x b))"
proof (cases "is_partition_replica b t p")
  case False
  then show ?thesis by (simp add: apply_replica_def)
next
  case True
  show ?thesis
  proof (rule keeps_history)
    fix t' p' h'
    assume "logs_ok b" and h: "history b t' p' h'"
    then obtain h0 where h0: "history b t p h0" by (auto simp: logs_ok_def)
    note cs = apply_replica_cases [OF _ True small]
    have "\<exists>ext. history (snd (apply_replica e t p off x b)) t p (h'' @ ext)" if h'': "history b t p h''" for h''
    proof -
      consider "off < of_nat (length h'')" | "off > of_nat (length h'')" | "off = of_nat (length h'')" by fastforce
      then show ?thesis
        using cs(1-3) [OF h'', of off e] history_ensure [OF h'', of t p]
        by cases (auto intro: exI [of _ "[]"])
    qed
    moreover have "history (snd (apply_replica e t p off x b)) t' p' h'" if "(t', p') \<noteq> (t, p)"
      using cs(4) [OF h0 that h] .
    ultimately show "\<exists>ext. history (snd (apply_replica e t p off x b)) t' p' (h' @ ext)"
      using h by (cases "(t', p') = (t, p)") (auto intro: exI [of _ "[]"])
  qed (rule same_role_apply_replica)
qed

lemma keeps_metrics [simp]: "keeps b (b'\<lparr>b_metrics := m\<rparr>) = keeps b b'"
  by (simp add: keeps_def grows_def view_synced_def)

lemma keeps_fetch_log [intro]: "keeps b (snd (fetch_log e req b))"
  using keeps_ensure by (auto simp: fetch_log_def ensure_log_def Let_def split: option.split)

lemma keeps_produce_idempotent:
  assumes "small_payload (idem_payload req) \<or> max_payload_bytes e < length (idem_payload req)"
  shows "keeps b (snd (produce_idempotent e req b))"
proof -
  have rec: "keeps b (b\<lparr>b_idempotency := st, b_dir := store_idempotency_state t p pid sq off (b_dir b)\<rparr>)"
    for b st t p pid sq off
    by (rule keeps_quiet) (simp_all add: stores_untouched)
  show ?thesis
    unfolding produce_idempotent_def
    by (intro keeps_sbind keeps_append_log [OF assms])
      (auto intro!: keeps_sbind keeps_append_log [OF assms] rec simp: record_seq_def split: idempotency_action.split)
qed

section \<open>Offsets, administration and groups\<close>

lemma keeps_commit [intro]: "keeps b (broker_commit_offset req b)"
  by (rule keeps_quiet) (simp_all add: broker_commit_offset_def Let_def stores_untouched)

lemma keeps_load_committed [intro]: "keeps b (snd (broker_load_committed_offset g t p b))"
  by (rule keeps_quiet)
    (auto simp: broker_load_committed_offset_def sbind_def split: option.split sum.split)

lemma keeps_create_topic [intro]: "keeps b (snd (create_topic cfg b))"
proof -
  have "keeps b (b\<lparr>b_dir := store_topic_config t pc mr (b_dir b), b_topic_configs := cs\<rparr>)" for t pc mr cs
    by (rule keeps_quiet) (simp_all add: stores_untouched)
  then have "keeps b (snd (topic_mut t' (b\<lparr>b_dir := store_topic_config t pc mr (b_dir b), b_topic_configs := cs\<rparr>)))"
    for t' t pc mr cs using keeps_topic_mut keeps_trans by blast
  then show ?thesis
    by (auto simp: create_topic_def Let_def intro!: keeps_sbind keeps_fold)
qed

lemma keeps_groups [simp]: "keeps b (b'\<lparr>b_groups := gs\<rparr>) = keeps b b'"
proof -
  have "history (b'\<lparr>b_groups := gs\<rparr>) t p h = history b' t p h" for t p h by (simp add: history_def)
  then show ?thesis by (simp add: keeps_def grows_def view_synced_def)
qed

lemma keeps_join [intro]: "keeps b (snd (broker_join_group now req b))"
  unfolding broker_join_group_def
  by (rule keeps_sbind) (auto simp: Let_def case_prod_unfold)

lemma keeps_group_heartbeat [intro]: "keeps b (snd (broker_group_heartbeat e now req b))"
  by (auto simp: broker_group_heartbeat_def Let_def case_prod_unfold split: option.split)

section \<open>Cluster control\<close>

lemma config_record_heartbeat [simp]: "to_cluster_config (record_heartbeat i now st) = to_cluster_config st"
  by (simp add: to_cluster_config_def record_heartbeat_def)

lemma failover_nothing:
  assumes "snd (failover_dead_leaders now tmo st) = []"
  shows "fst (failover_dead_leaders now tmo st) = st"
proof -
  have "promote st now tmo a = a" if "a \<in> set (cs_assignments st)" for a
    using assms that by (auto simp: failover_eq filter_empty_conv)
  then have "map (promote st now tmo) (cs_assignments st) = cs_assignments st" by (simp add: map_idI)
  then show ?thesis by (simp add: failover_eq)
qed

lemma keeps_view:
  assumes "logs_untouched (b_dir b) (b_dir b')" and "b_logs b' = b_logs b" and "view_synced b \<Longrightarrow> view_synced b'"
  shows "keeps b b'"
  using assms history_cong [OF assms(1)] unfolding keeps_def grows_def by (metis append_Nil2)

lemma keeps_apply_cluster_state [intro]: "keeps b (apply_cluster_state st b)"
  by (rule keeps_view) (simp_all add: apply_cluster_state_def sync_cluster_view_def stores_untouched view_synced_def)

lemma keeps_broker_heartbeat [intro]: "keeps b (snd (handle_broker_heartbeat e now req b))"
  by (rule keeps_view)
    (auto simp: handle_broker_heartbeat_def sync_cluster_view_def stores_untouched view_synced_def Let_def
      split: option.splits prod.splits)

lemma keeps_run_failover [intro]: "keeps b (snd (run_failover_at e now b))"
proof (cases "b_cluster_state b")
  case None
  then show ?thesis by (simp add: run_failover_at_def)
next
  case (Some st)
  obtain st1 ch where fo: "failover_dead_leaders now (heartbeat_timeout_ms e) st = (st1, ch)"
    by (cases "failover_dead_leaders now (heartbeat_timeout_ms e) st")
  with failover_nothing [of now "heartbeat_timeout_ms e" st] have "ch = [] \<Longrightarrow> st1 = st" by simp
  with Some fo show ?thesis
    by (intro keeps_view)
      (auto simp: run_failover_at_def sync_cluster_view_def stores_untouched view_synced_def Let_def)
qed

lemma keeps_controller_tick [intro]: "keeps b (controller_tick e now b)"
proof (cases "b_cluster_state b")
  case None
  then show ?thesis by (simp add: controller_tick_def)
next
  case (Some st)
  have "keeps b (b\<lparr>b_cluster_state := Some (record_heartbeat (b_broker_id b) now st)\<rparr>)"
    using Some by (intro keeps_view) (simp_all add: view_synced_def)
  then show ?thesis using Some keeps_run_failover keeps_trans by (auto simp: controller_tick_def)
qed

section \<open>The legacy push path\<close>

text \<open>An operation on a topic and the directory that writes to no partition log.\<close>

definition log_free :: "(topic \<times> data_dir \<Rightarrow> 'a \<times> topic \<times> data_dir) \<Rightarrow> bool" where
  "log_free f \<longleftrightarrow> (\<forall>tp d. logs_untouched d (snd (snd (f (tp, d)))))"

lemma keeps_with_topic: "log_free f \<Longrightarrow> keeps b (snd (with_topic t f b))"
  by (rule keeps_quiet)
    (auto simp: with_topic_def log_free_def split: option.split prod.split, metis snd_conv)

lemma untouched_sbind:
  "logs_untouched d (snd r) \<Longrightarrow> (\<And>a. fst r = Inr a \<Longrightarrow> logs_untouched (snd r) (snd (f a (snd r)))) \<Longrightarrow>
     logs_untouched d (snd (sbind r f))"
  by (auto simp: sbind_def split: sum.split intro: logs_untouched_trans)

lemma cgroup_create_untouched: "logs_untouched d (snd (cgroup_create_new t g d))"
  unfolding cgroup_create_new_def partition_open_def
  by (rule untouched_sbind)
    (auto intro: logs_untouched_trans stores_untouched(7) mq_open_untouched)

lemma log_free_find_or_create: "log_free (find_or_create_group g)"
proof -
  have "logs_untouched d (snd (snd (find_or_create_group g (tp, d))))" for tp d
  proof -
    obtain r d1 where c: "cgroup_create_new (tp_topic_id tp) g d = (r, d1)"
      by (cases "cgroup_create_new (tp_topic_id tp) g d")
    with cgroup_create_untouched [of d "tp_topic_id tp" g] have "logs_untouched d d1" by simp
    then show ?thesis
      using c by (auto simp: find_or_create_group_def persist_groups_def Let_def split: sum.split
          intro: logs_untouched_trans stores_untouched(2))
  qed
  then show ?thesis by (simp add: log_free_def)
qed

lemma assign_partition_untouched: "logs_untouched d (snd (snd (assign_partition t (g, d))))"
proof -
  let ?p = "of_nat (length (cg_partitions g)) + 1"
  obtain r d1 where o: "mq_open t (cg_group_id g) ?p d = (r, d1)"
    by (cases "mq_open t (cg_group_id g) ?p d")
  with mq_open_untouched [of d t "cg_group_id g" ?p] have "logs_untouched d d1" by simp
  with o show ?thesis
    by (auto simp: assign_partition_def partition_open_def Let_def split: sum.split
        intro: logs_untouched_trans stores_untouched(7))
qed

lemma log_free_assign: "log_free (assign_in_group t g)"
proof -
  have "logs_untouched d (snd (snd (assign_in_group t g (tp, d))))" for tp d
    using assign_partition_untouched
    by (auto simp: assign_in_group_def split: option.split prod.split) (metis snd_conv)
  then show ?thesis by (simp add: log_free_def)
qed

lemma drain_untouched: "logs_untouched d (snd (snd (snd (drain n st pt d))))"
proof (induction n arbitrary: st pt d)
  case 0
  then show ?case by simp
next
  case (Suc n)
  obtain r st1 d1 where pop: "mq_pop_front (st, d) = (r, st1, d1)" by (cases "mq_pop_front (st, d)")
  with mq_pop_untouched [of d st] have 1: "logs_untouched d d1" by simp
  show ?case
  proof (cases "\<exists>x. r = Inr (Some x)")
    case False
    then show ?thesis using pop 1 by (auto split: sum.split option.split)
  next
    case True
    then obtain x where x: "r = Inr (Some x)" by blast
    obtain r2 pt1 d2 where app: "mq_append x (pt, d1) = (r2, pt1, d2)" by (cases "mq_append x (pt, d1)")
    with mq_append_untouched [of d1 x pt] have "logs_untouched d1 d2" by simp
    with 1 have 2: "logs_untouched d d2" by (rule logs_untouched_trans)
    with pop x app Suc.IH [of d2 st1 pt1] show ?thesis
      by (cases r2) (auto simp: partition_append_def intro: logs_untouched_trans)
  qed
qed

lemma log_free_route_group: "log_free (route_group payload i)"
proof -
  have "logs_untouched d (snd (snd (route_group payload i (tp, d))))" for tp d
  proof (cases "smallest_partition_index (tp_cgroups tp ! i)")
    case (Inl err)
    then show ?thesis by (simp add: route_group_def Let_def)
  next
    case (Inr idx)
    let ?pt = "cg_partitions (tp_cgroups tp ! i) ! idx"
    obtain r st pt d1 where dr: "drain QUEUE_CAPACITY (tp_staging tp) ?pt d = (r, st, pt, d1)"
      by (cases "drain QUEUE_CAPACITY (tp_staging tp) ?pt d")
    with drain_untouched [of d QUEUE_CAPACITY "tp_staging tp" ?pt] have 1: "logs_untouched d d1" by simp
    obtain r2 pt1 d2 where app: "mq_append payload (pt, d1) = (r2, pt1, d2)"
      by (cases "mq_append payload (pt, d1)")
    with mq_append_untouched [of d1 payload pt] have "logs_untouched d1 d2" by simp
    with 1 have "logs_untouched d d2" by (rule logs_untouched_trans)
    with 1 Inr dr app show ?thesis by (cases r) (simp_all add: route_group_def Let_def partition_append_def)
  qed
  then show ?thesis by (simp add: log_free_def)
qed

lemma log_free_sbind:
  assumes f: "log_free f" and k: "\<And>a. log_free (k a)"
  shows "log_free (\<lambda>s. sbind (f s) (\<lambda>a s1. k a s1))"
proof -
  have "logs_untouched d (snd (snd (sbind (f (tp, d)) (\<lambda>a s1. k a s1))))" for tp d
  proof (cases "f (tp, d)")
    case (fields r tp1 d1)
    from f fields have 1: "logs_untouched d d1" unfolding log_free_def by (metis snd_conv)
    moreover have "logs_untouched d1 (snd (snd (k a (tp1, d1))))" for a
      using k [of a] by (simp add: log_free_def)
    ultimately show ?thesis using fields by (cases r) (auto intro: logs_untouched_trans)
  qed
  then show ?thesis by (simp add: log_free_def)
qed

lemma log_free_route_groups: "log_free (route_groups payload i n)"
proof (induction n arbitrary: i)
  case 0
  then show ?case by (simp add: log_free_def)
next
  case (Suc n)
  show ?case
    unfolding route_groups.simps(2) [abs_def]
    using log_free_sbind [OF log_free_route_group [of payload i], of "\<lambda>_. route_groups payload (Suc i) n"] Suc
    by (simp add: log_free_def)
qed

lemma log_free_staging: "log_free (append_to_staging payload)"
proof -
  have "logs_untouched d (snd (snd (append_to_staging payload (tp, d))))" for tp d
    using mq_append_untouched by (auto simp: append_to_staging_def split: prod.split) (metis snd_conv)
  then show ?thesis by (simp add: log_free_def)
qed

lemma log_free_pop: "log_free (pop_in_group g pidx)"
proof -
  have "logs_untouched d (snd (snd (pop_in_group g pidx (tp, d))))" for tp d
    using mq_pop_untouched
    by (auto simp: pop_in_group_def partition_pop_front_def Let_def split: option.split prod.split)
      (metis snd_conv)
  then show ?thesis by (simp add: log_free_def)
qed

lemmas keeps_topics = keeps_with_topic [OF log_free_find_or_create] keeps_with_topic [OF log_free_assign]
  keeps_with_topic [OF log_free_pop]

lemma keeps_register_producer [intro]: "keeps b (snd (register_producer reg b))"
  unfolding register_producer_def by (auto intro!: keeps_sbind)

lemma keeps_register_consumer [intro]: "keeps b (snd (register_consumer reg b))"
  unfolding register_consumer_def by (auto intro!: keeps_sbind keeps_topics)

lemma keeps_ensure_group [intro]: "keeps b (snd (ensure_group t g b))"
  unfolding ensure_group_def by (auto intro!: keeps_sbind keeps_topics)

lemma keeps_consume_one [intro]: "keeps b (snd (consume_one t g pidx b))"
  unfolding consume_one_def by (auto intro!: keeps_sbind keeps_topics)

lemma keeps_deliver_poll [intro]: "keeps b (snd (deliver_poll t g pidx b))"
  by (auto simp: deliver_poll_def intro!: keeps_topics)

lemma log_free_produce:
  "log_free (\<lambda>(tp, d). if tp_cgroups tp = []
     then sbind (append_to_staging payload (tp, d)) (\<lambda>off s. (Inr (0, max log_offset off), s))
     else sbind (route_groups payload 0 (length (tp_cgroups tp)) (tp, d)) (\<lambda>_ s. (Inr (0, log_offset), s)))"
  using log_free_staging [of payload] log_free_route_groups [of payload]
  by (auto simp: log_free_def sbind_def split: sum.split)

lemma keeps_produce_pcm:
  assumes "small_payload x \<or> max_payload_bytes e < length x"
  shows "keeps b (snd (produce_pcm e t x b))"
  unfolding produce_pcm_def
  by (intro keeps_sbind keeps_append_log [OF assms])
    (auto intro!: keeps_sbind keeps_with_topic [OF log_free_produce])

section \<open>The broker as a state machine\<close>

inductive broker_step :: "env \<Rightarrow> broker \<Rightarrow> broker \<Rightarrow> bool" for e :: env where
  append: "broker_step e b (snd (append_log e t p x b))"
| idempotent: "broker_step e b (snd (produce_idempotent e ireq b))"
| replicate: "small_payload x \<Longrightarrow> broker_step e b (snd (apply_replica e t p off x b))"
| fetch: "broker_step e b (snd (fetch_log e freq b))"
| commit: "broker_step e b (broker_commit_offset creq b)"
| load_commit: "broker_step e b (snd (broker_load_committed_offset g t p b))"
| create: "broker_step e b (snd (create_topic cfg b))"
| join: "broker_step e b (snd (broker_join_group now jreq b))"
| group_beat: "broker_step e b (snd (broker_group_heartbeat e now greq b))"
| broker_beat: "broker_step e b (snd (handle_broker_heartbeat e now breq b))"
| tick: "broker_step e b (controller_tick e now b)"
| failover: "broker_step e b (snd (run_failover_at e now b))"
| sync_state: "broker_step e b (apply_cluster_state st b)"
| reg_producer: "broker_step e b (snd (register_producer preg b))"
| reg_consumer: "broker_step e b (snd (register_consumer creg b))"
| push: "broker_step e b (snd (produce_pcm e t x b))"
| consume: "broker_step e b (snd (consume_one t g pidx b))"
| poll: "broker_step e b (snd (deliver_poll t g pidx b))"
| ensure_topic: "broker_step e b (snd (ensure_topic t b))"
| ensure_group: "broker_step e b (snd (ensure_group t g b))"

lemma broker_step_keeps:
  assumes "broker_step e b b'" and "max_payload_bytes e < 2 ^ 16"
  shows "keeps b b'"
proof -
  have pay: "small_payload x \<or> max_payload_bytes e < length x" for x
    using assms(2) by (auto simp: small_payload_def)
  show ?thesis
    using assms(1)
    by cases (auto intro: keeps_append_log [OF pay] keeps_produce_idempotent [OF pay] keeps_apply_replica
        keeps_produce_pcm [OF pay] simp: ensure_topic_def)
qed

lemma broker_run_keeps:
  assumes "(broker_step e)\<^sup>*\<^sup>* b b'" and "max_payload_bytes e < 2 ^ 16"
  shows "keeps b b'"
  using assms(1) by induction (auto intro: keeps_trans broker_step_keeps [OF _ assms(2)])

text \<open>A broker opened on an empty directory.\<close>

lemma open_empty:
  "\<exists>b d. open_with_cluster_and_id e now cluster i empty_dir = (Inr b, d) \<and> logs_ok b \<and> view_synced b
     \<and> b_committed_offsets b = []"
proof -
  have topics: "load_broker_topics empty_dir = Inr []"
    by (simp add: load_broker_topics_def load_ids_def empty_dir_def df_get_def)
  have idem: "\<exists>es. load_all_idempotency d = Inr es" if "idempotency_files_whole d" for d
    using load_all_loop_total [OF that] unfolding load_all_idempotency_def by blast
  have ok: "logs_ok b" if "b_logs b = []" "logs_untouched empty_dir (b_dir b)" for b
    using that empty_dir_holds
    by (auto simp: logs_ok_def history_def log_file_holds_def logs_untouched_def intro: exI [of _ "[]"])
  show ?thesis
  proof (cases cluster)
    case None
    obtain es where "load_all_idempotency empty_dir = Inr es" using idem [OF empty_dir_whole] by blast
    then show ?thesis
      using topics None
      by (simp add: open_with_cluster_and_id_def idempotency_load_def load_logs_def view_synced_def ok)
  next
    case (Some seed)
    let ?st = "from_seed now seed"
    have boot: "open_or_bootstrap now seed empty_dir = (Inr ?st, cs_store ?st empty_dir)"
      by (simp add: open_or_bootstrap_def empty_dir_def df_get_def Let_def)
    have "idempotency_files_whole (cs_store ?st empty_dir)"
      by (simp add: idempotency_files_whole_def cs_store_def store_simps path_keys)
        (simp add: empty_dir_def df_get_def)
    then obtain es where "load_all_idempotency (cs_store ?st empty_dir) = Inr es" using idem by blast
    then show ?thesis
      using topics Some boot stores_untouched(6) [of empty_dir ?st]
      by (simp add: open_with_cluster_and_id_def idempotency_load_def load_logs_def view_synced_def ok)
  qed
qed

text \<open>
  C2: no record is ever lost, moved or rewritten.  Open a broker on an empty directory, with
  or without a cluster, and let any operations run in any order, with a payload limit of
  less than 65536 bytes.  Then what is in memory is always what is on disk, the history of
  every partition extends the one it had at any earlier point, and the routing view is
  always the one of the cluster state.
\<close>

theorem broker_run_safe:
  assumes "max_payload_bytes e < 2 ^ 16"
  shows "\<exists>b0 d. open_with_cluster_and_id e now cluster i empty_dir = (Inr b0, d)
    \<and> (\<forall>b. (broker_step e)\<^sup>*\<^sup>* b0 b \<longrightarrow> logs_ok b \<and> view_synced b
        \<and> (\<forall>b'. (broker_step e)\<^sup>*\<^sup>* b b' \<longrightarrow> grows b b'))"
proof -
  obtain b0 d where o: "open_with_cluster_and_id e now cluster i empty_dir = (Inr b0, d)"
    and ok: "logs_ok b0" "view_synced b0"
    using open_empty by blast
  have "logs_ok b \<and> view_synced b" if "(broker_step e)\<^sup>*\<^sup>* b0 b" for b
    using broker_run_keeps [OF that assms] ok grows_ok by (auto simp: keeps_def)
  with o broker_run_keeps [OF _ assms] show ?thesis by (auto simp: keeps_def)
qed

theorem broker_run_safe_witness:
  "\<exists>b0 d. open_with_cluster_and_id empty_env 0 (Some sample_config) 1 empty_dir = (Inr b0, d)
    \<and> logs_ok (snd (append_log empty_env 1 0 [3] b0))"
proof -
  have "max_payload_bytes empty_env < 2 ^ 16"
    by (simp add: max_payload_bytes_def DEFAULT_MAX_PAYLOAD_BYTES_def)
  from broker_run_safe [OF this, of 0 "Some sample_config" 1] show ?thesis
    using broker_step.append by blast
qed

section \<open>Offsets across a restart\<close>

lemma load_logs_frame: "load_logs b = Inr b' \<Longrightarrow> b' = b\<lparr>b_logs := b_logs b'\<rparr>"
proof -
  have "load_logs_of ts b = Inr b' \<Longrightarrow> b' = b\<lparr>b_logs := b_logs b'\<rparr>" for ts
  proof (induction ts arbitrary: b)
    case Nil
    then show ?case by simp
  next
    case (Cons t ts)
    then obtain b1 where b1: "load_partitions 0 (unat (tc_partition_count (broker_topic_config b t))) t
        (unat (tc_max_records (broker_topic_config b t))) b = Inr b1" "load_logs_of ts b1 = Inr b'"
      by (auto simp: Let_def res_bind_Inr_iff)
    from load_partitions_frame [OF b1(1)] obtain l where "b1 = b\<lparr>b_logs := l\<rparr>" by blast
    with Cons.IH [OF b1(2)] show ?case by simp
  qed
  then show "load_logs b = Inr b' \<Longrightarrow> b' = b\<lparr>b_logs := b_logs b'\<rparr>" by (simp add: load_logs_def)
qed

lemma open_no_commits:
  assumes "open_with_cluster_and_id e now cluster i d = (Inr b, d')"
  shows "b_committed_offsets b = []" and "b_dir b = d'"
proof -
  obtain b0 where b0: "load_logs b0 = Inr b" "b_committed_offsets b0 = []" "b_dir b0 = d'"
    using assms by (auto simp: open_with_cluster_and_id_def sbind_def split: sum.splits prod.splits)
  from load_logs_frame [OF b0(1)] obtain l where "b = b0\<lparr>b_logs := l\<rparr>" by blast
  with b0 show "b_committed_offsets b = []" "b_dir b = d'" by simp_all
qed

text \<open>
  Lag after a restart.  A broker that has just been opened reports every partition of
  every group as uncommitted: committed offset 0 and a lag of the whole log, whatever
  offsets the directory holds, although a load of the offset still finds the stored one.
\<close>

theorem reopened_lag_ignores_commits:
  assumes "open_with_cluster_and_id e now cluster i d = (Inr b, d')"
  shows "lag_entry b g t p =
      (let log_end = (case hm_get (b_logs b) (t, p) of Some l \<Rightarrow> next_offset l | None \<Rightarrow> 0)
       in to_be_bytes p @ to_be_bytes (0 :: u64) @ to_be_bytes log_end @ to_be_bytes log_end)
    \<and> fst (broker_load_committed_offset g t p b) = load_committed_offset d' g t p"
proof -
  note o = open_no_commits [OF assms]
  have "fst (broker_load_committed_offset g t p b) = load_committed_offset d' g t p"
    using o by (cases "load_committed_offset d' g t p")
      (simp_all add: broker_load_committed_offset_def committed_offset_def)
  with o show ?thesis by (simp add: lag_entry_def committed_offset_def sat_sub_def Let_def)
qed

theorem reopened_lag_ignores_commits_witness:
  "\<exists>b d'. open_with_cluster_and_id empty_env 0 None 1 empty_dir = (Inr b, d')
    \<and> fst (broker_load_committed_offset 2 1 0 b) = load_committed_offset d' 2 1 0"
  using open_empty [of empty_env 0 None 1] reopened_lag_ignores_commits by blast

end
