(* ===== verification/Replication.thy ===== *)
theory Replication
  imports Framing Broker_Steps
begin

text \<open>
  The leader's side of replication (\<open>dmq-broker/src/replication.rs\<close>) and the handshake
  (\<open>dmq-broker/src/client.rs\<close>).  The network is an argument: \<open>net addr m n\<close> is what comes of
  connecting to \<open>addr\<close>, writing \<open>m\<close> and reading one message, in the state \<open>n\<close> of the rest of
  the cluster; a refused connection, a timeout and a closed stream are its errors.
\<close>

type_synonym 'n network = "string \<Rightarrow> message \<Rightarrow> 'n \<Rightarrow> message io_result \<times> 'n"

definition DEFAULT_ACKS :: string where "DEFAULT_ACKS = ''leader''"
definition ACKS_ALL :: string where "ACKS_ALL = ''all''"

definition acks_mode :: "env \<Rightarrow> string" where
  "acks_mode e = (case e ''DMQ_ACKS'' of Some v \<Rightarrow> v | None \<Rightarrow> DEFAULT_ACKS)"

definition requires_all_replicas :: "env \<Rightarrow> bool" where
  "requires_all_replicas e = eq_ignore_ascii_case (acks_mode e) ACKS_ALL"

definition send_replicate ::
  "'n network \<Rightarrow> string \<Rightarrow> u16 \<Rightarrow> u16 \<Rightarrow> u64 \<Rightarrow> bytes \<Rightarrow> 'n \<Rightarrow> unit io_result \<times> 'n" where
  "send_replicate net addr t p off payload n =
     sbind (net addr (Replicate \<lparr>repl_topic_id = t, repl_partition_id = p, repl_offset = off,
              repl_payload = payload\<rparr>) n) (\<lambda>resp n1.
     (case resp of
        RReplicate code \<Rightarrow>
          if code = 0 then Inr ()
          else io_err OtherKind (''follower replicate failed code='' @ show_word code)
      | _ \<Rightarrow> io_err InvalidData ''unexpected replicate response'', n1))"

fun replicate_loop ::
  "'n network \<Rightarrow> cluster_config \<Rightarrow> broker_id \<Rightarrow> u16 \<Rightarrow> u16 \<Rightarrow> u64 \<Rightarrow> bytes \<Rightarrow> broker_id list \<Rightarrow> nat \<Rightarrow> 'n
    \<Rightarrow> nat \<times> 'n" where
  "replicate_loop net cluster local_id t p off payload [] acks n = (acks, n)"
| "replicate_loop net cluster local_id t p off payload (replica_id # rest) acks n =
     (if replica_id = local_id then replicate_loop net cluster local_id t p off payload rest (acks + 1) n
      else case broker_addr cluster replica_id of
             None \<Rightarrow> replicate_loop net cluster local_id t p off payload rest acks n
           | Some addr \<Rightarrow>
               (case send_replicate net addr t p off payload n of
                  (r, n1) \<Rightarrow> replicate_loop net cluster local_id t p off payload rest
                    (if is_ok r then acks + 1 else acks) n1))"

definition replicate_to_followers ::
  "'n network \<Rightarrow> cluster_config \<Rightarrow> broker_id \<Rightarrow> u16 \<Rightarrow> u16 \<Rightarrow> u64 \<Rightarrow> bytes \<Rightarrow> 'n \<Rightarrow> nat \<times> 'n" where
  "replicate_to_followers net cluster local_id t p off payload n =
     replicate_loop net cluster local_id t p off payload (cc_replicas_for cluster t p) 0 n"

definition min_required_acks :: "env \<Rightarrow> cluster_config \<Rightarrow> nat" where
  "min_required_acks e cluster =
     (if requires_all_replicas e then unat (max (cc_min_insync_replicas cluster) 1) else 1)"

section \<open>Handshake\<close>

definition error_text :: "rust_error \<Rightarrow> string" where
  "error_text err = (case err of Io k msg \<Rightarrow> msg | Panic msg \<Rightarrow> msg)"

definition process_handshake :: "env \<Rightarrow> handshake_request \<Rightarrow> (u8 \<times> string) + u16" where
  "process_handshake e req =
     (case validate_token e (hs_auth_token req) of
        Inl err \<Rightarrow> Inl (2, error_text err)
      | Inr _ \<Rightarrow>
          (case validate_protocol_version (hs_protocol_version req) of
             Inl code \<Rightarrow> Inl (code, ''unsupported protocol version '' @ show_word (hs_protocol_version req)
                           @ ''; max supported '' @ show_word MAX_PROTOCOL_VERSION)
           | Inr v \<Rightarrow> Inr v))"

text \<open>The client's side of it: one frame out, one frame back.\<close>

definition client_handshake_request :: "env \<Rightarrow> u32 \<Rightarrow> frame" where
  "client_handshake_request e cid =
     frame_v2 cid (Handshake \<lparr>hs_protocol_version = negotiated_version_from_env e,
       hs_auth_token = as_bytes (case e ''DMQ_CLIENT_TOKEN'' of Some v \<Rightarrow> v | None \<Rightarrow> '''')\<rparr>)"

definition client_handshake_response :: "message \<Rightarrow> u16 io_result" where
  "client_handshake_response resp =
     (case resp of
        RHandshake code negotiated \<Rightarrow>
          if code = 0 then Inr negotiated
          else io_err PermissionDenied (''handshake rejected code='' @ show_word code)
      | RError code msg \<Rightarrow> io_err PermissionDenied (''handshake error '' @ show_word code @ '': '' @ msg)
      | _ \<Rightarrow> io_err InvalidData ''unexpected handshake response'')"

section \<open>Properties\<close>

text \<open>
  What the acknowledgements count, for any law that a successful replication establishes at
  its address and that later traffic keeps.
\<close>

locale replication_network =
  fixes net :: "'n network" and inv :: "'n \<Rightarrow> bool"
    and stored :: "string \<Rightarrow> u16 \<Rightarrow> u16 \<Rightarrow> u64 \<Rightarrow> bytes \<Rightarrow> 'n \<Rightarrow> bool"
  assumes net_inv: "inv n \<Longrightarrow> inv (snd (net addr m n))"
    and ack_stored: "inv n \<Longrightarrow> net addr (Replicate \<lparr>repl_topic_id = t, repl_partition_id = p, repl_offset = off,
      repl_payload = x\<rparr>) n = (Inr (RReplicate 0), n') \<Longrightarrow> stored addr t p off x n'"
    and stored_stable: "inv n \<Longrightarrow> stored addr t p off x n \<Longrightarrow> stored addr t p off x (snd (net addr' m n))"
begin

lemma send_ok:
  "inv n \<Longrightarrow> send_replicate net addr t p off x n = (Inr (), n') \<Longrightarrow> stored addr t p off x n'"
  using ack_stored [of n addr t p off x]
  by (cases "net addr (Replicate \<lparr>repl_topic_id = t, repl_partition_id = p, repl_offset = off, repl_payload = x\<rparr>) n")
    (auto simp: send_replicate_def sbind_def split: sum.splits message.splits if_splits)

lemma send_inv: "inv n \<Longrightarrow> inv (snd (send_replicate net addr t p off x n))"
  using net_inv by (auto simp: send_replicate_def sbind_def split: sum.split)

lemma send_stable:
  "inv n \<Longrightarrow> stored addr t p off x n \<Longrightarrow> stored addr t p off x (snd (send_replicate net addr' t' p' off' x' n))"
  using stored_stable by (auto simp: send_replicate_def sbind_def split: sum.split)

lemma loop_stable:
  "inv n \<Longrightarrow> stored a t p off x n \<Longrightarrow> stored a t p off x (snd (replicate_loop net cluster local_id t' p' off' x' ids acks n))"
proof (induction ids arbitrary: acks n)
  case Nil
  then show ?case by simp
next
  case (Cons i ids)
  show ?case
  proof (cases "i = local_id")
    case True
    then show ?thesis using Cons by simp
  next
    case False
    then show ?thesis
      using Cons.IH Cons.prems send_stable [OF Cons.prems] send_inv [OF Cons.prems(1)]
      by (cases "broker_addr cluster i") (simp_all add: case_prod_unfold)
  qed
qed

lemma loop_counts:
  assumes "replicate_loop net cluster local_id t p off x ids acks n = (acks', n')" and "distinct ids" and "inv n"
  shows "\<exists>copies \<subseteq> set ids. acks' \<le> acks + card copies \<and>
    (\<forall>i\<in>copies. i = local_id \<or> (\<exists>a. broker_addr cluster i = Some a \<and> stored a t p off x n'))"
    (is "\<exists>copies \<subseteq> set ids. acks' \<le> acks + card copies \<and> (\<forall>i\<in>copies. ?good i)")
  using assms
proof (induction ids arbitrary: acks n)
  case Nil
  then show ?case by auto
next
  case (Cons i ids)
  have more: ?case
    if "acks' \<le> acks + 1 + card c" "c \<subseteq> set ids" "\<forall>i\<in>c. ?good i" "?good i" for c
  proof -
    have "finite c" "i \<notin> c" using that(2) Cons.prems(2) finite_subset by auto
    with that show ?thesis by (intro exI [of _ "insert i c"]) auto
  qed
  have same: ?case if "\<exists>c \<subseteq> set ids. acks' \<le> acks + card c \<and> (\<forall>i\<in>c. ?good i)"
    using that by auto
  show ?case
  proof (cases "i = local_id")
    case True
    then show ?thesis using Cons.IH [of "acks + 1" n] Cons.prems more by auto
  next
    case False
    show ?thesis
    proof (cases "broker_addr cluster i")
      case None
      then show ?thesis using Cons.IH [of acks n] Cons.prems False same by simp
    next
      case (Some addr)
      obtain r n1 where send: "send_replicate net addr t p off x n = (r, n1)"
        by (cases "send_replicate net addr t p off x n")
      then have run: "replicate_loop net cluster local_id t p off x ids (if is_ok r then acks + 1 else acks) n1
          = (acks', n')"
        using False Some Cons.prems(1) by simp
      have inv1: "inv n1" using send_inv [OF Cons.prems(3), of addr t p off x] send by simp
      show ?thesis
      proof (cases r)
        case (Inl err)
        then show ?thesis using Cons.IH [of acks n1] run Cons.prems(2) inv1 same by simp
      next
        case (Inr u)
        with send have "stored addr t p off x n1" using send_ok [OF Cons.prems(3)] by simp
        from loop_stable [OF inv1 this, of cluster local_id t p off x ids "acks + 1"] run Inr Some
        have "?good i" by simp
        then show ?thesis using Cons.IH [of "acks + 1" n1] run Inr Cons.prems(2) inv1 more by auto
      qed
    qed
  qed
qed

lemma acks_are_copies:
  assumes "replicate_to_followers net cluster local_id t p off x n = (acks, n')"
    and "distinct (cc_replicas_for cluster t p)" and "inv n"
  shows "\<exists>copies \<subseteq> set (cc_replicas_for cluster t p). acks \<le> card copies \<and>
    (\<forall>i\<in>copies. i = local_id \<or> (\<exists>a. broker_addr cluster i = Some a \<and> stored a t p off x n'))"
  using loop_counts [of cluster local_id t p off x "cc_replicas_for cluster t p" 0 n acks n'] assms
  by (simp add: replicate_to_followers_def)

end

text \<open>
  The reach of replication.  The leader sends a record to its followers in a version 1
  frame, which carries at most 239 bytes of payload: the follower reads the request back
  if and only if the payload is that short.  Payloads of 240 to 255 bytes are accepted
  from producers by default and reach no follower.
\<close>

theorem replicate_frame_limit:
  assumes "small_payload x"
  shows "\<exists>w. write_message (Replicate \<lparr>repl_topic_id = t, repl_partition_id = p, repl_offset = off,
      repl_payload = x\<rparr>) = Inr w
    \<and> (read_frame (w @ rest) = Inr (frame_v1 (Replicate \<lparr>repl_topic_id = t, repl_partition_id = p,
         repl_offset = off, repl_payload = x\<rparr>), V1, rest) \<longleftrightarrow> length x \<le> 239)"
proof -
  let ?m = "Replicate \<lparr>repl_topic_id = t, repl_partition_id = p, repl_offset = off, repl_payload = x\<rparr>"
  have small: "length x < 65536" using assms by (simp add: small_payload_def)
  then obtain fr where fr: "encode_message ?m = Inr fr" "length fr = 15 + length x"
    by (simp add: encode_message_def replicate_encode_def)
  then obtain w where w: "write_message ?m = Inr w" "write_frame (frame_v1 ?m) V1 = Inr w"
    by (simp add: write_message_def write_frame_def frame_v1_def)
  have "message_ok ?m" using small by simp
  from v1_frame_readable [OF this fr(1) w(2), of rest] fr(2) w(1) show ?thesis by auto
qed

theorem replicate_frame_limit_witness:
  "\<exists>w. write_message (Replicate \<lparr>repl_topic_id = 1, repl_partition_id = 0, repl_offset = 0,
      repl_payload = replicate 240 0\<rparr>) = Inr w
    \<and> read_frame (w @ []) \<noteq> Inr (frame_v1 (Replicate \<lparr>repl_topic_id = 1, repl_partition_id = 0,
         repl_offset = 0, repl_payload = replicate 240 0\<rparr>), V1, [])"
proof -
  define x :: bytes where "x = replicate 240 0"
  then have x: "small_payload x" "length x = 240" by (simp_all add: small_payload_def)
  from replicate_frame_limit [OF x(1), of 1 0 0 "[]"] x(2) show ?thesis by (auto simp: x_def)
qed

text \<open>
  Authentication.  When a token is configured, a handshake succeeds exactly with that
  token and a supported version; the version it returns is the requested one.  The client
  library accepts exactly the answers that a successful handshake gives.
\<close>

theorem handshake_decision:
  "(process_handshake e req = Inr v \<longleftrightarrow>
      (expected_token e = None \<or> map_option as_bytes (expected_token e) = Some (hs_auth_token req))
      \<and> v = hs_protocol_version req \<and> (v = 1 \<or> v = 2))
   \<and> (client_handshake_response m = Inr v \<longleftrightarrow> m = RHandshake 0 v)"
proof -
  have version: "validate_protocol_version w = Inr v \<longleftrightarrow> v = w \<and> (w = 1 \<or> w = 2)" for w
    by (rule validate_version_iff)
  have client: "client_handshake_response m = Inr v \<longleftrightarrow> m = RHandshake 0 v"
    by (cases m) (auto simp: client_handshake_response_def)
  have "process_handshake e req = Inr v \<longleftrightarrow> validate_token e (hs_auth_token req) = Inr ()
      \<and> validate_protocol_version (hs_protocol_version req) = Inr v"
    by (auto simp: process_handshake_def split: sum.splits)
  moreover have "validate_token e (hs_auth_token req) = Inr () \<longleftrightarrow>
      expected_token e = None \<or> map_option as_bytes (expected_token e) = Some (hs_auth_token req)"
    by (auto simp: validate_token_def split: option.splits)
  ultimately show ?thesis using version [of "hs_protocol_version req"] client by auto
qed

end
