(* ===== verification/Server.thy ===== *)
theory Server
  imports Replication
begin

text \<open>
  The server side of \<open>dmq-cli/src/runner.rs\<close>: the connection session, one handler per
  message, the connection loop over the bytes of a stream, the dial-back tasks and the
  cluster background task.  Tasks share the broker behind a lock.  A request holds it in
  one or more sections; the context of a request says what the other tasks do to the broker
  while the lock is free (\<open>cx_gap\<close>, by the number of the gap, gap 0 before the request), the
  time, how often a long poll sleeps before its deadline, the latency that is recorded and
  whether the response can be written.
\<close>

section \<open>Sessions\<close>

record connection_session =
  sess_wire_format :: wire_format
  sess_protocol_version :: u16
  sess_principal :: string
  sess_handshaken :: bool

definition session_default :: connection_session where
  "session_default = \<lparr>sess_wire_format = V1, sess_protocol_version = PROTOCOL_V1,
     sess_principal = ''anonymous'', sess_handshaken = False\<rparr>"

record request_context =
  cx_now :: u64
  cx_gap :: "nat \<Rightarrow> broker \<Rightarrow> broker"
  cx_polls :: nat
  cx_latency :: u64
  cx_write_ok :: bool

datatype spawned_task =
    DialProducer u16 u16
  | DialConsumer u16 u16 u16 u16

datatype produce_plan =
    NotLeader broker_id
  | PlanAck u64 "cluster_config option" u16 u16 bytes broker_id

definition handshake_missing :: "env \<Rightarrow> connection_session \<Rightarrow> bool" where
  "handshake_missing e s \<longleftrightarrow> require_handshake e \<and> \<not> sess_handshaken s"

definition handshake_required :: message where
  "handshake_required = RError 1 ''handshake required''"

definition acl_denied :: message where
  "acl_denied = RError 3 ''acl denied''"

definition count_error :: "broker \<Rightarrow> broker" where
  "count_error b = b\<lparr>b_metrics := record_error (b_metrics b)\<rparr>"

text \<open>An error of a broker operation is counted; a panic unwinds the task.\<close>

definition failed :: "rust_error \<Rightarrow> broker \<Rightarrow> broker" where
  "failed err b = (case err of Io _ _ \<Rightarrow> count_error b | Panic _ \<Rightarrow> b)"

section \<open>Handlers\<close>

definition handle_handshake ::
  "env \<Rightarrow> handshake_request \<Rightarrow> connection_session \<Rightarrow> message \<times> connection_session" where
  "handle_handshake e req s =
     (case process_handshake e req of
        Inr version \<Rightarrow>
          (RHandshake 0 version,
           s\<lparr>sess_handshaken := True, sess_protocol_version := version,
             sess_principal := principal_from_token (hs_auth_token req)\<rparr>)
      | Inl (code, msg) \<Rightarrow> (RError code msg, s))"

definition handle_echo :: "env \<Rightarrow> connection_session \<Rightarrow> string \<Rightarrow> message" where
  "handle_echo e s text = (if handshake_missing e s then handshake_required else REcho (process_echo text))"

definition handle_producer_register ::
  "env \<Rightarrow> producer_register \<Rightarrow> broker \<Rightarrow> message option \<times> spawned_task list \<times> broker" where
  "handle_producer_register e reg b =
     (if \<not> legacy_dialback_enabled e
      then (Some (RError 1 ''dial-back disabled; use produce command''), [], b)
      else case register_producer reg b of
             (Inl _, b1) \<Rightarrow> (None, [], b1)
           | (Inr _, b1) \<Rightarrow>
               (Some (RProducerRegister 0), [DialProducer (preg_port reg) (preg_topic_id reg)], b1))"

definition handle_consumer_register ::
  "env \<Rightarrow> consumer_register \<Rightarrow> broker \<Rightarrow> message option \<times> spawned_task list \<times> broker" where
  "handle_consumer_register e reg b =
     (if \<not> legacy_dialback_enabled e
      then (Some (RError 1 ''dial-back disabled; use fetch command''), [], b)
      else case register_consumer reg b of
             (Inl _, b1) \<Rightarrow> (None, [], b1)
           | (Inr idx, b1) \<Rightarrow>
               (Some (RConsumerRegister 0),
                [DialConsumer (creg_port reg) (creg_topic_id reg) (creg_group_id reg) idx], b1))"

text \<open>The long poll: \<open>n\<close> sleeps are left before the deadline, gap \<open>i\<close> comes next.\<close>

fun fetch_poll ::
  "env \<Rightarrow> fetch_request \<Rightarrow> (nat \<Rightarrow> broker \<Rightarrow> broker) \<Rightarrow> nat \<Rightarrow> nat \<Rightarrow> broker \<Rightarrow> log_record list io_result \<times> broker" where
  "fetch_poll e req gap 0 i b = fetch_log e req b"
| "fetch_poll e req gap (Suc n) i b =
     (case fetch_log e req b of
        (Inl err, b1) \<Rightarrow> (Inl err, b1)
      | (Inr rs, b1) \<Rightarrow> if rs \<noteq> [] then (Inr rs, b1) else fetch_poll e req gap n (Suc i) (gap i b1))"

definition fetch_response :: "env \<Rightarrow> lz4_lib \<Rightarrow> log_record list \<Rightarrow> message" where
  "fetch_response e lz rs =
     (let batch = encode_records rs
      in case wrap_batch lz (preferred_codec e) batch of
           Inr payload \<Rightarrow> RFetch payload
         | Inl _ \<Rightarrow> RFetch batch)"

definition handle_fetch ::
  "env \<Rightarrow> lz4_lib \<Rightarrow> request_context \<Rightarrow> connection_session \<Rightarrow> fetch_request \<Rightarrow> broker \<Rightarrow> message option \<times> broker" where
  "handle_fetch e lz cx s req b =
     (if handshake_missing e s then (Some handshake_required, b)
      else case check_fetch_acl b (sess_principal s) (fetch_topic_id req) of
             Inl _ \<Rightarrow> (Some acl_denied, count_error b)
           | Inr _ \<Rightarrow>
               (case fetch_redirect_leader e b (fetch_topic_id req) (fetch_partition_id req) of
                  Some leader \<Rightarrow> (Some (RNotLeader leader), b)
                | None \<Rightarrow>
                    (case fetch_poll e req (cx_gap cx) (if fetch_max_wait_ms req > 0 then cx_polls cx else 0)
                            2 (cx_gap cx 1 b) of
                       (Inl err, b1) \<Rightarrow> (None, failed err b1)
                     | (Inr rs, b1) \<Rightarrow> (Some (fetch_response e lz rs), b1))))"

definition handle_commit :: "commit_offset_request \<Rightarrow> broker \<Rightarrow> message option \<times> broker" where
  "handle_commit req b = (Some (RCommitOffset 0), broker_commit_offset req b)"

text \<open>The second lock section of a produce request, for either kind of append.\<close>

definition produce_plan_of ::
  "(broker \<Rightarrow> u64 io_result \<times> broker) \<Rightarrow> u16 \<Rightarrow> u16 \<Rightarrow> bytes \<Rightarrow> broker \<Rightarrow> produce_plan option \<times> broker" where
  "produce_plan_of app t p payload b =
     (if b_cluster b \<noteq> None \<and> \<not> is_partition_leader b t p
      then (Some (NotLeader (partition_leader b t p)), b)
      else case app b of
             (Inr off, b1) \<Rightarrow> (Some (PlanAck off (b_cluster b1) t p payload (b_broker_id b1)), b1)
           | (Inl err, b1) \<Rightarrow> (None, failed err b1))"

text \<open>What follows the append: replication, and a counted error when too few replicas answered.\<close>

definition produce_finish ::
  "env \<Rightarrow> 'n network \<Rightarrow> request_context \<Rightarrow> produce_plan \<Rightarrow> broker \<times> 'n \<Rightarrow> message \<times> broker \<times> 'n" where
  "produce_finish e net cx plan bn =
     (case plan of
        NotLeader leader \<Rightarrow> (RNotLeader leader, bn)
      | PlanAck off cluster t p payload local_id \<Rightarrow>
          (case cluster of
             None \<Rightarrow> (RProduce off, bn)
           | Some c \<Rightarrow>
               (case replicate_to_followers net c local_id t p off payload (snd bn) of
                  (acks, n1) \<Rightarrow>
                    let b1 = cx_gap cx 2 (fst bn);
                        b2 = (if requires_all_replicas e \<and> acks < min_required_acks e c then count_error b1 else b1)
                    in (RProduce off, b2, n1))))"

definition handle_append ::
  "env \<Rightarrow> 'n network \<Rightarrow> request_context \<Rightarrow> connection_session \<Rightarrow> (broker \<Rightarrow> u64 io_result \<times> broker) \<Rightarrow> u16 \<Rightarrow> u16
    \<Rightarrow> bytes \<Rightarrow> broker \<times> 'n \<Rightarrow> message option \<times> broker \<times> 'n" where
  "handle_append e net cx s app t p payload bn =
     (if handshake_missing e s then (Some handshake_required, bn)
      else case check_produce_acl (fst bn) (sess_principal s) t of
             Inl _ \<Rightarrow> (Some acl_denied, count_error (fst bn), snd bn)
           | Inr _ \<Rightarrow>
               (case produce_plan_of app t p payload (cx_gap cx 1 (fst bn)) of
                  (None, b1) \<Rightarrow> (None, b1, snd bn)
                | (Some plan, b1) \<Rightarrow>
                    (case produce_finish e net cx plan (b1, snd bn) of
                       (m, bn1) \<Rightarrow> (Some m, bn1))))"

definition handle_produce ::
  "env \<Rightarrow> 'n network \<Rightarrow> request_context \<Rightarrow> connection_session \<Rightarrow> produce_request \<Rightarrow> broker \<times> 'n
    \<Rightarrow> message option \<times> broker \<times> 'n" where
  "handle_produce e net cx s req bn =
     (let t = produce_topic_id req; p = produce_partition_id req
      in handle_append e net cx s (append_log e t p (produce_payload req)) t p (produce_payload req) bn)"

definition handle_idempotent_produce ::
  "env \<Rightarrow> 'n network \<Rightarrow> request_context \<Rightarrow> connection_session \<Rightarrow> idempotent_produce_request \<Rightarrow> broker \<times> 'n
    \<Rightarrow> message option \<times> broker \<times> 'n" where
  "handle_idempotent_produce e net cx s req bn =
     handle_append e net cx s (produce_idempotent e req) (idem_topic_id req) (idem_partition_id req)
       (idem_payload req) bn"

definition handle_create_topic ::
  "request_context \<Rightarrow> connection_session \<Rightarrow> create_topic_request \<Rightarrow> broker \<Rightarrow> message option \<times> broker" where
  "handle_create_topic cx s req b =
     (case check_admin_acl b (sess_principal s) (create_topic_id req) of
        Inl _ \<Rightarrow> (Some acl_denied, count_error b)
      | Inr _ \<Rightarrow>
          (case create_topic (topic_config_new (create_topic_id req) (create_partition_count req)
                  (create_max_records req)) (cx_gap cx 1 b) of
             (Inr code, b1) \<Rightarrow> (Some (RCreateTopic code), b1)
           | (Inl err, b1) \<Rightarrow> (None, failed err b1)))"

definition handle_replicate :: "env \<Rightarrow> replicate_request \<Rightarrow> broker \<Rightarrow> message option \<times> broker" where
  "handle_replicate e req b =
     (case apply_replica e (repl_topic_id req) (repl_partition_id req) (repl_offset req) (repl_payload req) b of
        (Inr _, b1) \<Rightarrow> (Some (RReplicate 0), b1)
      | (Inl (Io k msg), b1) \<Rightarrow> (Some (RReplicate 1), count_error b1)
      | (Inl (Panic msg), b1) \<Rightarrow> (None, b1))"

definition handle_heartbeat :: "env \<Rightarrow> request_context \<Rightarrow> broker_heartbeat_request \<Rightarrow> broker \<Rightarrow> message option \<times> broker" where
  "handle_heartbeat e cx req b =
     (case handle_broker_heartbeat e (cx_now cx) req b of (code, b1) \<Rightarrow> (Some (RBrokerHeartbeat code), b1))"

definition handle_join :: "request_context \<Rightarrow> join_group_request \<Rightarrow> broker \<Rightarrow> message option \<times> broker" where
  "handle_join cx req b =
     (case broker_join_group (cx_now cx) req b of
        (Inr (code, m, gen, parts), b1) \<Rightarrow> (Some (RJoinGroup (encode_join_group_response code m gen parts)), b1)
      | (Inl (Io k msg), b1) \<Rightarrow> (Some (RJoinGroup (encode_join_group_response 1 0 0 [])), b1)
      | (Inl (Panic msg), b1) \<Rightarrow> (None, b1))"

definition handle_group_heartbeat ::
  "env \<Rightarrow> request_context \<Rightarrow> group_heartbeat_request \<Rightarrow> broker \<Rightarrow> message option \<times> broker" where
  "handle_group_heartbeat e cx req b =
     (case broker_group_heartbeat e (cx_now cx) req b of
        ((code, again), b1) \<Rightarrow> (Some (RGroupHeartbeat code again), b1))"

text \<open>The result of a dispatch: the response or the end of the connection, and what the request left.\<close>

type_synonym 'n dispatched = "message option \<times> connection_session \<times> spawned_task list \<times> broker \<times> 'n"

definition dispatch_message ::
  "env \<Rightarrow> lz4_lib \<Rightarrow> 'n network \<Rightarrow> request_context \<Rightarrow> message \<Rightarrow> connection_session \<Rightarrow> broker \<times> 'n \<Rightarrow> 'n dispatched" where
  "dispatch_message e lz net cx m s bn =
     (let b = cx_gap cx 0 (fst bn); n = snd bn;
          quiet = (\<lambda>(r, b1). (r, s, [], b1, n))
      in case m of
           Handshake req \<Rightarrow> (case handle_handshake e req s of (r, s1) \<Rightarrow> (Some r, s1, [], b, n))
         | Echo text \<Rightarrow> (Some (handle_echo e s text), s, [], b, n)
         | ProducerRegister reg \<Rightarrow> (case handle_producer_register e reg b of (r, sp, b1) \<Rightarrow> (r, s, sp, b1, n))
         | ConsumerRegister reg \<Rightarrow> (case handle_consumer_register e reg b of (r, sp, b1) \<Rightarrow> (r, s, sp, b1, n))
         | Fetch req \<Rightarrow> quiet (handle_fetch e lz cx s req b)
         | CommitOffset req \<Rightarrow> quiet (handle_commit req b)
         | Produce req \<Rightarrow> (case handle_produce e net cx s req (b, n) of (r, b1, n1) \<Rightarrow> (r, s, [], b1, n1))
         | IdempotentProduce req \<Rightarrow>
             (case handle_idempotent_produce e net cx s req (b, n) of (r, b1, n1) \<Rightarrow> (r, s, [], b1, n1))
         | CreateTopic req \<Rightarrow> quiet (handle_create_topic cx s req b)
         | DescribeTopic req \<Rightarrow> (Some (RDescribeTopic (describe_topic b (describe_topic_id req))), s, [], b, n)
         | ListTopics \<Rightarrow> (Some (RListTopics (list_topics b)), s, [], b, n)
         | GetLag req \<Rightarrow> (Some (RGetLag (get_lag b (lag_group_id req) (lag_topic_id req))), s, [], b, n)
         | Replicate req \<Rightarrow> quiet (handle_replicate e req b)
         | GetCluster \<Rightarrow> (Some (RGetCluster (cluster_info_bytes e b)), s, [], b, n)
         | BrokerHeartbeat req \<Rightarrow> quiet (handle_heartbeat e cx req b)
         | JoinGroup req \<Rightarrow> quiet (handle_join cx req b)
         | GroupHeartbeat req \<Rightarrow> quiet (handle_group_heartbeat e cx req b)
         | _ \<Rightarrow> (None, s, [], b, n))"

section \<open>The connection loop\<close>

definition keep_open :: "message \<Rightarrow> connection_session \<Rightarrow> bool" where
  "keep_open m s \<longleftrightarrow>
     (case m of Handshake _ \<Rightarrow> True | _ \<Rightarrow> sess_wire_format s = V2 \<and> sess_protocol_version s \<ge> PROTOCOL_V2)"

text \<open>The bytes written, the tasks spawned and the state left when the connection ends.\<close>

function handle_broker_connection ::
  "env \<Rightarrow> lz4_lib \<Rightarrow> 'n network \<Rightarrow> (nat \<Rightarrow> request_context) \<Rightarrow> nat \<Rightarrow> bytes \<Rightarrow> connection_session \<Rightarrow> broker \<times> 'n
    \<Rightarrow> bytes \<times> spawned_task list \<times> broker \<times> 'n" where
  "handle_broker_connection e lz net cxs k input s bn =
     (case read_frame input of
        Inl _ \<Rightarrow> ([], [], bn)
      | Inr (f, fmt, rest) \<Rightarrow>
          (case dispatch_message e lz net (cxs k) (frame_message f) (s\<lparr>sess_wire_format := fmt\<rparr>) bn of
             (None, s1, sp, b1, n1) \<Rightarrow> ([], sp, b1, n1)
           | (Some m, s1, sp, b1, n1) \<Rightarrow>
               (case write_frame \<lparr>correlation_id = correlation_id f, frame_message = m\<rparr> (sess_wire_format s1) of
                  Inl _ \<Rightarrow> ([], sp, b1, n1)
                | Inr w \<Rightarrow>
                    if \<not> cx_write_ok (cxs k) then ([], sp, b1, n1)
                    else
                      let b2 = b1\<lparr>b_metrics := record_request_latency (cx_latency (cxs k)) (b_metrics b1)\<rparr>
                      in if keep_open (frame_message f) s1 then
                           (case handle_broker_connection e lz net cxs (Suc k) rest s1 (b2, n1) of
                              (out, sp1, bn1) \<Rightarrow> (w @ out, sp @ sp1, bn1))
                         else (w, sp, b2, n1))))"
  by pat_completeness auto

termination
  by (relation "measure (\<lambda>(e, lz, net, cxs, k, input, s, bn). length input)")
    (auto dest: read_frame_rest)

declare handle_broker_connection.simps [simp del]

section \<open>Background tasks\<close>

lemma read_message_rest: "read_message s = Inr (m, rest) \<Longrightarrow> length rest < length s"
  by (cases s) (auto simp: read_message_def take_exact_def res_bind_Inr_iff split: if_splits)

text \<open>
  The producer that registered is dialled back: its \<open>PCM\<close> messages are produced and
  acknowledged until the stream ends or a produce fails.  \<open>gap k\<close> is what other tasks do
  before the \<open>k\<close>-th message.
\<close>

function dial_back_to_producer ::
  "env \<Rightarrow> u16 \<Rightarrow> (nat \<Rightarrow> broker \<Rightarrow> broker) \<Rightarrow> nat \<Rightarrow> bytes \<Rightarrow> broker \<Rightarrow> bytes \<times> broker" where
  "dial_back_to_producer e t gap k input b =
     (case read_message input of
        Inl _ \<Rightarrow> ([], b)
      | Inr (Pcm payload, rest) \<Rightarrow>
          (case produce_pcm e t payload (gap k b) of
             (Inl _, b1) \<Rightarrow> ([], b1)
           | (Inr (code, off), b1) \<Rightarrow>
               (case write_message (RPcm code) of
                  Inl _ \<Rightarrow> ([], b1)
                | Inr w \<Rightarrow>
                    (case dial_back_to_producer e t gap (Suc k) rest b1 of (out, b2) \<Rightarrow> (w @ out, b2))))
      | Inr (_, rest) \<Rightarrow> dial_back_to_producer e t gap (Suc k) rest b)"
  by pat_completeness auto

termination
  by (relation "measure (\<lambda>(e, t, gap, k, input, b). length input)") (auto dest: read_message_rest)

declare dial_back_to_producer.simps [simp del]

text \<open>
  The delivery loop of a consumer: for each \<open>R_PCM\<close> it polls its partition until a message
  is there and sends it.  The loop over polls waits for other tasks; \<open>polls\<close> bounds how often
  it looks, and running out of polls is a consumer that is still waiting.
\<close>

fun poll_partition ::
  "nat \<Rightarrow> (nat \<Rightarrow> broker \<Rightarrow> broker) \<Rightarrow> nat \<Rightarrow> u16 \<Rightarrow> u16 \<Rightarrow> u16 \<Rightarrow> broker \<Rightarrow> bytes option \<times> broker" where
  "poll_partition 0 gap i t g pidx b = (None, b)"
| "poll_partition (Suc n) gap i t g pidx b =
     (case deliver_poll t g pidx b of
        (Inl _, b1) \<Rightarrow> (None, b1)
      | (Inr (Some x), b1) \<Rightarrow> (Some x, b1)
      | (Inr None, b1) \<Rightarrow> poll_partition n gap (Suc i) t g pidx (gap i b1))"

function run_consumer_ready_and_send ::
  "nat \<Rightarrow> (nat \<Rightarrow> nat \<Rightarrow> broker \<Rightarrow> broker) \<Rightarrow> nat \<Rightarrow> u16 \<Rightarrow> u16 \<Rightarrow> u16 \<Rightarrow> bytes \<Rightarrow> broker \<Rightarrow> bytes \<times> broker" where
  "run_consumer_ready_and_send polls gap k t g pidx input b =
     (case read_message input of
        Inr (RPcm _, rest) \<Rightarrow>
          (case poll_partition polls (gap k) 0 t g pidx b of
             (None, b1) \<Rightarrow> ([], b1)
           | (Some x, b1) \<Rightarrow>
               (case write_message (Pcm x) of
                  Inl _ \<Rightarrow> ([], b1)
                | Inr w \<Rightarrow>
                    (case run_consumer_ready_and_send polls gap (Suc k) t g pidx rest b1 of
                       (out, b2) \<Rightarrow> (w @ out, b2))))
      | _ \<Rightarrow> ([], b))"
  by pat_completeness auto

termination
  by (relation "measure (\<lambda>(polls, gap, k, t, g, pidx, input, b). length input)") (auto dest: read_message_rest)

declare run_consumer_ready_and_send.simps [simp del]

text \<open>One round of the cluster task, with what the controller answers to \<open>GET_CLUSTER\<close>.\<close>

definition sync_cluster_state_from_controller ::
  "'n network \<Rightarrow> u64 \<Rightarrow> string \<Rightarrow> broker \<times> 'n \<Rightarrow> unit io_result \<times> broker \<times> 'n" where
  "sync_cluster_state_from_controller net now addr bn =
     (case net addr GetCluster (snd bn) of
        (Inl err, n1) \<Rightarrow> (Inl err, fst bn, n1)
      | (Inr (RGetCluster bs), n1) \<Rightarrow>
          (case decode_cluster_info now bs of
             Inl err \<Rightarrow> (Inl err, fst bn, n1)
           | Inr st \<Rightarrow> (Inr (), apply_cluster_state st (fst bn), n1))
      | (Inr _, n1) \<Rightarrow> (Inr (), fst bn, n1))"

definition send_broker_heartbeat :: "'n network \<Rightarrow> string \<Rightarrow> broker_id \<Rightarrow> 'n \<Rightarrow> unit io_result \<times> 'n" where
  "send_broker_heartbeat net addr i n =
     sbind (net addr (BrokerHeartbeat \<lparr>hb_broker_id = i\<rparr>) n) (\<lambda>_ n1. (Inr (), n1))"

definition cluster_background_round :: "env \<Rightarrow> 'n network \<Rightarrow> u64 \<Rightarrow> broker \<times> 'n \<Rightarrow> broker \<times> 'n" where
  "cluster_background_round e net now bn =
     (let b = fst bn
      in case b_cluster_state b of
           None \<Rightarrow> bn
         | Some _ \<Rightarrow>
             if broker_is_controller e b then (controller_tick e now b, snd bn)
             else (case controller_addr e b of
                     None \<Rightarrow> bn
                   | Some addr \<Rightarrow>
                       snd (sync_cluster_state_from_controller net now addr
                         (b, snd (send_broker_heartbeat net addr (b_broker_id b) (snd bn))))))"

end
