(* ===== verification/Server_Safety.thy ===== *)
theory Server_Safety
  imports Server
begin

text \<open>
  What a client can do to a broker: every handler, the connection loop on any stream of
  bytes and the background tasks keep the broker's logs and its cluster view; the guards
  of the handlers; what an acknowledgement means.
\<close>

section \<open>Payloads from the wire\<close>

text \<open>The payload that a message asks the broker to store.\<close>

fun stored_payload :: "message \<Rightarrow> bytes" where
  "stored_payload (Produce r) = produce_payload r"
| "stored_payload (IdempotentProduce r) = idem_payload r"
| "stored_payload (Replicate r) = repl_payload r"
| "stored_payload (Pcm bs) = bs"
| "stored_payload _ = []"

lemma parse_frame_payload:
  assumes "parse_frame body = Inr m"
  shows "length (stored_payload m) \<le> length body"
proof -
  have "res_all (\<lambda>m. length (stored_payload m) \<le> length body) (parse_frame body)"
  proof (cases body)
    case Nil
    then show ?thesis by (simp add: parse_frame_def)
  next
    case (Cons b payload)
    have "res_all (\<lambda>r. length (produce_payload r) \<le> Suc (length payload)) (produce_decode payload)"
      "res_all (\<lambda>r. length (idem_payload r) \<le> Suc (length payload)) (idempotent_produce_decode payload)"
      "res_all (\<lambda>r. length (repl_payload r) \<le> Suc (length payload)) (replicate_decode payload)"
      by (auto simp: produce_decode_def idempotent_produce_decode_def replicate_decode_def slice_def Let_def)
    with Cons show ?thesis by (simp add: parse_frame_def res_all_bind)
  qed
  with assms show ?thesis by simp
qed

lemma read_frame_payload:
  assumes "read_frame input = Inr (f, fmt, rest)"
  shows "small_payload (stored_payload (frame_message f))"
proof -
  obtain body where "parse_frame body = Inr (frame_message f)" "length body < 2 ^ 16"
  proof (cases input)
    case Nil
    with assms show ?thesis by (simp add: read_frame_def take_exact_def)
  next
    case (Cons b s)
    have u8: "unat b < 2 ^ LENGTH(8)" by (rule unsigned_less)
    have u16: "unat (from_be_bytes x :: u16) < 2 ^ LENGTH(16)" for x by (rule unsigned_less)
    show ?thesis
    proof (cases "b = 0xFF")
      case True
      with assms Cons obtain lb body where
        "take_exact (unat (from_be_bytes lb :: u16)) (drop 3 s) = Inr (body, rest)"
        "parse_frame (drop 5 body) = Inr (frame_message f)"
        by (auto simp: read_frame_def parse_v2_body_def frame_v2_def res_bind_Inr_iff take_exact_def [of 1]
            take_exact_def [of 2] take_exact_def [of "Suc 0"] Let_def split: if_splits)
      then show ?thesis
        using that [of "drop 5 body"] u16 [of lb] by (auto simp: take_exact_def split: if_splits)
    next
      case False
      with assms Cons have "parse_frame (take (unat b) s) = Inr (frame_message f)"
        by (auto simp: read_frame_def frame_v1_def res_bind_Inr_iff take_exact_def Let_def split: if_splits)
      then show ?thesis using that [of "take (unat b) s"] u8 by simp
    qed
  qed
  with parse_frame_payload show ?thesis by (fastforce simp: small_payload_def)
qed

lemma read_message_payload:
  assumes "read_message input = Inr (m, rest)"
  shows "small_payload (stored_payload m)"
proof -
  have u8: "unat b < 2 ^ LENGTH(8)" for b :: u8 by (rule unsigned_less)
  from assms obtain b s where "parse_frame (take (unat (b :: u8)) s) = Inr m"
    by (auto simp: read_message_def res_bind_Inr_iff take_exact_def split: if_splits)
  from parse_frame_payload [OF this] u8 [of b] show ?thesis by (simp add: small_payload_def)
qed

section \<open>Handlers keep the broker\<close>

lemma keeps_count_error [simp]: "keeps b (count_error b') = keeps b b'"
  by (simp add: count_error_def)

lemma keeps_failed [simp]: "keeps b (failed err b') = keeps b b'"
  by (simp add: failed_def split: rust_error.split)

text \<open>The other tasks keep the broker too.\<close>

definition fair_gaps :: "(nat \<Rightarrow> broker \<Rightarrow> broker) \<Rightarrow> bool" where
  "fair_gaps gap \<longleftrightarrow> (\<forall>i b. keeps b (gap i b))"

lemma fair_gap: "fair_gaps gap \<Longrightarrow> keeps b b' \<Longrightarrow> keeps b (gap i b')"
  unfolding fair_gaps_def using keeps_trans by blast

lemma keeps_fetch_poll: "fair_gaps gap \<Longrightarrow> keeps b (snd (fetch_poll e req gap n i b))"
proof (induction n arbitrary: i b)
  case 0
  then show ?case by auto
next
  case (Suc n)
  obtain r b1 where f: "fetch_log e req b = (r, b1)" by (cases "fetch_log e req b")
  with keeps_fetch_log [of b e req] have 1: "keeps b b1" by simp
  show ?case
  proof (cases "r = Inr []")
    case True
    have "keeps b (snd (fetch_poll e req gap n (Suc i) (gap i b1)))"
      using fair_gap [OF Suc.prems 1] Suc.IH [OF Suc.prems] by (rule keeps_trans)
    with True f show ?thesis by simp
  next
    case False
    then show ?thesis using f 1 by (cases r) auto
  qed
qed

lemma keeps_handle_fetch:
  assumes "fair_gaps (cx_gap cx)"
  shows "keeps b (snd (handle_fetch e lz cx s req b))"
proof -
  let ?n = "if fetch_max_wait_ms req > 0 then cx_polls cx else 0"
  obtain r b1 where p: "fetch_poll e req (cx_gap cx) ?n 2 (cx_gap cx 1 b) = (r, b1)"
    by (cases "fetch_poll e req (cx_gap cx) ?n 2 (cx_gap cx 1 b)")
  with keeps_fetch_poll [OF assms, of "cx_gap cx 1 b" e req ?n 2] fair_gap [OF assms keeps_refl [of b], of 1]
  have "keeps b b1" using keeps_trans by fastforce
  with p show ?thesis
    unfolding handle_fetch_def by (cases r) (auto split: sum.split option.split simp del: fetch_poll.simps)
qed

lemma keeps_produce_finish:
  assumes "fair_gaps (cx_gap cx)"
  shows "keeps b (fst (snd (produce_finish e net cx plan (b, n))))"
  using fair_gap [OF assms keeps_refl]
  by (auto simp: produce_finish_def Let_def split: produce_plan.split option.split prod.split)

lemma keeps_handle_append:
  assumes gap: "fair_gaps (cx_gap cx)" and app: "\<And>b. keeps b (snd (app b))"
  shows "keeps (fst bn) (fst (snd (handle_append e net cx s app t p payload bn)))"
proof -
  let ?b = "cx_gap cx 1 (fst bn)"
  have 1: "keeps (fst bn) ?b" using fair_gap [OF gap keeps_refl] .
  obtain r b1 where a: "app ?b = (r, b1)" by (cases "app ?b")
  with app [of ?b] have "keeps ?b b1" by simp
  with 1 have 2: "keeps (fst bn) b1" by (rule keeps_trans)
  note fin = keeps_produce_finish [OF gap]
  have plan: "keeps (fst bn) (snd (produce_plan_of app t p payload ?b))"
    using 1 2 a by (cases r) (simp_all add: produce_plan_of_def)
  obtain pl b2 where pl: "produce_plan_of app t p payload ?b = (pl, b2)"
    by (cases "produce_plan_of app t p payload ?b")
  have "keeps (fst bn) (fst (snd (produce_finish e net cx x (b2, snd bn))))" for x
    using plan [unfolded pl snd_conv] fin by (rule keeps_trans)
  then show ?thesis
    using plan pl by (cases pl) (auto simp: handle_append_def case_prod_unfold split: sum.split)
qed

lemma keeps_simple_handlers:
  "keeps b (snd (snd (handle_producer_register e preg b)))"
  "keeps b (snd (snd (handle_consumer_register e creg b)))"
  "keeps b (snd (handle_commit comm b))"
  "keeps b (snd (handle_heartbeat e cx hreq b))"
  "keeps b (snd (handle_join cx jreq b))"
  "keeps b (snd (handle_group_heartbeat e cx greq b))"
  using keeps_register_producer [of b preg] keeps_register_consumer [of b creg] keeps_commit [of b comm]
    keeps_broker_heartbeat [of b e "cx_now cx" hreq] keeps_join [of b "cx_now cx" jreq]
    keeps_group_heartbeat [of b e "cx_now cx" greq]
  by (auto simp: handle_producer_register_def handle_consumer_register_def handle_commit_def
      handle_heartbeat_def handle_join_def handle_group_heartbeat_def
      split: sum.split prod.split rust_error.split)

lemma keeps_handle_create_topic:
  assumes "fair_gaps (cx_gap cx)"
  shows "keeps b (snd (handle_create_topic cx s req b))"
proof -
  let ?cfg = "topic_config_new (create_topic_id req) (create_partition_count req) (create_max_records req)"
  obtain r b1 where c: "create_topic ?cfg (cx_gap cx 1 b) = (r, b1)" by (cases "create_topic ?cfg (cx_gap cx 1 b)")
  with keeps_create_topic [of "cx_gap cx 1 b" ?cfg] fair_gap [OF assms keeps_refl [of b], of 1]
  have "keeps b b1" using keeps_trans by fastforce
  with c show ?thesis by (cases r) (auto simp: handle_create_topic_def split: sum.split)
qed

lemma keeps_handle_replicate:
  assumes "small_payload (repl_payload req)"
  shows "keeps b (snd (handle_replicate e req b))"
  using keeps_apply_replica [OF assms, of b e "repl_topic_id req" "repl_partition_id req" "repl_offset req"]
  by (auto simp: handle_replicate_def split: sum.split prod.split rust_error.split)

lemma keeps_dispatch:
  assumes gap: "fair_gaps (cx_gap cx)" and small: "small_payload (stored_payload m)"
  shows "keeps (fst bn) (fst (snd (snd (snd (dispatch_message e lz net cx m s bn)))))"
proof -
  let ?b = "cx_gap cx 0 (fst bn)"
  have 0: "keeps (fst bn) ?b" using fair_gap [OF gap keeps_refl] .
  have "keeps ?b (fst (snd (snd (snd (dispatch_message e lz net cx m s bn)))))"
  proof (cases m)
    case (Produce req)
    then have "keeps b (snd (append_log e t p (produce_payload req) b))" for b t p
      using small by (intro keeps_append_log) simp
    from keeps_handle_append [OF gap this, of "(?b, snd bn)"] Produce show ?thesis
      by (simp add: dispatch_message_def handle_produce_def Let_def case_prod_unfold)
  next
    case (IdempotentProduce req)
    then have "keeps b (snd (produce_idempotent e req b))" for b
      using small by (intro keeps_produce_idempotent) simp
    from keeps_handle_append [OF gap this, of "(?b, snd bn)"] IdempotentProduce show ?thesis
      by (simp add: dispatch_message_def handle_idempotent_produce_def Let_def case_prod_unfold)
  qed (use small keeps_simple_handlers keeps_handle_fetch [OF gap] keeps_handle_create_topic [OF gap]
      keeps_handle_replicate in \<open>simp_all add: dispatch_message_def Let_def case_prod_unfold\<close>)
  with 0 show ?thesis by (rule keeps_trans)
qed

section \<open>Connections and tasks\<close>

lemma keeps_connection:
  assumes "\<forall>k. fair_gaps (cx_gap (cxs k))"
  shows "keeps (fst bn) (fst (snd (snd (handle_broker_connection e lz net cxs k input s bn))))"
proof (induction "length input" arbitrary: k input s bn rule: less_induct)
  case less
  show ?case
  proof (cases "read_frame input")
    case (Inl err)
    then show ?thesis by (simp add: handle_broker_connection.simps [of e lz net cxs k input s bn])
  next
    case (Inr x)
    then obtain f fmt rest where rf: "read_frame input = Inr (f, fmt, rest)" by (cases x) auto
    obtain r s1 sp b1 n1 where d: "dispatch_message e lz net (cxs k) (frame_message f) (s\<lparr>sess_wire_format := fmt\<rparr>) bn
        = (r, s1, sp, b1, n1)"
      by (cases "dispatch_message e lz net (cxs k) (frame_message f) (s\<lparr>sess_wire_format := fmt\<rparr>) bn")
    have k1: "keeps (fst bn) b1"
      using keeps_dispatch [OF _ read_frame_payload [OF rf], of "cxs k" bn e lz net "s\<lparr>sess_wire_format := fmt\<rparr>"]
        assms d by simp
    let ?b2 = "b1\<lparr>b_metrics := record_request_latency (cx_latency (cxs k)) (b_metrics b1)\<rparr>"
    have k2: "keeps (fst bn) ?b2" using k1 by simp
    let ?w = "\<lambda>m. write_frame \<lparr>correlation_id = correlation_id f, frame_message = m\<rparr> (sess_wire_format s1)"
    show ?thesis
    proof (cases "\<exists>m w. r = Some m \<and> ?w m = Inr w \<and> cx_write_ok (cxs k) \<and> keep_open (frame_message f) s1")
      case True
      then obtain m w where m: "r = Some m" "?w m = Inr w" "cx_write_ok (cxs k)" "keep_open (frame_message f) s1"
        by blast
      have "keeps ?b2 (fst (snd (snd (handle_broker_connection e lz net cxs (Suc k) rest s1 (?b2, n1)))))"
        using less [of rest "(?b2, n1)" "Suc k" s1] read_frame_rest [OF rf] by simp
      with k2 have "keeps (fst bn) (fst (snd (snd (handle_broker_connection e lz net cxs (Suc k) rest s1 (?b2, n1)))))"
        by (rule keeps_trans)
      then show ?thesis
        using rf d m by (simp add: handle_broker_connection.simps [of e lz net cxs k input s bn] case_prod_unfold Let_def)
    next
      case False
      then show ?thesis
        using rf d k1 by (auto simp: handle_broker_connection.simps [of e lz net cxs k input s bn] Let_def
            split: option.split sum.split)
    qed
  qed
qed

lemma keeps_dial_back:
  assumes gap: "fair_gaps gap"
  shows "keeps b (snd (dial_back_to_producer e t gap k input b))"
proof (induction "length input" arbitrary: k input b rule: less_induct)
  case less
  note step = dial_back_to_producer.simps [of e t gap k input b]
  show ?case
  proof (cases "read_message input")
    case (Inl err)
    then show ?thesis by (simp add: step)
  next
    case (Inr x)
    then obtain m rest where rm: "read_message input = Inr (m, rest)" by (cases x) auto
    have IH: "keeps b' (snd (dial_back_to_producer e t gap (Suc k) rest b'))" for b'
      using less [of rest b' "Suc k"] read_message_rest [OF rm] by simp
    show ?thesis
    proof (cases "\<exists>payload. m = Pcm payload")
      case True
      then obtain payload where m: "m = Pcm payload" by blast
      obtain r b1 where p: "produce_pcm e t payload (gap k b) = (r, b1)"
        by (cases "produce_pcm e t payload (gap k b)")
      have "small_payload payload" using read_message_payload [OF rm] m by simp
      then have "keeps (gap k b) b1"
        using keeps_produce_pcm [of payload e "gap k b" t] p by simp
      with fair_gap [OF gap keeps_refl [of b], of k] have k1: "keeps b b1" by (rule keeps_trans)
      then have "keeps b (snd (dial_back_to_producer e t gap (Suc k) rest b1))" using IH by (rule keeps_trans)
      with k1 rm m p show ?thesis by (auto simp: step case_prod_unfold split: sum.split)
    next
      case False
      then have "dial_back_to_producer e t gap k input b = dial_back_to_producer e t gap (Suc k) rest b"
        using rm by (cases m) (simp_all add: step)
      then show ?thesis using IH by simp
    qed
  qed
qed

lemma keeps_poll_partition: "fair_gaps gap \<Longrightarrow> keeps b (snd (poll_partition n gap i t g pidx b))"
proof (induction n arbitrary: i b)
  case 0
  then show ?case by simp
next
  case (Suc n)
  obtain r b1 where p: "deliver_poll t g pidx b = (r, b1)" by (cases "deliver_poll t g pidx b")
  with keeps_deliver_poll [of b t g pidx] have 1: "keeps b b1" by simp
  have "keeps b (snd (poll_partition n gap (Suc i) t g pidx (gap i b1)))"
    using fair_gap [OF Suc.prems 1] Suc.IH [OF Suc.prems] by (rule keeps_trans)
  with p 1 show ?case by (auto split: sum.split option.split)
qed

lemma keeps_consumer_task:
  assumes gap: "\<forall>k. fair_gaps (gap k)"
  shows "keeps b (snd (run_consumer_ready_and_send polls gap k t g pidx input b))"
proof (induction "length input" arbitrary: k input b rule: less_induct)
  case less
  note step = run_consumer_ready_and_send.simps [of polls gap k t g pidx input b]
  show ?case
  proof (cases "\<exists>c rest. read_message input = Inr (RPcm c, rest)")
    case True
    then obtain c rest where rm: "read_message input = Inr (RPcm c, rest)" by blast
    obtain r b1 where p: "poll_partition polls (gap k) 0 t g pidx b = (r, b1)"
      by (cases "poll_partition polls (gap k) 0 t g pidx b")
    with keeps_poll_partition [of "gap k" b polls 0 t g pidx] gap have k1: "keeps b b1" by simp
    then have "keeps b (snd (run_consumer_ready_and_send polls gap (Suc k) t g pidx rest b1))"
      using less [of rest b1 "Suc k"] read_message_rest [OF rm] keeps_trans by blast
    with k1 rm p show ?thesis by (auto simp: step case_prod_unfold split: option.split sum.split)
  next
    case False
    have "run_consumer_ready_and_send polls gap k t g pidx input b = ([], b)"
    proof (cases "read_message input")
      case (Inl err)
      then show ?thesis by (simp add: step)
    next
      case (Inr x)
      obtain m rest where x: "x = (m, rest)" by (cases x)
      with Inr False show ?thesis by (cases m) (simp_all add: step)
    qed
    then show ?thesis by simp
  qed
qed

lemma keeps_background: "keeps (fst bn) (fst (cluster_background_round e net now bn))"
proof -
  have "keeps b (fst (snd (sync_cluster_state_from_controller net now addr (b, n))))" for b addr n
    using keeps_apply_cluster_state [of b]
    by (auto simp: sync_cluster_state_from_controller_def split: prod.split sum.split message.split)
  then show ?thesis
    using keeps_controller_tick [of "fst bn" e now]
    by (auto simp: cluster_background_round_def Let_def split: option.split)
qed

section \<open>Properties\<close>

text \<open>
  C1: no client can damage the logs.  Whatever bytes arrive on a connection, whatever the
  other brokers answer, and whatever the other tasks do meanwhile as long as they keep the
  broker in the same sense, the connection ends and leaves the broker with every partition's
  memory equal to its file, every history an extension of what it was, and the routing view
  in step with the cluster state.  The same holds for the dial-back tasks and a round of
  the cluster task.
\<close>

theorem any_connection_safe:
  assumes "logs_ok b" and "view_synced b" and "\<forall>k. fair_gaps (cx_gap (cxs k))"
    and "b' = fst (snd (snd (handle_broker_connection e lz net cxs 0 input session_default (b, n))))
      \<or> b' = snd (dial_back_to_producer e t (cx_gap (cxs 0)) 0 input b)
      \<or> b' = snd (run_consumer_ready_and_send polls (\<lambda>k. cx_gap (cxs k)) 0 t g pidx input b)
      \<or> b' = fst (cluster_background_round e net now (b, n))"
  shows "logs_ok b' \<and> view_synced b' \<and> grows b b'"
proof -
  have "keeps b b'"
    using assms(4) keeps_connection [OF assms(3), of "(b, n)" e lz net 0 input session_default]
      keeps_dial_back [of "cx_gap (cxs 0)" b e t 0 input] keeps_consumer_task [of "\<lambda>k. cx_gap (cxs k)" b polls 0 t g pidx input]
      keeps_background [of "(b, n)" e net now] assms(3) by auto
  then show ?thesis using assms(1,2) grows_ok by (auto simp: keeps_def)
qed

definition idle_context :: request_context where
  "idle_context = \<lparr>cx_now = 0, cx_gap = (\<lambda>_ b. b), cx_polls = 0, cx_latency = 0, cx_write_ok = True\<rparr>"

definition no_network :: "unit network" where
  "no_network addr m n = (io_err OtherKind ''connection refused'', n)"

lemma idle_fair: "fair_gaps (cx_gap idle_context)"
  by (simp add: fair_gaps_def idle_context_def)

lemma sample_broker_ok: "logs_ok sample_broker" "view_synced sample_broker"
  using sample_broker_history by (auto simp: logs_ok_def view_synced_def sample_broker_def)

theorem any_connection_safe_witness:
  "logs_ok (fst (snd (snd (handle_broker_connection empty_env sample_lz4 no_network (\<lambda>_. idle_context) 0
     [3, PRODUCE, 0, 1] session_default (sample_broker, ())))))"
  using any_connection_safe [OF sample_broker_ok, of "\<lambda>_. idle_context" _ empty_env sample_lz4 no_network
      "[3, PRODUCE, 0, 1]" "()" 0 0 0 0 0] idle_fair by blast

lemma produce_finish_acked:
  "fst (produce_finish e net cx plan bn) = RProduce off \<Longrightarrow> \<exists>c t p x i. plan = PlanAck off c t p x i"
  by (auto simp: produce_finish_def Let_def split: produce_plan.splits option.splits prod.splits)

lemma produce_plan_acked:
  "produce_plan_of app t p x b = (Some (PlanAck off c t' p' x' i), b') \<Longrightarrow> app b = (Inr off, b')"
  by (auto simp: produce_plan_of_def split: if_splits prod.splits sum.splits)

lemma handle_append_acked:
  assumes gap: "fair_gaps (cx_gap cx)"
    and h: "handle_append e net cx s app t p payload (b, n) = (Some (RProduce off), b', n')"
  shows "\<exists>b2. app (cx_gap cx 1 b) = (Inr off, b2) \<and> keeps b2 b'"
proof -
  obtain pl b2 where pl: "produce_plan_of app t p payload (cx_gap cx 1 b) = (pl, b2)"
    by (cases "produce_plan_of app t p payload (cx_gap cx 1 b)")
  have "\<not> handshake_missing e s" using h by (auto simp: handle_append_def handshake_required_def)
  moreover have "check_produce_acl b (sess_principal s) t = Inr ()"
    using h calculation by (cases "check_produce_acl b (sess_principal s) t") (auto simp: handle_append_def acl_denied_def)
  ultimately obtain plan where plan: "pl = Some plan"
    and fin: "produce_finish e net cx plan (b2, n) = (RProduce off, b', n')"
    using h pl by (cases pl) (auto simp: handle_append_def split: prod.splits)
  from produce_finish_acked [of e net cx plan "(b2, n)" off] fin obtain c t' p' x i where
    "plan = PlanAck off c t' p' x i" by auto
  with pl plan have "app (cx_gap cx 1 b) = (Inr off, b2)" using produce_plan_acked by blast
  moreover have "keeps b2 b'" using keeps_produce_finish [OF gap, of b2 e net plan n] fin by simp
  ultimately show ?thesis by blast
qed

lemma history_unique:
  assumes "history b t p h" and "history b t p h'"
  shows "h = h'"
proof -
  have "log_of None h = log_of None h'"
    using load_partition_log_holds [of "b_dir b" t p h None] load_partition_log_holds [of "b_dir b" t p h' None] assms
    by (simp add: history_def)
  then have "numbered h = numbered h'" by (simp add: log_of_def start_of_simps)
  then show ?thesis using map_payload_numbered by metis
qed


definition sample_produce :: produce_request where
  "sample_produce = \<lparr>produce_topic_id = 1, produce_partition_id = 0, produce_payload = [7]\<rparr>"

lemma acl_open: "check_produce_acl sample_broker who t = Inr ()"
  by (simp add: check_produce_acl_def acl_check_def sample_broker_def acl_from_env_def acl_is_configured_def
      env_flag_def)

lemma sample_dispatch:
  "\<exists>b'. dispatch_message empty_env sample_lz4 no_network idle_context (Produce sample_produce) session_default
     (sample_broker, ()) = (Some (RProduce 0), session_default, [], b', ()) \<and> history b' 1 0 [[7]]"
proof -
  have v: "validate_produce_payload empty_env (length [7 :: u8]) = Inr ()" "small_payload [7]"
    by (simp_all add: validate_produce_payload_def small_payload_def max_payload_bytes_def DEFAULT_MAX_PAYLOAD_BYTES_def)
  obtain r b' where ap: "append_log empty_env 1 0 [7] sample_broker = (r, b')"
    by (cases "append_log empty_env 1 0 [7] sample_broker")
  with append_log_history(1,2) [OF sample_broker_history v(2,1), of 1 0]
  have r: "r = Inr 0" and h: "history b' 1 0 [[7]]" by simp_all
  have cl: "b_cluster b' = None" "b_cluster sample_broker = None"
    using same_role_append_log [of sample_broker empty_env 1 0 "[7]"] ap
    by (simp_all add: same_role_def sample_broker_def)
  have "\<not> handshake_missing empty_env session_default"
    by (simp add: handshake_missing_def require_handshake_def env_flag_def)
  with ap r cl h show ?thesis
    by (simp add: dispatch_message_def handle_produce_def handle_append_def sample_produce_def idle_context_def
        acl_open produce_plan_of_def produce_finish_def Let_def)
qed


text \<open>
  C35: the guards.  Where a handshake is required and missing, echo, fetch and both produce
  requests are refused and leave the broker as it is; on a broker of a cluster that does not
  lead the partition, a produce request that passes the checks is answered with the leader
  and appends nothing.
\<close>

theorem request_guards:
  assumes "cx_gap cx = (\<lambda>_ b. b)"
  shows "(handshake_missing e s \<longrightarrow> m \<in> {Echo txt, Fetch freq, Produce preq, IdempotentProduce ireq} \<longrightarrow>
      dispatch_message e lz net cx m s (b, n) = (Some handshake_required, s, [], b, n))
    \<and> (\<not> handshake_missing e s \<longrightarrow> check_produce_acl b (sess_principal s) (produce_topic_id preq) = Inr () \<longrightarrow>
       b_cluster b \<noteq> None \<longrightarrow> \<not> is_partition_leader b (produce_topic_id preq) (produce_partition_id preq) \<longrightarrow>
      dispatch_message e lz net cx (Produce preq) s (b, n)
      = (Some (RNotLeader (partition_leader b (produce_topic_id preq) (produce_partition_id preq))), s, [], b, n))"
  using assms
  by (auto simp: dispatch_message_def handle_echo_def handle_fetch_def handle_produce_def
      handle_idempotent_produce_def handle_append_def produce_plan_of_def produce_finish_def Let_def)

definition strict_env :: env where
  "strict_env = empty_env(''DMQ_REQUIRE_HANDSHAKE'' \<mapsto> ''1'')"

theorem request_guards_witness:
  "dispatch_message strict_env sample_lz4 no_network idle_context (Produce sample_produce) session_default
     (sample_broker, ()) = (Some handshake_required, session_default, [], sample_broker, ())"
proof -
  have cx: "cx_gap idle_context = (\<lambda>_ b. b)" by (simp add: idle_context_def)
  have "handshake_missing strict_env session_default"
    by (simp add: handshake_missing_def require_handshake_def env_flag_def strict_env_def session_default_def)
  then show ?thesis
    using request_guards [OF cx, where e = strict_env and s = session_default and m = "Produce sample_produce"
        and preq = sample_produce and lz = sample_lz4 and net = no_network and b = sample_broker and n = "()"]
    by blast
qed

text \<open>
  The requests that no guard covers.  Commits, replication and the listing requests are
  served on a connection without a handshake, even where one is required and whatever token
  is configured; a commit or a replicated record then changes the broker.
\<close>

theorem unguarded_requests:
  "fst (dispatch_message e lz net cx (CommitOffset creq) s bn) = Some (RCommitOffset 0)
   \<and> fst (snd (snd (snd (dispatch_message e lz net cx (CommitOffset creq) s bn))))
       = broker_commit_offset creq (cx_gap cx 0 (fst bn))
   \<and> fst (snd (snd (snd (dispatch_message e lz net cx (Replicate rreq) s bn))))
       = snd (handle_replicate e rreq (cx_gap cx 0 (fst bn)))
   \<and> fst (dispatch_message e lz net cx ListTopics s bn) = Some (RListTopics (list_topics (cx_gap cx 0 (fst bn))))
   \<and> fst (dispatch_message e lz net cx GetCluster s bn)
       = Some (RGetCluster (cluster_info_bytes e (cx_gap cx 0 (fst bn))))"
  by (simp add: dispatch_message_def handle_commit_def case_prod_unfold Let_def)

lemma unreachable_acks:
  assumes "\<forall>addr m n. \<not> is_ok (fst (net addr m n))" and "distinct ids"
  shows "fst (replicate_loop net c i t p off x ids acks n) \<le> acks + (if i \<in> set ids then 1 else 0)"
  using assms(2)
proof (induction ids arbitrary: acks n)
  case Nil
  then show ?case by simp
next
  case (Cons j ids)
  have "\<not> is_ok (fst (send_replicate net addr t p off x n))" for addr
    using assms(1) [rule_format, of addr "Replicate \<lparr>repl_topic_id = t, repl_partition_id = p, repl_offset = off,
        repl_payload = x\<rparr>" n]
    by (auto simp: send_replicate_def sbind_def is_ok_def split: sum.splits)
  with Cons.IH [of "acks + 1" n] Cons.IH [of acks] Cons.prems show ?case
    by (auto simp: case_prod_unfold split: option.split)
qed

text \<open>
  \<open>acks=all\<close> does not hold back the answer.  With \<open>DMQ_ACKS=all\<close>, at least two required
  in-sync replicas and no follower reachable, fewer replicas than required have the record,
  yet a produce request on the leader is answered with its offset like any other.
\<close>

theorem acks_all_still_acknowledged:
  assumes all: "requires_all_replicas e" "2 \<le> unat (cc_min_insync_replicas c)"
    and net: "\<forall>addr m n. \<not> is_ok (fst (net addr m n))"
    and role: "b_cluster b = Some c" "is_partition_leader b t p" "distinct (cc_replicas_for c t p)"
    and s: "\<not> handshake_missing e s" "check_produce_acl b (sess_principal s) t = Inr ()"
    and app: "append_log e t p x b = (Inr off, b1)" and cx: "cx_gap cx = (\<lambda>_ b. b)"
  shows "fst (replicate_to_followers net c (b_broker_id b) t p off x n) < min_required_acks e c
    \<and> dispatch_message e lz net cx
        (Produce \<lparr>produce_topic_id = t, produce_partition_id = p, produce_payload = x\<rparr>) s (b, n)
      = (Some (RProduce off), s, [], count_error b1,
         snd (replicate_to_followers net c (b_broker_id b) t p off x n))"
proof -
  have "\<not> cc_min_insync_replicas c \<le> 1" using all(2) by (simp add: word_le_nat_alt)
  then have req: "min_required_acks e c = unat (cc_min_insync_replicas c)"
    using all(1) by (simp add: min_required_acks_def max_def)
  have "fst (replicate_to_followers net c (b_broker_id b) t p off x n) \<le> 1"
    using unreachable_acks [OF net role(3), of c "b_broker_id b" t p off x 0 n]
    by (simp add: replicate_to_followers_def split: if_splits)
  then have few: "fst (replicate_to_followers net c (b_broker_id b) t p off x n) < min_required_acks e c"
    using req all(2) by simp
  have same: "b_cluster b1 = Some c" "b_broker_id b1 = b_broker_id b"
    using same_role_append_log [of b e t p x] app role(1) by (simp_all add: same_role_def)
  show ?thesis
    using few same s role app cx all(1)
    by (simp add: dispatch_message_def handle_produce_def handle_append_def produce_plan_of_def produce_finish_def
        Let_def case_prod_unfold)
qed

definition all_env :: env where
  "all_env = empty_env(''DMQ_ACKS'' \<mapsto> ''all'')"

theorem acks_all_still_acknowledged_witness:
  "\<exists>b1. dispatch_message all_env sample_lz4 no_network idle_context (Produce sample_produce) session_default
     (sample_broker\<lparr>b_cluster := Some sample_config\<rparr>, ()) = (Some (RProduce 0), session_default, [], b1, ())"
proof -
  let ?b = "sample_broker\<lparr>b_cluster := Some sample_config\<rparr>"
  have h: "history ?b 1 0 []" using sample_broker_history by (simp add: history_def)
  have v: "validate_produce_payload all_env (length [7 :: u8]) = Inr ()" "small_payload [7]"
    by (simp_all add: validate_produce_payload_def small_payload_def max_payload_bytes_def
        DEFAULT_MAX_PAYLOAD_BYTES_def all_env_def)
  obtain r b1 where "append_log all_env 1 0 [7] ?b = (r, b1)" by (cases "append_log all_env 1 0 [7] ?b")
  with append_log_history(1) [OF h v(2,1)] have app: "append_log all_env 1 0 [7] ?b = (Inr 0, b1)" by simp
  have lead: "is_partition_leader ?b 1 0"
    by (simp add: is_partition_leader_def partition_leader_def cc_leader_for_def cc_assignment_def sample_config_def)
      (simp add: sample_broker_def)
  have all: "requires_all_replicas all_env"
    by (simp add: requires_all_replicas_def acks_mode_def all_env_def ACKS_ALL_def eq_ignore_ascii_case_def)
  have acl: "check_produce_acl ?b who 1 = Inr ()" for who
    using acl_open [of who 1] by (simp add: check_produce_acl_def)
  have hs: "\<not> handshake_missing all_env session_default"
    by (simp add: handshake_missing_def require_handshake_def env_flag_def all_env_def)
  have net: "\<forall>addr m n. \<not> is_ok (fst (no_network addr m n))" by (simp add: no_network_def io_err_def)
  show ?thesis
    using acks_all_still_acknowledged [OF all _ net _ lead _ hs acl app, of sample_config idle_context "()" sample_lz4]
    by (simp add: sample_config_def cc_replicas_for_def cc_assignment_def idle_context_def sample_produce_def)
qed

text \<open>
  A version 1 connection serves one request.  After a version 1 frame that is not a
  handshake the connection ends, so what the client sent behind it is never looked at.
\<close>

theorem v1_connection_single_request:
  assumes "read_frame w = Inr (f, V1, [])" and "\<forall>req. frame_message f \<noteq> Handshake req"
    and "read_frame (w @ rest) = Inr (f, V1, rest)"
  shows "handle_broker_connection e lz net cxs k (w @ rest) s bn = handle_broker_connection e lz net cxs k w s bn"
proof -
  let ?s = "s\<lparr>sess_wire_format := V1\<rparr>"
  have fmt: "sess_wire_format (fst (snd (dispatch_message e lz net (cxs k) (frame_message f) ?s bn))) = V1"
    using assms(2)
    by (cases "frame_message f") (simp_all add: dispatch_message_def Let_def case_prod_unfold)
  have "\<not> keep_open (frame_message f) s1" if "sess_wire_format s1 = V1" for s1
    using that assms(2) by (cases "frame_message f") (auto simp: keep_open_def)
  with fmt show ?thesis
    using assms(1,3)
    by (simp add: handle_broker_connection.simps [of e lz net cxs k w s bn]
        handle_broker_connection.simps [of e lz net cxs k "w @ rest" s bn] Let_def case_prod_unfold
        split: option.split sum.split)
qed

theorem v1_connection_single_request_witness:
  "handle_broker_connection empty_env sample_lz4 no_network (\<lambda>_. idle_context) 0 ([1, LIST_TOPICS] @ [1, GET_CLUSTER])
     session_default (sample_broker, ())
   = handle_broker_connection empty_env sample_lz4 no_network (\<lambda>_. idle_context) 0 [1, LIST_TOPICS]
     session_default (sample_broker, ())"
  by (rule v1_connection_single_request [where f = "frame_v1 ListTopics"])
    (simp_all add: read_frame_def take_exact_def parse_frame_def type_codes frame_v1_def)

end
