(* ===== verification/Cluster_Run.thy ===== *)
theory Cluster_Run
  imports Server_Safety
begin

text \<open>
  The network instantiated with brokers: a map from addresses to brokers, where sending a
  message to an address runs the connection loop of the broker there on the bytes of the
  version 1 frame at the given time.  It satisfies the laws that the leader's replication loop is proved
  against, so an acknowledgement counts a broker that has the record.
\<close>

text \<open>A context at a given time, in which no other task runs.\<close>

abbreviation idle_at :: "u64 \<Rightarrow> request_context" where
  "idle_at now \<equiv> idle_context\<lparr>cx_now := now\<rparr>"

lemma idle_at_fair: "fair_gaps (cx_gap (idle_at now))"
  by (simp add: fair_gaps_def idle_context_def)

definition peer_net :: "env \<Rightarrow> lz4_lib \<Rightarrow> u64 \<Rightarrow> (string \<Rightarrow> broker option) network" where
  "peer_net e lz now addr m n =
     (case n addr of
        None \<Rightarrow> (io_err OtherKind ''connection refused'', n)
      | Some b \<Rightarrow>
          (case write_message m of
             Inl err \<Rightarrow> (Inl err, n)
           | Inr w \<Rightarrow>
               (case handle_broker_connection e lz no_network (\<lambda>_. idle_at now) 0 w session_default (b, ()) of
                  (out, _, b', _) \<Rightarrow> (res_bind (read_message out) (\<lambda>(r, _). Inr r), n(addr \<mapsto> b')))))"

definition brokers_ok :: "(string \<Rightarrow> broker option) \<Rightarrow> bool" where
  "brokers_ok n \<longleftrightarrow> (\<forall>a b. n a = Some b \<longrightarrow> logs_ok b)"

text \<open>The broker at the address has a record at the offset.\<close>

definition holds_offset :: "string \<Rightarrow> u16 \<Rightarrow> u16 \<Rightarrow> u64 \<Rightarrow> bytes \<Rightarrow> (string \<Rightarrow> broker option) \<Rightarrow> bool" where
  "holds_offset addr t p off x n \<longleftrightarrow>
     (\<exists>b h. n addr = Some b \<and> history b t p h \<and> unat off < length h)"

lemma peer_net_step:
  assumes "brokers_ok n"
  shows "snd (peer_net e lz now addr m n) = n \<or>
    (\<exists>b b'. n addr = Some b \<and> grows b b' \<and> snd (peer_net e lz now addr m n) = n(addr \<mapsto> b'))"
proof (cases "n addr")
  case None
  then show ?thesis by (simp add: peer_net_def)
next
  case (Some b)
  have "keeps b (fst (snd (snd (handle_broker_connection e lz no_network (\<lambda>_. idle_at now) 0 w session_default (b, ())))))" for w
    using keeps_connection [of "\<lambda>_. idle_at now" "(b, ())"] idle_at_fair by simp
  moreover have "logs_ok b" using assms Some by (simp add: brokers_ok_def)
  ultimately have "grows b (fst (snd (snd (handle_broker_connection e lz no_network (\<lambda>_. idle_at now) 0 w
      session_default (b, ())))))" for w
    by (simp add: keeps_def)
  then show ?thesis using Some by (auto simp: peer_net_def case_prod_unfold split: sum.split)
qed

lemma peer_net_ok: "brokers_ok n \<Longrightarrow> brokers_ok (snd (peer_net e lz now addr m n))"
  using peer_net_step [of n e lz now addr m] grows_ok by (fastforce simp: brokers_ok_def)

lemma peer_net_stable:
  assumes "brokers_ok n" and "holds_offset a t p off x n"
  shows "holds_offset a t p off x (snd (peer_net e lz now addr m n))"
proof -
  obtain b h where b: "n a = Some b" "history b t p h" "unat off < length h"
    using assms(2) by (auto simp: holds_offset_def)
  consider "snd (peer_net e lz now addr m n) = n"
    | b0 b' where "n addr = Some b0" "grows b0 b'" "snd (peer_net e lz now addr m n) = n(addr \<mapsto> b')"
    using peer_net_step [OF assms(1), of e lz now addr m] by blast
  then show ?thesis
  proof cases
    case 1
    with assms(2) show ?thesis by simp
  next
    case 2
    show ?thesis
    proof (cases "a = addr")
      case True
      with b(1) 2(1) have "b0 = b" by simp
      with b(2) 2(2) obtain ext where "history b' t p (h @ ext)" unfolding grows_def by blast
      with True 2(3) b(3) show ?thesis by (auto simp: holds_offset_def intro!: exI [of _ "h @ ext"])
    next
      case False
      with b 2(3) show ?thesis by (auto simp: holds_offset_def)
    qed
  qed
qed

text \<open>A replication request that does not fit a version 1 frame is refused by the reader.\<close>

lemma replicate_truncated:
  assumes "encode_message (Replicate r) = Inr fr" and "k < length fr"
  shows "\<not> is_ok (parse_frame (take k fr))"
proof -
  let ?len = "of_nat (length (repl_payload r)) :: u16"
  let ?hd = "to_be_bytes (repl_topic_id r) @ to_be_bytes (repl_partition_id r) @ to_be_bytes (repl_offset r)"
  have small: "length (repl_payload r) < 2 ^ 16"
    and fr: "fr = REPLICATE # ?hd @ to_be_bytes ?len @ repl_payload r"
    using assms(1) by (auto simp: encode_message_def replicate_encode_def split: if_splits)
  have n: "unat ?len = length (repl_payload r)" using small by (simp add: unat_of_nat_u16)
  show ?thesis
  proof (cases k)
    case 0
    then show ?thesis by (simp add: parse_frame_def io_err_def)
  next
    case (Suc j)
    let ?p = "take j (?hd @ to_be_bytes ?len @ repl_payload r)"
    have take: "take k fr = REPLICATE # ?p" using Suc fr by simp
    have "\<not> is_ok (replicate_decode ?p)"
    proof (cases "j < 14")
      case True
      then show ?thesis by (simp add: replicate_decode_def too_short_def io_err_def)
    next
      case False
      then have "?p = ?hd @ to_be_bytes ?len @ take (j - 14) (repl_payload r)" by simp
      moreover have "(be_at 12 2 (?hd @ to_be_bytes ?len @ take (j - 14) (repl_payload r)) :: u16) = ?len"
        by (simp add: codec_simps)
      ultimately have len: "(be_at 12 2 ?p :: u16) = ?len" by (simp only:)
      have "length ?p < 14 + length (repl_payload r)" using assms(2) Suc fr False by simp
      with len n show ?thesis by (simp add: replicate_decode_def too_short_def io_err_def Let_def)
    qed
    then have "\<not> is_ok (res_bind (replicate_decode ?p) (\<lambda>r. Inr (Replicate r)))"
      by (cases "replicate_decode ?p") simp_all
    then show ?thesis by (simp add: take parse_frame_def type_codes)
  qed
qed

lemma replicate_oversized_unread:
  assumes "encode_message (Replicate r) = Inr fr" and "254 < length fr"
  shows "\<not> is_ok (read_frame (of_nat (length fr) # fr))"
proof -
  let ?b = "of_nat (length fr) :: u8"
  have u8: "unat ?b < 2 ^ LENGTH(8)" by (rule unsigned_less)
  obtain rest where fr: "fr = REPLICATE # rest"
    using assms(1) by (auto simp: encode_message_def res_bind_Inr_iff)
  show ?thesis
  proof (cases "?b = 0xFF")
    case True
    then show ?thesis using fr by (simp add: read_frame_def type_codes io_err_def del: of_nat_Suc)
  next
    case False
    then have "unat ?b \<noteq> 255" by (auto simp: word_unat_eq_iff)
    with u8 assms(2) have k: "unat ?b < length fr" by simp
    from replicate_truncated [OF assms(1) this] obtain err where "parse_frame (take (unat ?b) fr) = Inl err"
      by (cases "parse_frame (take (unat ?b) fr)") auto
    with k False show ?thesis
      by (simp add: read_frame_def take_exact_def Let_def io_err_def del: unat_of_nat)
  qed
qed

lemma replicate_response:
  assumes "read_frame w = Inr (frame_v1 (Replicate r), V1, [])"
    and c: "handle_broker_connection e lz no_network (\<lambda>_. idle_at now) 0 w session_default (b, ()) = (out, sp, b', u)"
    and ok: "read_message out = Inr (RReplicate 0, rest)"
  shows "\<exists>b1. apply_replica e (repl_topic_id r) (repl_partition_id r) (repl_offset r) (repl_payload r) b = (Inr (), b1)
    \<and> grows b1 b'"
proof -
  let ?a = "apply_replica e (repl_topic_id r) (repl_partition_id r) (repl_offset r) (repl_payload r) b"
  obtain x b1 where a: "?a = (x, b1)" by (cases ?a)
  have grow: "grows b1 (b1\<lparr>b_metrics := m\<rparr>)" for m
    by (simp add: grows_def) (metis append_Nil2)
  note c' = c [unfolded handle_broker_connection.simps [of e lz no_network "\<lambda>_. idle_at now" 0 w session_default "(b, ())"]]
  have rm: "read_message [2, R_REPLICATE, code] = Inr (RReplicate code, [])" for code
    by (simp add: read_message_def take_exact_def parse_frame_def type_codes first_or_0_def)
  show ?thesis
  proof (cases x)
    case (Inr y)
    have "b' = b1\<lparr>b_metrics := record_request_latency 0 (b_metrics b1)\<rparr>"
      using c' assms(1) a Inr
      by (simp add: frame_v1_def dispatch_message_def handle_replicate_def idle_context_def write_frame_def
          write_message_def encode_message_def keep_open_def session_default_def Let_def)
    then show ?thesis using a Inr grow by auto
  next
    case (Inl err)
    then have "out = (case err of Io k msg \<Rightarrow> [2, R_REPLICATE, 1] | Panic msg \<Rightarrow> [])"
      using c' assms(1) a
      by (auto simp: frame_v1_def dispatch_message_def handle_replicate_def idle_context_def write_frame_def
          write_message_def encode_message_def keep_open_def session_default_def Let_def split: rust_error.splits)
    then have False using ok rm by (auto simp: read_message_def take_exact_def split: rust_error.splits)
    then show ?thesis ..
  qed
qed

lemma apply_replica_fills:
  assumes "logs_ok b" and "small_payload x" and "apply_replica e t p off x b = (Inr (), b1)"
  shows "\<exists>h. history b1 t p h \<and> unat off < length h"
proof -
  have role: "is_partition_replica b t p" using assms(3) by (auto simp: apply_replica_def not_a_replica_def split: if_splits)
  obtain h where h: "history b t p h" using assms(1) by (auto simp: logs_ok_def)
  note cs = apply_replica_cases(1-3) [OF h role assms(2), of off e]
  have le: "unat (of_nat (length h) :: u64) \<le> length h" by (simp add: unat_of_nat)
  consider "off < of_nat (length h)" | "off > of_nat (length h)" | "off = of_nat (length h)" by fastforce
  then show ?thesis
  proof cases
    case 1
    with cs(1) assms(3) h have "history b1 t p h" by (auto intro: history_ensure)
    with 1 le show ?thesis by (auto simp: word_less_nat_alt)
  next
    case 2
    with cs(2) assms(3) show ?thesis by auto
  next
    case 3
    with cs(3) assms(3) have "history b1 t p (h @ [x])" by simp
    with 3 le show ?thesis by (intro exI [of _ "h @ [x]"]) simp
  qed
qed

lemma peer_net_ack:
  assumes ok: "brokers_ok n"
    and net: "peer_net e lz now addr (Replicate r) n = (Inr (RReplicate 0), n')"
  shows "holds_offset addr (repl_topic_id r) (repl_partition_id r) (repl_offset r) (repl_payload r) n'"
proof -
  obtain b w where b: "n addr = Some b" and w: "write_message (Replicate r) = Inr w"
    using net by (auto simp: peer_net_def split: option.splits sum.splits)
  then obtain fr where fr: "encode_message (Replicate r) = Inr fr" "w = of_nat (length fr) # fr"
    by (auto simp: write_message_def res_bind_Inr_iff)
  have small: "small_payload (repl_payload r)"
    using fr(1) by (auto simp: encode_message_def replicate_encode_def small_payload_def split: if_splits)
  obtain out sp b' u where c: "handle_broker_connection e lz no_network (\<lambda>_. idle_at now) 0 w session_default (b, ())
      = (out, sp, b', u)"
    by (cases "handle_broker_connection e lz no_network (\<lambda>_. idle_at now) 0 w session_default (b, ())")
  with net b w obtain rest where out: "read_message out = Inr (RReplicate 0, rest)" and n': "n' = n(addr \<mapsto> b')"
    by (auto simp: peer_net_def res_bind_Inr_iff)
  have "length fr \<le> 254"
  proof (rule ccontr)
    assume "\<not> length fr \<le> 254"
    then obtain err where "read_frame w = Inl err"
      using replicate_oversized_unread [OF fr(1)] fr(2) by (cases "read_frame w") auto
    with c have "out = []" by (simp add: handle_broker_connection.simps)
    with out show False by (simp add: read_message_def take_exact_def)
  qed
  moreover have "message_ok (Replicate r)" using small by (simp add: small_payload_def)
  ultimately have "read_frame w = Inr (frame_v1 (Replicate r), V1, [])"
    using v1_frame_readable [OF _ fr(1), of w "[]"] w by (simp add: write_frame_def frame_v1_def)
  from replicate_response [OF this c out] obtain b1 where
    b1: "apply_replica e (repl_topic_id r) (repl_partition_id r) (repl_offset r) (repl_payload r) b = (Inr (), b1)"
    and g: "grows b1 b'" by blast
  have "logs_ok b" using ok b by (simp add: brokers_ok_def)
  from apply_replica_fills [OF this small b1] obtain h where
    h: "history b1 (repl_topic_id r) (repl_partition_id r) h" "unat (repl_offset r) < length h" by blast
  with g obtain ext where "history b' (repl_topic_id r) (repl_partition_id r) (h @ ext)"
    unfolding grows_def by blast
  with h(2) n' show ?thesis by (auto simp: holds_offset_def intro!: exI [of _ "h @ ext"])
qed

interpretation peers: replication_network "peer_net e lz now" brokers_ok holds_offset for e lz now
  by unfold_locales (use peer_net_ok peer_net_stable in blast, use peer_net_ack in fastforce, use peer_net_stable in blast)

text \<open>
  What the leader counts.  Let the followers be brokers whose logs are sound.  The number
  of acknowledgements the leader counts for a record is at most the number of replicas of
  the partition that are the leader or, when the replication ends, have a record at that
  offset in memory and on disk.
\<close>

theorem acks_count_copies:
  assumes "replicate_to_followers (peer_net e lz now) cluster local_id t p off x n = (acks, n')"
    and "distinct (cc_replicas_for cluster t p)" and "brokers_ok n"
  shows "\<exists>copies \<subseteq> set (cc_replicas_for cluster t p). acks \<le> card copies \<and>
    (\<forall>i\<in>copies. i = local_id \<or> (\<exists>a. broker_addr cluster i = Some a \<and>
       (\<exists>b h. n' a = Some b \<and> history b t p h \<and> unat off < length h)))"
  using peers.acks_are_copies [OF assms] unfolding holds_offset_def .

theorem acks_count_copies_witness:
  "\<exists>acks n'. replicate_to_followers (peer_net empty_env sample_lz4 0) sample_config 1 1 0 0 [7] (\<lambda>_. None) = (acks, n')
    \<and> acks \<le> 2"
proof -
  obtain acks n' where r: "replicate_to_followers (peer_net empty_env sample_lz4 0) sample_config 1 1 0 0 [7] (\<lambda>_. None)
      = (acks, n')" by (cases "replicate_to_followers (peer_net empty_env sample_lz4 0) sample_config 1 1 0 0 [7] (\<lambda>_. None)")
  have reps: "cc_replicas_for sample_config 1 0 = [1, 2]"
    by (simp add: cc_replicas_for_def cc_assignment_def sample_config_def)
  then have "distinct (cc_replicas_for sample_config 1 0)" by simp
  moreover have "brokers_ok (\<lambda>_. None)" by (simp add: brokers_ok_def)
  ultimately obtain copies where "copies \<subseteq> set (cc_replicas_for sample_config 1 0)" "acks \<le> card copies"
    using acks_count_copies [OF r] by blast
  then have "acks \<le> card {1 :: u16, 2}" using reps card_mono [of "{1 :: u16, 2}" copies] by simp
  then show ?thesis using r by simp
qed

end
