(* ===== verification/Request_Path.thy ===== *)
theory Request_Path
  imports Server_Safety
begin

text \<open>
  The way of one request through the connection loop: the bytes of a request frame in, the
  bytes of the response frame out, in both wire formats, and what the produce and fetch
  requests of an accepted client leave behind.
\<close>

section \<open>One request over a fresh connection\<close>

text \<open>
  A version 2 request on a connection that has not negotiated version 2 is answered once:
  the bytes of the request go in, the bytes of the response come out, and the client reads
  the response with the correlation id of its request.
\<close>

lemma one_request:
  assumes req: "message_ok m" "encode_message m = Inr fr" "length fr \<le> 65530" "\<forall>h. m \<noteq> Handshake h"
    and d: "dispatch_message e lz net (cxs 0) m (session_default\<lparr>sess_wire_format := V2\<rparr>) (b, n)
      = (Some r, session_default\<lparr>sess_wire_format := V2\<rparr>, [], b1, n1)"
    and resp: "message_ok r" "encode_message r = Inr fr'" "length fr' \<le> 65530"
    and cx: "cx_write_ok (cxs 0)"
  shows "\<exists>w out. write_frame (frame_v2 cid m) V2 = Inr w
    \<and> handle_broker_connection e lz net cxs 0 w session_default (b, n)
      = (out, [], b1\<lparr>b_metrics := record_request_latency (cx_latency (cxs 0)) (b_metrics b1)\<rparr>, n1)
    \<and> read_frame out = Inr (frame_v2 cid r, V2, [])"
proof -
  obtain w where w: "write_frame (frame_v2 cid m) V2 = Inr w"
    using req(2) by (simp add: write_frame_def frame_v2_def Let_def)
  have rd: "read_frame w = Inr (frame_v2 cid m, V2, [])"
    using read_v2_write [OF req(2) message_roundtripD [OF req(1,2)], of cid w "[]"] req(3) w
    by (simp add: frame_v2_def)
  obtain out where out: "write_frame (frame_v2 cid r) V2 = Inr out"
    using resp(2) by (simp add: write_frame_def frame_v2_def Let_def)
  have rd': "read_frame out = Inr (frame_v2 cid r, V2, [])"
    using read_v2_write [OF resp(2) message_roundtripD [OF resp(1,2)], of cid out "[]"] resp(3) out
    by (simp add: frame_v2_def)
  have "\<not> PROTOCOL_V2 \<le> PROTOCOL_V1" by (simp add: protocol_consts word_le_nat_alt)
  then have "\<not> keep_open m (session_default\<lparr>sess_wire_format := V2\<rparr>)"
    using req(4) by (cases m) (simp_all add: keep_open_def session_default_def)
  then have "handle_broker_connection e lz net cxs 0 w session_default (b, n)
      = (out, [], b1\<lparr>b_metrics := record_request_latency (cx_latency (cxs 0)) (b_metrics b1)\<rparr>, n1)"
    using rd d out cx by (simp add: handle_broker_connection.simps [of e lz net cxs 0 w] frame_v2_def)
  with w rd' show ?thesis by blast
qed

lemma fetch_poll_found:
  "fst (fetch_log e req b) = Inr rs \<Longrightarrow> rs \<noteq> [] \<Longrightarrow> fetch_poll e req gap n i b = fetch_log e req b"
  by (cases n; cases "fetch_log e req b") simp_all

lemma session_default_principal [simp]:
  "sess_principal (session_default\<lparr>sess_wire_format := f\<rparr>) = ''anonymous''"
  by (simp add: session_default_def)

lemma produce_finish_ack:
  assumes "cx_gap cx = (\<lambda>_ b. b)"
  shows "\<exists>b' n'. produce_finish e net cx (PlanAck off c t p x i) (b, n) = (RProduce off, b', n')
    \<and> (b' = b \<or> b' = count_error b)"
  using assms by (simp add: produce_finish_def Let_def split: option.split prod.split)

text \<open>An append that succeeds on the leader is acknowledged with its offset.\<close>

lemma handle_append_ok:
  assumes app: "app b = (Inr off, b1)" and lead: "b_cluster b = None \<or> is_partition_leader b t p"
    and acl: "check_produce_acl b (sess_principal s) t = Inr ()" and hs: "\<not> handshake_missing e s"
    and cx: "cx_gap cx = (\<lambda>_ b. b)"
  shows "\<exists>b2 n2. handle_append e net cx s app t p x (b, n) = (Some (RProduce off), b2, n2)
    \<and> (b2 = b1 \<or> b2 = count_error b1)"
proof -
  obtain b2 n2 where "produce_finish e net cx (PlanAck off (b_cluster b1) t p x (b_broker_id b1)) (b1, n)
      = (RProduce off, b2, n2)" "b2 = b1 \<or> b2 = count_error b1"
    using produce_finish_ack [OF cx, of e net off "b_cluster b1" t p x "b_broker_id b1" b1 n] by blast
  moreover have "produce_plan_of app t p x b = (Some (PlanAck off (b_cluster b1) t p x (b_broker_id b1)), b1)"
    using lead app by (auto simp: produce_plan_of_def)
  ultimately show ?thesis using acl hs cx by (simp add: handle_append_def)
qed

text \<open>The state a produce request leaves, on a broker that may answer it.\<close>

lemma dispatch_produce:
  assumes h: "history b t p h" and x: "small_payload x" "length x \<le> max_payload_bytes e"
    and lead: "b_cluster b = None \<or> is_partition_leader b t p"
    and acl: "check_produce_acl b (sess_principal s) t = Inr ()" and hs: "\<not> handshake_missing e s"
    and cx: "cx_gap cx = (\<lambda>_ b. b)"
  shows "\<exists>b1 n1. dispatch_message e lz net cx (Produce \<lparr>produce_topic_id = t, produce_partition_id = p,
      produce_payload = x\<rparr>) s (b, n) = (Some (RProduce (of_nat (length h))), s, [], b1, n1)
    \<and> history b1 t p (h @ [x]) \<and> same_role b b1 \<and> retention b1 t p = retention b t p"
proof -
  have v: "validate_produce_payload e (length x) = Inr ()" using x(2) by (simp add: validate_produce_payload_def)
  obtain b1 where app: "append_log e t p x b = (Inr (of_nat (length h)), b1)"
    using append_log_history(1) [OF h x(1) v] by (metis prod.collapse)
  obtain b2 n2 where ack: "handle_append e net cx s (append_log e t p x) t p x (b, n)
      = (Some (RProduce (of_nat (length h))), b2, n2)" and b2: "b2 = b1 \<or> b2 = count_error b1"
    using handle_append_ok [where app = "append_log e t p x", OF app lead acl hs cx, of net x n] by blast
  have "history b2 t p (h @ [x]) \<and> same_role b b2 \<and> retention b2 t p = retention b t p"
    using b2 app append_log_history(2) [OF h x(1) v] same_role_append_log [of b e t p x]
      append_log_retention [OF h x(1) v] by (auto simp: count_error_def)
  with ack cx show ?thesis by (simp add: dispatch_message_def handle_produce_def Let_def)
qed

lemma dispatch_idempotent:
  assumes h: "history b (idem_topic_id req) (idem_partition_id req) h"
    and x: "small_payload (idem_payload req)" "length (idem_payload req) \<le> max_payload_bytes e"
    and fresh: "hm_get (entries (b_idempotency b)) (idem_topic_id req, idem_partition_id req, idem_producer_id req) = None"
      "idem_sequence req = 0"
    and lead: "b_cluster b = None \<or> is_partition_leader b (idem_topic_id req) (idem_partition_id req)"
    and acl: "check_produce_acl b (sess_principal s) (idem_topic_id req) = Inr ()" and hs: "\<not> handshake_missing e s"
    and cx: "cx_gap cx = (\<lambda>_ b. b)"
  shows "\<exists>b1 n1. dispatch_message e lz net cx (IdempotentProduce req) s (b, n)
      = (Some (RProduce (of_nat (length h))), s, [], b1, n1)
    \<and> history b1 (idem_topic_id req) (idem_partition_id req) (h @ [idem_payload req])"
proof -
  have v: "validate_produce_payload e (length (idem_payload req)) = Inr ()"
    using x(2) by (simp add: validate_produce_payload_def)
  have r: "resolve (b_idempotency b) (idem_topic_id req) (idem_partition_id req) (idem_producer_id req)
      (idem_sequence req) = Inr AppendAction" using fresh by (simp add: resolve_def)
  note first = produce_idempotent_first(1,2) [OF h x(1) v r]
  obtain b1 where app: "produce_idempotent e req b = (Inr (of_nat (length h)), b1)"
    using first(1) by (metis prod.collapse)
  obtain b2 n2 where "handle_append e net cx s (produce_idempotent e req) (idem_topic_id req) (idem_partition_id req)
      (idem_payload req) (b, n) = (Some (RProduce (of_nat (length h))), b2, n2)" "b2 = b1 \<or> b2 = count_error b1"
    using handle_append_ok [where app = "produce_idempotent e req", OF app lead acl hs cx, of net "idem_payload req" n] by blast
  with first(2) app cx show ?thesis
    by (auto simp: dispatch_message_def handle_idempotent_produce_def count_error_def)
qed

text \<open>An accepted fetch that finds records is answered with them, in a plain envelope.\<close>

lemma dispatch_fetch:
  assumes f: "fetch_log e req b = (Inr rs, b1)" "rs \<noteq> []"
    and lead: "b_cluster b = None \<or> is_partition_leader b (fetch_topic_id req) (fetch_partition_id req)"
    and acl: "check_fetch_acl b (sess_principal s) (fetch_topic_id req) = Inr ()" and hs: "\<not> handshake_missing e s"
    and plain: "\<not> compression_enabled e" and cx: "cx_gap cx = (\<lambda>_ b. b)"
  shows "dispatch_message e lz net cx (Fetch req) s (b, n)
    = (Some (RFetch (CODEC_NONE # encode_records rs)), s, [], b1, n)"
proof -
  have "fetch_redirect_leader e b (fetch_topic_id req) (fetch_partition_id req) = None"
    using lead by (auto simp: fetch_redirect_leader_def)
  then show ?thesis
    using acl hs cx plain f fetch_poll_found [of e req b rs]
    by (simp add: dispatch_message_def handle_fetch_def fetch_response_def wrap_batch_def preferred_codec_def Let_def)
qed

lemma length_one_record_batch:
  "length x \<le> 65535 \<Longrightarrow> length (encode_records [\<lparr>rec_offset = off, rec_payload = x\<rparr>]) = 12 + length x"
  by (simp add: encode_records_def encode_batch_record_eq truncate_record_def)


section \<open>Version 1 requests\<close>

text \<open>The version 1 counterpart: one frame in, one frame out, and the connection ends.\<close>

lemma session_default_v1 [simp]: "session_default\<lparr>sess_wire_format := V1\<rparr> = session_default"
  by (simp add: session_default_def)

lemma v1_request_read:
  assumes "message_ok m" "encode_message m = Inr fr" "length fr \<le> 254" "write_message m = Inr w"
  shows "read_frame (w @ rest) = Inr (frame_v1 m, V1, rest)"
  using read_v1_write [OF assms(2) message_roundtripD [OF assms(1,2)] _ assms(4)] assms(3) by simp

lemma one_request_v1:
  assumes req: "message_ok m" "encode_message m = Inr fr" "length fr \<le> 254" "\<forall>h. m \<noteq> Handshake h"
      "write_message m = Inr w"
    and d: "dispatch_message e lz net (cxs 0) m session_default (b, n) = (Some r, session_default, [], b1, n1)"
    and resp: "write_message r = Inr out" and cx: "cx_write_ok (cxs 0)"
  shows "handle_broker_connection e lz net cxs 0 w session_default (b, n)
    = (out, [], b1\<lparr>b_metrics := record_request_latency (cx_latency (cxs 0)) (b_metrics b1)\<rparr>, n1)"
proof -
  have rd: "read_frame w = Inr (frame_v1 m, V1, [])" using v1_request_read [OF req(1-3,5), of "[]"] by simp
  have "\<not> keep_open m session_default"
    using req(4) by (cases m) (simp_all add: keep_open_def session_default_def)
  then show ?thesis
    using rd d resp cx
    by (simp add: handle_broker_connection.simps [of e lz net cxs 0 w] frame_v1_def write_frame_def session_default_def)
qed

text \<open>Whatever follows the first request of a version 1 connection is not looked at.\<close>

lemma session_first_request:
  assumes "message_ok m" "encode_message m = Inr fr" "length fr \<le> 254" "\<forall>h. m \<noteq> Handshake h"
    "write_message m = Inr w" "prefix w s"
  shows "handle_broker_connection e lz net cxs k s ss bn = handle_broker_connection e lz net cxs k w ss bn"
proof -
  from assms(6) obtain rest where s: "s = w @ rest" by (auto simp: prefix_def)
  show ?thesis
    unfolding s using v1_request_read [OF assms(1-3,5)] v1_request_read [OF assms(1-3,5), of "[]"] assms(4)
    by (intro v1_connection_single_request [where f = "frame_v1 m"]) (simp_all add: frame_v1_def)
qed

lemma read_message_write:
  assumes "message_ok m" "encode_message m = Inr fr" "length fr \<le> 255" "write_message m = Inr w"
  shows "read_message (w @ rest) = Inr (m, rest)"
proof -
  have "unat (of_nat (length fr) :: u8) = length fr" using assms(3) by (simp add: unat_of_nat_u8)
  then show ?thesis
    using message_roundtripD [OF assms(1,2)] assms(2,4)
    by (auto simp: read_message_def write_message_def)
qed

text \<open>A fetch request leaves committed offsets and files alone, whatever it is answered.\<close>

lemma fetch_log_frame:
  "b_committed_offsets (snd (fetch_log e req b)) = b_committed_offsets b"
  "b_dir (snd (fetch_log e req b)) = b_dir b"
  by (simp_all add: fetch_log_def ensure_log_def ensure_log_with_config_def Let_def split: option.split)

lemma fetch_poll_frame:
  assumes "gap = (\<lambda>_ b. b)"
  shows "b_committed_offsets (snd (fetch_poll e req gap n i b)) = b_committed_offsets b
    \<and> b_dir (snd (fetch_poll e req gap n i b)) = b_dir b"
  using assms
proof (induction e req gap n i b rule: fetch_poll.induct)
  case (1 e req gap i b)
  show ?case by (simp add: fetch_log_frame)
next
  case (2 e req gap n i b)
  then show ?case
    using fetch_log_frame [of e req b] by (cases "fetch_log e req b") (auto split: sum.split)
qed

lemma dispatch_fetch_frame:
  assumes "cx_gap cx = (\<lambda>_ b. b)" and "dispatch_message e lz net cx (Fetch req) s (b, n) = (r, s', sp, b', n')"
  shows "b_committed_offsets b' = b_committed_offsets b \<and> b_dir b' = b_dir b \<and> s' = s \<and> sp = [] \<and> n' = n"
proof -
  have "b_committed_offsets (snd (handle_fetch e lz cx s req b)) = b_committed_offsets b
      \<and> b_dir (snd (handle_fetch e lz cx s req b)) = b_dir b"
    using fetch_poll_frame [OF assms(1), of e req "if fetch_max_wait_ms req > 0 then cx_polls cx else 0" 2 b] assms(1)
    by (cases "fetch_poll e req (cx_gap cx) (if fetch_max_wait_ms req > 0 then cx_polls cx else 0) 2 b")
      (auto simp: handle_fetch_def count_error_def failed_def split: sum.split option.split rust_error.split)
  with assms show ?thesis by (auto simp: dispatch_message_def Let_def case_prod_unfold)
qed

end
