(* ===== verification/Cluster_Sync.thy ===== *)
theory Cluster_Sync
  imports Cluster_Run Request_Path
begin

text \<open>
  The cluster task of two brokers: a broker that is not the controller sends its heartbeat
  and fetches the cluster state, the controller answers both on its connection loop.  The
  network is that of \<open>Cluster_Run\<close>.
\<close>

lemma peer_net_answer:
  assumes n: "n addr = Some b" and req: "message_ok m" "encode_message m = Inr fr" "length fr \<le> 254" "\<forall>h. m \<noteq> Handshake h"
    and d: "dispatch_message e lz no_network (idle_at now) m session_default (b, ())
      = (Some r, session_default, [], b1, ())"
    and resp: "message_ok r" "encode_message r = Inr fr'" "length fr' \<le> 255"
  shows "peer_net e lz now addr m n = (Inr r, n(addr \<mapsto> b1\<lparr>b_metrics := record_request_latency 0 (b_metrics b1)\<rparr>))"
proof -
  obtain w where w: "write_message m = Inr w" using req(2) by (simp add: write_message_def)
  obtain out where out: "write_message r = Inr out" using resp(2) by (simp add: write_message_def)
  have "read_message out = Inr (r, [])" using read_message_write [OF resp out, of "[]"] by simp
  with one_request_v1 [where cxs = "\<lambda>_. idle_at now", OF req w d out] n w show ?thesis
    by (simp add: peer_net_def idle_context_def)
qed

text \<open>What the controller makes of a heartbeat, and what a broker reads out of the answer.\<close>

lemma controller_heartbeat:
  assumes "b_cluster_state b = Some st" "is_controller e st (b_broker_id b)"
    and "st2 = fst (failover_dead_leaders now (heartbeat_timeout_ms e) (record_heartbeat i now st))"
  shows "handle_broker_heartbeat e now \<lparr>hb_broker_id = i\<rparr> b
    = (0, b\<lparr>b_cluster_state := Some st2, b_dir := cs_store st2 (b_dir b), b_cluster := Some (to_cluster_config st2)\<rparr>)"
  using assms by (simp add: handle_broker_heartbeat_def sync_cluster_view_def case_prod_unfold Let_def)

lemma decode_received_state:
  assumes "state_ok st" and "st2 = fst (failover_dead_leaders now tmo (record_heartbeat i now st))"
  shows "decode_cluster_info now' (encode_cluster_info st2) = Inr (st2\<lparr>cs_broker_last_seen_ms := []\<rparr>)"
proof -
  let ?st = "st2\<lparr>cs_broker_last_seen_ms := []\<rparr>"
  have "la_replicas (promote st' now tmo a) = la_replicas a" for st' a
    by (simp add: promote_def promoted_def split: option.split)
  then have "state_ok ?st"
    using assms by (auto simp: state_ok_def failover_eq record_heartbeat_def small_list_def)
  moreover have "encode_state_body ?st = encode_state_body st2" by (simp add: encode_state_body_def)
  ultimately show ?thesis
    using decode_body_encode [of ?st "[]"] by (simp add: decode_cluster_info_def encode_cluster_info_def)
qed

text \<open>
  C18: a round of the cluster task brings agreement.  A broker that is not the controller runs
  one round against the controller, whose cluster state fits a version 1 response.  The
  controller records it as alive and fails over the leaders that are silent, and afterwards
  both route by the same view: every partition has the same leader and replicas on both,
  with the same epoch in their cluster states.
\<close>

theorem cluster_round_agrees:
  assumes ctl: "n addr = Some ctl" "b_cluster_state ctl = Some st" "is_controller e st (b_broker_id ctl)" "state_ok st"
    and fol: "b_cluster_state b \<noteq> None" "\<not> broker_is_controller e b" "controller_addr e b = Some addr"
    and st2: "st2 = fst (failover_dead_leaders now (heartbeat_timeout_ms e) (record_heartbeat (b_broker_id b) now st))"
    and fits: "length (encode_cluster_info st2) \<le> 254"
  shows "\<exists>b' n' ctl'. cluster_background_round e (peer_net e lz now) now (b, n) = (b', n') \<and> n' addr = Some ctl'
    \<and> b_cluster_state ctl' = Some st2 \<and> b_cluster ctl' = Some (to_cluster_config st2)
    \<and> b_cluster b' = b_cluster ctl' \<and> b_cluster_state b' = Some (st2\<lparr>cs_broker_last_seen_ms := []\<rparr>)
    \<and> (b_broker_id b \<in> node_id ` set (cs_brokers st) \<longrightarrow> broker_alive st2 (b_broker_id b) now (heartbeat_timeout_ms e))"
proof -
  let ?hb = "BrokerHeartbeat \<lparr>hb_broker_id = b_broker_id b\<rparr>"
  define ctl1 where "ctl1 = ctl\<lparr>b_cluster_state := Some st2, b_dir := cs_store st2 (b_dir ctl), b_cluster := Some (to_cluster_config st2)\<rparr>"
  let ?lat = "\<lambda>b. b\<lparr>b_metrics := record_request_latency 0 (b_metrics b)\<rparr>"
  let ?n1 = "n(addr \<mapsto> ?lat ctl1)" and ?view = "st2\<lparr>cs_broker_last_seen_ms := []\<rparr>"
  have hb: "peer_net e lz now addr ?hb n = (Inr (RBrokerHeartbeat 0), ?n1)"
    using ctl(1) controller_heartbeat [OF ctl(2,3) st2]
    by (intro peer_net_answer [where n = n and addr = addr and b = ctl and fr = "BROKER_HEARTBEAT # to_be_bytes (b_broker_id b)"
          and fr' = "[R_BROKER_HEARTBEAT, 0]"])
      (simp_all add: encode_message_def broker_heartbeat_encode_def dispatch_message_def handle_heartbeat_def
        idle_context_def ctl1_def)
  have info: "cluster_info_bytes e (?lat ctl1) = encode_cluster_info st2" by (simp add: cluster_info_bytes_def ctl1_def)
  have gc: "peer_net e lz now addr GetCluster ?n1
      = (Inr (RGetCluster (encode_cluster_info st2)), ?n1(addr \<mapsto> ?lat (?lat ctl1)))"
    using info fits
    by (intro peer_net_answer [where b = "?lat ctl1" and fr = "[GET_CLUSTER]" and fr' = "R_GET_CLUSTER # encode_cluster_info st2"])
      (simp_all add: encode_message_def dispatch_message_def idle_context_def)
  have "cluster_background_round e (peer_net e lz now) now (b, n)
      = (apply_cluster_state ?view b, ?n1(addr \<mapsto> ?lat (?lat ctl1)))"
    using fol hb gc decode_received_state [OF ctl(4) st2, of now]
    by (auto simp: cluster_background_round_def send_broker_heartbeat_def sync_cluster_state_from_controller_def)
  moreover have "broker_alive st2 (b_broker_id b) now (heartbeat_timeout_ms e)"
    if "b_broker_id b \<in> node_id ` set (cs_brokers st)"
    using that by (auto simp: st2 failover_eq record_heartbeat_def list_ex_iff broker_alive_def sat_sub_self)
  ultimately show ?thesis
    by (simp add: apply_cluster_state_def sync_cluster_view_def ctl1_def to_cluster_config_def)
qed

text \<open>Two brokers of the sample configuration, the first of them the controller.\<close>

definition clustered_broker :: "broker_id \<Rightarrow> broker" where
  "clustered_broker i = sample_broker\<lparr>b_broker_id := i, b_cluster_state := Some (from_seed 5 sample_config)\<rparr>"

theorem cluster_round_agrees_witness:
  "\<exists>b' n' ctl'. cluster_background_round empty_env (peer_net empty_env sample_lz4 7) 7
      (clustered_broker 2, [''a:'' @ show_nat 7777 \<mapsto> clustered_broker 1]) = (b', n')
    \<and> n' (''a:'' @ show_nat 7777) = Some ctl' \<and> b_cluster b' = b_cluster ctl' \<and> b_cluster ctl' \<noteq> None"
proof -
  let ?st = "from_seed 5 sample_config"
  let ?st2 = "fst (failover_dead_leaders 7 (heartbeat_timeout_ms empty_env) (record_heartbeat 2 7 ?st))"
  have ctl: "is_controller empty_env ?st 1" "\<not> is_controller empty_env ?st 2"
    by (simp_all add: is_controller_def controller_id_def controller_broker_id_def from_seed_def sample_config_def
        min_id_def)
  have "la_replicas (promote st' now tmo a) = la_replicas a" for st' now tmo a
    by (simp add: promote_def promoted_def split: option.split)
  then have "length (encode_cluster_info ?st2) \<le> 254"
    by (simp add: failover_eq encode_cluster_info_def encode_state_body_def record_heartbeat_def from_seed_def
        sample_config_def encode_node_def encode_live_def encode_ids_def)
  moreover have "controller_addr empty_env (clustered_broker 2) = Some (''a:'' @ show_nat 7777)"
    using ctl(1) by (simp add: controller_addr_def clustered_broker_def is_controller_def) (simp add: from_seed_def sample_config_def)
  ultimately show ?thesis
    using cluster_round_agrees [of "[''a:'' @ show_nat 7777 \<mapsto> clustered_broker 1]" "''a:'' @ show_nat 7777" "clustered_broker 1"
        ?st empty_env "clustered_broker 2" ?st2 7 sample_lz4] ctl from_seed_sample_ok
    by (auto simp: clustered_broker_def broker_is_controller_def)
qed

end
