(* ===== verification/Cluster_Steps.thy ===== *)
theory Cluster_Steps
  imports Cluster_Sync
begin

text \<open>
  A cluster as a state machine: brokers at addresses, where a step is a whole client
  connection, a dial-back task or a round of the cluster task of one of them, with
  everything that this sends to the others.  A request to a broker changes only that broker,
  so what a handler leaves of the network is a sequence of such changes.
\<close>

section \<open>What a handler does to the network\<close>

locale stepwise_network =
  fixes net :: "'n network" and rel :: "'n \<Rightarrow> 'n \<Rightarrow> bool"
  assumes rel_refl: "rel n n"
    and rel_trans: "rel n n' \<Longrightarrow> rel n' n'' \<Longrightarrow> rel n n''"
    and net_rel: "rel n (snd (net addr m n))"
begin

lemma send_rel: "rel n (snd (send_replicate net addr t p off x n))"
  using net_rel by (auto simp: send_replicate_def sbind_def split: sum.split)

lemma loop_rel: "rel n (snd (replicate_loop net cluster local_id t p off x ids acks n))"
proof (induction ids arbitrary: acks n)
  case Nil
  then show ?case by (simp add: rel_refl)
next
  case (Cons i ids)
  show ?case
    using Cons rel_trans [OF send_rel Cons]
    by (auto simp: case_prod_unfold split: option.split)
qed

lemma finish_rel: "rel (snd bn) (snd (snd (produce_finish e net cx plan bn)))"
  using loop_rel rel_refl
  by (auto simp: produce_finish_def replicate_to_followers_def Let_def case_prod_unfold
      split: produce_plan.split option.split)

lemma append_rel: "rel (snd bn) (snd (snd (handle_append e net cx s app t p payload bn)))"
  using finish_rel [of "(_, snd bn)"] rel_refl
  by (auto simp: handle_append_def case_prod_unfold split: sum.split option.split)

lemma dispatch_rel: "rel (snd bn) (snd (snd (snd (snd (dispatch_message e lz net cx m s bn)))))"
  using append_rel [of "(_, snd bn)"] rel_refl
  by (cases m) (simp_all add: dispatch_message_def handle_produce_def handle_idempotent_produce_def Let_def case_prod_unfold)

lemma connection_rel: "rel (snd bn) (snd (snd (snd (handle_broker_connection e lz net cxs k input s bn))))"
proof (induction "length input" arbitrary: k input s bn rule: less_induct)
  case less
  note step = handle_broker_connection.simps [of e lz net cxs k input s bn]
  show ?case
  proof (cases "read_frame input")
    case (Inl err)
    then show ?thesis by (simp add: step rel_refl)
  next
    case (Inr x)
    then obtain f fmt rest where rf: "read_frame input = Inr (f, fmt, rest)" by (cases x) auto
    obtain r s1 sp b1 n1 where d: "dispatch_message e lz net (cxs k) (frame_message f) (s\<lparr>sess_wire_format := fmt\<rparr>) bn
        = (r, s1, sp, b1, n1)"
      by (cases "dispatch_message e lz net (cxs k) (frame_message f) (s\<lparr>sess_wire_format := fmt\<rparr>) bn")
    with dispatch_rel [of bn e lz "cxs k" "frame_message f" "s\<lparr>sess_wire_format := fmt\<rparr>"] have 1: "rel (snd bn) n1" by simp
    have "rel (snd bn) (snd (snd (snd (handle_broker_connection e lz net cxs (Suc k) rest s1 (b2, n1)))))" for b2
      using rel_trans [OF 1] less [of rest "(b2, n1)" "Suc k" s1] read_frame_rest [OF rf] by simp
    with 1 rf d show ?thesis by (auto simp: step case_prod_unfold Let_def split: option.split sum.split)
  qed
qed

lemma round_rel: "rel (snd bn) (snd (cluster_background_round e net now bn))"
proof -
  have "rel n (snd (send_broker_heartbeat net addr i n))" for addr i n
    using net_rel by (auto simp: send_broker_heartbeat_def sbind_def split: sum.split)
  moreover have "snd (snd (sync_cluster_state_from_controller net now addr (b, n))) = snd (net addr GetCluster n)" for b addr n
    by (auto simp: sync_cluster_state_from_controller_def split: prod.split sum.split message.split)
  ultimately show ?thesis
    using rel_refl rel_trans net_rel
    by (auto simp: cluster_background_round_def Let_def split: option.split) blast
qed

end

section \<open>Clusters\<close>

type_synonym brokers = "string \<Rightarrow> broker option"

text \<open>The same addresses, and at each of them a broker that kept what it had.\<close>

definition cluster_keeps :: "brokers \<Rightarrow> brokers \<Rightarrow> bool" where
  "cluster_keeps n n' \<longleftrightarrow> (\<forall>a. rel_option keeps (n a) (n' a))"

lemma cluster_keeps_refl [simp, intro]: "cluster_keeps n n"
  by (simp add: cluster_keeps_def option.rel_refl)

lemma cluster_keeps_trans [trans]: "cluster_keeps n n' \<Longrightarrow> cluster_keeps n' n'' \<Longrightarrow> cluster_keeps n n''"
  using transpD [OF option.rel_transp [OF transpI [of keeps]]] keeps_trans unfolding cluster_keeps_def by metis

lemma cluster_keeps_update: "n a = Some b \<Longrightarrow> keeps b b' \<Longrightarrow> cluster_keeps n (n(a \<mapsto> b'))"
  by (simp add: cluster_keeps_def option.rel_refl)

lemma peer_net_keeps: "cluster_keeps n (snd (peer_net e lz now addr m n))"
proof (cases "n addr")
  case None
  then show ?thesis by (simp add: peer_net_def)
next
  case (Some b)
  have "keeps b (fst (snd (snd (handle_broker_connection e lz no_network (\<lambda>_. idle_at now) 0 w
      session_default (b, ())))))" for w
    using keeps_connection [of "\<lambda>_. idle_at now" "(b, ())"] idle_at_fair by simp
  then show ?thesis
    using Some cluster_keeps_update [of n addr b] by (auto simp: peer_net_def case_prod_unfold split: sum.split)
qed

interpretation cluster_net: stepwise_network "peer_net e lz now" cluster_keeps for e lz now
  by unfold_locales (use peer_net_keeps cluster_keeps_trans in blast)+

text \<open>
  The broker at an address takes a step while the others are the network.  Its own address
  is not part of that network: a broker sends nothing to itself.
\<close>

inductive cluster_step :: "env \<Rightarrow> lz4_lib \<Rightarrow> brokers \<Rightarrow> brokers \<Rightarrow> bool" for e :: env and lz :: lz4_lib where
  client: "n a = Some b \<Longrightarrow> \<forall>k. fair_gaps (cx_gap (cxs k)) \<Longrightarrow>
    handle_broker_connection e lz (peer_net e lz now) cxs 0 input session_default (b, n(a := None)) = (out, sp, b', n') \<Longrightarrow>
    cluster_step e lz n (n'(a \<mapsto> b'))"
| producer_task: "n a = Some b \<Longrightarrow> fair_gaps gap \<Longrightarrow>
    cluster_step e lz n (n(a \<mapsto> snd (dial_back_to_producer e t gap 0 input b)))"
| consumer_task: "n a = Some b \<Longrightarrow> \<forall>k. fair_gaps (gaps k) \<Longrightarrow>
    cluster_step e lz n (n(a \<mapsto> snd (run_consumer_ready_and_send polls gaps 0 t g pidx input b)))"
| cluster_task: "n a = Some b \<Longrightarrow>
    cluster_background_round e (peer_net e lz now) now (b, n(a := None)) = (b', n') \<Longrightarrow>
    cluster_step e lz n (n'(a \<mapsto> b'))"

lemma cluster_keeps_around:
  assumes "n a = Some b" and "cluster_keeps (n(a := None)) n'" and "keeps b b'"
  shows "cluster_keeps n (n'(a \<mapsto> b'))"
  using assms unfolding cluster_keeps_def by (auto simp: option.rel_refl split: if_splits)

lemma cluster_step_keeps:
  assumes "cluster_step e lz n n'"
  shows "cluster_keeps n n'"
  using assms
proof cases
  case (client a b cxs now input out sp b' n1)
  have "cluster_keeps (n(a := None)) n1"
    using cluster_net.connection_rel [where bn = "(b, n(a := None))" and k = 0 and s = session_default] client(4)
    by (metis snd_conv)
  moreover have "keeps b b'"
    using keeps_connection [OF client(3), of "(b, n(a := None))" e lz "peer_net e lz now" 0 input session_default] client(4)
    by simp
  ultimately show ?thesis using client cluster_keeps_around by simp
next
  case (producer_task a b gap t input)
  then show ?thesis using keeps_dial_back cluster_keeps_update by simp
next
  case (consumer_task a b gaps polls t g pidx input)
  then show ?thesis using keeps_consumer_task cluster_keeps_update by simp
next
  case (cluster_task a b now b' n1)
  have "cluster_keeps (n(a := None)) n1"
    using cluster_net.round_rel [where bn = "(b, n(a := None))"] cluster_task(3) by (metis snd_conv)
  moreover have "keeps b b'" using keeps_background [of "(b, n(a := None))" e "peer_net e lz now" now] cluster_task(3) by simp
  ultimately show ?thesis using cluster_task cluster_keeps_around by simp
qed

lemma cluster_run_keeps: "(cluster_step e lz)\<^sup>*\<^sup>* n n' \<Longrightarrow> cluster_keeps n n'"
  by (induction rule: rtranclp_induct) (auto intro: cluster_keeps_trans cluster_step_keeps)

definition cluster_ok :: "brokers \<Rightarrow> bool" where
  "cluster_ok n \<longleftrightarrow> (\<forall>a b. n a = Some b \<longrightarrow> logs_ok b \<and> view_synced b)"

lemma cluster_keepsD:
  assumes "cluster_keeps n n'" and "n a = Some b" and "logs_ok b"
  shows "\<exists>b'. n' a = Some b' \<and> keeps b b' \<and> logs_ok b'"
proof -
  have "rel_option keeps (Some b) (n' a)" using assms(1,2) unfolding cluster_keeps_def by metis
  then obtain b' where "n' a = Some b'" "keeps b b'" by (auto simp: option_rel_Some1)
  then show ?thesis using assms(3) grows_ok by (auto simp: keeps_def)
qed

lemma cluster_keeps_back:
  assumes "cluster_keeps n n'" and "n' a = Some b'"
  shows "\<exists>b. n a = Some b \<and> keeps b b'"
  using assms(1) [unfolded cluster_keeps_def, rule_format, of a] assms(2) by (cases "n a") simp_all

lemma cluster_keeps_dom: "cluster_keeps n n' \<Longrightarrow> dom n' = dom n"
  unfolding cluster_keeps_def dom_def by (metis option.rel_distinct option.exhaust)

text \<open>
  C4: a cluster loses nothing.  Let the brokers of a cluster have sound logs, and let clients
  send any bytes to any of them, the dial-back tasks and the cluster tasks run in any order,
  with the replication and the heartbeats that these cause.  Then no broker appears or
  disappears, each has sound logs and routes by its cluster state, and every history of
  every broker extends the one it had.
\<close>

theorem cluster_run_safe:
  assumes "cluster_ok n" and "(cluster_step e lz)\<^sup>*\<^sup>* n n'"
  shows "cluster_ok n' \<and> dom n' = dom n \<and> (\<forall>a b b'. n a = Some b \<longrightarrow> n' a = Some b' \<longrightarrow> grows b b')"
proof -
  note k = cluster_run_keeps [OF assms(2)]
  have step: "\<exists>b. n a = Some b \<and> logs_ok b' \<and> view_synced b' \<and> grows b b'" if at: "n' a = Some b'" for a b'
  proof -
    obtain b where b: "n a = Some b" "keeps b b'" using cluster_keeps_back [OF k at] by blast
    then have "logs_ok b" "view_synced b" using assms(1) by (simp_all add: cluster_ok_def)
    with b show ?thesis using grows_ok [of b b'] by (simp add: keeps_def)
  qed
  have "cluster_ok n'" using step unfolding cluster_ok_def by blast
  moreover have "grows b b'" if "n a = Some b" "n' a = Some b'" for a b b' using step [OF that(2)] that(1) by simp
  ultimately show ?thesis using cluster_keeps_dom [OF k] by blast
qed

lemma sample_cluster_ok: "cluster_ok [''a:1'' \<mapsto> sample_broker]"
  using sample_broker_ok by (simp add: cluster_ok_def)

theorem cluster_run_safe_witness:
  "grows sample_broker (snd (dial_back_to_producer empty_env 1 (\<lambda>_ b. b) 0 [2, PCM, 7] sample_broker))"
proof -
  let ?b = "snd (dial_back_to_producer empty_env 1 (\<lambda>_ b. b) 0 [2, PCM, 7] sample_broker)"
  define n :: brokers where "n = [''a:1'' \<mapsto> sample_broker]"
  have at: "n ''a:1'' = Some sample_broker" by (simp add: n_def)
  have fair: "fair_gaps (\<lambda>_ b. b)" by (simp add: fair_gaps_def)
  define n' where "n' = n(''a:1'' \<mapsto> ?b)"
  have "cluster_step empty_env sample_lz4 n n'"
    unfolding n'_def
    using cluster_step.producer_task [where n = n and a = "''a:1''" and b = sample_broker and gap = "\<lambda>_ b. b" and t = 1
        and e = empty_env and lz = sample_lz4 and input = "[2, PCM, 7]"] at fair by blast
  then have run: "(cluster_step empty_env sample_lz4)\<^sup>*\<^sup>* n n'" by (rule r_into_rtranclp [where r = "cluster_step empty_env sample_lz4"])
  have "cluster_ok n" using sample_cluster_ok by (simp only: n_def)
  from cluster_run_safe [OF this run, THEN conjunct2, THEN conjunct2, rule_format, of "''a:1''" sample_broker ?b]
  show ?thesis using at by (simp add: n'_def)
qed

section \<open>Copies of an acknowledged record\<close>

lemma append_log_errors:
  "request_errors (b_metrics (snd (append_log e t p x b))) = request_errors (b_metrics b)"
proof -
  have "b_metrics (snd (topic_mut t b)) = b_metrics b" for t b
    by (auto simp: topic_mut_def ensure_log_with_config_def persist_topics_def Let_def split: prod.split sum.split)
  moreover have "b_metrics (snd (write_record e t p r b)) = b_metrics b" for t p r b
    by (auto simp: write_record_def persist_log_meta_def split: prod.split sum.split option.split)
  ultimately show ?thesis
    by (auto simp: append_log_def sbind_def ensure_log_with_config_def record_produce_def Let_def
        split: sum.split option.split prod.split)
qed

text \<open>A produce request that was answered with an offset, in a cluster and undisturbed.\<close>

lemma produce_acked_shape:
  assumes cx: "cx_gap cx = (\<lambda>_ b. b)" and c: "b_cluster b = Some c"
    and d: "dispatch_message e lz net cx (Produce req) s (b, n) = (Some (RProduce off), s', sp, b', n')"
  shows "\<exists>b1 acks. append_log e (produce_topic_id req) (produce_partition_id req) (produce_payload req) b = (Inr off, b1)
    \<and> replicate_to_followers net c (b_broker_id b) (produce_topic_id req) (produce_partition_id req) off
        (produce_payload req) n = (acks, n')
    \<and> b' = (if requires_all_replicas e \<and> acks < min_required_acks e c then count_error b1 else b1)"
proof -
  let ?t = "produce_topic_id req" and ?p = "produce_partition_id req" and ?x = "produce_payload req"
  have h: "handle_append e net cx s (append_log e ?t ?p ?x) ?t ?p ?x (b, n) = (Some (RProduce off), b', n')"
    using d cx by (auto simp: dispatch_message_def handle_produce_def Let_def case_prod_unfold prod_eq_iff)
  have "fair_gaps (cx_gap cx)" using cx by (simp add: fair_gaps_def)
  from handle_append_acked [OF this h] cx obtain b1 where app: "append_log e ?t ?p ?x b = (Inr off, b1)" by auto
  have same: "b_cluster b1 = Some c" "b_broker_id b1 = b_broker_id b"
    using same_role_append_log [of b e ?t ?p ?x] app c by (simp_all add: same_role_def)
  show ?thesis
    using h app same cx c
    by (auto simp: handle_append_def produce_plan_of_def produce_finish_def handshake_required_def acl_denied_def Let_def
        split: if_splits sum.splits prod.splits)
qed

lemma appended_stays:
  assumes h: "history b t p h" "length h < 2 ^ 64" "logs_ok b" and x: "small_payload x"
    and app: "append_log e t p x b = (Inr off, b1)" and k: "keeps b1 b2" and h2: "history b2 t p h2"
  shows "unat off < length h2 \<and> h2 ! unat off = x"
proof -
  have v: "validate_produce_payload e (length x) = Inr ()"
    using app by (cases "validate_produce_payload e (length x)") (auto simp: append_log_def)
  note ap = append_log_history(1,2) [OF h(1) x v, unfolded app, simplified]
  have "logs_ok b1" using keeps_append_log [of x e b t p] x app h(3) grows_ok by (auto simp: keeps_def)
  with k ap(2) obtain ext where "history b2 t p ((h @ [x]) @ ext)" unfolding keeps_def grows_def by blast
  then have "h2 = (h @ [x]) @ ext" using history_unique h2 by blast
  with ap(1) h(2) show ?thesis by (simp add: unat_of_nat_u64 nth_append)
qed

lemma cluster_keeps_None: "cluster_keeps n n' \<Longrightarrow> n a = None \<Longrightarrow> n' a = None"
  using cluster_keeps_dom by (metis domIff)

lemma cluster_keeps_brokers_ok:
  assumes "cluster_keeps n n'" and "brokers_ok n"
  shows "brokers_ok n'"
proof -
  have "logs_ok b'" if at: "n' a = Some b'" for a b'
  proof -
    obtain b where b: "n a = Some b" "keeps b b'" using cluster_keeps_back [OF assms(1) at] by blast
    then have "logs_ok b" using assms(2) by (simp add: brokers_ok_def)
    with b show ?thesis using grows_ok [of b b'] by (simp add: keeps_def)
  qed
  then show ?thesis by (simp add: brokers_ok_def)
qed

lemma holds_offset_stays:
  assumes "brokers_ok n" and "cluster_keeps n n'" and "holds_offset a t p off x n"
  shows "holds_offset a t p off x n'"
proof -
  obtain b h where b: "n a = Some b" "history b t p h" "unat off < length h" using assms(3) by (auto simp: holds_offset_def)
  then have "logs_ok b" using assms(1) by (simp add: brokers_ok_def)
  with cluster_keepsD [OF assms(2) b(1)] obtain b' where b': "n' a = Some b'" "grows b b'" by (auto simp: keeps_def)
  with b(2) obtain ext where "history b' t p (h @ ext)" unfolding grows_def by blast
  with b' b(3) show ?thesis by (auto simp: holds_offset_def intro!: exI [of _ "h @ ext"])
qed


text \<open>The leader and the follower of the sample configuration.\<close>

definition member :: "broker_id \<Rightarrow> broker" where
  "member i = sample_broker\<lparr>b_broker_id := i, b_cluster := Some sample_config\<rparr>"

definition follower_addr :: string where
  "follower_addr = ''b:'' @ show_word (7778 :: u16)"

lemma sample_roles:
  "history (member i) t p []" "logs_ok (member i)" "cc_replicas_for sample_config 1 0 = [1, 2]"
  "is_partition_leader (member 1) 1 0" "is_partition_replica (member 2) 1 0" "broker_addr sample_config 2 = Some follower_addr"
  using sample_broker_history
  by (auto simp: member_def history_def logs_ok_def is_partition_leader_def partition_leader_def cc_leader_for_def
      is_partition_replica_def cc_is_replica_def cc_replicas_for_def cc_assignment_def broker_addr_def cc_broker_def follower_addr_def sample_config_def)

lemma sample_replication:
  "\<exists>n1. replicate_to_followers (peer_net all_env sample_lz4 0) sample_config 1 1 0 0 [7] [follower_addr \<mapsto> member 2] = (2, n1)"
proof -
  let ?r = "\<lparr>repl_topic_id = 1, repl_partition_id = 0, repl_offset = 0, repl_payload = [7]\<rparr>"
  have small: "small_payload [7]" by (simp add: small_payload_def)
  obtain r f where a: "apply_replica all_env 1 0 0 [7] (member 2) = (r, f)" by (cases "apply_replica all_env 1 0 0 [7] (member 2)")
  with apply_replica_cases(3) [OF sample_roles(1,5) small, of 0 all_env] have r: "r = Inr ()" by simp
  have "peer_net all_env sample_lz4 0 follower_addr (Replicate ?r) [follower_addr \<mapsto> member 2] = (Inr (RReplicate 0),
      [follower_addr \<mapsto> member 2](follower_addr \<mapsto> f\<lparr>b_metrics := record_request_latency 0 (b_metrics f)\<rparr>))"
    by (rule peer_net_answer [where n = "[follower_addr \<mapsto> member 2]" and addr = follower_addr and b = "member 2"
          and fr' = "[R_REPLICATE, 0]" and fr = "REPLICATE # to_be_bytes (1 :: u16) @ to_be_bytes (0 :: u16) @ to_be_bytes (0 :: u64)
            @ to_be_bytes (1 :: u16) @ [7]"])
      (simp_all add: a r encode_message_def replicate_encode_def dispatch_message_def handle_replicate_def idle_context_def)
  then show ?thesis
    using sample_roles(3,6) by (simp add: replicate_to_followers_def send_replicate_def)
qed


end
