(* ===== verification/Rust_Float.thy ===== *)
theory Rust_Float
  imports Complex_Main Rust_Text "HOL-Library.Log_Nat"
begin

text \<open>
  What the report of the stress tool uses of \<open>f64\<close>: conversion from integers, sum, product and
  quotient of values that are not negative, and printing with a fixed number of decimals.
  A finite value is the rational number it stands for; every operation rounds its exact
  result to 53 significant bits, to even on a tie.  The values of the report lie between
  \<open>2 powi -130\<close> and \<open>2 powi 130\<close>, so that neither overflow nor subnormal numbers occur.
\<close>

section \<open>Rounding\<close>

type_synonym f64 = rat

definition round_even :: "rat \<Rightarrow> int" where
  "round_even x =
     (let n = \<lfloor>x\<rfloor>; r = x - of_int n
      in if r < 1 / 2 then n else if 1 / 2 < r then n + 1 else if even n then n else n + 1)"

text \<open>The binary exponent of a positive number.\<close>

definition f64_exponent :: "rat \<Rightarrow> int" where
  "f64_exponent x =
     (let (n, d) = quotient_of x; k = int (floorlog 2 (nat n)) - int (floorlog 2 (nat d))
      in if 2 powi k \<le> x then k else k - 1)"

definition f64_round :: "rat \<Rightarrow> f64" where
  "f64_round x =
     (if x \<le> 0 then 0
      else let u = 2 powi (f64_exponent x - 52) in of_int (round_even (x / u)) * u)"

definition f64_of_nat :: "nat \<Rightarrow> f64" where
  "f64_of_nat n = f64_round (of_nat n)"

definition f64_add :: "f64 \<Rightarrow> f64 \<Rightarrow> f64" where
  "f64_add x y = f64_round (x + y)"

definition f64_mul :: "f64 \<Rightarrow> f64 \<Rightarrow> f64" where
  "f64_mul x y = f64_round (x * y)"

definition f64_div :: "f64 \<Rightarrow> f64 \<Rightarrow> f64" where
  "f64_div x y = f64_round (x / y)"

text \<open>\<open>{:.p}\<close> prints the exact value rounded to \<open>p\<close> decimals, to even on a tie.\<close>

definition show_f64 :: "nat \<Rightarrow> f64 \<Rightarrow> string" where
  "show_f64 p x =
     (let n = nat (round_even (x * 10 ^ p)); frac = show_nat (n mod 10 ^ p)
      in show_nat (n div 10 ^ p) @ (if p = 0 then '''' else ''.'' @ replicate (p - length frac) CHR ''0'' @ frac))"

text \<open>\<open>Duration::as_secs_f64\<close> of a duration in nanoseconds.\<close>

definition as_secs_f64 :: "nat \<Rightarrow> f64" where
  "as_secs_f64 ns = f64_add (f64_of_nat (ns div 1000000000)) (f64_div (f64_of_nat (ns mod 1000000000)) (f64_of_nat 1000000000))"

section \<open>Laws of the rounding\<close>

lemma round_even_bounds: "\<lfloor>x\<rfloor> \<le> round_even x" "round_even x \<le> \<lfloor>x\<rfloor> + 1"
  by (simp_all add: round_even_def Let_def)

lemma round_even_of_int [simp]: "round_even (of_int n) = n"
  by (simp add: round_even_def)

lemma round_even_mono: "x \<le> y \<Longrightarrow> round_even x \<le> round_even y"
proof -
  assume le: "x \<le> y"
  have f: "\<lfloor>x\<rfloor> \<le> \<lfloor>y\<rfloor>" using le by (rule floor_mono)
  show ?thesis
  proof (cases "\<lfloor>x\<rfloor> = \<lfloor>y\<rfloor>")
    case True
    then show ?thesis using le by (auto simp: round_even_def Let_def)
  next
    case False
    then have "\<lfloor>x\<rfloor> + 1 \<le> \<lfloor>y\<rfloor>" using f by simp
    then show ?thesis using round_even_bounds [of x] round_even_bounds [of y] by linarith
  qed
qed

lemma round_even_le_int: "x \<le> of_int n \<Longrightarrow> round_even x \<le> n"
  using round_even_mono [of x "of_int n"] by simp

lemma round_even_ge_int: "of_int n \<le> x \<Longrightarrow> n \<le> round_even x"
  using round_even_mono [of "of_int n" x] by simp

lemma floorlog_rat: "0 < n \<Longrightarrow> 2 powi (int (floorlog 2 n) - 1) \<le> (of_nat n :: rat) \<and> of_nat n < (2 powi int (floorlog 2 n) :: rat)"
proof -
  assume n: "0 < n"
  have b: "2 ^ (floorlog 2 n - 1) \<le> n" "n < 2 ^ floorlog 2 n" using floorlog_bounds [of n 2] n by auto
  have "0 < floorlog 2 n" using n by (simp add: floorlog_def)
  then have "int (floorlog 2 n) - 1 = int (floorlog 2 n - 1)" by simp
  moreover have "(2 ^ (floorlog 2 n - 1) :: rat) \<le> of_nat n" using b(1) by (metis of_nat_le_iff of_nat_numeral of_nat_power)
  moreover have "(of_nat n :: rat) < 2 ^ floorlog 2 n" using b(2) by (metis of_nat_less_iff of_nat_numeral of_nat_power)
  ultimately show ?thesis by (simp only: power_int_of_nat simp_thms)
qed

lemma powi_two_mono: "a \<le> b \<Longrightarrow> (2 powi a :: rat) \<le> 2 powi b"
  by (rule power_int_increasing) simp_all

lemma powi_two_pos [simp]: "0 < (2 powi a :: rat)"
  by (rule zero_less_power_int) simp

lemma powi_two_Suc: "(2 powi (a + 1) :: rat) = 2 powi a * 2"
  by (simp add: power_int_add)

lemma f64_exponent_bounds:
  assumes "0 < x"
  shows "2 powi f64_exponent x \<le> x" "x < 2 powi (f64_exponent x + 1)"
proof -
  obtain n d where q: "quotient_of x = (n, d)" by fastforce
  have d: "0 < d" using quotient_of_denom_pos [OF q] .
  have x: "x = of_int n / of_int d" by (rule quotient_of_div [OF q])
  have n: "0 < n" using assms d unfolding x by (simp add: zero_less_divide_iff)
  define a where "a = int (floorlog 2 (nat n))"
  define b where "b = int (floorlog 2 (nat d))"
  have na: "2 powi (a - 1) \<le> (of_int n :: rat)" "of_int n < (2 powi a :: rat)"
    using floorlog_rat [of "nat n"] n by (simp_all add: a_def)
  have db: "2 powi (b - 1) \<le> (of_int d :: rat)" "of_int d < (2 powi b :: rat)"
    using floorlog_rat [of "nat d"] d by (simp_all add: b_def)
  have "x < 2 powi a / 2 powi (b - 1)" unfolding x using na(2) db(1) d n by (intro frac_less) simp_all
  then have hi: "x < 2 powi (a - b + 1)" by (simp add: power_int_diff power_int_add)
  have "2 powi (a - 1) / 2 powi b < x" unfolding x using na(1) db(2) d by (intro frac_less2) simp_all
  then have lo: "2 powi (a - b - 1) \<le> x" by (simp add: power_int_diff)
  have e: "f64_exponent x = (if 2 powi (a - b) \<le> x then a - b else a - b - 1)"
    by (simp add: f64_exponent_def q a_def b_def)
  show "2 powi f64_exponent x \<le> x" "x < 2 powi (f64_exponent x + 1)"
    unfolding e using lo hi by auto
qed

lemma f64_exponent_mono:
  assumes "0 < x" and "x \<le> y"
  shows "f64_exponent x \<le> f64_exponent y"
proof (rule ccontr)
  assume "\<not> ?thesis"
  then have "(2 powi (f64_exponent y + 1) :: rat) \<le> 2 powi f64_exponent x" by (intro powi_two_mono) simp
  also have "\<dots> \<le> x" by (rule f64_exponent_bounds [OF assms(1)])
  also have "\<dots> \<le> y" by (rule assms(2))
  also have "\<dots> < 2 powi (f64_exponent y + 1)" using f64_exponent_bounds(2) [of y] assms by simp
  finally show False by simp
qed

lemma f64_round_binade:
  assumes "0 < x"
  shows "2 powi f64_exponent x \<le> f64_round x" "f64_round x \<le> 2 powi (f64_exponent x + 1)"
proof -
  define u :: rat where "u = 2 powi (f64_exponent x - 52)"
  have u: "0 < u" by (simp add: u_def)
  have lo: "2 powi f64_exponent x = of_int (2 ^ 52) * u" by (simp add: u_def power_int_diff)
  have hi: "2 powi (f64_exponent x + 1) = of_int (2 ^ 53) * u" by (simp add: u_def power_int_diff power_int_add)
  have r: "f64_round x = of_int (round_even (x / u)) * u" using assms by (simp add: f64_round_def u_def Let_def)
  have "(2 :: int) ^ 52 \<le> round_even (x / u)"
    using f64_exponent_bounds(1) [OF assms] u unfolding lo by (intro round_even_ge_int) (simp add: pos_le_divide_eq)
  then show "2 powi f64_exponent x \<le> f64_round x" unfolding lo r using u by (intro mult_right_mono) (simp_all only: of_int_le_iff less_imp_le)
  have "round_even (x / u) \<le> 2 ^ 53"
    using f64_exponent_bounds(2) [OF assms] u unfolding hi by (intro round_even_le_int) (simp add: pos_divide_le_eq)
  then show "f64_round x \<le> 2 powi (f64_exponent x + 1)" unfolding hi r using u by (intro mult_right_mono) (simp_all only: of_int_le_iff less_imp_le)
qed

text \<open>The relative error is at most half a unit in the last of the 53 bits.\<close>

lemma round_even_error: "\<bar>of_int (round_even x) - x\<bar> \<le> 1 / 2"
  using of_int_floor_le [of x] real_of_int_floor_add_one_gt [of "real_of_rat x"]
  by (simp add: round_even_def Let_def abs_if) linarith

lemma f64_round_error:
  assumes "0 < x"
  shows "\<bar>f64_round x - x\<bar> \<le> x / 2 ^ 53"
proof -
  define u :: rat where "u = 2 powi (f64_exponent x - 52)"
  have u: "0 < u" by (simp add: u_def)
  have "f64_round x - x = (of_int (round_even (x / u)) - x / u) * u"
    using assms u by (simp add: f64_round_def u_def Let_def left_diff_distrib)
  then have "\<bar>f64_round x - x\<bar> = \<bar>of_int (round_even (x / u)) - x / u\<bar> * u" using u by (simp add: abs_mult)
  also have "\<dots> \<le> 1 / 2 * u" using u round_even_error by (intro mult_right_mono) simp_all
  also have "\<dots> = 2 powi f64_exponent x / 2 ^ 53" by (simp add: u_def power_int_diff)
  also have "\<dots> \<le> x / 2 ^ 53" using f64_exponent_bounds(1) [OF assms] by (intro divide_right_mono) simp_all
  finally show ?thesis .
qed

lemma f64_round_nonneg [simp]: "0 \<le> f64_round x"
proof (cases "0 < x")
  case True
  then show ?thesis using f64_round_binade(1) [of x] powi_two_pos [of "f64_exponent x"] by linarith
qed (simp add: f64_round_def)

lemma f64_round_pos: "0 < x \<Longrightarrow> 0 < f64_round x"
  using f64_round_binade(1) [of x] powi_two_pos [of "f64_exponent x"] by linarith

lemma f64_round_zero [simp]: "f64_round 0 = 0"
  by (simp add: f64_round_def)

lemma f64_round_mono:
  assumes "x \<le> y"
  shows "f64_round x \<le> f64_round y"
proof (cases "0 < x")
  case False
  then show ?thesis by (simp add: f64_round_def [of x])
next
  case True
  then have y: "0 < y" using assms by simp
  show ?thesis
  proof (cases "f64_exponent x = f64_exponent y")
    case eq: True
    then show ?thesis using True y assms
      by (auto simp: f64_round_def Let_def intro!: mult_right_mono round_even_mono divide_right_mono)
  next
    case False
    then have "(2 powi (f64_exponent x + 1) :: rat) \<le> 2 powi f64_exponent y"
      using f64_exponent_mono [OF True assms] by (intro powi_two_mono) simp
    then show ?thesis using f64_round_binade(2) [OF True] f64_round_binade(1) [OF y] by linarith
  qed
qed

text \<open>Integers of at most 53 bits are values of the type.\<close>

lemma f64_round_int:
  assumes "0 < n" and "n < 2 ^ 53"
  shows "f64_round (of_int n) = of_int n"
proof -
  define u :: rat where "u = 2 powi (f64_exponent (of_int n) - 52)"
  have "f64_exponent (of_int n) < 53"
  proof (rule ccontr)
    assume "\<not> ?thesis"
    then have "(2 powi 53 :: rat) \<le> 2 powi f64_exponent (of_int n)" by (intro powi_two_mono) simp
    also have "\<dots> \<le> of_int n" using assms by (intro f64_exponent_bounds) simp
    finally have "(2 ^ 53 :: rat) \<le> of_int n" by simp
    then have "(of_int (2 ^ 53) :: rat) \<le> of_int n" by simp
    then show False using assms(2) unfolding of_int_le_iff by simp
  qed
  then obtain k where "52 - f64_exponent (of_int n) = int k" using zero_le_imp_eq_int [of "52 - f64_exponent (of_int n)"] by auto
  then have "f64_exponent (of_int n) - 52 = - int k" by simp
  then have "u = 1 / of_int (2 ^ k)" unfolding u_def by (simp add: power_int_minus divide_inverse)
  then have q: "of_int n / u = of_int (n * 2 ^ k)" and "of_int (n * 2 ^ k) * u = of_int n" by simp_all
  moreover have "f64_round (of_int n) = of_int (round_even (of_int n / u)) * u" using assms(1) by (simp add: f64_round_def u_def Let_def)
  ultimately show ?thesis by (simp only: round_even_of_int)
qed

lemma f64_of_nat_small: "n < 2 ^ 53 \<Longrightarrow> f64_of_nat n = of_nat n"
  using f64_round_int [of "int n"] by (cases "n = 0") (simp_all add: f64_of_nat_def)

lemma f64_of_nat_mono: "m \<le> n \<Longrightarrow> f64_of_nat m \<le> f64_of_nat n"
  by (simp add: f64_of_nat_def f64_round_mono)

lemma f64_of_nat_pos: "0 < f64_of_nat n \<longleftrightarrow> 0 < n"
  by (cases "n = 0") (simp_all add: f64_of_nat_def f64_round_pos)

lemma f64_of_nat_nonneg [simp]: "0 \<le> f64_of_nat n"
  by (simp add: f64_of_nat_def)

lemma f64_div_mono: "x \<le> x' \<Longrightarrow> 0 \<le> y \<Longrightarrow> f64_div x y \<le> f64_div x' y"
  by (simp add: f64_div_def f64_round_mono divide_right_mono)

lemma f64_div_nonneg [simp]: "0 \<le> f64_div x y"
  by (simp add: f64_div_def)

lemma f64_div_le_one:
  assumes "0 \<le> x" and "x \<le> y"
  shows "f64_div x y \<le> 1"
proof -
  have "x / y \<le> 1" using assms by (cases "y = 0") (simp_all add: divide_le_eq)
  then have "f64_round (x / y) \<le> f64_round 1" by (rule f64_round_mono)
  also have "\<dots> = 1" using f64_round_int [of 1] by simp
  finally show ?thesis by (simp add: f64_div_def)
qed

lemma f64_mul_le_int:
  assumes "x \<le> 1" and "0 < n" and "n < 2 ^ 53"
  shows "f64_mul x (of_int n) \<le> of_int n"
proof -
  have "x * of_int n \<le> of_int n" using assms by (simp add: mult_le_cancel_right2)
  then have "f64_round (x * of_int n) \<le> f64_round (of_int n)" by (rule f64_round_mono)
  then show ?thesis using f64_round_int [OF assms(2,3)] by (simp add: f64_mul_def)
qed

end
