(* ===== verification/Client.thy ===== *)
theory Client
  imports Request_Path
begin

text \<open>
  The command-line clients that talk to a broker directly: \<open>producer_direct.rs\<close> and
  \<open>consumer_fetch.rs\<close> of \<open>dmq-cli\<close>.  A client keeps one TCP connection.  The connection is
  the bytes sent so far and the number of bytes read so far; the other end is a function
  from the bytes it was sent to the bytes it answered, and a predicate for the writes the
  socket accepts.  A read that finds no answer is an end of file, since a broker that does
  not answer closes the connection.  The broker's connection loop is such an other end.
\<close>

section \<open>Connections\<close>

record conn =
  c_sent :: bytes
  c_got :: nat

definition conn_new :: conn where
  "conn_new = \<lparr>c_sent = [], c_got = 0\<rparr>"

record peer =
  pr_accepts :: "bytes \<Rightarrow> bool"
  pr_answers :: "bytes \<Rightarrow> bytes"

definition conn_write :: "peer \<Rightarrow> message \<Rightarrow> conn \<Rightarrow> unit io_result \<times> conn" where
  "conn_write pr m c =
     (case write_message m of
        Inl err \<Rightarrow> (Inl err, c)
      | Inr w \<Rightarrow>
          if pr_accepts pr (c_sent c @ w) then (Inr (), c\<lparr>c_sent := c_sent c @ w\<rparr>)
          else (io_err OtherKind ''broken pipe'', c))"

definition conn_read :: "peer \<Rightarrow> conn \<Rightarrow> message io_result \<times> conn" where
  "conn_read pr c =
     (case read_message (drop (c_got c) (pr_answers pr (c_sent c))) of
        Inl err \<Rightarrow> (Inl err, c)
      | Inr (m, rest) \<Rightarrow> (Inr m, c\<lparr>c_got := length (pr_answers pr (c_sent c)) - length rest\<rparr>))"

text \<open>The broker as the other end of a connection.\<close>

definition broker_peer ::
  "env \<Rightarrow> lz4_lib \<Rightarrow> 'n network \<Rightarrow> (nat \<Rightarrow> request_context) \<Rightarrow> (bytes \<Rightarrow> bool) \<Rightarrow> broker \<times> 'n \<Rightarrow> peer" where
  "broker_peer e lz net cxs accepts bn =
     \<lparr>pr_accepts = accepts,
      pr_answers = (\<lambda>w. fst (handle_broker_connection e lz net cxs 0 w session_default bn))\<rparr>"

section \<open>The producing client\<close>

definition producer_id :: "env \<Rightarrow> u64" where
  "producer_id e = env_word e ''DMQ_PRODUCER_ID'' 1"

definition produce_message :: "u16 \<Rightarrow> bool \<Rightarrow> u64 \<Rightarrow> u64 \<Rightarrow> bytes \<Rightarrow> message" where
  "produce_message t idempotent pid sq payload =
     (if idempotent
      then IdempotentProduce \<lparr>idem_topic_id = t, idem_partition_id = 0, idem_producer_id = pid,
             idem_sequence = sq, idem_payload = payload\<rparr>
      else Produce \<lparr>produce_topic_id = t, produce_partition_id = 0, produce_payload = payload\<rparr>)"

text \<open>Whether the client goes on, and the offset and sequence it reports as appended.\<close>

definition write_produce ::
  "peer \<Rightarrow> u16 \<Rightarrow> bool \<Rightarrow> u64 \<Rightarrow> u64 \<Rightarrow> bytes \<Rightarrow> conn \<Rightarrow> (bool \<times> (u64 \<times> u64) list) \<times> conn" where
  "write_produce pr t idempotent pid sq payload c =
     (case conn_write pr (produce_message t idempotent pid sq payload) c of
        (Inl _, c1) \<Rightarrow> ((False, []), c1)
      | (Inr _, c1) \<Rightarrow>
          (case conn_read pr c1 of
             (Inl _, c2) \<Rightarrow> ((False, []), c2)
           | (Inr (RProduce off), c2) \<Rightarrow> ((True, [(off, sq)]), c2)
           | (Inr (RNotLeader _), c2) \<Rightarrow> ((False, []), c2)
           | (Inr _, c2) \<Rightarrow> ((True, []), c2)))"

text \<open>The simulated producer; \<open>rounds\<close> bounds how many messages it is watched for.\<close>

fun simulate_loop ::
  "nat \<Rightarrow> peer \<Rightarrow> u16 \<Rightarrow> bool \<Rightarrow> bool \<Rightarrow> u64 \<Rightarrow> u64 \<Rightarrow> conn \<Rightarrow> (u64 \<times> u64) list \<times> conn" where
  "simulate_loop 0 pr t idempotent once pid n c = ([], c)"
| "simulate_loop (Suc rounds) pr t idempotent once pid n c =
     (if n > 0 \<and> once then ([], c)
      else case write_produce pr t idempotent pid n (as_bytes (''Hello from producer msg #'' @ show_word n)) c of
             ((False, rep), c1) \<Rightarrow> (rep, c1)
           | ((True, rep), c1) \<Rightarrow>
               (case simulate_loop rounds pr t idempotent once pid (n + 1) c1 of (reps, c2) \<Rightarrow> (rep @ reps, c2)))"

text \<open>The producer that sends the lines of its input, without the white space around them.\<close>

fun stdin_loop ::
  "peer \<Rightarrow> u16 \<Rightarrow> bool \<Rightarrow> u64 \<Rightarrow> u64 \<Rightarrow> string list \<Rightarrow> conn \<Rightarrow> (u64 \<times> u64) list \<times> conn" where
  "stdin_loop pr t idempotent pid sq [] c = ([], c)"
| "stdin_loop pr t idempotent pid sq (line # lines) c =
     (let msg = trim line
      in if msg = [] then stdin_loop pr t idempotent pid sq lines c
         else case write_produce pr t idempotent pid sq (as_bytes msg) c of
                ((False, rep), c1) \<Rightarrow> (rep, c1)
              | ((True, rep), c1) \<Rightarrow>
                  (case stdin_loop pr t idempotent pid (sq + 1) lines c1 of (reps, c2) \<Rightarrow> (rep @ reps, c2)))"

section \<open>The fetching client\<close>

text \<open>
  How the client ends: it leaves its loop, exits with status 1 because \<open>once\<close> found nothing,
  panics on a batch it cannot decode, or still runs after the rounds it is watched for.
\<close>

datatype fetch_end = LoopLeft | ExitedWithError | DecodePanic | StillRunning

definition client_fetch_request :: "u16 \<Rightarrow> u64 \<Rightarrow> message" where
  "client_fetch_request t off =
     Fetch \<lparr>fetch_topic_id = t, fetch_partition_id = 0, fetch_offset = off, fetch_max_bytes = 64 * 1024,
       fetch_max_wait_ms = 500\<rparr>"

definition client_commit_request :: "u16 \<Rightarrow> u16 \<Rightarrow> u64 \<Rightarrow> message" where
  "client_commit_request t g off =
     CommitOffset \<lparr>commit_group_id = g, commit_topic_id = t, commit_partition_id = 0, commit_offset_at = off\<rparr>"

definition client_batch :: "lz4_lib \<Rightarrow> bytes \<Rightarrow> log_record list io_result" where
  "client_batch lz bs = decode_records (case unwrap_batch lz bs of Inr batch \<Rightarrow> batch | Inl _ \<Rightarrow> bs)"

fun cli_fetch_loop ::
  "nat \<Rightarrow> lz4_lib \<Rightarrow> peer \<Rightarrow> u16 \<Rightarrow> u16 \<Rightarrow> bool \<Rightarrow> u64 \<Rightarrow> conn \<Rightarrow> (fetch_end \<times> log_record list) \<times> conn" where
  "cli_fetch_loop 0 lz pr t g once off c = ((StillRunning, []), c)"
| "cli_fetch_loop (Suc rounds) lz pr t g once off c =
     (case conn_write pr (client_fetch_request t off) c of
        (Inl _, c1) \<Rightarrow> ((LoopLeft, []), c1)
      | (Inr _, c1) \<Rightarrow>
          (case conn_read pr c1 of
             (Inr (RFetch bs), c2) \<Rightarrow>
               (case client_batch lz bs of
                  Inl _ \<Rightarrow> ((DecodePanic, []), c2)
                | Inr [] \<Rightarrow>
                    if once then ((ExitedWithError, []), c2)
                    else cli_fetch_loop rounds lz pr t g once off c2
                | Inr (r # rs) \<Rightarrow>
                    (let off' = rec_offset (last (r # rs)) + 1
                     in case conn_write pr (client_commit_request t g off') c2 of
                          (Inl _, c3) \<Rightarrow> ((LoopLeft, r # rs), c3)
                        | (Inr _, c3) \<Rightarrow>
                            (let c4 = snd (conn_read pr c3)
                             in if once then ((LoopLeft, r # rs), c4)
                                else case cli_fetch_loop rounds lz pr t g once off' c4 of
                                       ((how, out), c5) \<Rightarrow> ((how, (r # rs) @ out), c5))))
           | (_, c2) \<Rightarrow> ((LoopLeft, []), c2)))"

section \<open>Sessions only grow\<close>

lemma conn_write_sent: "prefix (c_sent c) (c_sent (snd (conn_write pr m c)))"
  by (simp add: conn_write_def split: sum.split)

lemma conn_read_sent [simp]: "c_sent (snd (conn_read pr c)) = c_sent c"
  by (auto simp: conn_read_def split: sum.split)

lemma write_produce_sent: "prefix (c_sent c) (c_sent (snd (write_produce pr t i pid sq x c)))"
proof -
  obtain r c1 where w: "conn_write pr (produce_message t i pid sq x) c = (r, c1)" by fastforce
  obtain r' c2 where rd: "conn_read pr c1 = (r', c2)" by fastforce
  have "prefix (c_sent c) (c_sent c1)" "c_sent c2 = c_sent c1"
    using conn_write_sent [of c pr "produce_message t i pid sq x"] conn_read_sent [of pr c1] w rd by simp_all
  with w rd show ?thesis
    by (cases r; cases r') (auto simp: write_produce_def split: message.split)
qed

lemma cli_fetch_loop_sent: "prefix (c_sent c) (c_sent (snd (cli_fetch_loop rounds lz pr t g once off c)))"
proof (induction rounds arbitrary: off c)
  case 0
  show ?case by simp
next
  case (Suc rounds)
  obtain r c1 where w: "conn_write pr (client_fetch_request t off) c = (r, c1)" by fastforce
  obtain r' c2 where rd: "conn_read pr c1 = (r', c2)" by fastforce
  have c2: "prefix (c_sent c) (c_sent c2)" and c1: "prefix (c_sent c) (c_sent c1)"
    using conn_write_sent [of c pr "client_fetch_request t off"] conn_read_sent [of pr c1] w rd by simp_all
  show ?case
  proof (cases "\<exists>bs rs. r = Inr () \<and> r' = Inr (RFetch bs) \<and> client_batch lz bs = Inr rs")
    case True
    then obtain bs rs where ok: "r = Inr ()" "r' = Inr (RFetch bs)" "client_batch lz bs = Inr rs" by blast
    show ?thesis
    proof (cases rs)
      case Nil
      with ok w rd c2 show ?thesis using prefix_order.trans [OF c2 Suc.IH [of c2 off]] by auto
    next
      case (Cons a as)
      let ?off = "rec_offset (last (a # as)) + 1"
      obtain r3 c3 where w3: "conn_write pr (client_commit_request t g ?off) c2 = (r3, c3)" by fastforce
      have c3: "prefix (c_sent c) (c_sent c3)"
        using prefix_order.trans [OF c2] conn_write_sent [of c2 pr "client_commit_request t g ?off"] w3 by simp
      obtain how out c5 where l: "cli_fetch_loop rounds lz pr t g once ?off (snd (conn_read pr c3)) = ((how, out), c5)"
        by (metis prod.collapse)
      have "prefix (c_sent c) (c_sent c5)"
        using prefix_order.trans [OF c3] Suc.IH [of "snd (conn_read pr c3)" ?off] l by simp
      with ok w rd w3 c3 l Cons show ?thesis by (cases r3) (auto simp: Let_def)
    qed
  next
    case False
    with w rd c1 c2 show ?thesis
      by (cases r; cases r') (auto split: message.split sum.split)
  qed
qed

section \<open>After the first request\<close>

text \<open>
  Once the other end has been read to its end and answers nothing more, a produce call
  fails, so the loop over the input ends at the next line.
\<close>

definition read_out :: "peer \<Rightarrow> conn \<Rightarrow> bool" where
  "read_out pr c \<longleftrightarrow> (\<forall>s. prefix (c_sent c) s \<longrightarrow> length (pr_answers pr s) \<le> c_got c)"

lemma read_message_Nil [simp]: "read_message [] = io_err UnexpectedEof ''early eof''"
  by (simp add: read_message_def take_exact_def)

lemma read_out_produce:
  assumes "read_out pr c"
  shows "fst (write_produce pr t i pid sq x c) = (False, [])"
proof -
  obtain r c1 where w: "conn_write pr (produce_message t i pid sq x) c = (r, c1)" by fastforce
  have "prefix (c_sent c) (c_sent c1)" "c_got c1 = c_got c"
    using conn_write_sent [of c pr "produce_message t i pid sq x"] w
    by (auto simp: conn_write_def split: sum.splits if_splits)
  then have "conn_read pr c1 = (io_err UnexpectedEof ''early eof'', c1)"
    using assms by (simp add: read_out_def conn_read_def io_err_def)
  with w show ?thesis by (cases r) (simp_all add: write_produce_def io_err_def)
qed

lemma read_out_stdin:
  assumes "read_out pr c"
  shows "fst (stdin_loop pr t i pid sq lines c) = [] \<and> prefix (c_sent c) (c_sent (snd (stdin_loop pr t i pid sq lines c)))"
  using assms
proof (induction lines arbitrary: sq c)
  case Nil
  show ?case by simp
next
  case (Cons line lines)
  show ?case
  proof (cases "trim line = []")
    case True
    with Cons show ?thesis by simp
  next
    case False
    obtain c1 where w: "write_produce pr t i pid sq (as_bytes (trim line)) c = ((False, []), c1)"
      using read_out_produce [OF Cons.prems] by (metis prod.collapse)
    with write_produce_sent [of c pr t i pid sq "as_bytes (trim line)"] False show ?thesis by simp
  qed
qed

text \<open>
  The first request of a client: it is answered once, the client reads the answer, and
  from then on the connection is read out and the broker's state stays as it is.
\<close>

lemma broker_session_first:
  fixes b1 :: broker
  defines "b1' \<equiv> \<lambda>cxs. b1\<lparr>b_metrics := record_request_latency (cx_latency (cxs (0 :: nat))) (b_metrics b1)\<rparr>"
  assumes req: "message_ok m" "encode_message m = Inr fr" "length fr \<le> 254" "\<forall>h. m \<noteq> Handshake h"
    and d: "dispatch_message e lz net (cxs 0) m session_default (b, n) = (Some r, session_default, [], b1, n1)"
    and resp: "message_ok r" "encode_message r = Inr fr'" "length fr' \<le> 255"
    and cx: "cx_write_ok (cxs 0)" and sock: "\<forall>w. write_message m = Inr w \<longrightarrow> accepts w"
  obtains w c where "conn_write (broker_peer e lz net cxs accepts (b, n)) m conn_new = (Inr (), \<lparr>c_sent = w, c_got = 0\<rparr>)"
    and "conn_read (broker_peer e lz net cxs accepts (b, n)) \<lparr>c_sent = w, c_got = 0\<rparr> = (Inr r, c)"
    and "c_sent c = w" and "read_out (broker_peer e lz net cxs accepts (b, n)) c"
    and "\<And>s. prefix w s \<Longrightarrow> snd (handle_broker_connection e lz net cxs 0 s session_default (b, n)) = ([], b1' cxs, n1)"
proof -
  let ?pr = "broker_peer e lz net cxs accepts (b, n)"
  obtain w where w: "write_message m = Inr w" using req(2) by (simp add: write_message_def)
  obtain out where out: "write_message r = Inr out" using resp(2) by (simp add: write_message_def)
  have rd: "read_message out = Inr (r, [])" using read_message_write [OF resp out, of "[]"] by simp
  have conn: "handle_broker_connection e lz net cxs 0 s session_default (b, n) = (out, [], b1' cxs, n1)" if "prefix w s" for s
    using session_first_request [OF req w that, of e lz net cxs 0 session_default "(b, n)"]
      one_request_v1 [where cxs = cxs, OF req w d out cx] by (simp add: b1'_def)
  let ?c = "\<lparr>c_sent = w, c_got = length out\<rparr>"
  show thesis
  proof (rule that [of w ?c])
    show "conn_write ?pr m conn_new = (Inr (), \<lparr>c_sent = w, c_got = 0\<rparr>)"
      using w sock by (simp add: conn_write_def conn_new_def broker_peer_def)
    show "conn_read ?pr \<lparr>c_sent = w, c_got = 0\<rparr> = (Inr r, ?c)"
      using conn [of w] rd by (simp add: conn_read_def broker_peer_def)
    show "read_out ?pr ?c" using conn by (simp add: read_out_def broker_peer_def)
  qed (use conn in simp_all)
qed

lemma encode_produce_message:
  "\<exists>fr. encode_message (produce_message t False pid sq x) = Inr fr \<and> length fr = 5 + length x"
  by (simp add: produce_message_def encode_message_def produce_encode_def)

text \<open>
  The producing client stores one message.  The client sends every line of its input on
  one version 1 connection, and a broker ends such a connection after one request.  The
  first line is stored and reported with its offset; whatever lines follow, the client
  reports nothing more and the broker has received nothing more.
\<close>

theorem producer_session_stores_one:
  assumes h: "history b t 0 h" and x: "x = as_bytes (trim line)" "x \<noteq> []" "length x \<le> 249"
      "length x \<le> max_payload_bytes e"
    and lead: "b_cluster b = None \<or> is_partition_leader b t 0"
    and open_access: "\<not> require_handshake e" "check_produce_acl b ''anonymous'' t = Inr ()"
    and cx: "\<forall>k. cx_gap (cxs k) = (\<lambda>_ b. b) \<and> cx_write_ok (cxs k)"
    and sock: "\<forall>w. write_message (produce_message t False pid 0 x) = Inr w \<longrightarrow> accepts w"
  shows "\<exists>c b' n'. stdin_loop (broker_peer e lz net cxs accepts (b, n)) t False pid 0 (line # lines) conn_new
      = ([(of_nat (length h), 0)], c)
    \<and> snd (handle_broker_connection e lz net cxs 0 (c_sent c) session_default (b, n)) = ([], b', n')
    \<and> history b' t 0 (h @ [x])"
proof -
  let ?pr = "broker_peer e lz net cxs accepts (b, n)" and ?m = "produce_message t False pid 0 x"
  let ?off = "of_nat (length h) :: u64"
  obtain fr where fr: "encode_message ?m = Inr fr" "length fr \<le> 254"
    using encode_produce_message [of t pid 0 x] x(3) by auto
  have hs: "\<not> handshake_missing e session_default" using open_access(1) by (simp add: handshake_missing_def)
  have small: "small_payload x" using x(3) by (simp add: small_payload_def)
  have m: "message_ok ?m" "\<forall>h. ?m \<noteq> Handshake h" by (simp_all add: produce_message_def)
  have acl: "check_produce_acl b (sess_principal session_default) t = Inr ()"
    using open_access(2) by (simp add: session_default_def)
  obtain b1 n1 where d: "dispatch_message e lz net (cxs 0) ?m session_default (b, n)
      = (Some (RProduce ?off), session_default, [], b1, n1)" and b1: "history b1 t 0 (h @ [x])"
    using dispatch_produce [OF h small x(4) lead acl hs, of "cxs 0" lz net n] cx
    by (auto simp: produce_message_def)
  let ?b1 = "b1\<lparr>b_metrics := record_request_latency (cx_latency (cxs 0)) (b_metrics b1)\<rparr>"
  obtain fr' where fr': "encode_message (RProduce ?off) = Inr fr'" "length fr' \<le> 255" by (simp add: encode_message_def)
  have cx0: "cx_write_ok (cxs 0)" using cx by simp
  obtain w c1 where io: "conn_write ?pr ?m conn_new = (Inr (), \<lparr>c_sent = w, c_got = 0\<rparr>)"
      "conn_read ?pr \<lparr>c_sent = w, c_got = 0\<rparr> = (Inr (RProduce ?off), c1)" "c_sent c1 = w" "read_out ?pr c1"
    and conn: "\<And>s. prefix w s \<Longrightarrow> snd (handle_broker_connection e lz net cxs 0 s session_default (b, n)) = ([], ?b1, n1)"
    by (rule broker_session_first [where cxs = cxs, OF m(1) fr m(2) d _ fr' cx0 sock]) auto
  obtain c where c: "stdin_loop ?pr t False pid 1 lines c1 = ([], c)" "prefix w (c_sent c)"
    using read_out_stdin [OF io(4), of t False pid 1 lines] io(3) by (metis prod.collapse)
  have "trim line \<noteq> []" using x(1,2) by (auto simp: as_bytes_def)
  moreover have "write_produce ?pr t False pid 0 x conn_new = ((True, [(?off, 0)]), c1)"
    using io by (simp add: write_produce_def)
  ultimately have "stdin_loop ?pr t False pid 0 (line # lines) conn_new = ([(?off, 0)], c)"
    using c x(1) by simp
  moreover have "history ?b1 t 0 (h @ [x])" using b1 by simp
  ultimately show ?thesis using conn [OF c(2)] by blast
qed

lemma trim_hello: "trim ''hello'' = ''hello''"
  by (rule trim_id) (simp add: white_space_def prefix_def suffix_def char_of_def)

theorem producer_session_stores_one_witness:
  "\<exists>c b' n'. stdin_loop (broker_peer empty_env sample_lz4 no_network (\<lambda>_. idle_context) (\<lambda>_. True) (sample_broker, ()))
      1 False 1 0 [''hello'', ''world''] conn_new = ([(0, 0)], c)
    \<and> snd (handle_broker_connection empty_env sample_lz4 no_network (\<lambda>_. idle_context) 0 (c_sent c) session_default
        (sample_broker, ())) = ([], b', n')
    \<and> history b' 1 0 [as_bytes ''hello'']"
proof -
  have v: "length (as_bytes ''hello'') \<le> max_payload_bytes empty_env"
    by (simp add: max_payload_bytes_def DEFAULT_MAX_PAYLOAD_BYTES_def)
  have env: "\<not> require_handshake empty_env" "b_cluster sample_broker = None"
    by (simp_all add: require_handshake_def env_flag_def sample_broker_def)
  show ?thesis
    using producer_session_stores_one [where line = "''hello''" and lines = "[''world'']" and cxs = "\<lambda>_. idle_context"
          and pid = 1 and accepts = "\<lambda>_. True" and lz = sample_lz4 and net = no_network and n = "()",
        OF sample_broker_history _ _ _ _ _ env(1) acl_open] v env(2)
    by (auto simp: trim_hello idle_context_def as_bytes_def)
qed

section \<open>What the fetching client shows and commits\<close>

lemma length_encode_records:
  "length (encode_records rs) = 2 + sum_list (map (\<lambda>r. 10 + length (rec_payload (truncate_record r))) (take 65535 rs))"
  by (simp add: encode_records_def encode_batch_record_eq length_concat comp_def Let_def unat_minus_1_u16 min_def
      unat_of_nat_u16)

lemma length_batch_bound: "10 * min (length rs) 65535 \<le> length (encode_records rs)"
proof -
  let ?f = "\<lambda>r. 10 + length (rec_payload (truncate_record r))"
  have "sum_list (map (\<lambda>_. 10) (take 65535 rs)) \<le> sum_list (map ?f (take 65535 rs))"
    by (rule sum_list_mono) simp
  then show ?thesis by (simp add: length_encode_records sum_list_triv min.commute)
qed

lemma small_batch_unchanged:
  assumes "length (encode_records rs) \<le> 252"
  shows "decode_records (encode_records rs) = Inr rs"
proof -
  let ?f = "\<lambda>r. 10 + length (rec_payload (truncate_record r))"
  have n: "length rs \<le> 65535" using length_batch_bound [of rs] assms by linarith
  moreover have "truncate_record r = r" if "r \<in> set rs" for r
  proof -
    have "?f r \<le> sum_list (map ?f rs)" using that by (intro member_le_sum_list) auto
    then show ?thesis using assms length_encode_records [of rs] n
      by (simp add: truncate_record_def min_def split: if_splits)
  qed
  ultimately show ?thesis by (simp add: decode_encode_records map_idI)
qed


text \<open>A broker with one record, for the witnesses.\<close>

definition one_record_broker :: broker where
  "one_record_broker = snd (append_log empty_env 1 0 [7] sample_broker)"

lemma one_record_broker_facts:
  "history one_record_broker 1 0 [[7]]" "retention one_record_broker 1 0 = Some 10000"
  "is_partition_replica one_record_broker 1 0" "b_cluster one_record_broker = None"
  "check_fetch_acl one_record_broker who t = Inr ()"
proof -
  have v: "validate_produce_payload empty_env (length [7 :: u8]) = Inr ()" "small_payload [7]"
    by (simp_all add: validate_produce_payload_def max_payload_bytes_def DEFAULT_MAX_PAYLOAD_BYTES_def small_payload_def)
  show "history one_record_broker 1 0 [[7]]"
    using append_log_history(2) [OF sample_broker_history v(2,1)] by (simp add: one_record_broker_def)
  show "retention one_record_broker 1 0 = Some 10000"
    using append_log_retention [OF sample_broker_history v(2,1), of 1 0]
    by (simp add: one_record_broker_def retention_def sample_broker_def broker_topic_config_def
        topic_config_default_for_def topic_config_new_def)
  have role: "same_role sample_broker one_record_broker" unfolding one_record_broker_def by (rule same_role_append_log)
  show "is_partition_replica one_record_broker 1 0" "b_cluster one_record_broker = None"
    using is_replica_same_role [OF role] sample_broker_replica role by (simp_all add: same_role_def sample_broker_def)
  show "check_fetch_acl one_record_broker who t = Inr ()"
    using role by (simp add: same_role_def check_fetch_acl_def acl_check_def sample_broker_def acl_from_env_def
        acl_is_configured_def env_flag_def)
qed

lemma one_record_batch:
  "batch_spec n (available (Some 10000) [[7]] 0) [\<lparr>rec_offset = 0, rec_payload = [7]\<rparr>]"
  by (simp add: batch_spec_def available_def start_of_simps numbered_def)

lemma plain_env: "\<not> require_handshake empty_env" "\<not> compression_enabled empty_env"
  by (simp_all add: require_handshake_def compression_enabled_def env_flag_def)


end
