(* ===== verification/Stress_Client.thy ===== *)
theory Stress_Client
  imports Client
begin

text \<open>
  The client side of \<open>dmq-stress\<close>: the payloads that carry a run and a sequence number, the
  produce and fetch sessions (\<open>client.rs\<close>) over the connections of \<open>Client\<close>, and the ledger of
  acknowledged sequence numbers (\<open>ledger.rs\<close>).  A \<open>BTreeSet\<close> is its ascending list.
\<close>

section \<open>Payloads\<close>

definition split_once :: "char \<Rightarrow> string \<Rightarrow> (string \<times> string) option" where
  "split_once c s =
     (if c \<in> set s then Some (takeWhile (\<lambda>x. x \<noteq> c) s, tl (dropWhile (\<lambda>x. x \<noteq> c) s)) else None)"

definition zero_pad :: "nat \<Rightarrow> string \<Rightarrow> string" where
  "zero_pad width s = replicate (width - length s) CHR ''0'' @ s"

definition payload_header :: "string \<Rightarrow> u64 \<Rightarrow> string" where
  "payload_header run_id sq = run_id @ '':'' @ zero_pad 12 (show_word sq) @ '':''"

definition encode_payload :: "string \<Rightarrow> u64 \<Rightarrow> nat \<Rightarrow> bytes" where
  "encode_payload run_id sq n =
     (let header = as_bytes (payload_header run_id sq);
          copy_len = min (length header) n
      in take copy_len header @ replicate (n - copy_len) 120)"

definition parse_payload :: "bytes \<Rightarrow> (string \<times> u64) io_result" where
  "parse_payload payload =
     (case from_utf8 payload of
        None \<Rightarrow> io_err InvalidData ''invalid utf-8''
      | Some txt \<Rightarrow>
          (case split_once CHR '':'' txt of
             None \<Rightarrow> io_err InvalidData ''missing run_id''
           | Some (run_part, rest) \<Rightarrow>
               (case split_once CHR '':'' rest of
                  None \<Rightarrow> io_err InvalidData ''missing seq''
                | Some (seq_part, _) \<Rightarrow>
                    (case parse_word seq_part of
                       None \<Rightarrow> io_err InvalidData ''invalid seq''
                     | Some sq \<Rightarrow> Inr (run_part, sq)))))"

section \<open>Sessions\<close>

text \<open>Creating a topic takes a connection of its own.\<close>

definition stress_create_topic :: "peer \<Rightarrow> u16 \<Rightarrow> u16 \<Rightarrow> u32 \<Rightarrow> unit io_result" where
  "stress_create_topic pr t partition_count max_recs =
     (case conn_write pr (CreateTopic \<lparr>create_topic_id = t, create_partition_count = partition_count,
                            create_max_records = max_recs\<rparr>) conn_new of
        (Inl err, _) \<Rightarrow> Inl err
      | (Inr _, c1) \<Rightarrow>
          (case fst (conn_read pr c1) of
             Inl err \<Rightarrow> Inl err
           | Inr (RCreateTopic code) \<Rightarrow>
               if code = 0 \<or> code = 1 then Inr ()
               else io_err OtherKind (''create topic failed with code '' @ show_word code)
           | Inr _ \<Rightarrow> io_err InvalidData ''unexpected create topic response''))"

definition session_produce :: "peer \<Rightarrow> u16 \<Rightarrow> u16 \<Rightarrow> u64 \<Rightarrow> u64 \<Rightarrow> bytes \<Rightarrow> conn \<Rightarrow> u64 io_result \<times> conn" where
  "session_produce pr t p pid sq payload c =
     (case conn_write pr (IdempotentProduce \<lparr>idem_topic_id = t, idem_partition_id = p, idem_producer_id = pid,
                            idem_sequence = sq, idem_payload = payload\<rparr>) c of
        (Inl err, c1) \<Rightarrow> (Inl err, c1)
      | (Inr _, c1) \<Rightarrow>
          (case conn_read pr c1 of
             (Inl err, c2) \<Rightarrow> (Inl err, c2)
           | (Inr (RProduce off), c2) \<Rightarrow> (Inr off, c2)
           | (Inr (RNotLeader leader), c2) \<Rightarrow>
               (io_err NotConnected (''not leader; retry broker '' @ show_word leader), c2)
           | (Inr _, c2) \<Rightarrow> (io_err InvalidData ''unexpected produce response'', c2)))"

definition stress_fetch_batch ::
  "lz4_lib \<Rightarrow> peer \<Rightarrow> u16 \<Rightarrow> u16 \<Rightarrow> u64 \<Rightarrow> u32 \<Rightarrow> conn \<Rightarrow> log_record list io_result \<times> conn" where
  "stress_fetch_batch lz pr t p off max_bytes c =
     (case conn_write pr (Fetch \<lparr>fetch_topic_id = t, fetch_partition_id = p, fetch_offset = off,
                            fetch_max_bytes = min max_bytes 64, fetch_max_wait_ms = 100\<rparr>) c of
        (Inl err, c1) \<Rightarrow> (Inl err, c1)
      | (Inr _, c1) \<Rightarrow>
          (case conn_read pr c1 of
             (Inl err, c2) \<Rightarrow> (Inl err, c2)
           | (Inr (RFetch bs), c2) \<Rightarrow>
               (if bs \<noteq> [] \<and> hd bs = CODEC_LZ4 then res_bind (unwrap_batch lz bs) decode_records
                else decode_records bs, c2)
           | (Inr _, c2) \<Rightarrow> (io_err InvalidData ''unexpected fetch response'', c2)))"

text \<open>
  The loop of \<open>fetch_all\<close>, watched for a number of rounds: nothing is a loop that still runs.
\<close>

fun stress_fetch_all ::
  "nat \<Rightarrow> lz4_lib \<Rightarrow> peer \<Rightarrow> u16 \<Rightarrow> u16 \<Rightarrow> u64 \<Rightarrow> u32 \<Rightarrow> conn \<Rightarrow> log_record list io_result option \<times> conn" where
  "stress_fetch_all 0 lz pr t p off max_bytes c = (None, c)"
| "stress_fetch_all (Suc rounds) lz pr t p off max_bytes c =
     (case stress_fetch_batch lz pr t p off max_bytes c of
        (Inl err, c1) \<Rightarrow> (Some (Inl err), c1)
      | (Inr [], c1) \<Rightarrow> (Some (Inr []), c1)
      | (Inr (r # rs), c1) \<Rightarrow>
          (case stress_fetch_all rounds lz pr t p (rec_offset (last (r # rs)) + 1) max_bytes c1 of
             (Some (Inr later), c2) \<Rightarrow> (Some (Inr ((r # rs) @ later)), c2)
           | other \<Rightarrow> other))"

definition stress_fetch_and_commit ::
  "nat \<Rightarrow> lz4_lib \<Rightarrow> peer \<Rightarrow> u16 \<Rightarrow> u16 \<Rightarrow> u16 \<Rightarrow> u32 \<Rightarrow> (log_record list \<times> u64) io_result option \<times> conn" where
  "stress_fetch_and_commit rounds lz pr t p g max_bytes =
     (case stress_fetch_all rounds lz pr t p 0 max_bytes conn_new of
        (None, c) \<Rightarrow> (None, c)
      | (Some (Inl err), c) \<Rightarrow> (Some (Inl err), c)
      | (Some (Inr rs), c) \<Rightarrow>
          (let off = (if rs = [] then 0 else rec_offset (last rs) + 1)
           in if off > 0 then
                (case conn_write pr (CommitOffset \<lparr>commit_group_id = g, commit_topic_id = t, commit_partition_id = p,
                                       commit_offset_at = off\<rparr>) c of
                   (Inl err, c1) \<Rightarrow> (Some (Inl err), c1)
                 | (Inr _, c1) \<Rightarrow>
                     (case conn_read pr c1 of
                        (Inl err, c2) \<Rightarrow> (Some (Inl err), c2)
                      | (Inr _, c2) \<Rightarrow> (Some (Inr (rs, off)), c2)))
              else (Some (Inr (rs, off)), c)))"

section \<open>The ledger\<close>

record ledger =
  lg_file :: bytes
  lg_seen :: "u64 list"

definition ledger_open :: ledger where
  "ledger_open = \<lparr>lg_file = [], lg_seen = []\<rparr>"

definition ledger_record :: "u64 \<Rightarrow> ledger \<Rightarrow> ledger" where
  "ledger_record sq l =
     (if sq \<in> set (lg_seen l) then l
      else l\<lparr>lg_seen := insort sq (lg_seen l), lg_file := lg_file l @ as_bytes (show_word sq) @ [10]\<rparr>)"

text \<open>\<open>BufRead::lines\<close>: the parts between the line feeds, without a carriage return before one.\<close>

fun byte_lines :: "bytes \<Rightarrow> bytes \<Rightarrow> bytes list" where
  "byte_lines acc [] = (if acc = [] then [] else [acc])"
| "byte_lines acc (b # bs) =
     (if b = 10 then (if acc \<noteq> [] \<and> last acc = 13 then butlast acc else acc) # byte_lines [] bs
      else byte_lines (acc @ [b]) bs)"

fun load_ledger_lines :: "bytes list \<Rightarrow> u64 list \<Rightarrow> u64 list io_result" where
  "load_ledger_lines [] out = Inr out"
| "load_ledger_lines (l # ls) out =
     (case from_utf8 l of
        None \<Rightarrow> io_err InvalidData ''stream did not contain valid UTF-8''
      | Some line \<Rightarrow>
          if trim line = [] then load_ledger_lines ls out
          else case parse_word (trim line) of
                 None \<Rightarrow> io_err InvalidData ''invalid digit found in string''
               | Some sq \<Rightarrow> load_ledger_lines ls (if sq \<in> set out then out else insort sq out))"

definition load_ledger :: "bytes option \<Rightarrow> u64 list io_result" where
  "load_ledger contents =
     (case contents of
        None \<Rightarrow> io_err NotFound ''No such file or directory''
      | Some bs \<Rightarrow> load_ledger_lines (byte_lines [] bs) [])"

section \<open>Payloads come back\<close>

text \<open>A valid text before a text does not change whether the latter is valid.\<close>

lemma utf8_valid_append: "utf8_valid bs \<Longrightarrow> utf8_valid (bs @ cs) = utf8_valid cs"
proof (induction bs rule: utf8_valid.induct)
  case 1
  show ?case by simp
next
  case (2 b rest)
  let ?n = "fst (utf8_step b rest)"
  have ok: "snd (utf8_step b rest)" "utf8_valid (drop ?n (b # rest))" using "2.prems" by (simp_all add: utf8_valid.simps(2))
  have "(b # rest) @ cs = take ?n (b # rest) @ drop ?n (b # rest) @ cs" by (metis append_assoc append_take_drop_id)
  then show ?case
    using utf8_valid_chunk [OF ok(1), of "drop ?n (b # rest) @ cs"] "2.IH" ok by metis
qed

lemma split_once_at: "c \<notin> set s \<Longrightarrow> split_once c (s @ c # s') = Some (s, s')"
  by (simp add: split_once_def takeWhile_append dropWhile_append)

lemma split_once_none: "c \<notin> set s \<Longrightarrow> split_once c s = None"
  by (simp add: split_once_def)

lemma digits_val_zeros: "digits_val acc (replicate k CHR ''0'' @ s) = digits_val (acc * 10 ^ k) s"
  by (induction k arbitrary: acc) (simp_all add: digit_val_def mult_ac)

lemma zero_pad_plain: "c \<in> set (zero_pad width (show_nat n)) \<Longrightarrow> \<exists>d<10. c = digit_char d"
proof -
  have "CHR ''0'' = digit_char 0" by (simp add: digit_char_def char_of_def bit_simps)
  then show "c \<in> set (zero_pad width (show_nat n)) \<Longrightarrow> \<exists>d<10. c = digit_char d"
    using show_nat_digits [of c n] by (auto simp: zero_pad_def intro: exI [of _ 0])
qed

lemma zero_pad_no_colon: "CHR '':'' \<notin> set (zero_pad width (show_nat n))"
  by (auto simp: zero_pad_def)

lemma parse_zero_pad: "parse_word (zero_pad width (show_word w)) = Some w" for w :: "'a::len word"
proof -
  let ?s = "zero_pad width (show_word w)"
  have "CHR ''+'' \<notin> set ?s" "?s \<noteq> []" by (auto simp: zero_pad_def)
  then obtain c cs where s: "?s = c # cs" "c \<noteq> CHR ''+''" by (cases ?s) auto
  have "digits_val 0 ?s = Some (unat w)"
    using digits_val_zeros [of 0 "width - length (show_word w)" "show_word w"] by (simp add: zero_pad_def digits_val_show)
  moreover have "unat w \<le> 2 ^ LENGTH('a) - 1" using unsigned_less [of w, where ?'a = nat] by linarith
  ultimately have "parse_uint (2 ^ LENGTH('a) - 1) ?s = Some (unat w)"
    unfolding s(1) using s(2) by (simp add: parse_uint_def Let_def)
  then show ?thesis by (simp add: parse_word_def)
qed

lemma header_parts: "payload_header run_id sq = run_id @ CHR '':'' # zero_pad 12 (show_word sq) @ '':''"
  by (simp add: payload_header_def)

lemma valid_header:
  assumes "valid_str run_id"
  shows "valid_str (payload_header run_id sq @ replicate k CHR ''x'')"
proof -
  have "\<forall>b\<in>set (as_bytes (CHR '':'' # zero_pad 12 (show_word sq) @ '':'' @ replicate k CHR ''x'')). b < 0x80"
    using zero_pad_plain [of _ 12 "unat sq"] of_char_digit by (fastforce simp: as_bytes_def)
  from utf8_valid_ascii [OF this, of "[]"] show ?thesis
    using assms utf8_valid_append by (simp add: valid_str_def payload_header_def as_bytes_def)
qed

lemma parse_encode_payload:
  assumes run: "valid_str run_id" "CHR '':'' \<notin> set run_id" and fits: "length (payload_header run_id sq) \<le> n"
  shows "parse_payload (encode_payload run_id sq n) = Inr (run_id, sq)"
proof -
  let ?txt = "payload_header run_id sq @ replicate (n - length (payload_header run_id sq)) CHR ''x''"
  have "encode_payload run_id sq n = as_bytes ?txt"
    using fits by (simp add: encode_payload_def Let_def min_def) (simp add: as_bytes_def)
  then have "from_utf8 (encode_payload run_id sq n) = Some ?txt"
    using valid_header [OF run(1)] by (simp add: from_utf8_as_bytes del: as_bytes_append)
  then show ?thesis
    using split_once_at [OF run(2)] split_once_at [OF zero_pad_no_colon]
    by (simp add: parse_payload_def header_parts parse_zero_pad)
qed

text \<open>
  Payloads carry their number if they are long enough.  For a run id without a colon,
  the payload of a sequence number parses back to the run and the number if and only if
  the payload size has room for the whole header, the run id and at least 14 bytes.
\<close>

theorem payload_roundtrip_iff:
  assumes run: "valid_str run_id" "CHR '':'' \<notin> set run_id"
  shows "parse_payload (encode_payload run_id sq n) = Inr (run_id, sq)
    \<longleftrightarrow> length (payload_header run_id sq) \<le> n"
proof (cases "length (payload_header run_id sq) \<le> n")
  case True
  with parse_encode_payload [OF run True] show ?thesis by simp
next
  case False
  let ?txt = "take n (payload_header run_id sq)"
  have e: "encode_payload run_id sq n = as_bytes ?txt"
    using False by (simp add: encode_payload_def as_bytes_def Let_def min_def take_map)
  show ?thesis
  proof (cases "from_utf8 (encode_payload run_id sq n)")
    case None
    with False show ?thesis by (simp add: parse_payload_def)
  next
    case (Some s)
    then have s: "s = ?txt" using e by (auto simp: from_utf8_def string_of_bytes_as_bytes split: if_splits)
    have "n \<le> length run_id
      \<or> (\<exists>k. n = Suc (length run_id) + k \<and> k \<le> length (zero_pad 12 (show_word sq)))"
      using False
      by (cases "n \<le> length run_id") (auto simp: header_parts intro!: exI [of _ "n - Suc (length run_id)"])
    then consider "n \<le> length run_id"
      | k where "n = Suc (length run_id) + k" "k \<le> length (zero_pad 12 (show_word sq))" by blast
    then have "\<not> is_ok (parse_payload (encode_payload run_id sq n))"
    proof cases
      case 1
      then have "CHR '':'' \<notin> set ?txt" using run(2) by (auto simp: header_parts dest: in_set_takeD)
      then show ?thesis using Some s by (simp add: parse_payload_def split_once_none is_ok_def io_err_def)
    next
      case 2
      then have "?txt = run_id @ CHR '':'' # take k (zero_pad 12 (show_word sq))" by (simp add: header_parts)
      moreover have "CHR '':'' \<notin> set (take k (zero_pad 12 (show_word sq)))"
        using zero_pad_no_colon [of 12 "unat sq"] by (auto dest: in_set_takeD)
      ultimately show ?thesis
        using Some s split_once_at [OF run(2)] by (simp add: parse_payload_def split_once_none is_ok_def io_err_def)
    qed
    with False show ?thesis by (auto simp: is_ok_def split: sum.splits)
  qed
qed

theorem payload_roundtrip_iff_witness:
  "parse_payload (encode_payload ''run42'' 7 64) = Inr (''run42'', 7)
   \<and> parse_payload (encode_payload ''run42'' 7 16) \<noteq> Inr (''run42'', 7)"
proof -
  have "valid_str ''run42''" by code_simp
  then show ?thesis
    using payload_roundtrip_iff [of "''run42''" 7] by (simp add: payload_header_def zero_pad_def show_nat.simps)
qed

section \<open>The ledger comes back\<close>

definition ledger_text :: "u64 list \<Rightarrow> bytes" where
  "ledger_text sqs = concat (map (\<lambda>sq. as_bytes (show_word sq) @ [10]) sqs)"

lemma digit_byte: "b \<in> set (as_bytes (show_nat n)) \<Longrightarrow> 48 \<le> unat b \<and> unat b \<le> 57"
  using show_nat_digits [of _ n] by (fastforce simp: as_bytes_def unat_of_char_u8 digit_char_def)

lemma byte_lines_line: "10 \<notin> set l \<Longrightarrow> l \<noteq> [] \<Longrightarrow> last l \<noteq> 13 \<Longrightarrow> byte_lines [] (l @ 10 # bs) = l # byte_lines [] bs"
proof -
  have "10 \<notin> set l \<Longrightarrow> byte_lines acc (l @ 10 # bs) = byte_lines (acc @ l) (10 # bs)" for acc
    by (induction l arbitrary: acc) auto
  then show "10 \<notin> set l \<Longrightarrow> l \<noteq> [] \<Longrightarrow> last l \<noteq> 13 \<Longrightarrow> ?thesis" by simp
qed

lemma byte_lines_ledger: "byte_lines [] (ledger_text sqs) = map (\<lambda>sq. as_bytes (show_word sq)) sqs"
proof (induction sqs)
  case Nil
  show ?case by (simp add: ledger_text_def)
next
  case (Cons sq sqs)
  let ?l = "as_bytes (show_word sq)"
  have "?l \<noteq> []" by (simp add: as_bytes_def)
  moreover have "10 \<notin> set ?l" using digit_byte [of 10 "unat sq"] by auto
  moreover have "last ?l \<noteq> 13" using digit_byte [of "last ?l" "unat sq"] last_in_set [OF \<open>?l \<noteq> []\<close>] by auto
  ultimately show ?case using Cons byte_lines_line [of ?l "ledger_text sqs"] by (simp add: ledger_text_def)
qed

lemma white_space_bounds:
  assumes "w \<in> set white_space"
  shows "\<forall>c\<in>set w. (of_char c :: nat) < 48 \<or> 57 < (of_char c :: nat)"
  using assms by (auto simp: white_space_def)

lemma trim_digits [simp]: "trim (show_nat n) = show_nat n"
proof (rule trim_id, intro ballI conjI)
  fix w assume w: "w \<in> set white_space"
  have "\<not> set w \<subseteq> set (show_nat n)"
  proof
    assume sub: "set w \<subseteq> set (show_nat n)"
    obtain c where "c \<in> set w" using white_space_nonempty [OF w] by (cases w) auto
    then show False
      using sub white_space_bounds [OF w] show_nat_digits [of c n] by (fastforce simp: digit_char_def)
  qed
  then show "\<not> prefix w (show_nat n)" "\<not> suffix w (show_nat n)"
    using set_mono_prefix set_mono_suffix by blast+
qed

lemma from_utf8_show [simp]: "from_utf8 (as_bytes (show_nat n)) = Some (show_nat n)"
  using utf8_valid_ascii [OF as_bytes_show_ascii, of n "[]"] by (simp add: from_utf8_as_bytes valid_str_def)

lemma insort_new: "sq \<notin> set xs \<Longrightarrow> xs = sorted_list_of_set (set xs) \<Longrightarrow> insort sq xs = sorted_list_of_set (insert sq (set xs))"
  by (metis List.finite_set sorted_list_of_set.sorted_key_list_of_set_insert)

lemma load_ledger_lines_show:
  assumes "out = sorted_list_of_set (set out)"
  shows "load_ledger_lines (map (\<lambda>sq. as_bytes (show_word sq)) sqs) out
    = Inr (sorted_list_of_set (set out \<union> set sqs))"
  using assms
proof (induction sqs arbitrary: out)
  case Nil
  then show ?case by simp
next
  case (Cons sq sqs)
  let ?out = "if sq \<in> set out then out else insort sq out"
  have set_out: "set ?out = insert sq (set out)" by (auto simp: set_insort_key)
  have "?out = sorted_list_of_set (set ?out)"
  proof (cases "sq \<in> set out")
    case True
    with Cons.prems show ?thesis by simp
  next
    case False
    with insort_new [OF False Cons.prems] set_out show ?thesis by metis
  qed
  then show ?case using Cons.IH [of ?out] set_out by (simp add: parse_word_show)
qed

lemma ledger_records:
  "\<exists>order. set order = set sqs \<and> fold ledger_record sqs ledger_open
    = \<lparr>lg_file = ledger_text order, lg_seen = sorted_list_of_set (set sqs)\<rparr>"
proof (induction sqs rule: rev_induct)
  case Nil
  show ?case by (simp add: ledger_open_def ledger_text_def)
next
  case (snoc sq sqs)
  then obtain order where o: "set order = set sqs" "fold ledger_record sqs ledger_open
      = \<lparr>lg_file = ledger_text order, lg_seen = sorted_list_of_set (set sqs)\<rparr>" by blast
  show ?case
  proof (cases "sq \<in> set sqs")
    case True
    with o show ?thesis by (intro exI [of _ order]) (simp add: ledger_record_def [of sq] insert_absorb)
  next
    case False
    with o show ?thesis
      by (intro exI [of _ "order @ [sq]"])
        (simp add: ledger_record_def [of sq] ledger_text_def)
  qed
qed

text \<open>
  The ledger survives the process.  Whatever sequence numbers were recorded, in whatever
  order and how often, loading the ledger file gives the ascending list of exactly those
  numbers, which is what the running process has in memory.
\<close>

theorem ledger_roundtrip:
  "load_ledger (Some (lg_file (fold ledger_record sqs ledger_open))) = Inr (sorted_list_of_set (set sqs))
   \<and> lg_seen (fold ledger_record sqs ledger_open) = sorted_list_of_set (set sqs)"
proof -
  obtain order where "set order = set sqs" "fold ledger_record sqs ledger_open
      = \<lparr>lg_file = ledger_text order, lg_seen = sorted_list_of_set (set sqs)\<rparr>" using ledger_records by blast
  then show ?thesis by (simp add: load_ledger_def byte_lines_ledger load_ledger_lines_show)
qed

end
