(* ===== verification/Stress_Tool.thy ===== *)
theory Stress_Tool
  imports Stress_Client
begin

text \<open>
  The load generator and its audit, \<open>dmq-stress\<close>: the command-line options (\<open>config.rs\<close>), the
  worker task of a window (\<open>stress.rs\<close>) and the comparison of the ledger with the log
  (\<open>audit.rs\<close>).  The clock, the latency histogram and the printed reports are arguments or
  left out.
\<close>

section \<open>Options\<close>

record stress_config =
  sc_topic_id :: u16
  sc_partition_id :: u16
  sc_run_id :: string
  sc_target_rps :: u64
  sc_duration :: u64
  sc_warmup :: u64
  sc_workers :: nat
  sc_payload_bytes :: nat
  sc_producer_id :: u64
  sc_ledger_path :: "string option"

definition expected_messages :: "stress_config \<Rightarrow> u64" where
  "expected_messages cfg = of_nat (min (unat (sc_target_rps cfg) * unat (sc_duration cfg)) (2 ^ 64 - 1))"

record verify_config =
  vc_topic_id :: u16
  vc_partition_id :: u16
  vc_run_id :: string
  vc_ledger_path :: "string option"
  vc_group_id :: u16

definition parse_duration :: "string \<Rightarrow> u64 option" where
  "parse_duration txt = (case strip_suffix ''s'' txt of Some secs \<Rightarrow> parse_word secs | None \<Rightarrow> parse_word txt)"

text \<open>The value of a flag is the next argument.\<close>

definition next_string :: "string list \<Rightarrow> string \<Rightarrow> string + string" where
  "next_string rest name = (case rest of [] \<Rightarrow> Inl (''missing value for --'' @ name) | v # _ \<Rightarrow> Inr v)"

definition next_word :: "string list \<Rightarrow> string \<Rightarrow> string + 'a::len word" where
  "next_word rest name =
     res_bind (next_string rest name) (\<lambda>v.
     case parse_word v of None \<Rightarrow> Inl (''invalid --'' @ name) | Some w \<Rightarrow> Inr w)"

definition next_usize :: "string list \<Rightarrow> string \<Rightarrow> string + nat" where
  "next_usize rest name = res_bind (next_word rest name :: string + u64) (\<lambda>w. Inr (unat w))"

definition next_duration :: "string list \<Rightarrow> string \<Rightarrow> string + u64" where
  "next_duration rest name =
     res_bind (next_string rest name) (\<lambda>v.
     case parse_duration v of None \<Rightarrow> Inl (''invalid '' @ name @ '': '' @ v) | Some d \<Rightarrow> Inr d)"

definition stress_flag :: "string \<Rightarrow> string list \<Rightarrow> stress_config \<Rightarrow> string + stress_config" where
  "stress_flag flag rest cfg =
     (if flag = ''--topic'' then res_bind (next_word rest ''topic'') (\<lambda>v. Inr (cfg\<lparr>sc_topic_id := v\<rparr>))
      else if flag = ''--partition'' then res_bind (next_word rest ''partition'') (\<lambda>v. Inr (cfg\<lparr>sc_partition_id := v\<rparr>))
      else if flag = ''--run-id'' then res_bind (next_string rest ''run-id'') (\<lambda>v. Inr (cfg\<lparr>sc_run_id := v\<rparr>))
      else if flag = ''--rps'' then res_bind (next_word rest ''rps'') (\<lambda>v. Inr (cfg\<lparr>sc_target_rps := v\<rparr>))
      else if flag = ''--duration'' then res_bind (next_duration rest ''duration'') (\<lambda>v. Inr (cfg\<lparr>sc_duration := v\<rparr>))
      else if flag = ''--warmup'' then res_bind (next_duration rest ''warmup'') (\<lambda>v. Inr (cfg\<lparr>sc_warmup := v\<rparr>))
      else if flag = ''--workers'' then res_bind (next_usize rest ''workers'') (\<lambda>v. Inr (cfg\<lparr>sc_workers := v\<rparr>))
      else if flag = ''--payload-bytes'' then
        res_bind (next_usize rest ''payload-bytes'') (\<lambda>v. Inr (cfg\<lparr>sc_payload_bytes := v\<rparr>))
      else if flag = ''--producer-id'' then res_bind (next_word rest ''producer-id'') (\<lambda>v. Inr (cfg\<lparr>sc_producer_id := v\<rparr>))
      else if flag = ''--ledger'' then res_bind (next_string rest ''ledger'') (\<lambda>v. Inr (cfg\<lparr>sc_ledger_path := Some v\<rparr>))
      else Inl (''unknown flag: '' @ flag))"

function stress_flags :: "string list \<Rightarrow> stress_config \<Rightarrow> string + stress_config" where
  "stress_flags [] cfg = Inr cfg"
| "stress_flags (flag # rest) cfg =
     res_bind (stress_flag flag rest cfg) (\<lambda>cfg'. stress_flags (tl rest) cfg')"
  by pat_completeness auto

termination by (relation "measure (\<lambda>(args, cfg). length args)") auto

text \<open>\<open>now_secs\<close> is the default run id, the seconds since the epoch.\<close>

definition parse_stress_args :: "string \<Rightarrow> string list \<Rightarrow> string + stress_config" where
  "parse_stress_args now_secs args =
     res_bind (stress_flags (drop 2 args)
       \<lparr>sc_topic_id = 1, sc_partition_id = 0, sc_run_id = now_secs, sc_target_rps = 1000, sc_duration = 30,
        sc_warmup = 5, sc_workers = 8, sc_payload_bytes = 64, sc_producer_id = 1, sc_ledger_path = None\<rparr>) (\<lambda>cfg.
     if sc_workers cfg = 0 then Inl ''workers must be >= 1''
     else if sc_payload_bytes cfg < 16 then Inl ''payload-bytes must be >= 16''
     else if sc_payload_bytes cfg > 240 then Inl ''payload-bytes must be <= 240 for v1 wire framing''
     else Inr cfg)"

definition verify_flag :: "string \<Rightarrow> string list \<Rightarrow> verify_config \<Rightarrow> string + verify_config" where
  "verify_flag flag rest cfg =
     (if flag = ''--topic'' then res_bind (next_word rest ''topic'') (\<lambda>v. Inr (cfg\<lparr>vc_topic_id := v\<rparr>))
      else if flag = ''--partition'' then res_bind (next_word rest ''partition'') (\<lambda>v. Inr (cfg\<lparr>vc_partition_id := v\<rparr>))
      else if flag = ''--run-id'' then res_bind (next_string rest ''run-id'') (\<lambda>v. Inr (cfg\<lparr>vc_run_id := v\<rparr>))
      else if flag = ''--ledger'' then res_bind (next_string rest ''ledger'') (\<lambda>v. Inr (cfg\<lparr>vc_ledger_path := Some v\<rparr>))
      else if flag = ''--group'' then res_bind (next_word rest ''group'') (\<lambda>v. Inr (cfg\<lparr>vc_group_id := v\<rparr>))
      else Inl (''unknown flag: '' @ flag))"

function verify_flags :: "string list \<Rightarrow> verify_config \<Rightarrow> string + verify_config" where
  "verify_flags [] cfg = Inr cfg"
| "verify_flags (flag # rest) cfg =
     res_bind (verify_flag flag rest cfg) (\<lambda>cfg'. verify_flags (tl rest) cfg')"
  by pat_completeness auto

termination by (relation "measure (\<lambda>(args, cfg). length args)") auto

definition parse_verify_args :: "string list \<Rightarrow> string + verify_config" where
  "parse_verify_args args =
     res_bind (verify_flags (drop 2 args)
       \<lparr>vc_topic_id = 1, vc_partition_id = 0, vc_run_id = '''', vc_ledger_path = None, vc_group_id = 1\<rparr>) (\<lambda>cfg.
     if vc_run_id cfg = [] then Inl ''--run-id is required for verify'' else Inr cfg)"

section \<open>A worker\<close>

record worker_state =
  ws_acked :: u64
  ws_errors :: u64
  ws_ledger :: ledger
  ws_conn :: conn

text \<open>
  The task of one worker: the global sequence numbers it receives, its own sequence, the
  counters, the ledger and its connection.  \<open>timed g\<close> says that the histogram takes the
  latency of message \<open>g\<close>; otherwise the task ends with the histogram's error.
\<close>

fun worker_loop ::
  "peer \<Rightarrow> stress_config \<Rightarrow> u64 \<Rightarrow> (u64 \<Rightarrow> bool) \<Rightarrow> u64 list \<Rightarrow> u64 \<Rightarrow> worker_state \<Rightarrow> (string + unit) \<times> worker_state" where
  "worker_loop pr cfg pid timed [] local_seq st = (Inr (), st)"
| "worker_loop pr cfg pid timed (g # gs) local_seq st =
     (case session_produce pr (sc_topic_id cfg) (sc_partition_id cfg) pid local_seq
             (encode_payload (sc_run_id cfg) g (sc_payload_bytes cfg)) (ws_conn st) of
        (Inr off, c) \<Rightarrow>
          (let st' = st\<lparr>ws_acked := ws_acked st + 1, ws_ledger := ledger_record g (ws_ledger st), ws_conn := c\<rparr>
           in if timed g then worker_loop pr cfg pid timed gs (local_seq + 1) st'
              else (Inl ''value is larger than the highest trackable value'', st'))
      | (Inl _, c) \<Rightarrow>
          worker_loop pr cfg pid timed gs local_seq (st\<lparr>ws_errors := ws_errors st + 1, ws_conn := c\<rparr>))"

section \<open>The audit\<close>

definition default_ledger_path :: "string \<Rightarrow> string \<Rightarrow> string" where
  "default_ledger_path tmp run_id = tmp @ ''/dmq-stress-'' @ run_id @ ''.seq''"

record audit_report =
  ar_run_id :: string
  ar_expected :: nat
  ar_fetched_for_run :: nat
  ar_missing :: "u64 list"
  ar_unexpected :: "u64 list"
  ar_committed_offset :: u64

definition audit_ok :: "audit_report \<Rightarrow> bool" where
  "audit_ok rep \<longleftrightarrow> ar_missing rep = [] \<and> ar_unexpected rep = [] \<and> ar_expected rep = ar_fetched_for_run rep"

text \<open>The sequence numbers of the run among the fetched records.\<close>

fun audit_collect :: "string \<Rightarrow> log_record list \<Rightarrow> u64 list \<Rightarrow> string + u64 list" where
  "audit_collect run_id [] fetched = Inr fetched"
| "audit_collect run_id (r # rs) fetched =
     (case parse_payload (rec_payload r) of
        Inl err \<Rightarrow> Inl (error_text err)
      | Inr (run, sq) \<Rightarrow>
          audit_collect run_id rs
            (if run = run_id \<and> sq \<notin> set fetched then insort sq fetched else fetched))"

definition audit_topic ::
  "nat \<Rightarrow> lz4_lib \<Rightarrow> peer \<Rightarrow> string \<Rightarrow> (string \<Rightarrow> bytes option) \<Rightarrow> verify_config \<Rightarrow> (string + audit_report) option" where
  "audit_topic rounds lz pr tmp disk cfg =
     (let path = (case vc_ledger_path cfg of Some p \<Rightarrow> p | None \<Rightarrow> default_ledger_path tmp (vc_run_id cfg))
      in case load_ledger (disk path) of
           Inl err \<Rightarrow> Some (Inl (''load ledger: '' @ error_text err))
         | Inr expected \<Rightarrow>
             (case fst (stress_fetch_and_commit rounds lz pr (vc_topic_id cfg) (vc_partition_id cfg) (vc_group_id cfg)
                          (256 * 1024)) of
                None \<Rightarrow> None
              | Some (Inl err) \<Rightarrow> Some (Inl (''fetch and commit: '' @ error_text err))
              | Some (Inr (rs, off)) \<Rightarrow>
                  Some (res_bind (audit_collect (vc_run_id cfg) rs []) (\<lambda>fetched.
                    Inr \<lparr>ar_run_id = vc_run_id cfg, ar_expected = length expected,
                         ar_fetched_for_run = length fetched,
                         ar_missing = filter (\<lambda>sq. sq \<notin> set fetched) expected,
                         ar_unexpected = filter (\<lambda>sq. sq \<notin> set expected) fetched,
                         ar_committed_offset = off\<rparr>))))"

section \<open>The accepted options\<close>

lemma length_encode_payload [simp]: "length (encode_payload run_id sq n) = n"
  by (simp add: encode_payload_def Let_def min_def)

text \<open>
  The accepted payload sizes.  Options that are accepted have at least one worker and a
  payload of 16 to 240 bytes, the range that the error message justifies with version 1
  framing.  Yet a produce request of that size is read back from its version 1 frame if and
  only if the payload has at most 233 bytes: sizes from 234 to 240 are accepted and no
  broker can read a single request.
\<close>

theorem accepted_payload_sizes:
  assumes "parse_stress_args now_secs args = Inr cfg"
    and m: "m = IdempotentProduce \<lparr>idem_topic_id = sc_topic_id cfg, idem_partition_id = sc_partition_id cfg,
      idem_producer_id = pid, idem_sequence = sq, idem_payload = encode_payload (sc_run_id cfg) g (sc_payload_bytes cfg)\<rparr>"
  shows "1 \<le> sc_workers cfg \<and> 16 \<le> sc_payload_bytes cfg \<and> sc_payload_bytes cfg \<le> 240
    \<and> (\<exists>w. write_message m = Inr w
        \<and> (read_frame (w @ rest) = Inr (frame_v1 m, V1, rest) \<longleftrightarrow> sc_payload_bytes cfg \<le> 233))"
proof -
  have "1 \<le> sc_workers cfg \<and> 16 \<le> sc_payload_bytes cfg \<and> sc_payload_bytes cfg \<le> 240"
    using assms(1) by (auto simp: parse_stress_args_def res_bind_Inr_iff split: if_splits)
  moreover obtain fr where fr: "encode_message m = Inr fr" "length fr = 21 + sc_payload_bytes cfg"
    by (simp add: m encode_message_def idempotent_produce_encode_def)
  moreover obtain w where w: "write_message m = Inr w" using fr(1) by (simp add: write_message_def)
  moreover have "message_ok m" by (simp add: m)
  ultimately show ?thesis
    using v1_frame_readable [of m fr w rest] by (auto simp: write_frame_def frame_v1_def)
qed

theorem accepted_payload_sizes_witness:
  "\<exists>cfg w. parse_stress_args ''0'' [''dmq-stress'', ''run'', ''--payload-bytes'', show_nat 240] = Inr cfg
    \<and> sc_payload_bytes cfg = 240
    \<and> write_message (IdempotentProduce \<lparr>idem_topic_id = sc_topic_id cfg, idem_partition_id = sc_partition_id cfg,
      idem_producer_id = 1, idem_sequence = 0, idem_payload = encode_payload (sc_run_id cfg) 0 (sc_payload_bytes cfg)\<rparr>) = Inr w
    \<and> read_frame w \<noteq> Inr (frame_v1 (IdempotentProduce \<lparr>idem_topic_id = sc_topic_id cfg, idem_partition_id = sc_partition_id cfg,
      idem_producer_id = 1, idem_sequence = 0, idem_payload = encode_payload (sc_run_id cfg) 0 (sc_payload_bytes cfg)\<rparr>), V1, [])"
proof -
  let ?cfg = "\<lparr>sc_topic_id = 1, sc_partition_id = 0, sc_run_id = ''0'', sc_target_rps = 1000, sc_duration = 30,
      sc_warmup = 5, sc_workers = 8, sc_payload_bytes = 240, sc_producer_id = 1, sc_ledger_path = None\<rparr>"
  have cfg: "parse_stress_args ''0'' [''dmq-stress'', ''run'', ''--payload-bytes'', show_nat 240] = Inr ?cfg"
    using parse_word_show [of "240 :: u64"]
    by (simp add: parse_stress_args_def stress_flag_def next_usize_def next_word_def next_string_def)
  from accepted_payload_sizes [OF cfg refl, of 1 0 0 "[]"] cfg show ?thesis by (intro exI [of _ ?cfg]) auto
qed

section \<open>What the audit decides\<close>

lemma audit_collect_ok:
  assumes "\<forall>r\<in>set rs. parse_payload (rec_payload r) = Inr (f r)" and "sorted fetched" "distinct fetched"
  shows "\<exists>out. audit_collect run_id rs fetched = Inr out \<and> distinct out
    \<and> set out = set fetched \<union> {sq. \<exists>r\<in>set rs. f r = (run_id, sq)}"
  using assms
proof (induction rs arbitrary: fetched)
  case Nil
  then show ?case by simp
next
  case (Cons r rs)
  obtain run sq where f: "f r = (run, sq)" by fastforce
  let ?out = "if run = run_id \<and> sq \<notin> set fetched then insort sq fetched else fetched"
  have "sorted ?out" "distinct ?out"
    using Cons.prems(2,3) by (simp_all add: sorted_insort distinct_insort)
  from Cons.IH [OF _ this] Cons.prems(1) obtain out where "audit_collect run_id rs ?out = Inr out" "distinct out"
      "set out = set ?out \<union> {sq. \<exists>r\<in>set rs. f r = (run_id, sq)}" by auto
  with f Cons.prems(1) show ?case by (auto simp: set_insort_key)
qed

lemma load_ledger_lines_distinct:
  "load_ledger_lines ls out = Inr sqs \<Longrightarrow> distinct out \<Longrightarrow> distinct sqs"
  by (induction ls out rule: load_ledger_lines.induct)
    (auto simp: distinct_insort split: option.splits if_splits)

text \<open>
  The audit compares sets.  When the ledger loads and every fetched record is one of the
  tool's payloads, the audit returns a report, and the report is good if and only if the
  sequence numbers of the run among the fetched records are exactly those in the ledger.
\<close>

theorem audit_compares_sets:
  assumes ledger: "load_ledger (disk path) = Inr sqs" "vc_ledger_path cfg = Some path"
    and fetch: "fst (stress_fetch_and_commit rounds lz pr (vc_topic_id cfg) (vc_partition_id cfg) (vc_group_id cfg)
      (256 * 1024)) = Some (Inr (rs, off))"
    and payloads: "\<forall>r\<in>set rs. parse_payload (rec_payload r) = Inr (f r)"
  shows "\<exists>rep. audit_topic rounds lz pr tmp disk cfg = Some (Inr rep)
    \<and> (audit_ok rep \<longleftrightarrow> {sq. \<exists>r\<in>set rs. f r = (vc_run_id cfg, sq)} = set sqs)"
proof -
  obtain out where out: "audit_collect (vc_run_id cfg) rs [] = Inr out" "distinct out"
      "set out = {sq. \<exists>r\<in>set rs. f r = (vc_run_id cfg, sq)}"
    using audit_collect_ok [OF payloads, of "[]" "vc_run_id cfg"] by auto
  have "distinct sqs"
    using ledger(1) load_ledger_lines_distinct by (auto simp: load_ledger_def split: option.splits)
  moreover have "length sqs = length out" if "set out = set sqs"
    using that out(2) calculation by (metis distinct_card)
  ultimately show ?thesis
    using ledger fetch out by (auto simp: audit_topic_def audit_ok_def filter_empty_conv)
qed

text \<open>A server that answers with one record, an empty batch and a commit, in that order.\<close>

definition one_record_peer :: "log_record \<Rightarrow> peer" where
  "one_record_peer r =
     \<lparr>pr_accepts = (\<lambda>_. True),
      pr_answers = (\<lambda>s.
        concat (take (if length s \<le> 22 then 1 else if length s \<le> 44 then 2 else 3)
          (map (\<lambda>m. projr (write_message m)) [RFetch (encode_records [r]), RFetch (encode_records []), RCommitOffset 0])))\<rparr>"

lemma one_record_fetch:
  assumes x: "length x = 16" and r: "r = \<lparr>rec_offset = 0, rec_payload = x\<rparr>"
  shows "fst (stress_fetch_and_commit 2 lz (one_record_peer r) t p g (256 * 1024)) = Some (Inr ([r], 1))"
proof -
  let ?e = "encode_records [r]"
  have len: "length ?e = 28" using length_one_record_batch [of x 0] x r by simp
  then obtain o1 where o1: "write_message (RFetch ?e) = Inr o1" "read_message (o1 @ rest) = Inr (RFetch ?e, rest)" for rest
    using read_message_write [of "RFetch ?e" "R_FETCH # ?e"] by (simp add: write_message_def encode_message_def)
  have e0: "encode_records [] = [0, 0]" by (simp add: encode_records_def to_be_bytes_u16)
  obtain o2 where o2: "write_message (RFetch [0, 0]) = Inr o2" "read_message (o2 @ rest) = Inr (RFetch [0, 0], rest)" for rest
    using read_message_write [of "RFetch [0, 0]" "[R_FETCH, 0, 0]"] by (simp add: write_message_def encode_message_def)
  obtain o3 where o3: "write_message (RCommitOffset 0) = Inr o3" "read_message (o3 @ rest) = Inr (RCommitOffset 0, rest)" for rest
    using read_message_write [of "RCommitOffset 0" "[R_COMMIT, 0]"] by (simp add: write_message_def encode_message_def)
  have req: "\<exists>w. write_message (Fetch q) = Inr w \<and> length w = 22" for q
    by (simp add: write_message_def encode_message_def fetch_encode_def)
  have cmt: "\<exists>w. write_message (CommitOffset q) = Inr w \<and> length w = 16" for q
    by (simp add: write_message_def encode_message_def commit_offset_encode_def)
  have dec: "decode_records ?e = Inr [r]" "decode_records [0, 0] = Inr []" "hd ?e \<noteq> CODEC_LZ4" "?e \<noteq> []"
    using decode_encode_records [of "[r]"] decode_encode_records [of "[]"] e0 r x
    by (simp_all add: truncate_record_def encode_records_def to_be_bytes_u16 CODEC_LZ4_def)
  let ?pr = "one_record_peer r"
  let ?q = "\<lambda>off. \<lparr>fetch_topic_id = t, fetch_partition_id = p, fetch_offset = off, fetch_max_bytes = 64, fetch_max_wait_ms = 100\<rparr>"
  obtain w1 where w1: "write_message (Fetch (?q 0)) = Inr w1" "length w1 = 22" using req by blast
  obtain w2 where w2: "write_message (Fetch (?q 1)) = Inr w2" "length w2 = 22" using req by blast
  obtain w3 where w3: "write_message (CommitOffset \<lparr>commit_group_id = g, commit_topic_id = t, commit_partition_id = p,
      commit_offset_at = 1\<rparr>) = Inr w3" "length w3 = 16" using cmt by blast
  have ans: "pr_answers ?pr w1 = o1" "pr_answers ?pr (w1 @ w2) = o1 @ o2" "pr_answers ?pr (w1 @ w2 @ w3) = o1 @ o2 @ o3"
      "\<And>s. pr_accepts ?pr s"
    using w1 w2 w3 o1(1) o2(1) o3(1) e0 by (simp_all add: one_record_peer_def)
  have "stress_fetch_batch lz ?pr t p 0 (256 * 1024) conn_new = (Inr [r], \<lparr>c_sent = w1, c_got = length o1\<rparr>)"
    using w1(1) ans o1(2) [of "[]"] dec by (simp add: stress_fetch_batch_def conn_write_def conn_read_def conn_new_def)
  moreover have "stress_fetch_batch lz ?pr t p 1 (256 * 1024) \<lparr>c_sent = w1, c_got = length o1\<rparr>
      = (Inr [], \<lparr>c_sent = w1 @ w2, c_got = length o1 + length o2\<rparr>)"
    using w2(1) ans o2(2) [of "[]"] dec by (simp add: stress_fetch_batch_def conn_write_def conn_read_def CODEC_LZ4_def)
  ultimately have "stress_fetch_all 2 lz ?pr t p 0 (256 * 1024) conn_new
      = (Some (Inr [r]), \<lparr>c_sent = w1 @ w2, c_got = length o1 + length o2\<rparr>)"
    using r by (simp add: numeral_2_eq_2)
  then show ?thesis
    using w3(1) ans o3(2) [of "[]"] r by (simp add: stress_fetch_and_commit_def conn_write_def conn_read_def)
qed

theorem audit_compares_sets_witness:
  "\<exists>rep. audit_topic 2 sample_lz4 (one_record_peer \<lparr>rec_offset = 0, rec_payload = encode_payload ''r'' 3 16\<rparr>) ''/tmp''
      (\<lambda>_. Some (lg_file (ledger_record 3 ledger_open)))
      \<lparr>vc_topic_id = 1, vc_partition_id = 0, vc_run_id = ''r'', vc_ledger_path = Some ''l'', vc_group_id = 1\<rparr> = Some (Inr rep)
    \<and> audit_ok rep"
proof -
  let ?r = "\<lparr>rec_offset = 0 :: u64, rec_payload = encode_payload ''r'' 3 16\<rparr>"
  have "valid_str ''r''" by code_simp
  then have p: "parse_payload (rec_payload ?r) = Inr (''r'', 3)"
    using parse_encode_payload [of "''r''" 3 16] by (simp add: payload_header_def zero_pad_def show_nat.simps)
  have l: "load_ledger (Some (lg_file (ledger_record 3 ledger_open))) = Inr [3]"
    using byte_lines_ledger [of "[3]"] load_ledger_lines_show [of "[]" "[3]"]
    by (simp add: load_ledger_def ledger_record_def ledger_open_def ledger_text_def)
  show ?thesis
    using audit_compares_sets [where disk = "\<lambda>_. Some (lg_file (ledger_record 3 ledger_open))" and path = "''l''"
        and sqs = "[3]" and rs = "[?r]" and f = "\<lambda>_. (''r'', 3)" and off = 1 and rounds = 2 and lz = sample_lz4
        and pr = "one_record_peer ?r" and tmp = "''/tmp''" and cfg = "\<lparr>vc_topic_id = 1, vc_partition_id = 0,
          vc_run_id = ''r'', vc_ledger_path = Some ''l'', vc_group_id = 1\<rparr>"] l p one_record_fetch [OF _ refl, of "encode_payload ''r'' 3 16"]
    by simp
qed

section \<open>The audit against a broker\<close>

text \<open>
  The batch with its codec byte in front, read without removing it: the count is the codec
  byte and the high byte of the count, which is zero.
\<close>

lemma decode_shifted_batch:
  assumes "length rs < 256"
  shows "decode_records (CODEC_NONE # encode_records rs) = Inr []"
proof -
  have "to_be_bytes (of_nat (length rs) :: u16) = [0, of_nat (length rs)]"
    using assms by (simp add: to_be_bytes_u16 unat_of_nat_u16 del: of_nat_unat)
  then obtain lo bs where "encode_records rs = 0 # lo # bs"
    using assms by (simp add: encode_records_def Let_def)
  then show ?thesis by (simp add: decode_records_def CODEC_NONE_def be_at_def slice_def from_be_bytes_pair)
qed

text \<open>
  The audit sees nothing.  Against a broker whose partition has records, the tool reads a
  batch with the codec byte still in front of it and takes it for an empty one.  So the
  audit returns a report in which every acknowledged number of the ledger is missing and
  nothing was fetched or committed, and it is good only for an empty ledger.
\<close>

theorem audit_sees_nothing:
  assumes h: "history b t p h" "length h < 2 ^ 64" and role: "is_partition_replica b t p"
    and lead: "b_cluster b = None \<or> is_partition_leader b t p"
    and open_access: "\<not> require_handshake e" "\<not> compression_enabled e" "check_fetch_acl b ''anonymous'' t = Inr ()"
    and batch: "batch_spec (unat (clamp_fetch_bytes e 64)) (available (retention b t p) h 0) rs"
      "rs \<noteq> []" "length (encode_records rs) \<le> 252"
    and cx: "\<forall>k. cx_gap (cxs k) = (\<lambda>_ b. b) \<and> cx_write_ok (cxs k)"
    and ledger: "load_ledger (disk path) = Inr sqs"
    and cfg: "cfg = \<lparr>vc_topic_id = t, vc_partition_id = p, vc_run_id = run, vc_ledger_path = Some path, vc_group_id = g\<rparr>"
  shows "audit_topic (Suc rounds) lz (broker_peer e lz net cxs (\<lambda>_. True) (b, n)) tmp disk cfg
    = Some (Inr \<lparr>ar_run_id = run, ar_expected = length sqs, ar_fetched_for_run = 0, ar_missing = sqs,
        ar_unexpected = [], ar_committed_offset = 0\<rparr>)"
proof -
  let ?pr = "broker_peer e lz net cxs (\<lambda>_. True) (b, n)"
  define req where "req = \<lparr>fetch_topic_id = t, fetch_partition_id = p, fetch_offset = 0, fetch_max_bytes = 64 :: u32,
      fetch_max_wait_ms = 100\<rparr>"
  let ?resp = "RFetch (CODEC_NONE # encode_records rs)"
  have f: "fst (fetch_log e req b) = Inr rs"
    using fetch_log_eq(1) [OF h(1) role, of req e] h(2) batch(1)
      batch_spec_unique [OF fetch_loop_batch [OF clamp_small]] by (simp add: log_fetch_available req_def)
  then obtain b1 where f1: "fetch_log e req b = (Inr rs, b1)" by (metis prod.collapse)
  have d: "dispatch_message e lz net (cxs 0) (Fetch req) session_default (b, n) = (Some ?resp, session_default, [], b1, n)"
    using dispatch_fetch [OF f1 batch(2), of session_default "cxs 0" lz net n] lead open_access cx
    by (simp add: handshake_missing_def session_default_def req_def)
  obtain fr where fr: "encode_message (Fetch req) = Inr fr" "length fr \<le> 254"
    by (simp add: encode_message_def fetch_encode_def)
  obtain fr' where fr': "encode_message ?resp = Inr fr'" "length fr' \<le> 255"
    using batch(3) by (simp add: encode_message_def)
  have cx0: "cx_write_ok (cxs 0)" using cx by simp
  obtain w c where io: "conn_write ?pr (Fetch req) conn_new = (Inr (), \<lparr>c_sent = w, c_got = 0\<rparr>)"
      "conn_read ?pr \<lparr>c_sent = w, c_got = 0\<rparr> = (Inr ?resp, c)"
    by (rule broker_session_first [where cxs = cxs and accepts = "\<lambda>_. True", OF _ fr _ d _ fr' cx0]) auto
  have "length rs < 256" using length_batch_bound [of rs] batch(3) by linarith
  then have "stress_fetch_batch lz ?pr t p 0 (256 * 1024) conn_new = (Inr [], c)"
    using io decode_shifted_batch [of rs]
    by (simp add: stress_fetch_batch_def req_def CODEC_NONE_def CODEC_LZ4_def)
  then have "fst (stress_fetch_and_commit (Suc rounds) lz ?pr t p g (256 * 1024)) = Some (Inr ([], 0))"
    by (simp add: stress_fetch_and_commit_def)
  with ledger show ?thesis by (simp add: audit_topic_def cfg)
qed

theorem audit_sees_nothing_witness:
  "\<exists>rep. audit_topic 1 sample_lz4 (broker_peer empty_env sample_lz4 no_network (\<lambda>_. idle_context) (\<lambda>_. True)
        (one_record_broker, ())) ''/tmp'' (\<lambda>_. Some (lg_file (ledger_record 3 ledger_open)))
      \<lparr>vc_topic_id = 1, vc_partition_id = 0, vc_run_id = ''r'', vc_ledger_path = Some ''l'', vc_group_id = 1\<rparr> = Some (Inr rep)
    \<and> ar_missing rep = [3] \<and> ar_fetched_for_run rep = 0"
proof -
  have l: "load_ledger (Some (lg_file (ledger_record 3 ledger_open))) = Inr [3]"
    using byte_lines_ledger [of "[3]"] load_ledger_lines_show [of "[]" "[3]"]
    by (simp add: load_ledger_def ledger_record_def ledger_open_def ledger_text_def)
  show ?thesis
    using audit_sees_nothing [where rounds = 0 and cxs = "\<lambda>_. idle_context" and disk = "\<lambda>_. Some (lg_file (ledger_record 3 ledger_open))"
        and lz = sample_lz4 and net = no_network and n = "()" and path = "''l''" and run = "''r''"
        and rs = "[\<lparr>rec_offset = 0, rec_payload = [7]\<rparr>]" and tmp = "''/tmp''" and g = 1,
        OF one_record_broker_facts(1) _ one_record_broker_facts(3) _ plain_env one_record_broker_facts(5) _ _ _ _ l refl]
      one_record_broker_facts(2,4) one_record_batch length_one_record_batch [of "[7]" 0]
    by (simp add: idle_context_def)
qed

end
