(* ===== verification/Stress_Run.thy ===== *)
theory Stress_Run
  imports Stress_Tool
begin

text \<open>
  A run of the load generator (\<open>stress.rs\<close>): the size of the topic it creates, the sequence
  numbers that a window hands out, and what a worker achieves against a broker.  Time is in
  nanoseconds since the start of the window.
\<close>

section \<open>A run\<close>

text \<open>How many records the created topic keeps: 64 bits, cut to 32.\<close>

definition stress_max_records :: "stress_config \<Rightarrow> u32" where
  "stress_max_records cfg =
     ucast (max (sat_add (expected_messages cfg) (of_nat (sc_workers cfg))) 10000 :: u64)"

definition stress_prepare :: "peer \<Rightarrow> stress_config \<Rightarrow> string + ledger" where
  "stress_prepare pr cfg =
     (case stress_create_topic pr (sc_topic_id cfg) 1 (stress_max_records cfg) of
        Inl err \<Rightarrow> Inl (''create topic: '' @ error_text err)
      | Inr _ \<Rightarrow> Inr ledger_open)"

definition tick_interval :: "u64 \<Rightarrow> nat" where
  "tick_interval target_rps = unat ((1000000000 :: u64) div max target_rps 1)"

text \<open>
  The loop that hands out sequence numbers: \<open>ticker\<close> moves by the interval, and a number is sent
  at every tick up to the deadline.
\<close>

partial_function (option) window_seqs :: "nat \<Rightarrow> nat \<Rightarrow> nat \<Rightarrow> u64 \<Rightarrow> u64 list option" where
  "window_seqs interval deadline ticker sq =
     (if ticker < deadline then
        (if ticker + interval > deadline then Some []
         else Option.bind (window_seqs interval deadline (ticker + interval) (sq + 1)) (\<lambda>sqs. Some (sq # sqs)))
      else Some [])"

section \<open>The numbers of a window\<close>

lemma window_seqs_positive:
  assumes "0 < interval"
  shows "window_seqs interval deadline ticker sq
    = Some (map (\<lambda>i. sq + of_nat i) [0..<(deadline - ticker) div interval])"
proof (induction "deadline - ticker" arbitrary: ticker sq rule: less_induct)
  case less
  show ?case
  proof (cases "ticker + interval \<le> deadline")
    case True
    have "deadline - ticker = interval + (deadline - (ticker + interval))" using True by simp
    then have n: "(deadline - ticker) div interval = Suc ((deadline - (ticker + interval)) div interval)"
      using assms by (metis add.commute div_add_self2 less_numeral_extra(3) Suc_eq_plus1)
    have "window_seqs interval deadline (ticker + interval) (sq + 1)
        = Some (map (\<lambda>i. sq + 1 + of_nat i) [0..<(deadline - (ticker + interval)) div interval])"
      using less.hyps [of "ticker + interval" "sq + 1"] True assms by simp
    then show ?thesis
      using True assms unfolding n
      by (subst window_seqs.simps) (simp add: upt_conv_Cons map_Suc_upt [symmetric] add_ac del: upt_Suc)
  next
    case False
    then have "(deadline - ticker) div interval = 0" using assms by (intro div_less) linarith
    with False show ?thesis by (subst window_seqs.simps) simp
  qed
qed

lemma window_seqs_stuck:
  assumes "window_seqs interval deadline ticker sq = Some out"
  shows "interval \<noteq> 0 \<or> \<not> ticker < deadline"
  by (rule window_seqs.raw_induct [where P = "\<lambda>interval deadline ticker sq out. interval \<noteq> 0 \<or> \<not> ticker < deadline",
        OF _ assms]) (auto split: if_splits bind_splits, metis add_0_right gr0I)

lemma unat_tick_interval: "tick_interval rps = 1000000000 div max (unat rps) 1"
  by (simp add: tick_interval_def unat_div max_def word_le_nat_alt)

text \<open>How many ticks fit, against the rate that was asked for.\<close>

lemma ticks_at_least:
  assumes "0 < tick_interval rps"
  shows "unat rps * secs \<le> secs * 1000000000 div tick_interval rps"
proof -
  let ?r = "max (unat rps) 1" and ?i = "tick_interval rps"
  have "unat rps * ?i \<le> ?r * (1000000000 div ?r)" unfolding unat_tick_interval by (intro mult_right_mono) simp_all
  also have "\<dots> \<le> 1000000000" by (rule times_div_less_eq_dividend)
  finally have "unat rps * secs * ?i \<le> secs * 1000000000" by (metis mult.commute mult.left_commute mult_le_mono2)
  then show ?thesis using assms by (metis div_le_mono nonzero_mult_div_cancel_right less_numeral_extra(3))
qed

lemma ticks_exact:
  assumes "0 < tick_interval rps" and "unat rps dvd 1000000000"
  shows "secs * 1000000000 div tick_interval rps = unat rps * secs"
proof -
  have "unat rps \<noteq> 0" using assms(2) by (intro notI) simp
  then have "secs * 1000000000 = unat rps * secs * tick_interval rps"
    using assms(2) by (simp add: unat_tick_interval max_def mult.commute mult.left_commute)
  then show ?thesis using assms(1) by (metis nonzero_mult_div_cancel_right less_numeral_extra(3))
qed

text \<open>
  The numbers of a window.  The window of \<open>secs\<close> seconds ends for every rate up to one
  thousand million per second, having handed out the numbers 0, 1, 2, \<open>\<dots>\<close> without a gap, at least
  as many as the rate asks for, and exactly as many when the rate divides a thousand
  million.  For a higher rate the interval is zero and the loop never ends.
\<close>

theorem stress_window_numbers:
  "if unat rps \<le> 1000000000 \<or> secs = 0
   then \<exists>n. window_seqs (tick_interval rps) (secs * 1000000000) 0 0 = Some (map of_nat [0..<n])
     \<and> unat rps * secs \<le> n \<and> (unat rps dvd 1000000000 \<longrightarrow> n = unat rps * secs)
   else window_seqs (tick_interval rps) (secs * 1000000000) 0 0 = None"
proof (cases "unat rps \<le> 1000000000 \<or> secs = 0")
  case True
  show ?thesis
  proof (cases "secs = 0")
    case True
    then have "window_seqs (tick_interval rps) (secs * 1000000000) 0 0 = Some (map of_nat [0..<0])"
      by (subst window_seqs.simps) simp
    with True show ?thesis by auto
  next
    case False
    have pos: "0 < tick_interval rps"
      using True False by (simp add: unat_tick_interval div_greater_zero_iff)
    show ?thesis
      using window_seqs_positive [OF pos, of "secs * 1000000000" 0 0] ticks_at_least [OF pos, of secs]
        ticks_exact [OF pos, of secs] True by auto
  qed
next
  case False
  then have "tick_interval rps = 0" by (simp add: unat_tick_interval)
  with False window_seqs_stuck [of 0 "secs * 1000000000" 0 0] show ?thesis
    by (cases "window_seqs 0 (secs * 1000000000) 0 0") auto
qed

theorem stress_window_numbers_witness:
  "(\<exists>n. window_seqs (tick_interval 1000) (30 * 1000000000) 0 0 = Some (map of_nat [0..<n]) \<and> n = 30000)
    \<and> window_seqs (tick_interval 2000000000) (1 * 1000000000) 0 0 = None"
  using stress_window_numbers [of 1000 30] stress_window_numbers [of 2000000000 1] by auto

section \<open>What a worker achieves\<close>

lemma read_out_session_produce:
  assumes "read_out pr c"
  shows "\<exists>err c'. session_produce pr t p pid sq x c = (Inl err, c') \<and> read_out pr c' \<and> prefix (c_sent c) (c_sent c')"
proof -
  let ?m = "IdempotentProduce \<lparr>idem_topic_id = t, idem_partition_id = p, idem_producer_id = pid, idem_sequence = sq, idem_payload = x\<rparr>"
  obtain r c1 where w: "conn_write pr ?m c = (r, c1)" by fastforce
  have c1: "prefix (c_sent c) (c_sent c1)" "c_got c1 = c_got c"
    using conn_write_sent [of c pr ?m] w by (auto simp: conn_write_def split: sum.splits if_splits)
  then have "read_out pr c1" using assms prefix_order.trans by (fastforce simp: read_out_def)
  moreover have "conn_read pr c1 = (io_err UnexpectedEof ''early eof'', c1)"
    using assms c1 by (simp add: read_out_def conn_read_def io_err_def)
  ultimately show ?thesis using w c1(1) by (cases r) (simp_all add: session_produce_def io_err_def)
qed

lemma read_out_worker:
  "read_out pr (ws_conn st) \<Longrightarrow>
    \<exists>c. worker_loop pr cfg pid timed gs sq st = (Inr (), st\<lparr>ws_errors := ws_errors st + of_nat (length gs), ws_conn := c\<rparr>)
      \<and> prefix (c_sent (ws_conn st)) (c_sent c)"
proof (induction gs arbitrary: st)
  case Nil
  have "st = st\<lparr>ws_errors := ws_errors st + of_nat (length []), ws_conn := ws_conn st\<rparr>" by simp
  then show ?case by (intro exI [of _ "ws_conn st"]) simp
next
  case (Cons g gs)
  obtain err c where p: "session_produce pr (sc_topic_id cfg) (sc_partition_id cfg) pid sq
      (encode_payload (sc_run_id cfg) g (sc_payload_bytes cfg)) (ws_conn st) = (Inl err, c)"
      "read_out pr c" "prefix (c_sent (ws_conn st)) (c_sent c)"
    using read_out_session_produce [OF Cons.prems] by blast
  let ?st = "st\<lparr>ws_errors := ws_errors st + 1, ws_conn := c\<rparr>"
  obtain c' where "worker_loop pr cfg pid timed gs sq ?st
      = (Inr (), ?st\<lparr>ws_errors := ws_errors ?st + of_nat (length gs), ws_conn := c'\<rparr>)" "prefix (c_sent c) (c_sent c')"
    using Cons.IH [of ?st] p(2) by auto
  with p show ?case using prefix_order.trans [OF p(3)] by (intro exI [of _ c']) (simp add: add_ac)
qed

text \<open>
  A worker gets one message through.  Against a broker that accepts the payload, a worker
  with a fresh producer id and any further numbers to send has its first message stored and
  acknowledged and in the ledger; every later one is counted as an error and never reaches
  the partition, since the session keeps its version 1 connection.
\<close>

theorem stress_worker_acks_one:
  assumes cfg: "sc_topic_id cfg = t" "sc_partition_id cfg = p" "sc_payload_bytes cfg \<le> 233"
      "sc_payload_bytes cfg \<le> max_payload_bytes e"
    and h: "history b t p h" and fresh: "hm_get (entries (b_idempotency b)) (t, p, pid) = None"
    and lead: "b_cluster b = None \<or> is_partition_leader b t p"
    and open_access: "\<not> require_handshake e" "check_produce_acl b ''anonymous'' t = Inr ()"
    and cx: "\<forall>k. cx_gap (cxs k) = (\<lambda>_ b. b) \<and> cx_write_ok (cxs k)" and timed: "timed g"
  shows "\<exists>c b' n'. worker_loop (broker_peer e lz net cxs (\<lambda>_. True) (b, n)) cfg pid timed (g # gs) 0
      \<lparr>ws_acked = 0, ws_errors = 0, ws_ledger = ledger_open, ws_conn = conn_new\<rparr>
      = (Inr (), \<lparr>ws_acked = 1, ws_errors = of_nat (length gs), ws_ledger = ledger_record g ledger_open, ws_conn = c\<rparr>)
    \<and> snd (handle_broker_connection e lz net cxs 0 (c_sent c) session_default (b, n)) = ([], b', n')
    \<and> history b' t p (h @ [encode_payload (sc_run_id cfg) g (sc_payload_bytes cfg)])"
proof -
  let ?x = "encode_payload (sc_run_id cfg) g (sc_payload_bytes cfg)"
  define req where "req = \<lparr>idem_topic_id = t, idem_partition_id = p, idem_producer_id = pid, idem_sequence = 0 :: u64,
      idem_payload = ?x\<rparr>"
  let ?pr = "broker_peer e lz net cxs (\<lambda>_. True) (b, n)" and ?m = "IdempotentProduce req"
  let ?off = "of_nat (length h) :: u64"
  obtain fr where fr: "encode_message ?m = Inr fr" "length fr \<le> 254"
    using cfg(3) by (simp add: req_def encode_message_def idempotent_produce_encode_def)
  have hs: "\<not> handshake_missing e session_default" using open_access(1) by (simp add: handshake_missing_def)
  obtain b1 n1 where d: "dispatch_message e lz net (cxs 0) ?m session_default (b, n)
      = (Some (RProduce ?off), session_default, [], b1, n1)" and b1: "history b1 t p (h @ [?x])"
    using dispatch_idempotent [of b req h e session_default "cxs 0" lz net n] h cfg(3,4) fresh lead hs open_access(2) cx
    by (auto simp: req_def small_payload_def session_default_def)
  obtain fr' where fr': "encode_message (RProduce ?off) = Inr fr'" "length fr' \<le> 255" by (simp add: encode_message_def)
  let ?b1 = "b1\<lparr>b_metrics := record_request_latency (cx_latency (cxs 0)) (b_metrics b1)\<rparr>"
  have cx0: "cx_write_ok (cxs 0)" using cx by simp
  obtain w c1 where io: "conn_write ?pr ?m conn_new = (Inr (), \<lparr>c_sent = w, c_got = 0\<rparr>)"
      "conn_read ?pr \<lparr>c_sent = w, c_got = 0\<rparr> = (Inr (RProduce ?off), c1)" "c_sent c1 = w" "read_out ?pr c1"
    and conn: "\<And>s. prefix w s \<Longrightarrow> snd (handle_broker_connection e lz net cxs 0 s session_default (b, n)) = ([], ?b1, n1)"
    by (rule broker_session_first [where cxs = cxs and accepts = "\<lambda>_. True", OF _ fr _ d _ fr' cx0]) auto
  have first: "session_produce ?pr t p pid 0 ?x conn_new = (Inr ?off, c1)"
    using io by (simp add: session_produce_def req_def)
  let ?st = "\<lparr>ws_acked = 1, ws_errors = 0, ws_ledger = ledger_record g ledger_open, ws_conn = c1\<rparr>"
  obtain c where c: "worker_loop ?pr cfg pid timed gs 1 ?st = (Inr (), ?st\<lparr>ws_errors := of_nat (length gs), ws_conn := c\<rparr>)"
      "prefix w (c_sent c)"
    using read_out_worker [of ?pr ?st cfg pid timed gs 1] io(3,4) by auto
  have "worker_loop ?pr cfg pid timed (g # gs) 0 \<lparr>ws_acked = 0, ws_errors = 0, ws_ledger = ledger_open, ws_conn = conn_new\<rparr>
      = (Inr (), ?st\<lparr>ws_errors := of_nat (length gs), ws_conn := c\<rparr>)"
    using first c timed cfg(1,2) by simp
  with conn [OF c(2)] b1 show ?thesis by auto
qed

text \<open>The options of the tool without any flags.\<close>

definition sample_stress :: stress_config where
  "sample_stress = \<lparr>sc_topic_id = 1, sc_partition_id = 0, sc_run_id = ''r'', sc_target_rps = 1000, sc_duration = 30,
     sc_warmup = 5, sc_workers = 8, sc_payload_bytes = 64, sc_producer_id = 1, sc_ledger_path = None\<rparr>"

theorem stress_worker_acks_one_witness:
  "\<exists>c b' n'. worker_loop (broker_peer empty_env sample_lz4 no_network (\<lambda>_. idle_context) (\<lambda>_. True) (sample_broker, ()))
      sample_stress 1 (\<lambda>_. True) [0, 1, 2] 0 \<lparr>ws_acked = 0, ws_errors = 0, ws_ledger = ledger_open, ws_conn = conn_new\<rparr>
      = (Inr (), \<lparr>ws_acked = 1, ws_errors = 2, ws_ledger = ledger_record 0 ledger_open, ws_conn = c\<rparr>)
    \<and> snd (handle_broker_connection empty_env sample_lz4 no_network (\<lambda>_. idle_context) 0 (c_sent c) session_default
        (sample_broker, ())) = ([], b', n')
    \<and> history b' 1 0 [encode_payload ''r'' 0 64]"
proof -
  have v: "64 \<le> max_payload_bytes empty_env" by (simp add: max_payload_bytes_def DEFAULT_MAX_PAYLOAD_BYTES_def)
  have "hm_get (entries (b_idempotency sample_broker)) (1, 0, 1) = None" "b_cluster sample_broker = None"
    by (simp_all add: sample_broker_def idempotency_default_def)
  with stress_worker_acks_one [where cfg = sample_stress and pid = 1 and timed = "\<lambda>_. True" and g = 0 and gs = "[1, 2]"
      and cxs = "\<lambda>_. idle_context" and lz = sample_lz4 and net = no_network and n = "()",
      OF _ _ _ _ sample_broker_history _ _ plain_env(1) acl_open] v
  show ?thesis by (simp add: sample_stress_def idle_context_def)
qed

end
