(* ===== verification/Stress_Report.thy ===== *)
theory Stress_Report
  imports Rust_Float Stress_Run
begin

text \<open>
  The latency report of the stress tool (\<open>report.rs\<close>).  The histogram is a parameter: the calls
  that the tool makes on it, with the laws of its documentation.
\<close>

section \<open>The histogram\<close>

record 'h hist_lib =
  hl_new_with_bounds :: "u64 \<Rightarrow> u64 \<Rightarrow> u8 \<Rightarrow> string + 'h"
  hl_record :: "u64 \<Rightarrow> 'h \<Rightarrow> string + 'h"
  hl_len :: "'h \<Rightarrow> u64"
  hl_mean :: "'h \<Rightarrow> f64"
  hl_value_at_quantile :: "f64 \<Rightarrow> 'h \<Rightarrow> u64"
  hl_max :: "'h \<Rightarrow> u64"

text \<open>
  A histogram of the given bounds starts empty and takes every value up to its upper bound,
  one more each time; the value at a quantile grows with the quantile and never exceeds the
  maximum.  \<open>ok\<close> are the histograms with the bounds of the tool.
\<close>

definition hist_law :: "'h hist_lib \<Rightarrow> ('h \<Rightarrow> bool) \<Rightarrow> bool" where
  "hist_law hl ok \<longleftrightarrow>
     (\<forall>h. hl_new_with_bounds hl 1 120000000 3 = Inr h \<longrightarrow> ok h \<and> hl_len hl h = 0)
   \<and> (\<forall>v h. ok h \<and> v \<le> 120000000 \<longrightarrow> (\<exists>h'. hl_record hl v h = Inr h' \<and> ok h' \<and> hl_len hl h' = hl_len hl h + 1))
   \<and> (\<forall>p q h. ok h \<and> p \<le> q \<longrightarrow> hl_value_at_quantile hl p h \<le> hl_value_at_quantile hl q h)
   \<and> (\<forall>q h. ok h \<longrightarrow> hl_value_at_quantile hl q h \<le> hl_max hl h)"

section \<open>The report\<close>

record LatencySnapshot =
  ls_count :: u64
  ls_avg_ms :: f64
  ls_p50_ms :: f64
  ls_p95_ms :: f64
  ls_p99_ms :: f64
  ls_max_ms :: f64

definition micros_to_ms :: "u64 \<Rightarrow> f64" where
  "micros_to_ms v = f64_div (f64_of_nat (unat v)) (f64_of_nat 1000)"

definition latency_snapshot :: "'h hist_lib \<Rightarrow> 'h \<Rightarrow> LatencySnapshot" where
  "latency_snapshot hl h =
     (if hl_len hl h = 0 then
        \<lparr>ls_count = 0, ls_avg_ms = 0, ls_p50_ms = 0, ls_p95_ms = 0, ls_p99_ms = 0, ls_max_ms = 0\<rparr>
      else
        \<lparr>ls_count = hl_len hl h,
         ls_avg_ms = f64_div (hl_mean hl h) (f64_of_nat 1000),
         ls_p50_ms = micros_to_ms (hl_value_at_quantile hl (f64_round (50 / 100)) h),
         ls_p95_ms = micros_to_ms (hl_value_at_quantile hl (f64_round (95 / 100)) h),
         ls_p99_ms = micros_to_ms (hl_value_at_quantile hl (f64_round (99 / 100)) h),
         ls_max_ms = micros_to_ms (hl_max hl h)\<rparr>)"

definition achieved_rps :: "f64 \<Rightarrow> u64 \<Rightarrow> f64" where
  "achieved_rps secs acked = (if 0 < secs then f64_div (f64_of_nat (unat acked)) secs else 0)"

definition error_pct :: "u64 \<Rightarrow> u64 \<Rightarrow> f64" where
  "error_pct acked errors =
     (if acked + errors = 0 then 0
      else f64_mul (f64_div (f64_of_nat (unat errors)) (f64_of_nat (unat (acked + errors)))) (f64_of_nat 100))"

definition print_stress_report ::
  "string \<Rightarrow> u64 \<Rightarrow> nat \<Rightarrow> u64 \<Rightarrow> u64 \<Rightarrow> LatencySnapshot \<Rightarrow> string \<Rightarrow> string list" where
  "print_stress_report run_id target_rps duration acked errors latency ledger_path =
     (let secs = as_secs_f64 duration
      in [''---- dmq stress report ----'',
          ''run_id         : '' @ run_id,
          ''duration       : '' @ show_f64 2 secs @ ''s'',
          ''target rps     : '' @ show_word target_rps,
          ''achieved rps   : '' @ show_f64 1 (achieved_rps secs acked) @ '' ('' @ show_word acked @ '' acked produces)'',
          ''errors         : '' @ show_word errors @ '' ('' @ show_f64 3 (error_pct acked errors) @ ''%)'',
          ''produce p50/p95/p99 : '' @ show_f64 1 (ls_p50_ms latency) @ '' / '' @ show_f64 1 (ls_p95_ms latency)
            @ '' / '' @ show_f64 1 (ls_p99_ms latency) @ '' ms'',
          ''produce avg/max   : '' @ show_f64 1 (ls_avg_ms latency) @ '' / '' @ show_f64 1 (ls_max_ms latency) @ '' ms'',
          ''ledger         : '' @ ledger_path])"

section \<open>The figures\<close>

lemma micros_to_ms_mono: "v \<le> w \<Longrightarrow> micros_to_ms v \<le> micros_to_ms w"
  by (simp add: micros_to_ms_def f64_div_mono f64_of_nat_mono word_le_nat_alt)

lemma micros_to_ms_exact:
  assumes "v \<le> 120000000"
  shows "\<bar>micros_to_ms v - of_nat (unat v) / 1000\<bar> \<le> of_nat (unat v) / 1000 / 2 ^ 53"
proof (cases "unat v = 0")
  case False
  have "unat v \<le> 120000000" using assms by (simp add: word_le_nat_alt)
  then have "f64_of_nat (unat v) = of_nat (unat v)" "f64_of_nat 1000 = 1000" by (simp_all add: f64_of_nat_small)
  moreover have "0 < (of_nat (unat v) / 1000 :: rat)" using False by (simp del: of_nat_unat)
  ultimately show ?thesis using f64_round_error [of "of_nat (unat v) / 1000"] by (simp add: micros_to_ms_def f64_div_def)
qed (simp add: micros_to_ms_def f64_div_def f64_of_nat_def)

lemma error_pct_bounds:
  assumes "unat acked + unat errors < 2 ^ 64"
  shows "0 \<le> error_pct acked errors" "error_pct acked errors \<le> 100" "error_pct acked errors = 0 \<longleftrightarrow> errors = 0"
proof -
  have sum: "unat (acked + errors) = unat acked + unat errors" using assms by (simp add: unat_word_ariths)
  have hundred: "f64_of_nat 100 = of_int 100" by (simp add: f64_of_nat_small)
  let ?q = "f64_div (f64_of_nat (unat errors)) (f64_of_nat (unat (acked + errors)))"
  have "?q \<le> 1" using sum by (intro f64_div_le_one f64_of_nat_mono) simp_all
  then show "error_pct acked errors \<le> 100" using f64_mul_le_int [of ?q 100] by (simp add: error_pct_def hundred)
  show "0 \<le> error_pct acked errors" by (simp add: error_pct_def f64_mul_def)
  show "error_pct acked errors = 0 \<longleftrightarrow> errors = 0"
  proof
    assume z: "error_pct acked errors = 0"
    show "errors = 0"
    proof (rule ccontr)
      assume "errors \<noteq> 0"
      then have e: "0 < unat errors" by (simp add: unat_gt_0)
      then have "0 < ?q" unfolding f64_div_def using sum by (intro f64_round_pos divide_pos_pos) (simp_all add: f64_of_nat_pos)
      then have "0 < f64_mul ?q (f64_of_nat 100)" unfolding f64_mul_def hundred by (intro f64_round_pos) simp
      moreover have "acked + errors \<noteq> 0" using e sum by (metis add_is_0 less_irrefl unat_0)
      ultimately show False using z by (simp add: error_pct_def)
    qed
  qed (simp add: error_pct_def f64_mul_def f64_div_def f64_of_nat_def)
qed

lemma snapshot_ordered:
  assumes "hist_law hl ok" and "ok h"
  shows "ls_p50_ms (latency_snapshot hl h) \<le> ls_p95_ms (latency_snapshot hl h)"
    "ls_p95_ms (latency_snapshot hl h) \<le> ls_p99_ms (latency_snapshot hl h)"
    "ls_p99_ms (latency_snapshot hl h) \<le> ls_max_ms (latency_snapshot hl h)"
proof -
  have le: "f64_round (50 / 100) \<le> f64_round (95 / 100)" "f64_round (95 / 100) \<le> f64_round (99 / 100)"
    by (rule f64_round_mono, simp)+
  have "p \<le> q \<Longrightarrow> hl_value_at_quantile hl p h \<le> hl_value_at_quantile hl q h"
    and "hl_value_at_quantile hl p h \<le> hl_max hl h" for p q using assms unfolding hist_law_def by blast+
  then show "ls_p50_ms (latency_snapshot hl h) \<le> ls_p95_ms (latency_snapshot hl h)"
    "ls_p95_ms (latency_snapshot hl h) \<le> ls_p99_ms (latency_snapshot hl h)"
    "ls_p99_ms (latency_snapshot hl h) \<le> ls_max_ms (latency_snapshot hl h)"
    using le unfolding latency_snapshot_def by (auto simp del: divide_numeral_1 intro!: micros_to_ms_mono)
qed

text \<open>
  The figures of the stress report.  For every histogram with the bounds of the tool the
  quantiles are in order and below the maximum, a maximum within the bounds is the value
  of the histogram in milliseconds up to half a unit of the last of 53 bits, and the error
  rate is a percentage that is 0 exactly when no produce failed; the report then says so.
\<close>

theorem stress_report_figures:
  assumes "hist_law hl ok" and "ok h" and "hl_len hl h \<noteq> 0" and "hl_max hl h \<le> 120000000"
    and "unat acked + unat errors < 2 ^ 64"
  defines "s \<equiv> latency_snapshot hl h"
  shows "ls_count s = hl_len hl h \<and> ls_p50_ms s \<le> ls_p95_ms s \<and> ls_p95_ms s \<le> ls_p99_ms s \<and> ls_p99_ms s \<le> ls_max_ms s
    \<and> \<bar>ls_max_ms s - of_nat (unat (hl_max hl h)) / 1000\<bar> \<le> of_nat (unat (hl_max hl h)) / 1000 / 2 ^ 53
    \<and> 0 \<le> error_pct acked errors \<and> error_pct acked errors \<le> 100 \<and> (error_pct acked errors = 0 \<longleftrightarrow> errors = 0)
    \<and> (errors = 0 \<longrightarrow> ''errors         : 0 (0.000%)'' \<in> set (print_stress_report run_id rps dur acked errors s path))"
proof (intro conjI impI)
  show "ls_count s = hl_len hl h" using assms(3) by (simp add: s_def latency_snapshot_def)
  show "ls_p50_ms s \<le> ls_p95_ms s" "ls_p95_ms s \<le> ls_p99_ms s" "ls_p99_ms s \<le> ls_max_ms s"
    unfolding s_def by (rule snapshot_ordered [OF assms(1,2)])+
  show "\<bar>ls_max_ms s - of_nat (unat (hl_max hl h)) / 1000\<bar> \<le> of_nat (unat (hl_max hl h)) / 1000 / 2 ^ 53"
    using micros_to_ms_exact [OF assms(4)] assms(3) by (simp add: s_def latency_snapshot_def)
  show "0 \<le> error_pct acked errors" "error_pct acked errors \<le> 100" "error_pct acked errors = 0 \<longleftrightarrow> errors = 0"
    by (rule error_pct_bounds [OF assms(5)])+
  assume e: "errors = 0"
  have replicate_two: "replicate 2 CHR ''0'' = ''00''" by (simp add: numeral_2_eq_2)
  have zero: "show_nat 0 = ''0''" by code_simp
  have "error_pct acked errors = 0" using error_pct_bounds(3) [OF assms(5)] e by blast
  then have "show_f64 3 (error_pct acked errors) = ''0.000''"
    by (simp add: show_f64_def round_even_def zero replicate_two)
  then show "''errors         : 0 (0.000%)'' \<in> set (print_stress_report run_id rps dur acked errors s path)"
    using e zero by (simp add: print_stress_report_def Let_def)
qed

text \<open>An exact histogram with the laws: the recorded values themselves.\<close>

definition exact_quantile :: "rat \<Rightarrow> u64 list \<Rightarrow> u64" where
  "exact_quantile q vs = (if vs = [] then 0 else sort vs ! min (length vs - 1) (nat \<lfloor>q * of_nat (length vs)\<rfloor>))"

definition exact_hist :: "u64 list hist_lib" where
  "exact_hist =
     \<lparr>hl_new_with_bounds = (\<lambda>_ _ _. Inr []),
      hl_record = (\<lambda>v vs. if v \<le> 120000000 then Inr (v # vs) else Inl ''value above the bound''),
      hl_len = (\<lambda>vs. of_nat (length vs)),
      hl_mean = (\<lambda>vs. f64_round (of_nat (sum_list (map unat vs)) / of_nat (length vs))),
      hl_value_at_quantile = exact_quantile,
      hl_max = (\<lambda>vs. fold max vs 0)\<rparr>"

lemma fold_max_ge: "v \<in> set vs \<or> v \<le> m \<Longrightarrow> v \<le> fold max vs (m :: u64)"
proof (induction vs arbitrary: m)
  case (Cons w vs)
  from Cons.prems have "v \<in> set vs \<or> v \<le> max w m" by (auto simp: max_def)
  then show ?case using Cons.IH by simp
qed simp

lemma exact_quantile_mono:
  assumes "p \<le> q"
  shows "exact_quantile p vs \<le> exact_quantile q vs"
proof (cases "vs = []")
  case False
  have "p * of_nat (length vs) \<le> q * of_nat (length vs)" using assms by (simp add: mult_right_mono)
  then have "nat \<lfloor>p * of_nat (length vs)\<rfloor> \<le> nat \<lfloor>q * of_nat (length vs)\<rfloor>" by (intro nat_mono floor_mono)
  moreover have "min (length vs - 1) k < length (sort vs)" for k using False by (cases vs) auto
  ultimately show ?thesis using False unfolding exact_quantile_def by (auto intro!: sorted_nth_mono min.mono)
qed (simp add: exact_quantile_def)

lemma exact_hist_law: "hist_law exact_hist (\<lambda>_. True)"
proof -
  have "exact_quantile q vs \<le> fold max vs 0" for q vs
  proof (cases "vs = []")
    case False
    then have "min (length vs - 1) (nat \<lfloor>q * of_nat (length vs)\<rfloor>) < length (sort vs)" by (cases vs) auto
    then have "exact_quantile q vs \<in> set (sort vs)" unfolding exact_quantile_def using False nth_mem [of _ "sort vs"] by presburger
    then show ?thesis by (simp add: fold_max_ge)
  qed (simp add: exact_quantile_def)
  then show ?thesis by (simp add: hist_law_def exact_hist_def exact_quantile_mono)
qed

theorem stress_report_figures_witness:
  "ls_p50_ms (latency_snapshot exact_hist [1500, 800]) \<le> ls_max_ms (latency_snapshot exact_hist [1500, 800])
   \<and> error_pct 2 1 \<le> 100 \<and> error_pct 2 1 \<noteq> 0"
proof -
  have "hl_len exact_hist [1500, 800] \<noteq> 0" "hl_max exact_hist [1500, 800] \<le> 120000000" by (simp_all add: exact_hist_def)
  from stress_report_figures [OF exact_hist_law TrueI this, of 2 1 "''r''" 10 1000000000 "''l''"]
  show ?thesis by (auto intro: order_trans)
qed

end
