(* ===== verification/Stress_Window.thy ===== *)
theory Stress_Window
  imports Stress_Report "HOL-Library.Multiset"
begin

text \<open>
  A window of the load generator with all its workers (\<open>run_window\<close> of \<open>stress.rs\<close>): the ticker
  sends sequence numbers into a bounded channel, the workers take them one at a time and
  share the counters and the ledger.  The tasks interleave as the steps of a relation; the
  other end of each worker's connection is a parameter, and so are the histogram and the
  time that each produce takes.
\<close>

section \<open>State\<close>

record 'h stress_shared =
  sh_acked :: u64
  sh_errors :: u64
  sh_ledger :: ledger
  sh_hist :: 'h

datatype worker_phase =
    Waiting
  | Producing u64
  | Finished "string option"

record stress_worker =
  sw_phase :: worker_phase
  sw_seq :: u64
  sw_conn :: conn

record 'h window =
  w_pending :: "u64 list"
  w_channel :: "u64 list"
  w_workers :: "stress_worker list"
  w_shared :: "'h stress_shared"

text \<open>The task of a worker ends at once when its session cannot be opened.\<close>

definition session_connect :: "peer io_result \<Rightarrow> stress_worker" where
  "session_connect r =
     \<lparr>sw_phase = (case r of Inl err \<Rightarrow> Finished (Some (error_text err)) | Inr _ \<Rightarrow> Waiting), sw_seq = 0, sw_conn = conn_new\<rparr>"

definition window_start :: "(nat \<Rightarrow> peer io_result) \<Rightarrow> stress_config \<Rightarrow> u64 list \<Rightarrow> 'h stress_shared \<Rightarrow> 'h window" where
  "window_start dial cfg sqs sh =
     \<lparr>w_pending = sqs, w_channel = [], w_workers = map (\<lambda>i. session_connect (dial i)) [0..<sc_workers cfg], w_shared = sh\<rparr>"

text \<open>The end of a produce call of worker \<open>i\<close> for message \<open>g\<close>, which took \<open>lat i g\<close> microseconds.\<close>

definition latency_micros :: "nat \<Rightarrow> u64" where
  "latency_micros us = of_nat (min us (2 ^ 64 - 1))"

definition produce_done ::
  "(nat \<Rightarrow> peer) \<Rightarrow> stress_config \<Rightarrow> 'h hist_lib \<Rightarrow> (nat \<Rightarrow> u64 \<Rightarrow> nat) \<Rightarrow> nat \<Rightarrow> u64
    \<Rightarrow> stress_worker \<times> 'h stress_shared \<Rightarrow> stress_worker \<times> 'h stress_shared" where
  "produce_done prs cfg hl lat i g s =
     (let (wk, sh) = s
      in case session_produce (prs i) (sc_topic_id cfg) (sc_partition_id cfg) (sc_producer_id cfg + of_nat i) (sw_seq wk)
                (encode_payload (sc_run_id cfg) g (sc_payload_bytes cfg)) (sw_conn wk) of
           (Inr _, c) \<Rightarrow>
             let sh1 = sh\<lparr>sh_acked := sh_acked sh + 1, sh_ledger := ledger_record g (sh_ledger sh)\<rparr>
             in (case hl_record hl (latency_micros (lat i g)) (sh_hist sh1) of
                   Inr h \<Rightarrow> (\<lparr>sw_phase = Waiting, sw_seq = sw_seq wk + 1, sw_conn = c\<rparr>, sh1\<lparr>sh_hist := h\<rparr>)
                 | Inl err \<Rightarrow> (\<lparr>sw_phase = Finished (Some err), sw_seq = sw_seq wk + 1, sw_conn = c\<rparr>, sh1))
         | (Inl _, c) \<Rightarrow>
             (wk\<lparr>sw_phase := Waiting, sw_conn := c\<rparr>, sh\<lparr>sh_errors := sh_errors sh + 1\<rparr>))"

inductive window_step ::
  "(nat \<Rightarrow> peer) \<Rightarrow> stress_config \<Rightarrow> 'h hist_lib \<Rightarrow> (nat \<Rightarrow> u64 \<Rightarrow> nat) \<Rightarrow> 'h window \<Rightarrow> 'h window \<Rightarrow> bool"
  for prs :: "nat \<Rightarrow> peer" and cfg :: stress_config and hl :: "'h hist_lib" and lat :: "nat \<Rightarrow> u64 \<Rightarrow> nat" where
  send: "w_pending w = g # gs \<Longrightarrow> length (w_channel w) < sc_workers cfg * 4 \<Longrightarrow>
    window_step prs cfg hl lat w (w\<lparr>w_pending := gs, w_channel := w_channel w @ [g]\<rparr>)"
| recv: "i < length (w_workers w) \<Longrightarrow> sw_phase (w_workers w ! i) = Waiting \<Longrightarrow> w_channel w = g # gs \<Longrightarrow>
    window_step prs cfg hl lat w
      (w\<lparr>w_channel := gs, w_workers := (w_workers w)[i := (w_workers w ! i)\<lparr>sw_phase := Producing g\<rparr>]\<rparr>)"
| produced: "i < length (w_workers w) \<Longrightarrow> sw_phase (w_workers w ! i) = Producing g \<Longrightarrow>
    produce_done prs cfg hl lat i g (w_workers w ! i, w_shared w) = (wk, sh) \<Longrightarrow>
    window_step prs cfg hl lat w (w\<lparr>w_workers := (w_workers w)[i := wk], w_shared := sh\<rparr>)"
| closed: "i < length (w_workers w) \<Longrightarrow> sw_phase (w_workers w ! i) = Waiting \<Longrightarrow> w_channel w = [] \<Longrightarrow> w_pending w = [] \<Longrightarrow>
    window_step prs cfg hl lat w
      (w\<lparr>w_workers := (w_workers w)[i := (w_workers w ! i)\<lparr>sw_phase := Finished None\<rparr>]\<rparr>)"

text \<open>The window is over when every number was sent and every task has ended.\<close>

fun finished :: "worker_phase \<Rightarrow> bool" where
  "finished (Finished _) = True"
| "finished _ = False"

definition window_over :: "'h window \<Rightarrow> bool" where
  "window_over w \<longleftrightarrow> w_pending w = [] \<and> (\<forall>wk\<in>set (w_workers w). finished (sw_phase wk))"

text \<open>What the joins of the tasks return: the first error, in the order of the workers.\<close>

fun window_result :: "stress_worker list \<Rightarrow> string + unit" where
  "window_result [] = Inr ()"
| "window_result (wk # wks) = (case sw_phase wk of Finished (Some err) \<Rightarrow> Inl err | _ \<Rightarrow> window_result wks)"

text \<open>
  \<open>run_stress\<close>: the topic and the ledger, a warm-up whose counters are forgotten, and the
  measured window.  Each window starts its numbers and the sequences of its workers at 0.
\<close>

definition run_window ::
  "(nat \<Rightarrow> peer io_result) \<Rightarrow> stress_config \<Rightarrow> 'h hist_lib \<Rightarrow> (nat \<Rightarrow> u64 \<Rightarrow> nat) \<Rightarrow> u64 \<Rightarrow> 'h stress_shared \<Rightarrow> 'h window \<Rightarrow> bool" where
  "run_window dial cfg hl lat secs sh w \<longleftrightarrow>
     (\<exists>sqs. window_seqs (tick_interval (sc_target_rps cfg)) (unat secs * 1000000000) 0 0 = Some sqs
       \<and> (window_step (\<lambda>i. projr (dial i)) cfg hl lat)\<^sup>*\<^sup>* (window_start dial cfg sqs sh) w \<and> window_over w)"

record stress_report =
  sr_run_id :: string
  sr_acked :: u64
  sr_errors :: u64
  sr_latency :: LatencySnapshot
  sr_ledger_path :: string

text \<open>The counters, the ledger and the histogram before the first window.\<close>

definition stress_shared_new :: "peer \<Rightarrow> 'h hist_lib \<Rightarrow> stress_config \<Rightarrow> string + 'h stress_shared" where
  "stress_shared_new pr hl cfg =
     res_bind (stress_prepare pr cfg) (\<lambda>l.
     res_bind (hl_new_with_bounds hl 1 120000000 3) (\<lambda>h.
       Inr \<lparr>sh_acked = 0, sh_errors = 0, sh_ledger = l, sh_hist = h\<rparr>))"

text \<open>After the warm-up the ledger stays and the counters and the histogram start again.\<close>

inductive warmed_up ::
  "peer \<Rightarrow> (nat \<Rightarrow> peer io_result) \<Rightarrow> 'h hist_lib \<Rightarrow> (nat \<Rightarrow> u64 \<Rightarrow> nat) \<Rightarrow> stress_config \<Rightarrow> string + 'h stress_shared \<Rightarrow> bool"
  for pr :: peer and dial :: "nat \<Rightarrow> peer io_result" and hl :: "'h hist_lib" and lat :: "nat \<Rightarrow> u64 \<Rightarrow> nat" and cfg :: stress_config where
  not_prepared: "stress_shared_new pr hl cfg = Inl err \<Longrightarrow> warmed_up pr dial hl lat cfg (Inl err)"
| no_warmup: "stress_shared_new pr hl cfg = Inr sh \<Longrightarrow> sc_warmup cfg = 0 \<Longrightarrow> warmed_up pr dial hl lat cfg (Inr sh)"
| warmup_failed: "stress_shared_new pr hl cfg = Inr sh \<Longrightarrow> 0 < sc_warmup cfg \<Longrightarrow>
    run_window dial cfg hl lat (sc_warmup cfg) sh w \<Longrightarrow> window_result (w_workers w) = Inl err \<Longrightarrow>
    warmed_up pr dial hl lat cfg (Inl err)"
| warmup: "stress_shared_new pr hl cfg = Inr sh \<Longrightarrow> 0 < sc_warmup cfg \<Longrightarrow>
    run_window dial cfg hl lat (sc_warmup cfg) sh w \<Longrightarrow> window_result (w_workers w) = Inr () \<Longrightarrow>
    warmed_up pr dial hl lat cfg
      (res_bind (hl_new_with_bounds hl 1 120000000 3) (\<lambda>h.
        Inr ((w_shared w)\<lparr>sh_acked := 0, sh_errors := 0, sh_hist := h\<rparr>)))"

text \<open>The measured window, the snapshot and the printed report; \<open>dur\<close> is the measured time.\<close>

definition stress_ledger_path :: "string \<Rightarrow> stress_config \<Rightarrow> string" where
  "stress_ledger_path tmp cfg = (case sc_ledger_path cfg of Some p \<Rightarrow> p | None \<Rightarrow> default_ledger_path tmp (sc_run_id cfg))"

definition stress_outcome ::
  "string \<Rightarrow> 'h hist_lib \<Rightarrow> nat \<Rightarrow> stress_config \<Rightarrow> 'h stress_shared \<Rightarrow> stress_report \<times> string list" where
  "stress_outcome tmp hl dur cfg sh =
     (let path = stress_ledger_path tmp cfg; latency = latency_snapshot hl (sh_hist sh)
      in (\<lparr>sr_run_id = sc_run_id cfg, sr_acked = sh_acked sh, sr_errors = sh_errors sh, sr_latency = latency, sr_ledger_path = path\<rparr>,
          print_stress_report (sc_run_id cfg) (sc_target_rps cfg) dur (sh_acked sh) (sh_errors sh) latency path))"

inductive run_stress ::
  "peer \<Rightarrow> (nat \<Rightarrow> nat \<Rightarrow> peer io_result) \<Rightarrow> string \<Rightarrow> 'h hist_lib \<Rightarrow> (nat \<Rightarrow> nat \<Rightarrow> u64 \<Rightarrow> nat) \<Rightarrow> nat \<Rightarrow> stress_config
    \<Rightarrow> string + (stress_report \<times> string list) \<times> ledger \<Rightarrow> bool"
  for pr :: peer and dial :: "nat \<Rightarrow> nat \<Rightarrow> peer io_result" and tmp :: string and hl :: "'h hist_lib"
    and lat :: "nat \<Rightarrow> nat \<Rightarrow> u64 \<Rightarrow> nat" and dur :: nat and cfg :: stress_config where
  not_measured: "warmed_up pr (dial 0) hl (lat 0) cfg (Inl err) \<Longrightarrow> run_stress pr dial tmp hl lat dur cfg (Inl err)"
| measure_failed: "warmed_up pr (dial 0) hl (lat 0) cfg (Inr sh) \<Longrightarrow> run_window (dial 1) cfg hl (lat 1) (sc_duration cfg) sh w \<Longrightarrow>
    window_result (w_workers w) = Inl err \<Longrightarrow> run_stress pr dial tmp hl lat dur cfg (Inl err)"
| measured: "warmed_up pr (dial 0) hl (lat 0) cfg (Inr sh) \<Longrightarrow> run_window (dial 1) cfg hl (lat 1) (sc_duration cfg) sh w \<Longrightarrow>
    window_result (w_workers w) = Inr () \<Longrightarrow>
    run_stress pr dial tmp hl lat dur cfg (Inr (stress_outcome tmp hl dur cfg (w_shared w), sh_ledger (w_shared w)))"

inductive_cases warmed_up_InrE: "warmed_up pr dial hl lat cfg (Inr sh)"
inductive_cases run_stress_InrE: "run_stress pr dial tmp hl lat dur cfg (Inr r)"

section \<open>What becomes of the numbers\<close>

fun phase_numbers :: "worker_phase \<Rightarrow> u64 multiset" where
  "phase_numbers (Producing g) = {#g#}"
| "phase_numbers _ = {#}"

definition in_work :: "stress_worker list \<Rightarrow> u64 multiset" where
  "in_work wks = (\<Sum>wk\<leftarrow>wks. phase_numbers (sw_phase wk))"

lemma in_work_none: "\<forall>wk\<in>set wks. phase_numbers (sw_phase wk) = {#} \<Longrightarrow> in_work wks = {#}"
  by (induction wks) (simp_all add: in_work_def)

lemma in_work_update:
  assumes "i < length wks"
  shows "in_work (wks[i := wk]) + phase_numbers (sw_phase (wks ! i)) = in_work wks + phase_numbers (sw_phase wk)"
proof -
  have u: "wks[i := wk] = take i wks @ wk # drop (Suc i) wks" using assms by (simp add: upd_conv_take_nth_drop)
  have o: "in_work wks = in_work (take i wks @ wks ! i # drop (Suc i) wks)" using assms by (simp add: id_take_nth_drop [symmetric])
  show ?thesis unfolding u o by (simp add: in_work_def add_ac)
qed

definition counted :: "u64 list \<Rightarrow> 'h stress_shared \<Rightarrow> 'h window \<Rightarrow> bool" where
  "counted sqs sh0 w \<longleftrightarrow> (\<exists>acks errs.
     mset sqs = acks + errs + mset (w_pending w) + mset (w_channel w) + in_work (w_workers w)
     \<and> sh_acked (w_shared w) = sh_acked sh0 + of_nat (size acks) \<and> sh_errors (w_shared w) = sh_errors sh0 + of_nat (size errs)
     \<and> set (lg_seen (sh_ledger (w_shared w))) = set (lg_seen (sh_ledger sh0)) \<union> set_mset acks)"

lemma countedI:
  "mset sqs = acks + errs + mset (w_pending w) + mset (w_channel w) + in_work (w_workers w) \<Longrightarrow>
   sh_acked (w_shared w) = sh_acked sh0 + of_nat (size acks) \<Longrightarrow> sh_errors (w_shared w) = sh_errors sh0 + of_nat (size errs) \<Longrightarrow>
   set (lg_seen (sh_ledger (w_shared w))) = set (lg_seen (sh_ledger sh0)) \<union> set_mset acks \<Longrightarrow> counted sqs sh0 w"
  unfolding counted_def by blast

definition closed_empty :: "'h window \<Rightarrow> bool" where
  "closed_empty w \<longleftrightarrow> (\<forall>wk\<in>set (w_workers w). sw_phase wk = Finished None \<longrightarrow> w_pending w = [] \<and> w_channel w = [])"

lemma ledger_record_seen [simp]: "set (lg_seen (ledger_record g l)) = insert g (set (lg_seen l))"
  by (auto simp: ledger_record_def set_insort_key)

lemma produce_done_cases:
  assumes "produce_done prs cfg hl lat i g (wk, sh) = (wk', sh')"
  obtains (acked) h where "sh' = sh\<lparr>sh_acked := sh_acked sh + 1, sh_ledger := ledger_record g (sh_ledger sh), sh_hist := h\<rparr>"
      "phase_numbers (sw_phase wk') = {#}" "sw_phase wk' \<noteq> Finished None"
      "hl_record hl (latency_micros (lat i g)) (sh_hist sh) = Inr h \<and> sw_phase wk' = Waiting
       \<or> (\<exists>err. hl_record hl (latency_micros (lat i g)) (sh_hist sh) = Inl err)"
  | (failed) "sh' = sh\<lparr>sh_errors := sh_errors sh + 1\<rparr>" "sw_phase wk' = Waiting"
proof -
  obtain r c where p: "session_produce (prs i) (sc_topic_id cfg) (sc_partition_id cfg) (sc_producer_id cfg + of_nat i) (sw_seq wk)
      (encode_payload (sc_run_id cfg) g (sc_payload_bytes cfg)) (sw_conn wk) = (r, c)" by fastforce
  show thesis
  proof (cases r)
    case (Inl err)
    then show ?thesis using p assms failed by (auto simp: produce_done_def)
  next
    case (Inr x)
    show ?thesis
    proof (cases "hl_record hl (latency_micros (lat i g)) (sh_hist sh)")
      case (Inl err)
      have "sh' = sh\<lparr>sh_acked := sh_acked sh + 1, sh_ledger := ledger_record g (sh_ledger sh), sh_hist := sh_hist sh\<rparr>"
        using p assms Inl \<open>r = Inr x\<close> by (cases sh) (auto simp: produce_done_def)
      then show ?thesis by (rule acked) (use p assms Inl \<open>r = Inr x\<close> in \<open>auto simp: produce_done_def\<close>)
    next
      case (Inr h)
      then show ?thesis using p assms \<open>r = Inr x\<close> by (intro acked [of h]) (auto simp: produce_done_def)
    qed
  qed
qed

text \<open>Latencies of at most two minutes fit the histogram.\<close>

definition timely :: "(nat \<Rightarrow> u64 \<Rightarrow> nat) \<Rightarrow> bool" where
  "timely lat \<longleftrightarrow> (\<forall>i g. lat i g \<le> 120000000)"

lemma timely_record:
  assumes "hist_law hl ok" and "ok h" and "timely lat"
  obtains h' where "hl_record hl (latency_micros (lat i g)) h = Inr h'" "ok h'" "hl_len hl h' = hl_len hl h + 1"
proof -
  have "lat i g \<le> 120000000" using assms(3) by (simp add: timely_def)
  then have "latency_micros (lat i g) \<le> 120000000" by (simp add: latency_micros_def word_le_nat_alt unat_of_nat)
  then show thesis using assms(1,2) that unfolding hist_law_def by blast
qed

definition hist_counted :: "'h hist_lib \<Rightarrow> ('h \<Rightarrow> bool) \<Rightarrow> 'h stress_shared \<Rightarrow> 'h window \<Rightarrow> bool" where
  "hist_counted hl ok sh0 w \<longleftrightarrow> ok (sh_hist (w_shared w))
     \<and> hl_len hl (sh_hist (w_shared w)) + sh_acked sh0 = hl_len hl (sh_hist sh0) + sh_acked (w_shared w)"

lemma window_step_hist:
  assumes "window_step prs cfg hl lat w w'" and "hist_law hl ok" and "timely lat" and "hist_counted hl ok sh0 w"
  shows "hist_counted hl ok sh0 w'"
  using assms(1)
proof cases
  case (produced i g wk sh)
  obtain h' where h': "hl_record hl (latency_micros (lat i g)) (sh_hist (w_shared w)) = Inr h'" "ok h'"
    "hl_len hl h' = hl_len hl (sh_hist (w_shared w)) + 1"
    using timely_record [OF assms(2) _ assms(3)] assms(4) unfolding hist_counted_def by metis
  from produced(4) show ?thesis
  proof (cases rule: produce_done_cases)
    case (acked h)
    then show ?thesis using h' assms(4) produced(1) by (simp add: hist_counted_def algebra_simps)
  next
    case failed
    then show ?thesis using assms(4) produced(1) by (simp add: hist_counted_def)
  qed
qed (use assms(4) in \<open>simp_all add: hist_counted_def\<close>)

lemma window_step_counted:
  assumes "window_step prs cfg hl lat w w'" and "counted sqs sh0 w"
  shows "counted sqs sh0 w'"
proof -
  obtain acks errs where c: "mset sqs = acks + errs + mset (w_pending w) + mset (w_channel w) + in_work (w_workers w)"
    "sh_acked (w_shared w) = sh_acked sh0 + of_nat (size acks)" "sh_errors (w_shared w) = sh_errors sh0 + of_nat (size errs)"
    "set (lg_seen (sh_ledger (w_shared w))) = set (lg_seen (sh_ledger sh0)) \<union> set_mset acks"
    using assms(2) by (auto simp: counted_def)
  from assms(1) show ?thesis
  proof cases
    case (send g gs)
    then show ?thesis using c by (intro countedI [of sqs acks errs]) simp_all
  next
    case (recv i g gs)
    have "in_work (w_workers w') = in_work (w_workers w) + {#g#}"
      using in_work_update [OF recv(2), of "(w_workers w ! i)\<lparr>sw_phase := Producing g\<rparr>"] recv by simp
    then show ?thesis using c recv(1,4) by (intro countedI [of sqs acks errs]) simp_all
  next
    case (produced i g wk sh)
    from produced(4) show ?thesis
    proof (cases rule: produce_done_cases)
      case (acked h)
      have "in_work (w_workers w') + {#g#} = in_work (w_workers w)"
        using in_work_update [OF produced(2), of wk] produced(1,3) acked(2) by simp
      then have "in_work (w_workers w) = add_mset g (in_work (w_workers w'))" by simp
      then show ?thesis using c produced(1) acked(1) by (intro countedI [of sqs "add_mset g acks" errs]) simp_all
    next
      case failed
      have "in_work (w_workers w') + {#g#} = in_work (w_workers w)"
        using in_work_update [OF produced(2), of wk] produced(1,3) failed(2) by simp
      then have "in_work (w_workers w) = add_mset g (in_work (w_workers w'))" by simp
      then show ?thesis using c produced(1) failed(1) by (intro countedI [of sqs acks "add_mset g errs"]) simp_all
    qed
  next
    case (closed i)
    have "in_work (w_workers w') = in_work (w_workers w)"
      using in_work_update [OF closed(2), of "(w_workers w ! i)\<lparr>sw_phase := Finished None\<rparr>"] closed by simp
    then show ?thesis using c closed(1) by (intro countedI [of sqs acks errs]) simp_all
  qed
qed

lemma window_step_closed:
  assumes "window_step prs cfg hl lat w w'" and "closed_empty w"
  shows "closed_empty w'"
  using assms(1)
proof cases
  case (send g gs)
  then show ?thesis using assms(2) by (auto simp: closed_empty_def)
next
  case (recv i g gs)
  then show ?thesis using assms(2) by (auto simp: closed_empty_def dest!: set_update_subset_insert [THEN subsetD])
next
  case (produced i g wk sh)
  from produced(4) have "sw_phase wk \<noteq> Finished None" by (cases rule: produce_done_cases) auto
  then show ?thesis using assms(2) produced(1) by (auto simp: closed_empty_def dest!: set_update_subset_insert [THEN subsetD])
next
  case (closed i)
  then show ?thesis by (simp add: closed_empty_def)
qed

lemma window_start_counted: "counted sqs sh (window_start dial cfg sqs sh)" "closed_empty (window_start dial cfg sqs sh)"
proof -
  have "phase_numbers (sw_phase (session_connect r)) = {#}" "sw_phase (session_connect r) \<noteq> Finished None" for r
    by (simp_all add: session_connect_def split: sum.split)
  then have "in_work (map (\<lambda>i. session_connect (dial i)) ks) = {#}" for ks by (intro in_work_none) simp
  then show "counted sqs sh (window_start dial cfg sqs sh)" by (simp add: counted_def window_start_def)
  show "closed_empty (window_start dial cfg sqs sh)"
    using \<open>\<And>r. sw_phase (session_connect r) \<noteq> Finished None\<close> by (simp add: closed_empty_def window_start_def)
qed

lemma window_reach_counted:
  assumes "(window_step prs cfg hl lat)\<^sup>*\<^sup>* (window_start dial cfg sqs sh) w"
  shows "counted sqs sh w \<and> closed_empty w"
  using assms by (induction rule: rtranclp_induct) (auto intro: window_start_counted window_step_counted window_step_closed)

section \<open>The window ends\<close>

fun phase_weight :: "worker_phase \<Rightarrow> nat" where
  "phase_weight Waiting = 1"
| "phase_weight (Producing _) = 2"
| "phase_weight (Finished _) = 0"

definition window_weight :: "'h window \<Rightarrow> nat" where
  "window_weight w = 4 * length (w_pending w) + 3 * length (w_channel w) + (\<Sum>wk\<leftarrow>w_workers w. phase_weight (sw_phase wk))"

lemma weight_update:
  fixes f :: "'a \<Rightarrow> nat"
  assumes "i < length xs"
  shows "(\<Sum>x\<leftarrow>xs[i := y]. f x) + f (xs ! i) = (\<Sum>x\<leftarrow>xs. f x) + f y"
proof -
  have u: "xs[i := y] = take i xs @ y # drop (Suc i) xs" using assms by (simp add: upd_conv_take_nth_drop)
  have o: "sum_list (map f xs) = sum_list (map f (take i xs @ xs ! i # drop (Suc i) xs))"
    using assms by (simp add: id_take_nth_drop [symmetric])
  show ?thesis unfolding u o by simp
qed

lemma window_step_weight:
  assumes "window_step prs cfg hl lat w w'"
  shows "window_weight w' < window_weight w"
  using assms
proof cases
  case (send g gs)
  then show ?thesis by (simp add: window_weight_def)
next
  case (recv i g gs)
  from weight_update [OF recv(2), of "\<lambda>wk. phase_weight (sw_phase wk)" "(w_workers w ! i)\<lparr>sw_phase := Producing g\<rparr>"]
  show ?thesis using recv by (simp add: window_weight_def)
next
  case (produced i g wk sh)
  from produced(4) have "phase_weight (sw_phase wk) \<le> 1"
    by (cases rule: produce_done_cases) (cases "sw_phase wk", auto)
  with weight_update [OF produced(2), of "\<lambda>wk. phase_weight (sw_phase wk)" wk]
  show ?thesis using produced by (simp add: window_weight_def)
next
  case (closed i)
  from weight_update [OF closed(2), of "\<lambda>wk. phase_weight (sw_phase wk)" "(w_workers w ! i)\<lparr>sw_phase := Finished None\<rparr>"]
  show ?thesis using closed by (simp add: window_weight_def)
qed

text \<open>A worker that connected and whose latencies are recorded does not fail.\<close>

definition some_alive :: "stress_config \<Rightarrow> 'h window \<Rightarrow> bool" where
  "some_alive cfg w \<longleftrightarrow> length (w_workers w) = sc_workers cfg
     \<and> (\<exists>i<length (w_workers w). \<forall>err. sw_phase (w_workers w ! i) \<noteq> Finished (Some err))"

lemma window_step_alive:
  assumes "window_step prs cfg hl lat w w'" and "some_alive cfg w" and law: "hist_law hl ok" "ok (sh_hist (w_shared w))" "timely lat"
  shows "some_alive cfg w'"
proof -
  obtain k where k: "k < length (w_workers w)" "\<And>err. sw_phase (w_workers w ! k) \<noteq> Finished (Some err)"
    and len: "length (w_workers w) = sc_workers cfg" using assms(2) by (auto simp: some_alive_def)
  from assms(1) show ?thesis
  proof cases
    case (send g gs)
    then show ?thesis using k len by (auto simp: some_alive_def)
  next
    case (recv i g gs)
    then show ?thesis using k len by (auto simp: some_alive_def nth_list_update intro!: exI [of _ k])
  next
    case (produced i g wk sh)
    obtain h' where "hl_record hl (latency_micros (lat i g)) (sh_hist (w_shared w)) = Inr h'" by (rule timely_record [OF law])
    with produced(4) have "sw_phase wk = Waiting" by (cases rule: produce_done_cases) auto
    then show ?thesis using produced k len by (auto simp: some_alive_def nth_list_update intro!: exI [of _ k])
  next
    case (closed i)
    then show ?thesis using k len by (auto simp: some_alive_def nth_list_update intro!: exI [of _ k])
  qed
qed

lemma window_progress:
  assumes alive: "some_alive cfg w" and closed: "closed_empty w" and stuck: "\<not> (\<exists>w'. window_step prs cfg hl lat w w')"
  shows "window_over w"
proof -
  have workers: "0 < sc_workers cfg" using alive by (auto simp: some_alive_def)
  have fin: "finished (sw_phase (w_workers w ! i))" if "i < length (w_workers w)" for i
  proof (cases "sw_phase (w_workers w ! i)")
    case Waiting
    show ?thesis
    proof (cases "w_channel w")
      case Nil
      then show ?thesis
        using stuck window_step.closed [OF that Waiting Nil, of prs cfg hl lat] window_step.send [of w _ _ cfg prs hl lat] workers by (cases "w_pending w") auto
    next
      case (Cons g gs)
      then show ?thesis using stuck window_step.recv [OF that Waiting Cons] by blast
    qed
  next
    case (Producing g)
    obtain wk sh where "produce_done prs cfg hl lat i g (w_workers w ! i, w_shared w) = (wk, sh)" by fastforce
    then show ?thesis using stuck window_step.produced [OF that Producing] by blast
  qed simp
  obtain k where k: "k < length (w_workers w)" "\<And>err. sw_phase (w_workers w ! k) \<noteq> Finished (Some err)"
    using alive by (auto simp: some_alive_def)
  have "sw_phase (w_workers w ! k) = Finished None"
    using fin [OF k(1)] k(2) by (metis finished.elims(2) not_None_eq)
  then have "w_pending w = []" using closed k(1) by (auto simp: closed_empty_def)
  with fin show ?thesis by (auto simp: window_over_def in_set_conv_nth)
qed

lemma window_never_runs_forever: "\<not> (\<exists>f. \<forall>n. window_step prs cfg hl lat (f n) (f (Suc n)))"
proof
  assume "\<exists>f. \<forall>n. window_step prs cfg hl lat (f n) (f (Suc n))"
  then obtain f where "\<And>n. window_step prs cfg hl lat (f n) (f (Suc n))" by blast
  then have "\<And>n. (f (Suc n), f n) \<in> measure window_weight" unfolding in_measure by (rule window_step_weight)
  then show False using wf_measure wf_iff_no_infinite_down_chain by blast
qed

lemma window_start_alive: "i < sc_workers cfg \<Longrightarrow> dial i = Inr pr \<Longrightarrow> some_alive cfg (window_start dial cfg sqs sh)"
  by (auto simp: some_alive_def window_start_def session_connect_def intro!: exI [of _ i])

lemma window_end_accounts:
  assumes over: "window_over w" and inv: "counted sqs sh w" "closed_empty w"
    and k: "k < length (w_workers w)" "\<And>err. sw_phase (w_workers w ! k) \<noteq> Finished (Some err)"
  shows "\<exists>acks errs. mset sqs = acks + errs
    \<and> sh_acked (w_shared w) = sh_acked sh + of_nat (size acks) \<and> sh_errors (w_shared w) = sh_errors sh + of_nat (size errs)
    \<and> set (lg_seen (sh_ledger (w_shared w))) = set (lg_seen (sh_ledger sh)) \<union> set_mset acks"
proof -
  have "phase_numbers (sw_phase wk) = {#}" if "wk \<in> set (w_workers w)" for wk
    using over that by (cases "sw_phase wk") (auto simp: window_over_def)
  then have none: "in_work (w_workers w) = {#}" by (intro in_work_none) blast
  have "finished (sw_phase (w_workers w ! k))" using over k(1) by (simp add: window_over_def)
  then have "sw_phase (w_workers w ! k) = Finished None" using k(2) by (metis finished.elims(2) not_None_eq)
  then have "w_pending w = [] \<and> w_channel w = []" using inv(2) k(1) by (auto simp: closed_empty_def)
  with inv(1) none show ?thesis by (auto simp: counted_def)
qed

lemma window_reach_hist:
  assumes "hist_law hl ok" and "ok (sh_hist sh)" and "timely lat"
    and "(window_step prs cfg hl lat)\<^sup>*\<^sup>* (window_start dial cfg sqs sh) w"
  shows "hist_counted hl ok sh w"
  using assms(4)
proof (induction rule: rtranclp_induct)
  case base
  show ?case using assms(2) by (simp add: hist_counted_def window_start_def)
next
  case (step w w')
  show ?case by (rule window_step_hist [OF step(2) assms(1,3) step(3)])
qed

lemma window_reach_alive:
  assumes "hist_law hl ok" and "ok (sh_hist sh)" and "timely lat" and "i < sc_workers cfg" and "dial i = Inr pr"
    and "(window_step prs cfg hl lat)\<^sup>*\<^sup>* (window_start dial cfg sqs sh) w"
  shows "some_alive cfg w"
  using assms(6)
proof (induction rule: rtranclp_induct)
  case base
  show ?case by (rule window_start_alive [where dial = dial, OF assms(4,5)])
next
  case (step w w')
  have "ok (sh_hist (w_shared w))" using window_reach_hist [OF assms(1-3) step(1)] by (simp add: hist_counted_def)
  then show ?case by (rule window_step_alive [OF step(2,3) assms(1) _ assms(3)])
qed

text \<open>
  C39: A window with at least one connected worker and produces of at most two minutes ends and
  accounts for every number.  No schedule of the tasks runs forever, and one that cannot go
  on has reached the end of the window.  Then the numbers that were handed out are exactly
  those acknowledged and those counted as errors, the ledger has gained the acknowledged
  ones and no others, and the histogram has one more latency for each of them.
\<close>

theorem window_accounts:
  assumes "hist_law hl ok" and "ok (sh_hist sh)" and "timely lat" and "i < sc_workers cfg" and "dial i = Inr pr"
  shows "\<not> (\<exists>f. f 0 = window_start dial cfg sqs sh \<and> (\<forall>n. window_step prs cfg hl lat (f n) (f (Suc n))))
    \<and> (\<forall>w. (window_step prs cfg hl lat)\<^sup>*\<^sup>* (window_start dial cfg sqs sh) w \<longrightarrow> \<not> (\<exists>w'. window_step prs cfg hl lat w w') \<longrightarrow>
      window_over w \<and> (\<exists>acks errs. mset sqs = acks + errs
        \<and> sh_acked (w_shared w) = sh_acked sh + of_nat (size acks) \<and> sh_errors (w_shared w) = sh_errors sh + of_nat (size errs)
        \<and> set (lg_seen (sh_ledger (w_shared w))) = set (lg_seen (sh_ledger sh)) \<union> set_mset acks)
      \<and> hl_len hl (sh_hist (w_shared w)) + sh_acked sh = hl_len hl (sh_hist sh) + sh_acked (w_shared w))"
proof (intro conjI allI impI)
  show "\<not> (\<exists>f. f 0 = window_start dial cfg sqs sh \<and> (\<forall>n. window_step prs cfg hl lat (f n) (f (Suc n))))"
    using window_never_runs_forever by blast
  fix w
  assume reach: "(window_step prs cfg hl lat)\<^sup>*\<^sup>* (window_start dial cfg sqs sh) w"
    and stuck: "\<not> (\<exists>w'. window_step prs cfg hl lat w w')"
  have inv: "counted sqs sh w" "closed_empty w" using window_reach_counted [OF reach] by blast+
  have alive: "some_alive cfg w" by (rule window_reach_alive [where dial = dial, OF assms reach])
  show over: "window_over w" by (rule window_progress [OF alive inv(2) stuck])
  show "\<exists>acks errs. mset sqs = acks + errs
        \<and> sh_acked (w_shared w) = sh_acked sh + of_nat (size acks) \<and> sh_errors (w_shared w) = sh_errors sh + of_nat (size errs)
        \<and> set (lg_seen (sh_ledger (w_shared w))) = set (lg_seen (sh_ledger sh)) \<union> set_mset acks"
    using window_end_accounts [OF over inv] alive unfolding some_alive_def by blast
  show "hl_len hl (sh_hist (w_shared w)) + sh_acked sh = hl_len hl (sh_hist sh) + sh_acked (w_shared w)"
    using window_reach_hist [OF assms(1-3) reach] by (simp add: hist_counted_def)
qed

lemma window_reaches_end: "\<exists>w'. (window_step prs cfg hl lat)\<^sup>*\<^sup>* w w' \<and> \<not> (\<exists>w''. window_step prs cfg hl lat w' w'')"
proof (induction "window_weight w" arbitrary: w rule: less_induct)
  case less
  show ?case
  proof (cases "\<exists>w''. window_step prs cfg hl lat w w''")
    case True
    then obtain w1 where s: "window_step prs cfg hl lat w w1" by blast
    from less [OF window_step_weight [OF s]] show ?thesis using s by (meson converse_rtranclp_into_rtranclp)
  qed blast
qed

theorem window_accounts_witness:
  "\<exists>w acks errs. (window_step (\<lambda>_. one_record_peer \<lparr>rec_offset = 0, rec_payload = []\<rparr>) sample_stress exact_hist (\<lambda>_ _. 250))\<^sup>*\<^sup>*
      (window_start (\<lambda>_. Inr (one_record_peer \<lparr>rec_offset = 0, rec_payload = []\<rparr>)) sample_stress [0, 1, 2]
        \<lparr>sh_acked = 0, sh_errors = 0, sh_ledger = ledger_open, sh_hist = []\<rparr>) w
    \<and> window_over w \<and> mset [0, 1, 2 :: u64] = acks + errs \<and> sh_acked (w_shared w) = of_nat (size acks)
    \<and> hl_len exact_hist (sh_hist (w_shared w)) = of_nat (size acks)"
proof -
  let ?pr = "one_record_peer \<lparr>rec_offset = 0, rec_payload = []\<rparr>"
  let ?sh = "\<lparr>sh_acked = 0, sh_errors = 0, sh_ledger = ledger_open, sh_hist = []\<rparr> :: u64 list stress_shared"
  let ?step = "window_step (\<lambda>_. ?pr) sample_stress exact_hist (\<lambda>_ _. 250)"
  let ?start = "window_start (\<lambda>_. Inr ?pr) sample_stress [0, 1, 2] ?sh"
  obtain w where w: "?step\<^sup>*\<^sup>* ?start w" "\<not> (\<exists>w'. ?step w w')"
    using window_reaches_end [of "\<lambda>_. ?pr" sample_stress exact_hist "\<lambda>_ _. 250" ?start] by blast
  have h: "timely (\<lambda>_ _. 250)" "0 < sc_workers sample_stress" by (simp_all add: timely_def sample_stress_def)
  note acc = window_accounts [where dial = "\<lambda>_. Inr ?pr" and prs = "\<lambda>_. ?pr" and sqs = "[0, 1, 2]" and sh = ?sh, OF exact_hist_law TrueI h refl,
      THEN conjunct2, THEN spec, THEN mp, OF w(1), THEN mp, OF w(2)]
  then obtain acks errs where a: "window_over w" "mset [0, 1, 2 :: u64] = acks + errs" "sh_acked (w_shared w) = of_nat (size acks)"
    by (elim conjE exE) simp_all
  from acc have "hl_len exact_hist (sh_hist (w_shared w)) = sh_acked (w_shared w)" by (elim conjE exE) (simp add: exact_hist_def)
  with a w(1) show ?thesis by (intro exI [of _ w] exI [of _ acks] exI [of _ errs] conjI) simp_all
qed

text \<open>
  Without any connected worker the window does not end once it has more numbers than the
  channel holds: the receiving half is kept by \<open>run_window\<close> itself, so the send blocks.
\<close>

lemma window_hangs:
  assumes "\<And>i. i < sc_workers cfg \<Longrightarrow> \<exists>err. dial i = Inl err" and "sc_workers cfg * 4 < length sqs"
    and "(window_step prs cfg hl lat)\<^sup>*\<^sup>* (window_start dial cfg sqs sh) w"
  shows "\<not> window_over w"
proof -
  have "(\<forall>wk\<in>set (w_workers w). finished (sw_phase wk)) \<and> length (w_channel w) \<le> sc_workers cfg * 4
      \<and> length (w_pending w) + length (w_channel w) = length sqs"
    using assms(3)
  proof (induction rule: rtranclp_induct)
    case base
    show ?case using assms(1) by (fastforce simp: window_start_def session_connect_def)
  next
    case (step w w')
    from step(2) show ?case
    proof cases
      case (send g gs)
      then show ?thesis using step.IH by simp
    next
      case (recv i g gs)
      have "finished (sw_phase (w_workers w ! i))" using step.IH nth_mem [OF recv(2)] by blast
      then show ?thesis using recv(3) by simp
    next
      case (produced i g wk sh)
      have "finished (sw_phase (w_workers w ! i))" using step.IH nth_mem [OF produced(2)] by blast
      then show ?thesis using produced(3) by simp
    next
      case (closed i)
      have "finished (sw_phase (w_workers w ! i))" using step.IH nth_mem [OF closed(2)] by blast
      then show ?thesis using closed(3) by simp
    qed
  qed
  with assms(2) show ?thesis by (auto simp: window_over_def)
qed

section \<open>The whole run\<close>

lemma window_result_ok:
  assumes "window_result wks = Inr ()" and "\<forall>wk\<in>set wks. finished (sw_phase wk)" and "wk \<in> set wks"
  shows "sw_phase wk = Finished None"
  using assms by (induction wks) (auto elim!: finished.elims split: worker_phase.splits option.splits)

lemma run_window_accounts:
  assumes "run_window dial cfg hl lat secs sh w" and "window_result (w_workers w) = Inr ()" and "0 < sc_workers cfg"
  shows "\<exists>sqs acks errs. window_seqs (tick_interval (sc_target_rps cfg)) (unat secs * 1000000000) 0 0 = Some sqs \<and> mset sqs = acks + errs
    \<and> sh_acked (w_shared w) = sh_acked sh + of_nat (size acks) \<and> sh_errors (w_shared w) = sh_errors sh + of_nat (size errs)
    \<and> set (lg_seen (sh_ledger (w_shared w))) = set (lg_seen (sh_ledger sh)) \<union> set_mset acks"
proof -
  obtain sqs where w: "window_seqs (tick_interval (sc_target_rps cfg)) (unat secs * 1000000000) 0 0 = Some sqs"
    "(window_step (\<lambda>i. projr (dial i)) cfg hl lat)\<^sup>*\<^sup>* (window_start dial cfg sqs sh) w" "window_over w"
    using assms(1) by (auto simp: run_window_def)
  have "length (w_workers w) = sc_workers cfg"
    using w(2) by (induction rule: rtranclp_induct) (auto simp: window_start_def elim!: window_step.cases)
  with assms(3) have k: "0 < length (w_workers w)" by simp
  have "sw_phase (w_workers w ! 0) = Finished None"
    using w(3) k by (intro window_result_ok [OF assms(2)]) (auto simp: window_over_def)
  then show ?thesis using w(1) window_end_accounts [OF w(3) _ _ k] window_reach_counted [OF w(2)] by force
qed

lemma warmed_up_shared:
  assumes "warmed_up pr dial hl lat cfg (Inr sh)" and "hist_law hl ok"
  shows "sh_acked sh = 0" "sh_errors sh = 0" "ok (sh_hist sh)" "hl_len hl (sh_hist sh) = 0"
proof -
  have new: "ok h \<and> hl_len hl h = 0" if "hl_new_with_bounds hl 1 120000000 3 = Inr h" for h
    using assms(2) that by (simp add: hist_law_def)
  have "sh_acked sh = 0 \<and> sh_errors sh = 0 \<and> ok (sh_hist sh) \<and> hl_len hl (sh_hist sh) = 0"
    using assms(1) new by (elim warmed_up_InrE) (auto simp: stress_shared_new_def res_bind_Inr_iff)
  then show "sh_acked sh = 0" "sh_errors sh = 0" "ok (sh_hist sh)" "hl_len hl (sh_hist sh) = 0" by blast+
qed


text \<open>A run whose workers all connect and whose produces take at most two minutes does return.\<close>

definition none_failed :: "'h window \<Rightarrow> bool" where
  "none_failed w \<longleftrightarrow> (\<forall>wk\<in>set (w_workers w). \<forall>err. sw_phase wk \<noteq> Finished (Some err))"

lemma window_step_none_failed:
  assumes "window_step prs cfg hl lat w w'" and "none_failed w" and law: "hist_law hl ok" "ok (sh_hist (w_shared w))" "timely lat"
  shows "none_failed w'"
  using assms(1)
proof cases
  case (produced i g wk sh)
  obtain h' where "hl_record hl (latency_micros (lat i g)) (sh_hist (w_shared w)) = Inr h'" by (rule timely_record [OF law])
  with produced(4) have "sw_phase wk = Waiting" by (cases rule: produce_done_cases) auto
  then show ?thesis using assms(2) produced(1) by (auto simp: none_failed_def dest!: set_update_subset_insert [THEN subsetD])
qed (use assms(2) in \<open>auto simp: none_failed_def dest!: set_update_subset_insert [THEN subsetD]\<close>)

lemma run_window_returns:
  assumes law: "hist_law hl ok" "ok (sh_hist sh)" "timely lat" and dial: "\<And>i. \<exists>pr. dial i = Inr pr" and "0 < sc_workers cfg"
    and "window_seqs (tick_interval (sc_target_rps cfg)) (unat secs * 1000000000) 0 0 = Some sqs"
  shows "\<exists>w. run_window dial cfg hl lat secs sh w \<and> window_result (w_workers w) = Inr ()"
proof -
  let ?step = "window_step (\<lambda>i. projr (dial i)) cfg hl lat" and ?start = "window_start dial cfg sqs sh"
  obtain w where w: "?step\<^sup>*\<^sup>* ?start w" "\<not> (\<exists>w'. ?step w w')" using window_reaches_end [of "\<lambda>i. projr (dial i)" cfg hl lat ?start] by blast
  obtain pr where pr: "dial 0 = Inr pr" using dial by blast
  have over: "window_over w"
    using window_reach_alive [where dial = dial, OF law assms(5) pr w(1)] window_reach_counted [OF w(1)] w(2) by (intro window_progress) auto
  have "none_failed w" using w(1)
  proof (induction rule: rtranclp_induct)
    case base
    have "sw_phase (session_connect (dial i)) = Waiting" for i using dial [of i] by (auto simp: session_connect_def)
    then show ?case by (auto simp: none_failed_def window_start_def)
  next
    case (step w w')
    have "ok (sh_hist (w_shared w))" using window_reach_hist [OF law step(1)] by (simp add: hist_counted_def)
    then show ?case by (rule window_step_none_failed [OF step(2,3) law(1) _ law(3)])
  qed
  moreover have "\<forall>wk\<in>set wks. \<forall>err. sw_phase wk \<noteq> Finished (Some err) \<Longrightarrow> window_result wks = Inr ()" for wks
    by (induction wks) (auto split: worker_phase.split option.split)
  ultimately have "window_result (w_workers w) = Inr ()" by (simp add: none_failed_def)
  then show ?thesis using w(1) over assms(6) by (auto simp: run_window_def)
qed

lemma stress_run_returns:
  assumes law: "hist_law hl ok" "timely (lat 1)" and "\<And>i. \<exists>pr. dial 1 i = Inr pr" and "0 < sc_workers cfg" and "sc_warmup cfg = 0"
    and "stress_prepare pr cfg = Inr l" and "hl_new_with_bounds hl 1 120000000 3 = Inr h"
    and "window_seqs (tick_interval (sc_target_rps cfg)) (unat (sc_duration cfg) * 1000000000) 0 0 = Some sqs"
  shows "\<exists>rep out l. run_stress pr dial tmp hl lat dur cfg (Inr ((rep, out), l))"
proof -
  let ?sh = "\<lparr>sh_acked = 0, sh_errors = 0, sh_ledger = l, sh_hist = h\<rparr>"
  have up: "warmed_up pr (dial 0) hl (lat 0) cfg (Inr ?sh)"
    by (rule warmed_up.no_warmup) (simp_all add: assms stress_shared_new_def)
  have "ok (sh_hist ?sh)" using law(1) assms(7) by (simp add: hist_law_def)
  from run_window_returns [where dial = "dial 1", OF law(1) this law(2) assms(3,4,8)] obtain w
    where "run_window (dial 1) cfg hl (lat 1) (sc_duration cfg) ?sh w" "window_result (w_workers w) = Inr ()" by blast
  from run_stress.measured [where dial = dial, OF up this, of tmp dur] show ?thesis by (metis prod.collapse)
qed

definition short_stress :: stress_config where
  "short_stress = sample_stress\<lparr>sc_warmup := 0, sc_duration := 1, sc_target_rps := 2\<rparr>"

definition ready_peer :: peer where
  "ready_peer = \<lparr>pr_accepts = (\<lambda>_. True), pr_answers = (\<lambda>_. projr (write_message (RCreateTopic 0)))\<rparr>"

lemma short_stress_prepared: "stress_prepare ready_peer short_stress = Inr ledger_open"
proof -
  obtain w where "write_message (RCreateTopic 0) = Inr w" "read_message (w @ rest) = Inr (RCreateTopic 0, rest)" for rest
    using read_message_write [of "RCreateTopic 0" "[R_CREATE_TOPIC, 0]"] by (simp add: write_message_def encode_message_def)
  from this(1) this(2) [of "[]"] have "write_message (RCreateTopic 0) = Inr w" "read_message w = Inr (RCreateTopic 0, [])" by simp_all
  moreover have "write_message (CreateTopic q) \<noteq> Inl err" for q err
    by (simp add: write_message_def encode_message_def create_topic_encode_def)
  ultimately show ?thesis
    by (auto simp: stress_prepare_def stress_create_topic_def ready_peer_def conn_write_def conn_read_def conn_new_def split: sum.split)
qed


section \<open>The command\<close>

text \<open>The sessions connect to the leader of the partition.\<close>

definition stress_broker_addr :: "env \<Rightarrow> cluster_config option io_result \<Rightarrow> u16 \<Rightarrow> u16 \<Rightarrow> string" where
  "stress_broker_addr e cfg t p = resolve_leader_addr e cfg t p"

definition fetch_all_run ::
  "nat \<Rightarrow> lz4_lib \<Rightarrow> (string \<Rightarrow> peer io_result) \<Rightarrow> string \<Rightarrow> u16 \<Rightarrow> u16 \<Rightarrow> u32 \<Rightarrow> log_record list io_result option" where
  "fetch_all_run rounds lz dial addr t p max_bytes =
     (case dial addr of
        Inl err \<Rightarrow> Some (Inl err)
      | Inr pr \<Rightarrow> fst (stress_fetch_all rounds lz pr t p 0 max_bytes conn_new))"

definition fetch_and_commit_run ::
  "nat \<Rightarrow> lz4_lib \<Rightarrow> (string \<Rightarrow> peer io_result) \<Rightarrow> string \<Rightarrow> u16 \<Rightarrow> u16 \<Rightarrow> u16 \<Rightarrow> u32
    \<Rightarrow> (log_record list \<times> u64) io_result option" where
  "fetch_and_commit_run rounds lz dial addr t p g max_bytes =
     (case dial addr of
        Inl err \<Rightarrow> Some (Inl err)
      | Inr pr \<Rightarrow> fst (stress_fetch_and_commit rounds lz pr t p g max_bytes))"

text \<open>Numbers as the debug format of a vector prints them.\<close>

fun debug_tail :: "u64 list \<Rightarrow> string" where
  "debug_tail [] = '']''"
| "debug_tail (x # xs) = '', '' @ show_word x @ debug_tail xs"

fun debug_list :: "u64 list \<Rightarrow> string" where
  "debug_list [] = ''[]''"
| "debug_list (x # xs) = ''['' @ show_word x @ debug_tail xs"

definition print_audit_report :: "audit_report \<Rightarrow> string \<Rightarrow> string list" where
  "print_audit_report rep ledger_path =
     [''---- dmq audit report ----'',
      ''run_id         : '' @ ar_run_id rep,
      ''ledger         : '' @ ledger_path,
      ''producer audit : '' @ show_nat (ar_fetched_for_run rep) @ ''/'' @ show_nat (ar_expected rep)
        @ '' acked sequences present in log'',
      ''committed offset : '' @ show_word (ar_committed_offset rep)]
     @ (if ar_missing rep = [] \<and> ar_unexpected rep = [] then [''result         : PASS (no gaps, no extras)'']
        else [''result         : FAIL'']
          @ (if ar_missing rep \<noteq> [] then [''missing (first 10): '' @ debug_list (take 10 (ar_missing rep))] else [])
          @ (if ar_unexpected rep \<noteq> [] then [''unexpected (first 10): '' @ debug_list (take 10 (ar_unexpected rep))] else []))"

datatype stress_command =
    StressRun stress_config
  | StressVerify verify_config
  | StressExit string

definition stress_main :: "string \<Rightarrow> string list \<Rightarrow> stress_command" where
  "stress_main now_secs args =
     (if length args < 2 then StressExit ''''
      else if args ! 1 = ''run'' then
        (case parse_stress_args now_secs args of Inl err \<Rightarrow> StressExit err | Inr cfg \<Rightarrow> StressRun cfg)
      else if args ! 1 = ''verify'' then
        (case parse_verify_args args of Inl err \<Rightarrow> StressExit err | Inr cfg \<Rightarrow> StressVerify cfg)
      else StressExit (''unknown subcommand: '' @ args ! 1))"

text \<open>The exit status of \<open>verify\<close>, from the outcome of the audit.\<close>

definition verify_status :: "string + audit_report \<Rightarrow> nat" where
  "verify_status r = (case r of Inr rep \<Rightarrow> if audit_ok rep then 0 else 1 | Inl _ \<Rightarrow> 1)"

text \<open>The printed verdict agrees with the status for the reports of an audit.\<close>

lemma pass_iff_status:
  assumes "ar_missing rep = [] \<and> ar_unexpected rep = [] \<longrightarrow> ar_expected rep = ar_fetched_for_run rep"
  shows "''result         : PASS (no gaps, no extras)'' \<in> set (print_audit_report rep path) \<longleftrightarrow> verify_status (Inr rep) = 0"
  using assms by (auto simp: print_audit_report_def verify_status_def audit_ok_def)

end
