(* ===== verification/Tls.thy ===== *)
theory Tls
  imports Rust_Text
begin

text \<open>
  \<open>dmq-broker/src/tls.rs\<close> and the choice of \<open>ClientStream::connect\<close> between a plain and a TLS
  stream.  The TLS library and the network are parameters, one field of a record for each
  function that the code calls.
\<close>

section \<open>The library\<close>

text \<open>
  \<open>pem_file_iter\<close> fails as a whole or yields a result per certificate; the configurations of
  a server and of a client are what the builders make of certificates, key and roots.
\<close>

record ('cert, 'key, 'srv, 'name, 'tcp, 'tls) tls_lib =
  tl_pem_file_iter :: "string \<Rightarrow> string + (string + 'cert) list"
  tl_from_pem_file :: "string \<Rightarrow> string + 'key"
  tl_with_single_cert :: "'cert list \<Rightarrow> 'key \<Rightarrow> string + 'srv"
  tl_root_accepts :: "'cert \<Rightarrow> string option"
  tl_server_name :: "string \<Rightarrow> string + 'name"
  tl_tcp_connect :: "string \<Rightarrow> 'tcp io_result"
  tl_accept :: "'srv \<Rightarrow> 'tcp \<Rightarrow> string + 'tls"
  tl_connect :: "'cert list \<Rightarrow> 'name \<Rightarrow> 'tcp \<Rightarrow> string + 'tls"

definition map_err :: "error_kind \<Rightarrow> string + 'a \<Rightarrow> 'a io_result" where
  "map_err k r = (case r of Inl msg \<Rightarrow> io_err k msg | Inr a \<Rightarrow> Inr a)"

lemma map_err_simps [simp]: "map_err k (Inl msg) = io_err k msg" "map_err k (Inr a) = Inr a"
  by (simp_all add: map_err_def)

lemma map_err_Inr [simp]: "map_err k r = Inr a \<longleftrightarrow> r = Inr a"
  by (cases r) simp_all

text \<open>\<open>collect\<close> into a result stops at the first error.\<close>

fun collect_results :: "('e + 'a) list \<Rightarrow> 'e + 'a list" where
  "collect_results [] = Inr []"
| "collect_results (r # rs) = res_bind r (\<lambda>a. res_bind (collect_results rs) (\<lambda>as. Inr (a # as)))"

section \<open>Configuration\<close>

definition tls_enabled :: "env \<Rightarrow> bool" where
  "tls_enabled e \<longleftrightarrow> e ''DMQ_TLS_CERT'' \<noteq> None \<and> e ''DMQ_TLS_KEY'' \<noteq> None"

definition load_certs :: "('cert, 'key, 'srv, 'name, 'tcp, 'tls) tls_lib \<Rightarrow> string \<Rightarrow> 'cert list io_result" where
  "load_certs lib path =
     res_bind (map_err InvalidData (tl_pem_file_iter lib path)) (\<lambda>certs.
     map_err InvalidData (collect_results certs))"

definition load_key :: "('cert, 'key, 'srv, 'name, 'tcp, 'tls) tls_lib \<Rightarrow> string \<Rightarrow> 'key io_result" where
  "load_key lib path = map_err InvalidData (tl_from_pem_file lib path)"

definition env_or :: "env \<Rightarrow> string \<Rightarrow> string \<Rightarrow> string io_result" where
  "env_or e var msg = (case e var of Some v \<Rightarrow> Inr v | None \<Rightarrow> io_err NotFound msg)"

definition server_config :: "env \<Rightarrow> ('cert, 'key, 'srv, 'name, 'tcp, 'tls) tls_lib \<Rightarrow> 'srv io_result" where
  "server_config e lib =
     res_bind (env_or e ''DMQ_TLS_CERT'' ''DMQ_TLS_CERT unset'') (\<lambda>cert_path.
     res_bind (env_or e ''DMQ_TLS_KEY'' ''DMQ_TLS_KEY unset'') (\<lambda>key_path.
     res_bind (load_certs lib cert_path) (\<lambda>certs.
     res_bind (load_key lib key_path) (\<lambda>key.
     map_err InvalidData (tl_with_single_cert lib certs key)))))"

text \<open>A root store is the list of the certificates added to it.\<close>

fun add_roots :: "('cert, 'key, 'srv, 'name, 'tcp, 'tls) tls_lib \<Rightarrow> 'cert list \<Rightarrow> 'cert list \<Rightarrow> 'cert list io_result" where
  "add_roots lib roots [] = Inr roots"
| "add_roots lib roots (c # cs) =
     (case tl_root_accepts lib c of
        Some msg \<Rightarrow> io_err InvalidData msg
      | None \<Rightarrow> add_roots lib (roots @ [c]) cs)"

definition client_config :: "env \<Rightarrow> ('cert, 'key, 'srv, 'name, 'tcp, 'tls) tls_lib \<Rightarrow> 'cert list io_result" where
  "client_config e lib =
     (case e ''DMQ_TLS_CA'' of
        Some ca_path \<Rightarrow> res_bind (load_certs lib ca_path) (add_roots lib [])
      | None \<Rightarrow>
          (case e ''DMQ_TLS_CERT'' of
             Some cert_path \<Rightarrow> res_bind (load_certs lib cert_path) (add_roots lib [])
           | None \<Rightarrow> Inr []))"

section \<open>Streams\<close>

definition tls_accept :: "env \<Rightarrow> ('cert, 'key, 'srv, 'name, 'tcp, 'tls) tls_lib \<Rightarrow> 'tcp \<Rightarrow> 'tls io_result" where
  "tls_accept e lib stream =
     res_bind (server_config e lib) (\<lambda>config. map_err OtherKind (tl_accept lib config stream))"

text \<open>The part of an address before the first colon; \<open>split\<close> always has a first piece.\<close>

definition addr_host :: "string \<Rightarrow> string" where
  "addr_host addr = hd (split_on (CHR '':'') addr)"

definition tls_connect :: "env \<Rightarrow> ('cert, 'key, 'srv, 'name, 'tcp, 'tls) tls_lib \<Rightarrow> string \<Rightarrow> 'tls io_result" where
  "tls_connect e lib addr =
     res_bind (tl_tcp_connect lib addr) (\<lambda>stream.
     res_bind (client_config e lib) (\<lambda>roots.
     res_bind (map_err InvalidInput (tl_server_name lib (addr_host addr))) (\<lambda>domain.
     map_err OtherKind (tl_connect lib roots domain stream))))"

datatype ('tcp, 'tls) client_stream = PlainStream 'tcp | TlsStream 'tls

definition client_connect ::
  "env \<Rightarrow> ('cert, 'key, 'srv, 'name, 'tcp, 'tls) tls_lib \<Rightarrow> string \<Rightarrow> ('tcp, 'tls) client_stream io_result" where
  "client_connect e lib addr =
     (if tls_enabled e then res_bind (tls_connect e lib addr) (\<lambda>s. Inr (TlsStream s))
      else res_bind (tl_tcp_connect lib addr) (\<lambda>s. Inr (PlainStream s)))"

section \<open>Properties\<close>

lemma collect_results_Inr: "collect_results rs = Inr as \<longleftrightarrow> rs = map Inr as"
  by (induction rs arbitrary: as) (auto simp: res_bind_Inr_iff)

lemma load_certs_Inr: "load_certs lib path = Inr cs \<longleftrightarrow> tl_pem_file_iter lib path = Inr (map Inr cs)"
  by (auto simp: load_certs_def res_bind_Inr_iff collect_results_Inr)

lemma add_roots_Inr: "add_roots lib roots cs = Inr rs \<longleftrightarrow> rs = roots @ cs \<and> (\<forall>c\<in>set cs. tl_root_accepts lib c = None)"
  by (induction cs arbitrary: roots) (auto split: option.split)

text \<open>The file whose certificates a client trusts.\<close>

definition trusted_file :: "env \<Rightarrow> string option" where
  "trusted_file e = (case e ''DMQ_TLS_CA'' of Some p \<Rightarrow> Some p | None \<Rightarrow> e ''DMQ_TLS_CERT'')"

lemma client_config_Inr:
  assumes "trusted_file e = Some path"
  shows "client_config e lib = Inr rs \<longleftrightarrow>
    tl_pem_file_iter lib path = Inr (map Inr rs) \<and> (\<forall>c\<in>set rs. tl_root_accepts lib c = None)"
  using assms
  by (auto simp: client_config_def trusted_file_def res_bind_Inr_iff load_certs_Inr add_roots_Inr split: option.splits)


text \<open>
  A client that is given the CA certificate alone, as its documentation suggests, has no
  TLS: the certificate and the key of the broker have to be set too.
\<close>

lemma ca_alone_is_plain:
  "e ''DMQ_TLS_KEY'' = None \<Longrightarrow> client_connect e lib addr = res_bind (tl_tcp_connect lib addr) (\<lambda>s. Inr (PlainStream s))"
  by (simp add: client_connect_def tls_enabled_def)

text \<open>An example library, which trusts one certificate.\<close>

definition sample_tls :: "(nat, nat, nat, string, string, string) tls_lib" where
  "sample_tls = \<lparr>tl_pem_file_iter = (\<lambda>path. if path = ''ca.pem'' then Inr [Inr 1] else Inr [Inr 2]),
     tl_from_pem_file = (\<lambda>_. Inr 9), tl_with_single_cert = (\<lambda>cs k. Inr k), tl_root_accepts = (\<lambda>_. None),
     tl_server_name = Inr, tl_tcp_connect = Inr, tl_accept = (\<lambda>_ s. Inr s),
     tl_connect = (\<lambda>roots name tcp. if 1 \<in> set roots then Inr tcp else Inl ''unknown issuer'')\<rparr>"

definition sample_tls_env :: env where
  "sample_tls_env = empty_env(''DMQ_TLS_CERT'' := Some ''cert.pem'', ''DMQ_TLS_KEY'' := Some ''key.pem'', ''DMQ_TLS_CA'' := Some ''ca.pem'')"


end
