(* ===== verification/Session.thy ===== *)
theory Session
  imports Tls Client
begin

text \<open>
  Sessions: the client side of \<open>dmq-broker/src/client.rs\<close>, which connects, shakes hands and then
  exchanges version 2 frames, and what a connection of the broker answers to a whole
  stream of frames.
\<close>

section \<open>The client\<close>

text \<open>A stream, plain or TLS, carries the same frames.\<close>

definition cs_write_frame :: "peer \<Rightarrow> frame \<Rightarrow> wire_format \<Rightarrow> conn \<Rightarrow> unit io_result \<times> conn" where
  "cs_write_frame pr f fmt c =
     (case write_frame f fmt of
        Inl err \<Rightarrow> (Inl err, c)
      | Inr w \<Rightarrow>
          if pr_accepts pr (c_sent c @ w) then (Inr (), c\<lparr>c_sent := c_sent c @ w\<rparr>)
          else (io_err OtherKind ''broken pipe'', c))"

definition cs_read_frame :: "peer \<Rightarrow> conn \<Rightarrow> (frame \<times> wire_format) io_result \<times> conn" where
  "cs_read_frame pr c =
     (case read_frame (drop (c_got c) (pr_answers pr (c_sent c))) of
        Inl err \<Rightarrow> (Inl err, c)
      | Inr (f, fmt, rest) \<Rightarrow> (Inr (f, fmt), c\<lparr>c_got := length (pr_answers pr (c_sent c)) - length rest\<rparr>))"

definition cs_write_message :: "peer \<Rightarrow> message \<Rightarrow> conn \<Rightarrow> unit io_result \<times> conn" where
  "cs_write_message pr m c = cs_write_frame pr (frame_v1 m) V1 c"

definition cs_write_v2 :: "peer \<Rightarrow> u32 \<Rightarrow> message \<Rightarrow> conn \<Rightarrow> unit io_result \<times> conn" where
  "cs_write_v2 pr cid m c = cs_write_frame pr (frame_v2 cid m) V2 c"

definition cs_read_message :: "peer \<Rightarrow> conn \<Rightarrow> message io_result \<times> conn" where
  "cs_read_message pr c = sbind (cs_read_frame pr c) (\<lambda>(f, _) c1. (Inr (frame_message f), c1))"

definition cs_handshake :: "env \<Rightarrow> peer \<Rightarrow> u32 \<Rightarrow> conn \<Rightarrow> u16 io_result \<times> conn" where
  "cs_handshake e pr cid c =
     sbind (cs_write_frame pr (client_handshake_request e cid) V2 c) (\<lambda>_ c1.
     sbind (cs_read_frame pr c1) (\<lambda>(resp, _) c2. (client_handshake_response (frame_message resp), c2)))"

text \<open>\<open>over\<close> gives the other end of a stream.\<close>

definition connect_and_handshake ::
  "env \<Rightarrow> ('cert, 'key, 'srv, 'name, 'tcp, 'tls) tls_lib \<Rightarrow> (('tcp, 'tls) client_stream \<Rightarrow> peer) \<Rightarrow> string
    \<Rightarrow> (('tcp, 'tls) client_stream \<times> u16) io_result \<times> conn" where
  "connect_and_handshake e lib over addr =
     sbind (client_connect e lib addr, conn_new) (\<lambda>stream c.
     if negotiated_version_from_env e \<ge> PROTOCOL_V2 then
       sbind (cs_handshake e (over stream) 1 c) (\<lambda>version c1. (Inr (stream, version), c1))
     else (Inr (stream, PROTOCOL_V1), c))"

section \<open>Streams of frames\<close>

function read_frames :: "bytes \<Rightarrow> (frame \<times> wire_format) list" where
  "read_frames input =
     (case read_frame input of Inl _ \<Rightarrow> [] | Inr (f, fmt, rest) \<Rightarrow> (f, fmt) # read_frames rest)"
  by pat_completeness auto

termination
  by (relation "measure length") (auto dest: read_frame_rest)

declare read_frames.simps [simp del]

lemma read_frames_Cons: "read_frame input = Inr (f, fmt, rest) \<Longrightarrow> read_frames input = (f, fmt) # read_frames rest"
  by (subst read_frames.simps) simp

text \<open>A response frame answers a request frame.\<close>

definition answers :: "frame \<times> wire_format \<Rightarrow> frame \<times> bytes \<Rightarrow> bool" where
  "answers q r \<longleftrightarrow> correlation_id (fst r) = correlation_id (fst q) \<and> write_frame (fst r) (snd q) = Inr (snd r)"

lemma handshake_wire_format: "sess_wire_format (snd (handle_handshake e req s)) = sess_wire_format s"
  by (simp add: handle_handshake_def split: sum.split prod.split)

lemma dispatch_wire_format:
  assumes "dispatch_message e lz net cx m s bn = (r, s1, sp, bn1)"
  shows "sess_wire_format s1 = sess_wire_format s"
proof -
  have "fst (snd (dispatch_message e lz net cx m s bn)) = s
    \<or> (\<exists>req. m = Handshake req \<and> fst (snd (dispatch_message e lz net cx m s bn)) = snd (handle_handshake e req s))"
    by (cases m) (simp_all add: dispatch_message_def Let_def split: prod.split)
  with assms show ?thesis by (auto simp: handshake_wire_format)
qed

text \<open>
  C22: What a connection writes are responses to the first requests of the stream, one each,
  in the order of the requests, each in the format of its request and, in a version 2
  frame, with its correlation id; it writes nothing else.
\<close>

theorem responses_match_requests:
  assumes "handle_broker_connection e lz net cxs k input s bn = (out, sp, bn')"
  shows "\<exists>rs. out = concat (map snd rs) \<and> length rs \<le> length (read_frames input)
    \<and> list_all2 answers (take (length rs) (read_frames input)) rs"
  using assms
proof (induction e lz net cxs k input s bn arbitrary: out sp bn' rule: handle_broker_connection.induct)
  case (1 e lz net cxs k input s bn)
  note step = 1(2) [unfolded handle_broker_connection.simps [of e lz net cxs k input s bn]]
  show ?case
  proof (cases "read_frame input")
    case (Inl err)
    then show ?thesis using step by (intro exI [of _ "[]"]) simp
  next
    case (Inr v)
    obtain f fmt rest where v: "v = (f, fmt, rest)" by (cases v)
    note rd = Inr [unfolded v]
    obtain r s1 sp1 b1 n1 where d: "dispatch_message e lz net (cxs k) (frame_message f) (s\<lparr>sess_wire_format := fmt\<rparr>) bn
        = (r, s1, sp1, b1, n1)" by (metis prod_cases5)
    have fmt: "sess_wire_format s1 = fmt" using dispatch_wire_format [OF d] by simp
    show ?thesis
    proof (cases "\<exists>m w. r = Some m \<and> write_frame \<lparr>correlation_id = correlation_id f, frame_message = m\<rparr> fmt = Inr w \<and> cx_write_ok (cxs k)")
      case False
      then have "out = []" using step rd d fmt by (cases r) (auto split: sum.splits if_splits)
      then show ?thesis by (intro exI [of _ "[]"]) simp
    next
      case True
      then obtain m w where m: "r = Some m" "write_frame \<lparr>correlation_id = correlation_id f, frame_message = m\<rparr> fmt = Inr w" "cx_write_ok (cxs k)"
        by blast
      have w: "write_frame \<lparr>correlation_id = correlation_id f, frame_message = m\<rparr> (sess_wire_format s1) = Inr w"
        using m(2) fmt by simp
      let ?q = "(\<lparr>correlation_id = correlation_id f, frame_message = m\<rparr>, w)"
      have q: "answers (f, fmt) ?q" using m(2) by (simp add: answers_def)
      show ?thesis
      proof (cases "keep_open (frame_message f) s1")
        case False
        then have "out = w" using step rd d m fmt by (auto simp: Let_def)
        then show ?thesis using q read_frames_Cons [OF rd] by (intro exI [of _ "[?q]"]) simp
      next
        case keep: True
        let ?bn = "(b1\<lparr>b_metrics := record_request_latency (cx_latency (cxs k)) (b_metrics b1)\<rparr>, n1)"
        obtain out' sp' bn1 where rest: "handle_broker_connection e lz net cxs (Suc k) rest s1 ?bn = (out', sp', bn1)"
          by (metis prod_cases3)
        obtain rs where rs: "out' = concat (map snd rs)" "length rs \<le> length (read_frames rest)"
            "list_all2 answers (take (length rs) (read_frames rest)) rs"
          using 1(1) [OF rd refl refl d [symmetric] m(1) refl refl refl w _ refl keep rest] m(3) by auto
        have "out = w @ out'" using step rd d m fmt keep rest by (auto simp: Let_def)
        then show ?thesis using rs q read_frames_Cons [OF rd] by (intro exI [of _ "?q # rs"]) simp
      qed
    qed
  qed
qed

text \<open>The requests whose handlers have no failing path.\<close>

fun always_answered :: "message \<Rightarrow> bool" where
  "always_answered (Echo _) = True"
| "always_answered (CommitOffset _) = True"
| "always_answered (DescribeTopic _) = True"
| "always_answered ListTopics = True"
| "always_answered (GetLag _) = True"
| "always_answered GetCluster = True"
| "always_answered (BrokerHeartbeat _) = True"
| "always_answered (GroupHeartbeat _) = True"
| "always_answered _ = False"

lemma dispatch_always:
  assumes "always_answered m"
  shows "\<exists>r b1 n1. dispatch_message e lz net cx m s bn = (Some r, s, [], b1, n1) \<and> (\<exists>p. message_payload r = Inr p)"
  using assms
  by (cases m)
    (auto simp: dispatch_message_def handle_echo_def handshake_required_def handle_commit_def handle_heartbeat_def
      handle_group_heartbeat_def Let_def split: prod.split)

lemma write_v2_ok: "message_payload m = Inr p \<Longrightarrow> \<exists>w. write_frame \<lparr>correlation_id = cid, frame_message = m\<rparr> V2 = Inr w"
  by (simp add: write_frame_def encode_message_def)

lemma always_not_handshake: "always_answered m \<Longrightarrow> m \<noteq> Handshake req"
  by (cases m) auto

lemma session_answers:
  assumes "read_frames input = map (\<lambda>f. (f, V2)) fs" and "\<forall>f\<in>set fs. always_answered (frame_message f)"
    and "\<And>k. cx_write_ok (cxs k)" and "PROTOCOL_V2 \<le> sess_protocol_version s"
  shows "\<exists>rs. fst (handle_broker_connection e lz net cxs k input s bn) = concat (map snd rs) \<and> list_all2 answers (read_frames input) rs"
  using assms(1,2,4)
proof (induction fs arbitrary: k input s bn)
  case Nil
  then have "\<exists>err. read_frame input = Inl err"
    using read_frames_Cons [of input] by (cases "read_frame input") auto
  then show ?case using Nil by (auto simp: handle_broker_connection.simps [of e lz net cxs k input])
next
  case (Cons f fs)
  then obtain rest where rd: "read_frame input = Inr (f, V2, rest)" and fs: "read_frames rest = map (\<lambda>f. (f, V2)) fs"
    by (auto simp: read_frames.simps [of input] split: sum.splits prod.splits)
  let ?s = "s\<lparr>sess_wire_format := V2\<rparr>"
  have f: "always_answered (frame_message f)" using Cons.prems(2) by simp
  obtain r b1 n1 p where d: "dispatch_message e lz net (cxs k) (frame_message f) ?s bn = (Some r, ?s, [], b1, n1)"
    "message_payload r = Inr p" using dispatch_always [OF f, of e lz net "cxs k" ?s bn] by auto
  obtain w where w: "write_frame \<lparr>correlation_id = correlation_id f, frame_message = r\<rparr> V2 = Inr w"
    using write_v2_ok [OF d(2)] by blast
  have keep: "keep_open (frame_message f) ?s"
    using Cons.prems(3) by (simp add: keep_open_def split: message.split)
  let ?bn = "(b1\<lparr>b_metrics := record_request_latency (cx_latency (cxs k)) (b_metrics b1)\<rparr>, n1)"
  from Cons.IH [OF fs, of ?s "Suc k" ?bn] Cons.prems(2,3)
  obtain rs where rs: "fst (handle_broker_connection e lz net cxs (Suc k) rest ?s ?bn) = concat (map snd rs)"
      "list_all2 answers (read_frames rest) rs" by auto
  let ?q = "(\<lparr>correlation_id = correlation_id f, frame_message = r\<rparr>, w)"
  have "fst (handle_broker_connection e lz net cxs k input s bn) = w @ concat (map snd rs)"
    using rd d(1) w keep rs(1) assms(3)
    by (simp add: handle_broker_connection.simps [of e lz net cxs k input] Let_def case_prod_unfold)
  moreover have "answers (f, V2) ?q" using w by (simp add: answers_def)
  ultimately show ?case
    using rs(2) read_frames_Cons [OF rd] by (intro exI [of _ "?q # rs"]) simp
qed

text \<open>
  C21: On a version 2 session every request is answered.  After a handshake that the broker
  accepts with version 2, a stream of any number of version 2 requests that cannot fail is
  answered completely: one response for each frame, the handshake included, in order and
  with the correlation ids of the requests.
\<close>

theorem v2_session_answers_all:
  assumes "read_frames input = (hs, V2) # map (\<lambda>f. (f, V2)) fs" and "\<forall>f\<in>set fs. always_answered (frame_message f)"
    and "frame_message hs = Handshake req" and "process_handshake e req = Inr version" and "PROTOCOL_V2 \<le> version"
    and "\<And>k. cx_write_ok (cxs k)"
  shows "\<exists>rs. fst (handle_broker_connection e lz net cxs 0 input session_default bn) = concat (map snd rs)
    \<and> list_all2 answers (read_frames input) rs \<and> frame_message (fst (hd rs)) = RHandshake 0 version"
proof -
  obtain rest where rd: "read_frame input = Inr (hs, V2, rest)" and fs: "read_frames rest = map (\<lambda>f. (f, V2)) fs"
    using assms(1) by (auto simp: read_frames.simps [of input] split: sum.splits prod.splits)
  let ?s = "session_default\<lparr>sess_wire_format := V2\<rparr>"
  define s1 where "s1 = ?s\<lparr>sess_handshaken := True, sess_protocol_version := version,
    sess_principal := principal_from_token (hs_auth_token req)\<rparr>"
  let ?b = "cx_gap (cxs 0) 0 (fst bn)"
  have d: "dispatch_message e lz net (cxs 0) (frame_message hs) ?s bn = (Some (RHandshake 0 version), s1, [], ?b, snd bn)"
    using assms(3,4) by (simp add: dispatch_message_def handle_handshake_def s1_def Let_def)
  obtain w where w: "write_frame \<lparr>correlation_id = correlation_id hs, frame_message = RHandshake 0 version\<rparr> V2 = Inr w"
    using write_v2_ok by fastforce
  let ?bn = "(?b\<lparr>b_metrics := record_request_latency (cx_latency (cxs 0)) (b_metrics ?b)\<rparr>, snd bn)"
  obtain rs where rs: "fst (handle_broker_connection e lz net cxs 1 rest s1 ?bn) = concat (map snd rs)"
      "list_all2 answers (read_frames rest) rs"
    using session_answers [where cxs = cxs and s = s1 and e = e and lz = lz and net = net and k = 1 and bn = ?bn,
        OF fs assms(2,6)] assms(5) by (auto simp: s1_def)
  let ?q = "(\<lparr>correlation_id = correlation_id hs, frame_message = RHandshake 0 version\<rparr>, w)"
  have "fst (handle_broker_connection e lz net cxs 0 input session_default bn) = w @ concat (map snd rs)"
    using rd d w rs(1) assms(3,6)
    by (simp add: handle_broker_connection.simps [of e lz net cxs 0 input] keep_open_def s1_def Let_def case_prod_unfold)
  moreover have "answers (hs, V2) ?q" using w by (simp add: answers_def)
  ultimately show ?thesis
    using rs(2) read_frames_Cons [OF rd] by (intro exI [of _ "?q # rs"]) simp
qed

section \<open>The handshake\<close>

lemma v2_readable:
  assumes "message_ok m" "encode_message m = Inr fr" "length fr \<le> 65530"
  shows "\<exists>w. write_frame (frame_v2 cid m) V2 = Inr w \<and> (\<forall>rest. read_frame (w @ rest) = Inr (frame_v2 cid m, V2, rest))"
proof -
  obtain w where w: "write_frame \<lparr>correlation_id = cid, frame_message = m\<rparr> V2 = Inr w"
    using assms(2) by (simp add: write_frame_def)
  show ?thesis
    using read_v2_write [OF assms(2) message_roundtripD [OF assms(1,2)] _ w] assms(3) w
    by (intro exI [of _ w]) (simp add: frame_v2_def)
qed

lemma read_frame_Nil: "\<exists>err. read_frame [] = Inl err"
  by (simp add: read_frame_def take_exact_def io_err_def)

lemma handshake_answer:
  assumes "frame_message hs = Handshake req" and "read_frame input = Inr (hs, V2, [])" and "cx_write_ok (cxs 0)"
    and "write_frame (frame_v2 (correlation_id hs) (fst (handle_handshake e req (session_default\<lparr>sess_wire_format := V2\<rparr>)))) V2 = Inr w"
  shows "fst (handle_broker_connection e lz net cxs 0 input session_default bn) = w"
proof -
  let ?s = "session_default\<lparr>sess_wire_format := V2\<rparr>"
  obtain r s1 where h: "handle_handshake e req ?s = (r, s1)" by (cases "handle_handshake e req ?s")
  have fmt: "sess_wire_format s1 = V2" using handshake_wire_format [of e req ?s] h by simp
  obtain err where nil: "read_frame [] = Inl err" using read_frame_Nil by blast
  have "handle_broker_connection e lz net cxs k [] s bn' = ([], [], bn')" for k s bn'
    by (simp add: handle_broker_connection.simps [of e lz net cxs k "[]"] nil)
  then show ?thesis
    using assms h fmt
    by (simp add: handle_broker_connection.simps [of e lz net cxs 0 input] dispatch_message_def keep_open_def frame_v2_def Let_def)
qed

text \<open>The client asks for version 1 or 2, which every broker supports; only the token can be wrong.\<close>

lemma client_version: "validate_protocol_version (negotiated_version_from_env e) = Inr (negotiated_version_from_env e)"
proof -
  have "1 \<le> negotiated_version_from_env e" "negotiated_version_from_env e \<le> 2"
    by (simp_all add: negotiated_version_from_env_def protocol_consts min_def max_def not_le word_le_nat_alt)
  from u16_one_or_two [OF this] show ?thesis by (simp add: validate_version_iff)
qed

definition client_request :: "env \<Rightarrow> handshake_request" where
  "client_request e = (case frame_message (client_handshake_request e 0) of Handshake req \<Rightarrow> req)"

lemma client_request_simps:
  "client_handshake_request e cid = frame_v2 cid (Handshake (client_request e))"
  "hs_protocol_version (client_request e) = negotiated_version_from_env e"
  by (simp_all add: client_request_def client_handshake_request_def frame_v2_def)

lemma client_handshake_reply:
  "fst (handle_handshake e (client_request ce) s) =
    (if validate_token e (hs_auth_token (client_request ce)) = Inr () then RHandshake 0 (negotiated_version_from_env ce)
     else RError 2 ''invalid auth token'')"
  by (auto simp: handle_handshake_def process_handshake_def client_request_simps client_version validate_token_def error_text_def
      io_err_def split: option.splits)

lemma handshake_reply_readable:
  "\<exists>w. write_frame (frame_v2 cid (fst (handle_handshake e (client_request ce) s))) V2 = Inr w
    \<and> (\<forall>rest. read_frame (w @ rest) = Inr (frame_v2 cid (fst (handle_handshake e (client_request ce) s)), V2, rest))"
proof (cases "validate_token e (hs_auth_token (client_request ce)) = Inr ()")
  case True
  then show ?thesis
    unfolding client_handshake_reply
    using v2_readable [of "RHandshake 0 v" "R_HANDSHAKE # 0 # to_be_bytes v" cid for v] by (simp add: encode_message_def)
next
  case False
  have "valid_str ''invalid auth token''"
    using utf8_valid_ascii [of "as_bytes ''invalid auth token''" "[]"] by (simp add: valid_str_def as_bytes_def)
  then have "\<exists>w. write_frame (frame_v2 cid (RError 2 ''invalid auth token'')) V2 = Inr w
      \<and> (\<forall>rest. read_frame (w @ rest) = Inr (frame_v2 cid (RError 2 ''invalid auth token''), V2, rest))"
    by (intro v2_readable [where fr = "R_ERROR # 2 # as_bytes ''invalid auth token''"]) (simp_all add: encode_message_def as_bytes_def)
  then show ?thesis unfolding client_handshake_reply using False by simp
qed

text \<open>
  A client and a broker that accepts its token agree on the version that the client
  asked for; a client whose token is refused is told so.  The token has at most 65000
  bytes, so that the request fits a frame.
\<close>

theorem handshake_agrees:
  assumes "length (hs_auth_token (client_request ce)) \<le> 65000" and "cx_write_ok (cxs 0)"
  shows "fst (cs_handshake ce (broker_peer be lz net cxs (\<lambda>_. True) bn) cid conn_new) =
    (if validate_token be (hs_auth_token (client_request ce)) = Inr () then Inr (negotiated_version_from_env ce)
     else io_err PermissionDenied ''handshake error 2: invalid auth token'')"
proof -
  let ?req = "client_request ce" and ?s = "session_default\<lparr>sess_wire_format := V2\<rparr>"
  let ?r = "fst (handle_handshake be ?req ?s)"
  obtain w where w: "write_frame (frame_v2 cid (Handshake ?req)) V2 = Inr w"
      "\<And>rest. read_frame (w @ rest) = Inr (frame_v2 cid (Handshake ?req), V2, rest)"
    using v2_readable [of "Handshake ?req" "HANDSHAKE # handshake_encode ?req" cid] assms(1)
    by (auto simp: encode_message_def handshake_encode_def)
  obtain a where a: "write_frame (frame_v2 cid ?r) V2 = Inr a" "\<And>rest. read_frame (a @ rest) = Inr (frame_v2 cid ?r, V2, rest)"
    using handshake_reply_readable by blast
  have "fst (handle_broker_connection be lz net cxs 0 w session_default bn) = a"
    by (rule handshake_answer [where hs = "frame_v2 cid (Handshake ?req)" and req = ?req])
      (use w(2) [of "[]"] a(1) assms(2) in \<open>simp_all add: frame_v2_def\<close>)
  then have "fst (cs_handshake ce (broker_peer be lz net cxs (\<lambda>_. True) bn) cid conn_new) = client_handshake_response ?r"
    using w(1) a(2) [of "[]"]
    by (simp add: cs_handshake_def cs_write_frame_def cs_read_frame_def broker_peer_def conn_new_def client_request_simps
        sbind_def) (simp add: frame_v2_def)
  moreover have "show_word (2 :: u8) = ''2''" by (simp add: show_nat.simps digit_char_def char_of_def bit_iff_odd)
  ultimately show ?thesis by (simp add: client_handshake_reply client_handshake_response_def)
qed

section \<open>A session\<close>

abbreviation sample_handshake :: handshake_request where
  "sample_handshake \<equiv> \<lparr>hs_protocol_version = 2, hs_auth_token = []\<rparr>"

lemma session_sample: "\<exists>input. read_frames input = [(frame_v2 1 (Handshake sample_handshake), V2), (frame_v2 8 ListTopics, V2), (frame_v2 9 ListTopics, V2)]"
proof -
  obtain w1 where w1: "\<And>rest. read_frame (w1 @ rest) = Inr (frame_v2 1 (Handshake sample_handshake), V2, rest)"
    using v2_readable [of "Handshake sample_handshake" "HANDSHAKE # handshake_encode sample_handshake" 1]
    by (auto simp: encode_message_def handshake_encode_def)
  have l: "\<exists>w. \<forall>rest. read_frame (w @ rest) = Inr (frame_v2 cid ListTopics, V2, rest)" for cid
    using v2_readable [of ListTopics "[LIST_TOPICS]" cid] by (auto simp: encode_message_def)
  obtain w2 where w2: "\<And>rest. read_frame (w2 @ rest) = Inr (frame_v2 8 ListTopics, V2, rest)" using l [of 8] by blast
  obtain w3 where w3: "\<And>rest. read_frame (w3 @ rest) = Inr (frame_v2 9 ListTopics, V2, rest)" using l [of 9] by blast
  have "read_frames [] = []" by (simp add: read_frames.simps [of "[]"] read_frame_def take_exact_def io_err_def)
  then have "read_frames (w1 @ w2 @ w3 @ []) = [(frame_v2 1 (Handshake sample_handshake), V2), (frame_v2 8 ListTopics, V2), (frame_v2 9 ListTopics, V2)]"
    by (simp only: read_frames_Cons [OF w1] read_frames_Cons [OF w2] read_frames_Cons [OF w3])
  then show ?thesis by blast
qed

lemma sample_handshake_accepted: "process_handshake empty_env sample_handshake = Inr 2"
  by (simp add: process_handshake_def validate_token_def auth_required_def expected_token_def validate_protocol_version_def
      protocol_consts empty_env_def)

theorem v2_session_answers_all_witness:
  "\<exists>input (rs :: (frame \<times> bytes) list). fst (handle_broker_connection empty_env sample_lz4 no_network (\<lambda>_. idle_context) 0 input session_default (sample_broker, ()))
      = concat (map snd rs) \<and> map (\<lambda>r. correlation_id (fst r)) rs = [1, 8, 9]"
proof -
  obtain input where input: "read_frames input = [(frame_v2 1 (Handshake sample_handshake), V2), (frame_v2 8 ListTopics, V2), (frame_v2 9 ListTopics, V2)]"
    using session_sample by blast
  have "\<exists>rs. fst (handle_broker_connection empty_env sample_lz4 no_network (\<lambda>_. idle_context) 0 input session_default (sample_broker, ()))
      = concat (map snd rs) \<and> list_all2 answers (read_frames input) rs \<and> frame_message (fst (hd rs)) = RHandshake 0 2"
    by (rule v2_session_answers_all [where fs = "[frame_v2 8 ListTopics, frame_v2 9 ListTopics]" and hs = "frame_v2 1 (Handshake sample_handshake)"
        and req = sample_handshake])
      (use input sample_handshake_accepted in \<open>simp_all add: frame_v2_def protocol_consts idle_context_def\<close>)
  then obtain rs where rs: "fst (handle_broker_connection empty_env sample_lz4 no_network (\<lambda>_. idle_context) 0 input session_default (sample_broker, ()))
      = concat (map snd rs)" "list_all2 answers (read_frames input) rs" by blast
  then have "map (\<lambda>r. correlation_id (fst r)) rs = [1, 8, 9]"
    by (auto simp: input list_all2_Cons1 answers_def frame_v2_def)
  with rs(1) show ?thesis by (intro exI [of _ input] exI [of _ rs] conjI)
qed

theorem handshake_agrees_witness:
  "fst (cs_handshake empty_env (broker_peer empty_env sample_lz4 no_network (\<lambda>_. idle_context) (\<lambda>_. True) (sample_broker, ())) 1 conn_new)
    = Inr (negotiated_version_from_env empty_env)"
proof -
  have "hs_auth_token (client_request empty_env) = []"
    by (simp add: client_request_def client_handshake_request_def frame_v2_def empty_env_def as_bytes_def)
  moreover have "validate_token empty_env [] = Inr ()" by (simp add: validate_token_def expected_token_def empty_env_def)
  ultimately show ?thesis
    using handshake_agrees [of empty_env "\<lambda>_. idle_context" empty_env sample_lz4 no_network "(sample_broker, ())" 1]
    by (simp add: idle_context_def)
qed

theorem responses_match_requests_witness:
  "\<exists>input out sp bn (rs :: (frame \<times> bytes) list). handle_broker_connection empty_env sample_lz4 no_network (\<lambda>_. idle_context) 0 input session_default (sample_broker, ())
      = (out, sp, bn) \<and> length (read_frames input) = 3 \<and> out = concat (map snd rs) \<and> length rs \<le> 3"
proof -
  obtain input where "read_frames input = [(frame_v2 1 (Handshake sample_handshake), V2), (frame_v2 8 ListTopics, V2), (frame_v2 9 ListTopics, V2)]"
    using session_sample by blast
  then have input: "length (read_frames input) = 3" by simp
  obtain out sp bn where run: "handle_broker_connection empty_env sample_lz4 no_network (\<lambda>_. idle_context) 0 input session_default (sample_broker, ())
      = (out, sp, bn)" by (metis prod_cases3)
  from responses_match_requests [OF run] input run show ?thesis by fastforce
qed

end
