(* ===== verification/Broker_Panics.thy ===== *)
theory Broker_Panics
  imports Broker_Steps
begin

text \<open>
  No operation of a broker panics.  The places where the code can panic are the \<open>expect\<close>s on
  topics, groups and logs and the slices into the memory-mapped queues.  The invariant is
  that every queue, in memory and in its metadata file, points into its buffer at a slot,
  and that every consumer group has a partition.
\<close>

section \<open>Queues that point into their buffer\<close>

definition index_ok :: "u32 \<Rightarrow> bool" where
  "index_ok i \<longleftrightarrow> unat i < BUFFER_BYTES \<and> unat i mod MAX_MSG_SIZE = 0"

definition meta_ok :: "bytes \<Rightarrow> bool" where
  "meta_ok c \<longleftrightarrow> (\<exists>h v. c = to_be_bytes h @ to_be_bytes v \<and> index_ok h \<and> index_ok v)"

lemma meta_okI: "index_ok h \<Longrightarrow> index_ok v \<Longrightarrow> meta_ok (to_be_bytes h @ to_be_bytes v)"
  unfolding meta_ok_def by blast

definition metas_ok :: "data_dir \<Rightarrow> bool" where
  "metas_ok d \<longleftrightarrow> (\<forall>t g p c. df_get d (partition_metadata_path t g p) = Some c \<longrightarrow> meta_ok c)"

definition queue_ok :: "data_dir \<Rightarrow> mmap_queue \<Rightarrow> bool" where
  "queue_ok d q \<longleftrightarrow> index_ok (mq_head q) \<and> index_ok (mq_tail q) \<and> df_get d (mq_meta q) \<noteq> None"

text \<open>What a change of the directory leaves of the metadata files.\<close>

definition metas_kept :: "data_dir \<Rightarrow> data_dir \<Rightarrow> bool" where
  "metas_kept d d' \<longleftrightarrow> (metas_ok d \<longrightarrow> metas_ok d')
     \<and> (\<forall>t g p. df_get d (partition_metadata_path t g p) \<noteq> None \<longrightarrow> df_get d' (partition_metadata_path t g p) \<noteq> None)"

lemma metas_kept_refl [simp, intro]: "metas_kept d d"
  by (simp add: metas_kept_def)

lemma metas_kept_trans [trans]: "metas_kept d d' \<Longrightarrow> metas_kept d' d'' \<Longrightarrow> metas_kept d d''"
  by (simp add: metas_kept_def)

lemma metas_kept_same:
  "(\<And>t g p. df_get d' (partition_metadata_path t g p) = df_get d (partition_metadata_path t g p)) \<Longrightarrow> metas_kept d d'"
  by (simp add: metas_kept_def metas_ok_def)

lemma metas_kept_put:
  assumes "df_get d' (partition_metadata_path t g p) = Some c" "metas_ok d \<Longrightarrow> meta_ok c"
    and "\<And>t' g' p'. (t', g', p') \<noteq> (t, g, p) \<Longrightarrow>
      df_get d' (partition_metadata_path t' g' p') = df_get d (partition_metadata_path t' g' p')"
  shows "metas_kept d d'"
proof -
  have other: "df_get d' (partition_metadata_path t' g' p')
      = (if (t', g', p') = (t, g, p) then Some c else df_get d (partition_metadata_path t' g' p'))" for t' g' p'
    using assms(1,3) by auto
  show ?thesis using assms(2) by (auto simp: metas_kept_def metas_ok_def other)
qed

lemma queue_ok_meta:
  assumes "metas_ok d" and "queue_ok d q"
  shows "\<exists>h v. df_get d (mq_meta q) = Some (to_be_bytes h @ to_be_bytes v) \<and> index_ok h \<and> index_ok v"
proof -
  obtain c where c: "df_get d (mq_meta q) = Some c" using assms(2) by (auto simp: queue_ok_def)
  then have "meta_ok c" using assms(1) by (simp add: metas_ok_def)
  with c show ?thesis by (auto simp: meta_ok_def)
qed

lemma queue_ok_mono: "metas_kept d d' \<Longrightarrow> queue_ok d q \<Longrightarrow> queue_ok d' q"
  by (auto simp: metas_kept_def queue_ok_def)

lemma index_ok_0: "index_ok 0"
  using buffer_bytes_pos by (simp add: index_ok_def)

lemma index_ok_slot: "index_ok i \<longleftrightarrow> unat i = unat i div MAX_MSG_SIZE * MAX_MSG_SIZE \<and> unat i div MAX_MSG_SIZE < QUEUE_CAPACITY"
proof -
  have "unat i < BUFFER_BYTES \<longleftrightarrow> unat i div MAX_MSG_SIZE < QUEUE_CAPACITY"
    using less_mult_imp_div_less [of "unat i" QUEUE_CAPACITY MAX_MSG_SIZE]
    by (simp add: BUFFER_BYTES_def div_less_iff_less_mult mult.commute)
  moreover have "unat i mod MAX_MSG_SIZE = 0 \<longleftrightarrow> unat i = unat i div MAX_MSG_SIZE * MAX_MSG_SIZE"
    by (metis div_mult_mod_eq add.right_neutral mod_mult_self2_is_0)
  ultimately show ?thesis by (auto simp: index_ok_def)
qed

lemma index_ok_advance: "index_ok i \<Longrightarrow> index_ok (advance i)"
proof -
  assume "index_ok i"
  then have "unat (advance i) = ((unat i div MAX_MSG_SIZE + 1) mod QUEUE_CAPACITY) * MAX_MSG_SIZE"
    using unat_advance [of i "unat i div MAX_MSG_SIZE"] by (simp add: index_ok_slot)
  then show ?thesis by (simp add: index_ok_slot)
qed

lemma index_ok_fits: "index_ok i \<Longrightarrow> n \<le> MAX_MSG_SIZE \<Longrightarrow> unat i + n \<le> BUFFER_BYTES \<and> unat i < BUFFER_BYTES"
  using slot_end [of "unat i div MAX_MSG_SIZE" n] index_ok_slot [of i] by (simp add: index_ok_def)

lemma meta_ok_zero: "meta_ok (to_be_bytes (0 :: u32) @ to_be_bytes (0 :: u32))"
  using index_ok_0 by (auto simp: meta_ok_def)

lemma mq_open_queue_ok:
  assumes "metas_ok d"
  shows "\<exists>q. fst (mq_open t g p d) = Inr q \<and> queue_ok (snd (mq_open t g p d)) q"
    and "metas_kept d (snd (mq_open t g p d))"
proof -
  let ?meta = "partition_metadata_path t g p"
  have z: "to_be_bytes (0 :: u32) = replicate 4 0" by (simp add: to_be_bytes_def be_of_nat_zero)
  have w: "write_at 4 (to_be_bytes (0 :: u32)) (write_at 0 (to_be_bytes (0 :: u32)) (set_len 8 []))
      = to_be_bytes (0 :: u32) @ to_be_bytes (0 :: u32)"
    by (simp add: set_len_def write_at_def z)
  obtain h v where c: "index_ok h" "index_ok v"
    "(df_get d ?meta = None \<and> h = 0 \<and> v = 0) \<or> df_get d ?meta = Some (to_be_bytes h @ to_be_bytes v)"
  proof (cases "df_get d ?meta")
    case None
    then show thesis using that [of 0 0] index_ok_0 by simp
  next
    case (Some c)
    then have "meta_ok c" using assms by (simp add: metas_ok_def)
    then show thesis using that Some by (auto simp: meta_ok_def)
  qed
  have rd: "file_read_u32 (to_be_bytes h @ to_be_bytes v) 0 = Inr h" "file_read_u32 (to_be_bytes h @ to_be_bytes v) 4 = Inr v"
    by (simp_all add: codec_simps)
  have op: "fst (mq_open t g p d) = Inr \<lparr>mq_topic = t, mq_group = g, mq_partition = p, mq_head = h, mq_tail = v\<rparr>
    \<and> df_get (snd (mq_open t g p d)) ?meta = Some (to_be_bytes h @ to_be_bytes v)"
    using c(3) rd
    by (auto simp: mq_open_def open_or_create_mmap_def write_u32_def store_simps w df_contents_def Let_def)
  then show "\<exists>q. fst (mq_open t g p d) = Inr q \<and> queue_ok (snd (mq_open t g p d)) q"
    using c(1,2) by (simp add: queue_ok_def)
  show "metas_kept d (snd (mq_open t g p d))"
  proof (rule metas_kept_put [OF conjunct2 [OF op]])
    show "meta_ok (to_be_bytes h @ to_be_bytes v)" using c(1,2) by (auto simp: meta_ok_def)
  qed (auto intro!: mq_open_frame simp: path_keys)
qed

text \<open>Appending and popping.\<close>

lemma mq_append_queue_ok:
  assumes "queue_ok d q" and "mq_append x (q, d) = (r, q', d')"
  shows "r = Inr (mq_live_len q)" and "queue_ok d' q'" and "metas_kept d d'" and "mq_key q' = mq_key q"
proof -
  have fits: "unat (mq_tail q) + min (length x) MAX_MSG_SIZE \<le> BUFFER_BYTES" "unat (mq_tail q) < BUFFER_BYTES"
    using assms(1) index_ok_fits [of "mq_tail q" "min (length x) MAX_MSG_SIZE"] by (simp_all add: queue_ok_def)
  then have eq: "r = Inr (mq_live_len q)" "q' = q\<lparr>mq_tail := advance (mq_tail q)\<rparr>"
    "df_get d' (mq_meta q) = Some (write_at 4 (to_be_bytes (advance (mq_tail q))) (df_contents d (mq_meta q)))"
    "\<And>t g p. (t, g, p) \<noteq> (mq_topic q, mq_group q, mq_partition q) \<Longrightarrow>
      df_get d' (partition_metadata_path t g p) = df_get d (partition_metadata_path t g p)"
    using assms(2) by (auto simp: mq_append_def advance_def write_u32_def store_simps Let_def path_keys)
  show "r = Inr (mq_live_len q)" by (fact eq(1))
  show "mq_key q' = mq_key q" by (simp add: eq(2) mq_key_def)
  have adv: "index_ok (advance (mq_tail q))" using assms(1) index_ok_advance by (simp add: queue_ok_def)
  then show "queue_ok d' q'" using assms(1) eq(3) by (simp add: queue_ok_def eq(2))
  have "meta_ok (write_at 4 (to_be_bytes (advance (mq_tail q))) (df_contents d (mq_meta q)))" if "metas_ok d"
    using queue_ok_meta [OF that assms(1)] adv by (auto simp: meta_write_tail intro: meta_okI)
  from metas_kept_put [OF eq(3) this eq(4)] show "metas_kept d d'" by blast
qed

lemma mq_pop_queue_ok:
  assumes "queue_ok d q" and "mq_pop_front (q, d) = (r, q', d')"
  shows "\<not> panics r" and "queue_ok d' q'" and "metas_kept d d'" and "mq_key q' = mq_key q"
proof -
  have "\<not> panics r \<and> queue_ok d' q' \<and> metas_kept d d' \<and> mq_key q' = mq_key q"
  proof (cases "mq_head q = mq_tail q")
    case True
    then show ?thesis using assms by (auto simp: mq_pop_front_def)
  next
    case False
    let ?len = "unat (df_contents d (mq_sizes q) ! unat (mq_head q))"
    have "?len \<le> MAX_MSG_SIZE" by (rule unat_size_bound)
    then have fits: "\<not> (unat (mq_head q) \<ge> BUFFER_BYTES \<or> unat (mq_head q) + ?len > BUFFER_BYTES)"
      using assms(1) index_ok_fits [of "mq_head q" ?len] by (simp add: queue_ok_def)
    then have eq: "\<not> panics r" "q' = q\<lparr>mq_head := advance (mq_head q)\<rparr>"
      "df_get d' (mq_meta q) = Some (write_at 0 (to_be_bytes (advance (mq_head q))) (df_contents d (mq_meta q)))"
      "\<And>t g p. (t, g, p) \<noteq> (mq_topic q, mq_group q, mq_partition q) \<Longrightarrow>
        df_get d' (partition_metadata_path t g p) = df_get d (partition_metadata_path t g p)"
      using assms(2) False by (auto simp: mq_pop_front_def advance_def write_u32_def store_simps Let_def path_keys)
    have adv: "index_ok (advance (mq_head q))" using assms(1) index_ok_advance by (simp add: queue_ok_def)
    then have "queue_ok d' q'" using assms(1) eq(3) by (simp add: queue_ok_def eq(2))
    moreover have "meta_ok (write_at 0 (to_be_bytes (advance (mq_head q))) (df_contents d (mq_meta q)))" if "metas_ok d"
      using queue_ok_meta [OF that assms(1)] adv by (auto simp: meta_write_head intro: meta_okI)
    ultimately show ?thesis using eq metas_kept_put [OF eq(3) _ eq(4)] by (simp add: mq_key_def)
  qed
  then show "\<not> panics r" "queue_ok d' q'" "metas_kept d d'" "mq_key q' = mq_key q" by simp_all
qed

section \<open>Topics\<close>

definition group_ok :: "data_dir \<Rightarrow> consumer_group \<Rightarrow> bool" where
  "group_ok d g \<longleftrightarrow> cg_partitions g \<noteq> [] \<and> list_all (queue_ok d) (cg_partitions g)"

definition topic_ok :: "data_dir \<Rightarrow> topic \<Rightarrow> bool" where
  "topic_ok d tp \<longleftrightarrow> queue_ok d (tp_staging tp) \<and> list_all (group_ok d) (tp_cgroups tp)"

lemma group_ok_mono: "metas_kept d d' \<Longrightarrow> group_ok d g \<Longrightarrow> group_ok d' g"
  unfolding group_ok_def list_all_iff using queue_ok_mono by blast

lemma topic_ok_mono: "metas_kept d d' \<Longrightarrow> topic_ok d tp \<Longrightarrow> topic_ok d' tp"
  unfolding topic_ok_def list_all_iff using queue_ok_mono group_ok_mono by blast

text \<open>An operation on a topic that does not panic and keeps the topic and the files.\<close>

definition topic_safe :: "topic \<times> data_dir \<Rightarrow> 'a io_result \<times> topic \<times> data_dir \<Rightarrow> bool" where
  "topic_safe s rs \<longleftrightarrow> (metas_ok (snd s) \<and> topic_ok (snd s) (fst s) \<longrightarrow>
     \<not> panics (fst rs) \<and> topic_ok (snd (snd rs)) (fst (snd rs)) \<and> metas_kept (snd s) (snd (snd rs)))"

lemma topic_safeI:
  assumes "\<And>tp d. s = (tp, d) \<Longrightarrow> metas_ok d \<Longrightarrow> topic_ok d tp \<Longrightarrow> \<exists>r tp' d'. rs = (r, tp', d') \<and> \<not> panics r
    \<and> topic_ok d' tp' \<and> metas_kept d d'"
  shows "topic_safe s rs"
  using assms unfolding topic_safe_def by (cases s; cases rs) fastforce

lemma panics_Inl: "panics (Inl e :: 'a io_result) = panics (Inl e :: 'b io_result)"
  by (cases e) simp_all

lemma topic_safe_sbind:
  assumes "topic_safe s r" and "\<And>a. fst r = Inr a \<Longrightarrow> topic_safe (snd r) (f a (snd r))"
  shows "topic_safe s (sbind r f)"
proof (cases "fst r")
  case (Inl e)
  then have "sbind r f = (Inl e, snd r)" by (cases r) simp
  with assms(1) Inl show ?thesis using panics_Inl [of e] by (auto simp: topic_safe_def)
next
  case (Inr a)
  then have eq: "sbind r f = f a (snd r)" by (cases r) simp
  have "metas_ok d' " if "metas_kept d d'" "metas_ok d" for d d' using that by (simp add: metas_kept_def)
  with assms(1) assms(2) [OF Inr] show ?thesis
    unfolding eq topic_safe_def using metas_kept_trans by blast
qed

lemma topic_safe_return: "topic_safe s (Inr a, s)"
  by (simp add: topic_safe_def)

lemma group_ok_update:
  assumes "list_all (group_ok d) gs" and "group_ok d g"
  shows "list_all (group_ok d) (gs[i := g])"
  using assms set_update_subset_insert [of gs i g] by (auto simp: list_all_iff)

lemma group_ok_set_partition:
  assumes "group_ok d g" and "queue_ok d q"
  shows "group_ok d (g\<lparr>cg_partitions := (cg_partitions g)[i := q]\<rparr>)"
  using assms set_update_subset_insert [of "cg_partitions g" i q] by (auto simp: group_ok_def list_all_iff)

lemma metas_kept_stores:
  "metas_kept d (store_broker_topics ids d)" "metas_kept d (store_topic_groups t ids d)"
  "metas_kept d (store_topic_config t pc mr d)" "metas_kept d (store_committed_offset g t p off d)"
  "metas_kept d (store_idempotency_state t p pid sq off d)" "metas_kept d (cs_store st d)"
  "metas_kept d (store_cgroup_partition_count t g n d)" "metas_kept d (store_meta_offsets e t p bo no d)"
  "metas_kept d (snd (append_record e t p rec d))"
  by (auto intro!: metas_kept_same append_record_frame
      simp: store_broker_topics_def store_topic_groups_def store_ids_frame
      store_topic_config_def store_committed_offset_def store_idempotency_state_def cs_store_def
      store_cgroup_partition_count_def store_meta_offsets_def write_u64_log_def write_u16_def write_u32_def write_u64_def store_simps Let_def path_keys
      split: option.split)

lemma cgroup_create_ok:
  assumes "metas_ok d"
  shows "\<exists>c d'. cgroup_create_new t g d = (Inr c, d') \<and> group_ok d' c \<and> metas_kept d d'"
proof -
  let ?d = "store_cgroup_partition_count t g 1 d"
  have k: "metas_kept d ?d" by (rule metas_kept_stores)
  with assms have "metas_ok ?d" by (simp add: metas_kept_def)
  note o = mq_open_queue_ok [OF this, of t g 1]
  obtain q d' where q: "mq_open t g 1 ?d = (Inr q, d')" "queue_ok d' q" using o(1) by (metis prod.collapse)
  with o(2) k have "metas_kept d d'" using metas_kept_trans by simp
  with q show ?thesis by (simp add: cgroup_create_new_def partition_open_def group_ok_def)
qed

lemma topic_safe_find_or_create: "topic_safe s (find_or_create_group g s)"
proof (rule topic_safeI)
  fix tp d
  assume s: "s = (tp, d)" "metas_ok d" "topic_ok d tp"
  obtain c d1 where c: "cgroup_create_new (tp_topic_id tp) g d = (Inr c, d1)" "group_ok d1 c" "metas_kept d d1"
    using cgroup_create_ok [OF s(2)] by blast
  let ?d = "persist_groups (tp\<lparr>tp_cgroups := tp_cgroups tp @ [c]\<rparr>) d1"
  have k: "metas_kept d1 ?d" by (simp add: persist_groups_def metas_kept_stores)
  then have "topic_ok ?d tp" "group_ok ?d c" "metas_kept d ?d"
    using c topic_ok_mono [OF _ s(3)] group_ok_mono metas_kept_trans by blast+
  with s c(1) show "\<exists>r tp' d'. find_or_create_group g s = (r, tp', d') \<and> \<not> panics r \<and> topic_ok d' tp' \<and> metas_kept d d'"
    by (auto simp: find_or_create_group_def topic_ok_def Let_def)
qed

lemma find_or_create_group_index:
  assumes "find_or_create_group g s = (Inr new, tp', d')"
  shows "group_index tp' g \<noteq> None"
proof -
  have "cg_group_id c = g'" if "cgroup_create_new t g' d = (Inr c, d1)" for t g' d c d1
    using that by (auto simp: cgroup_create_new_def sbind_def split: sum.splits)
  then show ?thesis
    using assms by (auto simp: find_or_create_group_def group_index_def Let_def split: if_splits prod.splits sum.splits)
qed

lemma group_index_bound: "group_index tp g = Some i \<Longrightarrow> i < length (tp_cgroups tp) \<and> cg_group_id (tp_cgroups tp ! i) = g"
proof -
  assume "group_index tp g = Some i"
  then have ex: "\<exists>c\<in>set (tp_cgroups tp). cg_group_id c = g" and i: "i = length (takeWhile (\<lambda>c. cg_group_id c \<noteq> g) (tp_cgroups tp))"
    by (auto simp: group_index_def list_ex_iff split: if_splits)
  from ex have "takeWhile (\<lambda>c. cg_group_id c \<noteq> g) (tp_cgroups tp) \<noteq> tp_cgroups tp" by (auto simp: takeWhile_eq_all_conv)
  then have "i < length (tp_cgroups tp)"
    unfolding i using length_takeWhile_le takeWhile_eq_take by (metis order_le_less take_all_iff)
  then show ?thesis using nth_length_takeWhile [of "\<lambda>c. cg_group_id c \<noteq> g" "tp_cgroups tp"] i by simp
qed

lemma topic_ok_group: "topic_ok d tp \<Longrightarrow> i < length (tp_cgroups tp) \<Longrightarrow> group_ok d (tp_cgroups tp ! i)"
  by (simp add: topic_ok_def list_all_length)

lemma topic_ok_set_group: "topic_ok d tp \<Longrightarrow> group_ok d g \<Longrightarrow> topic_ok d (tp\<lparr>tp_cgroups := (tp_cgroups tp)[i := g]\<rparr>)"
  by (simp add: topic_ok_def group_ok_update)

lemma topic_safe_assign:
  assumes "group_index (fst s) g \<noteq> None"
  shows "topic_safe s (assign_in_group t g s)"
proof (rule topic_safeI)
  fix tp d
  assume s: "s = (tp, d)" "metas_ok d" "topic_ok d tp"
  obtain i where i: "group_index tp g = Some i" using assms s(1) by auto
  let ?c = "tp_cgroups tp ! i"
  have c: "group_ok d ?c" using topic_ok_group [OF s(3)] group_index_bound [OF i] by blast
  let ?id = "of_nat (length (cg_partitions ?c)) + 1 :: u16"
  note o = mq_open_queue_ok [OF s(2), of t "cg_group_id ?c" ?id]
  obtain q d1 where q: "mq_open t (cg_group_id ?c) ?id d = (Inr q, d1)" "queue_ok d1 q" "metas_kept d d1"
    using o by (metis prod.collapse)
  let ?d = "store_cgroup_partition_count t (cg_group_id ?c) (of_nat (Suc (length (cg_partitions ?c)))) d1"
  have k: "metas_kept d ?d" and q': "queue_ok ?d q"
    using metas_kept_trans [OF q(3) metas_kept_stores(7)] queue_ok_mono [OF metas_kept_stores(7) q(2)] by blast+
  have "group_ok ?d (?c\<lparr>cg_consumer_count := n, cg_partitions := cg_partitions ?c @ [q]\<rparr>)" for n
    using group_ok_mono [OF k c] q' by (simp add: group_ok_def)
  moreover have "group_ok d (?c\<lparr>cg_consumer_count := n\<rparr>)" for n using c by (simp add: group_ok_def)
  ultimately show "\<exists>r tp' d'. assign_in_group t g s = (r, tp', d') \<and> \<not> panics r \<and> topic_ok d' tp' \<and> metas_kept d d'"
    using s i q(1) k topic_ok_mono [OF k s(3)]
    by (auto simp: assign_in_group_def assign_partition_def partition_open_def Let_def intro: topic_ok_set_group)
qed

lemma topic_safe_pop: "topic_safe s (pop_in_group g pidx s)"
proof (rule topic_safeI)
  fix tp d
  assume s: "s = (tp, d)" "metas_ok d" "topic_ok d tp"
  show "\<exists>r tp' d'. pop_in_group g pidx s = (r, tp', d') \<and> \<not> panics r \<and> topic_ok d' tp' \<and> metas_kept d d'"
  proof (cases "\<exists>i. group_index tp g = Some i \<and> unat pidx < length (cg_partitions (tp_cgroups tp ! i))")
    case False
    then show ?thesis using s by (auto simp: pop_in_group_def Let_def split: option.split)
  next
    case True
    then obtain i where i: "group_index tp g = Some i" "unat pidx < length (cg_partitions (tp_cgroups tp ! i))" by blast
    let ?c = "tp_cgroups tp ! i"
    have c: "group_ok d ?c" using topic_ok_group [OF s(3)] group_index_bound [OF i(1)] by blast
    then have "queue_ok d (cg_partitions ?c ! unat pidx)" using i(2) by (simp add: group_ok_def list_all_length)
    moreover obtain r q d1 where p: "mq_pop_front (cg_partitions ?c ! unat pidx, d) = (r, q, d1)"
      by (cases "mq_pop_front (cg_partitions ?c ! unat pidx, d)")
    ultimately have r: "\<not> panics r" "queue_ok d1 q" "metas_kept d d1" using mq_pop_queue_ok by blast+
    have "topic_ok d1 (tp\<lparr>tp_cgroups := (tp_cgroups tp)[i := ?c\<lparr>cg_partitions := (cg_partitions ?c)[unat pidx := q]\<rparr>]\<rparr>)"
      using topic_ok_set_group topic_ok_mono [OF r(3) s(3)] group_ok_set_partition [OF group_ok_mono [OF r(3) c] r(2)] by blast
    with s(1) i p r show ?thesis by (simp add: pop_in_group_def partition_pop_front_def Let_def)
  qed
qed

lemma topic_safe_staging: "topic_safe s (append_to_staging payload s)"
proof (rule topic_safeI)
  fix tp d
  assume s: "s = (tp, d)" "metas_ok d" "topic_ok d tp"
  obtain r q d1 where a: "mq_append payload (tp_staging tp, d) = (r, q, d1)" by (cases "mq_append payload (tp_staging tp, d)")
  have "queue_ok d (tp_staging tp)" using s(3) by (simp add: topic_ok_def)
  note ok = mq_append_queue_ok [OF this a]
  have "topic_ok d1 (tp\<lparr>tp_staging := q\<rparr>)" using topic_ok_mono [OF ok(3) s(3)] ok(2) by (simp add: topic_ok_def)
  with s(1) a ok show "\<exists>r tp' d'. append_to_staging payload s = (r, tp', d') \<and> \<not> panics r \<and> topic_ok d' tp' \<and> metas_kept d d'"
    by (simp add: append_to_staging_def)
qed

lemma drain_queue_ok:
  assumes "queue_ok d st" "queue_ok d pt" and "drain n st pt d = (r, st', pt', d')"
  shows "\<not> panics r \<and> queue_ok d' st' \<and> queue_ok d' pt' \<and> metas_kept d d'"
  using assms
proof (induction n arbitrary: st pt d)
  case 0
  then show ?case by auto
next
  case (Suc n)
  obtain r1 st1 d1 where pop: "mq_pop_front (st, d) = (r1, st1, d1)" by (cases "mq_pop_front (st, d)")
  note p = mq_pop_queue_ok [OF Suc.prems(1) pop]
  have pt: "queue_ok d1 pt" using queue_ok_mono [OF p(3) Suc.prems(2)] .
  show ?case
  proof (cases "\<exists>x. r1 = Inr (Some x)")
    case False
    then show ?thesis using Suc.prems(3) pop p pt panics_Inl by (auto split: sum.splits option.splits)
  next
    case True
    then obtain x where x: "r1 = Inr (Some x)" by blast
    obtain r2 pt1 d2 where app: "mq_append x (pt, d1) = (r2, pt1, d2)" by (cases "mq_append x (pt, d1)")
    note a = mq_append_queue_ok [OF pt app]
    have "drain n st1 pt1 d2 = (r, st', pt', d')"
      using Suc.prems(3) pop x app a(1) by (simp add: partition_append_def)
    from Suc.IH [OF queue_ok_mono [OF a(3) p(2)] a(2) this] show ?thesis
      using metas_kept_trans [OF p(3) a(3)] metas_kept_trans by blast
  qed
qed

lemma smallest_loop_bound: "best < n \<Longrightarrow> idx + length qs \<le> n \<Longrightarrow> smallest_loop idx qs best m < n"
  by (induction idx qs best m rule: smallest_loop.induct) auto

lemma smallest_index_ok:
  assumes "group_ok d g"
  shows "\<exists>idx < length (cg_partitions g). smallest_partition_index g = Inr idx"
  using assms smallest_loop_bound [of 0 "length (cg_partitions g)" 1 "tl (cg_partitions g)"]
  by (cases "cg_partitions g") (auto simp: group_ok_def smallest_partition_index_def)

lemma topic_safe_route_group:
  assumes "i < length (tp_cgroups (fst s))"
  shows "topic_safe s (route_group payload i s)"
proof (rule topic_safeI)
  fix tp d
  assume s: "s = (tp, d)" "metas_ok d" "topic_ok d tp"
  let ?c = "tp_cgroups tp ! i"
  have c: "group_ok d ?c" using topic_ok_group [OF s(3)] assms s(1) by simp
  then obtain idx where idx: "idx < length (cg_partitions ?c)" "smallest_partition_index ?c = Inr idx"
    using smallest_index_ok by blast
  have q: "queue_ok d (tp_staging tp)" "queue_ok d (cg_partitions ?c ! idx)"
    using s(3) c idx(1) by (simp_all add: topic_ok_def group_ok_def list_all_length)
  obtain r st pt d1 where dr: "drain QUEUE_CAPACITY (tp_staging tp) (cg_partitions ?c ! idx) d = (r, st, pt, d1)"
    by (cases "drain QUEUE_CAPACITY (tp_staging tp) (cg_partitions ?c ! idx) d")
  from drain_queue_ok [OF q dr] have d1: "\<not> panics r" "queue_ok d1 st" "queue_ok d1 pt" "metas_kept d d1" by simp_all
  obtain r2 pt1 d2 where app: "mq_append payload (pt, d1) = (r2, pt1, d2)" by (cases "mq_append payload (pt, d1)")
  note a = mq_append_queue_ok [OF d1(3) app]
  have k2: "metas_kept d d2" using metas_kept_trans [OF d1(4) a(3)] .
  have "topic_ok d' (tp\<lparr>tp_staging := st, tp_cgroups := (tp_cgroups tp)[i := ?c\<lparr>cg_partitions := (cg_partitions ?c)[idx := q]\<rparr>]\<rparr>)"
    if "metas_kept d d'" "queue_ok d' st" "queue_ok d' q" for d' q
    using topic_ok_mono [OF that(1) s(3)] that(2) group_ok_set_partition [OF group_ok_mono [OF that(1) c] that(3)]
    by (simp add: topic_ok_def group_ok_update)
  note this [OF d1(4,2,3)] this [OF k2 queue_ok_mono [OF a(3) d1(2)] a(2)]
  with s(1) idx(2) dr app a(1) d1 k2 show
    "\<exists>r tp' d'. route_group payload i s = (r, tp', d') \<and> \<not> panics r \<and> topic_ok d' tp' \<and> metas_kept d d'"
    using panics_Inl by (cases r) (auto simp: route_group_def partition_append_def Let_def)
qed

lemma route_group_length: "length (tp_cgroups (fst (snd (route_group payload i s)))) = length (tp_cgroups (fst s))"
  by (auto simp: route_group_def Let_def split: prod.split sum.split)

lemma topic_safe_route_groups:
  "i + n \<le> length (tp_cgroups (fst s)) \<Longrightarrow> topic_safe s (route_groups payload i n s)"
proof (induction n arbitrary: i s)
  case 0
  then show ?case by (simp add: topic_safe_return)
next
  case (Suc n)
  have "topic_safe (snd (route_group payload i s)) (route_groups payload (Suc i) n (snd (route_group payload i s)))"
    using Suc by (simp add: route_group_length)
  then show ?case
    using Suc.prems topic_safe_sbind [OF topic_safe_route_group [of i s payload], of "\<lambda>_. route_groups payload (Suc i) n"] by simp
qed

section \<open>The broker\<close>

definition push_ok :: "broker \<Rightarrow> bool" where
  "push_ok b \<longleftrightarrow> metas_ok (b_dir b) \<and> (\<forall>t tp. hm_get (b_topics b) t = Some tp \<longrightarrow> topic_ok (b_dir b) tp)"

definition safe :: "broker \<Rightarrow> 'a io_result \<times> broker \<Rightarrow> bool" where
  "safe b rb \<longleftrightarrow> (push_ok b \<longrightarrow> \<not> panics (fst rb) \<and> push_ok (snd rb))"

lemma safe_sbind:
  assumes "safe b r" and "\<And>a. fst r = Inr a \<Longrightarrow> safe (snd r) (f a (snd r))"
  shows "safe b (sbind r f)"
proof (cases "fst r")
  case (Inl e)
  then have "sbind r f = (Inl e, snd r)" by (cases r) simp
  with assms(1) Inl show ?thesis using panics_Inl [of e] by (auto simp: safe_def)
next
  case (Inr a)
  then have "sbind r f = f a (snd r)" by (cases r) simp
  with assms(1) assms(2) [OF Inr] show ?thesis by (simp add: safe_def)
qed

lemma safe_fail: "\<not> panics r \<Longrightarrow> safe b (r, b)"
  by (simp add: safe_def)

lemma safe_return [intro]: "safe b (Inr a, b)"
  by (simp add: safe_def)

text \<open>An operation that leaves the topics alone and writes to other files only.\<close>

lemma push_ok_quiet:
  "b_topics b' = b_topics b \<Longrightarrow> metas_kept (b_dir b) (b_dir b') \<Longrightarrow> push_ok b \<Longrightarrow> push_ok b'"
  unfolding push_ok_def using topic_ok_mono by (auto simp: metas_kept_def)

lemma safe_quiet:
  "b_topics b' = b_topics b \<Longrightarrow> metas_kept (b_dir b) (b_dir b') \<Longrightarrow> \<not> panics r \<Longrightarrow> safe b (r, b')"
  using push_ok_quiet by (simp add: safe_def)

lemma push_ok_ensure [simp]: "push_ok (ensure_log_with_config t p b) = push_ok b"
  by (simp add: push_ok_def ensure_log_with_config_def)

lemma push_ok_put_topic:
  assumes "push_ok b" and "topic_ok d tp" and "metas_kept (b_dir b) d"
  shows "push_ok (b\<lparr>b_dir := d, b_topics := hm_insert t tp (b_topics b)\<rparr>)"
    and "push_ok (b\<lparr>b_topics := hm_insert t tp (b_topics b), b_dir := d\<rparr>)"
  using assms topic_ok_mono [OF assms(3)] by (auto simp: push_ok_def metas_kept_def split: if_splits)

lemma safe_topic_mut: "safe b (topic_mut t b)"
proof (cases "hm_contains (b_topics b) t")
  case True
  then show ?thesis by (simp add: topic_mut_def safe_def)
next
  case False
  show ?thesis
  proof (cases "push_ok b")
    case True
    then have "metas_ok (b_dir b)" by (simp add: push_ok_def)
    note o = mq_open_queue_ok [OF this, of t STAGING_GROUP_ID STAGING_PARTITION_ID]
    obtain q d where q: "mq_open t STAGING_GROUP_ID STAGING_PARTITION_ID (b_dir b) = (Inr q, d)" "queue_ok d q"
      "metas_kept (b_dir b) d" using o by (metis prod.collapse)
    let ?tp = "\<lparr>tp_topic_id = t, tp_staging = q, tp_cgroups = []\<rparr>"
    let ?b1 = "b\<lparr>b_dir := d, b_topics := hm_insert t ?tp (b_topics b)\<rparr>"
    have "push_ok ?b1" using push_ok_put_topic(1) [OF True _ q(3), of ?tp] q(2) by (simp add: topic_ok_def)
    then have "push_ok (persist_topics (?b1\<lparr>b_topic_configs := cs\<rparr>))" for cs
      using push_ok_quiet [of "persist_topics (?b1\<lparr>b_topic_configs := cs\<rparr>)" ?b1] by (simp add: persist_topics_def metas_kept_stores)
    then show ?thesis using False q(1) by (simp add: safe_def topic_mut_def topic_create_def Let_def)
  qed (simp add: safe_def)
qed

lemma topic_mut_present: "fst (topic_mut t b) = Inr () \<Longrightarrow> hm_get (b_topics (snd (topic_mut t b))) t \<noteq> None"
  by (auto simp: topic_mut_def ensure_log_with_config_def persist_topics_def hm_contains_def Let_def
      split: if_splits prod.splits sum.splits)

lemma safe_with_topic:
  assumes "hm_get (b_topics b) t = Some tp" and "topic_safe (tp, b_dir b) (f (tp, b_dir b))"
  shows "safe b (with_topic t f b)"
proof -
  obtain r tp' d where f: "f (tp, b_dir b) = (r, tp', d)" by (cases "f (tp, b_dir b)")
  have "\<not> panics r \<and> push_ok (b\<lparr>b_topics := hm_insert t tp' (b_topics b), b_dir := d\<rparr>)" if "push_ok b"
  proof -
    have "metas_ok (b_dir b)" "topic_ok (b_dir b) tp" using that assms(1) by (simp_all add: push_ok_def)
    with assms(2) f have "\<not> panics r" "topic_ok d tp'" "metas_kept (b_dir b) d" by (simp_all add: topic_safe_def)
    with push_ok_put_topic(2) [OF that] show ?thesis by blast
  qed
  then show ?thesis using assms(1) f by (simp add: safe_def with_topic_def)
qed

lemma safe_write_record: "safe b (write_record e t p rec b)"
proof -
  obtain r d where a: "append_record e t p rec (b_dir b) = (r, d)" by (cases "append_record e t p rec (b_dir b)")
  have k: "metas_kept (b_dir b) d" using metas_kept_stores(9) [of "b_dir b" e t p rec] a by simp
  have np: "\<not> panics r" using a by (auto simp: append_record_def Let_def split: if_splits)
  have k': "metas_kept (b_dir b) (b_dir (persist_log_meta e t p (b\<lparr>b_dir := d\<rparr>)))"
    using metas_kept_trans [OF k metas_kept_stores(8)] k by (simp add: persist_log_meta_def split: option.split)
  have "b_topics (persist_log_meta e t p (b\<lparr>b_dir := d\<rparr>)) = b_topics b" by (simp add: persist_log_meta_def split: option.split)
  note q = push_ok_quiet [OF this k']
  have q': "push_ok b \<Longrightarrow> push_ok (b\<lparr>b_dir := d\<rparr>)" using push_ok_quiet [of "b\<lparr>b_dir := d\<rparr>" b] k by simp
  show ?thesis
  proof (cases r)
    case (Inl err)
    then have "\<not> panics (Inl err :: unit io_result)" using np by simp
    with Inl a q' show ?thesis by (simp add: write_record_def safe_def)
  next
    case (Inr u)
    with a q show ?thesis by (simp add: write_record_def safe_def)
  qed
qed

lemma ensure_log_present: "hm_get (b_logs (ensure_log_with_config t p b)) (t, p) \<noteq> None"
  by (simp add: ensure_log_with_config_def)

lemma safe_cong: "push_ok b' = push_ok b \<Longrightarrow> safe b' r \<Longrightarrow> safe b r"
  by (simp add: safe_def)

lemma push_ok_logs [simp]: "push_ok (b\<lparr>b_logs := l\<rparr>) = push_ok b"
  by (simp add: push_ok_def)

lemma push_ok_metrics [simp]: "push_ok (b\<lparr>b_metrics := m\<rparr>) = push_ok b"
  by (simp add: push_ok_def)

text \<open>The end of \<open>append_log\<close>, on the log that is there.\<close>

lemma safe_log_section:
  "safe b (let b2 = ensure_log_with_config t p b in case hm_get (b_logs b2) (t, p) of None \<Rightarrow> (log_exists_panic, b2)
      | Some log \<Rightarrow> let (off, log') = log_append log x; b3 = b2\<lparr>b_logs := hm_insert (t, p) log' (b_logs b2)\<rparr>
        in sbind (write_record e t p \<lparr>rec_offset = off, rec_payload = x\<rparr> b3) (\<lambda>_ b4.
             (Inr off, b4\<lparr>b_metrics := record_produce (length x) (b_metrics b4)\<rparr>)))"
proof -
  let ?b2 = "ensure_log_with_config t p b"
  obtain log where log: "hm_get (b_logs ?b2) (t, p) = Some log" using ensure_log_present by blast
  obtain off log' where la: "log_append log x = (off, log')" by (cases "log_append log x")
  let ?b3 = "?b2\<lparr>b_logs := hm_insert (t, p) log' (b_logs ?b2)\<rparr>"
  have "safe ?b3 (sbind (write_record e t p \<lparr>rec_offset = off, rec_payload = x\<rparr> ?b3) (\<lambda>_ b4.
      (Inr off, b4\<lparr>b_metrics := record_produce (length x) (b_metrics b4)\<rparr>)))"
    by (rule safe_sbind [OF safe_write_record]) (simp add: safe_def)
  then have "safe b (sbind (write_record e t p \<lparr>rec_offset = off, rec_payload = x\<rparr> ?b3) (\<lambda>_ b4.
      (Inr off, b4\<lparr>b_metrics := record_produce (length x) (b_metrics b4)\<rparr>)))"
    by (rule safe_cong [rotated]) simp
  then show ?thesis by (simp add: Let_def log la)
qed

lemma no_panic_checks:
  "\<not> panics (validate_produce_payload e n)" "\<not> panics (resolve st t p pid sq)" "\<not> panics (load_committed_offset d g t p)"
  by (auto simp: validate_produce_payload_def resolve_def load_committed_offset_def file_read_defs Let_def
      split: option.split)

lemma safe_append_log: "safe b (append_log e t p x b)"
  unfolding append_log_def by (intro safe_sbind safe_fail no_panic_checks safe_topic_mut safe_log_section)

lemma safe_apply_replica: "safe b (apply_replica e t p off x b)"
proof -
  let ?b1 = "ensure_log_with_config t p b"
  obtain log where log: "hm_get (b_logs ?b1) (t, p) = Some log" using ensure_log_present by blast
  have "safe b (write_record e t p rec (?b1\<lparr>b_logs := l\<rparr>))" for rec l
    by (rule safe_cong [OF _ safe_write_record]) simp
  with log show ?thesis
    by (auto simp: apply_replica_def not_a_replica_def Let_def case_prod_unfold safe_def [of b "(Inr (), _)"] safe_def [of b "(io_err _ _, _)"])
qed

lemma safe_fetch_log: "safe b (fetch_log e req b)"
  using ensure_log_present [of "fetch_topic_id req" "fetch_partition_id req" b]
  by (auto simp: fetch_log_def ensure_log_def not_a_replica_def safe_def Let_def)

lemma safe_record_seq:
  "safe b (case record_seq t p pid sq off (b_idempotency b, b_dir b) of (st, d) \<Rightarrow> (Inr off, b\<lparr>b_idempotency := st, b_dir := d\<rparr>))"
  by (simp add: record_seq_def safe_quiet metas_kept_stores)

lemma safe_produce_idempotent: "safe b (produce_idempotent e req b)"
  unfolding produce_idempotent_def
  by (intro safe_sbind safe_fail no_panic_checks)
    (auto intro!: safe_sbind safe_append_log safe_record_seq split: idempotency_action.split)

lemma safe_load_commit: "safe b (broker_load_committed_offset g t p b)"
  using no_panic_checks(3) [of "b_dir b" g t p]
  by (auto simp: broker_load_committed_offset_def sbind_def panics_def split: option.split sum.split intro!: safe_quiet)

lemma push_ok_fold_ensure: "push_ok (fold (\<lambda>p. ensure_log_with_config t (g p)) ps b) = push_ok b"
  by (induction ps arbitrary: b) simp_all

lemma safe_create_topic: "safe b (create_topic cfg b)"
proof (cases "hm_contains (b_topics b) (tc_topic_id cfg)")
  case True
  then show ?thesis by (simp add: create_topic_def safe_return)
next
  case False
  let ?t = "tc_topic_id cfg"
  let ?b1 = "b\<lparr>b_dir := store_topic_config ?t (tc_partition_count cfg) (tc_max_records cfg) (b_dir b),
    b_topic_configs := hm_insert ?t cfg (b_topic_configs b)\<rparr>"
  have k: "push_ok b \<Longrightarrow> push_ok ?b1" using push_ok_quiet [of ?b1 b] by (simp add: metas_kept_stores)
  have "safe ?b1 (sbind (topic_mut ?t ?b1) (\<lambda>_ b2.
      (Inr 0, fold (\<lambda>p. ensure_log_with_config ?t (of_nat p)) [0..<unat (tc_partition_count cfg)] b2)))"
    by (rule safe_sbind [OF safe_topic_mut]) (simp add: safe_def push_ok_fold_ensure)
  moreover have "create_topic cfg b = sbind (topic_mut ?t ?b1) (\<lambda>_ b2.
      (Inr 0, fold (\<lambda>p. ensure_log_with_config ?t (of_nat p)) [0..<unat (tc_partition_count cfg)] b2))"
    using False by (simp add: create_topic_def Let_def)
  ultimately show ?thesis using k by (simp only: safe_def) blast
qed

lemma safe_join: "safe b (broker_join_group now req b)"
  unfolding broker_join_group_def
  by (rule safe_sbind [OF safe_topic_mut]) (simp add: Let_def case_prod_unfold safe_quiet)

text \<open>After \<open>topic_mut\<close> the topic is there, whatever is done to it.\<close>

lemma safe_on_topic:
  assumes "\<And>tp d. topic_safe (tp, d) (f (tp, d))" and "hm_get (b_topics b) t \<noteq> None"
  shows "safe b (with_topic t f b)"
  using assms safe_with_topic by (metis not_Some_eq)

lemma with_topic_present:
  "hm_get (b_topics b) t \<noteq> None \<Longrightarrow> hm_get (b_topics (snd (with_topic t f b))) t \<noteq> None"
  by (auto simp: with_topic_def split: prod.split)

lemma topic_mut_then:
  assumes "\<And>b. hm_get (b_topics b) t \<noteq> None \<Longrightarrow> safe b (k b)"
  shows "safe b (sbind (topic_mut t b) (\<lambda>_ b1. k b1))"
  by (rule safe_sbind [OF safe_topic_mut]) (use assms topic_mut_present in auto)

lemma safe_find_or_create: "hm_get (b_topics b) t \<noteq> None \<Longrightarrow> safe b (with_topic t (find_or_create_group g) b)"
  by (rule safe_on_topic [OF topic_safe_find_or_create])

lemma safe_register_consumer: "safe b (register_consumer reg b)"
  unfolding register_consumer_def
proof (rule topic_mut_then)
  let ?t = "creg_topic_id reg" and ?g = "creg_group_id reg"
  fix b :: broker
  assume t: "hm_get (b_topics b) ?t \<noteq> None"
  show "safe b (sbind (with_topic ?t (find_or_create_group ?g) b) (\<lambda>_ b2. with_topic ?t (assign_in_group ?t ?g) b2))"
  proof (rule safe_sbind [OF safe_find_or_create [OF t]])
    fix new
    assume ok: "fst (with_topic ?t (find_or_create_group ?g) b) = Inr new"
    obtain tp where tp: "hm_get (b_topics b) ?t = Some tp" using t by blast
    obtain r tp' d where f: "find_or_create_group ?g (tp, b_dir b) = (r, tp', d)" by (cases "find_or_create_group ?g (tp, b_dir b)")
    with ok tp have r: "r = Inr new" by (simp add: with_topic_def)
    from find_or_create_group_index [OF f [unfolded r]] have "group_index tp' ?g \<noteq> None" .
    then show "safe (snd (with_topic ?t (find_or_create_group ?g) b))
        (with_topic ?t (assign_in_group ?t ?g) (snd (with_topic ?t (find_or_create_group ?g) b)))"
      using tp f by (intro safe_with_topic [of _ _ tp'] topic_safe_assign) (simp_all add: with_topic_def)
  qed
qed

lemma topic_safe_produce:
  "topic_safe (tp, d) (if tp_cgroups tp = [] then sbind (append_to_staging x (tp, d)) (\<lambda>off s. (Inr (0, max lo off), s))
     else sbind (route_groups x 0 (length (tp_cgroups tp)) (tp, d)) (\<lambda>_ s. (Inr (0, lo), s)))"
  by (auto intro!: topic_safe_sbind topic_safe_staging topic_safe_route_groups topic_safe_return)

lemma safe_produce_pcm: "safe b (produce_pcm e t x b)"
  unfolding produce_pcm_def
proof (rule safe_sbind [OF safe_append_log])
  fix lo
  let ?b1 = "snd (append_log e t 0 x b)"
  let ?f = "\<lambda>(tp, d). if tp_cgroups tp = [] then sbind (append_to_staging x (tp, d)) (\<lambda>off s. (Inr (0 :: u8, max lo off), s))
         else sbind (route_groups x 0 (length (tp_cgroups tp)) (tp, d)) (\<lambda>_ s. (Inr (0, lo), s))"
  have "safe ?b1 (sbind (topic_mut t ?b1) (\<lambda>_ b2. with_topic t ?f b2))"
    by (rule topic_mut_then, rule safe_on_topic) (simp_all only: prod.case topic_safe_produce not_False_eq_True)
  then show "safe ?b1 (if \<not> legacy_push_enabled e ?b1 then (Inr (0, lo), ?b1)
      else sbind (topic_mut t ?b1) (\<lambda>_ b2. with_topic t ?f b2))"
    by (simp add: safe_return)
qed

lemma safe_deliver_poll: "safe b (deliver_poll t g pidx b)"
  using safe_on_topic [OF topic_safe_pop, of b t] by (auto simp: deliver_poll_def hm_contains_def safe_return)

lemma safe_consume_one: "safe b (consume_one t g pidx b)"
proof (cases "hm_get (b_topics b) t = None")
  case True
  then show ?thesis by (simp add: consume_one_def hm_contains_def safe_return)
next
  case False
  then have "safe b (sbind (with_topic t (find_or_create_group g) b) (\<lambda>_ b1. with_topic t (pop_in_group g pidx) b1))"
    by (intro safe_sbind safe_find_or_create safe_on_topic topic_safe_pop with_topic_present)
  with False show ?thesis by (simp add: consume_one_def hm_contains_def)
qed

lemma safe_ensure_group: "safe b (ensure_group t g b)"
  unfolding ensure_group_def by (rule topic_mut_then) (intro safe_sbind safe_find_or_create safe_return)

lemma safe_register_producer: "safe b (register_producer reg b)"
  unfolding register_producer_def by (intro safe_sbind safe_topic_mut safe_return)

section \<open>Opening a broker\<close>

definition dir_safe :: "data_dir \<Rightarrow> 'a io_result \<times> data_dir \<Rightarrow> ('a \<Rightarrow> data_dir \<Rightarrow> bool) \<Rightarrow> bool" where
  "dir_safe d rd ok \<longleftrightarrow> \<not> panics (fst rd) \<and>
     (metas_ok d \<longrightarrow> metas_kept d (snd rd) \<and> (\<forall>a. fst rd = Inr a \<longrightarrow> ok a (snd rd)))"

lemma dir_safe_sbind:
  assumes "dir_safe d r P" and "\<And>a. fst r = Inr a \<Longrightarrow> dir_safe (snd r) (f a (snd r)) (\<lambda>c d'. P a (snd r) \<longrightarrow> Q c d')"
  shows "dir_safe d (sbind r f) Q"
proof (cases "fst r")
  case (Inl e)
  then have "sbind r f = (Inl e, snd r)" by (cases r) simp
  with assms(1) Inl show ?thesis using panics_Inl [of e] by (auto simp: dir_safe_def)
next
  case (Inr a)
  then have eq: "sbind r f = f a (snd r)" by (cases r) simp
  have k: "metas_kept d (snd r) \<and> metas_ok (snd r) \<and> P a (snd r)" if "metas_ok d"
    using assms(1) Inr that by (simp add: dir_safe_def metas_kept_def)
  with assms(2) [OF Inr] show ?thesis unfolding eq dir_safe_def using metas_kept_trans by blast
qed

lemma no_panic_loads:
  "\<not> panics (load_broker_topics d)" "\<not> panics (load_topic_groups d t)" "\<not> panics (load_cgroup_partition_count d t g)"
  "\<not> panics (load_topic_config d t)" "\<not> panics (idempotency_load d)" "\<not> panics (load_partition_log d t p mr)"
  "\<not> panics (cluster_state_decode c)"
proof -
  have rd: "panic_free (file_read_u16 c i)" "panic_free (file_read_u32 c i)" "panic_free (file_read_u64 c i)" for c i
    by (simp_all add: panic_free_def file_read_defs)
  have ids: "panic_free (read_ids c i n)" for c i n by (induction n arbitrary: i) (auto simp: rd)
  have idem: "panic_free (load_all_loop d names out)" for names out
    by (induction names arbitrary: out) (auto simp: load_idempotency_state_def rd split: option.split prod.split)
  have loop: "panic_free (load_loop bs log)" for bs log
    by (induction bs log rule: load_loop.induct) (subst load_loop.simps, simp add: Let_def)
  show "\<not> panics (load_broker_topics d)" "\<not> panics (load_topic_groups d t)" "\<not> panics (load_cgroup_partition_count d t g)"
    "\<not> panics (load_topic_config d t)" "\<not> panics (idempotency_load d)" "\<not> panics (load_partition_log d t p mr)"
    "\<not> panics (cluster_state_decode c)"
    unfolding panic_free_def [symmetric]
    by (auto simp: load_broker_topics_def load_topic_groups_def load_ids_def load_cgroup_partition_count_def load_topic_config_def
        idempotency_load_def load_all_idempotency_def load_partition_log_def rd ids idem loop cluster_state_decode_def
        decode_body_panic_free split: option.split)
qed

lemma dir_safe_load: "\<not> panics r \<Longrightarrow> dir_safe d (r, d) (\<lambda>_ _. True)"
  by (simp add: dir_safe_def)

lemma dir_safe_mono: "dir_safe d rd P \<Longrightarrow> (\<And>a d'. P a d' \<Longrightarrow> Q a d') \<Longrightarrow> dir_safe d rd Q"
  by (auto simp: dir_safe_def)

lemma dir_safe_return: "(metas_ok d \<Longrightarrow> P a d) \<Longrightarrow> dir_safe d (Inr a, d) P"
  by (simp add: dir_safe_def)

lemma dir_safe_mq_open: "dir_safe d (mq_open t g p d) (\<lambda>q d'. queue_ok d' q)"
  using mq_open_ok [of t g p d] mq_open_queue_ok [of d t g p] by (auto simp: dir_safe_def)

lemma dir_safe_keep:
  assumes "dir_safe d rd P" and "metas_ok d \<Longrightarrow> X d" and "\<And>d d'. metas_kept d d' \<Longrightarrow> X d \<Longrightarrow> X d'"
  shows "dir_safe d rd (\<lambda>a d'. P a d' \<and> X d')"
  using assms by (auto simp: dir_safe_def)

lemma dir_safe_open_partitions:
  "dir_safe d (open_partitions t g i n d) (\<lambda>qs d'. length qs = n \<and> list_all (queue_ok d') qs)"
proof (induction n arbitrary: i d)
  case 0
  then show ?case by (simp add: dir_safe_def)
next
  case (Suc n)
  show ?case
    unfolding open_partitions.simps partition_open_def
  proof (rule dir_safe_sbind [OF dir_safe_mq_open])
    fix q
    let ?d1 = "snd (mq_open t g (of_nat i + 1) d)"
    have "dir_safe ?d1 (sbind (open_partitions t g (Suc i) n ?d1) (\<lambda>qs d2. (Inr (q # qs), d2)))
        (\<lambda>qs d'. length qs = Suc n \<and> list_all (queue_ok d') (tl qs) \<and> hd qs = q)"
      by (rule dir_safe_sbind [OF Suc]) (simp add: dir_safe_def)
    moreover have "metas_kept ?d1 d' \<Longrightarrow> queue_ok ?d1 q \<Longrightarrow> queue_ok d' q" for d' by (rule queue_ok_mono)
    ultimately show "dir_safe ?d1 (sbind (open_partitions t g (Suc i) n ?d1) (\<lambda>qs d2. (Inr (q # qs), d2)))
        (\<lambda>qs d'. queue_ok ?d1 q \<longrightarrow> length qs = Suc n \<and> list_all (queue_ok d') qs)"
      unfolding dir_safe_def by (auto simp: length_Suc_conv)
  qed
qed

lemma max_1_pos: "0 < unat (max (c :: u32) 1)"
  by (auto simp: max_def word_le_nat_alt unat_gt_0)

lemma dir_safe_cgroup_load: "dir_safe d (cgroup_load t g d) (\<lambda>c d'. group_ok d' c)"
  unfolding cgroup_load_def Let_def
proof (rule dir_safe_sbind [OF dir_safe_load [OF no_panic_loads(3)]])
  fix count :: u32
  let ?d = "snd (load_cgroup_partition_count d t g, d)"
  show "dir_safe ?d (sbind (open_partitions t g 0 (unat (max count 1)) ?d) (\<lambda>qs d2.
      (Inr \<lparr>cg_group_id = g, cg_partitions = qs, cg_consumer_count = max count 1\<rparr>, d2))) (\<lambda>c d'. True \<longrightarrow> group_ok d' c)"
    by (rule dir_safe_sbind [OF dir_safe_open_partitions])
      (use max_1_pos [of count] in \<open>auto simp: dir_safe_def group_ok_def\<close>)
qed

lemma dir_safe_load_groups: "dir_safe d (load_groups t gs d) (\<lambda>cs d'. list_all (group_ok d') cs)"
proof (induction gs arbitrary: d)
  case Nil
  then show ?case by (simp add: dir_safe_def)
next
  case (Cons g gs)
  show ?case
    unfolding load_groups.simps
  proof (rule dir_safe_sbind [OF dir_safe_cgroup_load])
    fix c
    let ?d1 = "snd (cgroup_load t g d)"
    have "dir_safe ?d1 (sbind (load_groups t gs ?d1) (\<lambda>cs d2. (Inr (c # cs), d2)))
        (\<lambda>cs d'. cs \<noteq> [] \<and> list_all (group_ok d') (tl cs) \<and> hd cs = c)"
      by (rule dir_safe_sbind [OF Cons]) (simp add: dir_safe_def)
    then show "dir_safe ?d1 (sbind (load_groups t gs ?d1) (\<lambda>cs d2. (Inr (c # cs), d2)))
        (\<lambda>cs d'. group_ok ?d1 c \<longrightarrow> list_all (group_ok d') cs)"
      unfolding dir_safe_def using group_ok_mono by (auto simp: neq_Nil_conv)
  qed
qed

lemma dir_safe_topic_load: "dir_safe d (topic_load t d) (\<lambda>tp d'. topic_ok d' tp)"
  unfolding topic_load_def
proof (rule dir_safe_sbind [OF dir_safe_mq_open])
  fix st
  let ?d1 = "snd (mq_open t STAGING_GROUP_ID STAGING_PARTITION_ID d)"
  let ?rest = "sbind (load_topic_groups ?d1 t, ?d1) (\<lambda>ids d2. sbind (load_groups t ids d2) (\<lambda>cs d3.
      (Inr \<lparr>tp_topic_id = t, tp_staging = st, tp_cgroups = cs\<rparr>, d3)))"
  have "dir_safe ?d1 ?rest (\<lambda>tp d'. list_all (group_ok d') (tp_cgroups tp) \<and> tp_staging tp = st)"
    by (rule dir_safe_sbind [OF dir_safe_load [OF no_panic_loads(2)]], rule dir_safe_sbind [OF dir_safe_load_groups])
      (simp add: dir_safe_def)
  then show "dir_safe ?d1 ?rest (\<lambda>tp d'. queue_ok ?d1 st \<longrightarrow> topic_ok d' tp)"
    unfolding dir_safe_def topic_ok_def using queue_ok_mono by blast
qed

definition topics_ok :: "(u16, topic) hmap \<Rightarrow> data_dir \<Rightarrow> bool" where
  "topics_ok ts d \<longleftrightarrow> (\<forall>t tp. hm_get ts t = Some tp \<longrightarrow> topic_ok d tp)"

lemma topics_ok_mono: "metas_kept d d' \<Longrightarrow> topics_ok ts d \<Longrightarrow> topics_ok ts d'"
  unfolding topics_ok_def using topic_ok_mono by blast

lemma dir_safe_load_topics:
  "dir_safe d (load_topics ids ts cs d) (\<lambda>x d'. topics_ok ts d \<longrightarrow> topics_ok (fst x) d')"
proof (induction ids arbitrary: ts cs d)
  case Nil
  then show ?case by (simp add: dir_safe_def)
next
  case (Cons t ids)
  show ?case
    unfolding load_topics.simps
  proof (rule dir_safe_sbind)
    show "dir_safe d (topic_load t d) (\<lambda>tp d'. topic_ok d' tp \<and> (topics_ok ts d \<longrightarrow> topics_ok ts d'))"
      by (rule dir_safe_keep [OF dir_safe_topic_load]) (use topics_ok_mono in auto)
    fix tp
    let ?d1 = "snd (topic_load t d)"
    have new: "topics_ok ts ?d1 \<Longrightarrow> topic_ok ?d1 tp \<Longrightarrow> topics_ok (hm_insert t tp ts) ?d1"
      by (auto simp: topics_ok_def split: if_splits)
    show "dir_safe ?d1 (sbind (load_topic_config ?d1 t, ?d1) (\<lambda>c d2. load_topics ids (hm_insert t tp ts)
          (case c of Some (pc, mr) \<Rightarrow> hm_insert t (topic_config_new t pc mr) cs | None \<Rightarrow> cs) d2))
        (\<lambda>x d'. topic_ok ?d1 tp \<and> (topics_ok ts d \<longrightarrow> topics_ok ts ?d1) \<longrightarrow>
          (topics_ok ts d \<longrightarrow> topics_ok (fst x) d'))"
      by (rule dir_safe_sbind [OF dir_safe_load [OF no_panic_loads(4)]], rule dir_safe_mono [OF Cons])
        (use new in auto)
  qed
qed

lemma load_logs_no_panic: "\<not> panics (load_logs b)"
proof -
  have parts: "panic_free (load_partitions i n t mr b)" for i n t mr b
    using no_panic_loads(6) [folded panic_free_def] by (induction n arbitrary: i b) auto
  have "panic_free (load_logs_of ts b)" for ts
    by (induction ts arbitrary: b) (auto simp: Let_def parts)
  then show ?thesis by (simp add: load_logs_def panic_free_def)
qed

text \<open>Opening a broker panics on no directory, and what it opens is sound if the queue files are.\<close>

lemma dir_safe_boot:
  "dir_safe d (case cluster of
      Some seed \<Rightarrow> sbind (open_or_bootstrap now seed d) (\<lambda>st d3. (Inr (Some (to_cluster_config st), Some st), d3))
    | None \<Rightarrow> (Inr (None, None), d)) (\<lambda>_ _. True)"
proof -
  have "dir_safe d (open_or_bootstrap now seed d) (\<lambda>_ _. True)" for seed
    by (simp add: dir_safe_def open_or_bootstrap_def no_panic_loads metas_kept_stores Let_def split: option.split)
  then show ?thesis by (auto simp: dir_safe_def [of _ "(_, _)"] split: option.split intro!: dir_safe_sbind)
qed

lemma load_logs_push_ok: "load_logs b = Inr b' \<Longrightarrow> push_ok b' = push_ok b \<and> b_dir b' = b_dir b"
  using load_logs_frame [of b b'] push_ok_logs [of "b_logs b'" b] by (metis broker.select_convs(5) broker.surjective broker.update_convs(2))

lemma dir_safe_keep_topics:
  "dir_safe d rd (\<lambda>_ _. True) \<Longrightarrow> dir_safe d rd (\<lambda>_ d'. topics_ok ts d \<longrightarrow> topics_ok ts d')"
  using dir_safe_keep [of d rd "\<lambda>_ _. True" "\<lambda>d'. topics_ok ts d \<longrightarrow> topics_ok ts d'"] topics_ok_mono by auto

lemma dir_safe_load_logs:
  "dir_safe d (load_logs b, d) (\<lambda>b' d'. topics_ok (b_topics b) d \<longrightarrow> b_dir b = d \<longrightarrow> push_ok b' \<and> b_dir b' = d')"
proof -
  have "push_ok b' \<and> b_dir b' = d" if "metas_ok d" "load_logs b = Inr b'" "topics_ok (b_topics b) d" "b_dir b = d" for b'
  proof -
    have "push_ok b" using that(1,3,4) by (simp add: push_ok_def topics_ok_def)
    with load_logs_push_ok [OF that(2)] that(4) show ?thesis by simp
  qed
  then show ?thesis by (simp add: dir_safe_def load_logs_no_panic)
qed

lemma open_dir_safe:
  "dir_safe d (open_with_cluster_and_id e now cluster i d) (\<lambda>b d'. push_ok b \<and> b_dir b = d')"
  unfolding open_with_cluster_and_id_def
proof (rule dir_safe_sbind [OF dir_safe_load [OF no_panic_loads(1)]], rule dir_safe_sbind [OF dir_safe_load_topics], goal_cases)
  case (1 ids tscs)
  obtain ts cs where tscs: "tscs = (ts, cs)" by (cases tscs)
  show ?case
    unfolding tscs prod.case
  proof (rule dir_safe_sbind [OF dir_safe_keep_topics [of _ _ ts, OF dir_safe_boot]], goal_cases)
    case (1 clst)
    obtain cl st where clst: "clst = (cl, st)" by (cases clst)
    show ?case
      unfolding clst prod.case
      by (rule dir_safe_sbind [OF dir_safe_load [OF no_panic_loads(5)]], rule dir_safe_mono [OF dir_safe_load_logs])
        (simp add: topics_ok_def)
  qed
qed

section \<open>The life of a broker\<close>

lemma push_ok_control:
  assumes "push_ok b"
  shows "push_ok (broker_commit_offset creq b)" "push_ok (snd (broker_group_heartbeat e now greq b))"
    "push_ok (snd (handle_broker_heartbeat e now breq b))" "push_ok (snd (run_failover_at e now b))"
    "push_ok (controller_tick e now b)" "push_ok (apply_cluster_state st b)"
proof -
  have state: "push_ok (b\<lparr>b_cluster_state := st'\<rparr>)" for st' using assms by (simp add: push_ok_def)
  have fo: "push_ok (snd (run_failover_at e now b'))" if "push_ok b'" for b'
    using that
    by (auto simp: run_failover_at_def sync_cluster_view_def metas_kept_stores Let_def case_prod_unfold
        split: option.split intro: push_ok_quiet [of _ b'])
  then show "push_ok (snd (run_failover_at e now b))" using assms by blast
  show "push_ok (controller_tick e now b)" using assms fo state by (auto simp: controller_tick_def split: option.split)
  show "push_ok (broker_commit_offset creq b)" "push_ok (snd (broker_group_heartbeat e now greq b))"
    "push_ok (snd (handle_broker_heartbeat e now breq b))" "push_ok (apply_cluster_state st b)"
    using assms
    by (auto simp: broker_commit_offset_def broker_group_heartbeat_def handle_broker_heartbeat_def apply_cluster_state_def
        sync_cluster_view_def metas_kept_stores Let_def case_prod_unfold split: option.split intro!: push_ok_quiet [of _ b])
qed

lemmas safe_ops = safe_append_log safe_produce_idempotent safe_apply_replica safe_fetch_log safe_load_commit safe_create_topic
  safe_join safe_register_producer safe_register_consumer safe_produce_pcm safe_consume_one safe_deliver_poll safe_topic_mut
  safe_ensure_group

lemma broker_step_push_ok:
  assumes "broker_step e b b'" and "push_ok b"
  shows "push_ok b'"
  using assms(1) by cases (use assms(2) push_ok_control safe_ops in \<open>auto simp: safe_def ensure_topic_def\<close>)

text \<open>
  A broker is opened on an empty directory, works, and is opened again on the directory that
  it left, after it was stopped at any point between two operations.
\<close>

inductive broker_life :: "env \<Rightarrow> broker \<Rightarrow> bool" for e :: env where
  first: "open_with_cluster_and_id e now cluster i empty_dir = (Inr b, d) \<Longrightarrow> broker_life e b"
| works: "broker_life e b \<Longrightarrow> broker_step e b b' \<Longrightarrow> broker_life e b'"
| again: "broker_life e b \<Longrightarrow> open_with_cluster_and_id e now cluster i (b_dir b) = (Inr b', d) \<Longrightarrow> broker_life e b'"

lemma open_push_ok: "open_with_cluster_and_id e now cluster i d = (Inr b, d') \<Longrightarrow> metas_ok d \<Longrightarrow> push_ok b"
  using open_dir_safe [of d e now cluster i] by (simp add: dir_safe_def)

lemma broker_life_push_ok: "broker_life e b \<Longrightarrow> push_ok b"
proof (induction rule: broker_life.induct)
  case (first now cluster i b d)
  have "metas_ok empty_dir" by (simp add: metas_ok_def empty_dir_def df_get_def)
  with first show ?case using open_push_ok by blast
next
  case (works b b')
  then show ?case using broker_step_push_ok by blast
next
  case (again b now cluster i b' d)
  then show ?case using open_push_ok by (simp add: push_ok_def)
qed



end
