(* ===== verification/Push_Client.thy ===== *)
theory Push_Client
  imports Client
begin

text \<open>
  The clients of the push path, \<open>producer.rs\<close> and \<open>consumer_client.rs\<close> of \<open>dmq-cli\<close>.  Each registers
  on a connection of its own, and the broker then dials back: on that connection a producer
  sends its messages and a consumer asks for the next one.  The other ends are the two
  tasks of the broker, \<open>dial_back_to_producer\<close> and \<open>run_consumer_ready_and_send\<close>.
\<close>

section \<open>The producer\<close>

definition push_producer_register :: "peer \<Rightarrow> u16 \<Rightarrow> u16 \<Rightarrow> message io_result" where
  "push_producer_register pr port t =
     (case conn_write pr (ProducerRegister \<lparr>preg_port = port, preg_topic_id = t\<rparr>) conn_new of
        (Inl _, _) \<Rightarrow> Inl (Panic ''register write'')
      | (Inr _, c) \<Rightarrow>
          (case fst (conn_read pr c) of Inl _ \<Rightarrow> Inl (Panic ''register response'') | Inr resp \<Rightarrow> Inr resp))"

text \<open>One message out and one response back; the client goes on with any response.\<close>

definition pcm_exchange :: "peer \<Rightarrow> bytes \<Rightarrow> conn \<Rightarrow> message option \<times> conn" where
  "pcm_exchange pr payload c =
     (case conn_write pr (Pcm payload) c of
        (Inl _, c1) \<Rightarrow> (None, c1)
      | (Inr _, c1) \<Rightarrow>
          (case conn_read pr c1 of
             (Inl _, c2) \<Rightarrow> (None, c2)
           | (Inr resp, c2) \<Rightarrow> (Some resp, c2)))"

fun push_simulate_loop :: "nat \<Rightarrow> peer \<Rightarrow> u16 \<Rightarrow> u64 \<Rightarrow> conn \<Rightarrow> message list \<times> conn" where
  "push_simulate_loop 0 pr port n c = ([], c)"
| "push_simulate_loop (Suc rounds) pr port n c =
     (case pcm_exchange pr (as_bytes (''Hello from producer '' @ show_word port @ '' msg #'' @ show_word n)) c of
        (None, c1) \<Rightarrow> ([], c1)
      | (Some resp, c1) \<Rightarrow>
          (case push_simulate_loop rounds pr port (n + 1) c1 of (resps, c2) \<Rightarrow> (resp # resps, c2)))"

fun push_stdin_loop :: "peer \<Rightarrow> string list \<Rightarrow> conn \<Rightarrow> message list \<times> conn" where
  "push_stdin_loop pr [] c = ([], c)"
| "push_stdin_loop pr (line # lines) c =
     (let msg = trim line
      in if msg = [] then push_stdin_loop pr lines c
         else case pcm_exchange pr (as_bytes msg) c of
                (None, c1) \<Rightarrow> ([], c1)
              | (Some resp, c1) \<Rightarrow>
                  (case push_stdin_loop pr lines c1 of (resps, c2) \<Rightarrow> (resp # resps, c2)))"

section \<open>The consumer\<close>

definition push_consumer_register :: "peer \<Rightarrow> u16 \<Rightarrow> u16 \<Rightarrow> u16 \<Rightarrow> message io_result" where
  "push_consumer_register pr port t g =
     (case conn_write pr (ConsumerRegister \<lparr>creg_port = port, creg_topic_id = t, creg_group_id = g\<rparr>) conn_new of
        (Inl _, _) \<Rightarrow> Inl (Panic ''C_REG write'')
      | (Inr _, c) \<Rightarrow>
          (case fst (conn_read pr c) of Inl _ \<Rightarrow> Inl (Panic ''C_REG response'') | Inr resp \<Rightarrow> Inr resp))"

text \<open>The received payloads, for as many rounds as the client is watched.\<close>

fun receive_loop :: "nat \<Rightarrow> peer \<Rightarrow> conn \<Rightarrow> bytes list \<times> conn" where
  "receive_loop 0 pr c = ([], c)"
| "receive_loop (Suc rounds) pr c =
     (case conn_write pr (RPcm 1) c of
        (Inl _, c1) \<Rightarrow> ([], c1)
      | (Inr _, c1) \<Rightarrow>
          (case conn_read pr c1 of
             (Inr (Pcm payload), c2) \<Rightarrow>
               (case receive_loop rounds pr c2 of (payloads, c3) \<Rightarrow> (payload # payloads, c3))
           | (_, c2) \<Rightarrow> ([], c2)))"

text \<open>The tasks of the broker as other ends.\<close>

definition producer_dial_peer :: "env \<Rightarrow> u16 \<Rightarrow> (nat \<Rightarrow> broker \<Rightarrow> broker) \<Rightarrow> broker \<Rightarrow> peer" where
  "producer_dial_peer e t gap b =
     \<lparr>pr_accepts = (\<lambda>_. True), pr_answers = (\<lambda>w. fst (dial_back_to_producer e t gap 0 w b))\<rparr>"

definition consumer_dial_peer ::
  "nat \<Rightarrow> (nat \<Rightarrow> nat \<Rightarrow> broker \<Rightarrow> broker) \<Rightarrow> u16 \<Rightarrow> u16 \<Rightarrow> u16 \<Rightarrow> broker \<Rightarrow> peer" where
  "consumer_dial_peer polls gap t g pidx b =
     \<lparr>pr_accepts = (\<lambda>_. True), pr_answers = (\<lambda>w. fst (run_consumer_ready_and_send polls gap 0 t g pidx w b))\<rparr>"

section \<open>A topic with one consumer\<close>

text \<open>
  The topic has one group with one partition; nothing is staged, and the partition queues
  the messages \<open>q\<close>.
\<close>

definition push_ready :: "broker \<Rightarrow> u16 \<Rightarrow> u16 \<Rightarrow> bytes list \<Rightarrow> bool" where
  "push_ready b t g q \<longleftrightarrow>
     (\<exists>tp c pt. hm_get (b_topics b) t = Some tp \<and> tp_cgroups tp = [c] \<and> cg_group_id c = g \<and> cg_partitions c = [pt]
       \<and> mq_inv (tp_staging tp, b_dir b) \<and> mq_abs (tp_staging tp, b_dir b) = []
       \<and> mq_inv (pt, b_dir b) \<and> mq_abs (pt, b_dir b) = q \<and> mq_key (tp_staging tp) \<noteq> mq_key pt)"

lemma append_log_outside:
  assumes topic: "hm_contains (b_topics b) t" and h: "history b t p h" and small: "small_payload x"
    and v: "validate_produce_payload e (length x) = Inr ()"
  shows "b_topics (snd (append_log e t p x b)) = b_topics b"
    and "n \<noteq> log_data_path t p \<Longrightarrow> n \<noteq> log_meta_path t p \<Longrightarrow>
      df_get (b_dir (snd (append_log e t p x b))) n = df_get (b_dir b) n"
proof -
  let ?b2 = "ensure_log_with_config t p (snd (topic_mut t b))"
  obtain mr where log: "hm_get (b_logs ?b2) (t, p) = Some (log_of (Some mr) h)"
    using history_ensure_log [OF topic_mut_history [OF h]] by blast
  let ?b3 = "?b2\<lparr>b_logs := hm_insert (t, p) (log_of (Some mr) (h @ [x])) (b_logs ?b2)\<rparr>"
  let ?rec = "\<lparr>rec_offset = of_nat (length h), rec_payload = x\<rparr>"
  obtain m where eq: "append_log e t p x b = (Inr (of_nat (length h)), (snd (write_record e t p ?rec ?b3))\<lparr>b_metrics := m\<rparr>)"
    using append_log_eq [OF h small v log] by blast
  have b3: "b_topics ?b3 = b_topics b" "b_dir ?b3 = b_dir b"
    using topic by (simp_all add: topic_mut_def ensure_log_with_config_def)
  obtain d where d: "append_record e t p ?rec (b_dir b) = (Inr (), d)"
    using append_record_ok [of ?rec e t p "b_dir b"] small by (cases "append_record e t p ?rec (b_dir b)") auto
  show "b_topics (snd (append_log e t p x b)) = b_topics b"
    using b3 d by (simp add: eq write_record_def persist_log_meta_def split: option.split)
  show "df_get (b_dir (snd (append_log e t p x b))) n = df_get (b_dir b) n"
    if "n \<noteq> log_data_path t p" "n \<noteq> log_meta_path t p"
    using b3 d that append_record_frame [OF that, of e ?rec "b_dir b"]
    by (simp add: eq write_record_def broker_meta_frame store_meta_offsets_def write_u64_log_def write_u64_def store_simps Let_def
        split: option.split)
qed

lemma queue_files_not_logs: "n \<in> mq_files q \<Longrightarrow> n \<noteq> log_data_path t p \<and> n \<noteq> log_meta_path t p"
  by (auto simp: mq_files_def path_keys)

lemma push_ready_append_log:
  assumes ready: "push_ready b t g q" and h: "history b t p h" and small: "small_payload x"
    and v: "validate_produce_payload e (length x) = Inr ()"
  shows "push_ready (snd (append_log e t p x b)) t g q"
proof -
  obtain tp c pt where tp: "hm_get (b_topics b) t = Some tp" "tp_cgroups tp = [c]" "cg_group_id c = g" "cg_partitions c = [pt]"
      "mq_inv (tp_staging tp, b_dir b)" "mq_abs (tp_staging tp, b_dir b) = []"
      "mq_inv (pt, b_dir b)" "mq_abs (pt, b_dir b) = q" "mq_key (tp_staging tp) \<noteq> mq_key pt"
    using ready by (auto simp: push_ready_def)
  have topic: "hm_contains (b_topics b) t" using tp(1) by (simp add: hm_contains_def)
  note out = append_log_outside [OF topic h small v]
  have "\<forall>n\<in>mq_files s. df_get (b_dir (snd (append_log e t p x b))) n = df_get (b_dir b) n" for s
    using out(2) queue_files_not_logs by blast
  note view = mq_view_cong [OF this]
  from tp show ?thesis
    unfolding push_ready_def by (intro exI [of _ tp] exI [of _ c] exI [of _ pt]) (simp add: out(1) view)
qed

lemma drain_empty:
  assumes "mq_inv (st, d)" "mq_abs (st, d) = []"
  shows "drain n st pt d = (Inr (), st, pt, d)"
proof -
  have "mq_head st = mq_tail st"
    using assms by (auto simp: mq_abs_def ring_read_def mq_count_def mq_inv_def word_unat_eq_iff split: if_splits)
  then show ?thesis by (cases n) (simp_all add: mq_pop_front_def)
qed

text \<open>A message of a producer goes into the log and behind the queued messages.\<close>

lemma produce_pcm_push:
  assumes ready: "push_ready b t g q" "length q + 1 < QUEUE_CAPACITY" and h: "history b t 0 h"
    and x: "length x \<le> MAX_MSG_SIZE" "length x \<le> max_payload_bytes e" and push: "legacy_push_enabled e b"
  shows "\<exists>b'. produce_pcm e t x b = (Inr (0, of_nat (length h)), b') \<and> push_ready b' t g (q @ [x])
    \<and> history b' t 0 (h @ [x]) \<and> legacy_push_enabled e b'"
proof -
  have small: "small_payload x" using x(1) by (simp add: small_payload_def MAX_MSG_SIZE_def)
  have v: "validate_produce_payload e (length x) = Inr ()" using x(2) by (simp add: validate_produce_payload_def)
  obtain b1 where app: "append_log e t 0 x b = (Inr (of_nat (length h)), b1)"
    using append_log_history(1) [OF h small v] by (metis prod.collapse)
  define b2 where "b2 = ensure_log_with_config t 0 b1"
  have b2: "b_topics b2 = b_topics b1" "b_dir b2 = b_dir b1" "b_cluster_state b2 = b_cluster_state b1"
    by (simp_all add: b2_def ensure_log_with_config_def)
  have push1: "legacy_push_enabled e b1" "b_cluster_state b1 = b_cluster_state b"
    using push same_role_append_log [of b e t 0 x] app by (auto simp: same_role_def legacy_push_enabled_def split: option.split)
  have h2: "history b2 t 0 (h @ [x])"
    using append_log_history(2) [OF h small v] app by (simp add: b2_def history_ensure)
  have "push_ready b1 t g q" using push_ready_append_log [OF ready(1) h small v] app by simp
  then obtain tp c pt where tp: "hm_get (b_topics b1) t = Some tp" "tp_cgroups tp = [c]" "cg_group_id c = g"
      "cg_partitions c = [pt]" "mq_inv (tp_staging tp, b_dir b1)" "mq_abs (tp_staging tp, b_dir b1) = []"
      "mq_inv (pt, b_dir b1)" "mq_abs (pt, b_dir b1) = q" "mq_key (tp_staging tp) \<noteq> mq_key pt"
    by (auto simp: push_ready_def)
  obtain r pt1 d2 where mq: "mq_append x (pt, b_dir b1) = (r, pt1, d2)" by (cases "mq_append x (pt, b_dir b1)")
  note fr = mq_append_frame [OF tp(7) mq]
  have room: "mq_room (Suc 0) (pt, b_dir b1)" using ready(2) tp(8) by (simp add: mq_room_def mq_count_length)
  have pt1: "mq_inv (pt1, d2)" "mq_abs (pt1, d2) = q @ [x]"
    using mq_append_ok [OF tp(7) room, of x] mq tp(8) x(1) by simp_all
  have st: "mq_inv (tp_staging tp, d2)" "mq_abs (tp_staging tp, d2) = []"
    using mq_other_queue [of pt "tp_staging tp" d2 "b_dir b1"] fr(4) tp(5,6,9) by auto
  let ?tp = "tp\<lparr>tp_cgroups := [c\<lparr>cg_partitions := [pt1]\<rparr>]\<rparr>"
  let ?b' = "b2\<lparr>b_topics := hm_insert t ?tp (b_topics b2), b_dir := d2\<rparr>"
  have route: "route_groups x 0 (Suc 0) (tp, b_dir b1) = (Inr (), ?tp, d2)"
    using tp(2,4) drain_empty [OF tp(5,6)] mq fr(3)
    by (simp add: route_group_def smallest_partition_index_def partition_append_def sbind_def)
  have "produce_pcm e t x b = (Inr (0, of_nat (length h)), ?b')"
    using app push1(1) tp(1,2) route b2
    by (simp add: produce_pcm_def topic_mut_def hm_contains_def with_topic_def sbind_def b2_def [symmetric])
  moreover have "push_ready ?b' t g (q @ [x])"
    unfolding push_ready_def using pt1 st tp(3,9) fr(1) by (intro exI [of _ ?tp]) simp
  moreover have "df_get d2 (log_data_path t' p') = df_get (b_dir b2) (log_data_path t' p')" for t' p'
    using fr(4) queue_files_not_logs [of "log_data_path t' p'" pt t' p'] b2(2) by auto
  then have "history ?b' t 0 (h @ [x])"
    using h2 by (subst history_cong [of b2]) (simp_all add: logs_untouched_def)
  moreover have "legacy_push_enabled e ?b'" using push1(1) b2(3) by (cases "e ''DMQ_LEGACY_PUSH''") (simp_all add: legacy_push_enabled_def)
  ultimately show ?thesis by blast
qed

text \<open>A poll of the consumer takes the oldest queued message.\<close>

lemma deliver_poll_push:
  assumes "push_ready b t g (x # q)"
  shows "\<exists>b'. deliver_poll t g 0 b = (Inr (Some x), b') \<and> push_ready b' t g q"
proof -
  obtain tp c pt where tp: "hm_get (b_topics b) t = Some tp" "tp_cgroups tp = [c]" "cg_group_id c = g" "cg_partitions c = [pt]"
      "mq_inv (tp_staging tp, b_dir b)" "mq_abs (tp_staging tp, b_dir b) = []"
      "mq_inv (pt, b_dir b)" "mq_abs (pt, b_dir b) = x # q" "mq_key (tp_staging tp) \<noteq> mq_key pt"
    using assms by (auto simp: push_ready_def)
  obtain r pt1 d1 where mq: "mq_pop_front (pt, b_dir b) = (r, pt1, d1)" by (cases "mq_pop_front (pt, b_dir b)")
  note fr = mq_pop_frame [OF mq]
  have pt1: "r = Inr (Some x)" "mq_inv (pt1, d1)" "mq_abs (pt1, d1) = q"
    using mq_pop_Cons [OF tp(7,8)] mq by simp_all
  have st: "mq_inv (tp_staging tp, d1)" "mq_abs (tp_staging tp, d1) = []"
    using mq_other_queue [of pt "tp_staging tp" d1 "b_dir b"] fr(3) tp(5,6,9) by auto
  let ?tp = "tp\<lparr>tp_cgroups := [c\<lparr>cg_partitions := [pt1]\<rparr>]\<rparr>"
  let ?b' = "b\<lparr>b_topics := hm_insert t ?tp (b_topics b), b_dir := d1\<rparr>"
  have "deliver_poll t g 0 b = (Inr (Some x), ?b')"
    using tp(1-4) mq pt1(1)
    by (simp add: deliver_poll_def hm_contains_def with_topic_def pop_in_group_def group_index_def partition_pop_front_def)
  moreover have "push_ready ?b' t g q"
    unfolding push_ready_def using pt1 st tp(3,9) fr(1) by (intro exI [of _ ?tp]) simp
  ultimately show ?thesis by blast
qed

section \<open>The dial-back connections\<close>

definition pcm_frame :: "bytes \<Rightarrow> bytes" where
  "pcm_frame x = of_nat (Suc (length x)) # PCM # x"

definition rpcm_frame :: "u8 \<Rightarrow> bytes" where
  "rpcm_frame code = [2, R_PCM, code]"

lemma pcm_wire:
  "write_message (Pcm x) = Inr (pcm_frame x)" "write_message (RPcm code) = Inr (rpcm_frame code)"
  "length x \<le> 254 \<Longrightarrow> read_message (pcm_frame x @ rest) = Inr (Pcm x, rest)"
  "read_message (rpcm_frame code @ rest) = Inr (RPcm code, rest)"
proof -
  show w: "write_message (Pcm x) = Inr (pcm_frame x)" "write_message (RPcm code) = Inr (rpcm_frame code)"
    by (simp_all add: write_message_def encode_message_def pcm_frame_def rpcm_frame_def)
  show "read_message (pcm_frame x @ rest) = Inr (Pcm x, rest)" if "length x \<le> 254"
    using that read_message_write [OF _ _ _ w(1), of "PCM # x" rest] by (simp add: encode_message_def)
  show "read_message (rpcm_frame code @ rest) = Inr (RPcm code, rest)"
    using read_message_write [OF _ _ _ w(2), of "[R_PCM, code]" rest] by (simp add: encode_message_def)
qed

lemma length_rpcm_frame [simp]: "length (rpcm_frame code) = 3"
  by (simp add: rpcm_frame_def)

text \<open>What the broker makes of a run of messages, and of a run of readiness signals.\<close>

lemma dial_back_run:
  assumes "push_ready b t g q" "length q + length xs < QUEUE_CAPACITY" "history b t 0 h" "legacy_push_enabled e b"
    and "\<forall>x\<in>set xs. length x \<le> 254 \<and> length x \<le> max_payload_bytes e"
  shows "\<exists>b'. dial_back_to_producer e t (\<lambda>_ b. b) k (concat (map pcm_frame xs)) b
      = (concat (replicate (length xs) (rpcm_frame 0)), b')
    \<and> push_ready b' t g (q @ xs) \<and> history b' t 0 (h @ xs)"
  using assms
proof (induction xs arbitrary: b q h k)
  case Nil
  then show ?case by (simp add: dial_back_to_producer.simps [of e t _ k "[]"] io_err_def)
next
  case (Cons x xs)
  have x: "length x \<le> 254" "length x \<le> MAX_MSG_SIZE" "length x \<le> max_payload_bytes e"
    using Cons.prems(5) by (auto simp: MAX_MSG_SIZE_def)
  obtain b1 where b1: "produce_pcm e t x b = (Inr (0, of_nat (length h)), b1)" "push_ready b1 t g (q @ [x])"
      "history b1 t 0 (h @ [x])" "legacy_push_enabled e b1"
    using produce_pcm_push [OF Cons.prems(1) _ Cons.prems(3) x(2,3) Cons.prems(4)] Cons.prems(2) by auto
  have room: "length (q @ [x]) + length xs < QUEUE_CAPACITY" using Cons.prems(2) by simp
  have rest: "\<forall>y\<in>set xs. length y \<le> 254 \<and> length y \<le> max_payload_bytes e" using Cons.prems(5) by simp
  obtain b' where "dial_back_to_producer e t (\<lambda>_ b. b) (Suc k) (concat (map pcm_frame xs)) b1
      = (concat (replicate (length xs) (rpcm_frame 0)), b')" "push_ready b' t g (q @ x # xs)" "history b' t 0 (h @ x # xs)"
    using Cons.IH [OF b1(2) room b1(3,4) rest, of "Suc k"] by auto
  then show ?case
    using b1(1) pcm_wire(3) [OF x(1)] pcm_wire(2)
    by (simp add: dial_back_to_producer.simps [of e t _ k "pcm_frame x @ _"])
qed

lemma consumer_run:
  assumes "push_ready b t g q" "n \<le> length q" "0 < polls"
  shows "\<exists>b'. run_consumer_ready_and_send polls gap k t g 0 (concat (replicate n (rpcm_frame 1))) b
      = (concat (map pcm_frame (take n q)), b') \<and> push_ready b' t g (drop n q)"
  using assms
proof (induction n arbitrary: b q k)
  case 0
  then show ?case by (simp add: run_consumer_ready_and_send.simps [of polls gap k t g 0 "[]"] io_err_def)
next
  case (Suc n)
  then obtain x q' where q: "q = x # q'" by (cases q) auto
  obtain b1 where b1: "deliver_poll t g 0 b = (Inr (Some x), b1)" "push_ready b1 t g q'"
    using deliver_poll_push Suc.prems(1) q by blast
  obtain m where "polls = Suc m" using Suc.prems(3) by (cases polls) auto
  then have poll: "poll_partition polls (gap k) 0 t g 0 b = (Some x, b1)" using b1(1) by simp
  have "n \<le> length q'" using Suc.prems(2) q by simp
  from Suc.IH [OF b1(2) this Suc.prems(3), of "Suc k"] show ?case
    using pcm_wire(4) [of 1] pcm_wire(1) poll q
    by (auto simp: run_consumer_ready_and_send.simps [of polls gap k t g 0 "rpcm_frame 1 @ _"])
qed

section \<open>From a producer to a consumer\<close>

text \<open>The messages in the lines of an input.\<close>

definition input_messages :: "string list \<Rightarrow> bytes list" where
  "input_messages lines = map as_bytes (filter (\<lambda>s. s \<noteq> []) (map trim lines))"

lemma concat_replicate_Suc: "concat (replicate (Suc n) x) = concat (replicate n x) @ x"
  by (induction n) simp_all

lemma push_stdin_run:
  assumes ans: "\<And>ys. prefix ys (sent @ input_messages lines) \<Longrightarrow>
      pr_answers pr (concat (map pcm_frame ys)) = concat (replicate (length ys) (rpcm_frame 0))"
    and acc: "\<And>s. pr_accepts pr s"
  shows "push_stdin_loop pr lines \<lparr>c_sent = concat (map pcm_frame sent), c_got = 3 * length sent\<rparr>
    = (replicate (length (input_messages lines)) (RPcm 0),
       \<lparr>c_sent = concat (map pcm_frame (sent @ input_messages lines)), c_got = 3 * length (sent @ input_messages lines)\<rparr>)"
  using ans
proof (induction lines arbitrary: sent)
  case Nil
  then show ?case by (simp add: input_messages_def)
next
  case (Cons line lines)
  show ?case
  proof (cases "trim line = []")
    case True
    then have "input_messages (line # lines) = input_messages lines" by (simp add: input_messages_def)
    with True Cons show ?thesis by simp
  next
    case False
    let ?x = "as_bytes (trim line)"
    have msgs: "input_messages (line # lines) = ?x # input_messages lines" using False by (simp add: input_messages_def)
    let ?c = "\<lambda>ys. \<lparr>c_sent = concat (map pcm_frame ys), c_got = 3 * length ys\<rparr>"
    have all: "pr_answers pr (concat (map pcm_frame (sent @ [?x])))
        = concat (replicate (length sent) (rpcm_frame 0)) @ rpcm_frame 0"
      using Cons.prems [of "sent @ [?x]"] msgs by (simp add: concat_replicate_Suc del: replicate_Suc)
    have len: "length (concat (replicate n (rpcm_frame 0))) = 3 * n" for n by (induction n) simp_all
    have "pcm_exchange pr ?x (?c sent) = (Some (RPcm 0), ?c (sent @ [?x]))"
      using all acc len [of "length sent"] pcm_wire(1) pcm_wire(4) [of 0 "[]"]
      by (simp add: pcm_exchange_def conn_write_def conn_read_def)
    moreover have "push_stdin_loop pr lines (?c (sent @ [?x]))
        = (replicate (length (input_messages lines)) (RPcm 0), ?c (sent @ input_messages (line # lines)))"
      using Cons.IH [of "sent @ [?x]"] Cons.prems msgs by simp
    ultimately show ?thesis using False msgs by simp
  qed
qed

lemma receive_run:
  assumes ans: "\<And>k. k \<le> n + m \<Longrightarrow>
      pr_answers pr (concat (replicate k (rpcm_frame 1))) = concat (map pcm_frame (take k q))"
    and acc: "\<And>s. pr_accepts pr s" and q: "n + m \<le> length q" "\<forall>x\<in>set q. length x \<le> 254"
  shows "fst (receive_loop m pr \<lparr>c_sent = concat (replicate n (rpcm_frame 1)),
      c_got = length (concat (map pcm_frame (take n q)))\<rparr>) = take m (drop n q)"
  using ans q(1)
proof (induction m arbitrary: n)
  case 0
  then show ?case by simp
next
  case (Suc m)
  let ?c = "\<lambda>n. \<lparr>c_sent = concat (replicate n (rpcm_frame 1)), c_got = length (concat (map pcm_frame (take n q)))\<rparr>"
  have n: "n < length q" using Suc.prems(2) by simp
  then have t: "take (Suc n) q = take n q @ [q ! n]" "length (q ! n) \<le> 254"
    using q(2) by (simp_all add: take_Suc_conv_app_nth)
  have r: "concat (replicate (Suc n) (rpcm_frame 1)) = concat (replicate n (rpcm_frame 1)) @ rpcm_frame 1"
    by (rule concat_replicate_Suc)
  have "conn_write pr (RPcm 1) (?c n) = (Inr (), (?c n)\<lparr>c_sent := concat (replicate (Suc n) (rpcm_frame 1))\<rparr>)"
    using acc r pcm_wire(2) by (simp add: conn_write_def)
  moreover have "conn_read pr ((?c n)\<lparr>c_sent := concat (replicate (Suc n) (rpcm_frame 1))\<rparr>) = (Inr (Pcm (q ! n)), ?c (Suc n))"
    using Suc.prems(1) [of "Suc n"] t pcm_wire(3) [OF t(2), of "[]"] by (simp add: conn_read_def)
  moreover have "fst (receive_loop m pr (?c (Suc n))) = take m (drop (Suc n) q)"
    using Suc.IH [of "Suc n"] Suc.prems by simp
  moreover have "drop n q = q ! n # drop (Suc n) q" using n by (simp add: Cons_nth_drop_Suc)
  ultimately show ?case by (simp add: case_prod_unfold del: replicate_Suc take_Suc)
qed


lemma push_ready_sample:
  "\<exists>b. push_ready b 1 5 [] \<and> history b 1 0 [] \<and> legacy_push_enabled empty_env b"
proof -
  obtain q1 q2 d where q: "mq_inv (q1, d)" "mq_abs (q1, d) = []" "mq_inv (q2, d)" "mq_abs (q2, d) = []"
    "mq_key q1 \<noteq> mq_key q2" and other: "\<forall>n. n \<notin> mq_files q1 \<union> mq_files q2 \<longrightarrow> df_get d n = None"
    using two_fresh_queues by blast
  let ?tp = "\<lparr>tp_topic_id = 1, tp_staging = q1, tp_cgroups = [\<lparr>cg_group_id = 5, cg_partitions = [q2], cg_consumer_count = 1\<rparr>]\<rparr>"
  let ?b = "sample_broker\<lparr>b_topics := [(1, ?tp)], b_dir := d\<rparr>"
  have "push_ready ?b 1 5 []" unfolding push_ready_def using q by (intro exI [of _ ?tp]) simp
  moreover have "df_get d (log_data_path 1 0) = None" using other queue_files_not_logs by blast
  then have "history ?b 1 0 []" by (simp add: history_def log_file_holds_def sample_broker_def)
  moreover have "legacy_push_enabled empty_env ?b" by (simp add: legacy_push_enabled_def sample_broker_def)
  ultimately show ?thesis by blast
qed


end
