(* ===== verification/Push_Refinement.thy ===== *)
theory Push_Refinement
  imports Broker_Panics Push_Client "HOL-Library.Multiset"
begin

text \<open>
  What the push path promises, as lists: a topic has the messages that wait for a group and,
  for each consumer group, the messages in each of its partitions.  The operations of the
  broker on memory-mapped queues and metadata files refine operations on these lists.
\<close>

section \<open>The specification\<close>

type_synonym push_view = "bytes list \<times> (u16 \<times> bytes list list) list"

text \<open>The first of the shortest partitions.\<close>

definition shortest :: "'a list list \<Rightarrow> nat" where
  "shortest ps = length (takeWhile (\<lambda>p. length p \<noteq> Min (length ` set ps)) ps)"

definition give :: "bytes list \<Rightarrow> bytes list list \<Rightarrow> bytes list list" where
  "give xs ps = ps[shortest ps := ps ! shortest ps @ xs]"

text \<open>
  Without a group a message waits.  Otherwise every group is given the message, in the
  first of its shortest partitions; the first group is also given what waited.
\<close>

fun spec_produce :: "bytes \<Rightarrow> push_view \<Rightarrow> push_view" where
  "spec_produce x (st, []) = (st @ [x], [])"
| "spec_produce x (st, (g, ps) # gs) = ([], (g, give (st @ [x]) ps) # map (\<lambda>(h, ps). (h, give [x] ps)) gs)"

definition spec_group :: "u16 \<Rightarrow> push_view \<Rightarrow> push_view" where
  "spec_group g v = (if g \<in> fst ` set (snd v) then v else (fst v, snd v @ [(g, [[]])]))"

fun spec_update :: "u16 \<Rightarrow> (bytes list list \<Rightarrow> bytes list list) \<Rightarrow> (u16 \<times> bytes list list) list \<Rightarrow> (u16 \<times> bytes list list) list" where
  "spec_update g f [] = []"
| "spec_update g f ((h, ps) # gs) = (if h = g then (h, f ps) # gs else (h, ps) # spec_update g f gs)"

definition spec_pop :: "u16 \<Rightarrow> nat \<Rightarrow> push_view \<Rightarrow> bytes option \<times> push_view" where
  "spec_pop g i v =
     (case map_of (snd v) g of
        Some ps \<Rightarrow>
          if i < length ps \<and> ps ! i \<noteq> []
          then (Some (hd (ps ! i)), fst v, spec_update g (\<lambda>ps. ps[i := tl (ps ! i)]) (snd v)) else (None, v)
      | None \<Rightarrow> (None, v))"

text \<open>A message reaches every group exactly once.\<close>

lemma shortest_less: "ps \<noteq> [] \<Longrightarrow> shortest ps < length ps"
proof -
  assume "ps \<noteq> []"
  then have "Min (length ` set ps) \<in> length ` set ps" by (intro Min_in) auto
  then obtain p where "p \<in> set ps" "length p = Min (length ` set ps)" by auto
  then have "takeWhile (\<lambda>p. length p \<noteq> Min (length ` set ps)) ps \<noteq> ps" by (auto simp: takeWhile_eq_all_conv)
  then show ?thesis
    unfolding shortest_def using length_takeWhile_le takeWhile_eq_take by (metis order_le_less take_all_iff)
qed

lemma give_split:
  assumes "ps \<noteq> []"
  obtains as p cs where "ps = as @ p # cs" "give xs ps = as @ (p @ xs) # cs"
proof -
  have i: "shortest ps < length ps" using assms by (rule shortest_less)
  show thesis
    using that [of "take (shortest ps) ps" "ps ! shortest ps" "drop (Suc (shortest ps)) ps"] i
    by (simp add: give_def upd_conv_take_nth_drop id_take_nth_drop [symmetric])
qed

lemma give_once: "ps \<noteq> [] \<Longrightarrow> mset (concat (give xs ps)) = mset (concat ps) + mset xs"
  by (rule give_split [of ps xs]) simp_all

lemma spec_produce_once:
  assumes "\<forall>(g, ps)\<in>set (snd v). ps \<noteq> []" and "k < length (snd v)"
  shows "mset (concat (snd (snd (spec_produce x v) ! k)))
    = add_mset x (mset (concat (snd (snd v ! k))) + (if k = 0 then mset (fst v) else {#}))"
proof -
  obtain st g ps gs where v: "v = (st, (g, ps) # gs)" using assms(2) by (cases v; cases "snd v") auto
  show ?thesis
  proof (cases k)
    case 0
    then show ?thesis using assms(1) by (simp add: v give_once)
  next
    case (Suc j)
    then have "gs ! j \<in> set gs" using assms(2) by (simp add: v)
    then have "snd (gs ! j) \<noteq> []" using assms(1) by (auto simp: v)
    with Suc assms(2) show ?thesis by (simp add: v case_prod_unfold give_once)
  qed
qed

section \<open>What the queues hold\<close>

definition queues_inv :: "u16 \<Rightarrow> data_dir \<Rightarrow> consumer_group \<Rightarrow> bool" where
  "queues_inv t d g \<longleftrightarrow> cg_partitions g \<noteq> [] \<and> length (cg_partitions g) < 65535
     \<and> (\<forall>i<length (cg_partitions g). mq_key (cg_partitions g ! i) = (t, cg_group_id g, of_nat (Suc i))
          \<and> mq_inv (cg_partitions g ! i, d))"

definition topic_inv :: "u16 \<Rightarrow> data_dir \<Rightarrow> topic \<Rightarrow> bool" where
  "topic_inv t d tp \<longleftrightarrow> tp_topic_id tp = t \<and> mq_key (tp_staging tp) = (t, STAGING_GROUP_ID, STAGING_PARTITION_ID)
     \<and> mq_inv (tp_staging tp, d) \<and> distinct (map cg_group_id (tp_cgroups tp))
     \<and> (\<forall>g\<in>set (tp_cgroups tp). queues_inv t d g)"

definition group_view :: "data_dir \<Rightarrow> consumer_group \<Rightarrow> u16 \<times> bytes list list" where
  "group_view d g = (cg_group_id g, map (\<lambda>q. mq_abs (q, d)) (cg_partitions g))"

definition topic_view :: "data_dir \<Rightarrow> topic \<Rightarrow> push_view" where
  "topic_view d tp = (mq_abs (tp_staging tp, d), map (group_view d) (tp_cgroups tp))"

lemma partition_ids_distinct:
  assumes "i < 65535" "j < 65535" "(of_nat (Suc i) :: u16) = of_nat (Suc j)"
  shows "i = j"
proof -
  have "unat (of_nat (Suc i) :: u16) = Suc i" "unat (of_nat (Suc j) :: u16) = Suc j"
    using assms(1,2) by (simp_all add: unat_of_nat_u16 del: of_nat_Suc)
  with assms(3) show ?thesis by (metis Suc_inject)
qed

lemma partition_id_not_staging:
  assumes "i < 65534"
  shows "(of_nat (Suc i) :: u16) \<noteq> STAGING_PARTITION_ID"
proof
  assume eq: "(of_nat (Suc i) :: u16) = STAGING_PARTITION_ID"
  have "unat (of_nat (Suc i) :: u16) = Suc i" using assms by (simp add: unat_of_nat_u16 del: of_nat_Suc)
  then have "Suc i = 65535" unfolding eq by (simp add: STAGING_PARTITION_ID_def)
  with assms show False by simp
qed

text \<open>Two queues of a topic at different places have different keys, hence different files.\<close>

lemma partition_key:
  "topic_inv t d tp \<Longrightarrow> k < length (tp_cgroups tp) \<Longrightarrow> j < length (cg_partitions (tp_cgroups tp ! k)) \<Longrightarrow>
     mq_key (cg_partitions (tp_cgroups tp ! k) ! j) = (t, cg_group_id (tp_cgroups tp ! k), of_nat (Suc j))
     \<and> mq_inv (cg_partitions (tp_cgroups tp ! k) ! j, d) \<and> j < 65534"
proof -
  assume inv: "topic_inv t d tp" and k: "k < length (tp_cgroups tp)" "j < length (cg_partitions (tp_cgroups tp ! k))"
  then have "queues_inv t d (tp_cgroups tp ! k)" by (simp add: topic_inv_def)
  with k(2) show ?thesis by (simp add: queues_inv_def del: of_nat_Suc)
qed

lemma keys_differ:
  assumes inv: "topic_inv t d tp" and k: "k < length (tp_cgroups tp)" "j < length (cg_partitions (tp_cgroups tp ! k))"
  shows "mq_key (tp_staging tp) \<noteq> mq_key (cg_partitions (tp_cgroups tp ! k) ! j)"
    and "k' < length (tp_cgroups tp) \<Longrightarrow> j' < length (cg_partitions (tp_cgroups tp ! k')) \<Longrightarrow> (k', j') \<noteq> (k, j) \<Longrightarrow>
      mq_key (cg_partitions (tp_cgroups tp ! k') ! j') \<noteq> mq_key (cg_partitions (tp_cgroups tp ! k) ! j)"
proof -
  note key = partition_key [OF inv]
  show "mq_key (tp_staging tp) \<noteq> mq_key (cg_partitions (tp_cgroups tp ! k) ! j)"
    using key [OF k] inv partition_id_not_staging [of j] by (auto simp: topic_inv_def simp del: of_nat_Suc)
  assume k': "k' < length (tp_cgroups tp)" "j' < length (cg_partitions (tp_cgroups tp ! k'))" "(k', j') \<noteq> (k, j)"
  have dist: "distinct (map cg_group_id (tp_cgroups tp))" using inv by (simp add: topic_inv_def)
  show "mq_key (cg_partitions (tp_cgroups tp ! k') ! j') \<noteq> mq_key (cg_partitions (tp_cgroups tp ! k) ! j)"
  proof (cases "k' = k")
    case True
    then show ?thesis using key [OF k] key [OF k'(1,2)] k'(3) partition_ids_distinct [of j' j] by (auto simp del: of_nat_Suc)
  next
    case False
    then have "cg_group_id (tp_cgroups tp ! k') \<noteq> cg_group_id (tp_cgroups tp ! k)"
      using dist k(1) k'(1) by (simp add: distinct_conv_nth)
    then show ?thesis using key [OF k] key [OF k'(1,2)] by simp
  qed
qed

definition set_queues :: "mmap_queue \<Rightarrow> nat \<Rightarrow> nat \<Rightarrow> mmap_queue \<Rightarrow> topic \<Rightarrow> topic" where
  "set_queues st k j q tp = tp\<lparr>tp_staging := st, tp_cgroups := (tp_cgroups tp)[k := (tp_cgroups tp ! k)
     \<lparr>cg_partitions := (cg_partitions (tp_cgroups tp ! k))[j := q]\<rparr>]\<rparr>"

lemma map_update_other:
  "(\<And>i. i < length xs \<Longrightarrow> i \<noteq> j \<Longrightarrow> f (xs ! i) = g (xs ! i)) \<Longrightarrow> map f (xs[j := y]) = (map g xs)[j := f y]"
proof (rule nth_equalityI)
  fix i
  assume "\<And>i. i < length xs \<Longrightarrow> i \<noteq> j \<Longrightarrow> f (xs ! i) = g (xs ! i)" and "i < length (map f (xs[j := y]))"
  then show "map f (xs[j := y]) ! i = (map g xs)[j := f y] ! i" by (cases "i = j") simp_all
qed simp

text \<open>The staging queue and one partition change, everything else is as it was.\<close>

lemma set_queues_view:
  assumes inv: "topic_inv t d tp" and k: "k < length (tp_cgroups tp)" "j < length (cg_partitions (tp_cgroups tp ! k))"
    and st: "mq_key st = mq_key (tp_staging tp)" "mq_inv (st, d')"
    and q: "mq_key q = mq_key (cg_partitions (tp_cgroups tp ! k) ! j)" "mq_inv (q, d')"
    and frame: "\<And>n. n \<notin> mq_files (tp_staging tp) \<Longrightarrow> n \<notin> mq_files (cg_partitions (tp_cgroups tp ! k) ! j) \<Longrightarrow>
      df_get d' n = df_get d n"
  shows "topic_inv t d' (set_queues st k j q tp)"
    and "topic_view d' (set_queues st k j q tp) = (mq_abs (st, d'), (map (group_view d) (tp_cgroups tp))
      [k := (cg_group_id (tp_cgroups tp ! k), (snd (group_view d (tp_cgroups tp ! k)))[j := mq_abs (q, d')])])"
proof -
  let ?gs = "tp_cgroups tp"
  have other: "mq_inv (r, d') = mq_inv (r, d) \<and> mq_abs (r, d') = mq_abs (r, d)"
    if "mq_key (tp_staging tp) \<noteq> mq_key r" "mq_key (cg_partitions (?gs ! k) ! j) \<noteq> mq_key r" for r
    using mq_view_cong [of r d' d] frame mq_files_disjoint [OF that(1)] mq_files_disjoint [OF that(2)] by blast
  have same: "mq_inv (cg_partitions (?gs ! k') ! j', d') \<and>
      mq_abs (cg_partitions (?gs ! k') ! j', d') = mq_abs (cg_partitions (?gs ! k') ! j', d)"
    if "k' < length ?gs" "j' < length (cg_partitions (?gs ! k'))" "(k', j') \<noteq> (k, j)" for k' j'
    using other [of "cg_partitions (?gs ! k') ! j'"] keys_differ(1) [OF inv that(1,2)] keys_differ(2) [OF inv k that]
      partition_key [OF inv that(1,2)] by simp
  have g: "queues_inv t d' (?gs ! k')" if "k' < length ?gs" "k' \<noteq> k" for k'
    using that same [OF that(1)] inv by (auto simp: topic_inv_def queues_inv_def)
  have gk: "queues_inv t d' ((?gs ! k)\<lparr>cg_partitions := (cg_partitions (?gs ! k))[j := q]\<rparr>)"
    using same [OF k(1)] inv k q by (auto simp: topic_inv_def queues_inv_def nth_list_update)
  have "\<forall>g'\<in>set (tp_cgroups (set_queues st k j q tp)). queues_inv t d' g'"
    using g gk by (auto simp: set_queues_def in_set_conv_nth) (metis nth_list_update_eq nth_list_update_neq)
  moreover have "map cg_group_id (?gs[k := (?gs ! k)\<lparr>cg_partitions := ps\<rparr>]) = map cg_group_id ?gs" for ps
    using k(1) by (simp add: map_update list_update_same_conv)
  ultimately show "topic_inv t d' (set_queues st k j q tp)"
    using inv st by (simp add: topic_inv_def set_queues_def)
  have "group_view d' (?gs ! k') = group_view d (?gs ! k')" if "k' < length ?gs" "k' \<noteq> k" for k'
    using same [OF that(1)] that(2) by (auto simp: group_view_def in_set_conv_nth)
  moreover have "group_view d' ((?gs ! k)\<lparr>cg_partitions := (cg_partitions (?gs ! k))[j := q]\<rparr>)
      = (cg_group_id (?gs ! k), (snd (group_view d (?gs ! k)))[j := mq_abs (q, d')])"
    using same [OF k(1)] map_update_other [of "cg_partitions (?gs ! k)" j "\<lambda>q. mq_abs (q, d')" "\<lambda>q. mq_abs (q, d)" q]
    by (simp add: group_view_def)
  ultimately have "map (group_view d') (tp_cgroups (set_queues st k j q tp)) = (map (group_view d) ?gs)
      [k := (cg_group_id (?gs ! k), (snd (group_view d (?gs ! k)))[j := mq_abs (q, d')])]"
    using map_update_other [of ?gs k "group_view d'" "group_view d"] by (simp add: set_queues_def)
  then show "topic_view d' (set_queues st k j q tp) = (mq_abs (st, d'), (map (group_view d) ?gs)
      [k := (cg_group_id (?gs ! k), (snd (group_view d (?gs ! k)))[j := mq_abs (q, d')])])"
    by (simp add: topic_view_def) (simp add: set_queues_def)
qed

section \<open>Routing a message\<close>

lemma mq_abs_small: "x \<in> set (mq_abs (q, d)) \<Longrightarrow> length x \<le> MAX_MSG_SIZE"
proof -
  assume "x \<in> set (mq_abs (q, d))"
  then obtain i where "x = mq_slot (q, d) i" by (auto simp: mq_abs_def ring_read_def)
  then show ?thesis
    using unat_size_bound [of "df_contents d (mq_sizes q) ! (i * MAX_MSG_SIZE)"] by (simp add: mq_slot_def slice_def Let_def)
qed

lemma drain_frame:
  assumes "drain m st pt d = (r, st', pt', d')"
  shows "mq_key st' = mq_key st \<and> mq_key pt' = mq_key pt \<and> (\<forall>n. n \<notin> mq_files st \<longrightarrow> n \<notin> mq_files pt \<longrightarrow> df_get d' n = df_get d n)"
  using assms
proof (induction m arbitrary: st pt d)
  case 0
  then show ?case by simp
next
  case (Suc m)
  obtain r1 st1 d1 where pop: "mq_pop_front (st, d) = (r1, st1, d1)" by (cases "mq_pop_front (st, d)")
  note fr = mq_pop_frame [OF pop]
  show ?case
  proof (cases "\<exists>x. r1 = Inr (Some x)")
    case False
    then show ?thesis using Suc.prems pop fr by (auto split: sum.splits option.splits)
  next
    case True
    then obtain x where x: "r1 = Inr (Some x)" by blast
    obtain r2 pt1 d2 where app: "mq_append x (pt, d1) = (r2, pt1, d2)" by (cases "mq_append x (pt, d1)")
    have fr2: "mq_key pt1 = mq_key pt" "mq_files pt1 = mq_files pt" "\<And>n. n \<notin> mq_files pt \<Longrightarrow> df_get d2 n = df_get d1 n"
      using app by (auto simp: mq_append_def mq_files_def mq_key_def write_u32_def store_simps Let_def split: if_splits)
    show ?thesis
    proof (cases r2)
      case (Inl e)
      then show ?thesis using Suc.prems pop x app fr fr2 by (auto simp: partition_append_def)
    next
      case (Inr off)
      then have "drain m st1 pt1 d2 = (r, st', pt', d')" using Suc.prems pop x app by (simp add: partition_append_def)
      from Suc.IH [OF this] show ?thesis using fr fr2 by simp
    qed
  qed
qed

lemma smallest_loop_eq:
  assumes "\<And>q. q \<in> set qs \<Longrightarrow> unat (partition_len q) = length (f q)" and "unat m = mn"
  shows "smallest_loop idx qs best m = (if Min (insert mn (length ` f ` set qs)) = mn then best
    else idx + length (takeWhile (\<lambda>p. length p \<noteq> Min (insert mn (length ` f ` set qs))) (map f qs)))"
  using assms
proof (induction qs arbitrary: idx best m mn)
  case Nil
  then show ?case by simp
next
  case (Cons q qs)
  let ?M = "\<lambda>mn. Min (insert mn (length ` f ` set qs))"
  have q: "unat (partition_len q) = length (f q)" using Cons.prems(1) by simp
  have less: "partition_len q < m \<longleftrightarrow> length (f q) < mn" using q Cons.prems(2) by (simp add: word_less_nat_alt)
  have fin: "finite (length ` f ` set qs)" by simp
  have whole: "Min (insert mn (length ` f ` set (q # qs))) = min mn (?M (length (f q)))"
    by (simp add: insert_commute)
  have le: "?M k \<le> k" for k by simp
  show ?case
  proof (cases "length (f q) < mn")
    case True
    then have "min mn (?M (length (f q))) = ?M (length (f q))" using le [of "length (f q)"] by (intro min_absorb2) linarith
    moreover have "?M (length (f q)) \<noteq> mn" using True le [of "length (f q)"] by linarith
    ultimately show ?thesis
      using Cons.IH [of "partition_len q" "length (f q)" "Suc idx" idx] Cons.prems(1) q less True whole by simp
  next
    case False
    then have "min mn (?M (length (f q))) = ?M mn"
      by (cases "qs = []") (auto simp: min_def)
    then show ?thesis
      using Cons.IH [of m mn "Suc idx" best] Cons.prems less False whole le [of mn] by auto
  qed
qed

text \<open>The code picks the first of the shortest partitions.\<close>

lemma smallest_is_shortest:
  assumes "queues_inv t d g"
  shows "smallest_partition_index g = Inr (shortest (snd (group_view d g)))"
proof -
  obtain q qs where ps: "cg_partitions g = q # qs" using assms by (cases "cg_partitions g") (simp_all add: queues_inv_def)
  let ?f = "\<lambda>q. mq_abs (q, d)"
  have len: "unat (partition_len r) = length (?f r)" if "r \<in> set (q # qs)" for r
    using assms that ps mq_live_len_count [of r d]
    by (auto simp: queues_inv_def partition_len_def mq_count_length in_set_conv_nth)
  from smallest_loop_eq [of qs ?f "partition_len q" "length (?f q)" 1 0] len
  show ?thesis
    by (simp add: smallest_partition_index_def ps group_view_def shortest_def image_image)
qed

lemma route_group_refines:
  assumes inv: "topic_inv t d tp" and view: "topic_view d tp = (st, gs)" and k: "k < length gs"
    and room: "\<forall>p\<in>set (snd (gs ! k)). length st + length p + 1 < QUEUE_CAPACITY"
    and x: "length x \<le> MAX_MSG_SIZE"
  shows "\<exists>tp' d'. route_group x k (tp, d) = (Inr (), tp', d') \<and> topic_inv t d' tp'
    \<and> topic_view d' tp' = ([], gs[k := (fst (gs ! k), give (st @ [x]) (snd (gs ! k)))])
    \<and> (\<forall>n. (\<forall>q. n \<notin> mq_files q) \<longrightarrow> df_get d' n = df_get d n)"
proof -
  let ?g = "tp_cgroups tp ! k"
  have k': "k < length (tp_cgroups tp)" and gs: "gs ! k = group_view d ?g" and st: "mq_abs (tp_staging tp, d) = st"
    using view k by (auto simp: topic_view_def)
  have qs: "queues_inv t d ?g" using inv k' by (simp add: topic_inv_def)
  define j where "j = shortest (snd (gs ! k))"
  have idx: "smallest_partition_index ?g = Inr j" using smallest_is_shortest [OF qs] gs by (simp add: j_def)
  have "snd (gs ! k) \<noteq> []" using qs by (simp add: gs group_view_def queues_inv_def)
  then have jv: "j < length (snd (gs ! k))" unfolding j_def by (rule shortest_less)
  then have j: "j < length (cg_partitions ?g)" by (simp add: gs group_view_def)
  let ?pt = "cg_partitions ?g ! j"
  have pt: "snd (gs ! k) ! j = mq_abs (?pt, d)" using j by (simp add: gs group_view_def)
  have rm: "length (mq_abs (tp_staging tp, d)) + length (mq_abs (?pt, d)) + 1 < QUEUE_CAPACITY"
    using room nth_mem [OF jv] by (simp add: pt st)
  note key = keys_differ(1) [OF inv k' j]
  have invs: "mq_inv (tp_staging tp, d)" "mq_inv (?pt, d)"
    using inv partition_key [OF inv k' j] by (simp_all add: topic_inv_def)
  obtain st1 pt1 d1 where dr: "drain QUEUE_CAPACITY (tp_staging tp) ?pt d = (Inr (), st1, pt1, d1)"
    and i1: "mq_inv (st1, d1)" "mq_inv (pt1, d1)" "mq_abs (st1, d1) = []" "mq_abs (pt1, d1) = mq_abs (?pt, d) @ st"
    using drain_ok [OF invs key, of QUEUE_CAPACITY] rm mq_abs_small st by auto
  note fr1 = drain_frame [OF dr]
  obtain r pt2 d2 where app: "mq_append x (pt1, d1) = (r, pt2, d2)" by (cases "mq_append x (pt1, d1)")
  note fr2 = mq_append_frame [OF i1(2) app]
  have "mq_room (Suc 0) (pt1, d1)" using rm i1(4) st by (simp add: mq_room_def mq_count_length)
  from mq_append_ok [OF i1(2) this, of x] app i1(4) x
  have i2: "mq_inv (pt2, d2)" "mq_abs (pt2, d2) = mq_abs (?pt, d) @ st @ [x]" by simp_all
  have s2: "mq_inv (st1, d2)" "mq_abs (st1, d2) = []"
    using mq_other_queue [of pt1 st1 d2 d1] fr1 fr2(4) key i1(1,3) by auto
  have files: "mq_files pt1 = mq_files ?pt" using fr1 by (simp add: mq_files_def mq_key_def)
  have frame: "df_get d2 n = df_get d n" if "n \<notin> mq_files (tp_staging tp)" "n \<notin> mq_files ?pt" for n
    using fr1 fr2(4) [of n] that files by simp
  have "route_group x k (tp, d) = (Inr (), set_queues st1 k j pt2 tp, d2)"
    using idx dr app fr2(3) by (simp add: route_group_def partition_append_def set_queues_def Let_def)
  moreover have "topic_inv t d2 (set_queues st1 k j pt2 tp)"
    by (rule set_queues_view(1) [OF inv k' j]) (use fr1 fr2(1) s2(1) i2(1) frame in auto)
  moreover have "topic_view d2 (set_queues st1 k j pt2 tp) = (mq_abs (st1, d2), (map (group_view d) (tp_cgroups tp))
      [k := (cg_group_id ?g, (snd (group_view d ?g))[j := mq_abs (pt2, d2)])])"
    by (rule set_queues_view(2) [OF inv k' j]) (use fr1 fr2(1) s2(1) i2(1) frame in auto)
  moreover have "map (group_view d) (tp_cgroups tp) = gs" using view by (simp add: topic_view_def)
  moreover have "give (st @ [x]) (snd (gs ! k)) = (snd (group_view d ?g))[j := mq_abs (pt2, d2)]"
    unfolding give_def j_def [symmetric] pt i2(2) by (simp add: gs)
  moreover have "fst (gs ! k) = cg_group_id ?g" by (simp add: gs group_view_def)
  ultimately show ?thesis
    using s2(2) frame by (intro exI [of _ "set_queues st1 k j pt2 tp"] exI [of _ d2]) simp
qed

definition give_all :: "bytes list \<Rightarrow> (u16 \<times> bytes list list) list \<Rightarrow> (u16 \<times> bytes list list) list" where
  "give_all xs gs = map (\<lambda>(h, ps). (h, give xs ps)) gs"

text \<open>The files that belong to no queue.\<close>

abbreviation outside_queues :: "data_dir \<Rightarrow> data_dir \<Rightarrow> bool" where
  "outside_queues d d' \<equiv> (\<forall>n. (\<forall>q. n \<notin> mq_files q) \<longrightarrow> df_get d' n = df_get d n)"

lemma route_groups_rest:
  assumes "topic_inv t d tp" and "topic_view d tp = ([], done @ gs)" and "length x \<le> MAX_MSG_SIZE"
    and "\<forall>(h, ps)\<in>set gs. \<forall>p\<in>set ps. length p + 1 < QUEUE_CAPACITY"
  shows "\<exists>tp' d'. route_groups x (length done) (length gs) (tp, d) = (Inr (), tp', d') \<and> topic_inv t d' tp'
    \<and> topic_view d' tp' = ([], done @ give_all [x] gs) \<and> outside_queues d d'"
  using assms
proof (induction gs arbitrary: tp d "done")
  case Nil
  then show ?case by (simp add: give_all_def)
next
  case (Cons g gs)
  obtain h ps where g: "g = (h, ps)" by (cases g)
  from route_group_refines [OF Cons.prems(1,2), of "length done" x] Cons.prems(3,4) g
  obtain tp1 d1 where 1: "route_group x (length done) (tp, d) = (Inr (), tp1, d1)" "topic_inv t d1 tp1"
    "topic_view d1 tp1 = ([], (done @ [(h, give [x] ps)]) @ gs)" "outside_queues d d1" by auto
  from Cons.IH [OF 1(2,3)] Cons.prems(3,4)
  obtain tp2 d2 where 2: "route_groups x (length (done @ [(h, give [x] ps)])) (length gs) (tp1, d1) = (Inr (), tp2, d2)"
    "topic_inv t d2 tp2" "topic_view d2 tp2 = ([], (done @ [(h, give [x] ps)]) @ give_all [x] gs)" "outside_queues d1 d2" by auto
  from 1 2 g show ?case by (auto simp: sbind_def give_all_def)
qed

lemma route_groups_refines:
  assumes inv: "topic_inv t d tp" "topic_view d tp = (st, gs)" and gs: "gs \<noteq> []" and x: "length x \<le> MAX_MSG_SIZE"
    and room: "\<forall>(h, ps)\<in>set gs. \<forall>p\<in>set ps. length st + length p + 1 < QUEUE_CAPACITY"
  shows "\<exists>tp' d'. route_groups x 0 (length gs) (tp, d) = (Inr (), tp', d') \<and> topic_inv t d' tp'
    \<and> topic_view d' tp' = spec_produce x (st, gs) \<and> outside_queues d d'"
proof -
  obtain h ps rest where g: "gs = (h, ps) # rest" using gs by (cases gs) auto
  from route_group_refines [OF inv, of 0 x] g x room
  obtain tp1 d1 where 1: "route_group x 0 (tp, d) = (Inr (), tp1, d1)" "topic_inv t d1 tp1"
    "topic_view d1 tp1 = ([], [(h, give (st @ [x]) ps)] @ rest)" "outside_queues d d1" by auto
  have "\<forall>(h, ps)\<in>set rest. \<forall>p\<in>set ps. length p + 1 < QUEUE_CAPACITY" using room g by fastforce
  from route_groups_rest [OF 1(2,3) x this]
  obtain tp2 d2 where 2: "route_groups x (Suc 0) (length rest) (tp1, d1) = (Inr (), tp2, d2)" "topic_inv t d2 tp2"
    "topic_view d2 tp2 = ([], [(h, give (st @ [x]) ps)] @ give_all [x] rest)" "outside_queues d1 d2" by auto
  from 1 2 g show ?thesis by (auto simp: sbind_def give_all_def)
qed

section \<open>Waiting for a group\<close>

lemma set_staging_view:
  assumes inv: "topic_inv t d tp" and none: "tp_cgroups tp = []" and q: "mq_inv (q, d')" "mq_key q = mq_key (tp_staging tp)"
  shows "topic_inv t d' (tp\<lparr>tp_staging := q\<rparr>)" and "topic_view d' (tp\<lparr>tp_staging := q\<rparr>) = (mq_abs (q, d'), [])"
  using assms by (simp_all add: topic_inv_def topic_view_def)

lemma staging_refines:
  assumes inv: "topic_inv t d tp" "topic_view d tp = (st, [])" and x: "length x \<le> MAX_MSG_SIZE"
    and room: "length st + 1 < QUEUE_CAPACITY"
  shows "\<exists>tp' d'. append_to_staging x (tp, d) = (Inr (mq_live_len (tp_staging tp)), tp', d') \<and> topic_inv t d' tp'
    \<and> topic_view d' tp' = spec_produce x (st, []) \<and> outside_queues d d'"
proof -
  have v: "mq_inv (tp_staging tp, d)" "mq_abs (tp_staging tp, d) = st" "tp_cgroups tp = []"
    using inv by (simp_all add: topic_inv_def topic_view_def)
  obtain r q d1 where app: "mq_append x (tp_staging tp, d) = (r, q, d1)" by (cases "mq_append x (tp_staging tp, d)")
  note fr = mq_append_frame [OF v(1) app]
  have "mq_room (Suc 0) (tp_staging tp, d)" using room v(2) by (simp add: mq_room_def mq_count_length)
  from mq_append_ok [OF v(1) this, of x] app v(2) x
  have q: "mq_inv (q, d1)" "mq_abs (q, d1) = st @ [x]" by simp_all
  show ?thesis
    using app fr set_staging_view [OF inv(1) v(3) q(1) fr(1)] q(2)
    by (intro exI [of _ "tp\<lparr>tp_staging := q\<rparr>"] exI [of _ d1]) (auto simp: append_to_staging_def)
qed

section \<open>The broker\<close>

definition push_holds :: "broker \<Rightarrow> u16 \<Rightarrow> push_view \<Rightarrow> bool" where
  "push_holds b t v \<longleftrightarrow>
     (\<exists>tp. hm_get (b_topics b) t = Some tp \<and> topic_inv t (b_dir b) tp \<and> topic_view (b_dir b) tp = v)"

definition push_room :: "push_view \<Rightarrow> bool" where
  "push_room v \<longleftrightarrow> length (fst v) + 1 < QUEUE_CAPACITY
     \<and> (\<forall>(g, ps)\<in>set (snd v). \<forall>p\<in>set ps. length (fst v) + length p + 1 < QUEUE_CAPACITY)"

text \<open>Files that belong to no queue do not matter.\<close>

lemma topic_view_cong:
  assumes "\<And>n q. n \<in> mq_files q \<Longrightarrow> df_get d' n = df_get d n"
  shows "topic_inv t d' tp = topic_inv t d tp" and "topic_view d' tp = topic_view d tp"
proof -
  have "mq_inv (q, d') = mq_inv (q, d)" "mq_abs (q, d') = mq_abs (q, d)" for q
    using mq_view_cong [of q d' d] assms [of _ q] by blast+
  then show "topic_inv t d' tp = topic_inv t d tp" "topic_view d' tp = topic_view d tp"
    by (simp_all add: topic_inv_def topic_view_def queues_inv_def group_view_def)
qed

lemma push_holds_append_log:
  assumes "push_holds b t v" and h: "history b t p h" and small: "small_payload x"
    and v: "validate_produce_payload e (length x) = Inr ()"
  shows "push_holds (snd (append_log e t p x b)) t v"
proof -
  obtain tp where tp: "hm_get (b_topics b) t = Some tp" "topic_inv t (b_dir b) tp" "topic_view (b_dir b) tp = v"
    using assms(1) by (auto simp: push_holds_def)
  have topic: "hm_contains (b_topics b) t" using tp(1) by (simp add: hm_contains_def)
  note out = append_log_outside [OF topic h small v]
  have "df_get (b_dir (snd (append_log e t p x b))) n = df_get (b_dir b) n" if "n \<in> mq_files q" for n q
    using out(2) queue_files_not_logs [OF that] by blast
  from topic_view_cong [OF this] show ?thesis using tp by (simp add: push_holds_def out(1))
qed

lemma history_outside_queues:
  assumes "outside_queues (b_dir b) d"
  shows "history (b\<lparr>b_topics := ts, b_dir := d\<rparr>) t p h = history b t p h"
proof -
  have "\<forall>q. log_data_path t' p' \<notin> mq_files q" for t' p' using queue_files_not_logs by blast
  then have "logs_untouched (b_dir b) d" using assms by (simp add: logs_untouched_def)
  then show ?thesis by (subst history_cong [of b]) simp_all
qed

text \<open>What \<open>produce_pcm\<close> does to the topic after the log.\<close>

lemma route_topic_refines:
  assumes holds: "push_holds b t v" and room: "push_room v" and x: "length x \<le> MAX_MSG_SIZE"
  shows "\<exists>off ts d. with_topic t (\<lambda>(tp, d).
         if tp_cgroups tp = [] then
           sbind (append_to_staging x (tp, d)) (\<lambda>off s. (Inr (0 :: u8, max l off), s))
         else sbind (route_groups x 0 (length (tp_cgroups tp)) (tp, d)) (\<lambda>_ s. (Inr (0, l), s))) b
      = (Inr (0, off), b\<lparr>b_topics := ts, b_dir := d\<rparr>) \<and> l \<le> off \<and> (snd v \<noteq> [] \<longrightarrow> off = l)
      \<and> push_holds (b\<lparr>b_topics := ts, b_dir := d\<rparr>) t (spec_produce x v) \<and> outside_queues (b_dir b) d"
proof -
  obtain st gs where v: "v = (st, gs)" by (cases v)
  obtain tp where tp: "hm_get (b_topics b) t = Some tp" "topic_inv t (b_dir b) tp" "topic_view (b_dir b) tp = (st, gs)"
    using holds by (auto simp: push_holds_def v)
  have len: "length (tp_cgroups tp) = length gs" using tp(3) by (auto simp: topic_view_def)
  show ?thesis
  proof (cases "gs = []")
    case True
    then have none: "tp_cgroups tp = []" using len by simp
    have rm: "length st + 1 < QUEUE_CAPACITY" using room by (simp add: push_room_def v)
    obtain tp' d' where 1: "append_to_staging x (tp, b_dir b) = (Inr (mq_live_len (tp_staging tp)), tp', d')"
      "topic_inv t d' tp'" "topic_view d' tp' = spec_produce x (st, [])" "outside_queues (b_dir b) d'"
      using staging_refines [OF tp(2) _ x rm] tp(3) True by auto
    then show ?thesis
      using tp(1) none True v
      by (intro exI [of _ "max l (mq_live_len (tp_staging tp))"] exI [of _ "hm_insert t tp' (b_topics b)"] exI [of _ d'])
        (simp add: with_topic_def sbind_def push_holds_def)
  next
    case False
    have rm: "\<forall>(h, ps)\<in>set gs. \<forall>p\<in>set ps. length st + length p + 1 < QUEUE_CAPACITY" using room by (simp add: push_room_def v)
    obtain tp' d' where 1: "route_groups x 0 (length gs) (tp, b_dir b) = (Inr (), tp', d')"
      "topic_inv t d' tp'" "topic_view d' tp' = spec_produce x (st, gs)" "outside_queues (b_dir b) d'"
      using route_groups_refines [OF tp(2,3) False x rm] by auto
    have ne: "tp_cgroups tp \<noteq> []" using False len by auto
    then show ?thesis
      using tp(1) 1 len v
      by (intro exI [of _ l] exI [of _ "hm_insert t tp' (b_topics b)"] exI [of _ d'])
        (simp add: with_topic_def sbind_def push_holds_def)
  qed
qed

lemma push_holds_parts:
  assumes "push_holds b t v"
  shows "\<forall>(g, ps)\<in>set (snd v). ps \<noteq> []"
  using assms by (auto simp: push_holds_def topic_inv_def queues_inv_def topic_view_def group_view_def)

lemma push_produce_ok:
  assumes "push_holds b t v" and "push_room v" and "history b t 0 h"
    and "length x \<le> MAX_MSG_SIZE" "length x \<le> max_payload_bytes e" and "legacy_push_enabled e b"
  shows "\<exists>off b'. produce_pcm e t x b = (Inr (0, off), b') \<and> push_holds b' t (spec_produce x v)
    \<and> history b' t 0 (h @ [x]) \<and> b_cluster_state b' = b_cluster_state b \<and> of_nat (length h) \<le> off \<and> (snd v \<noteq> [] \<longrightarrow> off = of_nat (length h))"
proof -
  note holds = assms(1) and h = assms(3) and x = assms(4)
  have small: "small_payload x" using x by (simp add: small_payload_def MAX_MSG_SIZE_def)
  have v: "validate_produce_payload e (length x) = Inr ()" using assms(5) by (simp add: validate_produce_payload_def)
  obtain b1 where app: "append_log e t 0 x b = (Inr (of_nat (length h)), b1)"
    using append_log_history(1) [OF h small v] by (metis prod.collapse)
  define b2 where "b2 = ensure_log_with_config t 0 b1"
  have role: "b_cluster_state b2 = b_cluster_state b"
    using same_role_append_log [of b e t 0 x] app by (simp add: same_role_def b2_def ensure_log_with_config_def)
  have push1: "legacy_push_enabled e b1"
    using assms(6) same_role_append_log [of b e t 0 x] app by (auto simp: same_role_def legacy_push_enabled_def split: option.split)
  have h2: "history b2 t 0 (h @ [x])"
    using append_log_history(2) [OF h small v] app by (simp add: b2_def history_ensure)
  have h1: "push_holds b1 t v" using push_holds_append_log [OF holds h small v] app by simp
  then have "push_holds b2 t v" by (simp add: b2_def push_holds_def ensure_log_with_config_def)
  from route_topic_refines [OF this assms(2) x, of "of_nat (length h)"] obtain off ts d where
    1: "with_topic t (\<lambda>(tp, d).
         if tp_cgroups tp = [] then
           sbind (append_to_staging x (tp, d)) (\<lambda>off s. (Inr (0 :: u8, max (of_nat (length h)) off), s))
         else sbind (route_groups x 0 (length (tp_cgroups tp)) (tp, d)) (\<lambda>_ s. (Inr (0, of_nat (length h)), s))) b2
      = (Inr (0, off), b2\<lparr>b_topics := ts, b_dir := d\<rparr>)"
    and 2: "of_nat (length h) \<le> off" "snd v \<noteq> [] \<longrightarrow> off = of_nat (length h)"
      "push_holds (b2\<lparr>b_topics := ts, b_dir := d\<rparr>) t (spec_produce x v)" "outside_queues (b_dir b2) d" by blast
  have mut: "topic_mut t b1 = (Inr (), b2)"
    using h1 by (auto simp: push_holds_def topic_mut_def hm_contains_def b2_def)
  have "produce_pcm e t x b = (Inr (0, off), b2\<lparr>b_topics := ts, b_dir := d\<rparr>)"
    unfolding produce_pcm_def using app push1 mut 1 by (simp add: sbind_def)
  then show ?thesis using 2 h2 role history_outside_queues [OF 2(4)] by auto
qed


section \<open>Taking a message\<close>

lemma group_index_view:
  assumes "topic_view d tp = (st, gs)"
  shows "group_index tp g = (if g \<in> fst ` set gs then Some (length (takeWhile (\<lambda>c. fst c \<noteq> g) gs)) else None)"
proof -
  have gs: "gs = map (group_view d) (tp_cgroups tp)" using assms by (simp add: topic_view_def)
  have "length (takeWhile (\<lambda>c. fst c \<noteq> g) gs) = length (takeWhile (\<lambda>c. cg_group_id c \<noteq> g) (tp_cgroups tp))"
    by (simp add: gs takeWhile_map comp_def group_view_def)
  moreover have "g \<in> fst ` set gs \<longleftrightarrow> list_ex (\<lambda>c. cg_group_id c = g) (tp_cgroups tp)"
    by (auto simp: gs image_image group_view_def list_ex_iff)
  ultimately show ?thesis by (simp add: group_index_def)
qed

lemma first_index:
  assumes "g \<in> fst ` set gs"
  shows "length (takeWhile (\<lambda>c. fst c \<noteq> g) gs) < length gs"
    and "map_of gs g = Some (snd (gs ! length (takeWhile (\<lambda>c. fst c \<noteq> g) gs)))"
    and "spec_update g f gs = gs[length (takeWhile (\<lambda>c. fst c \<noteq> g) gs) :=
      (g, f (snd (gs ! length (takeWhile (\<lambda>c. fst c \<noteq> g) gs))))]"
    and "fst (gs ! length (takeWhile (\<lambda>c. fst c \<noteq> g) gs)) = g"
proof -
  have "length (takeWhile (\<lambda>c. fst c \<noteq> g) gs) < length gs
    \<and> map_of gs g = Some (snd (gs ! length (takeWhile (\<lambda>c. fst c \<noteq> g) gs)))
    \<and> spec_update g f gs = gs[length (takeWhile (\<lambda>c. fst c \<noteq> g) gs) :=
      (g, f (snd (gs ! length (takeWhile (\<lambda>c. fst c \<noteq> g) gs))))]
    \<and> fst (gs ! length (takeWhile (\<lambda>c. fst c \<noteq> g) gs)) = g" for f
    using assms
  proof (induction gs)
    case (Cons c gs)
    then show ?case by (cases c; cases "fst c = g") simp_all
  qed simp
  then show "length (takeWhile (\<lambda>c. fst c \<noteq> g) gs) < length gs"
    "map_of gs g = Some (snd (gs ! length (takeWhile (\<lambda>c. fst c \<noteq> g) gs)))"
    "spec_update g f gs = gs[length (takeWhile (\<lambda>c. fst c \<noteq> g) gs) :=
      (g, f (snd (gs ! length (takeWhile (\<lambda>c. fst c \<noteq> g) gs))))]"
    "fst (gs ! length (takeWhile (\<lambda>c. fst c \<noteq> g) gs)) = g" by blast+
qed

lemma mq_pop_empty:
  assumes "mq_inv (q, d)" "mq_abs (q, d) = []"
  shows "mq_pop_front (q, d) = (Inr None, q, d)"
proof -
  have "mq_head q = mq_tail q"
    using assms by (auto simp: mq_abs_def ring_read_def mq_count_def mq_inv_def word_unat_eq_iff split: if_splits)
  then show ?thesis by (simp add: mq_pop_front_def)
qed

lemma pop_at_refines:
  assumes inv: "topic_inv t d tp" and view: "topic_view d tp = (st, gs)" and k: "k < length (tp_cgroups tp)"
    and i: "i < length (cg_partitions (tp_cgroups tp ! k))"
  defines "q \<equiv> cg_partitions (tp_cgroups tp ! k) ! i"
  shows "\<exists>q' d'. mq_pop_front (q, d) = (Inr (if mq_abs (q, d) = [] then None else Some (hd (mq_abs (q, d)))), q', d')
    \<and> topic_inv t d' (set_queues (tp_staging tp) k i q' tp)
    \<and> topic_view d' (set_queues (tp_staging tp) k i q' tp) = (st, gs[k := (fst (gs ! k), (snd (gs ! k))[i := tl (mq_abs (q, d))])])
    \<and> outside_queues d d'"
proof -
  have q: "mq_inv (q, d)" using partition_key [OF inv k i] by (simp add: q_def)
  obtain r q' d' where pop: "mq_pop_front (q, d) = (r, q', d')" by (cases "mq_pop_front (q, d)")
  note fr = mq_pop_frame [OF pop]
  have q': "r = Inr (if mq_abs (q, d) = [] then None else Some (hd (mq_abs (q, d))))"
    "mq_abs (q', d') = tl (mq_abs (q, d))" "mq_inv (q', d')"
    using mq_pop_empty [OF q] mq_pop_Cons [OF q] pop q by (cases "mq_abs (q, d)"; simp)+
  have st': "mq_inv (tp_staging tp, d')" "mq_abs (tp_staging tp, d') = st"
    using mq_other_queue [OF keys_differ(1) [OF inv k i, symmetric] fr(3) [unfolded q_def]] inv view
    by (simp_all add: topic_inv_def topic_view_def)
  have ti: "topic_inv t d' (set_queues (tp_staging tp) k i q' tp)"
    by (rule set_queues_view(1) [OF inv k i]) (use fr st' q' in \<open>auto simp: q_def\<close>)
  have "topic_view d' (set_queues (tp_staging tp) k i q' tp) = (mq_abs (tp_staging tp, d'), (map (group_view d) (tp_cgroups tp))
      [k := (cg_group_id (tp_cgroups tp ! k), (snd (group_view d (tp_cgroups tp ! k)))[i := mq_abs (q', d')])])"
    by (rule set_queues_view(2) [OF inv k i]) (use fr st' q' in \<open>auto simp: q_def\<close>)
  moreover have "gs = map (group_view d) (tp_cgroups tp)" using view by (simp add: topic_view_def)
  ultimately show ?thesis using pop ti fr(3) q' st'(2) k by (auto simp: group_view_def)
qed

lemma pop_in_group_refines:
  assumes inv: "topic_inv t d tp" and view: "topic_view d tp = v"
  shows "\<exists>tp' d'. pop_in_group g i (tp, d) = (Inr (fst (spec_pop g (unat i) v)), tp', d') \<and> topic_inv t d' tp'
    \<and> topic_view d' tp' = snd (spec_pop g (unat i) v) \<and> outside_queues d d'"
proof -
  obtain st gs where v: "v = (st, gs)" by (cases v)
  define k where "k = length (takeWhile (\<lambda>c. fst c \<noteq> g) gs)"
  note idx = group_index_view [OF view [unfolded v], of g, folded k_def]
  show ?thesis
  proof (cases "g \<in> fst ` set gs")
    case False
    then have "map_of gs g = None" by (simp add: map_of_eq_None_iff)
    then show ?thesis using False idx inv view v by (simp add: pop_in_group_def spec_pop_def)
  next
    case True
    note first = first_index [OF True, folded k_def]
    let ?c = "tp_cgroups tp ! k" and ?ps = "snd (gs ! k)"
    have k: "k < length (tp_cgroups tp)" and parts: "?ps = map (\<lambda>q. mq_abs (q, d)) (cg_partitions ?c)"
      using view v first(1) by (auto simp: topic_view_def group_view_def)
    show ?thesis
    proof (cases "unat i < length (cg_partitions ?c)")
      case False
      then show ?thesis using idx True inv view v first(2) parts by (simp add: pop_in_group_def spec_pop_def Let_def)
    next
      case in_range: True
      from pop_at_refines [OF inv view [unfolded v] k in_range] obtain q' d' where
        pop: "mq_pop_front (cg_partitions ?c ! unat i, d) = (Inr (if ?ps ! unat i = [] then None else Some (hd (?ps ! unat i))), q', d')"
        "topic_inv t d' (set_queues (tp_staging tp) k (unat i) q' tp)"
        "topic_view d' (set_queues (tp_staging tp) k (unat i) q' tp) = (st, gs[k := (g, ?ps[unat i := tl (?ps ! unat i)])])"
        "outside_queues d d'"
        using parts in_range first(4) by auto
      have "gs[k := (g, ?ps)] = gs" using first(4) by (metis list_update_id prod.collapse)
      moreover have "?ps[unat i := []] = ?ps" if "?ps ! unat i = []" using that by (metis list_update_id)
      ultimately have "spec_pop g (unat i) v = (if ?ps ! unat i = [] then None else Some (hd (?ps ! unat i)),
          st, gs[k := (g, ?ps[unat i := tl (?ps ! unat i)])])"
        using first(2,3) in_range v parts [THEN arg_cong, of length] by (simp add: spec_pop_def)
      moreover have "pop_in_group g i (tp, d) = (Inr (if ?ps ! unat i = [] then None else Some (hd (?ps ! unat i))),
          set_queues (tp_staging tp) k (unat i) q' tp, d')"
        using idx True in_range pop(1) by (simp add: pop_in_group_def partition_pop_front_def set_queues_def Let_def)
      ultimately show ?thesis using pop(2-4) by auto
    qed
  qed
qed

text \<open>
  A poll of the delivery loop refines taking the oldest message of the consumer's
  partition: the message is handed out once, in order, and no other partition, no other
  group and no log changes.
\<close>

lemma push_poll_ok:
  assumes "push_holds b t v"
  shows "\<exists>b'. deliver_poll t g i b = (Inr (fst (spec_pop g (unat i) v)), b') \<and> push_holds b' t (snd (spec_pop g (unat i) v))
    \<and> (\<forall>p h. history b' t p h = history b t p h)"
proof -
  obtain tp where tp: "hm_get (b_topics b) t = Some tp" "topic_inv t (b_dir b) tp" "topic_view (b_dir b) tp = v"
    using assms by (auto simp: push_holds_def)
  from pop_in_group_refines [OF tp(2,3), of g i]
  obtain tp' d' where 1: "pop_in_group g i (tp, b_dir b) = (Inr (fst (spec_pop g (unat i) v)), tp', d')"
    "topic_inv t d' tp'" "topic_view d' tp' = snd (spec_pop g (unat i) v)" "outside_queues (b_dir b) d'" by blast
  have "deliver_poll t g i b = (Inr (fst (spec_pop g (unat i) v)), b\<lparr>b_topics := hm_insert t tp' (b_topics b), b_dir := d'\<rparr>)"
    using tp(1) 1(1) by (simp add: deliver_poll_def hm_contains_def with_topic_def)
  moreover have "push_holds (b\<lparr>b_topics := hm_insert t tp' (b_topics b), b_dir := d'\<rparr>) t (snd (spec_pop g (unat i) v))"
    using 1(2,3) by (simp add: push_holds_def)
  ultimately show ?thesis using history_outside_queues [OF 1(4)] by blast
qed

lemma spec_update_simps:
  "length (takeWhile (\<lambda>c. fst c \<noteq> g) (spec_update g f gs)) = length (takeWhile (\<lambda>c. fst c \<noteq> g) gs)"
  "fst ` set (spec_update g f gs) = fst ` set gs" "map_of (spec_update g f gs) g = map_option f (map_of gs g)"
  by (induction g f gs rule: spec_update.induct) auto

section \<open>Registering a consumer\<close>

definition topic_queues :: "topic \<Rightarrow> mmap_queue list" where
  "topic_queues tp = tp_staging tp # concat (map cg_partitions (tp_cgroups tp))"

lemma topic_frame:
  assumes "\<forall>q\<in>set (topic_queues tp). \<forall>n\<in>mq_files q. df_get d' n = df_get d n"
  shows "topic_inv t d' tp = topic_inv t d tp" and "topic_view d' tp = topic_view d tp"
    and "g \<in> set (tp_cgroups tp) \<Longrightarrow> queues_inv t d' g = queues_inv t d g"
    and "g \<in> set (tp_cgroups tp) \<Longrightarrow> group_view d' g = group_view d g"
proof -
  have q: "mq_inv (q, d') = mq_inv (q, d)" "mq_abs (q, d') = mq_abs (q, d)" if "q \<in> set (topic_queues tp)" for q
    using mq_view_cong [of q d' d] assms that by blast+
  have g: "queues_inv t d' g = queues_inv t d g" "group_view d' g = group_view d g" if "g \<in> set (tp_cgroups tp)" for g
  proof -
    have "cg_partitions g ! i \<in> set (topic_queues tp)" if "i < length (cg_partitions g)" for i
      using nth_mem [OF that] \<open>g \<in> set (tp_cgroups tp)\<close> by (auto simp: topic_queues_def)
    with q show "queues_inv t d' g = queues_inv t d g" "group_view d' g = group_view d g"
      by (auto simp: queues_inv_def group_view_def in_set_conv_nth)
  qed
  have "tp_staging tp \<in> set (topic_queues tp)" by (simp add: topic_queues_def)
  note st = q [OF this]
  show "topic_inv t d' tp = topic_inv t d tp" using st g by (simp add: topic_inv_def)
  show "topic_view d' tp = topic_view d tp" using st g by (simp add: topic_view_def)
  show "g \<in> set (tp_cgroups tp) \<Longrightarrow> queues_inv t d' g = queues_inv t d g"
    "g \<in> set (tp_cgroups tp) \<Longrightarrow> group_view d' g = group_view d g" using g by blast+
qed

text \<open>A partition that has never been opened.\<close>

definition unopened :: "u16 \<Rightarrow> u16 \<Rightarrow> u16 \<Rightarrow> data_dir \<Rightarrow> bool" where
  "unopened t g p d \<longleftrightarrow> df_get d (partition_metadata_path t g p) = None \<and> df_get d (under_arr_path t g p) = None
     \<and> df_get d (under_size_path t g p) = None"

lemma unopened_files: "mq_key q = (t, g, p) \<Longrightarrow> unopened t g p d \<longleftrightarrow> (\<forall>n\<in>mq_files q. df_get d n = None)"
  by (auto simp: unopened_def mq_files_def mq_key_def)

lemma queue_with_key: "\<exists>q. mq_key q = (t, g, p)"
  by (rule exI [of _ "\<lparr>mq_topic = t, mq_group = g, mq_partition = p, mq_head = 0, mq_tail = 0\<rparr>"]) (simp add: mq_key_def)

lemma unopened_frame:
  assumes "\<And>r n. mq_key r = (t, g, p) \<Longrightarrow> n \<in> mq_files r \<Longrightarrow> df_get d' n = df_get d n"
  shows "unopened t g p d' = unopened t g p d"
  using queue_with_key [of t g p] assms by (metis unopened_files)

lemma partition_open_unopened:
  assumes "unopened t g p d"
  obtains q d' where "partition_open t g p d = (Inr q, d')" "mq_inv (q, d')" "mq_abs (q, d') = []" "mq_key q = (t, g, p)"
    "\<And>r n. mq_key r \<noteq> (t, g, p) \<Longrightarrow> n \<in> mq_files r \<Longrightarrow> df_get d' n = df_get d n"
proof -
  obtain q d' where q: "mq_open t g p d = (Inr q, d')" "mq_inv (q, d')" "mq_abs (q, d') = []"
    using mq_open_fresh [of d t g p] assms by (auto simp: unopened_def)
  have key: "mq_key q = (t, g, p)" using mq_open_key [of t g p d q] q(1) by simp
  have "df_get d' n = df_get d n" if "mq_key r \<noteq> (t, g, p)" "n \<in> mq_files r" for r n
    using mq_open_frame [of n t g p d] that q(1) key mq_files_disjoint [of r q] by (auto simp: mq_files_def mq_key_def)
  with q key show thesis using that by (auto simp: partition_open_def)
qed

text \<open>The counts and the lists of groups are in files of their own.\<close>

lemma counts_frame:
  "n \<in> mq_files q \<Longrightarrow> df_get (store_cgroup_partition_count t g c d) n = df_get d n"
  "n \<in> mq_files q \<Longrightarrow> df_get (persist_groups tp d) n = df_get d n"
  by (auto simp: mq_files_def path_keys store_cgroup_partition_count_def persist_groups_def store_topic_groups_def
      store_ids_frame write_u32_def store_simps Let_def)

lemma queue_in_view:
  assumes inv: "topic_inv t d tp" and q: "q \<in> set (topic_queues tp)"
  shows "mq_key q = (t, STAGING_GROUP_ID, STAGING_PARTITION_ID)
    \<or> (\<exists>c\<in>set (tp_cgroups tp). \<exists>i<length (cg_partitions c). mq_key q = (t, cg_group_id c, of_nat (Suc i)))"
proof (cases "q = tp_staging tp")
  case True
  then show ?thesis using inv by (simp add: topic_inv_def)
next
  case False
  then obtain c where c: "c \<in> set (tp_cgroups tp)" "q \<in> set (cg_partitions c)" using q by (auto simp: topic_queues_def)
  then obtain i where "i < length (cg_partitions c)" "cg_partitions c ! i = q" by (auto simp: in_set_conv_nth)
  with c(1) inv show ?thesis by (auto simp: topic_inv_def queues_inv_def simp del: of_nat_Suc)
qed

lemma create_group_refines:
  assumes inv: "topic_inv t d tp" and new: "g \<notin> cg_group_id ` set (tp_cgroups tp)" and un: "unopened t g 1 d"
  shows "\<exists>c d'. find_or_create_group g (tp, d) = (Inr True, tp\<lparr>tp_cgroups := tp_cgroups tp @ [c]\<rparr>, d')
    \<and> cg_group_id c = g \<and> cg_consumer_count c = 0 \<and> length (cg_partitions c) = 1
    \<and> (\<forall>r n. mq_key r \<noteq> (t, g, 1) \<longrightarrow> n \<in> mq_files r \<longrightarrow> df_get d' n = df_get d n)
    \<and> topic_inv t d' (tp\<lparr>tp_cgroups := tp_cgroups tp @ [c]\<rparr>)
    \<and> topic_view d' (tp\<lparr>tp_cgroups := tp_cgroups tp @ [c]\<rparr>) = (fst (topic_view d tp), snd (topic_view d tp) @ [(g, [[]])])"
proof -
  let ?d1 = "store_cgroup_partition_count t g 1 d"
  have un1: "unopened t g 1 ?d1"
    using un unopened_frame counts_frame(1) by metis
  obtain q d2 where q: "partition_open t g 1 ?d1 = (Inr q, d2)" "mq_inv (q, d2)" "mq_abs (q, d2) = []" "mq_key q = (t, g, 1)"
    "\<And>r n. mq_key r \<noteq> (t, g, 1) \<Longrightarrow> n \<in> mq_files r \<Longrightarrow> df_get d2 n = df_get ?d1 n"
    using partition_open_unopened [OF un1] by metis
  define c where "c = \<lparr>cg_group_id = g, cg_partitions = [q], cg_consumer_count = 0\<rparr>"
  let ?tp = "tp\<lparr>tp_cgroups := tp_cgroups tp @ [c]\<rparr>"
  define d3 where "d3 = persist_groups ?tp d2"
  have "find_or_create_group g (tp, d) = (Inr True, ?tp, d3)"
    using new inv q(1) by (auto simp: find_or_create_group_def cgroup_create_new_def sbind_def list_ex_iff topic_inv_def c_def d3_def Let_def)
  moreover have other: "df_get d3 n = df_get d n" if "mq_key r \<noteq> (t, g, 1)" "n \<in> mq_files r" for r n
    using q(5) [OF that] counts_frame that(2) by (simp add: d3_def)
  moreover have "mq_key r \<noteq> (t, g, 1)" if "r \<in> set (topic_queues tp)" for r
    using queue_in_view [OF inv that] new by (auto simp: STAGING_PARTITION_ID_def)
  then have old: "\<forall>r\<in>set (topic_queues tp). \<forall>n\<in>mq_files r. df_get d3 n = df_get d n" using other by blast
  note fr = topic_frame [OF old]
  have q3: "mq_inv (q, d3)" "mq_abs (q, d3) = []"
    using mq_view_cong [of q d3 d2] counts_frame(2) q(2,3) by (simp_all add: d3_def)
  have qc: "queues_inv t d3 c" "cg_group_id c = g" using q3(1) q(4) by (simp_all add: queues_inv_def c_def)
  have "topic_inv t d3 tp" using inv fr(1) by simp
  with new qc have "topic_inv t d3 ?tp" by (auto simp: topic_inv_def)
  moreover have "topic_view d3 ?tp = (fst (topic_view d tp), snd (topic_view d tp) @ [(g, [[]])])"
    using fr(2) q3(2) by (simp add: topic_view_def group_view_def c_def)
  ultimately show ?thesis by (intro exI [of _ c] exI [of _ d3]) (simp add: c_def)
qed

lemma assign_new_partition:
  assumes inv: "topic_inv t d tp" and k: "group_index tp g = Some k" "k < length (tp_cgroups tp)"
    and id: "cg_group_id (tp_cgroups tp ! k) = g"
    and full: "unat (cg_consumer_count (tp_cgroups tp ! k)) = length (cg_partitions (tp_cgroups tp ! k))"
    and len: "Suc (length (cg_partitions (tp_cgroups tp ! k))) < 65535"
    and un: "unopened t g (of_nat (Suc (length (cg_partitions (tp_cgroups tp ! k))))) d"
  shows "\<exists>c d'. assign_in_group t g (tp, d) = (Inr (of_nat (length (cg_partitions (tp_cgroups tp ! k)))),
      tp\<lparr>tp_cgroups := (tp_cgroups tp)[k := c]\<rparr>, d')
    \<and> unat (cg_consumer_count c) = length (cg_partitions c)
    \<and> topic_inv t d' (tp\<lparr>tp_cgroups := (tp_cgroups tp)[k := c]\<rparr>)
    \<and> topic_view d' (tp\<lparr>tp_cgroups := (tp_cgroups tp)[k := c]\<rparr>) = (fst (topic_view d tp),
        (snd (topic_view d tp))[k := (g, snd (snd (topic_view d tp) ! k) @ [[]])])"
proof -
  let ?c = "tp_cgroups tp ! k" and ?gs = "tp_cgroups tp"
  let ?m = "length (cg_partitions ?c)"
  obtain q d1 where q: "partition_open t g (of_nat (Suc ?m)) d = (Inr q, d1)" "mq_inv (q, d1)" "mq_abs (q, d1) = []"
    "mq_key q = (t, g, of_nat (Suc ?m))"
    "\<And>r n. mq_key r \<noteq> (t, g, of_nat (Suc ?m)) \<Longrightarrow> n \<in> mq_files r \<Longrightarrow> df_get d1 n = df_get d n"
    using partition_open_unopened [OF un] by metis
  define c where "c = ?c\<lparr>cg_consumer_count := cg_consumer_count ?c + 1, cg_partitions := cg_partitions ?c @ [q]\<rparr>"
  define d2 where "d2 = store_cgroup_partition_count t g (of_nat (Suc ?m)) d1"
  let ?tp = "tp\<lparr>tp_cgroups := ?gs[k := c]\<rparr>"
  have count: "unat (cg_consumer_count ?c + 1) = Suc ?m"
    using full len by (simp add: unat_word_ariths)
  have "assign_in_group t g (tp, d) = (Inr (of_nat ?m), ?tp, d2)"
    using k(1) q(1) count id
    by (simp add: assign_in_group_def assign_partition_def c_def d2_def Let_def add.commute)
  moreover have "df_get d2 n = df_get d n" if r: "r \<in> set (topic_queues tp)" "n \<in> mq_files r" for r n
  proof -
    have "mq_key r \<noteq> (t, g, of_nat (Suc ?m))"
    proof
      assume key: "mq_key r = (t, g, of_nat (Suc ?m))"
      have "of_nat (Suc ?m) \<noteq> STAGING_PARTITION_ID" using partition_id_not_staging [of ?m] len by simp
      then obtain c' i where c': "c' \<in> set ?gs" "i < length (cg_partitions c')" "cg_group_id c' = g"
        "(of_nat (Suc i) :: u16) = of_nat (Suc ?m)"
        using queue_in_view [OF inv r(1)] key by (auto simp del: of_nat_Suc)
      have "c' = ?c" using c'(1,3) id k(2) inv by (auto simp: topic_inv_def distinct_map inj_on_def)
      with c'(2,4) len partition_ids_distinct [of i ?m] show False by simp
    qed
    from q(5) [OF this r(2)] show ?thesis using counts_frame(1) r(2) by (simp add: d2_def)
  qed
  then have old: "\<forall>r\<in>set (topic_queues tp). \<forall>n\<in>mq_files r. df_get d2 n = df_get d n" by blast
  note fr = topic_frame [OF old]
  have q2: "mq_inv (q, d2)" "mq_abs (q, d2) = []"
    using mq_view_cong [of q d2 d1] counts_frame(1) q(2,3) by (simp_all add: d2_def)
  have qs: "queues_inv t d2 ?c" "group_view d2 ?c = group_view d ?c" using fr(3,4) [where g = ?c] k(2) inv by (simp_all add: topic_inv_def)
  have ids: "map cg_group_id (?gs[k := c]) = map cg_group_id ?gs"
    using k(2) by (simp add: map_update c_def list_update_same_conv)
  have cv: "group_view d2 c = (g, snd (group_view d ?c) @ [[]])"
    using qs(2) q2(2) id by (simp add: group_view_def c_def)
  have "queues_inv t d2 c"
    using qs(1) q2(1) q(4) len id by (auto simp: queues_inv_def c_def nth_append less_Suc_eq simp del: of_nat_Suc)
  then have "topic_inv t d2 ?tp"
    using inv fr(1,3) ids by (auto simp: topic_inv_def dest!: set_update_subset_insert [THEN subsetD])
  moreover have "topic_view d2 ?tp = (fst (topic_view d tp), (snd (topic_view d tp))[k := (g, snd (snd (topic_view d tp) ! k) @ [[]])])"
    using fr(2) [unfolded topic_view_def] k(2) cv by (simp add: topic_view_def map_update del: map_eq_conv)
  ultimately show ?thesis using count by (intro exI [of _ c] exI [of _ d2]) (simp add: c_def)
qed

text \<open>As many consumers have registered in the group as it has partitions.\<close>

definition push_served :: "broker \<Rightarrow> u16 \<Rightarrow> u16 \<Rightarrow> bool" where
  "push_served b t g \<longleftrightarrow> (\<exists>tp k. hm_get (b_topics b) t = Some tp \<and> group_index tp g = Some k
     \<and> unat (cg_consumer_count (tp_cgroups tp ! k)) = length (cg_partitions (tp_cgroups tp ! k)))"

lemma topic_mut_push:
  assumes "hm_get (b_topics b) t = Some tp"
  shows "topic_mut t b = (Inr (), ensure_log_with_config t 0 b)"
    and "b_topics (ensure_log_with_config t 0 b) = b_topics b" and "b_dir (ensure_log_with_config t 0 b) = b_dir b"
  using assms by (simp_all add: topic_mut_def hm_contains_def ensure_log_with_config_def)

lemma topic_created:
  assumes "hm_get (b_topics b) t = None" and "unopened t STAGING_GROUP_ID STAGING_PARTITION_ID (b_dir b)"
  shows "push_holds (snd (topic_mut t b)) t ([], [])"
    and "p \<noteq> STAGING_PARTITION_ID \<Longrightarrow> unopened t g p (b_dir (snd (topic_mut t b))) = unopened t g p (b_dir b)"
proof -
  obtain q d where q: "mq_open t STAGING_GROUP_ID STAGING_PARTITION_ID (b_dir b) = (Inr q, d)" "mq_inv (q, d)" "mq_abs (q, d) = []"
    "mq_key q = (t, STAGING_GROUP_ID, STAGING_PARTITION_ID)"
    "\<And>r n. mq_key r \<noteq> (t, STAGING_GROUP_ID, STAGING_PARTITION_ID) \<Longrightarrow> n \<in> mq_files r \<Longrightarrow> df_get d n = df_get (b_dir b) n"
    using partition_open_unopened [OF assms(2)] unfolding partition_open_def by metis
  have ids: "df_get (store_ids broker_metadata_path ids d) n = df_get d n" if "n \<in> mq_files r" for r n ids
    using that by (auto simp: mq_files_def path_keys store_ids_frame)
  then have "mq_inv (q, store_ids broker_metadata_path ids d)" "mq_abs (q, store_ids broker_metadata_path ids d) = []" for ids
    using mq_view_cong [of q "store_ids broker_metadata_path ids d" d] q(2,3) by simp_all
  with assms(1) q(1,4) show "push_holds (snd (topic_mut t b)) t ([], [])"
    by (simp add: topic_mut_def hm_contains_def topic_create_def sbind_def push_holds_def ensure_log_with_config_def
        persist_topics_def store_broker_topics_def topic_inv_def topic_view_def Let_def)
  have "unopened t g p (store_ids broker_metadata_path ids d) = unopened t g p (b_dir b)" if "p \<noteq> STAGING_PARTITION_ID" for ids
  proof (rule unopened_frame)
    fix r n
    assume r: "mq_key r = (t, g, p)" "n \<in> mq_files r"
    then show "df_get (store_ids broker_metadata_path ids d) n = df_get (b_dir b) n"
      using q(5) [of r n] ids [OF r(2)] that by simp
  qed
  then show "p \<noteq> STAGING_PARTITION_ID \<Longrightarrow> unopened t g p (b_dir (snd (topic_mut t b))) = unopened t g p (b_dir b)"
    using assms(1) q(1)
    by (simp add: topic_mut_def hm_contains_def topic_create_def sbind_def ensure_log_with_config_def
        persist_topics_def store_broker_topics_def Let_def)
qed

lemma first_registration:
  assumes holds: "push_holds b t (st, gs)" and new: "g \<notin> fst ` set gs" and un: "unopened t g 1 (b_dir b)"
  shows "\<exists>b'. register_consumer \<lparr>creg_port = port, creg_topic_id = t, creg_group_id = g\<rparr> b = (Inr 0, b')
    \<and> push_holds b' t (st, gs @ [(g, [[]])]) \<and> push_served b' t g
    \<and> (\<forall>h p. (h, p) \<noteq> (g, 1) \<longrightarrow> unopened t h p (b_dir b') = unopened t h p (b_dir b)) \<and> b_cluster_state b' = b_cluster_state b"
proof -
  obtain tp where tp: "hm_get (b_topics b) t = Some tp" "topic_inv t (b_dir b) tp" "topic_view (b_dir b) tp = (st, gs)"
    using holds by (auto simp: push_holds_def)
  have new': "g \<notin> cg_group_id ` set (tp_cgroups tp)"
    using new tp(3) by (auto simp: topic_view_def group_view_def image_image)
  let ?b1 = "ensure_log_with_config t 0 b"
  note mut = topic_mut_push [OF tp(1)]
  obtain c d1 where c: "find_or_create_group g (tp, b_dir b) = (Inr True, tp\<lparr>tp_cgroups := tp_cgroups tp @ [c]\<rparr>, d1)"
    "cg_group_id c = g" "cg_consumer_count c = 0" "length (cg_partitions c) = 1"
    "topic_inv t d1 (tp\<lparr>tp_cgroups := tp_cgroups tp @ [c]\<rparr>)"
    "topic_view d1 (tp\<lparr>tp_cgroups := tp_cgroups tp @ [c]\<rparr>) = (st, gs @ [(g, [[]])])"
    "\<And>r n. mq_key r \<noteq> (t, g, 1) \<Longrightarrow> n \<in> mq_files r \<Longrightarrow> df_get d1 n = df_get (b_dir b) n"
    using create_group_refines [OF tp(2) new' un] tp(3) by auto
  let ?tp1 = "tp\<lparr>tp_cgroups := tp_cgroups tp @ [c]\<rparr>"
  let ?c2 = "c\<lparr>cg_consumer_count := 1\<rparr>"
  let ?tp2 = "tp\<lparr>tp_cgroups := tp_cgroups tp @ [?c2]\<rparr>"
  have idx: "group_index (tp\<lparr>tp_cgroups := tp_cgroups tp @ [c']\<rparr>) g = Some (length (tp_cgroups tp))" if "cg_group_id c' = g" for c'
  proof -
    have "takeWhile (\<lambda>c. cg_group_id c \<noteq> g) (tp_cgroups tp @ [c']) = tp_cgroups tp"
      using new' that by (subst takeWhile_append2) (blast, simp)
    then show ?thesis using that by (simp add: group_index_def)
  qed
  have "assign_in_group t g (?tp1, d1) = (Inr 0, ?tp2, d1)"
    using idx [OF c(2)] c(3,4) by (simp add: assign_in_group_def assign_partition_def Let_def)
  then have "register_consumer \<lparr>creg_port = port, creg_topic_id = t, creg_group_id = g\<rparr> b
      = (Inr 0, ?b1\<lparr>b_topics := hm_insert t ?tp2 (hm_insert t ?tp1 (b_topics b)), b_dir := d1\<rparr>)"
    using mut tp(1) c(1) by (simp add: register_consumer_def sbind_def with_topic_def)
  moreover have "topic_inv t d1 ?tp2" "topic_view d1 ?tp2 = (st, gs @ [(g, [[]])])"
    using c(5,6) by (simp_all add: topic_inv_def topic_view_def queues_inv_def group_view_def)
  moreover have "group_index ?tp2 g = Some (length (tp_cgroups tp))" using idx c(2) by simp
  moreover have "unopened t h p d1 = unopened t h p (b_dir b)" if "(h, p) \<noteq> (g, 1)" for h p
    by (rule unopened_frame, rule c(7)) (use that in auto)
  moreover have "b_cluster_state ?b1 = b_cluster_state b" by (simp add: ensure_log_with_config_def)
  ultimately show ?thesis using c(4) by (auto simp: push_holds_def push_served_def)
qed

lemma open_partitions_length: "fst (open_partitions t g i n d) = Inr qs \<Longrightarrow> length qs = n"
proof (induction t g i n d arbitrary: qs rule: open_partitions.induct)
  case (2 t g i n d)
  then show ?case by (auto simp: sbind_def split: sum.splits)
qed simp

lemma restart_served: "cgroup_load t g d = (Inr c, d') \<Longrightarrow> unat (cg_consumer_count c) = length (cg_partitions c)"
  by (auto simp: cgroup_load_def sbind_def Let_def open_partitions_length split: prod.splits sum.splits)

text \<open>
  A consumer that registers in a group with as many consumers as partitions, among
  them one that reconnects, is given a new, empty partition, and the group is again of
  this kind.  The messages in the other partitions stay where they are, the first poll of
  the consumer finds nothing, and only a later message can reach it.
\<close>

theorem reconnect_gets_empty_partition:
  assumes "push_holds b t (st, gs)" and "map_of gs g = Some ps" and "push_served b t g"
    and "Suc (length ps) < 65535" and "unopened t g (of_nat (Suc (length ps))) (b_dir b)"
  shows "\<exists>b'. register_consumer \<lparr>creg_port = port, creg_topic_id = t, creg_group_id = g\<rparr> b = (Inr (of_nat (length ps)), b')
    \<and> push_holds b' t (st, spec_update g (\<lambda>ps. ps @ [[]]) gs) \<and> push_served b' t g
    \<and> fst (deliver_poll t g (of_nat (length ps)) b') = Inr None"
proof -
  obtain tp where tp: "hm_get (b_topics b) t = Some tp" "topic_inv t (b_dir b) tp" "topic_view (b_dir b) tp = (st, gs)"
    using assms(1) by (auto simp: push_holds_def)
  have g: "g \<in> fst ` set gs" using assms(2) by (metis map_of_eq_None_iff option.distinct(1))
  define k where "k = length (takeWhile (\<lambda>c. fst c \<noteq> g) gs)"
  note first = first_index [OF g, folded k_def]
  have idx: "group_index tp g = Some k" using group_index_view [OF tp(3), of g] g by (simp add: k_def)
  let ?c = "tp_cgroups tp ! k"
  have k: "k < length (tp_cgroups tp)" and gk: "gs ! k = group_view (b_dir b) ?c"
    using tp(3) first(1) by (auto simp: topic_view_def)
  have ps: "length (cg_partitions ?c) = length ps" "snd (gs ! k) = ps"
    using gk first(2) assms(2) by (auto simp: group_view_def)
  have id: "cg_group_id ?c = g" using gk first(4) by (simp add: group_view_def)
  have full: "unat (cg_consumer_count ?c) = length (cg_partitions ?c)"
    using assms(3) tp(1) idx by (auto simp: push_served_def)
  obtain c d' where c: "assign_in_group t g (tp, b_dir b) = (Inr (of_nat (length ps)), tp\<lparr>tp_cgroups := (tp_cgroups tp)[k := c]\<rparr>, d')"
    "unat (cg_consumer_count c) = length (cg_partitions c)"
    "topic_inv t d' (tp\<lparr>tp_cgroups := (tp_cgroups tp)[k := c]\<rparr>)"
    "topic_view d' (tp\<lparr>tp_cgroups := (tp_cgroups tp)[k := c]\<rparr>) = (st, gs[k := (g, ps @ [[]])])"
    using assign_new_partition [OF tp(2) idx k id full] assms(4,5) tp(3) ps by (auto simp del: of_nat_Suc)
  let ?tp = "tp\<lparr>tp_cgroups := (tp_cgroups tp)[k := c]\<rparr>" and ?v = "(st, spec_update g (\<lambda>ps. ps @ [[]]) gs)"
  let ?b' = "(ensure_log_with_config t 0 b)\<lparr>b_topics := hm_insert t ?tp (hm_insert t tp (b_topics b)), b_dir := d'\<rparr>"
  have found: "find_or_create_group g (tp, b_dir b) = (Inr False, tp, b_dir b)"
    using idx by (simp add: find_or_create_group_def group_index_def split: if_splits)
  have "register_consumer \<lparr>creg_port = port, creg_topic_id = t, creg_group_id = g\<rparr> b = (Inr (of_nat (length ps)), ?b')"
    using topic_mut_push [OF tp(1)] tp(1) found c(1) by (simp add: register_consumer_def sbind_def with_topic_def)
  moreover have upd: "spec_update g (\<lambda>ps. ps @ [[]]) gs = gs[k := (g, ps @ [[]])]" using first(3) ps(2) by simp
  then have holds: "push_holds ?b' t ?v" using c(3,4) by (simp add: push_holds_def)
  moreover have "group_index ?tp g = Some k"
    using group_index_view [OF c(4) [folded upd], of g] g by (simp add: spec_update_simps k_def)
  then have "push_served ?b' t g" using c(2) k by (simp add: push_served_def)
  moreover have "fst (spec_pop g (length ps) ?v) = None"
    using assms(2) by (simp add: spec_pop_def spec_update_simps)
  then have "fst (deliver_poll t g (of_nat (length ps)) ?b') = Inr None"
    using push_poll_ok [OF holds, of g "of_nat (length ps)"] assms(4) by (auto simp: unat_of_nat_u16)
  ultimately show ?thesis using holds by blast
qed

section \<open>Examples\<close>

lemma push_sample:
  "\<exists>b h. push_holds b 1 ([], [(5, [[]])]) \<and> history b 1 0 h \<and> legacy_push_enabled empty_env b \<and> push_served b 1 5
    \<and> unopened 1 5 2 (b_dir b)"
proof -
  let ?b = "snd (topic_mut 1 sample_broker)" and ?reg = "\<lparr>creg_port = 9, creg_topic_id = 1, creg_group_id = 5\<rparr>"
  have none: "unopened t g p (b_dir sample_broker)" for t g p
    by (simp add: unopened_def sample_broker_def empty_dir_def df_get_def)
  have new: "hm_get (b_topics sample_broker) 1 = None" by (simp add: sample_broker_def)
  note made = topic_created [OF new none]
  have un: "unopened 1 5 1 (b_dir ?b)" "unopened 1 5 2 (b_dir ?b)" using made(2) none by (simp_all add: STAGING_PARTITION_ID_def)
  obtain b where b: "register_consumer ?reg ?b = (Inr 0, b)" "push_holds b 1 ([], [(5, [[]])])" "push_served b 1 5"
      "unopened 1 5 2 (b_dir b)" "b_cluster_state b = b_cluster_state ?b"
    using first_registration [OF made(1) _ un(1), of 9] un(2) by fastforce
  have "logs_ok ?b" using topic_mut_history [OF sample_broker_history] by (auto simp: logs_ok_def)
  then have "logs_ok b" using keeps_register_consumer [of ?b ?reg] b(1) by (auto simp: keeps_def intro: grows_ok)
  then obtain h where "history b 1 0 h" by (auto simp: logs_ok_def)
  moreover have "legacy_push_enabled empty_env b"
    using same_role_topic_mut [of sample_broker 1] b(5) by (simp add: same_role_def legacy_push_enabled_def sample_broker_def)
  ultimately show ?thesis using b by blast
qed


theorem reconnect_gets_empty_partition_witness:
  "\<exists>b b'. push_holds b 1 ([], [(5, [[]])])
    \<and> register_consumer \<lparr>creg_port = 9, creg_topic_id = 1, creg_group_id = 5\<rparr> b = (Inr 1, b')
    \<and> push_holds b' 1 ([], [(5, [[], []])])"
proof -
  obtain b where b: "push_holds b 1 ([], [(5, [[]])])" "push_served b 1 5" "unopened 1 5 2 (b_dir b)" using push_sample by blast
  from reconnect_gets_empty_partition [OF b(1) _ b(2), of "[[]]" 9] b(1,3) show ?thesis by fastforce
qed

end
