(* ===== verification/Storage.thy ===== *)
theory Storage
  imports Push_Refinement
begin

text \<open>
  The \<open>Storage\<close> trait of \<open>dmq-storage/src/storage.rs\<close> and its implementation by the broker, with the
  read-only accessors of the push path.  The trait is a locale over the specification of
  \<open>Push_Refinement\<close>; what a client of the trait can rely on is proved there once and holds
  for the broker by interpretation.
\<close>

section \<open>The broker as a storage\<close>

definition storage_assign_partition :: "u16 \<Rightarrow> u16 \<Rightarrow> broker \<Rightarrow> u16 io_result \<times> broker" where
  "storage_assign_partition t g b =
     sbind (topic_mut t b) (\<lambda>_ b1.
     sbind (with_topic t (find_or_create_group g) b1) (\<lambda>_ b2.
     with_topic t (assign_in_group t g) b2))"

definition storage_produce :: "env \<Rightarrow> u16 \<Rightarrow> bytes \<Rightarrow> broker \<Rightarrow> (u8 \<times> u64) io_result \<times> broker" where
  "storage_produce e t payload b = produce_pcm e t payload b"

definition topic_ids_with_groups :: "broker \<Rightarrow> (u16 \<times> u16 list) list" where
  "topic_ids_with_groups b = map (\<lambda>(t, tp). (t, map cg_group_id (tp_cgroups tp))) (b_topics b)"

definition has_topic :: "broker \<Rightarrow> u16 \<Rightarrow> bool" where
  "has_topic b t \<longleftrightarrow> hm_contains (b_topics b) t"

definition topic_group_count :: "broker \<Rightarrow> u16 \<Rightarrow> nat option" where
  "topic_group_count b t = map_option (\<lambda>tp. length (tp_cgroups tp)) (hm_get (b_topics b) t)"

definition topic_group_partition_count :: "broker \<Rightarrow> u16 \<Rightarrow> u16 \<Rightarrow> nat option" where
  "topic_group_partition_count b t g =
     map_option (\<lambda>c. length (cg_partitions c)) (Option.bind (hm_get (b_topics b) t) (\<lambda>tp. topic_group tp g))"

definition topic_staging_len :: "broker \<Rightarrow> u16 \<Rightarrow> u64 option" where
  "topic_staging_len b t = map_option (\<lambda>tp. mq_live_len (tp_staging tp)) (hm_get (b_topics b) t)"

text \<open>The accessors read the view.\<close>

lemma accessors_view:
  assumes "push_holds b t v"
  shows "has_topic b t" and "topic_group_count b t = Some (length (snd v))"
    and "map_option unat (topic_staging_len b t) = Some (length (fst v))"
    and "topic_group_partition_count b t g = map_option length (map_of (snd v) g)"
proof -
  obtain tp where tp: "hm_get (b_topics b) t = Some tp" "topic_inv t (b_dir b) tp" "topic_view (b_dir b) tp = v"
    using assms by (auto simp: push_holds_def)
  show "has_topic b t" "topic_group_count b t = Some (length (snd v))"
    using tp by (auto simp: has_topic_def hm_contains_def topic_group_count_def topic_view_def)
  have "unat (mq_live_len (tp_staging tp)) = length (fst v)"
    using tp mq_live_len_count [of "tp_staging tp" "b_dir b"] mq_count_length
    by (auto simp: topic_inv_def topic_view_def)
  then show "map_option unat (topic_staging_len b t) = Some (length (fst v))"
    using tp(1) by (simp add: topic_staging_len_def)
  have "map_option (\<lambda>c. length (cg_partitions c)) (List.find (\<lambda>c. cg_group_id c = g) cs)
      = map_option length (map_of (map (group_view d) cs) g)" for cs d
    by (induction cs) (auto simp: group_view_def)
  then show "topic_group_partition_count b t g = map_option length (map_of (snd v) g)"
    using tp by (auto simp: topic_group_partition_count_def topic_group_def topic_view_def)
qed

lemma assign_is_register:
  "storage_assign_partition t g b = register_consumer \<lparr>creg_port = port, creg_topic_id = t, creg_group_id = g\<rparr> b"
  by (simp add: storage_assign_partition_def register_consumer_def)

section \<open>The trait\<close>

text \<open>Taking up to \<open>n\<close> messages with the same call; an error or an empty partition gives none.\<close>

fun take_messages :: "('s \<Rightarrow> bytes option io_result \<times> 's) \<Rightarrow> nat \<Rightarrow> 's \<Rightarrow> bytes list \<times> 's" where
  "take_messages f 0 s = ([], s)"
| "take_messages f (Suc n) s =
     (case f s of
        (Inr (Some x), s1) \<Rightarrow> (case take_messages f n s1 of (xs, s2) \<Rightarrow> (x # xs, s2))
      | (_, s1) \<Rightarrow> take_messages f n s1)"

definition one_queue :: "(u16 \<times> bytes list) list \<Rightarrow> push_view" where
  "one_queue gs = ([], map (\<lambda>(g, q). (g, [q])) gs)"

lemma give_one [simp]: "give xs [q] = [q @ xs]"
  by (simp add: give_def shortest_def)

lemma spec_produce_one: "gs \<noteq> [] \<Longrightarrow> spec_produce x (one_queue gs) = one_queue (map (\<lambda>(g, q). (g, q @ [x])) gs)"
  by (cases gs) (auto simp: one_queue_def case_prod_unfold)

lemma map_of_one: "map_of (map (\<lambda>(g, q). (g, [q])) gs) h = map_option (\<lambda>q. [q]) (map_of gs h)"
  by (induction gs) auto

lemma spec_update_one:
  "map_of gs h = Some q \<Longrightarrow> spec_update h (\<lambda>ps. [r]) (map (\<lambda>(g, q). (g, [q])) gs) = map (\<lambda>(g, q). (g, [q])) (AList.update h r gs)"
  by (induction gs) auto

lemma spec_pop_one:
  "map_of gs h = Some (x # q) \<Longrightarrow> spec_pop h 0 (one_queue gs) = (Some x, one_queue (AList.update h q gs))"
proof -
  assume h: "map_of gs h = Some (x # q)"
  have "spec_update h (\<lambda>ps. ps[0 := tl (ps ! 0)]) (map (\<lambda>(g, q). (g, [q])) gs)
      = spec_update h (\<lambda>ps. [q]) (map (\<lambda>(g, q). (g, [q])) gs)"
    using h by (induction gs) auto
  then show ?thesis using h spec_update_one [OF h, of q] by (simp add: spec_pop_def one_queue_def map_of_one)
qed

locale push_storage =
  fixes holds :: "'s \<Rightarrow> push_view \<Rightarrow> bool"
    and prod :: "bytes \<Rightarrow> 's \<Rightarrow> (u8 \<times> u64) io_result \<times> 's"
    and cons :: "u16 \<Rightarrow> u16 \<Rightarrow> 's \<Rightarrow> bytes option io_result \<times> 's"
    and fits :: "bytes \<Rightarrow> bool"
  assumes produces: "holds s v \<Longrightarrow> push_room v \<Longrightarrow> fits x \<Longrightarrow>
      \<exists>off s'. prod x s = (Inr (0, off), s') \<and> holds s' (spec_produce x v)"
    and consumes: "holds s v \<Longrightarrow> g \<in> fst ` set (snd v) \<Longrightarrow>
      \<exists>s'. cons g i s = (Inr (fst (spec_pop g (unat i) v)), s') \<and> holds s' (snd (spec_pop g (unat i) v))"
begin

lemma produce_list:
  assumes "holds s (one_queue gs)" "gs \<noteq> []" "\<forall>x\<in>set xs. fits x"
    and "\<forall>(g, q)\<in>set gs. length q + length xs < QUEUE_CAPACITY"
  shows "holds (fold (\<lambda>x s. snd (prod x s)) xs s) (one_queue (map (\<lambda>(g, q). (g, q @ xs)) gs))"
  using assms
proof (induction xs arbitrary: s gs)
  case Nil
  then show ?case by (simp add: case_prod_unfold)
next
  case (Cons x xs)
  let ?gs = "map (\<lambda>(g, q). (g, q @ [x])) gs"
  have cap: "1 < QUEUE_CAPACITY" by (simp add: QUEUE_CAPACITY_def)
  have room: "push_room (one_queue gs)"
    using Cons.prems(4) cap by (fastforce simp: push_room_def one_queue_def)
  obtain s' where s': "snd (prod x s) = s'" "holds s' (one_queue ?gs)"
    using produces [OF Cons.prems(1) room, of x] Cons.prems(2,3) by (auto simp: spec_produce_one)
  have "\<forall>(g, q)\<in>set ?gs. length q + length xs < QUEUE_CAPACITY" using Cons.prems(4) by auto
  from Cons.IH [OF s'(2) _ _ this] Cons.prems(2,3) s'(1) show ?case by (simp add: comp_def case_prod_unfold)
qed

lemma consume_list:
  assumes "holds s (one_queue gs)" "map_of gs g = Some (xs @ ys)"
  shows "\<exists>s'. take_messages (cons g 0) (length xs) s = (xs, s') \<and> holds s' (one_queue (AList.update g ys gs))"
  using assms
proof (induction xs arbitrary: s gs)
  case Nil
  then have "AList.update g ys gs = gs" by (simp add: update_triv)
  with Nil show ?case by simp
next
  case (Cons x xs)
  have g: "g \<in> fst ` set (snd (one_queue gs))"
    using Cons.prems(2) map_of_SomeD [of gs g] by (force simp: one_queue_def)
  obtain s1 where s1: "cons g 0 s = (Inr (Some x), s1)" "holds s1 (one_queue (AList.update g (xs @ ys) gs))"
    using consumes [OF Cons.prems(1) g, of 0] spec_pop_one [of gs g x "xs @ ys"] Cons.prems(2) by auto
  from Cons.IH [OF s1(2)] s1(1) show ?case by (auto simp: update_last update_conv')
qed

text \<open>Every group gets every message, in order, also while other groups take theirs.\<close>

lemma broadcast:
  assumes "holds s (one_queue gs)" "gs \<noteq> []" "\<forall>x\<in>set xs. fits x"
    and "\<forall>(g, q)\<in>set gs. length q + length xs < QUEUE_CAPACITY" and "map_of gs g = Some q"
  shows "\<exists>s'. take_messages (cons g 0) (length (q @ xs)) (fold (\<lambda>x s. snd (prod x s)) xs s) = (q @ xs, s')
    \<and> holds s' (one_queue (AList.update g [] (map (\<lambda>(g, q). (g, q @ xs)) gs)))"
proof -
  have "map_of (map (\<lambda>(g, q). (g, q @ xs)) gs) g = Some ((q @ xs) @ [])"
    using assms(5) by (simp add: map_of_map [of "\<lambda>q. q @ xs"])
  from consume_list [OF produce_list [OF assms(1-4)] this] show ?thesis by simp
qed

end

section \<open>The broker implements the trait\<close>

definition storage_holds :: "env \<Rightarrow> u16 \<Rightarrow> broker \<Rightarrow> push_view \<Rightarrow> bool" where
  "storage_holds e t b v \<longleftrightarrow> push_holds b t v \<and> (\<exists>h. history b t 0 h) \<and> legacy_push_enabled e b"

lemma consume_one_existing:
  assumes "push_holds b t v" and "g \<in> fst ` set (snd v)"
  shows "consume_one t g i b = deliver_poll t g i (b\<lparr>b_topics := hm_insert t (the (hm_get (b_topics b) t)) (b_topics b)\<rparr>)"
proof -
  obtain tp where tp: "hm_get (b_topics b) t = Some tp" "topic_view (b_dir b) tp = v" using assms(1) by (auto simp: push_holds_def)
  then have "group_index tp g \<noteq> None" using group_index_view [of "b_dir b" tp "fst v" "snd v" g] assms(2) by simp
  then have "find_or_create_group g (tp, b_dir b) = (Inr False, tp, b_dir b)"
    by (simp add: find_or_create_group_def group_index_def split: if_splits)
  with tp(1) show ?thesis
    by (simp add: consume_one_def deliver_poll_def hm_contains_def with_topic_def sbind_def)
qed

lemma legacy_push_cong: "b_cluster_state b' = b_cluster_state b \<Longrightarrow> legacy_push_enabled e b' = legacy_push_enabled e b"
  by (cases "e ''DMQ_LEGACY_PUSH''") (simp_all add: legacy_push_enabled_def)

lemma deliver_poll_state: "b_cluster_state (snd (deliver_poll t g i b)) = b_cluster_state b"
  by (simp add: deliver_poll_def with_topic_def split: option.split prod.split)

interpretation broker_storage: push_storage "storage_holds e t" "storage_produce e t" "consume_one t"
  "\<lambda>x. length x \<le> MAX_MSG_SIZE \<and> length x \<le> max_payload_bytes e" for e t
proof unfold_locales
  fix s v and x :: bytes
  assume s: "storage_holds e t s v" and room: "push_room v"
    and x: "length x \<le> MAX_MSG_SIZE \<and> length x \<le> max_payload_bytes e"
  obtain h where h: "history s t 0 h" using s by (auto simp: storage_holds_def)
  obtain off s' where s': "produce_pcm e t x s = (Inr (0, off), s')" "push_holds s' t (spec_produce x v)" "history s' t 0 (h @ [x])"
      "b_cluster_state s' = b_cluster_state s"
    using push_produce_ok [OF _ room h, of x e] s x by (auto simp: storage_holds_def)
  moreover have "legacy_push_enabled e s'"
    using s s'(4) by (simp add: storage_holds_def legacy_push_cong [of s' s])
  ultimately show "\<exists>off s'. storage_produce e t x s = (Inr (0, off), s') \<and> storage_holds e t s' (spec_produce x v)"
    by (auto simp: storage_produce_def storage_holds_def)
next
  fix s v g i
  assume s: "storage_holds e t s v" and g: "g \<in> fst ` set (snd v)"
  let ?s = "s\<lparr>b_topics := hm_insert t (the (hm_get (b_topics s) t)) (b_topics s)\<rparr>"
  have holds: "push_holds ?s t v" using s by (auto simp: storage_holds_def push_holds_def)
  have hist: "history ?s t p h = history s t p h" for p h by (simp add: history_def)
  obtain s' where s': "deliver_poll t g i ?s = (Inr (fst (spec_pop g (unat i) v)), s')"
      "push_holds s' t (snd (spec_pop g (unat i) v))" "\<forall>p h. history s' t p h = history ?s t p h"
    using push_poll_ok [OF holds, of g i] by blast
  moreover have "b_cluster_state s' = b_cluster_state s" using deliver_poll_state [of t g i ?s] s'(1) by simp
  then have "legacy_push_enabled e s'" using s by (simp add: storage_holds_def legacy_push_cong [of s' s])
  ultimately show "\<exists>s'. consume_one t g i s = (Inr (fst (spec_pop g (unat i) v)), s')
      \<and> storage_holds e t s' (snd (spec_pop g (unat i) v))"
    using consume_one_existing [of s t v g i] s g hist by (auto simp: storage_holds_def)
qed



end
