(* ===== verification/Admin.thy ===== *)
theory Admin
  imports Client
begin

text \<open>
  The administration tool, \<open>dmq-cli/src/admin.rs\<close>: its commands, each one request and one
  response on a connection of its own, and the tables it reads out of the responses of the
  broker.  A run is how it ends and the lines it prints to standard output; what goes to
  standard error is left out.
\<close>

section \<open>Tables in a response\<close>

text \<open>
  The loops that read a table: at most \<open>n\<close> rows, and the loop breaks at a row for which the
  buffer is too short.
\<close>

fun table_rows :: "(bytes \<Rightarrow> nat \<Rightarrow> ('r \<times> nat) option) \<Rightarrow> nat \<Rightarrow> bytes \<Rightarrow> nat \<Rightarrow> 'r list" where
  "table_rows row_at 0 bs i = []"
| "table_rows row_at (Suc n) bs i =
     (case row_at bs i of
        None \<Rightarrow> []
      | Some (r, j) \<Rightarrow> r # table_rows row_at n bs j)"

definition id_row :: "bytes \<Rightarrow> nat \<Rightarrow> (u16 \<times> nat) option" where
  "id_row bs i = (if i + 2 > length bs then None else Some (be_at i 2 bs, i + 2))"

record partition_row =
  row_partition :: u16
  row_base :: u64
  row_next :: u64
  row_count :: u32
  row_leader :: u16
  row_replicas :: "u16 list"

definition describe_row :: "bytes \<Rightarrow> nat \<Rightarrow> (partition_row \<times> nat) option" where
  "describe_row bs i =
     (if i + 26 > length bs then None
      else let replica_count = unat (be_at (i + 24) 2 bs :: u16)
           in Some (\<lparr>row_partition = be_at i 2 bs, row_base = be_at (i + 2) 8 bs, row_next = be_at (i + 10) 8 bs,
                row_count = be_at (i + 18) 4 bs, row_leader = be_at (i + 22) 2 bs,
                row_replicas = table_rows id_row replica_count bs (i + 26)\<rparr>,
              i + 26 + replica_count * 2))"

record lag_row =
  lag_partition :: u16
  lag_committed :: u64
  lag_end :: u64
  lag_behind :: u64

definition lag_row_at :: "bytes \<Rightarrow> nat \<Rightarrow> (lag_row \<times> nat) option" where
  "lag_row_at bs i =
     (if i + 26 > length bs then None
      else Some (\<lparr>lag_partition = be_at i 2 bs, lag_committed = be_at (i + 2) 8 bs, lag_end = be_at (i + 10) 8 bs,
             lag_behind = be_at (i + 18) 8 bs\<rparr>, i + 26))"

section \<open>Commands\<close>

text \<open>A command returns, exits with status 1, or panics because the connection failed.\<close>

datatype admin_end = AdminDone | AdminExit | AdminPanic

type_synonym admin_run = "admin_end \<times> string list"

text \<open>A tool that cannot connect has no peer.\<close>

definition admin_roundtrip :: "peer option \<Rightarrow> message \<Rightarrow> admin_end + message" where
  "admin_roundtrip pr m =
     (case pr of
        None \<Rightarrow> Inl AdminExit
      | Some srv \<Rightarrow>
          (case conn_write srv m conn_new of
             (Inl _, _) \<Rightarrow> Inl AdminPanic
           | (Inr _, c) \<Rightarrow>
               (case fst (conn_read srv c) of Inl _ \<Rightarrow> Inl AdminPanic | Inr resp \<Rightarrow> Inr resp)))"

fun join_comma :: "string list \<Rightarrow> string" where
  "join_comma [] = ''''"
| "join_comma [s] = s"
| "join_comma (s # ss) = s @ '', '' @ join_comma ss"

definition show_ids :: "u16 list \<Rightarrow> string" where
  "show_ids ids = ''['' @ join_comma (map show_word ids) @ '']''"

definition show_describe_row :: "partition_row \<Rightarrow> string" where
  "show_describe_row r =
     ''  partition '' @ show_word (row_partition r) @ '': base='' @ show_word (row_base r) @ '' next=''
     @ show_word (row_next r) @ '' records='' @ show_word (row_count r) @ '' leader='' @ show_word (row_leader r)
     @ '' replicas='' @ show_ids (row_replicas r)"

definition show_lag_row :: "lag_row \<Rightarrow> string" where
  "show_lag_row r =
     ''  partition '' @ show_word (lag_partition r) @ '': committed='' @ show_word (lag_committed r)
     @ '' end='' @ show_word (lag_end r) @ '' lag='' @ show_word (lag_behind r)"

definition admin_create_topic :: "peer option \<Rightarrow> u16 \<Rightarrow> u16 \<Rightarrow> u32 \<Rightarrow> admin_run" where
  "admin_create_topic pr t partition_count max_recs =
     (case admin_roundtrip pr (CreateTopic \<lparr>create_topic_id = t, create_partition_count = partition_count,
             create_max_records = max_recs\<rparr>) of
        Inl how \<Rightarrow> (how, [])
      | Inr (RCreateTopic code) \<Rightarrow>
          if code = 0 then
            (AdminDone, [''created topic '' @ show_word t @ '' (partitions='' @ show_word partition_count
               @ '', max_records='' @ show_word max_recs @ '')''])
          else (AdminExit, [])
      | Inr _ \<Rightarrow> (AdminExit, []))"

definition admin_describe_topic :: "peer option \<Rightarrow> u16 \<Rightarrow> admin_run" where
  "admin_describe_topic pr t =
     (case admin_roundtrip pr (DescribeTopic \<lparr>describe_topic_id = t\<rparr>) of
        Inl how \<Rightarrow> (how, [])
      | Inr (RDescribeTopic bs) \<Rightarrow>
          if length bs < 2 then (AdminExit, [])
          else let partition_count = be_at 0 2 bs :: u16
               in (AdminDone, (''topic '' @ show_word t @ '': '' @ show_word partition_count @ '' partition(s)'')
                    # map show_describe_row (table_rows describe_row (unat partition_count) bs 2))
      | Inr _ \<Rightarrow> (AdminExit, []))"

definition admin_list_topics :: "peer option \<Rightarrow> admin_run" where
  "admin_list_topics pr =
     (case admin_roundtrip pr ListTopics of
        Inl how \<Rightarrow> (how, [])
      | Inr (RListTopics bs) \<Rightarrow>
          if length bs < 2 then (AdminDone, [''no topics''])
          else let count = be_at 0 2 bs :: u16
               in (AdminDone, (show_word count @ '' topic(s):'')
                    # map (\<lambda>i. ''  '' @ show_word i) (table_rows id_row (unat count) bs 2))
      | Inr _ \<Rightarrow> (AdminExit, []))"

definition admin_get_lag :: "peer option \<Rightarrow> u16 \<Rightarrow> u16 \<Rightarrow> admin_run" where
  "admin_get_lag pr g t =
     (case admin_roundtrip pr (GetLag \<lparr>lag_group_id = g, lag_topic_id = t\<rparr>) of
        Inl how \<Rightarrow> (how, [])
      | Inr (RGetLag bs) \<Rightarrow>
          if length bs < 2 then (AdminExit, [])
          else (AdminDone, (''lag for group '' @ show_word g @ '' topic '' @ show_word t @ '':'')
                  # map show_lag_row (table_rows lag_row_at (unat (be_at 0 2 bs :: u16)) bs 2))
      | Inr _ \<Rightarrow> (AdminExit, []))"

definition show_cluster :: "peer option \<Rightarrow> admin_run" where
  "show_cluster pr =
     (case admin_roundtrip pr GetCluster of
        Inl how \<Rightarrow> (how, [])
      | Inr (RGetCluster bs) \<Rightarrow>
          (case cluster_config_decode bs of
             Inl (Io _ _) \<Rightarrow> (AdminExit, [])
           | Inl (Panic _) \<Rightarrow> (AdminPanic, [])
           | Inr cfg \<Rightarrow>
               (AdminDone, (''min_insync_replicas='' @ show_word (cc_min_insync_replicas cfg)) # ''brokers:''
                 # map (\<lambda>b. ''  id='' @ show_word (node_id b) @ '' addr='' @ node_host b @ '':'' @ show_word (node_port b))
                     (cc_brokers cfg)
                 @ ''assignments:''
                 # map (\<lambda>a. ''  topic='' @ show_word (pa_topic_id a) @ '' partition='' @ show_word (pa_partition_id a)
                       @ '' leader='' @ show_word (pa_leader a) @ '' replicas='' @ show_ids (pa_replicas a))
                     (cc_assignments cfg)))
      | Inr _ \<Rightarrow> (AdminExit, []))"

definition admin_parse_u16 :: "string list \<Rightarrow> nat \<Rightarrow> u16 option" where
  "admin_parse_u16 args idx = (if idx < length args then parse_word (args ! idx) else None)"

text \<open>An optional argument, with a default when it is missing or does not parse.\<close>

definition arg_or :: "string list \<Rightarrow> nat \<Rightarrow> 'a::len word \<Rightarrow> 'a word" where
  "arg_or args idx dflt =
     (if idx < length args then (case parse_word (args ! idx) of Some v \<Rightarrow> v | None \<Rightarrow> dflt) else dflt)"

definition admin_main :: "peer option \<Rightarrow> string list \<Rightarrow> admin_run" where
  "admin_main pr args =
     (if length args < 3 then (AdminExit, [])
      else if args ! 2 = ''create'' then
        (case admin_parse_u16 args 3 of
           None \<Rightarrow> (AdminExit, [])
         | Some t \<Rightarrow> admin_create_topic pr t (arg_or args 4 1) (arg_or args 5 10000))
      else if args ! 2 = ''describe'' then
        (case admin_parse_u16 args 3 of None \<Rightarrow> (AdminExit, []) | Some t \<Rightarrow> admin_describe_topic pr t)
      else if args ! 2 = ''list'' then admin_list_topics pr
      else if args ! 2 = ''lag'' then
        (case admin_parse_u16 args 3 of
           None \<Rightarrow> (AdminExit, [])
         | Some g \<Rightarrow> (case admin_parse_u16 args 4 of None \<Rightarrow> (AdminExit, []) | Some t \<Rightarrow> admin_get_lag pr g t))
      else if args ! 2 = ''cluster'' then show_cluster pr
      else (AdminExit, []))"

section \<open>The command line\<close>

text \<open>What the first argument of \<open>custom-dmq\<close> selects (\<open>runner.rs\<close>), with the arguments it parses.\<close>

datatype command =
    RunServer
  | RunProducer u16 u16 bool
  | RunProduce u16 bool bool bool
  | RunConsumer u16 u16 u16
  | RunFetch u16 u16 bool
  | RunAdmin "string list"
  | UsageExit

definition parse_command :: "string list \<Rightarrow> command" where
  "parse_command args =
     (if length args < 2 then UsageExit
      else if args ! 1 = ''server'' then RunServer
      else if args ! 1 = ''producer'' then
        (case (admin_parse_u16 args 2, admin_parse_u16 args 3) of
           (Some port, Some t) \<Rightarrow> RunProducer port t (4 < length args \<and> args ! 4 = ''--simulate'')
         | _ \<Rightarrow> UsageExit)
      else if args ! 1 = ''produce'' then
        (case admin_parse_u16 args 2 of
           Some t \<Rightarrow> RunProduce t (''--simulate'' \<in> set args) (''--idempotent'' \<in> set args) (''--once'' \<in> set args)
         | None \<Rightarrow> UsageExit)
      else if args ! 1 = ''consumer'' then
        (case (admin_parse_u16 args 2, admin_parse_u16 args 3, admin_parse_u16 args 4) of
           (Some port, Some t, Some g) \<Rightarrow> RunConsumer port t g
         | _ \<Rightarrow> UsageExit)
      else if args ! 1 = ''fetch'' then
        (case (admin_parse_u16 args 2, admin_parse_u16 args 3) of
           (Some t, Some g) \<Rightarrow> RunFetch t g (''--once'' \<in> set args)
         | _ \<Rightarrow> UsageExit)
      else if args ! 1 = ''admin'' then RunAdmin args
      else UsageExit)"

text \<open>The flags of \<open>produce\<close> may stand anywhere after the topic, in any order.\<close>

lemma parse_produce_flags:
  "parse_command (''custom-dmq'' # ''produce'' # show_word (t :: u16) # flags)
    = RunProduce t (''--simulate'' \<in> set flags) (''--idempotent'' \<in> set flags) (''--once'' \<in> set flags)"
proof -
  have "digit_char d \<noteq> CHR ''-''" if "d < 10" for d
  proof -
    have "(of_char (digit_char d) :: nat) = 48 + d" using that by (simp add: digit_char_def)
    then show ?thesis by auto
  qed
  then have "CHR ''-'' \<notin> set (show_word t)" using show_nat_digits [of "CHR ''-''" "unat t"] by metis
  then have "s \<noteq> show_word t" if "CHR ''-'' \<in> set s" for s using that by auto
  from this [of "''--simulate''"] this [of "''--idempotent''"] this [of "''--once''"]
  show ?thesis by (auto simp: parse_command_def admin_parse_u16_def parse_word_show)
qed

section \<open>Reading a table back\<close>

text \<open>
  What a table promises: the reader of a row reads back the encoding of a row in the middle
  of a buffer, and no row has fewer than \<open>width\<close> bytes.
\<close>

locale row_table =
  fixes enc :: "'r \<Rightarrow> bytes"
    and row_at :: "bytes \<Rightarrow> nat \<Rightarrow> ('r \<times> nat) option"
    and ok :: "'r \<Rightarrow> bool"
    and width :: nat
  assumes row_enc: "ok r \<Longrightarrow> row_at (pre @ enc r @ post) (length pre) = Some (r, length pre + length (enc r))"
    and row_width: "row_at bs i = Some (r, j) \<Longrightarrow> i + width \<le> length bs \<and> i + width \<le> j"
    and width_pos: "0 < width"
begin

lemma rows_back:
  "\<forall>r\<in>set rs. ok r \<Longrightarrow> table_rows row_at (length rs) (pre @ concat (map enc rs) @ post) (length pre) = rs"
proof (induction rs arbitrary: pre)
  case Nil
  show ?case by simp
next
  case (Cons r rs)
  then show ?case
    using row_enc [of r pre "concat (map enc rs) @ post"] Cons.IH [of "pre @ enc r"] by simp
qed

lemma rows_fit: "i \<le> length bs \<Longrightarrow> i + width * length (table_rows row_at n bs i) \<le> length bs"
proof (induction n arbitrary: i)
  case 0
  then show ?case by simp
next
  case (Suc n)
  show ?case
  proof (cases "row_at bs i")
    case None
    with Suc.prems show ?thesis by simp
  next
    case (Some rj)
    then obtain r j where r: "row_at bs i = Some (r, j)" by (cases rj) simp
    show ?thesis
    proof (cases "j \<le> length bs")
      case True
      with Suc.IH [OF this] row_width [OF r] r show ?thesis by simp
    next
      case False
      then have "table_rows row_at n bs j = []"
        using row_width [of bs j] by (cases n) (auto split: option.split)
      with row_width [OF r] r show ?thesis by simp
    qed
  qed
qed

end

interpretation id_table: row_table "to_be_bytes :: u16 \<Rightarrow> bytes" id_row "\<lambda>_. True" 2
  by unfold_locales (auto simp: id_row_def codec_simps split: if_splits)

definition encode_describe_row :: "partition_row \<Rightarrow> bytes" where
  "encode_describe_row r =
     to_be_bytes (row_partition r) @ to_be_bytes (row_base r) @ to_be_bytes (row_next r) @ to_be_bytes (row_count r)
     @ to_be_bytes (row_leader r) @ to_be_bytes (of_nat (length (row_replicas r)) :: u16)
     @ concat (map to_be_bytes (row_replicas r))"

definition encode_lag_row :: "lag_row \<Rightarrow> bytes" where
  "encode_lag_row r =
     to_be_bytes (lag_partition r) @ to_be_bytes (lag_committed r) @ to_be_bytes (lag_end r) @ to_be_bytes (lag_behind r)"

interpretation describe_table: row_table encode_describe_row describe_row "\<lambda>r. length (row_replicas r) < 2 ^ 16" 26
proof
  show "describe_row (pre @ encode_describe_row r @ post) (length pre) = Some (r, length pre + length (encode_describe_row r))"
    if "length (row_replicas r) < 2 ^ 16" for r pre post
  proof -
    have c: "unat (of_nat (length (row_replicas r)) :: u16) = length (row_replicas r)"
      using that by (simp add: unat_of_nat_u16)
    have "table_rows id_row (length (row_replicas r)) (pre @ encode_describe_row r @ post) (length pre + 26) = row_replicas r"
      using id_table.rows_back [of "row_replicas r" "pre @ take 26 (encode_describe_row r)" post]
      by (simp add: encode_describe_row_def)
    with c show ?thesis
      by (simp add: describe_row_def encode_describe_row_def codec_simps u16c.enc_concat_length)
  qed
qed (auto simp: describe_row_def Let_def split: if_splits)

interpretation lag_table: row_table encode_lag_row lag_row_at "\<lambda>_. True" 26
  by unfold_locales (auto simp: lag_row_at_def encode_lag_row_def codec_simps split: if_splits)

section \<open>The tool and a broker\<close>

lemma admin_asks_broker:
  assumes req: "message_ok m" "encode_message m = Inr fr" "length fr \<le> 254" "\<forall>h. m \<noteq> Handshake h"
    and d: "dispatch_message e lz net (cxs 0) m session_default (b, n) = (Some r, session_default, [], b1, n1)"
    and resp: "message_ok r" "encode_message r = Inr fr'" "length fr' \<le> 255" and cx: "cx_write_ok (cxs 0)"
  shows "admin_roundtrip (Some (broker_peer e lz net cxs (\<lambda>_. True) (b, n))) m = Inr r"
  by (rule broker_session_first [where cxs = cxs and accepts = "\<lambda>_. True", OF req d resp cx])
    (simp_all add: admin_roundtrip_def)

text \<open>What the description and the lag of a partition say of its history.\<close>

definition partition_row_of :: "broker \<Rightarrow> u16 \<Rightarrow> bytes list \<Rightarrow> u16 \<Rightarrow> partition_row" where
  "partition_row_of b t h p =
     \<lparr>row_partition = p, row_base = of_nat (start_of (retention b t p) (length h)), row_next = of_nat (length h),
      row_count = of_nat (kept (retention b t p) (length h)), row_leader = partition_leader b t p,
      row_replicas = partition_replicas b t p\<rparr>"

definition lag_row_of :: "broker \<Rightarrow> u16 \<Rightarrow> u16 \<Rightarrow> bytes list \<Rightarrow> u16 \<Rightarrow> lag_row" where
  "lag_row_of b g t h p =
     (let committed = (case committed_offset b g t p of Some v \<Rightarrow> v | None \<Rightarrow> 0)
      in \<lparr>lag_partition = p, lag_committed = committed, lag_end = of_nat (length h),
          lag_behind = of_nat (length h - unat committed)\<rparr>)"

lemma history_log:
  assumes "history b t p h"
  shows "(case hm_get (b_logs b) (t, p) of
      Some l \<Rightarrow> l | None \<Rightarrow> with_max_records (unat (tc_max_records (broker_topic_config b t)))) = log_of (retention b t p) h"
    and "(case hm_get (b_logs b) (t, p) of Some l \<Rightarrow> next_offset l | None \<Rightarrow> 0) = of_nat (length h)"
  using assms by (auto simp: history_def retention_def log_of_Nil split: option.splits)

lemma describe_partition_row:
  "history b t p h \<Longrightarrow> describe_partition b t (broker_topic_config b t) p = encode_describe_row (partition_row_of b t h p)"
  by (simp add: describe_partition_def history_log(1) encode_describe_row_def partition_row_of_def log_len_def Let_def)

lemma sat_sub_of_nat:
  assumes "n < 2 ^ 64"
  shows "sat_sub (of_nat n) c = (of_nat (n - unat c) :: u64)"
proof -
  have "unat (sat_sub (of_nat n) c) = unat (of_nat (n - unat c) :: u64)"
    using assms by (simp add: unat_sat_sub unat_of_nat_u64)
  then show ?thesis by (simp only: word_unat_eq_iff)
qed

lemma lag_entry_row:
  "history b t p h \<Longrightarrow> length h < 2 ^ 64 \<Longrightarrow> lag_entry b g t p = encode_lag_row (lag_row_of b g t h p)"
  by (simp add: lag_entry_def history_log(2) encode_lag_row_def lag_row_of_def Let_def sat_sub_of_nat)

lemma table_of_topic:
  assumes "\<forall>p<unat pc. part (of_nat p) = enc (row p)"
  shows "concat (map (\<lambda>p. part (of_nat p :: u16)) [0..<unat (pc :: u16)]) = concat (map enc (map row [0..<unat pc]))"
  using assms by (intro arg_cong [of _ _ concat]) auto

text \<open>
  C37: the description of a topic.  For an existing topic whose description fits a version 1
  response, the tool prints one row per partition, and the row of a partition tells of its
  history: the next offset is the number of records it received, the base the number of
  those no longer kept, the count the number kept, with the leader and the replicas that
  the broker routes by.
\<close>

theorem admin_describes_topic:
  assumes topic: "hm_contains (b_topics b) t" and pc: "pc = tc_partition_count (broker_topic_config b t)"
    and h: "\<forall>p<unat pc. history b t (of_nat p) (hs p)"
    and fits: "length (describe_topic b t) \<le> 254"
    and cx: "cx_gap (cxs 0) = (\<lambda>_ b. b)" "cx_write_ok (cxs 0)"
  shows "admin_describe_topic (Some (broker_peer e lz net cxs (\<lambda>_. True) (b, n))) t
    = (AdminDone, (''topic '' @ show_word t @ '': '' @ show_word pc @ '' partition(s)'')
        # map (\<lambda>p. show_describe_row (partition_row_of b t (hs p) (of_nat p))) [0..<unat pc])"
proof -
  let ?rows = "map (\<lambda>p. partition_row_of b t (hs p) (of_nat p)) [0..<unat pc]"
  have bs: "describe_topic b t = to_be_bytes pc @ concat (map encode_describe_row ?rows)"
    using table_of_topic [of pc "describe_partition b t (broker_topic_config b t)" encode_describe_row
        "\<lambda>p. partition_row_of b t (hs p) (of_nat p)"] describe_partition_row h topic pc
    by (simp add: describe_topic_def Let_def)
  have "length (encode_describe_row r) \<le> 254" if "r \<in> set ?rows" for r
  proof -
    have "length (encode_describe_row r) \<le> sum_list (map (length \<circ> encode_describe_row) ?rows)"
      using that by (intro member_le_sum_list) auto
    then show ?thesis using fits bs by (simp add: length_concat comp_assoc)
  qed
  then have "\<forall>r\<in>set ?rows. length (row_replicas r) < 2 ^ 16"
    by (fastforce simp: encode_describe_row_def u16c.enc_concat_length)
  from describe_table.rows_back [OF this, of "to_be_bytes pc" "[]"] bs
  have rows: "table_rows describe_row (unat pc) (describe_topic b t) 2 = ?rows" by simp
  have "admin_roundtrip (Some (broker_peer e lz net cxs (\<lambda>_. True) (b, n))) (DescribeTopic \<lparr>describe_topic_id = t\<rparr>)
      = Inr (RDescribeTopic (describe_topic b t))"
    using fits cx by (intro admin_asks_broker [where cxs = cxs and fr = "DESCRIBE_TOPIC # to_be_bytes t"
          and fr' = "R_DESCRIBE_TOPIC # describe_topic b t" and ?b1.0 = b and ?n1.0 = n])
      (simp_all add: encode_message_def describe_topic_encode_def dispatch_message_def)
  moreover have "be_at 0 2 (describe_topic b t) = pc" "2 \<le> length (describe_topic b t)"
    unfolding bs by (simp_all add: codec_simps)
  ultimately show ?thesis using rows by (simp add: admin_describe_topic_def comp_def)
qed

text \<open>
  The lag of a group.  The tool prints, for every partition, the offset that the broker
  has in memory for the group (0 when it has none), the number of records the partition
  received and their difference, or 0 when more was committed than received.
\<close>

theorem admin_shows_lag:
  assumes pc: "pc = tc_partition_count (broker_topic_config b t)" "pc \<le> 9"
    and h: "\<forall>p<unat pc. history b t (of_nat p) (hs p) \<and> length (hs p) < 2 ^ 64"
    and cx: "cx_gap (cxs 0) = (\<lambda>_ b. b)" "cx_write_ok (cxs 0)"
  shows "admin_get_lag (Some (broker_peer e lz net cxs (\<lambda>_. True) (b, n))) g t
    = (AdminDone, (''lag for group '' @ show_word g @ '' topic '' @ show_word t @ '':'')
        # map (\<lambda>p. show_lag_row (lag_row_of b g t (hs p) (of_nat p))) [0..<unat pc])"
proof -
  let ?rows = "map (\<lambda>p. lag_row_of b g t (hs p) (of_nat p)) [0..<unat pc]"
  have bs: "get_lag b g t = to_be_bytes pc @ concat (map encode_lag_row ?rows)"
    using table_of_topic [of pc "lag_entry b g t" encode_lag_row "\<lambda>p. lag_row_of b g t (hs p) (of_nat p)"]
      lag_entry_row h pc(1) by (simp add: get_lag_def Let_def)
  have rows: "table_rows lag_row_at (unat pc) (get_lag b g t) 2 = ?rows"
    using lag_table.rows_back [of ?rows "to_be_bytes pc" "[]"] bs by simp
  have "length (concat (map encode_lag_row ?rows)) = 26 * unat pc"
    by (simp add: length_concat comp_def encode_lag_row_def sum_list_triv)
  moreover have "unat pc \<le> 9" using pc(2) by (simp add: word_le_nat_alt)
  ultimately have len: "length (get_lag b g t) \<le> 254" using bs by simp
  have "admin_roundtrip (Some (broker_peer e lz net cxs (\<lambda>_. True) (b, n))) (GetLag \<lparr>lag_group_id = g, lag_topic_id = t\<rparr>)
      = Inr (RGetLag (get_lag b g t))"
    using len cx by (intro admin_asks_broker [where cxs = cxs and fr = "GET_LAG # to_be_bytes g @ to_be_bytes t"
          and fr' = "R_GET_LAG # get_lag b g t" and ?b1.0 = b and ?n1.0 = n])
      (simp_all add: encode_message_def get_lag_encode_def dispatch_message_def)
  moreover have "be_at 0 2 (get_lag b g t) = pc" "2 \<le> length (get_lag b g t)"
    unfolding bs by (simp_all add: codec_simps)
  ultimately show ?thesis using rows by (simp add: admin_get_lag_def comp_def)
qed

text \<open>A broker with an empty topic and a group that committed offset 3 in it, for the witnesses.\<close>

definition topic_broker :: broker where
  "topic_broker = sample_broker\<lparr>b_topics := [(1, \<lparr>tp_topic_id = 1, tp_staging = \<lparr>mq_topic = 1, mq_group = 0,
     mq_partition = 0, mq_head = 0, mq_tail = 0\<rparr>, tp_cgroups = []\<rparr>)], b_committed_offsets := [((5, 1, 0), 3)]\<rparr>"

lemma topic_broker_facts:
  "hm_contains (b_topics topic_broker) 1" "history topic_broker t p []"
  "tc_partition_count (broker_topic_config topic_broker 1) = 1" "partition_replicas topic_broker 1 0 = [1]"
  "partition_leader topic_broker 1 0 = 1" "retention topic_broker 1 0 = Some 10000"
  "committed_offset topic_broker 5 1 0 = Some 3"
  using sample_broker_history [of t p]
  by (simp_all add: topic_broker_def sample_broker_def hm_contains_def history_def broker_topic_config_def
      topic_config_default_for_def topic_config_new_def partition_replicas_def partition_leader_def retention_def
      committed_offset_def)

theorem admin_describes_topic_witness:
  "admin_describe_topic (Some (broker_peer empty_env sample_lz4 no_network (\<lambda>_. idle_context) (\<lambda>_. True)
      (topic_broker, ()))) 1
    = (AdminDone, [''topic '' @ show_nat 1 @ '': '' @ show_nat 1 @ '' partition(s)'',
        show_describe_row \<lparr>row_partition = 0, row_base = 0, row_next = 0, row_count = 0, row_leader = 1,
          row_replicas = [1]\<rparr>])"
proof -
  have "length (describe_topic topic_broker 1) \<le> 254"
    using describe_partition_row [OF topic_broker_facts(2), of 1 0] topic_broker_facts(1,3,4)
    by (simp add: describe_topic_def Let_def encode_describe_row_def partition_row_of_def)
  from admin_describes_topic [of topic_broker 1 1 "\<lambda>_. []" "\<lambda>_. idle_context" empty_env sample_lz4 no_network "()",
      OF topic_broker_facts(1) topic_broker_facts(3) [symmetric] _ this] topic_broker_facts
  show ?thesis by (simp add: idle_context_def partition_row_of_def start_of_simps kept_def)
qed

theorem admin_shows_lag_witness:
  "admin_get_lag (Some (broker_peer empty_env sample_lz4 no_network (\<lambda>_. idle_context) (\<lambda>_. True)
      (topic_broker, ()))) 5 1
    = (AdminDone, [''lag for group '' @ show_nat 5 @ '' topic '' @ show_nat 1 @ '':'',
        show_lag_row \<lparr>lag_partition = 0, lag_committed = 3, lag_end = 0, lag_behind = 0\<rparr>])"
  using admin_shows_lag [of 1 topic_broker 1 "\<lambda>_. []" "\<lambda>_. idle_context" empty_env sample_lz4 no_network "()" 5,
      OF topic_broker_facts(3) [symmetric]] topic_broker_facts
  by (simp add: idle_context_def lag_row_of_def)

section \<open>What the tool cannot show\<close>

lemma table_frame_payload:
  assumes "parse_frame body = Inr m" and "m = RDescribeTopic bs \<or> m = RListTopics bs \<or> m = RGetLag bs"
  shows "length bs < length body"
  using assms by (auto simp: parse_frame_def res_bind_Inr_iff split: list.splits if_splits)

lemma table_message_payload:
  assumes "read_message s = Inr (m, rest)" and "m = RDescribeTopic bs \<or> m = RListTopics bs \<or> m = RGetLag bs"
  shows "length bs \<le> 254"
proof -
  obtain l s1 body where "parse_frame body = Inr m" "take_exact (unat (l :: u8)) s1 = Inr (body, rest)"
    using assms(1) by (auto simp: read_message_def res_bind_Inr_iff split: prod.splits)
  moreover have "unat l < 256" using unsigned_less [of l] by simp
  ultimately show ?thesis
    using table_frame_payload [OF _ assms(2)] by (fastforce simp: take_exact_def split: if_splits)
qed

lemma admin_payload:
  assumes "admin_roundtrip pr req = Inr m" and "m = RDescribeTopic bs \<or> m = RListTopics bs \<or> m = RGetLag bs"
  shows "length bs \<le> 254"
  using assms table_message_payload
  by (fastforce simp: admin_roundtrip_def conn_read_def split: option.splits sum.splits prod.splits)

text \<open>
  The tables are short.  The tool reads version 1 responses, whose length is one byte.
  Whatever the server answers, a description and a lag table have at most 9 rows and a list
  of topics has at most 126; the head line of a description and of a list still gives the
  number of partitions or topics that the server has.
\<close>

theorem admin_tables_short:
  "length (snd (admin_describe_topic pr t)) \<le> 1 + 9 \<and> length (snd (admin_get_lag pr g t)) \<le> 1 + 9
    \<and> length (snd (admin_list_topics pr)) \<le> 1 + 126"
proof (intro conjI)
  show "length (snd (admin_describe_topic pr t)) \<le> 1 + 9"
  proof (cases "admin_roundtrip pr (DescribeTopic \<lparr>describe_topic_id = t\<rparr>)")
    case (Inr m)
    show ?thesis
    proof (cases m)
      case (RDescribeTopic bs)
      with Inr show ?thesis
        using admin_payload [OF Inr, of bs] describe_table.rows_fit [of 2 bs "unat (be_at 0 2 bs :: u16)"]
        by (cases "length bs < 2") (simp_all add: admin_describe_topic_def Let_def)
    qed (use Inr in \<open>simp_all add: admin_describe_topic_def\<close>)
  qed (simp add: admin_describe_topic_def)
  show "length (snd (admin_get_lag pr g t)) \<le> 1 + 9"
  proof (cases "admin_roundtrip pr (GetLag \<lparr>lag_group_id = g, lag_topic_id = t\<rparr>)")
    case (Inr m)
    show ?thesis
    proof (cases m)
      case (RGetLag bs)
      with Inr show ?thesis
        using admin_payload [OF Inr, of bs] lag_table.rows_fit [of 2 bs "unat (be_at 0 2 bs :: u16)"]
        by (cases "length bs < 2") (simp_all add: admin_get_lag_def)
    qed (use Inr in \<open>simp_all add: admin_get_lag_def\<close>)
  qed (simp add: admin_get_lag_def)
  show "length (snd (admin_list_topics pr)) \<le> 1 + 126"
  proof (cases "admin_roundtrip pr ListTopics")
    case (Inr m)
    show ?thesis
    proof (cases m)
      case (RListTopics bs)
      with Inr show ?thesis
        using admin_payload [OF Inr, of bs] id_table.rows_fit [of 2 bs "unat (be_at 0 2 bs :: u16)"]
        by (cases "length bs < 2") (simp_all add: admin_list_topics_def Let_def)
    qed (use Inr in \<open>simp_all add: admin_list_topics_def\<close>)
  qed (simp add: admin_list_topics_def)
qed

text \<open>
  The cluster view is misread.  A broker that keeps a cluster state answers with the
  state's own format, which starts with a version byte, and the tool decodes the answer as
  a plain configuration.  Whatever it prints then, the minimum of in-sync replicas it shows
  is at least 512, so for a minimum below 512 it never shows the configuration in force.
\<close>

theorem admin_cluster_misread:
  assumes "b_cluster_state b = Some st" and "cs_min_insync_replicas st < 512"
  shows "(\<forall>cfg. cluster_config_decode (cluster_info_bytes e b) = Inr cfg \<longrightarrow> 512 \<le> cc_min_insync_replicas cfg)
    \<and> cluster_config_decode (cluster_info_bytes e b) \<noteq> Inr (to_cluster_config st)"
proof -
  obtain hi lo rest where body: "encode_state_body st = hi # lo # rest"
    by (simp add: encode_state_body_def to_be_bytes_u16)
  then have bs: "cluster_info_bytes e b = 2 # hi # lo # rest"
    using assms(1) by (simp add: cluster_info_bytes_def encode_cluster_info_def)
  have "read_u16 (2 # hi # lo # rest) 0 = Inr (of_nat (512 + unat hi), 2)"
    by (simp add: read_u16_def be_at_def slice_def from_be_bytes_pair)
  moreover have "unat (of_nat (512 + unat hi) :: u16) = 512 + unat hi"
    using unsigned_less [of hi, where ?'a = nat] by (simp add: unat_of_nat_u16 del: of_nat_add)
  then have "512 \<le> (of_nat (512 + unat hi) :: u16)" by (simp add: word_le_nat_alt del: of_nat_add)
  ultimately have *: "\<forall>cfg. cluster_config_decode (cluster_info_bytes e b) = Inr cfg \<longrightarrow> 512 \<le> cc_min_insync_replicas cfg"
    unfolding bs by (auto simp: cluster_config_decode_def res_bind_Inr_iff simp del: of_nat_add)
  with assms(2) show ?thesis by (force simp: to_cluster_config_def)
qed

theorem admin_cluster_misread_witness:
  "cluster_config_decode (cluster_info_bytes empty_env (sample_broker\<lparr>b_cluster_state := Some (from_seed 5 sample_config)\<rparr>))
    \<noteq> Inr (to_cluster_config (from_seed 5 sample_config))"
  using admin_cluster_misread [of "sample_broker\<lparr>b_cluster_state := Some (from_seed 5 sample_config)\<rparr>" "from_seed 5 sample_config"
      empty_env]
  by (simp add: from_seed_def sample_config_def)

end
