(* ===== verification/Ops_Server.thy ===== *)
theory Ops_Server
  imports Broker
begin

text \<open>
  What a broker tells its operators: the counters in the text format of Prometheus
  (\<open>metrics.rs\<close>), the HTTP server for them and for the probes (\<open>metrics_server.rs\<close>), and the names
  of requests in the log (\<open>request_log.rs\<close>).
\<close>

section \<open>The text of the counters\<close>

abbreviation newline :: char where
  "newline \<equiv> CHR 0x0A"

definition bucket_name :: "string \<Rightarrow> string" where
  "bucket_name bound = ''dmq_request_latency_ms_bucket{le='' @ [CHR 0x22] @ bound @ [CHR 0x22] @ ''}''"

fun bucket_lines :: "u64 list \<Rightarrow> nat \<Rightarrow> u64 list \<Rightarrow> string" where
  "bucket_lines [] idx buckets = ''''"
| "bucket_lines (bound # bounds) idx buckets =
     bucket_name (show_word bound) @ '' '' @ show_word (buckets ! idx) @ [newline]
     @ bucket_lines bounds (Suc idx) buckets"

definition render_prometheus :: "broker_metrics \<Rightarrow> string" where
  "render_prometheus m =
     ''# HELP dmq_produce_total Total produce requests'' @ [newline]
     @ ''# TYPE dmq_produce_total counter'' @ [newline]
     @ ''dmq_produce_total '' @ show_word (produce_total m) @ [newline]
     @ ''# HELP dmq_produce_bytes Total bytes produced'' @ [newline]
     @ ''# TYPE dmq_produce_bytes counter'' @ [newline]
     @ ''dmq_produce_bytes '' @ show_word (produce_bytes m) @ [newline]
     @ ''# HELP dmq_fetch_total Total fetch requests'' @ [newline]
     @ ''# TYPE dmq_fetch_total counter'' @ [newline]
     @ ''dmq_fetch_total '' @ show_word (fetch_total m) @ [newline]
     @ ''# HELP dmq_fetch_bytes Total bytes fetched'' @ [newline]
     @ ''# TYPE dmq_fetch_bytes counter'' @ [newline]
     @ ''dmq_fetch_bytes '' @ show_word (fetch_bytes m) @ [newline]
     @ ''# HELP dmq_fetch_records Total records returned by fetch'' @ [newline]
     @ ''# TYPE dmq_fetch_records counter'' @ [newline]
     @ ''dmq_fetch_records '' @ show_word (fetch_records m) @ [newline]
     @ ''# HELP dmq_commit_total Total offset commits'' @ [newline]
     @ ''# TYPE dmq_commit_total counter'' @ [newline]
     @ ''dmq_commit_total '' @ show_word (commit_total m) @ [newline]
     @ ''# HELP dmq_request_errors Total request errors'' @ [newline]
     @ ''# TYPE dmq_request_errors counter'' @ [newline]
     @ ''dmq_request_errors '' @ show_word (request_errors m) @ [newline]
     @ ''# HELP dmq_request_latency_ms Request latency sum in milliseconds'' @ [newline]
     @ ''# TYPE dmq_request_latency_ms counter'' @ [newline]
     @ ''dmq_request_latency_ms_sum '' @ show_word (request_latency_sum_ms m) @ [newline]
     @ ''dmq_request_latency_ms_count '' @ show_word (request_latency_count m) @ [newline]
     @ ''# HELP dmq_request_latency_ms_bucket Request latency histogram buckets'' @ [newline]
     @ ''# TYPE dmq_request_latency_ms_bucket counter'' @ [newline]
     @ bucket_lines LATENCY_BUCKETS_MS 0 (latency_buckets m)
     @ bucket_name ''+Inf'' @ '' '' @ show_word (request_latency_count m) @ [newline]"

section \<open>The HTTP server\<close>

definition metrics_port :: "env \<Rightarrow> u16" where
  "metrics_port e = env_word e ''DMQ_METRICS_PORT'' 9080"

definition ops_addr :: "env \<Rightarrow> string" where
  "ops_addr e = bind_host e @ '':'' @ show_word (metrics_port e)"

text \<open>\<open>split_whitespace\<close>: the non-empty parts between white space.\<close>

function split_whitespace :: "string \<Rightarrow> string \<Rightarrow> string list" where
  "split_whitespace acc [] = (if acc = [] then [] else [acc])"
| "split_whitespace acc (c # s) =
     (case List.find (\<lambda>w. prefix w (c # s)) white_space of
        None \<Rightarrow> split_whitespace (acc @ [c]) s
      | Some w \<Rightarrow> (if acc = [] then [] else [acc]) @ split_whitespace [] (drop (length w) (c # s)))"
  by pat_completeness auto

termination
  by (relation "measure (\<lambda>(acc, s). length s)")
    (auto simp: find_Some_iff dest!: white_space_nonempty [OF nth_mem])

definition ops_response :: "broker_metrics \<Rightarrow> bool \<Rightarrow> string \<Rightarrow> string \<times> string \<times> string" where
  "ops_response m data_dir_exists path =
     (if path = ''/metrics'' then (''200 OK'', ''text/plain; version=0.0.4'', render_prometheus m)
      else if path = ''/health'' then (''200 OK'', ''text/plain'', ''ok'')
      else if path = ''/ready'' then
        (if data_dir_exists then (''200 OK'', ''text/plain'', ''ready'')
         else (''503 Service Unavailable'', ''text/plain'', ''not ready''))
      else (''404 Not Found'', ''text/plain'', ''not found''))"

abbreviation crlf :: string where
  "crlf \<equiv> [CHR 0x0D, newline]"

text \<open>
  One connection: \<open>chunk\<close> is what the first read returns, none when it fails; the result is
  what is written, none when the connection is dropped without an answer.
\<close>

definition handle_ops_connection :: "broker_metrics \<Rightarrow> bool \<Rightarrow> bytes option \<Rightarrow> bytes option" where
  "handle_ops_connection m data_dir_exists chunk =
     (case chunk of
        None \<Rightarrow> None
      | Some [] \<Rightarrow> None
      | Some got \<Rightarrow>
          (let words = split_whitespace '''' (from_utf8_lossy (take 1024 got));
               path = (if 1 < length words then words ! 1 else '''');
               (status, content_type, body) = ops_response m data_dir_exists path
           in Some (as_bytes (''HTTP/1.1 '' @ status @ crlf @ ''Content-Type: '' @ content_type @ crlf
                @ ''Content-Length: '' @ show_nat (length body) @ crlf @ ''Connection: close'' @ crlf @ crlf @ body))))"

section \<open>Names of requests\<close>

fun request_name :: "message \<Rightarrow> string" where
  "request_name (Echo _) = ''ECHO''"
| "request_name (ProducerRegister _) = ''P_REG''"
| "request_name (ConsumerRegister _) = ''C_REG''"
| "request_name (Pcm _) = ''PCM''"
| "request_name (Fetch _) = ''FETCH''"
| "request_name (CommitOffset _) = ''COMMIT''"
| "request_name (Produce _) = ''PRODUCE''"
| "request_name (IdempotentProduce _) = ''IDEMPOTENT_PRODUCE''"
| "request_name (CreateTopic _) = ''CREATE_TOPIC''"
| "request_name (DescribeTopic _) = ''DESCRIBE_TOPIC''"
| "request_name ListTopics = ''LIST_TOPICS''"
| "request_name (GetLag _) = ''GET_LAG''"
| "request_name (Replicate _) = ''REPLICATE''"
| "request_name GetCluster = ''GET_CLUSTER''"
| "request_name (BrokerHeartbeat _) = ''BROKER_HEARTBEAT''"
| "request_name (JoinGroup _) = ''JOIN_GROUP''"
| "request_name (GroupHeartbeat _) = ''GROUP_HEARTBEAT''"
| "request_name (Handshake _) = ''HANDSHAKE''"
| "request_name (REcho _) = ''R_ECHO''"
| "request_name (RProducerRegister _) = ''R_P_REG''"
| "request_name (RConsumerRegister _) = ''R_C_REG''"
| "request_name (RPcm _) = ''R_PCM''"
| "request_name (RFetch _) = ''R_FETCH''"
| "request_name (RCommitOffset _) = ''R_COMMIT''"
| "request_name (RProduce _) = ''R_PRODUCE''"
| "request_name (RCreateTopic _) = ''R_CREATE_TOPIC''"
| "request_name (RDescribeTopic _) = ''R_DESCRIBE_TOPIC''"
| "request_name (RListTopics _) = ''R_LIST_TOPICS''"
| "request_name (RGetLag _) = ''R_GET_LAG''"
| "request_name (RReplicate _) = ''R_REPLICATE''"
| "request_name (RGetCluster _) = ''R_GET_CLUSTER''"
| "request_name (RNotLeader _) = ''R_NOT_LEADER''"
| "request_name (RBrokerHeartbeat _) = ''R_BROKER_HEARTBEAT''"
| "request_name (RJoinGroup _) = ''R_JOIN_GROUP''"
| "request_name (RGroupHeartbeat _ _) = ''R_GROUP_HEARTBEAT''"
| "request_name (RHandshake _ _) = ''R_HANDSHAKE''"
| "request_name (RError _ _) = ''R_ERROR''"

definition log_request :: "string \<Rightarrow> string \<Rightarrow> string" where
  "log_request request peer = ''[broker] request='' @ request @ '' peer='' @ peer"

definition log_request_error :: "string \<Rightarrow> string \<Rightarrow> string \<Rightarrow> string" where
  "log_request_error request peer err = ''[broker] request='' @ request @ '' peer='' @ peer @ '' error='' @ err"

section \<open>What a monitoring system reads\<close>

text \<open>
  The reader of a response: the lines up to the empty one are the head, what follows is the
  body, and the head has to announce its length.  The value of a sample is the number after
  its name on the first line that starts with the name and a space.
\<close>

definition http_body :: "bytes \<Rightarrow> string option" where
  "http_body out =
     (let lines = split_on newline (string_of_bytes out);
          head = takeWhile (\<lambda>l. l \<noteq> [CHR 0x0D]) lines;
          body = join_with newline (drop (Suc (length head)) lines)
      in if ''Content-Length: '' @ show_nat (length body) @ [CHR 0x0D] \<in> set head then Some body else None)"

definition scrape :: "string \<Rightarrow> string \<Rightarrow> u64 option" where
  "scrape body name =
     Option.bind (List.find (prefix (name @ '' '')) (split_on newline body)) (\<lambda>l. parse_word (drop (length name + 1) l))"

definition samples :: "broker_metrics \<Rightarrow> (string \<times> u64) list" where
  "samples m =
     [(''dmq_produce_total'', produce_total m), (''dmq_produce_bytes'', produce_bytes m),
      (''dmq_fetch_total'', fetch_total m), (''dmq_fetch_bytes'', fetch_bytes m),
      (''dmq_fetch_records'', fetch_records m), (''dmq_commit_total'', commit_total m),
      (''dmq_request_errors'', request_errors m), (''dmq_request_latency_ms_sum'', request_latency_sum_ms m),
      (''dmq_request_latency_ms_count'', request_latency_count m)]
     @ map (\<lambda>(i, bound). (bucket_name (show_word bound), latency_buckets m ! i)) (enumerate 0 LATENCY_BUCKETS_MS)
     @ [(bucket_name ''+Inf'', request_latency_count m)]"

lemma show_nat_char:
  assumes "c \<in> set (show_nat n)"
  shows "48 \<le> (of_char c :: nat) \<and> (of_char c :: nat) \<le> 57"
  using show_nat_digits [OF assms] by (auto simp: digit_char_def)

lemma show_nat_no_blank [simp]:
  "CHR '' '' \<notin> set (show_nat n)" "newline \<notin> set (show_nat n)" "CHR 0x0D \<notin> set (show_nat n)"
  using show_nat_char [of _ n] by force+

lemma join_split [simp]: "join_with c (split_on c s) = s"
proof (induction s)
  case (Cons x s)
  then show ?case
    by (cases "split_on c s"; cases "tl (split_on c s)") (auto split: list.split)
qed simp

lemma split_on_unlines:
  "\<forall>l\<in>set ls. c \<notin> set l \<Longrightarrow> split_on c (concat (map (\<lambda>l. l @ [c]) ls) @ s) = ls @ split_on c s"
  by (induction ls) (simp_all add: split_on_append)

text \<open>A comment or a sample, and the text of it.\<close>

fun item_line :: "string + string \<times> u64 \<Rightarrow> string" where
  "item_line (Inl c) = ''# '' @ c"
| "item_line (Inr (n, v)) = n @ '' '' @ show_word v"

lemma prefix_word:
  "CHR '' '' \<notin> set n \<Longrightarrow> CHR '' '' \<notin> set n' \<Longrightarrow> prefix (n @ '' '') (n' @ '' '' @ s) \<longleftrightarrow> n = n'"
proof (induction n arbitrary: n')
  case Nil
  then show ?case by (cases n') auto
next
  case (Cons x n)
  then show ?case by (cases n') auto
qed

lemma find_item:
  assumes names: "\<And>n' v'. Inr (n', v') \<in> set items \<Longrightarrow> CHR '' '' \<notin> set n' \<and> (n' = n \<longrightarrow> v' = v)"
    and "Inr (n, v) \<in> set items" and n: "n \<noteq> []" "hd n \<noteq> CHR ''#''"
  shows "List.find (prefix (n @ '' '')) (map item_line items) = Some (n @ '' '' @ show_word v)"
  using assms(1,2)
proof (induction items)
  case Nil
  then show ?case by simp
next
  case (Cons i items)
  have sp: "CHR '' '' \<notin> set n" using Cons.prems(1) [OF Cons.prems(2)] by simp
  have later: "List.find (prefix (n @ '' '')) (map item_line items) = Some (n @ '' '' @ show_word v)"
    if "Inr (n, v) \<in> set items"
    using Cons.IH [OF _ that] Cons.prems(1) by (meson list.set_intros(2))
  show ?case
  proof (cases i)
    case (Inl c)
    have "\<not> prefix (n @ '' '') (''# '' @ c)" using n by (cases n) auto
    moreover have "Inr (n, v) \<in> set items" using Cons.prems(2) Inl by simp
    ultimately show ?thesis using Inl later by simp
  next
    case (Inr nv)
    then obtain n' v' where i: "i = Inr (n', v')" by (cases nv) simp
    then have n': "CHR '' '' \<notin> set n'" "n' = n \<Longrightarrow> v' = v" using Cons.prems(1) [of n' v'] by simp_all
    show ?thesis
    proof (cases "n' = n")
      case True
      with i n' prefix_word [OF sp sp, of "show_word v'"] show ?thesis by simp
    next
      case False
      then have "Inr (n, v) \<in> set items" using Cons.prems(2) i by auto
      with later prefix_word [OF sp n'(1), of "show_word v'"] False i show ?thesis by simp
    qed
  qed
qed

definition prom_items :: "broker_metrics \<Rightarrow> (string + string \<times> u64) list" where
  "prom_items m =
     [Inl ''HELP dmq_produce_total Total produce requests'', Inl ''TYPE dmq_produce_total counter'',
      Inr (''dmq_produce_total'', produce_total m),
      Inl ''HELP dmq_produce_bytes Total bytes produced'', Inl ''TYPE dmq_produce_bytes counter'',
      Inr (''dmq_produce_bytes'', produce_bytes m),
      Inl ''HELP dmq_fetch_total Total fetch requests'', Inl ''TYPE dmq_fetch_total counter'',
      Inr (''dmq_fetch_total'', fetch_total m),
      Inl ''HELP dmq_fetch_bytes Total bytes fetched'', Inl ''TYPE dmq_fetch_bytes counter'',
      Inr (''dmq_fetch_bytes'', fetch_bytes m),
      Inl ''HELP dmq_fetch_records Total records returned by fetch'', Inl ''TYPE dmq_fetch_records counter'',
      Inr (''dmq_fetch_records'', fetch_records m),
      Inl ''HELP dmq_commit_total Total offset commits'', Inl ''TYPE dmq_commit_total counter'',
      Inr (''dmq_commit_total'', commit_total m),
      Inl ''HELP dmq_request_errors Total request errors'', Inl ''TYPE dmq_request_errors counter'',
      Inr (''dmq_request_errors'', request_errors m),
      Inl ''HELP dmq_request_latency_ms Request latency sum in milliseconds'',
      Inl ''TYPE dmq_request_latency_ms counter'',
      Inr (''dmq_request_latency_ms_sum'', request_latency_sum_ms m),
      Inr (''dmq_request_latency_ms_count'', request_latency_count m),
      Inl ''HELP dmq_request_latency_ms_bucket Request latency histogram buckets'',
      Inl ''TYPE dmq_request_latency_ms_bucket counter'']
     @ map (\<lambda>(i, bound). Inr (bucket_name (show_word bound), latency_buckets m ! i)) (enumerate 0 LATENCY_BUCKETS_MS)
     @ [Inr (bucket_name ''+Inf'', request_latency_count m)]"

abbreviation unlines :: "string list \<Rightarrow> string" where
  "unlines ls \<equiv> concat (map (\<lambda>l. l @ [newline]) ls)"

lemma bucket_lines_eq:
  "bucket_lines bounds i buckets = unlines (map (\<lambda>(i, bound). item_line (Inr (bucket_name (show_word bound), buckets ! i)))
     (enumerate i bounds))"
  by (induction bounds arbitrary: i) simp_all

lemma render_prometheus_lines: "render_prometheus m = unlines (map item_line (prom_items m))"
  by (simp add: render_prometheus_def prom_items_def bucket_lines_eq comp_def case_prod_unfold)

lemma item_lines_no_newline: "\<forall>l\<in>set (map item_line (prom_items m)). newline \<notin> set l"
  by (auto simp: prom_items_def bucket_name_def)

lemma show_buckets:
  "map show_word LATENCY_BUCKETS_MS
    = [''1'', ''5'', ''10'', ''25'', ''50'', ''100'', ''250'', ''500'', ''1000'', ''2500'']"
  by (simp add: LATENCY_BUCKETS_MS_def show_nat.simps digit_char_def char_of_def bit_simps)

lemma sample_names:
  "map fst (samples m) =
     [''dmq_produce_total'', ''dmq_produce_bytes'', ''dmq_fetch_total'', ''dmq_fetch_bytes'', ''dmq_fetch_records'',
      ''dmq_commit_total'', ''dmq_request_errors'', ''dmq_request_latency_ms_sum'', ''dmq_request_latency_ms_count'']
     @ map bucket_name [''1'', ''5'', ''10'', ''25'', ''50'', ''100'', ''250'', ''500'', ''1000'', ''2500'', ''+Inf'']"
proof -
  have "map fst (map (\<lambda>(i, bound). (bucket_name (show_word bound), latency_buckets m ! i)) (enumerate 0 LATENCY_BUCKETS_MS))
      = map bucket_name (map show_word (map snd (enumerate 0 LATENCY_BUCKETS_MS)))"
    by (simp add: case_prod_unfold comp_def del: map_snd_enumerate)
  then show ?thesis unfolding map_snd_enumerate show_buckets by (simp add: samples_def)
qed

lemma sample_names_plain:
  "distinct (map fst (samples m))"
  "n \<in> set (map fst (samples m)) \<Longrightarrow> CHR '' '' \<notin> set n \<and> n \<noteq> [] \<and> hd n \<noteq> CHR ''#''"
proof -
  show "distinct (map fst (samples m))"
    unfolding sample_names by (simp add: bucket_name_def)
  show "CHR '' '' \<notin> set n \<and> n \<noteq> [] \<and> hd n \<noteq> CHR ''#''" if "n \<in> set (map fst (samples m))"
    using that unfolding sample_names by (auto simp: bucket_name_def)
qed

fun sample_of :: "string + string \<times> u64 \<Rightarrow> (string \<times> u64) option" where
  "sample_of (Inl c) = None"
| "sample_of (Inr nv) = Some nv"

lemma sample_of_items: "List.map_filter sample_of (prom_items m) = samples m"
  by (simp add: prom_items_def samples_def map_filter_simps map_filter_def comp_def case_prod_unfold)

lemma map_filter_sample: "nv \<in> set (List.map_filter sample_of is) \<longleftrightarrow> Inr nv \<in> set is"
proof (induction "is")
  case Nil
  show ?case by (simp add: map_filter_simps)
next
  case (Cons i "is")
  then show ?case by (cases i) (auto simp: map_filter_simps)
qed

lemma samples_items: "Inr nv \<in> set (prom_items m) \<longleftrightarrow> nv \<in> set (samples m)"
  using map_filter_sample [of nv "prom_items m"] unfolding sample_of_items by blast

lemma find_append: "List.find P xs = Some x \<Longrightarrow> List.find P (xs @ ys) = Some x"
  by (induction xs) auto

lemma scrape_render:
  assumes nv: "(n, v) \<in> set (samples m)"
  shows "scrape (render_prometheus m) n = Some v"
proof -
  have plain: "CHR '' '' \<notin> set n' \<and> n' \<noteq> [] \<and> hd n' \<noteq> CHR ''#''" if "(n', v') \<in> set (samples m)" for n' v'
    using sample_names_plain(2) [of n' m] that by (metis fst_conv image_eqI set_map)
  have "List.find (prefix (n @ '' '')) (map item_line (prom_items m)) = Some (n @ '' '' @ show_word v)"
  proof (rule find_item)
    show "CHR '' '' \<notin> set n' \<and> (n' = n \<longrightarrow> v' = v)" if "Inr (n', v') \<in> set (prom_items m)" for n' v'
      using plain eq_key_imp_eq_value [OF sample_names_plain(1) nv] that unfolding samples_items by metis
  qed (use nv plain [OF nv] in \<open>simp_all add: samples_items\<close>)
  moreover have "split_on newline (render_prometheus m) = map item_line (prom_items m) @ [[]]"
    unfolding render_prometheus_lines using split_on_unlines [OF item_lines_no_newline, of m "[]"] by simp
  ultimately show ?thesis by (simp add: scrape_def find_append parse_word_show)
qed

text \<open>The body of a response, and the path of a request.\<close>

lemma http_body_response:
  assumes "newline \<notin> set status" "newline \<notin> set content_type"
  shows "http_body (as_bytes (''HTTP/1.1 '' @ status @ crlf @ ''Content-Type: '' @ content_type @ crlf
      @ ''Content-Length: '' @ show_nat (length body) @ crlf @ ''Connection: close'' @ crlf @ crlf @ body)) = Some body"
proof -
  let ?cr = "[CHR 0x0D]"
  let ?head = "[''HTTP/1.1 '' @ status @ ?cr, ''Content-Type: '' @ content_type @ ?cr,
      ''Content-Length: '' @ show_nat (length body) @ ?cr, ''Connection: close'' @ ?cr]"
  let ?out = "''HTTP/1.1 '' @ status @ crlf @ ''Content-Type: '' @ content_type @ crlf
      @ ''Content-Length: '' @ show_nat (length body) @ crlf @ ''Connection: close'' @ crlf @ crlf @ body"
  have "?out = unlines (?head @ [?cr]) @ body" by simp
  moreover have "\<forall>l\<in>set (?head @ [?cr]). newline \<notin> set l" using assms by simp
  note split_on_unlines [OF this, of body]
  ultimately have "split_on newline ?out = (?head @ [?cr]) @ split_on newline body" by metis
  moreover have "takeWhile (\<lambda>l. l \<noteq> ?cr) ((?head @ [?cr]) @ split_on newline body) = ?head" by simp
  ultimately show ?thesis
    unfolding http_body_def string_of_bytes_as_bytes Let_def by simp
qed

definition plain_char :: "char \<Rightarrow> bool" where
  "plain_char c \<longleftrightarrow> 33 \<le> (of_char c :: nat) \<and> (of_char c :: nat) \<le> 126"

lemma white_space_hd: "w \<in> set white_space \<Longrightarrow> \<not> plain_char (hd w)"
  by (auto simp: white_space_def plain_char_def)

lemma find_plain: "plain_char c \<Longrightarrow> List.find (\<lambda>w. prefix w (c # s)) white_space = None"
  using white_space_hd white_space_nonempty by (fastforce simp: find_None_iff prefix_Cons)

lemma find_space: "List.find (\<lambda>w. prefix w (CHR '' '' # s)) white_space = Some '' ''"
  by (simp add: white_space_def char_of_def bit_simps)

lemma split_whitespace_word:
  "\<forall>c\<in>set w. plain_char c \<Longrightarrow> acc @ w \<noteq> [] \<Longrightarrow> split_whitespace acc (w @ CHR '' '' # s) = (acc @ w) # split_whitespace [] s"
proof (induction w arbitrary: acc)
  case Nil
  then show ?case using find_space [of s] by simp
next
  case (Cons c w)
  then show ?case using find_plain [of c "w @ CHR '' '' # s"] Cons.IH [of "acc @ [c]"] by simp
qed

text \<open>A request line is answered by its path.\<close>

lemma ops_answers_path:
  assumes words: "\<forall>c\<in>set (meth @ path). plain_char c" "meth \<noteq> []" "path \<noteq> []" and rest: "valid_str rest"
    and short: "length meth + length path + length rest + 2 \<le> 1024"
    and resp: "ops_response m ready path = (status, content_type, body)"
  shows "\<exists>out. handle_ops_connection m ready (Some (as_bytes (meth @ '' '' @ path @ '' '' @ rest))) = Some out
    \<and> http_body out = Some body"
proof -
  let ?req = "meth @ CHR '' '' # path @ CHR '' '' # rest"
  have "\<forall>b\<in>set (as_bytes (meth @ CHR '' '' # path @ '' '')). b < 0x80"
    using words(1) by (force simp: as_bytes_def plain_char_def word_less_nat_alt unat_of_char_u8)
  from utf8_valid_ascii [OF this, of "as_bytes rest"] rest have "valid_str ?req"
    by (simp add: valid_str_def as_bytes_def)
  define got where "got = as_bytes ?req"
  have "split_whitespace '''' (from_utf8_lossy (take 1024 got)) = meth # path # split_whitespace '''' rest"
    using \<open>valid_str ?req\<close> words short split_whitespace_word [of meth "[]"] split_whitespace_word [of path "[]"]
    by (simp add: got_def from_utf8_lossy_as_bytes del: as_bytes_append)
  moreover obtain x xs where "got = x # xs" using words(2) by (cases meth) (simp_all add: got_def as_bytes_def)
  ultimately have "\<exists>out. handle_ops_connection m ready (Some got) = Some out \<and> out = as_bytes (''HTTP/1.1 '' @ status @ crlf
      @ ''Content-Type: '' @ content_type @ crlf @ ''Content-Length: '' @ show_nat (length body) @ crlf
      @ ''Connection: close'' @ crlf @ crlf @ body)"
    using resp by (simp add: handle_ops_connection_def del: as_bytes_append)
  moreover have "newline \<notin> set status" "newline \<notin> set content_type"
    using resp by (auto simp: ops_response_def split: if_splits)
  ultimately show ?thesis using http_body_response [of status content_type body] unfolding got_def by auto
qed



end
