(* ===== verification/Server_Process.thy ===== *)
theory Server_Process
  imports Tls Storage Admin Ops_Server
begin

text \<open>
  The processes of \<open>dmq-cli\<close>: how the server starts, accepts connections and serves its
  operations port, and how the clients connect before their loops run.  Listening,
  dialling and accepting are parameters that say what the operating system answered; an
  endless accept loop is watched for a list of accepted connections.
\<close>

section \<open>Opening a broker from the environment\<close>

definition DEFAULT_DATA_DIR :: string where "DEFAULT_DATA_DIR = ''dmq-data''"

definition data_dir_from_env :: "env \<Rightarrow> string" where
  "data_dir_from_env e = (case e ''DMQ_DATA_DIR'' of Some p \<Rightarrow> p | None \<Rightarrow> DEFAULT_DATA_DIR)"

text \<open>Reading a file and parsing TOML are parameters.\<close>

definition cluster_load :: "(string \<Rightarrow> string io_result) \<Rightarrow> (string \<Rightarrow> string + cluster_config) \<Rightarrow> string \<Rightarrow> cluster_config io_result" where
  "cluster_load read_to_string toml path = res_bind (read_to_string path) (\<lambda>text. map_err InvalidData (toml text))"

definition cluster_from_env ::
  "env \<Rightarrow> (string \<Rightarrow> string io_result) \<Rightarrow> (string \<Rightarrow> string + cluster_config) \<Rightarrow> cluster_config option io_result" where
  "cluster_from_env e read_to_string toml =
     (case e ''DMQ_CLUSTER_CONFIG'' of
        Some path \<Rightarrow> res_bind (cluster_load read_to_string toml path) (\<lambda>c. Inr (Some c))
      | None \<Rightarrow> Inr None)"

definition env_broker_id :: "env \<Rightarrow> broker_id" where
  "env_broker_id e = local_broker_id e"

definition client_broker_addr :: "env \<Rightarrow> cluster_config option io_result \<Rightarrow> string" where
  "client_broker_addr e cfg = broker_addr_for e cfg (local_broker_id e)"

definition open_with_cluster :: "env \<Rightarrow> u64 \<Rightarrow> cluster_config option \<Rightarrow> data_dir \<Rightarrow> broker io_result \<times> data_dir" where
  "open_with_cluster e now cluster d = open_with_cluster_and_id e now cluster (local_broker_id e) d"

definition broker_open :: "env \<Rightarrow> u64 \<Rightarrow> cluster_config option io_result \<Rightarrow> data_dir \<Rightarrow> broker io_result \<times> data_dir" where
  "broker_open e now cfg d = sbind (cfg, d) (\<lambda>cluster d1. open_with_cluster e now cluster d1)"

text \<open>A broker on a fresh temporary directory.\<close>

definition open_ephemeral :: "env \<Rightarrow> u64 \<Rightarrow> cluster_config option io_result \<Rightarrow> broker io_result \<times> data_dir" where
  "open_ephemeral e now cfg = broker_open e now cfg empty_dir"

definition expect :: "string \<Rightarrow> 'a io_result \<Rightarrow> 'a io_result" where
  "expect msg r = (case r of Inl _ \<Rightarrow> Inl (Panic msg) | Inr a \<Rightarrow> Inr a)"

lemma expect_simps [simp]: "expect msg (Inl err) = Inl (Panic msg)" "expect msg (Inr a) = Inr a"
  by (simp_all add: expect_def)

lemma expect_Inr [simp]: "expect msg r = Inr a \<longleftrightarrow> r = Inr a"
  by (cases r) simp_all

definition broker_new :: "env \<Rightarrow> u64 \<Rightarrow> cluster_config option io_result \<Rightarrow> broker io_result" where
  "broker_new e now cfg = expect ''ephemeral broker data dir'' (fst (open_ephemeral e now cfg))"

section \<open>The server\<close>

datatype server_task = MetricsTask | ClusterTask

text \<open>What becomes of one accepted connection: the stream that the connection loop serves.\<close>

definition accept_task ::
  "env \<Rightarrow> ('cert, 'key, 'srv, 'name, 'tcp, 'tls) tls_lib \<Rightarrow> ('tcp \<times> string) io_result \<Rightarrow> (('tcp, 'tls) client_stream \<times> string) option" where
  "accept_task e lib r =
     (case r of
        Inl _ \<Rightarrow> None
      | Inr (socket, peer) \<Rightarrow>
          if tls_enabled e then
            (case tls_accept e lib socket of Inr tls \<Rightarrow> Some (TlsStream tls, peer) | Inl _ \<Rightarrow> None)
          else Some (PlainStream socket, peer))"

definition run_server ::
  "env \<Rightarrow> u64 \<Rightarrow> cluster_config option io_result \<Rightarrow> (string \<Rightarrow> unit io_result) \<Rightarrow> ('cert, 'key, 'srv, 'name, 'tcp, 'tls) tls_lib
    \<Rightarrow> ('tcp \<times> string) io_result list \<Rightarrow> (string \<Rightarrow> data_dir)
    \<Rightarrow> (broker \<times> server_task list \<times> (('tcp, 'tls) client_stream \<times> string) list) io_result" where
  "run_server e now cfg bind lib accepts disk =
     res_bind (expect ''called `Result::unwrap()` on an `Err` value'' (bind (bind_addr e))) (\<lambda>_.
     res_bind (expect ''failed to open broker data dir'' (fst (broker_open e now cfg (disk (data_dir_from_env e))))) (\<lambda>b.
     Inr (b, MetricsTask # (if b_cluster_state b \<noteq> None then [ClusterTask] else []),
          List.map_filter (accept_task e lib) accepts)))"

text \<open>The operations server answers each connection it accepts, with the counters of that
  moment; \<open>None\<close> is a failed accept.\<close>

definition run_metrics_server ::
  "env \<Rightarrow> (string \<Rightarrow> unit io_result) \<Rightarrow> (broker_metrics \<times> bool \<times> bytes option) option list \<Rightarrow> bytes option list" where
  "run_metrics_server e bind accepts =
     (case bind (ops_addr e) of
        Inl _ \<Rightarrow> []
      | Inr _ \<Rightarrow> map (\<lambda>(m, data_dir_exists, chunk). handle_ops_connection m data_dir_exists chunk) (List.map_filter id accepts))"

text \<open>The connection back to a consumer, after which the delivery loop runs.\<close>

definition dial_back_to_consumer ::
  "(string \<Rightarrow> bytes io_result) \<Rightarrow> nat \<Rightarrow> (nat \<Rightarrow> nat \<Rightarrow> broker \<Rightarrow> broker) \<Rightarrow> u16 \<Rightarrow> u16 \<Rightarrow> u16 \<Rightarrow> u16 \<Rightarrow> broker \<Rightarrow> bytes \<times> broker" where
  "dial_back_to_consumer dial polls gap port t g pidx b =
     (case dial (''127.0.0.1:'' @ show_word port) of
        Inl _ \<Rightarrow> ([], b)
      | Inr input \<Rightarrow> run_consumer_ready_and_send polls gap 0 t g pidx input b)"

section \<open>The clients\<close>

definition push_producer_run ::
  "env \<Rightarrow> cluster_config option io_result \<Rightarrow> (string \<Rightarrow> unit io_result) \<Rightarrow> (string \<Rightarrow> peer io_result) \<Rightarrow> peer io_result
    \<Rightarrow> nat \<Rightarrow> string list \<Rightarrow> u16 \<Rightarrow> u16 \<Rightarrow> bool \<Rightarrow> message list io_result" where
  "push_producer_run e cfg bind dial back rounds lines port t simulate =
     res_bind (expect ''[producer] Could not bind own port'' (bind (''127.0.0.1:'' @ show_word port))) (\<lambda>_.
     res_bind (expect ''[producer] Could not connect to broker'' (dial (client_broker_addr e cfg))) (\<lambda>pr.
     res_bind (push_producer_register pr port t) (\<lambda>_.
     res_bind (expect ''[producer] Failed to accept broker dial-back'' back) (\<lambda>broker_conn.
     Inr (if simulate then fst (push_simulate_loop rounds broker_conn port 0 conn_new)
          else fst (push_stdin_loop broker_conn lines conn_new))))))"

definition push_consumer_run ::
  "env \<Rightarrow> cluster_config option io_result \<Rightarrow> (string \<Rightarrow> unit io_result) \<Rightarrow> (string \<Rightarrow> peer io_result) \<Rightarrow> peer io_result
    \<Rightarrow> nat \<Rightarrow> u16 \<Rightarrow> u16 \<Rightarrow> u16 \<Rightarrow> bytes list io_result" where
  "push_consumer_run e cfg bind dial back rounds port t g =
     res_bind (expect ''[consumer] Could not bind own port'' (bind (''127.0.0.1:'' @ show_word port))) (\<lambda>_.
     res_bind (expect ''[consumer] Could not connect to broker'' (dial (client_broker_addr e cfg))) (\<lambda>pr.
     res_bind (push_consumer_register pr port t g) (\<lambda>_.
     res_bind (expect ''[consumer] Failed to accept broker dial-back'' back) (\<lambda>broker_conn.
     Inr (fst (receive_loop rounds broker_conn conn_new))))))"

definition produce_run ::
  "env \<Rightarrow> cluster_config option io_result \<Rightarrow> (string \<Rightarrow> peer io_result) \<Rightarrow> nat \<Rightarrow> string list \<Rightarrow> u16 \<Rightarrow> bool \<Rightarrow> bool \<Rightarrow> bool
    \<Rightarrow> (u64 \<times> u64) list io_result" where
  "produce_run e cfg dial rounds lines t simulate idempotent once =
     res_bind (expect ''[produce] Could not connect to broker'' (dial (resolve_leader_addr e cfg t 0))) (\<lambda>pr.
     Inr (if simulate then fst (simulate_loop rounds pr t idempotent once (producer_id e) 0 conn_new)
          else fst (stdin_loop pr t idempotent (producer_id e) 0 lines conn_new)))"

definition fetch_run ::
  "env \<Rightarrow> lz4_lib \<Rightarrow> cluster_config option io_result \<Rightarrow> (string \<Rightarrow> peer io_result) \<Rightarrow> nat \<Rightarrow> u16 \<Rightarrow> u16 \<Rightarrow> bool
    \<Rightarrow> (fetch_end \<times> log_record list) io_result" where
  "fetch_run e lz cfg dial rounds t g once =
     res_bind (expect ''[fetch] Could not connect to broker'' (dial (resolve_leader_addr e cfg t 0))) (\<lambda>pr.
     Inr (fst (cli_fetch_loop rounds lz pr t g once 0 conn_new)))"

section \<open>The binaries\<close>

text \<open>\<open>Vec::insert(1, _)\<close> panics on an empty vector; the first argument is the program.\<close>

definition insert_arg :: "string \<Rightarrow> string list \<Rightarrow> string list io_result" where
  "insert_arg s args =
     (if 1 \<le> length args then Inr (take 1 args @ s # drop 1 args) else Inl (Panic ''insertion index out of range''))"

definition bin_custom_dmq :: "string list \<Rightarrow> command io_result" where
  "bin_custom_dmq args = Inr (parse_command args)"

definition bin_dmq_admin :: "string list \<Rightarrow> command io_result" where
  "bin_dmq_admin args = res_bind (insert_arg ''admin'' args) (\<lambda>a. Inr (parse_command a))"

definition bin_dmq_broker :: "string list \<Rightarrow> command io_result" where
  "bin_dmq_broker args =
     (if length args = 1 then Inr (parse_command (args @ [''server'']))
      else res_bind (insert_arg ''server'' args) (\<lambda>a. Inr (parse_command a)))"

definition bin_dmq_consume :: "string list \<Rightarrow> command io_result" where
  "bin_dmq_consume args = res_bind (insert_arg ''fetch'' args) (\<lambda>a. Inr (parse_command a))"

definition bin_dmq_produce :: "string list \<Rightarrow> command io_result" where
  "bin_dmq_produce args = res_bind (insert_arg ''produce'' args) (\<lambda>a. Inr (parse_command a))"

section \<open>Properties\<close>

lemma load_logs_state: "load_logs b = Inr b' \<Longrightarrow> b_cluster_state b' = b_cluster_state b"
  by (metis broker.ext_inject broker.surjective broker.update_convs(2) load_logs_frame)

lemma open_cluster_state:
  assumes "open_with_cluster_and_id e now cluster i d = (Inr b, d')"
  shows "b_cluster_state b \<noteq> None \<longleftrightarrow> cluster \<noteq> None"
  using assms
  by (auto simp: open_with_cluster_and_id_def sbind_def split: sum.splits option.splits prod.splits dest!: load_logs_state)

lemma accept_task_Some:
  assumes "accept_task e lib r = Some (s, peer)"
  shows "\<exists>tcp. r = Inr (tcp, peer) \<and>
    (if tls_enabled e then \<exists>conf tls. s = TlsStream tls \<and> server_config e lib = Inr conf \<and> tl_accept lib conf tcp = Inr tls
     else s = PlainStream tcp)"
  using assms by (auto simp: accept_task_def tls_accept_def res_bind_Inr_iff split: sum.splits if_splits)



end
