(* ===== verification/Restart.thy ===== *)
theory Restart
  imports Storage
begin

text \<open>
  A restart of the broker.  The control files of the data directory (the topics, the groups
  of a topic, the partitions of a group, the configurations and the producers) always
  describe the topics in memory, whatever the broker does; so opening a broker on the
  directory that another one left gives the same topics, the same queues, the same logs and
  the same decisions on idempotent requests.
\<close>

section \<open>Control files\<close>

fun control :: "file_key \<Rightarrow> bool" where
  "control BrokerMetadata = True"
| "control (TopicMetadata t) = True"
| "control (CgroupMetadata t g) = True"
| "control (Idempotency t p pid) = True"
| "control (TopicConfigFile t) = True"
| "control _ = False"

definition same_control :: "data_dir \<Rightarrow> data_dir \<Rightarrow> bool" where
  "same_control d d' \<longleftrightarrow> (\<forall>k. control k \<longrightarrow> df_get d' (file_name k) = df_get d (file_name k))"

lemma same_control_refl [simp, intro]: "same_control d d"
  by (simp add: same_control_def)

lemma same_control_trans [trans]: "same_control d d' \<Longrightarrow> same_control d' d'' \<Longrightarrow> same_control d d''"
  by (simp add: same_control_def)

text \<open>Two control files are not the same file, and no control file belongs to a queue or a log.\<close>

lemma control_neq:
  assumes "control k"
  shows "file_name k \<noteq> partition_metadata_path t g p" "file_name k \<noteq> under_arr_path t g p"
    "file_name k \<noteq> under_size_path t g p" "file_name k \<noteq> log_data_path t p" "file_name k \<noteq> log_meta_path t p"
    "file_name k \<noteq> offset_metadata_path g t p" "file_name k \<noteq> cluster_state_path"
  using assms by (auto simp: path_keys)

lemma same_control_ops:
  "same_control d (snd (mq_open t g p d))" "same_control d (snd (snd (mq_append x (q, d))))"
  "same_control d (snd (snd (mq_pop_front (q, d))))" "same_control d (snd (append_record e t p rec d))"
  "same_control d (store_meta_offsets e t p bo no d)" "same_control d (store_committed_offset g t p off d)"
  "same_control d (cs_store st d)"
  by (simp_all add: same_control_def control_neq mq_open_frame append_record_frame mq_append_def mq_pop_front_def
      store_committed_offset_def cs_store_def write_u32_def write_u64_def store_simps Let_def)

lemma same_control_drain: "same_control d (snd (snd (snd (drain n st pt d))))"
proof (induction n arbitrary: st pt d)
  case (Suc n)
  obtain r st1 d1 where pop: "mq_pop_front (st, d) = (r, st1, d1)" by (cases "mq_pop_front (st, d)")
  with same_control_ops(3) [of d st] have 1: "same_control d d1" by simp
  show ?case
  proof (cases "\<exists>x. r = Inr (Some x)")
    case False
    then show ?thesis using pop 1 by (auto split: sum.split option.split)
  next
    case True
    then obtain x where x: "r = Inr (Some x)" by blast
    obtain r2 pt1 d2 where app: "mq_append x (pt, d1) = (r2, pt1, d2)" by (cases "mq_append x (pt, d1)")
    with same_control_ops(2) [of d1 x pt] 1 have 2: "same_control d d2" by (auto intro: same_control_trans)
    with pop x app Suc.IH [of d2 st1 pt1] show ?thesis
      by (cases r2) (auto simp: partition_append_def intro: same_control_trans)
  qed
qed simp

section \<open>The files of a topic\<close>

definition group_files :: "data_dir \<Rightarrow> u16 \<Rightarrow> u16 \<times> nat \<Rightarrow> bool" where
  "group_files d t gn \<longleftrightarrow> 0 < snd gn \<and> snd gn < 2 ^ 32 \<and> load_cgroup_partition_count d t (fst gn) = Inr (of_nat (snd gn))"

definition topic_shape :: "topic \<Rightarrow> (u16 \<times> nat) list" where
  "topic_shape tp = map (\<lambda>c. (cg_group_id c, length (cg_partitions c))) (tp_cgroups tp)"

definition topic_files :: "data_dir \<Rightarrow> u16 \<Rightarrow> topic \<Rightarrow> bool" where
  "topic_files d t tp \<longleftrightarrow> tp_topic_id tp = t \<and> distinct (map fst (topic_shape tp))
     \<and> load_topic_groups d t = Inr (map fst (topic_shape tp)) \<and> (\<forall>gn\<in>set (topic_shape tp). group_files d t gn)"

lemma key_loads:
  "df_get d' (file_name BrokerMetadata) = df_get d (file_name BrokerMetadata) \<Longrightarrow> load_broker_topics d' = load_broker_topics d"
  "df_get d' (file_name (TopicMetadata t)) = df_get d (file_name (TopicMetadata t)) \<Longrightarrow> load_topic_groups d' t = load_topic_groups d t"
  "df_get d' (file_name (CgroupMetadata t g)) = df_get d (file_name (CgroupMetadata t g)) \<Longrightarrow>
    load_cgroup_partition_count d' t g = load_cgroup_partition_count d t g"
  "df_get d' (file_name (TopicConfigFile t)) = df_get d (file_name (TopicConfigFile t)) \<Longrightarrow> load_topic_config d' t = load_topic_config d t"
  "df_get d' (file_name (Idempotency t p pid)) = df_get d (file_name (Idempotency t p pid)) \<Longrightarrow>
    load_idempotency_state d' t p pid = load_idempotency_state d t p pid"
  "(\<And>t p pid. df_get d' (file_name (Idempotency t p pid)) = df_get d (file_name (Idempotency t p pid))) \<Longrightarrow>
    idempotency_files_whole d' = idempotency_files_whole d"
  by (simp_all add: file_name.simps load_broker_topics_def load_topic_groups_def load_ids_def load_cgroup_partition_count_def
      load_topic_config_def load_idempotency_state_def idempotency_files_whole_def)

lemma control_loads:
  assumes "same_control d d'"
  shows "load_broker_topics d' = load_broker_topics d" "load_topic_groups d' t = load_topic_groups d t"
    "load_cgroup_partition_count d' t g = load_cgroup_partition_count d t g" "load_topic_config d' t = load_topic_config d t"
    "load_idempotency_state d' t p pid = load_idempotency_state d t p pid"
    "idempotency_files_whole d' = idempotency_files_whole d"
  using assms by (auto simp: same_control_def intro!: key_loads)

lemma topic_files_same: "same_control d d' \<Longrightarrow> topic_files d' t tp = topic_files d t tp"
  by (simp add: topic_files_def group_files_def control_loads)

lemma topic_files_shape:
  "topic_shape tp' = topic_shape tp \<Longrightarrow> tp_topic_id tp' = tp_topic_id tp \<Longrightarrow> topic_files d t tp' = topic_files d t tp"
  by (simp add: topic_files_def)

text \<open>An operation on a topic that keeps its groups and the number of their partitions, and touches no control file.\<close>

definition keeps_shape :: "(topic \<times> data_dir \<Rightarrow> 'a \<times> topic \<times> data_dir) \<Rightarrow> bool" where
  "keeps_shape f \<longleftrightarrow> (\<forall>tp d. topic_shape (fst (snd (f (tp, d)))) = topic_shape tp
     \<and> tp_topic_id (fst (snd (f (tp, d)))) = tp_topic_id tp \<and> same_control d (snd (snd (f (tp, d)))))"

lemma keeps_shapeD:
  assumes "keeps_shape f" and "f (tp, d) = (r, tp', d')"
  shows "topic_shape tp' = topic_shape tp" and "tp_topic_id tp' = tp_topic_id tp" and "same_control d d'"
  using assms(1) [unfolded keeps_shape_def, rule_format, of tp d] assms(2) by simp_all

lemma keeps_shape_sbind:
  assumes f: "keeps_shape f" and k: "\<And>a. keeps_shape (k a)"
  shows "keeps_shape (\<lambda>s. sbind (f s) (\<lambda>a s1. k a s1))"
  unfolding keeps_shape_def
proof (intro allI)
  fix tp d
  obtain r tp1 d1 where 1: "f (tp, d) = (r, tp1, d1)" by (cases "f (tp, d)")
  note f1 = keeps_shapeD [OF f 1]
  have "topic_shape (fst (snd (k a (tp1, d1)))) = topic_shape tp1 \<and> tp_topic_id (fst (snd (k a (tp1, d1)))) = tp_topic_id tp1
      \<and> same_control d1 (snd (snd (k a (tp1, d1))))" for a
    using k [of a] by (simp add: keeps_shape_def)
  with 1 f1 show "topic_shape (fst (snd (sbind (f (tp, d)) (\<lambda>a s1. k a s1)))) = topic_shape tp
      \<and> tp_topic_id (fst (snd (sbind (f (tp, d)) (\<lambda>a s1. k a s1)))) = tp_topic_id tp
      \<and> same_control d (snd (snd (sbind (f (tp, d)) (\<lambda>a s1. k a s1))))"
    by (cases r) (auto intro: same_control_trans)
qed

lemma map_update_alike: "f y = f (xs ! i) \<Longrightarrow> map f (xs[i := y]) = map f xs"
  by (cases "i < length xs") (auto simp: nth_list_update intro!: nth_equalityI)

lemma shape_set_partition:
  "topic_shape (tp\<lparr>tp_staging := st, tp_cgroups := (tp_cgroups tp)[i := (tp_cgroups tp ! i)\<lparr>cg_partitions := (cg_partitions (tp_cgroups tp ! i))[j := q]\<rparr>]\<rparr>)
    = topic_shape tp"
  "topic_shape (tp\<lparr>tp_cgroups := (tp_cgroups tp)[i := (tp_cgroups tp ! i)\<lparr>cg_partitions := (cg_partitions (tp_cgroups tp ! i))[j := q]\<rparr>]\<rparr>)
    = topic_shape tp"
  by (simp_all add: topic_shape_def map_update_alike)

lemma keeps_shape_queues:
  "keeps_shape (append_to_staging x)" "keeps_shape (pop_in_group g i)" "keeps_shape (route_group x k)"
proof -
  show "keeps_shape (append_to_staging x)"
    using same_control_ops(2) by (auto simp: keeps_shape_def append_to_staging_def topic_shape_def split: prod.split) (metis snd_conv)
  show "keeps_shape (pop_in_group g i)"
    using same_control_ops(3)
    by (auto simp: keeps_shape_def pop_in_group_def partition_pop_front_def shape_set_partition Let_def split: option.split prod.split)
      (metis snd_conv)
  have "topic_shape (fst (snd (route_group x k (tp, d)))) = topic_shape tp \<and> tp_topic_id (fst (snd (route_group x k (tp, d)))) = tp_topic_id tp
      \<and> same_control d (snd (snd (route_group x k (tp, d))))" for tp d
  proof (cases "smallest_partition_index (tp_cgroups tp ! k)")
    case (Inr idx)
    let ?pt = "cg_partitions (tp_cgroups tp ! k) ! idx"
    obtain r st pt d1 where dr: "drain QUEUE_CAPACITY (tp_staging tp) ?pt d = (r, st, pt, d1)"
      by (cases "drain QUEUE_CAPACITY (tp_staging tp) ?pt d")
    with same_control_drain [of d QUEUE_CAPACITY "tp_staging tp" ?pt] have 1: "same_control d d1" by simp
    obtain r2 pt1 d2 where app: "mq_append x (pt, d1) = (r2, pt1, d2)" by (cases "mq_append x (pt, d1)")
    with same_control_ops(2) [of d1 x pt] 1 have "same_control d d2" by (auto intro: same_control_trans)
    with 1 Inr dr app show ?thesis
      by (cases r) (simp_all add: route_group_def Let_def partition_append_def shape_set_partition)
  qed (simp add: route_group_def Let_def)
  then show "keeps_shape (route_group x k)" by (simp add: keeps_shape_def)
qed

lemma keeps_shape_route_groups: "keeps_shape (route_groups x i n)"
proof (induction n arbitrary: i)
  case (Suc n)
  show ?case
    unfolding route_groups.simps(2) [abs_def]
    using keeps_shape_sbind [OF keeps_shape_queues(3) [of x i], of "\<lambda>_. route_groups x (Suc i) n"] Suc
    by (simp add: keeps_shape_def)
qed (simp add: keeps_shape_def)

lemma keeps_shape_produce:
  "keeps_shape (\<lambda>(tp, d). if tp_cgroups tp = []
     then sbind (append_to_staging x (tp, d)) (\<lambda>off s. (Inr (0, max log_offset off), s))
     else sbind (route_groups x 0 (length (tp_cgroups tp)) (tp, d)) (\<lambda>_ s. (Inr (0, log_offset), s)))"
  using keeps_shape_queues(1) [of x] keeps_shape_route_groups [of x]
  by (auto simp: keeps_shape_def sbind_def split: sum.split)

section \<open>Creating groups and partitions\<close>

fun of_topic :: "u16 \<Rightarrow> file_key \<Rightarrow> bool" where
  "of_topic t (TopicMetadata t') = (t' = t)"
| "of_topic t (CgroupMetadata t' g) = (t' = t)"
| "of_topic t _ = False"

definition same_but :: "u16 \<Rightarrow> data_dir \<Rightarrow> data_dir \<Rightarrow> bool" where
  "same_but t d d' \<longleftrightarrow> (\<forall>k. control k \<and> \<not> of_topic t k \<longrightarrow> df_get d' (file_name k) = df_get d (file_name k))"

lemma same_but_trans [trans]: "same_but t d d' \<Longrightarrow> same_but t d' d'' \<Longrightarrow> same_but t d d''"
  by (simp add: same_but_def)

lemma same_control_but: "same_control d d' \<Longrightarrow> same_but t d d'"
  by (simp add: same_but_def same_control_def)

lemma same_but_stores:
  "same_but t d (store_cgroup_partition_count t g n d)" "same_but t d (store_topic_groups t ids d)"
proof -
  have "file_name k \<noteq> cgroup_metadata_path t g" "file_name k \<noteq> topic_metadata_path t" if "control k \<and> \<not> of_topic t k" for k
    using that by (auto simp: path_keys)
  then show "same_but t d (store_cgroup_partition_count t g n d)" "same_but t d (store_topic_groups t ids d)"
    by (simp_all add: same_but_def store_cgroup_partition_count_def store_topic_groups_def store_ids_frame write_u32_def store_simps Let_def)
qed

lemma load_cgroup_count_stored:
  "load_cgroup_partition_count (store_cgroup_partition_count t g n d) t' g'
    = (if (t', g') = (t, g) then Inr n else load_cgroup_partition_count d t' g')"
proof -
  have "\<exists>rest. write_at 0 (to_be_bytes n) c = to_be_bytes n @ rest" for c by (simp add: write_at_def)
  then have "file_read_u32 (write_at 0 (to_be_bytes n) c) 0 = Inr n" for c by (metis file_read_first(2))
  then show ?thesis
    by (simp add: load_cgroup_partition_count_def store_cgroup_partition_count_def write_u32_def store_simps path_keys Let_def)
qed

lemma load_groups_stored:
  "load_topic_groups (store_cgroup_partition_count t g n d) t' = load_topic_groups d t'"
  "load_cgroup_partition_count (store_topic_groups t ids d) t' g' = load_cgroup_partition_count d t' g'"
  by (simp_all add: load_topic_groups_def load_ids_def load_cgroup_partition_count_def store_cgroup_partition_count_def
      store_topic_groups_def store_ids_frame write_u32_def store_simps path_keys Let_def)

definition keeps_files :: "u16 \<Rightarrow> (topic \<times> data_dir \<Rightarrow> 'a \<times> topic \<times> data_dir) \<Rightarrow> bool" where
  "keeps_files t f \<longleftrightarrow> (\<forall>tp d. topic_files d t tp \<longrightarrow>
     topic_files (snd (snd (f (tp, d)))) t (fst (snd (f (tp, d)))) \<and> same_but t d (snd (snd (f (tp, d)))))"

lemma keeps_shape_files:
  assumes "keeps_shape f"
  shows "keeps_files t f"
  unfolding keeps_files_def
proof (intro allI impI)
  fix tp d
  assume "topic_files d t tp"
  moreover obtain r tp' d' where f: "f (tp, d) = (r, tp', d')" by (cases "f (tp, d)")
  note k = keeps_shapeD [OF assms f]
  ultimately show "topic_files (snd (snd (f (tp, d)))) t (fst (snd (f (tp, d)))) \<and> same_but t d (snd (snd (f (tp, d))))"
    using topic_files_same [OF k(3)] topic_files_shape [OF k(1,2)] same_control_but [OF k(3)] f by simp
qed

lemma few_ids: "distinct (ids :: u16 list) \<Longrightarrow> length ids < 2 ^ 32"
proof -
  assume "distinct ids"
  then have "length ids = card (set ids)" by (simp add: distinct_card)
  also have "\<dots> \<le> card (UNIV :: u16 set)" by (simp add: card_mono)
  finally show ?thesis by (simp add: card_word)
qed

lemma cgroup_create_eq:
  "\<exists>q d1. cgroup_create_new t g d = (Inr \<lparr>cg_group_id = g, cg_partitions = [q], cg_consumer_count = 0\<rparr>, d1)
    \<and> same_control (store_cgroup_partition_count t g 1 d) d1"
  using mq_open_ok [of t g 1 "store_cgroup_partition_count t g 1 d"]
    same_control_ops(1) [of "store_cgroup_partition_count t g 1 d" t g 1]
  by (auto simp: cgroup_create_new_def partition_open_def sbind_def)

lemma keeps_files_find_or_create: "keeps_files t (find_or_create_group g)"
  unfolding keeps_files_def
proof (intro allI impI)
  fix tp d
  assume tf: "topic_files d t tp"
  show "topic_files (snd (snd (find_or_create_group g (tp, d)))) t (fst (snd (find_or_create_group g (tp, d))))
    \<and> same_but t d (snd (snd (find_or_create_group g (tp, d))))"
  proof (cases "list_ex (\<lambda>c. cg_group_id c = g) (tp_cgroups tp)")
    case True
    with tf show ?thesis by (simp add: find_or_create_group_def same_but_def)
  next
    case False
    have t: "tp_topic_id tp = t" using tf by (simp add: topic_files_def)
    obtain q d1 where c: "cgroup_create_new t g d = (Inr \<lparr>cg_group_id = g, cg_partitions = [q], cg_consumer_count = 0\<rparr>, d1)"
      and d1: "same_control (store_cgroup_partition_count t g 1 d) d1" using cgroup_create_eq by blast
    let ?tp = "tp\<lparr>tp_cgroups := tp_cgroups tp @ [\<lparr>cg_group_id = g, cg_partitions = [q], cg_consumer_count = 0\<rparr>]\<rparr>"
    have eq: "find_or_create_group g (tp, d) = (Inr True, ?tp, store_topic_groups t (map fst (topic_shape ?tp)) d1)"
      using False c t by (simp add: find_or_create_group_def persist_groups_def topic_shape_def comp_def)
    have sh: "topic_shape ?tp = topic_shape tp @ [(g, 1)]" by (simp add: topic_shape_def)
    have new: "g \<notin> fst ` set (topic_shape tp)" using False by (auto simp: topic_shape_def list_ex_iff)
    then have dist: "distinct (map fst (topic_shape ?tp))" using tf by (simp add: sh topic_files_def)
    have "group_files (store_topic_groups t (map fst (topic_shape ?tp)) d1) t gn" if "gn \<in> set (topic_shape ?tp)" for gn
      using that new tf
      by (auto simp: sh group_files_def topic_files_def load_groups_stored control_loads [OF d1] load_cgroup_count_stored)
    with dist t have "topic_files (store_topic_groups t (map fst (topic_shape ?tp)) d1) t ?tp"
      using topic_groups.load_store [OF few_ids [OF dist]] by (simp add: topic_files_def)
    moreover have "same_but t d (store_topic_groups t (map fst (topic_shape ?tp)) d1)"
      using same_but_stores(1) same_control_but [OF d1] same_but_stores(2) by (blast intro: same_but_trans)
    ultimately show ?thesis by (simp add: eq)
  qed
qed

lemma assign_partition_cases:
  "\<exists>c q d1. same_control d d1 \<and> (assign_partition t (g, d) = (Inr c, g\<lparr>cg_consumer_count := cg_consumer_count g + 1\<rparr>, d)
    \<or> Suc (length (cg_partitions g)) < 2 ^ 32
      \<and> assign_partition t (g, d) = (Inr c, g\<lparr>cg_consumer_count := cg_consumer_count g + 1, cg_partitions := cg_partitions g @ [q]\<rparr>,
          store_cgroup_partition_count t (cg_group_id g) (of_nat (Suc (length (cg_partitions g)))) d1))"
proof -
  let ?p = "of_nat (length (cg_partitions g)) + 1"
  obtain q d1 where o: "mq_open t (cg_group_id g) ?p d = (Inr q, d1)"
    using mq_open_ok [of t "cg_group_id g" ?p d] by (metis prod.collapse)
  then have d1: "same_control d d1" using same_control_ops(1) [of d t "cg_group_id g" ?p] by simp
  show ?thesis
  proof (cases "length (cg_partitions g) < unat (cg_consumer_count g + 1)")
    case True
    moreover have "unat (cg_consumer_count g + 1) < 2 ^ LENGTH(32)" by (rule unsigned_less)
    ultimately have "Suc (length (cg_partitions g)) < 2 ^ 32" by simp
    with True o d1 show ?thesis
      by (intro exI [of _ "of_nat (length (cg_partitions g))"] exI [of _ q] exI [of _ d1])
        (simp add: assign_partition_def partition_open_def Let_def)
  next
    case False
    with d1 show ?thesis by (auto simp: assign_partition_def Let_def)
  qed
qed

lemma group_files_grow:
  assumes "\<forall>gn\<in>set sh. group_files d t gn" and "distinct (map fst sh)" and "i < length sh" and "same_control d d1"
    and "0 < n" and "n < 2 ^ 32"
  shows "\<forall>gn\<in>set (sh[i := (fst (sh ! i), n)]). group_files (store_cgroup_partition_count t (fst (sh ! i)) (of_nat n) d1) t gn"
proof -
  have "fst (sh ! j) \<noteq> fst (sh ! i)" if "j < length sh" "j \<noteq> i" for j
    using nth_eq_iff_index_eq [OF assms(2), of j i] assms(3) that by simp
  then show ?thesis
    using assms(1,3,5,6)
    by (auto simp: all_set_conv_all_nth nth_list_update group_files_def load_cgroup_count_stored control_loads [OF assms(4)])
qed

lemma keeps_files_assign: "keeps_files t (assign_in_group t g)"
  unfolding keeps_files_def
proof (intro allI impI)
  fix tp d
  assume tf: "topic_files d t tp"
  show "topic_files (snd (snd (assign_in_group t g (tp, d)))) t (fst (snd (assign_in_group t g (tp, d))))
    \<and> same_but t d (snd (snd (assign_in_group t g (tp, d))))"
  proof (cases "group_index tp g")
    case None
    with tf show ?thesis by (simp add: assign_in_group_def same_but_def)
  next
    case (Some i)
    let ?g = "tp_cgroups tp ! i" and ?n = "Suc (length (cg_partitions (tp_cgroups tp ! i)))"
    have i: "i < length (tp_cgroups tp)" using group_index_bound [OF Some] by simp
    obtain c q d1 where d1: "same_control d d1"
      and cases: "assign_partition t (?g, d) = (Inr c, ?g\<lparr>cg_consumer_count := cg_consumer_count ?g + 1\<rparr>, d)
        \<or> ?n < 2 ^ 32 \<and> assign_partition t (?g, d) = (Inr c, ?g\<lparr>cg_consumer_count := cg_consumer_count ?g + 1, cg_partitions := cg_partitions ?g @ [q]\<rparr>,
            store_cgroup_partition_count t (cg_group_id ?g) (of_nat ?n) d1)"
      using assign_partition_cases by blast
    from cases show ?thesis
    proof (elim disjE conjE)
      assume a: "assign_partition t (?g, d) = (Inr c, ?g\<lparr>cg_consumer_count := cg_consumer_count ?g + 1\<rparr>, d)"
      have "topic_shape (tp\<lparr>tp_cgroups := (tp_cgroups tp)[i := ?g\<lparr>cg_consumer_count := cg_consumer_count ?g + 1\<rparr>]\<rparr>) = topic_shape tp"
        by (simp add: topic_shape_def map_update_alike)
      with a Some tf show ?thesis by (simp add: assign_in_group_def topic_files_def same_but_def)
    next
      let ?g' = "?g\<lparr>cg_consumer_count := cg_consumer_count ?g + 1, cg_partitions := cg_partitions ?g @ [q]\<rparr>"
      let ?d = "store_cgroup_partition_count t (cg_group_id ?g) (of_nat ?n) d1" and ?tp = "tp\<lparr>tp_cgroups := (tp_cgroups tp)[i := ?g']\<rparr>"
      assume n: "?n < 2 ^ 32" and a: "assign_partition t (?g, d) = (Inr c, ?g', ?d)"
      have eq: "assign_in_group t g (tp, d) = (Inr c, ?tp, ?d)" using Some a by (simp add: assign_in_group_def)
      have sh: "topic_shape ?tp = (topic_shape tp)[i := (cg_group_id ?g, ?n)]" by (simp add: topic_shape_def map_update)
      have ids: "map fst (topic_shape ?tp) = map fst (topic_shape tp)"
        using i by (simp add: sh map_update_alike topic_shape_def)
      have nth: "topic_shape tp ! i = (cg_group_id ?g, length (cg_partitions ?g))" "i < length (topic_shape tp)"
        using i by (simp_all add: topic_shape_def)
      have "\<forall>gn\<in>set (topic_shape ?tp). group_files ?d t gn"
        using group_files_grow [of "topic_shape tp" d t i d1 ?n] tf nth n d1 unfolding sh by (simp add: topic_files_def)
      then have "topic_files ?d t ?tp"
        using tf ids by (simp add: topic_files_def load_groups_stored control_loads [OF d1])
      moreover have "same_but t d ?d" using same_control_but [OF d1] same_but_stores(1) by (blast intro: same_but_trans)
      ultimately show ?thesis by (simp add: eq)
    qed
  qed
qed

section \<open>The control files describe the broker\<close>

definition topic_stored :: "broker \<Rightarrow> u16 \<Rightarrow> bool" where
  "topic_stored b t \<longleftrightarrow> (case hm_get (b_topics b) t of
     Some tp \<Rightarrow> topic_files (b_dir b) t tp | None \<Rightarrow> load_topic_groups (b_dir b) t = Inr [])"

fun config_as :: "u16 \<Rightarrow> (u16 \<times> u32) option io_result \<Rightarrow> topic_config \<Rightarrow> bool" where
  "config_as t (Inl _) c \<longleftrightarrow> False"
| "config_as t (Inr None) c \<longleftrightarrow> c = topic_config_default_for t"
| "config_as t (Inr (Some (pc, mr))) c \<longleftrightarrow> tc_partition_count c = pc \<and> tc_max_records c = mr"

definition config_stored :: "broker \<Rightarrow> u16 \<Rightarrow> bool" where
  "config_stored b t \<longleftrightarrow> config_as t (load_topic_config (b_dir b) t) (broker_topic_config b t)"

text \<open>The topics in \<open>T\<close> may have a configuration on disk before they exist.\<close>

definition stored_with :: "u16 set \<Rightarrow> broker \<Rightarrow> bool" where
  "stored_with T b \<longleftrightarrow> distinct (hm_keys (b_topics b)) \<and> load_broker_topics (b_dir b) = Inr (sort (hm_keys (b_topics b)))
     \<and> (\<forall>t. topic_stored b t) \<and> (\<forall>t. config_stored b t)
     \<and> (\<forall>t. load_topic_config (b_dir b) t \<noteq> Inr None \<longrightarrow> t \<in> T \<or> hm_contains (b_topics b) t)
     \<and> idem_synced (b_idempotency b, b_dir b)"

abbreviation stored :: "broker \<Rightarrow> bool" where
  "stored \<equiv> stored_with {}"

lemma stored_with_mono: "stored_with T b \<Longrightarrow> T \<subseteq> T' \<Longrightarrow> stored_with T' b"
  unfolding stored_with_def by blast

text \<open>A change of anything else.\<close>

definition quiet :: "broker \<Rightarrow> broker \<Rightarrow> bool" where
  "quiet b b' \<longleftrightarrow> same_control (b_dir b) (b_dir b') \<and> b_topics b' = b_topics b
     \<and> (\<forall>t. broker_topic_config b' t = broker_topic_config b t) \<and> b_idempotency b' = b_idempotency b"

lemma stored_quiet:
  assumes "quiet b b'" and "stored_with T b"
  shows "stored_with T b'"
proof -
  have same: "same_control (b_dir b) (b_dir b')" using assms(1) by (simp add: quiet_def)
  have "topic_stored b' t = topic_stored b t" for t
    using assms(1) by (simp add: quiet_def topic_stored_def control_loads [OF same] topic_files_same [OF same] split: option.split)
  with assms show ?thesis
    by (simp add: quiet_def stored_with_def config_stored_def idem_synced_def control_loads [OF same])
qed

lemma quiet_refl [simp, intro]: "quiet b b"
  by (simp add: quiet_def)

lemma quiet_trans [trans]: "quiet b b' \<Longrightarrow> quiet b' b'' \<Longrightarrow> quiet b b''"
  by (auto simp: quiet_def intro: same_control_trans)

lemma quiet_simps [simp]:
  "quiet b (b'\<lparr>b_logs := l\<rparr>) = quiet b b'" "quiet b (b'\<lparr>b_metrics := m\<rparr>) = quiet b b'" "quiet b (b'\<lparr>b_groups := gs\<rparr>) = quiet b b'"
  "quiet b (b'\<lparr>b_committed_offsets := c\<rparr>) = quiet b b'" "quiet b (b'\<lparr>b_cluster_state := s\<rparr>) = quiet b b'"
  "quiet b (b'\<lparr>b_cluster := v\<rparr>) = quiet b b'" "quiet b (ensure_log_with_config t p b') = quiet b b'"
  by (simp_all add: quiet_def broker_topic_config_def ensure_log_with_config_def)

lemma quiet_dir: "same_control (b_dir b) d \<Longrightarrow> quiet b (b\<lparr>b_dir := d\<rparr>)"
  by (simp add: quiet_def broker_topic_config_def)

lemma quiet_write_record: "quiet b (snd (write_record e t p rec b))"
proof -
  obtain r d where a: "append_record e t p rec (b_dir b) = (r, d)" by (cases "append_record e t p rec (b_dir b)")
  with same_control_ops(4) [of "b_dir b" e t p rec] have d: "same_control (b_dir b) d" by simp
  then have 1: "quiet b (b\<lparr>b_dir := d\<rparr>)" by (rule quiet_dir)
  have "quiet (b\<lparr>b_dir := d\<rparr>) (persist_log_meta e t p (b\<lparr>b_dir := d\<rparr>))"
    using quiet_dir [OF same_control_ops(5), of "b\<lparr>b_dir := d\<rparr>"] by (simp add: persist_log_meta_def split: option.split)
  with 1 a show ?thesis by (cases r) (auto simp: write_record_def intro: quiet_trans)
qed

lemma quiet_logs:
  "quiet b (snd (apply_replica e t p off x b))" "quiet b (snd (fetch_log e freq b))" "quiet b (broker_commit_offset creq b)"
  "quiet b (snd (broker_load_committed_offset g t p b))"
proof -
  have "quiet b (snd (write_record e t p rec ((ensure_log_with_config t p b)\<lparr>b_logs := l\<rparr>)))" for rec l
    using quiet_write_record by (rule quiet_trans [rotated]) simp
  then show "quiet b (snd (apply_replica e t p off x b))"
    by (simp add: apply_replica_def Let_def case_prod_unfold split: option.split)
  show "quiet b (snd (fetch_log e freq b))" by (simp add: fetch_log_def ensure_log_def Let_def split: option.split)
  show "quiet b (broker_commit_offset creq b)"
    using same_control_ops(6) by (simp add: broker_commit_offset_def quiet_def broker_topic_config_def Let_def)
  show "quiet b (snd (broker_load_committed_offset g t p b))"
    by (simp add: broker_load_committed_offset_def sbind_def split: option.split sum.split)
qed

lemma quiet_control:
  "quiet b (snd (broker_group_heartbeat e now greq b))"
  "quiet b (snd (handle_broker_heartbeat e now breq b))" "quiet b (snd (run_failover_at e now b))"
  "quiet b (controller_tick e now b)" "quiet b (apply_cluster_state st b)"
proof -
  have sync: "quiet b (sync_cluster_view b') = quiet b b'" for b b'
    by (simp add: sync_cluster_view_def split: option.split)
  have store: "quiet b (b'\<lparr>b_dir := cs_store st (b_dir b')\<rparr>)" if "quiet b b'" for b b' st
    using that quiet_dir [OF same_control_ops(7)] by (rule quiet_trans)
  show "quiet b (snd (broker_group_heartbeat e now greq b))"
    by (auto simp: broker_group_heartbeat_def Let_def case_prod_unfold split: option.split)
  show "quiet b (snd (handle_broker_heartbeat e now breq b))"
    using store [of b "b\<lparr>b_cluster_state := s\<rparr>" for s]
    by (simp add: handle_broker_heartbeat_def Let_def case_prod_unfold sync split: option.split)
  show failover: "quiet b (snd (run_failover_at e now b))" for b
    using store [of b "b\<lparr>b_cluster_state := s\<rparr>" for s]
    by (simp add: run_failover_at_def Let_def case_prod_unfold sync split: option.split)
  show "quiet b (controller_tick e now b)"
    using quiet_trans [OF _ failover, of b "b\<lparr>b_cluster_state := s\<rparr>" for s] by (simp add: controller_tick_def split: option.split)
  show "quiet b (apply_cluster_state st b)"
    using store [of b b] by (simp add: apply_cluster_state_def sync)
qed

section \<open>Every operation keeps the control files\<close>

lemma stored_sbind:
  "stored (snd r) \<Longrightarrow> (\<And>a. fst r = Inr a \<Longrightarrow> stored (snd (f a (snd r)))) \<Longrightarrow> stored (snd (sbind r f))"
  by (auto simp: sbind_def split: sum.split)

lemma store_topics_loads:
  "load_topic_groups (store_broker_topics ids d) t = load_topic_groups d t"
  "load_cgroup_partition_count (store_broker_topics ids d) t g = load_cgroup_partition_count d t g"
  "load_topic_config (store_broker_topics ids d) t = load_topic_config d t"
  "idem_synced (st, store_broker_topics ids d) = idem_synced (st, d)"
proof -
  have other: "df_get (store_broker_topics ids d) (file_name k) = df_get d (file_name k)" if "k \<noteq> BrokerMetadata" for k
    using that by (simp add: store_broker_topics_def store_ids_frame path_keys)
  show "load_topic_groups (store_broker_topics ids d) t = load_topic_groups d t"
    "load_cgroup_partition_count (store_broker_topics ids d) t g = load_cgroup_partition_count d t g"
    "load_topic_config (store_broker_topics ids d) t = load_topic_config d t"
    by (auto intro!: key_loads other)
  have "idempotency_files_whole (store_broker_topics ids d) = idempotency_files_whole d"
    "load_idempotency_state (store_broker_topics ids d) t p pid = load_idempotency_state d t p pid" for t p pid
    by (auto intro!: key_loads other)
  then show "idem_synced (st, store_broker_topics ids d) = idem_synced (st, d)" by (simp add: idem_synced_def)
qed

lemma stored_topic_mut:
  assumes "stored_with {t} b"
  shows "stored (snd (topic_mut t b))"
proof (cases "hm_contains (b_topics b) t")
  case True
  then have "stored b" using assms by (auto simp: stored_with_def)
  then have "stored (ensure_log_with_config t 0 b)" by (rule stored_quiet [rotated]) simp
  with True show ?thesis by (simp add: topic_mut_def)
next
  case False
  let ?keys = "hm_keys (b_topics b) @ [t]"
  obtain tp d where tc: "topic_create t (b_dir b) = (Inr tp, d)" "tp_topic_id tp = t" "tp_cgroups tp = []" "same_control (b_dir b) d"
    using mq_open_ok [of t STAGING_GROUP_ID STAGING_PARTITION_ID "b_dir b"]
      same_control_ops(1) [of "b_dir b" t STAGING_GROUP_ID STAGING_PARTITION_ID]
    by (auto simp: topic_create_def sbind_def)
  let ?b = "persist_topics (b\<lparr>b_dir := d, b_topics := hm_insert t tp (b_topics b),
     b_topic_configs := hm_or_insert t (topic_config_default_for t) (b_topic_configs b)\<rparr>)"
  have none: "hm_get (b_topics b) t = None" using False by (simp add: hm_contains_def)
  then have keys: "hm_keys (hm_insert t tp (b_topics b)) = ?keys" by (simp add: hm_insert_fresh)
  have dist: "distinct ?keys" using assms False by (simp add: stored_with_def hm_contains_iff)
  have dir: "b_dir ?b = store_broker_topics (sort ?keys) d" using keys by (simp add: persist_topics_def)
  have cfg: "broker_topic_config ?b t' = broker_topic_config b t'" for t'
    by (simp add: broker_topic_config_def persist_topics_def split: option.split)
  have groups: "load_topic_groups (b_dir b) t = Inr []" using assms none by (auto simp: stored_with_def topic_stored_def dest: spec [of _ t])
  have "stored ?b"
    unfolding stored_with_def
  proof (intro conjI)
    show "load_broker_topics (b_dir ?b) = Inr (sort (hm_keys (b_topics ?b)))"
      using broker_topics.load_store [of "sort ?keys"] few_ids [of "sort ?keys"] dist dir keys by (simp add: persist_topics_def)
    show "\<forall>t'. topic_stored ?b t'"
      using assms groups tc(2,3)
      by (auto simp: stored_with_def topic_stored_def topic_files_def group_files_def topic_shape_def dir store_topics_loads
          control_loads [OF tc(4)] persist_topics_def cong: option.case_cong)
    show "\<forall>t'. config_stored ?b t'"
      using assms by (simp add: stored_with_def config_stored_def dir store_topics_loads control_loads [OF tc(4)] cfg)
    show "\<forall>t'. load_topic_config (b_dir ?b) t' \<noteq> Inr None \<longrightarrow> t' \<in> {} \<or> hm_contains (b_topics ?b) t'"
      using assms by (auto simp: stored_with_def dir store_topics_loads control_loads [OF tc(4)] persist_topics_def)
    show "idem_synced (b_idempotency ?b, b_dir ?b)"
      using assms unfolding dir store_topics_loads
      by (simp add: stored_with_def idem_synced_def control_loads [OF tc(4)] persist_topics_def)
  qed (use dist keys in \<open>simp add: persist_topics_def\<close>)
  then have "stored (ensure_log_with_config t 0 ?b)" by (rule stored_quiet [rotated]) simp
  with False tc(1) show ?thesis by (simp add: topic_mut_def Let_def)
qed

lemma same_but_loads:
  assumes "same_but t d d'"
  shows "load_broker_topics d' = load_broker_topics d" "t' \<noteq> t \<Longrightarrow> load_topic_groups d' t' = load_topic_groups d t'"
    "t' \<noteq> t \<Longrightarrow> load_cgroup_partition_count d' t' g = load_cgroup_partition_count d t' g"
    "load_topic_config d' t' = load_topic_config d t'"
    "load_idempotency_state d' t' p pid = load_idempotency_state d t' p pid" "idempotency_files_whole d' = idempotency_files_whole d"
  using assms by (auto simp: same_but_def intro!: key_loads)

lemma stored_with_topic:
  assumes "keeps_files t f" and "stored b"
  shows "stored (snd (with_topic t f b))"
proof (cases "hm_get (b_topics b) t")
  case None
  with assms(2) show ?thesis by (simp add: with_topic_def)
next
  case (Some tp)
  obtain r tp' d' where f: "f (tp, b_dir b) = (r, tp', d')" by (cases "f (tp, b_dir b)")
  have "topic_files (b_dir b) t tp" using assms(2) Some by (auto simp: stored_with_def topic_stored_def dest: spec [of _ t])
  then have tp': "topic_files d' t tp'" and d': "same_but t (b_dir b) d'"
    using assms(1) [unfolded keeps_files_def, rule_format, of "b_dir b" tp] f by simp_all
  let ?b = "b\<lparr>b_topics := hm_insert t tp' (b_topics b), b_dir := d'\<rparr>"
  have keys: "hm_keys (hm_insert t tp' (b_topics b)) = hm_keys (b_topics b)"
    using Some by (simp add: update_keys) (metis domI dom_map_of_conv_image_fst)
  have other: "topic_files d' t' tp2 = topic_files (b_dir b) t' tp2" if "t' \<noteq> t" for t' tp2
    using that by (simp add: topic_files_def group_files_def same_but_loads [OF d'])
  have "topic_stored ?b t'" for t'
  proof -
    have "topic_stored b t'" using assms(2) by (simp add: stored_with_def)
    then show ?thesis
      using tp' other same_but_loads(2) [OF d'] by (cases "hm_get (b_topics b) t'") (simp_all add: topic_stored_def)
  qed
  with assms(2) have "stored ?b"
    by (auto simp: stored_with_def keys same_but_loads [OF d'] config_stored_def idem_synced_def broker_topic_config_def)
  with Some f show ?thesis by (simp add: with_topic_def)
qed

lemmas stored_on_topic =
  stored_with_topic [OF keeps_files_find_or_create] stored_with_topic [OF keeps_files_assign]
  stored_with_topic [OF keeps_shape_files [OF keeps_shape_queues(2)]] stored_with_topic [OF keeps_shape_files [OF keeps_shape_produce]]

lemma stored_known: "stored b \<Longrightarrow> stored (snd (topic_mut t b))"
  by (rule stored_topic_mut) (erule stored_with_mono, simp)

lemma stored_append_log: "stored b \<Longrightarrow> stored (snd (append_log e t p x b))"
proof -
  assume "stored b"
  then have 1: "stored (snd (topic_mut t b))" by (rule stored_known)
  have e: "quiet b1 (ensure_log_with_config t p b1)" for b1 by simp
  have q: "quiet b1 (snd (sbind (write_record e t p rec ((ensure_log_with_config t p b1)\<lparr>b_logs := l\<rparr>))
      (\<lambda>_ b4. (Inr off, b4\<lparr>b_metrics := record_produce (length x) (b_metrics b4)\<rparr>))))" for b1 rec l and off :: u64
    using quiet_trans [OF _ quiet_write_record, of b1 "(ensure_log_with_config t p b1)\<lparr>b_logs := l\<rparr>"]
    by (simp add: sbind_def split: sum.split)
  have "stored (snd (let b2 = ensure_log_with_config t p b1
     in case hm_get (b_logs b2) (t, p) of
          None \<Rightarrow> (log_exists_panic, b2)
        | Some log \<Rightarrow>
            let (off, log') = log_append log x;
                b3 = b2\<lparr>b_logs := hm_insert (t, p) log' (b_logs b2)\<rparr>
            in sbind (write_record e t p \<lparr>rec_offset = off, rec_payload = x\<rparr> b3) (\<lambda>_ b4.
               (Inr off, b4\<lparr>b_metrics := record_produce (length x) (b_metrics b4)\<rparr>))))" if "stored b1" for b1
    using stored_quiet [OF q that] stored_quiet [OF e that] by (auto simp: Let_def case_prod_unfold split: option.split)
  then show ?thesis
    unfolding append_log_def by (intro stored_sbind) (use \<open>stored b\<close> 1 in auto)
qed

lemma stored_record_seq:
  assumes "stored b" and "record_seq t p pid sq off (b_idempotency b, b_dir b) = (st, d)"
  shows "stored (b\<lparr>b_idempotency := st, b_dir := d\<rparr>)"
proof -
  have d: "d = store_idempotency_state t p pid sq off (b_dir b)" using assms(2) by (auto simp: record_seq_def)
  have other: "df_get d (file_name k) = df_get (b_dir b) (file_name k)" if "k \<noteq> Idempotency t p pid" for k
    using that by (simp add: d store_idempotency_state_def write_u64_def store_simps path_keys Let_def)
  have loads: "load_broker_topics d = load_broker_topics (b_dir b)" "load_topic_groups d t' = load_topic_groups (b_dir b) t'"
    "load_cgroup_partition_count d t' g = load_cgroup_partition_count (b_dir b) t' g" "load_topic_config d t' = load_topic_config (b_dir b) t'" for t' g
    by (auto intro!: key_loads other)
  have "topic_stored (b\<lparr>b_idempotency := st, b_dir := d\<rparr>) t' = topic_stored b t'" for t'
    by (simp add: topic_stored_def topic_files_def group_files_def loads split: option.split)
  moreover have "idem_synced (st, d)"
    using record_seq_synced [of "(b_idempotency b, b_dir b)" t p pid sq off] assms by (simp add: stored_with_def)
  ultimately show ?thesis
    using assms(1) by (simp add: stored_with_def config_stored_def broker_topic_config_def loads)
qed

lemma stored_produce_idempotent:
  assumes "stored b"
  shows "stored (snd (produce_idempotent e req b))"
proof -
  have "stored (snd (sbind (append_log e (idem_topic_id req) (idem_partition_id req) (idem_payload req) b) (\<lambda>off b2.
         let (st, d) = record_seq (idem_topic_id req) (idem_partition_id req) (idem_producer_id req)
                         (idem_sequence req) off (b_idempotency b2, b_dir b2)
         in (Inr off, b2\<lparr>b_idempotency := st, b_dir := d\<rparr>))))"
    using assms by (intro stored_sbind) (auto simp: stored_append_log split: prod.split intro: stored_record_seq)
  then show ?thesis
    using assms unfolding produce_idempotent_def
    by (auto intro!: stored_sbind split: idempotency_action.split)
qed

lemma stored_create_topic:
  assumes "stored b"
  shows "stored (snd (create_topic cfg b))"
proof (cases "hm_contains (b_topics b) (tc_topic_id cfg)")
  case True
  with assms show ?thesis by (simp add: create_topic_def)
next
  case False
  let ?t = "tc_topic_id cfg" and ?d = "store_topic_config (tc_topic_id cfg) (tc_partition_count cfg) (tc_max_records cfg) (b_dir b)"
  let ?b = "b\<lparr>b_dir := ?d, b_topic_configs := hm_insert ?t cfg (b_topic_configs b)\<rparr>"
  have other: "df_get ?d (file_name k) = df_get (b_dir b) (file_name k)" if "k \<noteq> TopicConfigFile ?t" for k
    using that by (simp add: store_topic_config_def write_u16_def write_u32_def store_simps path_keys Let_def)
  have loads: "load_broker_topics ?d = load_broker_topics (b_dir b)" "load_topic_groups ?d t' = load_topic_groups (b_dir b) t'"
    "load_cgroup_partition_count ?d t' g = load_cgroup_partition_count (b_dir b) t' g"
    "load_idempotency_state ?d t' p pid = load_idempotency_state (b_dir b) t' p pid"
    "idempotency_files_whole ?d = idempotency_files_whole (b_dir b)" for t' g p pid
    by (auto intro!: key_loads other)
  have cfgs: "load_topic_config ?d t' = (if t' = ?t then Inr (Some (tc_partition_count cfg, tc_max_records cfg))
      else load_topic_config (b_dir b) t')" for t'
    using topic_configs.load_apply [where v = "(tc_partition_count cfg, tc_max_records cfg)" and k = ?t and d = "b_dir b" and k' = t'] by simp
  have "topic_stored ?b t' = topic_stored b t'" for t'
    by (simp add: topic_stored_def topic_files_def group_files_def loads split: option.split)
  moreover have "config_stored ?b t'" for t'
    using assms by (cases "t' = ?t") (auto simp: stored_with_def config_stored_def broker_topic_config_def cfgs dest: spec [of _ t'])
  ultimately have "stored_with {?t} ?b"
    using assms by (auto simp: stored_with_def idem_synced_def loads cfgs)
  then have 1: "stored (snd (topic_mut ?t ?b))" by (rule stored_topic_mut)
  have "quiet b1 (fold (\<lambda>p. ensure_log_with_config ?t (of_nat p)) ps b1)" for b1 ps
  proof (induction ps arbitrary: b1)
    case (Cons p ps)
    have "quiet b1 (ensure_log_with_config ?t (of_nat p) b1)" by simp
    from quiet_trans [OF this Cons.IH] show ?case by simp
  qed simp
  then have "stored (fold (\<lambda>p. ensure_log_with_config ?t (of_nat p)) ps b1)" if "stored b1" for b1 ps
    using that by (rule stored_quiet)
  with 1 False show ?thesis by (simp add: create_topic_def Let_def stored_sbind)
qed

lemma stored_push:
  assumes "stored b"
  shows "stored (snd (register_producer preg b))" and "stored (snd (register_consumer creg b))" and "stored (snd (ensure_group t g b))"
    and "stored (snd (consume_one t g pidx b))" and "stored (snd (deliver_poll t g pidx b))" and "stored (snd (produce_pcm e t x b))"
    and "stored (snd (broker_join_group now jreq b))"
proof -
  note known = stored_known [OF assms]
  show "stored (snd (register_producer preg b))"
    unfolding register_producer_def using known by (intro stored_sbind) auto
  show "stored (snd (register_consumer creg b))"
    unfolding register_consumer_def using known by (intro stored_sbind stored_on_topic)
  show "stored (snd (ensure_group t g b))"
    unfolding ensure_group_def using known by (auto intro!: stored_sbind stored_on_topic)
  show "stored (snd (consume_one t g pidx b))"
    unfolding consume_one_def using assms by (auto intro!: stored_sbind stored_on_topic)
  show "stored (snd (deliver_poll t g pidx b))" using assms by (auto simp: deliver_poll_def intro!: stored_on_topic)
  show "stored (snd (produce_pcm e t x b))"
    unfolding produce_pcm_def using stored_append_log [OF assms]
    by (auto intro!: stored_sbind stored_on_topic stored_known)
  have "quiet b1 (snd (let pc = tc_partition_count (broker_topic_config b1 (join_topic_id jreq));
         k = (join_topic_id jreq, join_group_id jreq);
         grp = (case hm_get (b_groups b1) k of
                  Some g \<Rightarrow> g | None \<Rightarrow> group_new (join_group_id jreq) (join_topic_id jreq));
         ((m, gen, parts), grp') = group_join (join_member_id jreq) pc now grp
     in (Inr (0, m, gen, parts), b1\<lparr>b_groups := hm_insert k grp' (b_groups b1)\<rparr>)))" for b1
    by (simp add: Let_def case_prod_unfold)
  from stored_quiet [OF this] show "stored (snd (broker_join_group now jreq b))"
    unfolding broker_join_group_def using known by (intro stored_sbind) auto
qed

lemma broker_step_stored:
  assumes "broker_step e b b'" and "stored b"
  shows "stored b'"
  using assms(1)
  by cases (use assms(2) stored_push stored_append_log stored_produce_idempotent stored_create_topic stored_known
      quiet_logs quiet_control in \<open>auto simp: ensure_topic_def intro: stored_quiet [OF _ assms(2)]\<close>)

section \<open>Opening the queues again\<close>

definition only_queues :: "u16 set \<Rightarrow> data_dir \<Rightarrow> data_dir \<Rightarrow> bool" where
  "only_queues T d d' \<longleftrightarrow> (\<forall>n. (\<forall>q. mq_topic q \<in> T \<longrightarrow> n \<notin> mq_files q) \<longrightarrow> df_get d' n = df_get d n)"

lemma only_queues_refl [simp, intro]: "only_queues T d d"
  by (simp add: only_queues_def)

lemma only_queues_trans: "only_queues T d d' \<Longrightarrow> only_queues T' d' d'' \<Longrightarrow> only_queues (T \<union> T') d d''"
  by (auto simp: only_queues_def)

lemma only_queues_twice: "only_queues T d d' \<Longrightarrow> only_queues T d' d'' \<Longrightarrow> only_queues T d d''"
  using only_queues_trans [of T d d' T d''] by simp

lemma only_queues_control: "only_queues T d d' \<Longrightarrow> same_control d d'"
  by (auto simp: only_queues_def same_control_def mq_files_def control_neq)

lemma only_queues_files:
  assumes "only_queues T d d'"
  shows "logs_untouched d d'" and "df_get d' (offset_metadata_path g t p) = df_get d (offset_metadata_path g t p)"
    and "df_get d' cluster_state_path = df_get d cluster_state_path"
    and "mq_topic q \<notin> T \<Longrightarrow> n \<in> mq_files q \<Longrightarrow> df_get d' n = df_get d n"
proof -
  show "logs_untouched d d'" using assms by (simp add: only_queues_def logs_untouched_def mq_files_def)
  show "df_get d' (offset_metadata_path g t p) = df_get d (offset_metadata_path g t p)"
    "df_get d' cluster_state_path = df_get d cluster_state_path"
    using assms by (simp_all add: only_queues_def mq_files_def path_keys)
  assume q: "mq_topic q \<notin> T" "n \<in> mq_files q"
  have "n \<notin> mq_files r" if "mq_topic r \<in> T" for r
  proof -
    have "mq_key q \<noteq> mq_key r" using q(1) that by (auto simp: mq_key_def)
    from mq_files_disjoint [OF this] q(2) show ?thesis by blast
  qed
  then show "df_get d' n = df_get d n" using assms by (simp add: only_queues_def)
qed

lemma mq_open_only: "only_queues {t} d (snd (mq_open t g p d))"
  unfolding only_queues_def
proof (intro allI impI)
  fix n
  assume n: "\<forall>q. mq_topic q \<in> {t} \<longrightarrow> n \<notin> mq_files q"
  have "n \<notin> mq_files \<lparr>mq_topic = t, mq_group = g, mq_partition = p, mq_head = 0, mq_tail = 0\<rparr>" using n by simp
  then show "df_get (snd (mq_open t g p d)) n = df_get d n" by (intro mq_open_frame) (auto simp: mq_files_def)
qed

lemma open_partitions_total:
  "\<exists>qs d'. open_partitions t g i n d = (Inr qs, d') \<and> length qs = n \<and> only_queues {t} d d'"
proof (induction n arbitrary: i d)
  case (Suc n)
  obtain q d1 where q: "mq_open t g (of_nat i + 1) d = (Inr q, d1)"
    using mq_open_ok [of t g "of_nat i + 1" d] by (metis prod.collapse)
  then have d1: "only_queues {t} d d1" using mq_open_only [of t d g "of_nat i + 1"] by simp
  obtain qs d2 where qs: "open_partitions t g (Suc i) n d1 = (Inr qs, d2)" "length qs = n" "only_queues {t} d1 d2"
    using Suc by blast
  with q d1 show ?case by (auto simp: partition_open_def intro: only_queues_twice)
qed simp

lemma open_partitions_same:
  assumes "\<forall>j<length qs. mq_key (qs ! j) = (t, g, of_nat (Suc (i + j))) \<and> mq_inv (qs ! j, d)"
  shows "open_partitions t g i (length qs) d = (Inr qs, d)"
  using assms
proof (induction qs arbitrary: i)
  case (Cons q qs)
  have q: "mq_key q = (t, g, of_nat i + 1)" "mq_inv (q, d)" using Cons.prems [rule_format, of 0] by (simp_all add: add.commute)
  have "mq_open t g (of_nat i + 1) d = (Inr q, d)"
    using mmap_queue_reopen [OF q(2)] q(1) by (simp add: mq_key_def)
  moreover have "open_partitions t g (Suc i) (length qs) d = (Inr qs, d)"
    using Cons.prems by (intro Cons.IH) fastforce
  ultimately show ?case by (simp add: partition_open_def)
qed simp

definition refreshed :: "consumer_group \<Rightarrow> consumer_group" where
  "refreshed c = c\<lparr>cg_consumer_count := of_nat (length (cg_partitions c))\<rparr>"

lemma count_of_files:
  assumes "group_files d t (g, n)"
  shows "load_cgroup_partition_count d t g = Inr (of_nat n)" "max (of_nat n) 1 = (of_nat n :: u32)" "unat (of_nat n :: u32) = n"
proof -
  show "load_cgroup_partition_count d t g = Inr (of_nat n)" using assms by (simp add: group_files_def)
  show n: "unat (of_nat n :: u32) = n" using assms by (simp add: group_files_def unat_of_nat_u32)
  have "(1 :: u32) \<le> of_nat n" using assms n by (simp add: group_files_def word_le_nat_alt)
  then show "max (of_nat n) 1 = (of_nat n :: u32)" by simp
qed

lemma load_groups_total:
  assumes "\<forall>gn\<in>set sh. group_files d t gn"
  shows "\<exists>cs d'. load_groups t (map fst sh) d = (Inr cs, d') \<and> map (\<lambda>c. (cg_group_id c, length (cg_partitions c))) cs = sh
    \<and> only_queues {t} d d'"
  using assms
proof (induction sh arbitrary: d)
  case (Cons gn sh)
  obtain g n where gn: "gn = (g, n)" by (cases gn)
  note cnt = count_of_files [of d t g n]
  obtain qs d1 where qs: "open_partitions t g 0 n d = (Inr qs, d1)" "length qs = n" "only_queues {t} d d1"
    using open_partitions_total by blast
  have "\<forall>gn\<in>set sh. group_files d1 t gn"
    using Cons.prems control_loads(3) [OF only_queues_control [OF qs(3)]] by (simp add: group_files_def)
  from Cons.IH [OF this] obtain cs d2 where cs: "load_groups t (map fst sh) d1 = (Inr cs, d2)"
    "map (\<lambda>c. (cg_group_id c, length (cg_partitions c))) cs = sh" "only_queues {t} d1 d2" by blast
  with qs cnt Cons.prems gn show ?case by (auto simp: cgroup_load_def Let_def intro: only_queues_twice)
qed simp

lemma load_groups_same:
  assumes "\<forall>c\<in>set cs. queues_inv t d c \<and> group_files d t (cg_group_id c, length (cg_partitions c))"
  shows "load_groups t (map cg_group_id cs) d = (Inr (map refreshed cs), d)"
  using assms
proof (induction cs)
  case (Cons c cs)
  then have c: "queues_inv t d c" "group_files d t (cg_group_id c, length (cg_partitions c))" by simp_all
  have "open_partitions t (cg_group_id c) 0 (length (cg_partitions c)) d = (Inr (cg_partitions c), d)"
    using c(1) by (intro open_partitions_same) (simp add: queues_inv_def)
  with Cons count_of_files [OF c(2)] show ?case by (simp add: cgroup_load_def refreshed_def Let_def)
qed simp

text \<open>A topic that was loaded again: its files, and its queues when they were in order.\<close>

definition reloaded :: "data_dir \<Rightarrow> data_dir \<Rightarrow> u16 \<Rightarrow> topic \<Rightarrow> bool" where
  "reloaded d d' t tp' \<longleftrightarrow> topic_files d' t tp' \<and> (\<forall>tp. topic_files d t tp \<longrightarrow> topic_inv t d tp \<longrightarrow>
     topic_inv t d' tp' \<and> topic_view d' tp' = topic_view d tp)"

lemma topic_load_same:
  assumes "topic_files d t tp" and "topic_inv t d tp"
  shows "topic_load t d = (Inr (tp\<lparr>tp_cgroups := map refreshed (tp_cgroups tp)\<rparr>), d)"
proof -
  have "mq_open t STAGING_GROUP_ID STAGING_PARTITION_ID d = (Inr (tp_staging tp), d)"
    using assms(2) mmap_queue_reopen [of "tp_staging tp" d] by (simp add: topic_inv_def mq_key_def)
  moreover have "load_groups t (map cg_group_id (tp_cgroups tp)) d = (Inr (map refreshed (tp_cgroups tp)), d)"
    using assms by (intro load_groups_same) (auto simp: topic_inv_def topic_files_def topic_shape_def)
  ultimately show ?thesis using assms(1) by (simp add: topic_load_def topic_files_def topic_shape_def comp_def)
qed

lemma topic_load_reloads:
  assumes "topic_files d t tp"
  shows "\<exists>tp' d'. topic_load t d = (Inr tp', d') \<and> only_queues {t} d d' \<and> reloaded d d' t tp'"
proof -
  obtain q d1 where q: "mq_open t STAGING_GROUP_ID STAGING_PARTITION_ID d = (Inr q, d1)"
    using mq_open_ok [of t STAGING_GROUP_ID STAGING_PARTITION_ID d] by (metis prod.collapse)
  then have d1: "only_queues {t} d d1" using mq_open_only [of t d STAGING_GROUP_ID STAGING_PARTITION_ID] by simp
  have tf1: "topic_files d1 t tp" using assms topic_files_same [OF only_queues_control [OF d1]] by simp
  then obtain cs d2 where cs: "load_groups t (map fst (topic_shape tp)) d1 = (Inr cs, d2)"
    "map (\<lambda>c. (cg_group_id c, length (cg_partitions c))) cs = topic_shape tp" "only_queues {t} d1 d2"
    using load_groups_total [of "topic_shape tp" d1 t] by (auto simp: topic_files_def)
  let ?tp = "\<lparr>tp_topic_id = t, tp_staging = q, tp_cgroups = cs\<rparr>"
  have load: "topic_load t d = (Inr ?tp, d2)" using q cs(1) tf1 by (simp add: topic_load_def topic_files_def)
  have d2: "only_queues {t} d d2" using d1 cs(3) by (rule only_queues_twice)
  have "topic_shape ?tp = topic_shape tp" "tp_topic_id ?tp = tp_topic_id tp"
    using cs(2) assms by (simp_all add: topic_shape_def topic_files_def)
  then have "topic_files d2 t ?tp"
    using assms topic_files_shape topic_files_same [OF only_queues_control [OF d2]] by metis
  moreover have "topic_inv t d2 ?tp \<and> topic_view d2 ?tp = topic_view d tp2" if tp2: "topic_files d t tp2" "topic_inv t d tp2" for tp2
  proof -
    have "?tp = tp2\<lparr>tp_cgroups := map refreshed (tp_cgroups tp2)\<rparr>" "d2 = d" using topic_load_same [OF tp2] load by simp_all
    with tp2(2) show ?thesis
      by (simp add: topic_inv_def topic_view_def refreshed_def queues_inv_def group_view_def comp_def)
  qed
  ultimately show ?thesis using load d2 by (auto simp: reloaded_def)
qed

lemma topic_frame_other:
  assumes "only_queues T d d'" and "t \<notin> T" and "topic_inv t d tp"
  shows "topic_inv t d' tp" and "topic_view d' tp = topic_view d tp"
proof -
  have "mq_topic q = t" if "q \<in> set (topic_queues tp)" for q
    using that assms(3) by (auto simp: topic_queues_def topic_inv_def queues_inv_def mq_key_def in_set_conv_nth)
  then have "\<forall>q\<in>set (topic_queues tp). \<forall>n\<in>mq_files q. df_get d' n = df_get d n"
    using only_queues_files(4) [OF assms(1)] assms(2) by blast
  from topic_frame(1,2) [OF this] assms(3) show "topic_inv t d' tp" "topic_view d' tp = topic_view d tp" by simp_all
qed

lemma reloaded_frame:
  assumes "reloaded d1 d2 t tp'" and "only_queues T d d1" and "only_queues T' d2 d'" and "t \<notin> T" and "t \<notin> T'"
  shows "reloaded d d' t tp'"
proof -
  note same = topic_files_same [OF only_queues_control [OF assms(2)]] topic_files_same [OF only_queues_control [OF assms(3)]]
  show ?thesis
    using assms(1) topic_frame_other [OF assms(2,4)] topic_frame_other [OF assms(3,5)] same
    unfolding reloaded_def by metis
qed

definition loaded_config :: "data_dir \<Rightarrow> u16 \<Rightarrow> topic_config option" where
  "loaded_config d t = (case load_topic_config d t of Inr (Some (pc, mr)) \<Rightarrow> Some (topic_config_new t pc mr) | _ \<Rightarrow> None)"

lemma load_topics_reload:
  assumes "\<forall>t\<in>set ids. (\<exists>tp. topic_files d t tp) \<and> (\<exists>c. load_topic_config d t = Inr c)" and "distinct ids"
  shows "\<exists>ts' cs' d'. load_topics ids ts cs d = (Inr (ts', cs'), d') \<and> only_queues (set ids) d d'
    \<and> (\<forall>t\<in>set ids. \<exists>tp'. hm_get ts' t = Some tp' \<and> reloaded d d' t tp') \<and> (\<forall>t. t \<notin> set ids \<longrightarrow> hm_get ts' t = hm_get ts t)
    \<and> (\<forall>t. hm_get cs' t = (if t \<in> set ids \<and> loaded_config d t \<noteq> None then loaded_config d t else hm_get cs t))"
  using assms
proof (induction ids arbitrary: ts cs d)
  case Nil
  then show ?case by simp
next
  case (Cons t ids)
  obtain tp c where "topic_files d t tp" and c: "load_topic_config d t = Inr c" using Cons.prems(1) by auto
  from topic_load_reloads [OF this(1)] obtain tp' d1
    where tp': "topic_load t d = (Inr tp', d1)" "only_queues {t} d d1" "reloaded d d1 t tp'" by blast
  note same = only_queues_control [OF tp'(2)]
  define cs1 where "cs1 = (case c of Some (pc, mr) \<Rightarrow> hm_insert t (topic_config_new t pc mr) cs | None \<Rightarrow> cs)"
  have "\<forall>t\<in>set ids. (\<exists>tp. topic_files d1 t tp) \<and> (\<exists>c. load_topic_config d1 t = Inr c)"
    using Cons.prems(1) by (simp add: topic_files_same [OF same] control_loads [OF same])
  from Cons.IH [OF this, of "hm_insert t tp' ts" cs1] Cons.prems(2)
  obtain ts' cs' d' where r: "load_topics ids (hm_insert t tp' ts) cs1 d1 = (Inr (ts', cs'), d')" "only_queues (set ids) d1 d'"
    "\<forall>t\<in>set ids. \<exists>tp'. hm_get ts' t = Some tp' \<and> reloaded d1 d' t tp'"
    "\<forall>t'. t' \<notin> set ids \<longrightarrow> hm_get ts' t' = hm_get (hm_insert t tp' ts) t'"
    "\<forall>t. hm_get cs' t = (if t \<in> set ids \<and> loaded_config d1 t \<noteq> None then loaded_config d1 t else hm_get cs1 t)" by auto
  have t: "t \<notin> set ids" using Cons.prems(2) by simp
  have load: "load_topics (t # ids) ts cs d = (Inr (ts', cs'), d')"
    using tp'(1) c r(1) control_loads(4) [OF same] by (simp add: cs1_def)
  have only: "only_queues (set (t # ids)) d d'" using only_queues_trans [OF tp'(2) r(2)] by simp
  have topics: "\<forall>t'\<in>set (t # ids). \<exists>tp'. hm_get ts' t' = Some tp' \<and> reloaded d d' t' tp'"
  proof
    fix t'
    assume "t' \<in> set (t # ids)"
    then consider "t' = t" | "t' \<in> set ids" "t' \<noteq> t" using t by auto
    then show "\<exists>tp'. hm_get ts' t' = Some tp' \<and> reloaded d d' t' tp'"
    proof cases
      case 1
      then show ?thesis using r(4) t reloaded_frame [OF tp'(3) only_queues_refl r(2), of "{}"] by auto
    next
      case 2
      then obtain tp2 where "hm_get ts' t' = Some tp2" "reloaded d1 d' t' tp2" using r(3) by blast
      then show ?thesis using reloaded_frame [OF _ tp'(2) only_queues_refl, of d' t' tp2 "{}"] 2 by auto
    qed
  qed
  have c1: "loaded_config d1 t' = loaded_config d t'" for t' by (simp add: loaded_config_def control_loads(4) [OF same])
  have "hm_get cs1 t' = (if t' = t \<and> loaded_config d t \<noteq> None then loaded_config d t else hm_get cs t')" for t'
    using c by (auto simp: cs1_def loaded_config_def split: option.split)
  then have cfg: "\<forall>t'. hm_get cs' t' = (if t' \<in> set (t # ids) \<and> loaded_config d t' \<noteq> None then loaded_config d t' else hm_get cs t')"
    using r(5) t by (auto simp: c1)
  have "\<forall>t'. t' \<notin> set (t # ids) \<longrightarrow> hm_get ts' t' = hm_get ts t'" using r(4) by simp
  with load only topics cfg show ?case by blast
qed

section \<open>Opening the broker again\<close>

text \<open>The state of the cluster that a broker with a configuration starts from.\<close>

definition cluster_opens :: "u64 \<Rightarrow> cluster_config option \<Rightarrow> data_dir \<Rightarrow> bool" where
  "cluster_opens now cluster d \<longleftrightarrow> (\<forall>seed. cluster = Some seed \<longrightarrow> is_ok (fst (open_or_bootstrap now seed d)))"

lemma boot_opens:
  assumes "cluster_opens now cluster d" and "df_get d' cluster_state_path = df_get d cluster_state_path"
  shows "\<exists>cl st d''. (case cluster of
       Some seed \<Rightarrow> sbind (open_or_bootstrap now seed d') (\<lambda>st d3. (Inr (Some (to_cluster_config st), Some st), d3))
     | None \<Rightarrow> (Inr (None, None), d')) = (Inr (cl, st), d'')
    \<and> (\<forall>n. n \<noteq> cluster_state_path \<longrightarrow> df_get d'' n = df_get d' n)"
proof (cases cluster)
  case (Some seed)
  with assms have ok: "is_ok (fst (open_or_bootstrap now seed d'))"
    by (auto simp: cluster_opens_def open_or_bootstrap_def Let_def split: option.splits)
  have "df_get (snd (open_or_bootstrap now seed d')) n = df_get d' n" if "n \<noteq> cluster_state_path" for n
    using that by (simp add: open_or_bootstrap_def cs_store_def store_simps Let_def split: option.split)
  with Some ok show ?thesis by (cases "open_or_bootstrap now seed d'"; cases "fst (open_or_bootstrap now seed d')") (auto simp: is_ok_def)
qed simp

lemma only_cluster_file:
  assumes "\<forall>n. n \<noteq> cluster_state_path \<longrightarrow> df_get d' n = df_get d n"
  shows "same_control d d'" "logs_untouched d d'" "df_get d' (offset_metadata_path g t p) = df_get d (offset_metadata_path g t p)"
    "topic_inv t d' tp = topic_inv t d tp" "topic_view d' tp = topic_view d tp"
proof -
  show "same_control d d'" using assms control_neq(7) by (simp add: same_control_def)
  show "logs_untouched d d'" "df_get d' (offset_metadata_path g t p) = df_get d (offset_metadata_path g t p)"
    using assms by (simp_all add: logs_untouched_def path_keys)
  have "df_get d' n = df_get d n" if "n \<in> mq_files q" for n q
    using assms that by (auto simp: mq_files_def path_keys)
  from topic_view_cong [OF this] show "topic_inv t d' tp = topic_inv t d tp" "topic_view d' tp = topic_view d tp" by auto
qed

text \<open>The configuration as \<open>TopicConfig::new\<close> makes it: no topic without a partition or a record.\<close>

definition normal_config :: "u16 \<Rightarrow> topic_config \<Rightarrow> topic_config" where
  "normal_config t c = topic_config_new t (tc_partition_count c) (tc_max_records c)"

lemma config_as_normal:
  "config_as t (load_topic_config d t) cfg \<Longrightarrow>
    (case loaded_config d t of Some c \<Rightarrow> c | None \<Rightarrow> topic_config_default_for t) = normal_config t cfg"
  by (cases "(t, load_topic_config d t, cfg)" rule: config_as.cases)
    (auto simp: loaded_config_def normal_config_def topic_config_default_for_def topic_config_new_def)

lemma idempotency_load_same:
  assumes "idem_synced (st, d)" and "same_control d d'"
  shows "\<exists>st'. idempotency_load d' = Inr st' \<and> (\<forall>t p pid sq. resolve st' t p pid sq = resolve st t p pid sq)"
proof -
  have whole: "idempotency_files_whole d'" using assms by (simp add: idem_synced_def control_loads [OF assms(2)])
  then obtain out where out: "load_all_idempotency d' = Inr out"
    using load_all_loop_total unfolding load_all_idempotency_def by blast
  have "hm_get out (t, p, pid) = hm_get (entries st) (t, p, pid)" for t p pid
    using load_all_exact [OF out, of t p pid] assms(1) by (auto simp: idem_synced_def control_loads [OF assms(2)])
  with out show ?thesis by (simp add: idempotency_load_def resolve_def)
qed

lemma load_logs_history:
  assumes "load_logs b = Inr b'" and "b_logs b = []" and "\<forall>t p. \<exists>h. log_file_holds (b_dir b) t p h"
    and "log_file_holds (b_dir b) t p h" and "hm_contains (b_topics b) t"
    and "unat p < unat (tc_partition_count (broker_topic_config b t))"
  shows "hm_get (b_logs b') (t, p) = Some (log_of (Some (unat (tc_max_records (broker_topic_config b t)))) h)"
proof -
  obtain H where H: "log_file_holds (b_dir b) t p (H t p)" for t p using assms(3) by metis
  let ?H = "\<lambda>t' p'. if (t', p') = (t, p) then h else H t' p'"
  have "\<forall>t'\<in>set (hm_keys (b_topics b)). \<forall>p'. unat p' < unat (tc_partition_count (broker_topic_config b t')) \<longrightarrow>
      log_file_holds (b_dir b) t' p' (?H t' p')"
    using H assms(4) by simp
  from load_logs_of_logs [OF this]
  obtain l where l: "load_logs_of (hm_keys (b_topics b)) b = Inr (b\<lparr>b_logs := l\<rparr>)"
    "\<forall>t p. hm_get l (t, p) = (if t \<in> set (hm_keys (b_topics b)) \<and> unat p < unat (tc_partition_count (broker_topic_config b t))
       then Some (log_of (Some (unat (tc_max_records (broker_topic_config b t)))) (?H t p)) else hm_get (b_logs b) (t, p))"
    by blast
  then have "b' = b\<lparr>b_logs := l\<rparr>" using assms(1) by (simp add: load_logs_def)
  with l(2) assms(5,6) show ?thesis by (simp add: hm_contains_iff)
qed

lemma load_logs_total: "\<forall>t p. \<exists>h. log_file_holds (b_dir b) t p h \<Longrightarrow> \<exists>l. load_logs b = Inr (b\<lparr>b_logs := l\<rparr>)"
proof -
  assume "\<forall>t p. \<exists>h. log_file_holds (b_dir b) t p h"
  then obtain H where "log_file_holds (b_dir b) t p (H t p)" for t p by metis
  then show ?thesis using load_logs_of_logs [of "hm_keys (b_topics b)" b H] by (auto simp: load_logs_def)
qed

lemma reopen_opens:
  assumes st: "stored b" and logs: "\<forall>t p. \<exists>h. log_file_holds (b_dir b) t p h" and cluster: "cluster_opens now cluster (b_dir b)"
  shows "\<exists>b0 l. open_with_cluster_and_id e now cluster i (b_dir b) = (Inr (b0\<lparr>b_logs := l\<rparr>), b_dir b0)
    \<and> load_logs b0 = Inr (b0\<lparr>b_logs := l\<rparr>) \<and> b_logs b0 = [] \<and> logs_untouched (b_dir b) (b_dir b0)
    \<and> (\<forall>t. hm_contains (b_topics b0) t = hm_contains (b_topics b) t)
    \<and> (\<forall>t. hm_contains (b_topics b) t \<longrightarrow> broker_topic_config b0 t = normal_config t (broker_topic_config b t))
    \<and> (\<forall>t v. push_holds b t v \<longrightarrow> push_holds b0 t v)
    \<and> (\<forall>t p pid sq. resolve (b_idempotency b0) t p pid sq = resolve (b_idempotency b) t p pid sq)
    \<and> (\<forall>g t p. df_get (b_dir b0) (offset_metadata_path g t p) = df_get (b_dir b) (offset_metadata_path g t p))"
proof -
  let ?ids = "sort (hm_keys (b_topics b))"
  have ids: "load_broker_topics (b_dir b) = Inr ?ids" "distinct ?ids" "t \<in> set ?ids \<longleftrightarrow> hm_contains (b_topics b) t" for t
    using st by (simp_all add: stored_with_def hm_contains_iff)
  have files: "topic_files (b_dir b) t tp" if "hm_get (b_topics b) t = Some tp" for t tp
    using st that by (auto simp: stored_with_def topic_stored_def dest: spec [of _ t])
  have cfg: "config_as t (load_topic_config (b_dir b) t) (broker_topic_config b t)" for t
    using st by (simp add: stored_with_def config_stored_def)
  have "(\<exists>tp. topic_files (b_dir b) t tp) \<and> (\<exists>c. load_topic_config (b_dir b) t = Inr c)" if "t \<in> set ?ids" for t
    using files [of t] cfg [of t] that unfolding ids(3) hm_contains_def by (cases "load_topic_config (b_dir b) t") auto
  then obtain ts cs d1 where ts: "load_topics ?ids [] [] (b_dir b) = (Inr (ts, cs), d1)" "only_queues (set ?ids) (b_dir b) d1"
    "\<forall>t\<in>set ?ids. \<exists>tp'. hm_get ts t = Some tp' \<and> reloaded (b_dir b) d1 t tp'" "\<forall>t. t \<notin> set ?ids \<longrightarrow> hm_get ts t = hm_get [] t"
    "\<forall>t. hm_get cs t = (if t \<in> set ?ids \<and> loaded_config (b_dir b) t \<noteq> None then loaded_config (b_dir b) t else hm_get [] t)"
    using load_topics_reload [OF _ ids(2), of "b_dir b" "[]" "[]"] by blast
  note d1 = only_queues_control [OF ts(2)] only_queues_files(1-3) [OF ts(2)]
  obtain cl cst d2 where boot: "(case cluster of
       Some seed \<Rightarrow> sbind (open_or_bootstrap now seed d1) (\<lambda>st d3. (Inr (Some (to_cluster_config st), Some st), d3))
     | None \<Rightarrow> (Inr (None, None), d1)) = (Inr (cl, cst), d2)" "\<forall>n. n \<noteq> cluster_state_path \<longrightarrow> df_get d2 n = df_get d1 n"
    using boot_opens [OF cluster d1(4)] by blast
  note d2 = only_cluster_file [OF boot(2)]
  obtain idem where idem: "idempotency_load d2 = Inr idem" "\<forall>t p pid sq. resolve idem t p pid sq = resolve (b_idempotency b) t p pid sq"
    using idempotency_load_same [OF _ same_control_trans [OF d1(1) d2(1)], of "b_idempotency b"] st by (auto simp: stored_with_def)
  define b0 where "b0 = \<lparr>b_topics = ts, b_logs = [], b_topic_configs = cs, b_committed_offsets = [], b_dir = d2,
    b_metrics = metrics_new, b_broker_id = i, b_cluster = cl, b_cluster_state = cst, b_groups = [], b_idempotency = idem, b_acl = acl_from_env e\<rparr>"
  have dir: "b_dir b0 = d2" "b_topics b0 = ts" by (simp_all add: b0_def)
  have log: "logs_untouched (b_dir b) d2" using d1(2) d2(2) by (rule logs_untouched_trans)
  then have "\<forall>t p. \<exists>h. log_file_holds (b_dir b0) t p h" using logs by (simp add: dir log_file_holds_def logs_untouched_def)
  then obtain l where l: "load_logs b0 = Inr (b0\<lparr>b_logs := l\<rparr>)" using load_logs_total by blast
  have opens: "open_with_cluster_and_id e now cluster i (b_dir b) = (Inr (b0\<lparr>b_logs := l\<rparr>), b_dir b0)"
    using ids(1) ts(1) boot(1) idem(1) l by (simp add: open_with_cluster_and_id_def b0_def)
  have "hm_contains (b_topics b0) t = hm_contains (b_topics b) t" for t
    using bspec [OF ts(3), of t] spec [OF ts(4), of t] unfolding ids(3) by (auto simp: dir hm_contains_def)
  moreover have "broker_topic_config b0 t = normal_config t (broker_topic_config b t)" if "hm_contains (b_topics b) t" for t
    using config_as_normal [OF cfg [of t]] spec [OF ts(5), of t] that unfolding ids(3) by (auto simp: broker_topic_config_def b0_def)
  moreover have "push_holds b0 t v" if held: "push_holds b t v" for t v
  proof -
    obtain tp where tp: "hm_get (b_topics b) t = Some tp" "topic_inv t (b_dir b) tp" "topic_view (b_dir b) tp = v"
      using held by (auto simp: push_holds_def)
    moreover obtain tp' where "hm_get ts t = Some tp'" "reloaded (b_dir b) d1 t tp'"
      using bspec [OF ts(3), of t] tp(1) unfolding ids(3) hm_contains_def by auto
    ultimately show ?thesis using files [OF tp(1)] by (simp add: push_holds_def dir reloaded_def d2(4,5))
  qed
  moreover have "df_get (b_dir b0) (offset_metadata_path g t p) = df_get (b_dir b) (offset_metadata_path g t p)" for g t p
    using d1(3) d2(3) dir by simp
  ultimately show ?thesis using opens l log idem(2) dir by (intro exI [of _ b0] exI [of _ l]) (simp add: b0_def)
qed

lemma stored_open_empty:
  assumes "open_with_cluster_and_id e now cluster i empty_dir = (Inr b, d)"
  shows "stored b"
proof -
  have topics: "load_broker_topics empty_dir = Inr []" by (simp add: load_broker_topics_def load_ids_def empty_dir_def df_get_def)
  have "cluster_opens now cluster empty_dir"
    by (simp add: cluster_opens_def open_or_bootstrap_def empty_dir_def df_get_def Let_def is_ok_def)
  then obtain cl cst d2 where boot: "(case cluster of
       Some seed \<Rightarrow> sbind (open_or_bootstrap now seed empty_dir) (\<lambda>st d3. (Inr (Some (to_cluster_config st), Some st), d3))
     | None \<Rightarrow> (Inr (None, None), empty_dir)) = (Inr (cl, cst), d2)" "\<forall>n. n \<noteq> cluster_state_path \<longrightarrow> df_get d2 n = df_get empty_dir n"
    using boot_opens [OF _ refl] by blast
  note same = only_cluster_file(1) [OF boot(2)]
  have empty: "idem_synced (idempotency_default, empty_dir)"
    using empty_dir_whole by (simp add: idem_synced_def idempotency_default_def load_idempotency_state_def empty_dir_def df_get_def)
  obtain idem where idem: "idempotency_load d2 = Inr idem" using idempotency_load_same [OF empty same] by blast
  let ?b = "\<lparr>b_topics = [], b_logs = [], b_topic_configs = [], b_committed_offsets = [], b_dir = d2, b_metrics = metrics_new,
    b_broker_id = i, b_cluster = cl, b_cluster_state = cst, b_groups = [], b_idempotency = idem, b_acl = acl_from_env e\<rparr>"
  have b: "b = ?b" using assms topics boot(1) idem by (auto simp: open_with_cluster_and_id_def load_logs_def)
  obtain es where es: "load_all_idempotency d2 = Inr es" "idem = \<lparr>entries = es\<rparr>"
    using idem by (auto simp: idempotency_load_def res_bind_Inr_iff)
  have "load_idempotency_state d2 t p pid = Inr (hm_get es (t, p, pid))" for t p pid
    using load_all_exact [OF es(1), of t p pid] by (simp add: control_loads [OF same]) (simp add: load_idempotency_state_def empty_dir_def df_get_def)
  then have "idem_synced (idem, d2)"
    using empty_dir_whole by (simp add: idem_synced_def es(2) control_loads(6) [OF same])
  then show ?thesis
    by (simp add: b stored_with_def topic_stored_def config_stored_def broker_topic_config_def control_loads [OF same] topics)
      (simp add: load_topic_groups_def load_ids_def load_topic_config_def empty_dir_def df_get_def)
qed

lemma broker_run_stored: "(broker_step e)\<^sup>*\<^sup>* b b' \<Longrightarrow> stored b \<Longrightarrow> stored b'"
  by (induction rule: rtranclp_induct) (auto intro: broker_step_stored)

lemma reopened_broker:
  assumes "max_payload_bytes e < 2 ^ 16"
    and "open_with_cluster_and_id e now cluster i empty_dir = (Inr b0, d0)" and "(broker_step e)\<^sup>*\<^sup>* b0 b"
    and "cluster_opens now' cluster' (b_dir b)"
  shows "\<exists>b' d'. open_with_cluster_and_id e' now' cluster' i' (b_dir b) = (Inr b', d')
    \<and> (\<forall>t. hm_contains (b_topics b') t = hm_contains (b_topics b) t)
    \<and> (\<forall>t. hm_contains (b_topics b) t \<longrightarrow> broker_topic_config b' t = normal_config t (broker_topic_config b t))
    \<and> (\<forall>t p h. history b t p h \<longrightarrow> hm_contains (b_topics b) t \<longrightarrow> unat p < unat (tc_partition_count (broker_topic_config b' t))
        \<longrightarrow> history b' t p h \<and> retention b' t p = Some (unat (tc_max_records (broker_topic_config b' t))))
    \<and> (\<forall>t v. push_holds b t v \<longrightarrow> push_holds b' t v)
    \<and> (\<forall>t p pid sq. resolve (b_idempotency b') t p pid sq = resolve (b_idempotency b) t p pid sq)
    \<and> (\<forall>g t p. fst (broker_load_committed_offset g t p b') = load_committed_offset (b_dir b) g t p)"
proof -
  have st: "stored b" using broker_run_stored [OF assms(3)] stored_open_empty [OF assms(2)] by blast
  have "logs_ok b0" using open_empty [of e now cluster i] assms(2) by auto
  then have logs: "logs_ok b" using broker_run_keeps [OF assms(3,1)] grows_ok by (auto simp: keeps_def)
  then have files: "\<forall>t p. \<exists>h. log_file_holds (b_dir b) t p h" unfolding logs_ok_def history_def by blast
  obtain b1 l where o: "open_with_cluster_and_id e' now' cluster' i' (b_dir b) = (Inr (b1\<lparr>b_logs := l\<rparr>), b_dir b1)"
    "load_logs b1 = Inr (b1\<lparr>b_logs := l\<rparr>)" "b_logs b1 = []" "logs_untouched (b_dir b) (b_dir b1)"
    "\<forall>t. hm_contains (b_topics b1) t = hm_contains (b_topics b) t"
    "\<forall>t. hm_contains (b_topics b) t \<longrightarrow> broker_topic_config b1 t = normal_config t (broker_topic_config b t)"
    "\<forall>t v. push_holds b t v \<longrightarrow> push_holds b1 t v"
    "\<forall>t p pid sq. resolve (b_idempotency b1) t p pid sq = resolve (b_idempotency b) t p pid sq"
    "\<forall>g t p. df_get (b_dir b1) (offset_metadata_path g t p) = df_get (b_dir b) (offset_metadata_path g t p)"
    using reopen_opens [OF st files assms(4), of e' i'] by blast
  let ?b = "b1\<lparr>b_logs := l\<rparr>"
  have cfg: "broker_topic_config ?b t = broker_topic_config b1 t" for t by (simp add: broker_topic_config_def)
  have held: "log_file_holds (b_dir b1) t p h = log_file_holds (b_dir b) t p h" for t p h
    using o(4) by (simp add: log_file_holds_def logs_untouched_def)
  have hist: "history ?b t p h \<and> retention ?b t p = Some (unat (tc_max_records (broker_topic_config ?b t)))"
    if "history b t p h" "hm_contains (b_topics b) t" "unat p < unat (tc_partition_count (broker_topic_config ?b t))" for t p h
  proof -
    have "log_file_holds (b_dir b) t p h" using that(1) by (simp add: history_def)
    with load_logs_history [OF o(2,3), of t p h] that(2,3) o(5) files
    have "hm_get l (t, p) = Some (log_of (Some (unat (tc_max_records (broker_topic_config b1 t)))) h)"
      by (simp add: held cfg)
    with \<open>log_file_holds (b_dir b) t p h\<close> show ?thesis by (auto simp: history_def held retention_def cfg log_of_sel)
  qed
  have commits: "fst (broker_load_committed_offset g t p ?b) = load_committed_offset (b_dir b) g t p" for g t p
  proof -
    have "b_committed_offsets ?b = []" using open_no_commits(1) [OF o(1)] .
    moreover have "load_committed_offset (b_dir b1) g t p = load_committed_offset (b_dir b) g t p"
      using o(9) by (simp add: load_committed_offset_def)
    ultimately show ?thesis
      by (cases "load_committed_offset (b_dir b) g t p") (simp_all add: broker_load_committed_offset_def committed_offset_def)
  qed
  have push: "push_holds ?b t v" if "push_holds b t v" for t v
    using o(7) [rule_format, OF that] by (simp add: push_holds_def)
  show ?thesis
    using o(1,5,6,8) hist push commits by (intro exI [of _ ?b] exI [of _ "b_dir b1"]) (simp add: cfg)
qed


text \<open>A broker without a cluster on an empty directory.\<close>

lemma open_fresh:
  "open_with_cluster_and_id e now None i empty_dir
    = (Inr (sample_broker\<lparr>b_broker_id := i, b_acl := acl_from_env e\<rparr>), empty_dir)"
proof -
  have "idempotency_load empty_dir = Inr idempotency_default"
    by (simp add: idempotency_load_def load_all_idempotency_def empty_dir_def idempotency_default_def)
  moreover have "load_broker_topics empty_dir = Inr []" by (simp add: load_broker_topics_def load_ids_def empty_dir_def df_get_def)
  ultimately show ?thesis by (simp add: open_with_cluster_and_id_def load_logs_def sample_broker_def)
qed

lemma append_log_topics:
  assumes "history b t p h" and "small_payload x" and "length x \<le> max_payload_bytes e"
  shows "hm_contains (b_topics (snd (append_log e t p x b))) t" and "broker_topic_config (snd (append_log e t p x b)) t' = broker_topic_config b t'"
proof -
  have v: "validate_produce_payload e (length x) = Inr ()" using assms(3) by (simp add: validate_produce_payload_def)
  obtain mr where log: "hm_get (b_logs (ensure_log_with_config t p (snd (topic_mut t b)))) (t, p) = Some (log_of (Some mr) h)"
    using history_ensure_log [OF topic_mut_history [OF assms(1)]] by blast
  obtain m rec l where "snd (append_log e t p x b)
      = (snd (write_record e t p rec ((ensure_log_with_config t p (snd (topic_mut t b)))\<lparr>b_logs := l\<rparr>)))\<lparr>b_metrics := m\<rparr>"
    using append_log_eq [OF assms(1,2) v log] by auto
  moreover have "quiet (snd (topic_mut t b)) (snd (write_record e t p rec ((ensure_log_with_config t p (snd (topic_mut t b)))\<lparr>b_logs := l\<rparr>)))"
    using quiet_write_record by (rule quiet_trans [rotated]) simp
  ultimately have q: "quiet (snd (topic_mut t b)) (snd (append_log e t p x b))" by simp
  then show "hm_contains (b_topics (snd (append_log e t p x b))) t"
    using topic_mut_present [OF topic_mut_ok, of t b] by (auto simp: quiet_def hm_contains_def)
  have "broker_topic_config (snd (topic_mut t b)) t' = broker_topic_config b t'"
    by (simp add: topic_mut_def ensure_log_with_config_def persist_topics_def broker_topic_config_def Let_def split: prod.split sum.split option.split)
  with q show "broker_topic_config (snd (append_log e t p x b)) t' = broker_topic_config b t'" by (simp add: quiet_def)
qed


end
