(* ===== verification/Tests_Storage.thy ===== *)
theory Tests_Storage
  imports Log_Store Idempotency Ring_Queue
begin

text \<open>
  The unit tests of \<open>dmq-storage\<close> on the model.  A test is a predicate over the values that
  the source writes as literals: its setup, its calls and its assertions, with \<open>unwrap\<close> for a
  call that has to succeed.  The lemmas show that the tests pass for all such values, within
  the bounds of the formats where there are any.
\<close>

definition unwrap :: "'a io_result \<Rightarrow> ('a \<Rightarrow> bool) \<Rightarrow> bool" where
  "unwrap r f = (case r of Inl _ \<Rightarrow> False | Inr a \<Rightarrow> f a)"

lemma unwrap_simps [simp]: "unwrap (Inr a) f = f a" "unwrap (Inl err) f = False"
  by (simp_all add: unwrap_def)

section \<open>The fsync policy\<close>

text \<open>
  The test counts by itself: it advances the counter and asks whether the new value is a
  multiple of the period.
\<close>

fun counter_hits :: "nat \<Rightarrow> u32 \<Rightarrow> u32 \<Rightarrow> bool list" where
  "counter_hits 0 n c = []"
| "counter_hits (Suc k) n c = (unat (c + 1) mod unat n = 0) # counter_hits k n (c + 1)"

definition test_every_n :: bool where
  "test_every_n \<longleftrightarrow> counter_hits 6 3 0 = [False, False, True, False, False, True]"

fun append_decisions :: "env \<Rightarrow> nat \<Rightarrow> u32 \<Rightarrow> bool list" where
  "append_decisions e 0 c = []"
| "append_decisions e (Suc k) c =
     fst (should_fsync_after_append e c) # append_decisions e k (snd (should_fsync_after_append e c))"

lemma unat_u32_Suc: "Suc (unat c + k) < 2 ^ 32 \<Longrightarrow> unat (c + 1 :: u32) = Suc (unat c)"
  by (simp add: unat_word_ariths)

lemma counter_hits_period:
  assumes "unat c + k < 2 ^ 32"
  shows "counter_hits k n c = map (\<lambda>i. Suc i mod unat n = 0) [unat c..<unat c + k]"
  using assms
proof (induction k arbitrary: c)
  case (Suc k)
  have "unat (c + 1) = Suc (unat c)" using Suc.prems by (intro unat_u32_Suc [of _ k]) simp
  with Suc show ?case by (simp add: upt_conv_Cons del: upt_Suc)
qed simp

lemma append_decisions_period:
  assumes "fsync_policy_from_env e = EveryN n" and "unat c + k < 2 ^ 32"
  shows "append_decisions e k c = map (\<lambda>i. i mod unat n = 0) [unat c..<unat c + k]"
  using assms(2)
proof (induction k arbitrary: c)
  case (Suc k)
  have "unat (c + 1) = Suc (unat c)" using Suc.prems by (intro unat_u32_Suc [of _ k]) simp
  with Suc show ?case by (simp add: should_fsync_after_append_def assms(1) upt_conv_Cons del: upt_Suc)
qed simp

text \<open>
  The test passes, but the broker syncs other appends than the test counts: the decision
  looks at the counter before it moves, so the first append of each period is synced and
  not the last one.
\<close>

theorem test_every_n_passes: "test_every_n"
  by (simp add: test_every_n_def counter_hits_period upt_rec)

theorem fsync_first_of_period:
  assumes "fsync_policy_from_env e = EveryN 3"
  shows "append_decisions e 6 0 = [True, False, False, True, False, False]"
  using append_decisions_period [OF assms, of 0 6] by (simp add: upt_rec)

section \<open>Idempotency\<close>

definition test_duplicate_sequence :: "u16 \<Rightarrow> u16 \<Rightarrow> u64 \<Rightarrow> u64 \<Rightarrow> u64 \<Rightarrow> bool" where
  "test_duplicate_sequence t p pid sq off \<longleftrightarrow>
     (let state = idempotency_default\<lparr>entries := hm_insert (t, p, pid) (sq, off) (entries idempotency_default)\<rparr>
      in unwrap (resolve state t p pid sq) (\<lambda>action. action = ReturnOffset off))"

lemma test_duplicate_sequence_passes: "test_duplicate_sequence t p pid sq off"
  by (simp add: test_duplicate_sequence_def resolve_def)

section \<open>The log store\<close>

definition test_append_and_reload :: "env \<Rightarrow> u16 \<Rightarrow> u16 \<Rightarrow> bytes \<Rightarrow> bool" where
  "test_append_and_reload e t p payload \<longleftrightarrow>
     (let (r, d) = append_record e t p \<lparr>rec_offset = 0, rec_payload = payload\<rparr> empty_dir
      in unwrap r (\<lambda>_. unwrap (load_partition_log d t p None) (\<lambda>log.
           next_offset log = 1
         \<and> fr_records (log_fetch log 0 1024) \<noteq> [] \<and> rec_payload (hd (fr_records (log_fetch log 0 1024))) = payload)))"

lemma test_append_and_reload_passes:
  assumes "small_payload payload"
  shows "test_append_and_reload e t p payload"
proof -
  let ?r = "append_record e t p \<lparr>rec_offset = 0, rec_payload = payload\<rparr> empty_dir"
  have "fst ?r = Inr ()" using assms by (simp add: append_record_ok)
  moreover have "log_file_holds (snd ?r) t p [payload]"
    using append_record_holds [OF empty_dir_holds assms, where e = e] by simp
  then have "load_partition_log (snd ?r) t p None = Inr (log_of None [payload])" by (rule load_partition_log_holds)
  moreover have "fr_records (log_fetch (log_of None [payload]) 0 1024) = [\<lparr>rec_offset = 0, rec_payload = payload\<rparr>]"
    by (simp add: log_fetch_available available_def start_of_simps numbered_def)
  ultimately show ?thesis by (simp add: test_append_and_reload_def case_prod_unfold)
qed

section \<open>Metadata\<close>

definition test_broker_topic_list :: "u16 list \<Rightarrow> bool" where
  "test_broker_topic_list ids \<longleftrightarrow> unwrap (load_broker_topics (store_broker_topics ids empty_dir)) (\<lambda>l. l = ids)"

definition test_topic_group_list :: "u16 \<Rightarrow> u16 list \<Rightarrow> bool" where
  "test_topic_group_list t ids \<longleftrightarrow> unwrap (load_topic_groups (store_topic_groups t ids empty_dir) t) (\<lambda>l. l = ids)"

definition test_cgroup_partition_count :: "u16 \<Rightarrow> u16 \<Rightarrow> u32 \<Rightarrow> bool" where
  "test_cgroup_partition_count t g n \<longleftrightarrow>
     unwrap (load_cgroup_partition_count (store_cgroup_partition_count t g n empty_dir) t g) (\<lambda>m. m = n)"

definition test_idempotency_state :: "u16 \<Rightarrow> u16 \<Rightarrow> u64 \<Rightarrow> u64 \<Rightarrow> u64 \<Rightarrow> bool" where
  "test_idempotency_state t p pid sq off \<longleftrightarrow>
     (let d = store_idempotency_state t p pid sq off empty_dir
      in unwrap (load_idempotency_state d t p pid) (\<lambda>v. v = Some (sq, off))
       \<and> unwrap (load_all_idempotency d) (\<lambda>entries. hm_get entries (t, p, pid) = Some (sq, off)))"

definition test_committed_offset :: "u16 \<Rightarrow> u16 \<Rightarrow> u16 \<Rightarrow> u64 \<Rightarrow> bool" where
  "test_committed_offset g t p off \<longleftrightarrow>
     unwrap (load_committed_offset (store_committed_offset g t p off empty_dir) g t p) (\<lambda>v. v = Some off)"

definition test_topic_config :: "u16 \<Rightarrow> u16 \<Rightarrow> u32 \<Rightarrow> bool" where
  "test_topic_config t pc mr \<longleftrightarrow> unwrap (load_topic_config (store_topic_config t pc mr empty_dir) t) (\<lambda>v. v = Some (pc, mr))"

lemma df_contents_empty_dir: "df_contents empty_dir name = []"
  by (simp add: df_contents_def df_get_def empty_dir_def)

lemma test_id_lists_pass:
  assumes "length ids < 2 ^ 32"
  shows "test_broker_topic_list ids" "test_topic_group_list t ids"
  using assms by (simp_all add: test_broker_topic_list_def test_topic_group_list_def broker_topics.load_store topic_groups.load_store)

lemma test_metadata_files_pass:
  "test_cgroup_partition_count t g n" "test_committed_offset g t p off" "test_topic_config t pc mr"
proof -
  show "test_cgroup_partition_count t g n"
    by (simp add: test_cgroup_partition_count_def load_cgroup_partition_count_def store_cgroup_partition_count_def
        write_u32_def Let_def store_simps codec_simps df_contents_empty_dir write_at_end [of 0 "[]"])
  show "test_committed_offset g t p off"
    using committed_offsets.load_store [where v = off and k = "(g, t, p)" and d = empty_dir] by (simp add: test_committed_offset_def)
  show "test_topic_config t pc mr"
    using topic_configs.load_store [where v = "(pc, mr)" and k = t and d = empty_dir] by (simp add: test_topic_config_def)
qed

lemma test_idempotency_state_passes: "test_idempotency_state t p pid sq off"
proof -
  let ?d = "store_idempotency_state t p pid sq off empty_dir"
  have l: "load_idempotency_state ?d t p pid = Inr (Some (sq, off))"
    using idempotency_files.load_store [where v = "(sq, off)" and k = "(t, p, pid)" and d = empty_dir] by simp
  obtain out where "load_all_idempotency ?d = Inr out"
    using load_all_loop_total [OF store_idempotency_whole [OF empty_dir_whole]] unfolding load_all_idempotency_def by blast
  with l load_all_exact [OF this, of t p pid] show ?thesis by (auto simp: test_idempotency_state_def)
qed

section \<open>The memory-mapped queue\<close>

text \<open>Two messages are appended and popped, and the queue is opened again.\<close>

definition test_append_and_pop :: "u16 \<Rightarrow> u16 \<Rightarrow> u16 \<Rightarrow> bytes \<Rightarrow> bytes \<Rightarrow> bool" where
  "test_append_and_pop t g p x y \<longleftrightarrow>
     (let (r, d) = mq_open t g p empty_dir
      in unwrap r (\<lambda>q.
           let s2 = snd (mq_append y (snd (mq_append x (q, d))));
               (r1, s3) = mq_pop_front s2; (r2, s4) = mq_pop_front s3; (r3, s5) = mq_pop_front s4
           in r1 = Inr (Some x) \<and> r2 = Inr (Some y) \<and> r3 = Inr None
            \<and> unwrap (fst (mq_open t g p (snd s5))) (\<lambda>restored.
                mq_is_empty restored \<and> mq_head restored = mq_head (fst s5) \<and> mq_tail restored = mq_tail (fst s5))))"

definition test_survives_reopen :: "u16 \<Rightarrow> u16 \<Rightarrow> u16 \<Rightarrow> bytes \<Rightarrow> bytes \<Rightarrow> bool" where
  "test_survives_reopen t g p x y \<longleftrightarrow>
     (let (r, d) = mq_open t g p empty_dir
      in unwrap r (\<lambda>q.
           let d2 = snd (snd (mq_append y (snd (mq_append x (q, d))))); (r', d3) = mq_open t g p d2
           in unwrap r' (\<lambda>q'.
                let (r1, s4) = mq_pop_front (q', d3); (r2, s5) = mq_pop_front s4
                in mq_live_len q' = 2 \<and> r1 = Inr (Some x) \<and> r2 = Inr (Some y))))"

definition test_staging_queue :: "u16 \<Rightarrow> bytes \<Rightarrow> bool" where
  "test_staging_queue t x \<longleftrightarrow>
     (let (r, d) = mq_open t STAGING_GROUP_ID STAGING_PARTITION_ID empty_dir
      in unwrap r (\<lambda>q.
           let d1 = snd (snd (mq_append x (q, d)))
           in unwrap (fst (mq_open t STAGING_GROUP_ID STAGING_PARTITION_ID d1)) (\<lambda>restored. mq_live_len restored = 1)))"

lemma mq_append_key:
  assumes "mq_inv s"
  shows "mq_topic (fst (snd (mq_append x s))) = mq_topic (fst s)" "mq_group (fst (snd (mq_append x s))) = mq_group (fst s)"
    "mq_partition (fst (snd (mq_append x s))) = mq_partition (fst s)"
  using assms by (cases s; simp add: mq_append_eq)+

lemma mq_pop_key:
  "mq_topic (fst (snd (mq_pop_front s))) = mq_topic (fst s)" "mq_group (fst (snd (mq_pop_front s))) = mq_group (fst s)"
  "mq_partition (fst (snd (mq_pop_front s))) = mq_partition (fst s)"
  by (simp_all add: mq_pop_front_def Let_def case_prod_unfold)

lemma mq_reopen:
  assumes "mq_inv s" and "mq_topic (fst s) = t" and "mq_group (fst s) = g" and "mq_partition (fst s) = p"
  shows "mq_open t g p (snd s) = (Inr (fst s), snd s)"
  using mmap_queue_reopen [of "fst s" "snd s"] assms by simp

lemma mq_open_empty_dir:
  obtains q d where "mq_open t g p empty_dir = (Inr q, d)" "mq_inv (q, d)" "mq_abs (q, d) = []"
    "mq_topic q = t" "mq_group q = g" "mq_partition q = p"
proof -
  obtain q d where q: "mq_open t g p empty_dir = (Inr q, d)" "mq_inv (q, d)" "mq_abs (q, d) = []"
    using mq_open_fresh [of empty_dir t g p] by (auto simp: empty_dir_def df_get_def)
  moreover from q(1) have "mq_topic q = t \<and> mq_group q = g \<and> mq_partition q = p"
    by (auto simp: mq_open_def Let_def split: sum.splits)
  ultimately show thesis using that by blast
qed

lemma mq_live_len_abs: "mq_inv s \<Longrightarrow> unat (mq_live_len (fst s)) = length (mq_abs s)"
  using mq_live_len_count [of "fst s" "snd s"] by (simp add: mq_abs_def)

text \<open>A queue that holds exactly these messages.\<close>

lemma mq_append_two:
  assumes "mq_inv s" and "mq_abs s = []" and "length x \<le> 255" and "length y \<le> 255"
  shows "mq_inv (snd (mq_append x s))" "mq_abs (snd (mq_append x s)) = [x]"
    "mq_inv (snd (mq_append y (snd (mq_append x s))))" "mq_abs (snd (mq_append y (snd (mq_append x s)))) = [x, y]"
proof -
  have "mq_room (Suc 1) s" using assms(2) by (auto simp: mq_room_def mq_abs_def QUEUE_CAPACITY_def ring_read_def)
  note a = mq_append_ok [OF assms(1) this, of x]
  then show "mq_inv (snd (mq_append x s))" "mq_abs (snd (mq_append x s)) = [x]" using assms by (simp_all add: MAX_MSG_SIZE_def)
  from a have "mq_room (Suc 0) (snd (mq_append x s))" by simp
  from mq_append_ok [OF _ this, of y] a show
    "mq_inv (snd (mq_append y (snd (mq_append x s))))" "mq_abs (snd (mq_append y (snd (mq_append x s)))) = [x, y]"
    using assms by (simp_all add: MAX_MSG_SIZE_def)
qed

lemma mq_pop_none:
  assumes "mq_inv s" and "mq_abs s = []"
  shows "mq_pop_front s = (Inr None, s)" "mq_is_empty (fst s)"
proof -
  have "mq_head (fst s) = mq_tail (fst s)"
    using assms by (auto simp: mq_abs_def ring_read_def mq_count_def mq_inv_def word_unat_eq_iff split: if_splits)
  then show "mq_pop_front s = (Inr None, s)" "mq_is_empty (fst s)"
    by (cases s; simp add: mq_pop_front_def mq_is_empty_def)+
qed

lemma test_append_and_pop_passes:
  assumes "length x \<le> 255" and "length y \<le> 255"
  shows "test_append_and_pop t g p x y"
proof -
  obtain q d where q: "mq_open t g p empty_dir = (Inr q, d)" "mq_inv (q, d)" "mq_abs (q, d) = []"
    "mq_topic q = t" "mq_group q = g" "mq_partition q = p" by (rule mq_open_empty_dir)
  define s2 where "s2 = snd (mq_append y (snd (mq_append x (q, d))))"
  define s3 where "s3 = snd (mq_pop_front s2)"
  define s4 where "s4 = snd (mq_pop_front s3)"
  note a = mq_append_two [OF q(2,3) assms]
  have s2: "mq_inv s2" "mq_abs s2 = [x, y]" using a by (simp_all add: s2_def)
  have s3: "fst (mq_pop_front s2) = Inr (Some x)" "mq_inv s3" "mq_abs s3 = [y]" using mq_pop_Cons [OF s2] by (simp_all add: s3_def)
  have s4: "fst (mq_pop_front s3) = Inr (Some y)" "mq_inv s4" "mq_abs s4 = []" using mq_pop_Cons [OF s3(2,3)] by (simp_all add: s4_def)
  have "mq_open t g p (snd s4) = (Inr (fst s4), snd s4)"
    using q(4-6) by (intro mq_reopen [OF s4(2)]) (simp_all add: s4_def s3_def s2_def mq_pop_key mq_append_key q(2) a(1))
  then show ?thesis
    using q(1) s3(1) s4(1) mq_pop_none [OF s4(2,3)]
    by (simp add: test_append_and_pop_def case_prod_unfold Let_def s2_def [symmetric] s3_def [symmetric] s4_def [symmetric])
qed

lemma test_survives_reopen_passes:
  assumes "length x \<le> 255" and "length y \<le> 255"
  shows "test_survives_reopen t g p x y"
proof -
  obtain q d where q: "mq_open t g p empty_dir = (Inr q, d)" "mq_inv (q, d)" "mq_abs (q, d) = []"
    "mq_topic q = t" "mq_group q = g" "mq_partition q = p" by (rule mq_open_empty_dir)
  define s2 where "s2 = snd (mq_append y (snd (mq_append x (q, d))))"
  note a = mq_append_two [OF q(2,3) assms]
  have s2: "mq_inv s2" "mq_abs s2 = [x, y]" using a by (simp_all add: s2_def)
  have s3: "fst (mq_pop_front s2) = Inr (Some x)" "mq_inv (snd (mq_pop_front s2))" "mq_abs (snd (mq_pop_front s2)) = [y]"
    using mq_pop_Cons [OF s2] by simp_all
  have s4: "fst (mq_pop_front (snd (mq_pop_front s2))) = Inr (Some y)" using mq_pop_Cons [OF s3(2,3)] by simp
  have "mq_open t g p (snd s2) = (Inr (fst s2), snd s2)"
    using q(4-6) by (intro mq_reopen [OF s2(1)]) (simp_all add: s2_def mq_append_key q(2) a(1))
  moreover have "mq_live_len (fst s2) = 2" using mq_live_len_abs [OF s2(1)] s2(2) by (simp add: word_unat_eq_iff)
  ultimately show ?thesis
    using q(1) s3(1) s4 by (simp add: test_survives_reopen_def case_prod_unfold Let_def s2_def [symmetric])
qed

lemma test_staging_queue_passes:
  assumes "length x \<le> 255"
  shows "test_staging_queue t x"
proof -
  obtain q d where q: "mq_open t STAGING_GROUP_ID STAGING_PARTITION_ID empty_dir = (Inr q, d)" "mq_inv (q, d)" "mq_abs (q, d) = []"
    "mq_topic q = t" "mq_group q = STAGING_GROUP_ID" "mq_partition q = STAGING_PARTITION_ID" by (rule mq_open_empty_dir)
  define s1 where "s1 = snd (mq_append x (q, d))"
  have s1: "mq_inv s1" "mq_abs s1 = [x]" using mq_append_two [OF q(2,3) assms, of "[]"] by (simp_all add: s1_def)
  have "mq_open t STAGING_GROUP_ID STAGING_PARTITION_ID (snd s1) = (Inr (fst s1), snd s1)"
    using q(4-6) by (intro mq_reopen [OF s1(1)]) (simp_all add: s1_def mq_append_key q(2))
  moreover have "mq_live_len (fst s1) = 1" using mq_live_len_abs [OF s1(1)] s1(2) by (simp add: word_unat_eq_iff)
  ultimately show ?thesis
    using q(1) by (simp add: test_staging_queue_def case_prod_unfold Let_def s1_def [symmetric])
qed

section \<open>The partition log\<close>

definition test_append_offsets :: "bytes \<Rightarrow> bytes \<Rightarrow> bytes \<Rightarrow> bool" where
  "test_append_offsets a b c \<longleftrightarrow>
     (let (o1, l1) = log_append log_new a; (o2, l2) = log_append l1 b; (o3, l3) = log_append l2 c
      in o1 = 0 \<and> o2 = 1 \<and> o3 = 2 \<and> base_offset l3 = 0 \<and> next_offset l3 = 3 \<and> log_len l3 = 3)"

definition test_fetch_from_offset :: "bytes \<Rightarrow> bytes \<Rightarrow> bytes \<Rightarrow> bool" where
  "test_fetch_from_offset a b c \<longleftrightarrow>
     (let rs = fr_records (log_fetch (append_all log_new [a, b, c]) 1 1024)
      in length rs = 2 \<and> rec_offset (rs ! 0) = 1 \<and> rec_payload (rs ! 0) = b \<and> rec_offset (rs ! 1) = 2 \<and> rec_payload (rs ! 1) = c)"

definition test_fetch_max_bytes :: "bytes \<Rightarrow> bytes \<Rightarrow> bytes \<Rightarrow> nat \<Rightarrow> nat \<Rightarrow> bool" where
  "test_fetch_max_bytes a b c m n \<longleftrightarrow>
     (let log = append_all log_new [a, b, c]; r1 = fr_records (log_fetch log 0 m); r2 = fr_records (log_fetch log 1 n)
      in length r1 = 1 \<and> rec_payload (r1 ! 0) = a \<and> length r2 = 1 \<and> rec_payload (r2 ! 0) = b)"

definition test_retention :: "bytes \<Rightarrow> bytes \<Rightarrow> bytes \<Rightarrow> bytes \<Rightarrow> bool" where
  "test_retention a b c d \<longleftrightarrow>
     (let l3 = append_all (with_max_records 3) [a, b, c]; l4 = snd (log_append l3 d); rs = fr_records (log_fetch l4 0 1024)
      in base_offset l3 = 0 \<and> log_len l3 = 3 \<and> log_len l4 = 3 \<and> base_offset l4 = 1 \<and> next_offset l4 = 4
       \<and> rs \<noteq> [] \<and> rec_offset (rs ! 0) = 1 \<and> rec_payload (rs ! 0) = b)"

text \<open>The property test: every append returns the next of the expected offsets.\<close>

fun offsets_from :: "u64 \<Rightarrow> partition_log \<Rightarrow> bytes list \<Rightarrow> bool \<times> u64 \<times> partition_log" where
  "offsets_from expected log [] = (True, expected, log)"
| "offsets_from expected log (p # ps) =
     (let (off, log1) = log_append log p; (rest, expected', log2) = offsets_from (expected + 1) log1 ps
      in (off = expected \<and> rest, expected', log2))"

definition prop_append_offsets :: "bytes list \<Rightarrow> bool" where
  "prop_append_offsets payloads \<longleftrightarrow>
     (let (ok, expected, log) = offsets_from 0 log_new payloads
      in ok \<and> next_offset log = expected \<and> base_offset log \<le> next_offset log)"

lemma log_new_log_of: "log_new = log_of None []" "with_max_records m = log_of (Some m) []"
  by (simp_all add: log_of_Nil)

lemma test_append_offsets_passes: "test_append_offsets a b c"
  by (simp add: test_append_offsets_def log_new_log_of log_append_log_of log_len_def start_of_simps)

lemma test_fetch_from_offset_passes:
  assumes "length b + length c \<le> 1024"
  shows "test_fetch_from_offset a b c"
  using assms unfolding test_fetch_from_offset_def log_new_log_of append_all_log_of Let_def
  by (simp add: log_fetch_available available_def start_of_simps numbered_def upt_rec usize_sat_add_def usize_max_def)

lemma test_fetch_max_bytes_passes:
  assumes "m < length a + length b" and "n < length b + length c" and "length a + length b < 2 ^ 64" and "length b + length c < 2 ^ 64"
  shows "test_fetch_max_bytes a b c m n"
  using assms unfolding test_fetch_max_bytes_def log_new_log_of append_all_log_of Let_def
  by (simp add: log_fetch_available available_def start_of_simps numbered_def upt_rec usize_sat_add_def usize_max_def)

lemma fetch_loop_first: "m < usize_max \<Longrightarrow> \<exists>rest. fetch_loop m (r # rs) [] 0 = r # rest"
  using fetch_loop_batch [of m "r # rs"] by (cases "fetch_loop m (r # rs) [] 0") (auto simp: batch_spec_def)

lemma test_retention_passes: "test_retention a b c d"
proof -
  have usize_big: "1024 < usize_max" by (simp add: usize_max_def)
  let ?n = "available (Some 3) [a, b, c, d] 0"
  have "?n = \<lparr>rec_offset = 1, rec_payload = b\<rparr> # tl ?n" by (simp add: available_def start_of_simps numbered_def upt_rec)
  then obtain rest where "fetch_loop 1024 ?n [] 0 = \<lparr>rec_offset = 1, rec_payload = b\<rparr> # rest" using fetch_loop_first [of 1024] by (metis usize_big)
  then show ?thesis unfolding test_retention_def log_new_log_of append_all_log_of Let_def
    by (simp add: log_append_log_of log_fetch_available start_of_simps log_len_def)
qed

lemma offsets_from_log_of:
  "offsets_from (of_nat (length h)) (log_of None h) ps = (True, of_nat (length h + length ps), log_of None (h @ ps))"
proof (induction ps arbitrary: h)
  case (Cons p ps)
  from Cons [of "h @ [p]"] show ?case by (simp add: log_append_log_of add_ac)
qed simp

text \<open>
  The property test of the log holds for every sequence of payloads, of any number and
  length: the offsets that the appends return are consecutive, also where they wrap.
\<close>

theorem prop_append_offsets_holds: "prop_append_offsets payloads"
  using offsets_from_log_of [of "[]" payloads] by (simp add: prop_append_offsets_def log_new_log_of start_of_simps)

end
