(* ===== verification/Tests_Core.thy ===== *)
theory Tests_Core
  imports Tests_Storage Topic Fetch_Batch Cluster_State Ops_Server
begin

text \<open>
  The unit tests of \<open>dmq-core\<close> on the model, as in \<open>Tests_Storage\<close>: predicates over the
  literals of the tests, with lemmas that they pass for all values.
\<close>

section \<open>Access lists, tokens and limits\<close>

definition acl_default :: acl where
  "acl_default = \<lparr>acl_allowed = [], acl_deny_by_default = False\<rparr>"

definition test_explicit_allow :: "string \<Rightarrow> string \<Rightarrow> operation \<Rightarrow> u16 \<Rightarrow> bool" where
  "test_explicit_allow alice bob op t \<longleftrightarrow>
     (let acl = acl_default\<lparr>acl_allowed := List.insert (alice, op, t) (acl_allowed acl_default)\<rparr>
      in is_ok (acl_check acl alice op t) \<and> is_ok (acl_check acl bob op t))"

definition test_deny_by_default :: "string \<Rightarrow> operation \<Rightarrow> u16 \<Rightarrow> bool" where
  "test_deny_by_default who op t \<longleftrightarrow> \<not> is_ok (acl_check \<lparr>acl_allowed = [], acl_deny_by_default = True\<rparr> who op t)"

definition test_token :: "env \<Rightarrow> string \<Rightarrow> bytes \<Rightarrow> bool" where
  "test_token e secret wrong \<longleftrightarrow>
     (let e' = e(''DMQ_AUTH_TOKEN'' := Some secret)
      in is_ok (validate_token e' (as_bytes secret)) \<and> \<not> is_ok (validate_token e' wrong))"

definition test_clamp_fetch :: "env \<Rightarrow> u32 \<Rightarrow> bool" where
  "test_clamp_fetch e n \<longleftrightarrow> clamp_fetch_bytes e n = max_fetch_bytes e"

definition test_oversized_payload :: "env \<Rightarrow> bool" where
  "test_oversized_payload e \<longleftrightarrow>
     (case validate_produce_payload e (max_payload_bytes e + 1) of Inl (Io k _) \<Rightarrow> k = InvalidInput | _ \<Rightarrow> False)"

lemma test_acl_pass: "test_explicit_allow alice bob op t" "test_deny_by_default who op t"
  by (simp_all add: test_explicit_allow_def test_deny_by_default_def acl_default_def acl_check_def acl_is_configured_def is_ok_def io_err_def)

lemma test_token_passes: "wrong \<noteq> as_bytes secret \<Longrightarrow> test_token e secret wrong"
  by (simp add: test_token_def validate_token_def expected_token_def is_ok_def io_err_def)

lemma test_clamp_fetch_iff: "test_clamp_fetch e n \<longleftrightarrow> max_fetch_bytes e \<le> n"
  by (auto simp: test_clamp_fetch_def clamp_fetch_bytes_def min_def)

lemma test_clamp_fetch_passes: "test_clamp_fetch empty_env 1000000"
  by (simp add: test_clamp_fetch_iff max_fetch_bytes_def env_word_def empty_env_def DEFAULT_MAX_FETCH_BYTES_def)

lemma test_oversized_payload_passes: "test_oversized_payload e"
  by (simp add: test_oversized_payload_def validate_produce_payload_def io_err_def Let_def)

section \<open>Counters\<close>

definition test_counters :: bool where
  "test_counters \<longleftrightarrow>
     (let out = render_prometheus (record_request_latency 3 (record_commit (record_fetch 5 1 (record_produce 10 metrics_new))))
      in sublist ''dmq_produce_total 1'' out \<and> sublist ''dmq_fetch_records 1'' out
       \<and> sublist ''dmq_request_latency_ms_bucket'' out)"

lemma sublist_later: "sublist s b \<Longrightarrow> sublist s (a @ b)"
  by (auto simp: sublist_def) (metis append.assoc)

lemma render_prometheus_sublists:
  "sublist (''dmq_produce_total '' @ show_word (produce_total m)) (render_prometheus m)"
  "sublist (''dmq_fetch_records '' @ show_word (fetch_records m)) (render_prometheus m)"
  "sublist ''dmq_request_latency_ms_bucket'' (render_prometheus m)"
proof -
  have here: "sublist (a @ b) (a @ b @ c)" and first: "sublist a (a @ c)" for a b c :: string
    by (metis append.assoc prefix_def prefix_imp_sublist)+
  show "sublist (''dmq_produce_total '' @ show_word (produce_total m)) (render_prometheus m)"
    unfolding render_prometheus_def by (rule here sublist_later)+
  show "sublist (''dmq_fetch_records '' @ show_word (fetch_records m)) (render_prometheus m)"
    unfolding render_prometheus_def by (rule here sublist_later)+
  have eq: "''# HELP dmq_request_latency_ms_bucket Request latency histogram buckets''
      = ''# HELP '' @ ''dmq_request_latency_ms_bucket'' @ '' Request latency histogram buckets''" by simp
  have b: "sublist ''dmq_request_latency_ms_bucket'' (''# HELP dmq_request_latency_ms_bucket Request latency histogram buckets'' @ c)" for c
    unfolding eq append.assoc by (rule sublist_later, rule first)
  show "sublist ''dmq_request_latency_ms_bucket'' (render_prometheus m)"
    unfolding render_prometheus_def by (rule b sublist_later)+
qed

lemma test_counters_passes: "test_counters"
proof -
  let ?m = "record_request_latency 3 (record_commit (record_fetch 5 1 (record_produce 10 metrics_new)))"
  have one: "show_nat (Suc 0) = ''1''" by code_simp
  have "produce_total ?m = 1" "fetch_records ?m = 1"
    by (simp_all add: record_request_latency_def record_commit_def record_fetch_def record_produce_def metrics_new_def)
  then show ?thesis using render_prometheus_sublists [of ?m] by (simp add: test_counters_def Let_def one)
qed

section \<open>Batches and compression\<close>

definition test_batch_roundtrip :: "log_record list \<Rightarrow> bool" where
  "test_batch_roundtrip recs \<longleftrightarrow> unwrap (decode_records (encode_records recs)) (\<lambda>decoded. decoded = recs)"

definition test_lz4_roundtrip :: "lz4_lib \<Rightarrow> bytes \<Rightarrow> bool" where
  "test_lz4_roundtrip lz data \<longleftrightarrow>
     unwrap (wrap_batch lz CODEC_LZ4 data) (\<lambda>wrapped.
       wrapped ! 0 = CODEC_LZ4 \<and> unwrap (unwrap_batch lz wrapped) (\<lambda>out. out = data))"

lemma test_batch_roundtrip_passes:
  assumes "length recs \<le> 65535" and "\<forall>r\<in>set recs. length (rec_payload r) \<le> 65535"
  shows "test_batch_roundtrip recs"
proof -
  have "map truncate_record recs = recs" using assms(2) by (intro map_idI) (simp add: truncate_record_def)
  then show ?thesis using assms(1) by (simp add: test_batch_roundtrip_def decode_encode_records)
qed

text \<open>The compression test passes exactly for data that shrinks, but not below an eighth.\<close>

lemma test_lz4_roundtrip_iff:
  assumes "lz4_law lz"
  shows "test_lz4_roundtrip lz data \<longleftrightarrow>
    length (lz4_compress lz data) < length data \<and> length data \<le> length (lz4_compress lz data) * 8"
proof (cases "length data \<le> length (lz4_compress lz data) * 8")
  case True
  then have "lz4_decompress lz (lz4_compress lz data) (length (lz4_compress lz data) * 8) = Inr data"
    using assms by (simp add: lz4_law_def)
  with True show ?thesis
    by (auto simp: test_lz4_roundtrip_def wrap_batch_def unwrap_batch_def compress_def decompress_def CODEC_LZ4_def CODEC_NONE_def)
next
  case False
  then obtain msg where "lz4_decompress lz (lz4_compress lz data) (length (lz4_compress lz data) * 8) = Inl msg"
    using assms unfolding lz4_law_def by (meson not_le)
  with False show ?thesis
    by (auto simp: test_lz4_roundtrip_def wrap_batch_def unwrap_batch_def compress_def decompress_def CODEC_LZ4_def CODEC_NONE_def io_err_def)
qed

section \<open>Queues and partitions\<close>

definition test_partition_order :: "u16 \<Rightarrow> u16 \<Rightarrow> u16 \<Rightarrow> bytes \<Rightarrow> bytes \<Rightarrow> bool" where
  "test_partition_order t g p x y \<longleftrightarrow>
     (let (r, d) = partition_open t g p empty_dir
      in unwrap r (\<lambda>q.
           let s2 = snd (partition_append y (snd (partition_append x (q, d))));
               (r1, s3) = partition_pop_front s2; (r2, s4) = partition_pop_front s3; (r3, s5) = partition_pop_front s4
           in r1 = Inr (Some x) \<and> r2 = Inr (Some y) \<and> r3 = Inr None))"

lemma test_partition_order_passes:
  "length x \<le> 255 \<Longrightarrow> length y \<le> 255 \<Longrightarrow> test_partition_order t g p x y"
  using test_append_and_pop_passes [of x y t g p]
  by (simp add: test_partition_order_def test_append_and_pop_def partition_open_def partition_append_def partition_pop_front_def
      case_prod_unfold Let_def unwrap_def split: sum.splits)

definition test_queue_offsets :: "bytes \<Rightarrow> bytes \<Rightarrow> bytes \<Rightarrow> bool" where
  "test_queue_offsets a b c \<longleftrightarrow>
     (let (o1, q1) = queue_append a queue_new; (o2, q2) = queue_append b q1; (o3, q3) = queue_append c q2
      in o1 = 0 \<and> o2 = 1 \<and> o3 = 2)"

definition test_queue_fifo :: "bytes \<Rightarrow> bytes \<Rightarrow> bool" where
  "test_queue_fifo x y \<longleftrightarrow>
     (let q2 = snd (queue_append y (snd (queue_append x queue_new)));
          (r1, q3) = queue_pop_front q2; (r2, q4) = queue_pop_front q3
      in r1 = Some x \<and> r2 = Some y)"

definition test_ring_wraps :: "(nat \<Rightarrow> bytes) \<Rightarrow> bytes \<Rightarrow> bool" where
  "test_ring_wraps msg overflow \<longleftrightarrow>
     (let q = fold (\<lambda>i q. snd (queue_append (msg i) q)) [0..<QUEUE_CAPACITY] queue_new; q' = snd (queue_append overflow q)
      in queue_read_at 0 q \<noteq> None \<and> queue_read_at 0 q' = None \<and> queue_read_at 1 q' \<noteq> None)"

lemma queue_append_offsets:
  "fst (queue_append x q) = q_next_offset q" "q_next_offset (snd (queue_append x q)) = q_next_offset q + 1"
  "q_base_offset (snd (queue_append x q))
     = (if q_next_offset q - q_base_offset q = of_nat QUEUE_CAPACITY then q_base_offset q + 1 else q_base_offset q)"
  by (simp_all add: queue_append_def Let_def)

lemma test_queue_offsets_passes: "test_queue_offsets a b c"
  by (simp add: test_queue_offsets_def case_prod_unfold Let_def queue_append_offsets) (simp add: queue_new_def)

lemma test_queue_fifo_passes:
  assumes "length x \<le> 255" and "length y \<le> 255"
  shows "test_queue_fifo x y"
proof -
  have room: "queue_room (Suc 1) queue_new" by (simp add: queue_room_def q_len_def queue_new_def QUEUE_CAPACITY_def)
  define q1 where "q1 = snd (queue_append x queue_new)"
  define q2 where "q2 = snd (queue_append y q1)"
  have q1: "queue_inv q1" "queue_abs q1 = [x]" "queue_room (Suc 0) q1"
    using queue_append_not_full [OF queue_new_inv(1) room, of x] queue_new_inv(2) assms(1) by (simp_all add: q1_def MAX_MSG_SIZE_def)
  have q2: "queue_inv q2" "queue_abs q2 = [x, y]"
    using queue_append_not_full [OF q1(1,3), of y] q1(2) assms(2) by (simp_all add: q2_def MAX_MSG_SIZE_def)
  note p1 = queue_pop_Cons [OF q2]
  then have "fst (queue_pop_front (snd (queue_pop_front q2))) = Some y" using queue_pop_Cons [of "snd (queue_pop_front q2)" y "[]"] by simp
  with p1 show ?thesis by (simp add: test_queue_fifo_def case_prod_unfold Let_def q2_def q1_def)
qed

lemma queue_fill_offsets:
  "n \<le> QUEUE_CAPACITY \<Longrightarrow>
   q_next_offset (fold (\<lambda>i q. snd (queue_append (msg i) q)) [0..<n] queue_new) = of_nat n
   \<and> q_base_offset (fold (\<lambda>i q. snd (queue_append (msg i) q)) [0..<n] queue_new) = 0"
proof (induction n)
  case (Suc n)
  have "(of_nat n :: u64) \<noteq> of_nat QUEUE_CAPACITY"
    using Suc.prems by (simp add: word_unat_eq_iff QUEUE_CAPACITY_def unat_of_nat_u64)
  with Suc show ?case by (simp add: queue_append_offsets add.commute)
qed (simp add: queue_new_def)

lemma test_ring_wraps_passes: "test_ring_wraps msg overflow"
proof -
  have "(of_nat QUEUE_CAPACITY :: u64) = 10000" by (simp add: QUEUE_CAPACITY_def)
  then show ?thesis using queue_fill_offsets [of QUEUE_CAPACITY msg]
    by (simp add: test_ring_wraps_def Let_def queue_read_at_def queue_append_offsets word_le_nat_alt)
qed

section \<open>Consumer groups\<close>

definition test_new_group :: "u16 \<Rightarrow> u16 \<Rightarrow> bool" where
  "test_new_group t g \<longleftrightarrow> unwrap (fst (cgroup_create_new t g empty_dir)) (\<lambda>c. length (cg_partitions c) = 1)"

definition test_assign_grows :: "u16 \<Rightarrow> u16 \<Rightarrow> bool" where
  "test_assign_grows t g \<longleftrightarrow>
     (let (r, d) = cgroup_create_new t g empty_dir
      in unwrap r (\<lambda>c.
           let (r1, c1, d1) = assign_partition t (c, d); (r2, c2, d2) = assign_partition t (c1, d1)
           in r1 = Inr 0 \<and> r2 = Inr 1 \<and> length (cg_partitions c2) = 2))"

definition test_smallest_partition :: "u16 \<Rightarrow> u16 \<Rightarrow> bytes \<Rightarrow> bytes \<Rightarrow> bool" where
  "test_smallest_partition t g x y \<longleftrightarrow>
     (let (r, d) = cgroup_create_new t g empty_dir
      in unwrap r (\<lambda>c.
           let (r', d') = partition_open t g 2 d
           in unwrap r' (\<lambda>q2.
                let ps = cg_partitions c @ [q2]; (q1, _) = snd (partition_append y (snd (partition_append x (ps ! 0, d'))))
                in smallest_partition_index (c\<lparr>cg_partitions := ps[0 := q1]\<rparr>) = Inr 1)))"

lemma df_get_empty_dir: "df_get empty_dir n = None"
  by (simp add: df_get_def empty_dir_def)

lemma store_count_frame: "n \<noteq> cgroup_metadata_path t g \<Longrightarrow> df_get (store_cgroup_partition_count t g k d) n = df_get d n"
  by (simp add: store_cgroup_partition_count_def write_u32_def Let_def store_simps)

lemma cgroup_created:
  obtains q d where "cgroup_create_new t g empty_dir = (Inr \<lparr>cg_group_id = g, cg_partitions = [q], cg_consumer_count = 0\<rparr>, d)"
    "mq_inv (q, d)" "mq_abs (q, d) = []" "mq_key q = (t, g, 1)"
    "\<And>p. p \<noteq> 1 \<Longrightarrow> df_get d (partition_metadata_path t g p) = None \<and> df_get d (under_arr_path t g p) = None
        \<and> df_get d (under_size_path t g p) = None"
proof -
  let ?d = "store_cgroup_partition_count t g 1 empty_dir"
  have none: "df_get ?d (partition_metadata_path t g p) = None" "df_get ?d (under_arr_path t g p) = None"
    "df_get ?d (under_size_path t g p) = None" for p
    by (simp_all add: store_count_frame df_get_empty_dir path_keys)
  obtain q d where q: "mq_open t g 1 ?d = (Inr q, d)" "mq_inv (q, d)" "mq_abs (q, d) = []"
    using mq_open_fresh [OF none] by blast
  have "mq_key q = (t, g, 1)" using mq_open_key [of t g 1 ?d q] q(1) by simp
  moreover have "df_get d n = df_get ?d n" if "n \<noteq> partition_metadata_path t g 1" "n \<noteq> under_arr_path t g 1" "n \<noteq> under_size_path t g 1" for n
    using mq_open_frame [OF that, of ?d] q(1) by simp
  then have "df_get d (partition_metadata_path t g p) = None \<and> df_get d (under_arr_path t g p) = None
      \<and> df_get d (under_size_path t g p) = None" if "p \<noteq> 1" for p using that none by (simp add: path_keys)
  ultimately show thesis using q by (intro that [of q d]) (simp_all add: cgroup_create_new_def partition_open_def)
qed

lemma test_new_group_passes: "test_new_group t g"
  by (rule cgroup_created [of t g]) (simp add: test_new_group_def)

lemma test_assign_grows_passes: "test_assign_grows t g"
proof (rule cgroup_created [of t g])
  fix q d
  assume c: "cgroup_create_new t g empty_dir = (Inr \<lparr>cg_group_id = g, cg_partitions = [q], cg_consumer_count = 0\<rparr>, d)"
    and none: "\<And>p. p \<noteq> 1 \<Longrightarrow> df_get d (partition_metadata_path t g p) = None \<and> df_get d (under_arr_path t g p) = None
        \<and> df_get d (under_size_path t g p) = None"
  obtain q2 d2 where "mq_open t g 2 d = (Inr q2, d2)" using mq_open_fresh [of d t g 2] none [of 2] by auto
  with c show ?thesis by (simp add: test_assign_grows_def assign_partition_def partition_open_def Let_def)
qed

lemma test_smallest_partition_passes:
  assumes "length x \<le> 255" and "length y \<le> 255"
  shows "test_smallest_partition t g x y"
proof (rule cgroup_created [of t g])
  fix q d
  assume c: "cgroup_create_new t g empty_dir = (Inr \<lparr>cg_group_id = g, cg_partitions = [q], cg_consumer_count = 0\<rparr>, d)"
    and q: "mq_inv (q, d)" "mq_abs (q, d) = []" "mq_key q = (t, g, 1)"
    and none: "\<And>p. p \<noteq> 1 \<Longrightarrow> df_get d (partition_metadata_path t g p) = None \<and> df_get d (under_arr_path t g p) = None
        \<and> df_get d (under_size_path t g p) = None"
  obtain q2 d2 where q2: "mq_open t g 2 d = (Inr q2, d2)" "mq_inv (q2, d2)" "mq_abs (q2, d2) = []"
    using mq_open_fresh [of d t g 2] none [of 2] by auto
  have key: "mq_key q2 = (t, g, 2)" using mq_open_key [of t g 2 d q2] q2(1) by simp
  have "df_get d2 n = df_get d n" if "n \<notin> mq_files q2" for n
    using mq_open_frame [of n t g 2 d] that q2(1) key by (simp add: mq_files_def mq_key_def)
  then have q1: "mq_inv (q, d2)" "mq_abs (q, d2) = []" using mq_other_queue [of q2 q d2 d] key q by auto
  note a = mq_append_two [OF q1 assms]
  have "unat (mq_live_len (fst (snd (mq_append y (snd (mq_append x (q, d2))))))) = 2" using mq_live_len_abs [OF a(3)] a(4) by simp
  moreover have "unat (mq_live_len q2) = 0" using mq_live_len_abs [OF q2(2)] q2(3) by simp
  ultimately show ?thesis using c q2(1)
    by (simp add: test_smallest_partition_def partition_open_def partition_append_def partition_len_def
        smallest_partition_index_def case_prod_unfold Let_def word_less_nat_alt)
qed

section \<open>The cluster\<close>

definition test_seed :: cluster_config where
  "test_seed =
     \<lparr>cc_min_insync_replicas = 2,
      cc_brokers = [\<lparr>node_id = 1, node_host = ''127.0.0.1'', node_port = 7777\<rparr>,
                    \<lparr>node_id = 2, node_host = ''127.0.0.1'', node_port = 7778\<rparr>,
                    \<lparr>node_id = 3, node_host = ''127.0.0.1'', node_port = 7779\<rparr>],
      cc_assignments = [\<lparr>pa_topic_id = 1, pa_partition_id = 0, pa_leader = 1, pa_replicas = [1, 2, 3]\<rparr>]\<rparr>"

definition test_config_roundtrip :: "cluster_config \<Rightarrow> bool" where
  "test_config_roundtrip cfg \<longleftrightarrow> unwrap (cluster_config_decode (cluster_config_encode cfg)) (\<lambda>decoded. cfg = decoded)"

definition test_leader_lookup :: bool where
  "test_leader_lookup \<longleftrightarrow>
     cc_leader_for test_seed 1 0 = Some 1 \<and> cc_is_replica test_seed 2 1 0 \<and> \<not> cc_is_leader test_seed 2 1 0
     \<and> leader_addr test_seed 1 0 = Some ''127.0.0.1:7777''"

definition test_state_roundtrip :: "u64 \<Rightarrow> cluster_config \<Rightarrow> bool" where
  "test_state_roundtrip now seed \<longleftrightarrow>
     (let state = from_seed now seed in unwrap (cluster_state_decode (cluster_state_encode state)) (\<lambda>decoded. state = decoded))"

definition test_bootstrap :: "u64 \<Rightarrow> u64 \<Rightarrow> bool" where
  "test_bootstrap now now' \<longleftrightarrow>
     (let (r, d) = open_or_bootstrap now test_seed empty_dir
      in unwrap r (\<lambda>state. cs_leader_for state 1 0 = Some 1 \<and> leader_epoch state 1 0 = 1
         \<and> unwrap (fst (open_or_bootstrap now' test_seed d)) (\<lambda>reloaded. cs_assignments reloaded = cs_assignments state)))"

definition test_failover :: "u64 \<Rightarrow> bool" where
  "test_failover start \<longleftrightarrow>
     (let now = 100000; s1 = record_heartbeat 3 now (record_heartbeat 2 now (from_seed start test_seed));
          s2 = s1\<lparr>cs_broker_last_seen_ms := hm_insert 1 (now - 20000) (cs_broker_last_seen_ms s1)\<rparr>;
          (s3, changed) = failover_dead_leaders now 10000 s2
      in length changed = 1 \<and> cs_leader_for s3 1 0 = Some 2 \<and> leader_epoch s3 1 0 = 2)"

definition test_cluster_info :: "u64 \<Rightarrow> u64 \<Rightarrow> cluster_config \<Rightarrow> bool" where
  "test_cluster_info now now' seed \<longleftrightarrow>
     (let state = from_seed now seed
      in unwrap (decode_cluster_info now' (encode_cluster_info state)) (\<lambda>decoded. cs_assignments decoded = cs_assignments state))"

definition test_controller :: "env \<Rightarrow> u64 \<Rightarrow> bool" where
  "test_controller e now \<longleftrightarrow> controller_id e (from_seed now test_seed) = Some 1"

lemma test_seed_ok: "config_ok test_seed"
proof -
  have "valid_str ''127.0.0.1''"
    using utf8_valid_ascii [of "as_bytes ''127.0.0.1''" "[]"] by (simp add: valid_str_def as_bytes_def)
  then show ?thesis by (simp add: config_ok_def test_seed_def small_list_def node_ok_def)
qed

lemma from_seed_ok:
  assumes "config_ok seed" and "distinct (map node_id (cc_brokers seed))"
  shows "state_ok (from_seed now seed)"
proof -
  have "fold (\<lambda>b m. hm_insert (node_id b) now m) bs acc = acc @ map (\<lambda>b. (node_id b, now)) bs"
    if "distinct (map fst acc @ map node_id bs)" for bs and acc :: "(broker_id, u64) hmap"
    using that
  proof (induction bs arbitrary: acc)
    case (Cons b bs)
    then have "hm_insert (node_id b) now acc = acc @ [(node_id b, now)]" by (intro hm_insert_fresh) (auto simp: map_of_eq_None_iff)
    then show ?case using Cons by simp
  qed simp
  from this [of "[]" "cc_brokers seed"] show ?thesis using assms
    by (auto simp: state_ok_def config_ok_def from_seed_def small_list_def o_def)
qed

lemma test_seed_state_ok: "state_ok (from_seed now test_seed)"
  by (rule from_seed_ok [OF test_seed_ok]) (simp add: test_seed_def)

lemma test_config_roundtrip_passes: "config_ok cfg \<Longrightarrow> test_config_roundtrip cfg"
  by (simp add: test_config_roundtrip_def cluster_config_roundtrip)

lemma test_leader_lookup_passes: "test_leader_lookup"
proof -
  have "digit_char 7 = CHR ''7''" by code_simp
  then have "show_nat 7777 = ''7777''"
    by (simp add: show_nat.simps [of 7777] show_nat.simps [of 777] show_nat.simps [of 77] show_nat.simps [of 7])
  then show ?thesis
    by (simp add: test_leader_lookup_def cc_leader_for_def cc_is_replica_def cc_is_leader_def leader_addr_def cc_assignment_def
        cc_replicas_for_def broker_addr_def cc_broker_def test_seed_def)
qed

lemma test_state_roundtrip_passes:
  "config_ok seed \<Longrightarrow> distinct (map node_id (cc_brokers seed)) \<Longrightarrow> test_state_roundtrip now seed"
  by (simp add: test_state_roundtrip_def Let_def cluster_state_decode_encode from_seed_ok)

lemma test_bootstrap_passes: "test_bootstrap now now'"
  using cluster_state_decode_encode [OF test_seed_state_ok [of now]]
  by (simp add: test_bootstrap_def open_or_bootstrap_def df_get_empty_dir cs_store_def store_simps Let_def)
    (simp add: cs_leader_for_def leader_epoch_def cs_find_def from_seed_def test_seed_def)

lemma test_failover_passes: "test_failover start"
  by (simp add: test_failover_def failover_eq from_seed_def test_seed_def record_heartbeat_def promote_def candidate_def promoted_def
      broker_alive_def cs_leader_for_def leader_epoch_def cs_find_def sat_sub_def sat_add_def Let_def)

lemma test_cluster_info_passes:
  assumes "config_ok seed" and "distinct (map node_id (cc_brokers seed))"
  shows "test_cluster_info now now' seed"
  using decode_body_encode [OF from_seed_ok [OF assms, of now], of "[]"]
  by (simp add: test_cluster_info_def Let_def decode_cluster_info_def encode_cluster_info_def)

lemma test_controller_passes: "e ''DMQ_CONTROLLER_ID'' = None \<Longrightarrow> test_controller e now"
  by (simp add: test_controller_def controller_id_def controller_broker_id_def from_seed_def test_seed_def min_id_def)

end
