(* ===== verification/Tests_Protocol.thy ===== *)
theory Tests_Protocol
  imports Tests_Storage Framing
begin

text \<open>
  The unit tests of \<open>dmq-protocol\<close> on the model.  The requests of the tests are variables, so
  each round trip is shown for all requests that the format can carry.
\<close>

section \<open>Requests\<close>

definition test_producer_register :: "producer_register \<Rightarrow> bool" where
  "test_producer_register reg \<longleftrightarrow> unwrap (producer_register_decode (producer_register_encode reg)) (\<lambda>decoded. reg = decoded)"

definition test_consumer_register :: "consumer_register \<Rightarrow> bool" where
  "test_consumer_register reg \<longleftrightarrow> unwrap (consumer_register_decode (consumer_register_encode reg)) (\<lambda>decoded. reg = decoded)"

definition test_echo_and_pcm :: "string \<Rightarrow> bytes \<Rightarrow> bool" where
  "test_echo_and_pcm s payload \<longleftrightarrow>
     unwrap (parse_frame (ECHO # as_bytes s)) (\<lambda>m. m = Echo s) \<and> unwrap (parse_frame (PCM # payload)) (\<lambda>m. m = Pcm payload)"

definition test_fetch_request :: "fetch_request \<Rightarrow> bool" where
  "test_fetch_request req \<longleftrightarrow> unwrap (fetch_decode (fetch_encode req)) (\<lambda>decoded. req = decoded)"

definition test_commit_offset :: "commit_offset_request \<Rightarrow> bool" where
  "test_commit_offset req \<longleftrightarrow> unwrap (commit_offset_decode (commit_offset_encode req)) (\<lambda>decoded. req = decoded)"

definition test_produce_request :: "produce_request \<Rightarrow> bool" where
  "test_produce_request req \<longleftrightarrow> unwrap (produce_decode (produce_encode req)) (\<lambda>decoded. req = decoded)"

definition test_create_topic :: "create_topic_request \<Rightarrow> bool" where
  "test_create_topic req \<longleftrightarrow> unwrap (create_topic_decode (create_topic_encode req)) (\<lambda>decoded. req = decoded)"

definition test_replicate_request :: "replicate_request \<Rightarrow> bool" where
  "test_replicate_request req \<longleftrightarrow>
     unwrap (replicate_encode req) (\<lambda>bs. unwrap (replicate_decode bs) (\<lambda>decoded. req = decoded))"

definition test_idempotent_produce :: "idempotent_produce_request \<Rightarrow> bool" where
  "test_idempotent_produce req \<longleftrightarrow>
     unwrap (idempotent_produce_decode (idempotent_produce_encode req)) (\<lambda>decoded. req = decoded)"

lemma test_request_roundtrips_pass:
  "test_producer_register reg" "test_consumer_register creg" "test_fetch_request req" "test_commit_offset creq"
  "test_produce_request preq" "test_create_topic treq" "test_idempotent_produce ireq"
  using preg.dec_enc [of reg] creg.dec_enc [of creg] fetchc.dec_enc [of req] commitc.dec_enc [of creq] producec.dec_enc [of preq]
    ctopic.dec_enc [of treq] idemp.dec_enc [of ireq]
  by (simp_all add: test_producer_register_def test_consumer_register_def test_fetch_request_def test_commit_offset_def
      test_produce_request_def test_create_topic_def test_idempotent_produce_def)

lemma test_replicate_request_passes: "length (repl_payload req) < 2 ^ 16 \<Longrightarrow> test_replicate_request req"
  using repl.dec_enc [of req] by (auto simp: test_replicate_request_def)

lemma test_echo_and_pcm_passes: "valid_str s \<Longrightarrow> test_echo_and_pcm s payload"
  using encode_message_parse [of "Echo s"] encode_message_parse [of "Pcm payload"]
  by (simp add: test_echo_and_pcm_def encode_message_def)

section \<open>Frames\<close>

definition frame_roundtrip :: "frame \<Rightarrow> wire_format \<Rightarrow> frame io_result" where
  "frame_roundtrip f fmt = res_bind (write_frame f fmt) (\<lambda>w. res_bind (read_frame w) (\<lambda>(decoded, _). Inr decoded))"

definition test_v1_frame :: "string \<Rightarrow> bool" where
  "test_v1_frame s \<longleftrightarrow> (let f = frame_v1 (Echo s) in unwrap (frame_roundtrip f V1) (\<lambda>decoded. decoded = f))"

definition test_v2_frame :: "u32 \<Rightarrow> u16 \<Rightarrow> bytes \<Rightarrow> bool" where
  "test_v2_frame cid version token \<longleftrightarrow>
     (let f = frame_v2 cid (Handshake \<lparr>hs_protocol_version = version, hs_auth_token = token\<rparr>)
      in unwrap (frame_roundtrip f V2) (\<lambda>decoded. correlation_id decoded = cid \<and> frame_message decoded = frame_message f))"

definition test_validate_version :: "u16 \<Rightarrow> bool" where
  "test_validate_version unknown \<longleftrightarrow>
     \<not> is_ok (validate_protocol_version unknown) \<and> validate_protocol_version 2 = Inr 2"

lemma test_v1_frame_passes:
  assumes "valid_str s" and "length s \<le> 253"
  shows "test_v1_frame s"
proof -
  let ?fr = "ECHO # as_bytes s"
  have e: "encode_message (Echo s) = Inr ?fr" by (simp add: encode_message_def)
  then obtain w where w: "write_frame (frame_v1 (Echo s)) V1 = Inr w" by (simp add: write_frame_def frame_v1_def write_message_def)
  have "read_frame (w @ []) = Inr (frame_v1 (Echo s), V1, [])"
    using v1_frame_readable [OF _ e w, of "[]"] assms by (simp add: as_bytes_def)
  with w show ?thesis by (simp add: test_v1_frame_def frame_roundtrip_def)
qed

lemma test_v2_frame_passes:
  assumes "length token \<le> 65525"
  shows "test_v2_frame cid version token"
proof -
  let ?m = "Handshake \<lparr>hs_protocol_version = version, hs_auth_token = token\<rparr>"
  obtain fr where e: "encode_message ?m = Inr fr" "parse_frame fr = Inr ?m" "fr \<noteq> []"
    using assms message_roundtripE [of ?m] by auto
  have "5 + length fr < 2 ^ 16" using e(1) assms by (auto simp: encode_message_def handshake_encode_def)
  moreover obtain w where w: "write_frame (frame_v2 cid ?m) V2 = Inr w" using e(1) by (simp add: write_frame_def frame_v2_def Let_def)
  ultimately have "read_frame (w @ []) = Inr (frame_v2 cid ?m, V2, [])" using read_v2_write [OF e, of cid w "[]"] by (simp add: frame_v2_def)
  with w show ?thesis by (simp add: test_v2_frame_def frame_roundtrip_def Let_def) (simp add: frame_v2_def)
qed

lemma test_validate_version_iff: "test_validate_version unknown \<longleftrightarrow> unknown \<noteq> 1 \<and> unknown \<noteq> 2"
  using validate_version_iff [of unknown] validate_version_iff [of 2 2]
  by (auto simp: test_validate_version_def is_ok_def split: sum.split)

end
