(* ===== verification/Tests_Broker.thy ===== *)
theory Tests_Broker
  imports Server_Process Restart Tests_Storage
begin

text \<open>
  The unit tests of \<open>dmq-broker\<close> on the model: of the broker, of the group coordinator and of
  replication.  As in \<open>Tests_Storage\<close> a test is a predicate over the values that the source
  writes as literals, and the lemmas show that it passes for all of them.
\<close>

definition calls :: "'a io_result \<times> 's \<Rightarrow> ('a \<Rightarrow> 's \<Rightarrow> bool) \<Rightarrow> bool" where
  "calls r f = unwrap (fst r) (\<lambda>a. f a (snd r))"

lemma calls_simps [simp]: "calls (Inr a, s) f = f a s" "calls (Inl err, s) f = False"
  by (simp_all add: calls_def)

section \<open>The coordinator\<close>

definition fresh_member :: "u64 \<Rightarrow> group_member" where
  "fresh_member i = \<lparr>gm_member_id = i, gm_generation = 1, gm_assigned_partitions = [], gm_last_seen_ms = 0\<rparr>"

definition test_range_assign :: bool where
  "test_range_assign \<longleftrightarrow>
     (let assigned = range_assign 4 (hm_insert 2 (fresh_member 2) (hm_insert 1 (fresh_member 1) [])) 1
      in map_option length (hm_get assigned 1) = Some 2 \<and> map_option length (hm_get assigned 2) = Some 2
       \<and> card (set (concat (map snd assigned))) = 4)"

definition test_join :: "u16 \<Rightarrow> u16 \<Rightarrow> u16 \<Rightarrow> u64 \<Rightarrow> bool" where
  "test_join g t pc now \<longleftrightarrow>
     (let ((i, gen, parts), st) = group_join 0 pc now (group_new g t) in i > 0 \<and> gen = 2 \<and> parts \<noteq> [])"

definition test_stale_member :: "u16 \<Rightarrow> u16 \<Rightarrow> u16 \<Rightarrow> u64 \<Rightarrow> u64 \<Rightarrow> u64 \<Rightarrow> bool" where
  "test_stale_member g t pc joined now tmo \<longleftrightarrow>
     (let st = snd (group_join 1 pc joined (group_new g t)); (expired, st1) = expire_stale_members now tmo st
      in expired \<and> gs_members st1 = [])"

lemma test_range_assign_passes: "test_range_assign"
proof -
  have ids: "eligible_ids [(1, fresh_member 1), (2, fresh_member 2)] 1 = [1, 2]" by (simp add: eligible_ids_def fresh_member_def)
  have "(4 :: nat) div Suc (Suc 0) = 2" "(4 :: nat) mod Suc (Suc 0) = 0" unfolding numeral_2_eq_2 [symmetric] by simp_all
  with ids range_assign_eq [of "[(1, fresh_member 1), (2, fresh_member 2)]" 1 4]
  have "range_assign 4 [(1, fresh_member 1), (2, fresh_member 2)] 1 = [(1, [0, 1]), (2, [2, 3])]"
    by (simp add: Let_def quota_def upt_rec)
  then show ?thesis by (simp add: test_range_assign_def)
qed

lemma first_join:
  assumes "pc \<noteq> 0" and "i = (if m = 0 then 1 else m)"
  shows "group_join m pc now (group_new g t) = ((i, 2, map of_nat [0..<unat pc]),
    \<lparr>gs_group_id = g, gs_topic_id = t, gs_generation = 2, gs_members = [(i, \<lparr>gm_member_id = i, gm_generation = 2,
       gm_assigned_partitions = map of_nat [0..<unat pc], gm_last_seen_ms = now\<rparr>)], gs_rebalance_pending = False\<rparr>)"
proof -
  have gen: "sat_add 1 1 = (2 :: u32)" by (simp add: sat_add_def)
  have i: "(if m = 0 then next_member_id [] else m) = i" using assms(2) by (simp add: next_member_id_def)
  have "eligible_ids [(i, \<lparr>gm_member_id = i, gm_generation = 2, gm_assigned_partitions = [], gm_last_seen_ms = now\<rparr>)] 2 = [i]"
    by (simp add: eligible_ids_def)
  from range_assign_single [OF this assms(1)] show ?thesis
    unfolding group_join_def group_new_def group_state.simps i by (simp add: Let_def gen apply_assignments_def)
qed

lemma test_join_passes: "pc \<noteq> 0 \<Longrightarrow> test_join g t pc now"
  using first_join [of pc 1 0] by (simp add: test_join_def unat_gt_0)

lemma test_stale_member_passes: "pc \<noteq> 0 \<Longrightarrow> tmo < sat_sub now joined \<Longrightarrow> test_stale_member g t pc joined now tmo"
  using first_join [of pc 1 1] by (simp add: test_stale_member_def expire_stale_members_def)

section \<open>The broker\<close>

definition broker_setup :: "env \<Rightarrow> u64 \<Rightarrow> u16 \<Rightarrow> (broker \<Rightarrow> bool) \<Rightarrow> bool" where
  "broker_setup e now t test \<longleftrightarrow>
     unwrap (broker_new e now (Inr None)) (\<lambda>b. calls (register_producer \<lparr>preg_port = 7778, preg_topic_id = t\<rparr> b) (\<lambda>_ b1. test b1))"

definition setup_with_group :: "env \<Rightarrow> u64 \<Rightarrow> u16 \<Rightarrow> u16 \<Rightarrow> (broker \<Rightarrow> bool) \<Rightarrow> bool" where
  "setup_with_group e now t g test \<longleftrightarrow>
     broker_setup e now t (\<lambda>b. calls (register_consumer \<lparr>creg_port = 7779, creg_topic_id = t, creg_group_id = g\<rparr> b) (\<lambda>_ b1. test b1))"

definition test_auto_creates_topic :: "env \<Rightarrow> u64 \<Rightarrow> u16 \<Rightarrow> bool" where
  "test_auto_creates_topic e now t \<longleftrightarrow>
     unwrap (broker_new e now (Inr None)) (\<lambda>b. calls (register_producer \<lparr>preg_port = 7778, preg_topic_id = t\<rparr> b)
       (\<lambda>code b1. code = 0 \<and> hm_contains (b_topics b1) t))"

definition test_staging_without_groups :: "env \<Rightarrow> u64 \<Rightarrow> u16 \<Rightarrow> bytes \<Rightarrow> bytes \<Rightarrow> bool" where
  "test_staging_without_groups e now t x y \<longleftrightarrow>
     broker_setup e now t (\<lambda>b. calls (produce_pcm e t x b) (\<lambda>(_, o1) b1. calls (produce_pcm e t y b1) (\<lambda>(_, o2) b2. o1 = 0 \<and> o2 = 1)))"

definition test_consume_in_order :: "env \<Rightarrow> u64 \<Rightarrow> u16 \<Rightarrow> u16 \<Rightarrow> bytes \<Rightarrow> bytes \<Rightarrow> bool" where
  "test_consume_in_order e now t g x y \<longleftrightarrow>
     setup_with_group e now t g (\<lambda>b. calls (produce_pcm e t x b) (\<lambda>_ b1. calls (produce_pcm e t y b1) (\<lambda>_ b2.
       calls (consume_from_partition t g 0 b2) (\<lambda>r1 b3. calls (consume_from_partition t g 0 b3) (\<lambda>r2 _.
         r1 = (True, Some x) \<and> r2 = (True, Some y))))))"

definition test_two_groups :: "env \<Rightarrow> u64 \<Rightarrow> u16 \<Rightarrow> u16 \<Rightarrow> u16 \<Rightarrow> bytes \<Rightarrow> bytes \<Rightarrow> bool" where
  "test_two_groups e now t g h x y \<longleftrightarrow>
     setup_with_group e now t g (\<lambda>b.
       calls (register_consumer \<lparr>creg_port = 7780, creg_topic_id = t, creg_group_id = h\<rparr> b) (\<lambda>_ b0.
       calls (produce_pcm e t x b0) (\<lambda>_ b1. calls (produce_pcm e t y b1) (\<lambda>_ b2.
       calls (consume_from_partition t g 0 b2) (\<lambda>a b3. calls (consume_from_partition t h 0 b3) (\<lambda>c b4.
       calls (consume_from_partition t g 0 b4) (\<lambda>a2 _. a = (True, Some x) \<and> c = (True, Some x) \<and> a2 = (True, Some y))))))))"

definition test_staging_drains :: "env \<Rightarrow> u64 \<Rightarrow> u16 \<Rightarrow> u16 \<Rightarrow> bytes \<Rightarrow> bytes \<Rightarrow> bool" where
  "test_staging_drains e now t g x y \<longleftrightarrow>
     broker_setup e now t (\<lambda>b. calls (produce_pcm e t x b) (\<lambda>_ b1.
       calls (register_consumer \<lparr>creg_port = 7779, creg_topic_id = t, creg_group_id = g\<rparr> b1) (\<lambda>_ b2.
       calls (produce_pcm e t y b2) (\<lambda>_ b3.
       calls (consume_from_partition t g 0 b3) (\<lambda>r1 b4. calls (consume_from_partition t g 0 b4) (\<lambda>r2 _.
         r1 = (True, Some x) \<and> r2 = (True, Some y)))))))"

definition test_reopen_staged :: "env \<Rightarrow> u64 \<Rightarrow> u16 \<Rightarrow> bytes \<Rightarrow> bool" where
  "test_reopen_staged e now t x \<longleftrightarrow>
     calls (broker_open e now (Inr None) empty_dir) (\<lambda>b _.
     calls (register_producer \<lparr>preg_port = 7778, preg_topic_id = t\<rparr> b) (\<lambda>_ b1.
     calls (produce_pcm e t x b1) (\<lambda>_ b2.
     calls (broker_open e now (Inr None) (b_dir b2)) (\<lambda>b3 _. topic_staging_len b3 t = Some 1))))"

definition fetch_all :: "u16 \<Rightarrow> fetch_request" where
  "fetch_all t = \<lparr>fetch_topic_id = t, fetch_partition_id = 0, fetch_offset = 0, fetch_max_bytes = 1024, fetch_max_wait_ms = 0\<rparr>"

definition test_commit_and_fetch :: "env \<Rightarrow> u64 \<Rightarrow> u16 \<Rightarrow> u16 \<Rightarrow> u64 \<Rightarrow> bytes \<Rightarrow> bytes \<Rightarrow> bool" where
  "test_commit_and_fetch e now t g off x y \<longleftrightarrow>
     broker_setup e now t (\<lambda>b. calls (produce_pcm e t x b) (\<lambda>_ b1. calls (produce_pcm e t y b1) (\<lambda>_ b2.
       calls (fetch_log e (fetch_all t) b2) (\<lambda>rs b3.
         length rs = 2 \<and> rec_payload (rs ! 0) = x
         \<and> committed_offset (broker_commit_offset \<lparr>commit_group_id = g, commit_topic_id = t, commit_partition_id = 0,
               commit_offset_at = off\<rparr> b3) g t 0 = Some off))))"

definition test_create_and_describe :: "env \<Rightarrow> u64 \<Rightarrow> u16 \<Rightarrow> u16 \<Rightarrow> u32 \<Rightarrow> bool" where
  "test_create_and_describe e now t pc mr \<longleftrightarrow>
     unwrap (broker_new e now (Inr None)) (\<lambda>b. calls (create_topic (topic_config_new t pc mr) b) (\<lambda>code b1.
       code = 0 \<and> (be_at 0 2 (describe_topic b1 t) :: u16) = pc \<and> (be_at 24 2 (describe_topic b1 t) :: u16) = b_broker_id b1))"

definition test_log_survives_reopen :: "env \<Rightarrow> u64 \<Rightarrow> u16 \<Rightarrow> bytes \<Rightarrow> bytes \<Rightarrow> bool" where
  "test_log_survives_reopen e now t x y \<longleftrightarrow>
     calls (broker_open e now (Inr None) empty_dir) (\<lambda>b _.
     calls (append_log e t 0 x b) (\<lambda>_ b1. calls (append_log e t 0 y b1) (\<lambda>_ b2.
     calls (broker_open e now (Inr None) (b_dir b2)) (\<lambda>b3 _. calls (fetch_log e (fetch_all t) b3) (\<lambda>rs _.
       length rs = 2 \<and> rec_payload (rs ! 0) = x \<and> rec_payload (rs ! 1) = y)))))"

definition test_get_lag :: "env \<Rightarrow> u64 \<Rightarrow> u16 \<Rightarrow> u16 \<Rightarrow> bytes \<Rightarrow> bytes \<Rightarrow> bool" where
  "test_get_lag e now t g x y \<longleftrightarrow>
     unwrap (broker_new e now (Inr None)) (\<lambda>b. calls (append_log e t 0 x b) (\<lambda>_ b1. calls (append_log e t 0 y b1) (\<lambda>_ b2.
       (be_at 20 8 (get_lag b2 g t) :: u64) = 2)))"

definition test_replica_idempotent :: "env \<Rightarrow> u64 \<Rightarrow> u16 \<Rightarrow> bytes \<Rightarrow> bool" where
  "test_replica_idempotent e now t x \<longleftrightarrow>
     unwrap (broker_new e now (Inr None)) (\<lambda>b. calls (create_topic (topic_config_new t 1 100) b) (\<lambda>_ b1.
       calls (apply_replica e t 0 0 x b1) (\<lambda>_ b2. calls (apply_replica e t 0 0 x b2) (\<lambda>_ b3.
       calls (fetch_log e (fetch_all t) b3) (\<lambda>rs _. length rs = 1)))))"

section \<open>They pass\<close>

text \<open>What a new broker is, and what a small message has to be.\<close>

abbreviation new_broker :: "env \<Rightarrow> broker" where
  "new_broker e \<equiv> sample_broker\<lparr>b_broker_id := local_broker_id e, b_acl := acl_from_env e\<rparr>"

lemma new_broker_opens:
  "broker_open e now (Inr None) empty_dir = (Inr (new_broker e), empty_dir)" "broker_new e now (Inr None) = Inr (new_broker e)"
  by (simp_all add: broker_new_def open_ephemeral_def broker_open_def open_with_cluster_def open_fresh)

lemma new_broker_facts: "b_committed_offsets (new_broker e) = []" "broker_topic_config (new_broker e) t = topic_config_default_for t"
  by (simp_all add: sample_broker_def broker_topic_config_def)

lemma new_broker_history: "history (new_broker e) t p []"
  using sample_broker_history by (simp add: history_def)

definition fits :: "env \<Rightarrow> bytes \<Rightarrow> bool" where
  "fits e x \<longleftrightarrow> length x \<le> MAX_MSG_SIZE \<and> length x \<le> max_payload_bytes e"

lemma fitsD: "fits e x \<Longrightarrow> small_payload x" "fits e x \<Longrightarrow> validate_produce_payload e (length x) = Inr ()"
  by (simp_all add: fits_def small_payload_def validate_produce_payload_def MAX_MSG_SIZE_def)

text \<open>The broker of a test, with what waits and what the groups have.\<close>

definition ready :: "env \<Rightarrow> u16 \<Rightarrow> broker \<Rightarrow> push_view \<Rightarrow> bool" where
  "ready e t b v \<longleftrightarrow> storage_holds e t b v \<and> logs_ok b"

lemma setup_ready:
  fixes e t
  defines "b \<equiv> snd (topic_mut t (new_broker e))"
  shows "broker_setup e now t test = test b" and "push_holds b t ([], [])" and "history b t' p' []"
    and "p \<noteq> STAGING_PARTITION_ID \<Longrightarrow> unopened t g p (b_dir b)" and "b_cluster_state b = None" and "logs_ok b"
proof -
  have "register_producer \<lparr>preg_port = 7778, preg_topic_id = t\<rparr> (new_broker e) = (Inr 0, b)"
    using topic_mut_ok [of t "new_broker e"] by (simp add: register_producer_def sbind_def b_def)
  then show "broker_setup e now t test = test b" by (simp add: broker_setup_def new_broker_opens)
  have new: "hm_get (b_topics (new_broker e)) t = None" "unopened t g p (b_dir (new_broker e))" for g p
    by (simp_all add: sample_broker_def unopened_def empty_dir_def df_get_def)
  show "push_holds b t ([], [])" unfolding b_def by (rule topic_created(1) [OF new(1) new(2)])
  show "p \<noteq> STAGING_PARTITION_ID \<Longrightarrow> unopened t g p (b_dir b)"
    unfolding b_def using topic_created(2) [OF new(1) new(2)] new(2) by blast
  show h: "history b t' p' []" for t' p' unfolding b_def by (rule topic_mut_history [OF new_broker_history])
  show "b_cluster_state b = None" using same_role_topic_mut [of "new_broker e" t] by (simp add: same_role_def b_def sample_broker_def)
  show "logs_ok b" using h by (auto simp: logs_ok_def)
qed

lemma ready_setup: "e ''DMQ_LEGACY_PUSH'' = None \<Longrightarrow> ready e t (snd (topic_mut t (new_broker e))) ([], [])"
  using setup_ready [where t = t and e = e] by (auto simp: logs_ok_def ready_def storage_holds_def legacy_push_enabled_def)

lemma ready_registers:
  assumes "ready e t b (st, gs)" and "g \<notin> fst ` set gs" and "unopened t g 1 (b_dir b)"
  shows "\<exists>b'. register_consumer \<lparr>creg_port = port, creg_topic_id = t, creg_group_id = g\<rparr> b = (Inr 0, b')
    \<and> ready e t b' (st, gs @ [(g, [[]])]) \<and> (\<forall>h p. (h, p) \<noteq> (g, 1) \<longrightarrow> unopened t h p (b_dir b') = unopened t h p (b_dir b))"
proof -
  let ?reg = "\<lparr>creg_port = port, creg_topic_id = t, creg_group_id = g\<rparr>"
  obtain b' where b': "register_consumer ?reg b = (Inr 0, b')" "push_holds b' t (st, gs @ [(g, [[]])])"
    "\<forall>h p. (h, p) \<noteq> (g, 1) \<longrightarrow> unopened t h p (b_dir b') = unopened t h p (b_dir b)" "b_cluster_state b' = b_cluster_state b"
    using first_registration [of b t st gs g port] assms by (auto simp: ready_def storage_holds_def)
  moreover have "logs_ok b'" using keeps_register_consumer [of b ?reg] b'(1) assms(1) by (auto simp: keeps_def ready_def intro: grows_ok)
  ultimately show ?thesis
    using assms(1) legacy_push_cong [OF b'(4)] by (auto simp: ready_def storage_holds_def logs_ok_def)
qed

lemma ready_produces:
  assumes "ready e t b v" and "push_room v" and "fits e x"
  shows "\<exists>off b'. produce_pcm e t x b = (Inr (0, off), b') \<and> ready e t b' (spec_produce x v)"
proof -
  obtain off b' where b': "produce_pcm e t x b = (Inr (0, off), b')" "storage_holds e t b' (spec_produce x v)"
    using broker_storage.produces [of e t b v x] assms by (auto simp: ready_def fits_def storage_produce_def)
  moreover have "keeps b b'" using keeps_produce_pcm [of x e b t] fitsD(1) [OF assms(3)] b'(1) by simp
  ultimately show ?thesis using assms(1) by (auto simp: ready_def keeps_def intro: grows_ok)
qed

lemma ready_consumes:
  assumes "ready e t b (one_queue gs)" and "map_of gs g = Some (x # q)"
  shows "\<exists>b'. consume_from_partition t g 0 b = (Inr (True, Some x), b') \<and> ready e t b' (one_queue (AList.update g q gs))"
proof -
  have g: "g \<in> fst ` set (snd (one_queue gs))" using assms(2) map_of_SomeD [of gs g] by (force simp: one_queue_def)
  obtain b' where b': "consume_one t g 0 b = (Inr (Some x), b')" "storage_holds e t b' (one_queue (AList.update g q gs))"
    using broker_storage.consumes [OF _ g, of e t b 0] assms(1) spec_pop_one [OF assms(2)] by (auto simp: ready_def)
  moreover have "keeps b b'" using keeps_consume_one [of b t g 0] b'(1) by simp
  ultimately show ?thesis
    using assms(1) by (auto simp: ready_def keeps_def consume_from_partition_def intro: grows_ok)
qed

lemma room_one: "\<forall>(g, q)\<in>set gs. length q + 1 < QUEUE_CAPACITY \<Longrightarrow> push_room (one_queue gs)"
  by (auto simp: push_room_def one_queue_def QUEUE_CAPACITY_def)

lemma test_auto_creates_topic_passes: "test_auto_creates_topic e now t"
  using topic_mut_ok [of t "new_broker e"] topic_mut_present [OF topic_mut_ok, of t "new_broker e"]
  by (simp add: test_auto_creates_topic_def new_broker_opens register_producer_def sbind_def hm_contains_def)

lemma test_consume_in_order_passes:
  assumes "e ''DMQ_LEGACY_PUSH'' = None" and "fits e x" and "fits e y"
  shows "test_consume_in_order e now t g x y"
proof -
  let ?b = "snd (topic_mut t (new_broker e))"
  have cap: "Suc (Suc 0) < QUEUE_CAPACITY" by (simp add: QUEUE_CAPACITY_def)
  obtain b0 where b0: "register_consumer \<lparr>creg_port = 7779, creg_topic_id = t, creg_group_id = g\<rparr> ?b = (Inr 0, b0)"
    "ready e t b0 (one_queue [(g, [])])"
    using ready_registers [OF ready_setup [of e t, OF assms(1)], of g 7779] setup_ready(4) [where p = 1 and t = t and g = g and e = e]
    by (auto simp: one_queue_def STAGING_PARTITION_ID_def)
  obtain o1 b1 where b1: "produce_pcm e t x b0 = (Inr (0, o1), b1)" "ready e t b1 (one_queue [(g, [x])])"
    using ready_produces [OF b0(2) room_one assms(2)] cap by (auto simp: spec_produce_one)
  obtain o2 b2 where b2: "produce_pcm e t y b1 = (Inr (0, o2), b2)" "ready e t b2 (one_queue [(g, [x, y])])"
    using ready_produces [OF b1(2) room_one assms(3)] cap by (auto simp: spec_produce_one)
  obtain b3 where b3: "consume_from_partition t g 0 b2 = (Inr (True, Some x), b3)" "ready e t b3 (one_queue [(g, [y])])"
    using ready_consumes [OF b2(2), of g x "[y]"] by auto
  obtain b4 where "consume_from_partition t g 0 b3 = (Inr (True, Some y), b4)"
    using ready_consumes [OF b3(2), of g y "[]"] by auto
  with b0 b1 b2 b3 show ?thesis by (simp add: test_consume_in_order_def setup_with_group_def setup_ready(1))
qed

lemma test_two_groups_passes:
  assumes "e ''DMQ_LEGACY_PUSH'' = None" and "fits e x" and "fits e y" and "g \<noteq> h"
  shows "test_two_groups e now t g h x y"
proof -
  let ?b = "snd (topic_mut t (new_broker e))"
  have cap: "Suc (Suc 0) < QUEUE_CAPACITY" by (simp add: QUEUE_CAPACITY_def)
  have un: "unopened t k 1 (b_dir ?b)" for k using setup_ready(4) [where p = 1 and t = t and g = k and e = e] by (simp add: STAGING_PARTITION_ID_def)
  obtain c where c: "register_consumer \<lparr>creg_port = 7779, creg_topic_id = t, creg_group_id = g\<rparr> ?b = (Inr 0, c)"
    "ready e t c ([], [(g, [[]])])" "unopened t h 1 (b_dir c)"
    using ready_registers [OF ready_setup [of e t, OF assms(1)], of g 7779] un assms(4) by auto
  obtain b0 where b0: "register_consumer \<lparr>creg_port = 7780, creg_topic_id = t, creg_group_id = h\<rparr> c = (Inr 0, b0)"
    "ready e t b0 (one_queue [(g, []), (h, [])])"
    using ready_registers [OF c(2) _ c(3), of 7780] assms(4) by (auto simp: one_queue_def)
  obtain o1 b1 where b1: "produce_pcm e t x b0 = (Inr (0, o1), b1)" "ready e t b1 (one_queue [(g, [x]), (h, [x])])"
    using ready_produces [OF b0(2) room_one assms(2)] cap by (auto simp: spec_produce_one)
  obtain o2 b2 where b2: "produce_pcm e t y b1 = (Inr (0, o2), b2)" "ready e t b2 (one_queue [(g, [x, y]), (h, [x, y])])"
    using ready_produces [OF b1(2) room_one assms(3)] cap by (auto simp: spec_produce_one)
  obtain b3 where b3: "consume_from_partition t g 0 b2 = (Inr (True, Some x), b3)" "ready e t b3 (one_queue [(g, [y]), (h, [x, y])])"
    using ready_consumes [OF b2(2), of g x "[y]"] by auto
  obtain b4 where b4: "consume_from_partition t h 0 b3 = (Inr (True, Some x), b4)" "ready e t b4 (one_queue [(g, [y]), (h, [y])])"
    using ready_consumes [OF b3(2), of h x "[y]"] assms(4) by auto
  obtain b5 where "consume_from_partition t g 0 b4 = (Inr (True, Some y), b5)"
    using ready_consumes [OF b4(2), of g y "[]"] by auto
  with c b0 b1 b2 b3 b4 show ?thesis by (simp add: test_two_groups_def setup_with_group_def setup_ready(1))
qed

text \<open>Without a group a message waits: its offset, and what the other queues are left with.\<close>

lemma retention_queues [simp]: "retention (b\<lparr>b_topics := ts, b_dir := d\<rparr>) t p = retention b t p"
  by (simp add: retention_def broker_topic_config_def split: option.split)

lemma staged_produce_eq:
  assumes holds: "push_holds b t (st, [])" and h: "history b t 0 h" and x: "fits e x" and push: "legacy_push_enabled e b"
  shows "\<exists>b1 tp' d. append_log e t 0 x b = (Inr (of_nat (length h)), b1)
    \<and> produce_pcm e t x b = (Inr (0, max (of_nat (length h)) (of_nat (length st))),
        (ensure_log_with_config t 0 b1)\<lparr>b_topics := hm_insert t tp' (b_topics b), b_dir := d\<rparr>)
    \<and> (\<forall>k n. snd (snd (mq_key k)) \<noteq> STAGING_PARTITION_ID \<longrightarrow> n \<in> mq_files k \<longrightarrow> df_get d n = df_get (b_dir b) n)"
proof -
  note small = fitsD [OF x]
  obtain tp where tp: "hm_get (b_topics b) t = Some tp" "topic_inv t (b_dir b) tp" "topic_view (b_dir b) tp = (st, [])"
    using holds by (auto simp: push_holds_def)
  then have tp0: "tp_cgroups tp = []" "mq_inv (tp_staging tp, b_dir b)" "mq_abs (tp_staging tp, b_dir b) = st"
    "mq_key (tp_staging tp) = (t, STAGING_GROUP_ID, STAGING_PARTITION_ID)" by (simp_all add: topic_inv_def topic_view_def)
  have topic: "hm_contains (b_topics b) t" using tp(1) by (simp add: hm_contains_def)
  obtain b1 where app: "append_log e t 0 x b = (Inr (of_nat (length h)), b1)"
    using append_log_history(1) [OF h small] by (metis prod.collapse)
  have files: "df_get (b_dir b1) n = df_get (b_dir b) n" if "n \<in> mq_files q" for n q
    using append_log_outside(2) [OF topic h small, of n] queue_files_not_logs [OF that] app by simp
  have b1: "b_topics b1 = b_topics b" using append_log_outside(1) [OF topic h small] app by simp
  have inv: "mq_inv (tp_staging tp, b_dir b1)" "mq_abs (tp_staging tp, b_dir b1) = st"
    using mq_view_cong [of "tp_staging tp" "b_dir b1" "b_dir b"] files tp0(2,3) by simp_all
  obtain r q d where q: "mq_append x (tp_staging tp, b_dir b1) = (r, q, d)" by (cases "mq_append x (tp_staging tp, b_dir b1)")
  note fr = mq_append_frame [OF inv(1) q]
  have "(of_nat (unat (mq_live_len (tp_staging tp))) :: u64) = of_nat (length st)" using mq_live_len_abs [OF inv(1)] inv(2) by simp
  then have len: "mq_live_len (tp_staging tp) = of_nat (length st)" by simp
  have push1: "legacy_push_enabled e b1"
    using push same_role_append_log [of b e t 0 x] app by (auto simp: same_role_def legacy_push_enabled_def split: option.split)
  have mut: "topic_mut t b1 = (Inr (), ensure_log_with_config t 0 b1)" "b_topics (ensure_log_with_config t 0 b1) = b_topics b1"
    "b_dir (ensure_log_with_config t 0 b1) = b_dir b1"
    using topic_mut_push [of b1 t tp] b1 tp(1) by simp_all
  have "produce_pcm e t x b = (Inr (0, max (of_nat (length h)) (of_nat (length st))),
      (ensure_log_with_config t 0 b1)\<lparr>b_topics := hm_insert t (tp\<lparr>tp_staging := q\<rparr>) (b_topics b), b_dir := d\<rparr>)"
    using app push1 mut tp(1) tp0(1) q fr(3) len b1
    by (simp add: produce_pcm_def with_topic_def append_to_staging_def sbind_def)
  moreover have "df_get d n = df_get (b_dir b) n" if "snd (snd (mq_key k)) \<noteq> STAGING_PARTITION_ID" "n \<in> mq_files k" for k n
  proof -
    have "mq_key k \<noteq> mq_key (tp_staging tp)" using that(1) tp0(4) by auto
    with mq_files_disjoint that(2) have "n \<notin> mq_files (tp_staging tp)" by blast
    with fr(4) files [OF that(2)] show ?thesis by simp
  qed
  ultimately show ?thesis using app by blast
qed

lemma staged_produce:
  assumes holds: "push_holds b t (st, [])" and h: "history b t 0 h" and x: "fits e x" and push: "legacy_push_enabled e b"
    and room: "Suc (length st) < QUEUE_CAPACITY"
  shows "\<exists>b'. produce_pcm e t x b = (Inr (0, max (of_nat (length h)) (of_nat (length st))), b')
    \<and> push_holds b' t (st @ [x], []) \<and> history b' t 0 (h @ [x]) \<and> legacy_push_enabled e b'
    \<and> retention b' t 0 = retention b t 0 \<and> is_partition_replica b' t 0 = is_partition_replica b t 0
    \<and> (p \<noteq> STAGING_PARTITION_ID \<longrightarrow> unopened t g p (b_dir b') = unopened t g p (b_dir b))"
proof -
  have "push_room (st, [])" using room by (simp add: push_room_def)
  then obtain off b' where b': "produce_pcm e t x b = (Inr (0, off), b')" "push_holds b' t (st @ [x], [])" "history b' t 0 (h @ [x])"
    "b_cluster_state b' = b_cluster_state b"
    using push_produce_ok [OF holds _ h _ _ push, of x] x by (auto simp: fits_def)
  obtain b1 tp' d where app: "append_log e t 0 x b = (Inr (of_nat (length h)), b1)"
    and eq: "produce_pcm e t x b = (Inr (0, max (of_nat (length h)) (of_nat (length st))),
      (ensure_log_with_config t 0 b1)\<lparr>b_topics := hm_insert t tp' (b_topics b), b_dir := d\<rparr>)"
    and files: "\<And>k n. snd (snd (mq_key k)) \<noteq> STAGING_PARTITION_ID \<Longrightarrow> n \<in> mq_files k \<Longrightarrow> df_get d n = df_get (b_dir b) n"
    using staged_produce_eq [OF holds h x push] by blast
  have "unopened t g p (b_dir b') = unopened t g p (b_dir b)" if "p \<noteq> STAGING_PARTITION_ID"
  proof (rule unopened_frame)
    fix k n
    assume "mq_key k = (t, g, p)" "n \<in> mq_files k"
    with files [of k n] that eq b'(1) show "df_get (b_dir b') n = df_get (b_dir b) n" by simp
  qed
  moreover have "retention b' t 0 = retention b1 t 0"
    using eq b'(1) by (simp add: retention_queues)
  then have "retention b' t 0 = retention b t 0" using append_log_retention [OF h fitsD [OF x]] app by simp
  moreover have "is_partition_replica b' t 0 = is_partition_replica b1 t 0"
    using eq b'(1) by (auto simp: is_partition_replica_def ensure_log_with_config_def split: option.split)
  then have "is_partition_replica b' t 0 = is_partition_replica b t 0"
    using is_replica_same_role [OF same_role_append_log [of b e t 0 x]] app by simp
  ultimately show ?thesis using b' eq push legacy_push_cong [OF b'(4)] by auto
qed

lemma legacy_setup: "e ''DMQ_LEGACY_PUSH'' = None \<Longrightarrow> legacy_push_enabled e (snd (topic_mut t (new_broker e)))"
  using setup_ready(5) [where t = t and e = e] by (simp add: legacy_push_enabled_def)

lemma new_broker_topic:
  "retention (snd (topic_mut t (new_broker e))) t 0 = Some 10000" "is_partition_replica (snd (topic_mut t (new_broker e))) t p"
proof -
  have "retention (new_broker e) t 0 = Some 10000"
    by (simp add: retention_def broker_topic_config_def sample_broker_def topic_config_default_for_def topic_config_new_def)
  then show "retention (snd (topic_mut t (new_broker e))) t 0 = Some 10000" by simp
  have "is_partition_replica (new_broker e) t p" by (simp add: is_partition_replica_def sample_broker_def)
  then show "is_partition_replica (snd (topic_mut t (new_broker e))) t p"
    using is_replica_same_role [OF same_role_topic_mut] by blast
qed

lemma two_staged:
  assumes "e ''DMQ_LEGACY_PUSH'' = None" and "fits e x" and "fits e y"
  shows "\<exists>b1 b2. produce_pcm e t x (snd (topic_mut t (new_broker e))) = (Inr (0, 0), b1) \<and> produce_pcm e t y b1 = (Inr (0, 1), b2)
    \<and> history b2 t 0 [x, y] \<and> retention b2 t 0 = Some 10000 \<and> is_partition_replica b2 t 0 \<and> push_holds b1 t ([x], []) \<and> history b1 t 0 [x] \<and> legacy_push_enabled e b1
    \<and> (p \<noteq> STAGING_PARTITION_ID \<longrightarrow> unopened t g p (b_dir b1))"
proof -
  note start = setup_ready [where t = t and e = e]
  have cap: "Suc (Suc 0) < QUEUE_CAPACITY" by (simp add: QUEUE_CAPACITY_def)
  obtain b1 where b1: "produce_pcm e t x (snd (topic_mut t (new_broker e))) = (Inr (0, 0), b1)" "push_holds b1 t ([x], [])"
    "history b1 t 0 [x]" "legacy_push_enabled e b1" "p \<noteq> STAGING_PARTITION_ID \<longrightarrow> unopened t g p (b_dir b1)"
    "retention b1 t 0 = Some 10000" "is_partition_replica b1 t 0"
    using new_broker_topic [of t e] staged_produce [OF start(2) start(3) assms(2) legacy_setup [of e t, OF assms(1)], of p g] cap start(4) [of p g] by auto
  moreover obtain b2 where "produce_pcm e t y b1 = (Inr (0, 1), b2)" "history b2 t 0 [x, y]" "retention b2 t 0 = Some 10000"
    "is_partition_replica b2 t 0"
    using staged_produce [OF b1(2,3) assms(3) b1(4), of 0 0] cap b1(6,7) by auto
  ultimately show ?thesis by blast
qed

lemma test_staging_without_groups_passes:
  assumes "e ''DMQ_LEGACY_PUSH'' = None" and "fits e x" and "fits e y"
  shows "test_staging_without_groups e now t x y"
  using two_staged [OF assms, of t 0 0] by (auto simp: test_staging_without_groups_def setup_ready(1))

lemma test_staging_drains_passes:
  assumes "e ''DMQ_LEGACY_PUSH'' = None" and "fits e x" and "fits e y"
  shows "test_staging_drains e now t g x y"
proof -
  have cap: "Suc (Suc 0) < QUEUE_CAPACITY" by (simp add: QUEUE_CAPACITY_def)
  obtain b1 where b1: "produce_pcm e t x (snd (topic_mut t (new_broker e))) = (Inr (0, 0), b1)" "push_holds b1 t ([x], [])"
    "history b1 t 0 [x]" "legacy_push_enabled e b1" "unopened t g 1 (b_dir b1)"
    using two_staged [OF assms, of t 1 g] by (auto simp: STAGING_PARTITION_ID_def)
  have "keeps (snd (topic_mut t (new_broker e))) b1"
    using keeps_produce_pcm [of x e "snd (topic_mut t (new_broker e))" t] fitsD(1) [OF assms(2)] b1(1) by simp
  then have "ready e t b1 ([x], [])"
    using b1 setup_ready(6) [where t = t and e = e] by (auto simp: ready_def storage_holds_def keeps_def intro: grows_ok)
  then obtain b2 where b2: "register_consumer \<lparr>creg_port = 7779, creg_topic_id = t, creg_group_id = g\<rparr> b1 = (Inr 0, b2)"
    "ready e t b2 ([x], [(g, [[]])])" using ready_registers [of e t b1 "[x]" "[]" g 7779] b1(5) by auto
  have "push_room ([x], [(g, [[]])])" using cap by (simp add: push_room_def)
  from ready_produces [OF b2(2) this assms(3)]
  obtain off b3 where b3: "produce_pcm e t y b2 = (Inr (0, off), b3)" "ready e t b3 (one_queue [(g, [x, y])])"
    by (auto simp: one_queue_def)
  obtain b4 where b4: "consume_from_partition t g 0 b3 = (Inr (True, Some x), b4)" "ready e t b4 (one_queue [(g, [y])])"
    using ready_consumes [OF b3(2), of g x "[y]"] by auto
  obtain b5 where "consume_from_partition t g 0 b4 = (Inr (True, Some y), b5)"
    using ready_consumes [OF b4(2), of g y "[]"] by auto
  with b1 b2 b3 b4 show ?thesis by (simp add: test_staging_drains_def setup_ready(1))
qed

section \<open>Fetching\<close>

text \<open>A fetch of at most 1024 bytes from the start of a log that keeps all its records.\<close>

lemma fetch_whole:
  assumes "history b t 0 h" and "is_partition_replica b t 0" and "start_of (retention b t 0) (length h) = 0" and "length h < 2 ^ 64"
    and "sum_list (map length h) \<le> unat (clamp_fetch_bytes e 1024)"
  shows "\<exists>b'. fetch_log e (fetch_all t) b = (Inr (numbered h), b')"
proof -
  let ?m = "unat (clamp_fetch_bytes e 1024)"
  have av: "available (retention b t 0) h 0 = numbered h" using assms(3) by (simp add: available_def)
  have "payload_bytes (numbered h) = sum_list (map length (map rec_payload (numbered h)))" by (simp only: payload_bytes_def map_map comp_def)
  then have "payload_bytes (numbered h) = sum_list (map length h)" by (simp only: map_payload_numbered)
  with assms(5) have "batch_spec ?m (numbered h) (numbered h)" by (simp add: batch_spec_def)
  from batch_spec_unique [OF fetch_loop_batch [OF clamp_small] this]
  have "fst (fetch_log e (fetch_all t) b) = Inr (numbered h)"
    using fetch_log_eq(1) [OF assms(1,2), of "fetch_all t" e] by (simp add: fetch_all_def log_fetch_available [OF assms(4)] av)
  then show ?thesis by (metis prod.collapse)
qed

lemma test_commit_and_fetch_passes:
  assumes "e ''DMQ_LEGACY_PUSH'' = None" and "fits e x" and "fits e y" and "length x + length y \<le> unat (clamp_fetch_bytes e 1024)"
  shows "test_commit_and_fetch e now t g off x y"
proof -
  obtain b1 b2 where b: "produce_pcm e t x (snd (topic_mut t (new_broker e))) = (Inr (0, 0), b1)" "produce_pcm e t y b1 = (Inr (0, 1), b2)"
    "history b2 t 0 [x, y]" "retention b2 t 0 = Some 10000" "is_partition_replica b2 t 0"
    using two_staged [OF assms(1-3), of t 0 0] by blast
  then obtain b3 where "fetch_log e (fetch_all t) b2 = (Inr (numbered [x, y]), b3)"
    using fetch_whole [OF b(3,5)] assms(4) by (auto simp: start_of_def kept_def)
  with b(1,2) show ?thesis
    by (simp add: test_commit_and_fetch_def setup_ready(1) numbered_def upt_rec committed_offset_def broker_commit_offset_def Let_def)
qed

lemma append_log_commits: "b_committed_offsets (snd (append_log e t p x b)) = b_committed_offsets b"
proof -
  have mut: "b_committed_offsets (snd (topic_mut t b)) = b_committed_offsets b" for b
    by (simp add: topic_mut_def ensure_log_with_config_def persist_topics_def Let_def split: prod.split sum.split)
  have wr: "b_committed_offsets (snd (write_record e t p rec b)) = b_committed_offsets b" for rec b
    by (simp add: write_record_def persist_log_meta_def split: prod.split sum.split option.split)
  show ?thesis
    by (simp add: append_log_def sbind_def Let_def case_prod_unfold mut wr ensure_log_with_config_def split: sum.split option.split)
qed

lemma two_appends:
  assumes "history b t 0 []" and "fits e x" and "fits e y"
  shows "\<exists>b1 b2. append_log e t 0 x b = (Inr 0, b1) \<and> append_log e t 0 y b1 = (Inr 1, b2) \<and> history b2 t 0 [x, y]
    \<and> b_committed_offsets b2 = b_committed_offsets b \<and> broker_topic_config b2 t = broker_topic_config b t \<and> hm_contains (b_topics b2) t"
proof -
  note x = fitsD [OF assms(2)] and y = fitsD [OF assms(3)]
  obtain b1 where b1: "append_log e t 0 x b = (Inr 0, b1)" "history b1 t 0 [x]"
    using append_log_history(1,2) [OF assms(1) x] by (cases "append_log e t 0 x b") auto
  obtain b2 where b2: "append_log e t 0 y b1 = (Inr 1, b2)" "history b2 t 0 [x, y]"
    using append_log_history(1,2) [OF b1(2) y] by (cases "append_log e t 0 y b1") auto
  have "broker_topic_config b2 t = broker_topic_config b t" "hm_contains (b_topics b2) t"
    using append_log_topics [OF assms(1) x(1), of e] append_log_topics [OF b1(2) y(1), of e] assms(2,3) b1(1) b2(1) by (simp_all add: fits_def)
  moreover have "b_committed_offsets b2 = b_committed_offsets b"
    using append_log_commits [of e t 0 x b] append_log_commits [of e t 0 y b1] b1(1) b2(1) by simp
  ultimately show ?thesis using b1 b2 by blast
qed

lemma test_get_lag_passes:
  assumes "fits e x" and "fits e y"
  shows "test_get_lag e now t g x y"
proof -
  obtain b1 b2 where b: "append_log e t 0 x (new_broker e) = (Inr 0, b1)" "append_log e t 0 y b1 = (Inr 1, b2)" "history b2 t 0 [x, y]"
    "b_committed_offsets b2 = []" "broker_topic_config b2 t = topic_config_default_for t"
    using two_appends [OF new_broker_history assms, of t e] new_broker_facts by metis
  have "get_lag b2 g t = to_be_bytes (1 :: u16) @ encode_lag_row (lag_row_of b2 g t [x, y] 0)"
    using lag_entry_row [OF b(3), of g] by (simp add: get_lag_def b(5) topic_config_default_for_def topic_config_new_def Let_def)
  then have "get_lag b2 g t = (to_be_bytes (1 :: u16) @ to_be_bytes (0 :: u16) @ to_be_bytes (0 :: u64) @ to_be_bytes (2 :: u64)) @ to_be_bytes (2 :: u64) @ []"
    by (simp add: encode_lag_row_def lag_row_of_def committed_offset_def b(4))
  then have "(be_at 20 8 (get_lag b2 g t) :: u64) = 2" by (simp add: codec_simps)
  with b show ?thesis by (simp add: test_get_lag_def new_broker_opens)
qed

section \<open>Created topics\<close>

lemma fold_ensure:
  assumes "\<And>b p. P b \<Longrightarrow> P (ensure_log_with_config t p b)" and "P b"
  shows "P (fold (\<lambda>p. ensure_log_with_config t (of_nat p)) ps b)"
  using assms(2) by (induction ps arbitrary: b) (simp_all add: assms(1))

lemma topic_mut_config [simp]: "broker_topic_config (snd (topic_mut t b)) t' = broker_topic_config b t'"
  by (simp add: topic_mut_def ensure_log_with_config_def persist_topics_def broker_topic_config_def Let_def split: prod.split sum.split option.split)

lemma created_topic:
  assumes "tc_topic_id cfg = t"
  shows "\<exists>b. create_topic cfg (new_broker e) = (Inr 0, b) \<and> hm_contains (b_topics b) t \<and> broker_topic_config b t = cfg
    \<and> same_role (new_broker e) b \<and> history b t p [] \<and> retention b t p = Some (unat (tc_max_records cfg))"
proof -
  define b0 where "b0 = (new_broker e)\<lparr>b_dir := store_topic_config t (tc_partition_count cfg) (tc_max_records cfg) (b_dir (new_broker e)),
    b_topic_configs := hm_insert t cfg (b_topic_configs (new_broker e))\<rparr>"
  have new: "\<not> hm_contains (b_topics (new_broker e)) t" by (simp add: sample_broker_def hm_contains_def)
  have b0: "history b0 t p []" "broker_topic_config b0 t = cfg" "same_role (new_broker e) b0" "retention b0 t p = Some (unat (tc_max_records cfg))"
  proof -
    have "history b0 t p [] = history (new_broker e) t p []" using stores_untouched(3) by (intro history_cong) (simp_all add: b0_def)
    then show "history b0 t p []" using new_broker_history by simp
    show "broker_topic_config b0 t = cfg" "same_role (new_broker e) b0" by (simp_all add: b0_def broker_topic_config_def same_role_def)
    then show "retention b0 t p = Some (unat (tc_max_records cfg))" by (simp add: retention_def) (simp add: b0_def sample_broker_def)
  qed
  let ?b = "fold (\<lambda>p. ensure_log_with_config t (of_nat p)) [0..<unat (tc_partition_count cfg)] (snd (topic_mut t b0))"
  have eq: "create_topic cfg (new_broker e) = (Inr 0, ?b)"
    using new topic_mut_ok [of t b0] by (simp add: create_topic_def assms sbind_def b0_def Let_def)
  have "quiet (snd (topic_mut t b0)) ?b" by (rule fold_ensure) simp_all
  then have "hm_contains (b_topics ?b) t" "broker_topic_config ?b t = cfg"
    using topic_mut_present [OF topic_mut_ok, of t b0] b0(2) by (auto simp: quiet_def hm_contains_def)
  moreover have "same_role (new_broker e) ?b"
    by (rule fold_ensure) (use b0(3) in \<open>blast intro: same_role_trans\<close>)+
  moreover have "history ?b t p []" by (rule fold_ensure) (use b0(1) in \<open>auto intro: history_ensure topic_mut_history\<close>)
  moreover have "retention ?b t p = Some (unat (tc_max_records cfg))" by (rule fold_ensure) (use b0(4) in simp_all)
  ultimately show ?thesis using eq by blast
qed

lemma test_create_and_describe_passes:
  assumes "pc \<noteq> 0"
  shows "test_create_and_describe e now t pc mr"
proof -
  let ?cfg = "topic_config_new t pc mr"
  obtain b where b: "create_topic ?cfg (new_broker e) = (Inr 0, b)" "hm_contains (b_topics b) t" "broker_topic_config b t = ?cfg"
    "same_role (new_broker e) b"
    using created_topic [of ?cfg t e 0] by (auto simp: topic_config_new_def)
  have pc: "max 1 pc = pc" "0 < unat pc" using assms by (simp_all add: max_def word_le_nat_alt unat_gt_0 Suc_le_eq)
  have "b_cluster b = None" using b(4) by (simp add: same_role_def sample_broker_def)
  then have lead: "partition_leader b t 0 = b_broker_id b" by (simp add: partition_leader_def)
  obtain base nxt :: u64 and n :: u32 and rest where row:
    "describe_partition b t ?cfg 0 = to_be_bytes (0 :: u16) @ to_be_bytes base @ to_be_bytes nxt @ to_be_bytes n @ to_be_bytes (b_broker_id b) @ rest"
    by (simp add: describe_partition_def lead Let_def)
  obtain rest' where "describe_topic b t = to_be_bytes pc @ to_be_bytes (0 :: u16) @ to_be_bytes base @ to_be_bytes nxt @ to_be_bytes n
      @ to_be_bytes (b_broker_id b) @ rest'"
    using b(2,3) pc row by (simp add: describe_topic_def Let_def topic_config_new_def upt_conv_Cons)
  with b(1) show ?thesis by (simp add: test_create_and_describe_def new_broker_opens codec_simps)
qed

lemma apply_replica_retention:
  assumes h: "history b t p h" and role: "is_partition_replica b t p" and small: "small_payload x" and off: "off = of_nat (length h)"
  shows "retention (snd (apply_replica e t p off x b)) t p = retention b t p"
proof -
  let ?b1 = "ensure_log_with_config t p b"
  obtain mr where log: "hm_get (b_logs ?b1) (t, p) = Some (log_of (Some mr) h)" using history_ensure_log [OF h] by blast
  then have "retention ?b1 t p = Some mr" by (simp only: retention_def option.case log_of_sel)
  moreover have "apply_replica e t p off x b = write_record e t p \<lparr>rec_offset = of_nat (length h), rec_payload = x\<rparr>
      (?b1\<lparr>b_logs := hm_insert (t, p) (log_of (Some mr) (h @ [x])) (b_logs ?b1)\<rparr>)"
    using role log off by (simp add: apply_replica_def log_append_log_of Let_def)
  ultimately show ?thesis using small by (simp add: retention_def [of "snd _"] write_record_frame(2) log_of_sel)
qed

lemma test_replica_idempotent_passes:
  assumes "fits e x" and "length x \<le> unat (clamp_fetch_bytes e 1024)"
  shows "test_replica_idempotent e now t x"
proof -
  let ?cfg = "topic_config_new t 1 100"
  obtain b where b: "create_topic ?cfg (new_broker e) = (Inr 0, b)" "same_role (new_broker e) b" "history b t 0 []" "retention b t 0 = Some 100"
    using created_topic [of ?cfg t e 0] by (auto simp: topic_config_new_def)
  have role: "is_partition_replica b t 0"
    using is_replica_same_role [OF b(2)] by (simp add: is_partition_replica_def sample_broker_def)
  obtain b1 where b1: "apply_replica e t 0 0 x b = (Inr (), b1)" "history b1 t 0 [x]"
    using apply_replica_cases(3) [OF b(3) role fitsD(1) [OF assms(1)], of 0 e] by (cases "apply_replica e t 0 0 x b") simp
  have role1: "is_partition_replica b1 t 0" using is_replica_same_role [OF same_role_apply_replica [of b e t 0 0 x]] role b1(1) by simp
  have b2: "apply_replica e t 0 0 x b1 = (Inr (), ensure_log_with_config t 0 b1)"
    using apply_replica_cases(1) [OF b1(2) role1 fitsD(1) [OF assms(1)]] by simp
  let ?b2 = "ensure_log_with_config t 0 b1"
  have role2: "is_partition_replica ?b2 t 0" using is_replica_same_role [OF same_role_ensure] role1 by blast
  have "retention ?b2 t 0 = Some 100" using apply_replica_retention [OF b(3) role fitsD(1) [OF assms(1)], of 0 e] b(4) b1(1) by simp
  then obtain b3 where "fetch_log e (fetch_all t) ?b2 = (Inr (numbered [x]), b3)"
    using fetch_whole [OF history_ensure [OF b1(2)] role2] assms(2) by (auto simp: start_of_def kept_def)
  with b(1) b1(1) b2 show ?thesis by (simp add: test_replica_idempotent_def new_broker_opens numbered_def)
qed

section \<open>Opening a broker again\<close>

lemma open_alone:
  assumes "open_with_cluster_and_id e now None i d = (Inr b, d')"
  shows "is_partition_replica b t p"
proof -
  obtain b0 where b0: "load_logs b0 = Inr b" "b_cluster b0 = None"
    using assms by (auto simp: open_with_cluster_and_id_def sbind_def split: sum.splits prod.splits)
  from load_logs_frame [OF b0(1)] obtain l where "b = b0\<lparr>b_logs := l\<rparr>" by blast
  with b0(2) show ?thesis by (simp add: is_partition_replica_def)
qed

lemma reopen_alone:
  assumes "max_payload_bytes e < 2 ^ 16" and "(broker_step e)\<^sup>*\<^sup>* (new_broker e) b"
  shows "\<exists>b' d'. broker_open e now (Inr None) (b_dir b) = (Inr b', d') \<and> (\<forall>t v. push_holds b t v \<longrightarrow> push_holds b' t v)
    \<and> (\<forall>t p h. history b t p h \<longrightarrow> hm_contains (b_topics b) t \<longrightarrow> broker_topic_config b t = topic_config_default_for t \<longrightarrow> p = 0
        \<longrightarrow> history b' t p h \<and> retention b' t p = Some 10000) \<and> (\<forall>t p. is_partition_replica b' t p)"
proof -
  have "cluster_opens now None (b_dir b)" by (simp add: cluster_opens_def)
  from reopened_broker [OF assms(1) open_fresh assms(2) this, of e "local_broker_id e"]
  obtain b' d' where b': "open_with_cluster_and_id e now None (local_broker_id e) (b_dir b) = (Inr b', d')"
    "\<forall>t. hm_contains (b_topics b) t \<longrightarrow> broker_topic_config b' t = normal_config t (broker_topic_config b t)"
    "\<forall>t p h. history b t p h \<longrightarrow> hm_contains (b_topics b) t \<longrightarrow> unat p < unat (tc_partition_count (broker_topic_config b' t))
        \<longrightarrow> history b' t p h \<and> retention b' t p = Some (unat (tc_max_records (broker_topic_config b' t)))"
    "\<forall>t v. push_holds b t v \<longrightarrow> push_holds b' t v" by blast
  have "history b' t 0 h \<and> retention b' t 0 = Some 10000"
    if "history b t 0 h" "hm_contains (b_topics b) t" "broker_topic_config b t = topic_config_default_for t" for t h
    using b'(2) [rule_format, OF that(2)] b'(3) [rule_format, OF that(1,2)]
    by (simp add: that(3) normal_config_def topic_config_default_for_def topic_config_new_def)
  with b'(1,4) open_alone [OF b'(1)] show ?thesis by (auto simp: broker_open_def open_with_cluster_def)
qed

lemma test_log_survives_reopen_passes:
  assumes "fits e x" and "fits e y" and "max_payload_bytes e < 2 ^ 16" and "length x + length y \<le> unat (clamp_fetch_bytes e 1024)"
  shows "test_log_survives_reopen e now t x y"
proof -
  obtain b1 b2 where b: "append_log e t 0 x (new_broker e) = (Inr 0, b1)" "append_log e t 0 y b1 = (Inr 1, b2)" "history b2 t 0 [x, y]"
    "broker_topic_config b2 t = topic_config_default_for t" "hm_contains (b_topics b2) t"
    using two_appends [OF new_broker_history assms(1,2), of t e] new_broker_facts by metis
  have "broker_step e (new_broker e) b1" "broker_step e b1 b2" using broker_step.append [of e _ t 0] b(1,2) by (metis snd_conv)+
  then have "(broker_step e)\<^sup>*\<^sup>* (new_broker e) b2" by auto
  from reopen_alone [OF assms(3) this]
  obtain b3 d3 where b3: "broker_open e now (Inr None) (b_dir b2) = (Inr b3, d3)" "history b3 t 0 [x, y]" "retention b3 t 0 = Some 10000"
    "is_partition_replica b3 t 0" using b(3-5) by blast
  then obtain b4 where "fetch_log e (fetch_all t) b3 = (Inr (numbered [x, y]), b4)"
    using fetch_whole [OF b3(2,4)] assms(4) by (auto simp: start_of_def kept_def)
  with b(1,2) b3(1) show ?thesis by (simp add: test_log_survives_reopen_def new_broker_opens numbered_def upt_rec)
qed

lemma test_reopen_staged_passes:
  assumes "e ''DMQ_LEGACY_PUSH'' = None" and "fits e x" and "max_payload_bytes e < 2 ^ 16"
  shows "test_reopen_staged e now t x"
proof -
  let ?b = "snd (topic_mut t (new_broker e))"
  have reg: "register_producer \<lparr>preg_port = 7778, preg_topic_id = t\<rparr> (new_broker e) = (Inr 0, ?b)"
    using topic_mut_ok [of t "new_broker e"] by (simp add: register_producer_def sbind_def)
  obtain b1 where b1: "produce_pcm e t x ?b = (Inr (0, 0), b1)" "push_holds b1 t ([x], [])"
    using two_staged [OF assms(1,2,2), of t 0 0] by blast
  have "broker_step e (new_broker e) ?b" "broker_step e ?b b1"
    using broker_step.reg_producer [of e "new_broker e"] broker_step.push [of e ?b t x] reg b1(1) by (metis snd_conv)+
  then have "(broker_step e)\<^sup>*\<^sup>* (new_broker e) b1" by auto
  from reopen_alone [OF assms(3) this]
  obtain b2 d2 where b2: "broker_open e now (Inr None) (b_dir b1) = (Inr b2, d2)" "push_holds b2 t ([x], [])"
    using b1(2) by blast
  have "topic_staging_len b2 t = Some 1"
    using accessors_view(3) [OF b2(2)] by (auto simp: word_unat_eq_iff)
  with reg b1(1) b2(1) show ?thesis by (simp add: test_reopen_staged_def new_broker_opens)
qed

end
