(* ===== verification/Tests_Stress.thy ===== *)
theory Tests_Stress
  imports Stress_Run Tests_Storage
begin

text \<open>
  The unit tests of \<open>dmq-stress\<close> on the model, in the way of \<open>Tests_Storage\<close>.
\<close>

definition test_audit_ok :: "string \<Rightarrow> nat \<Rightarrow> u64 \<Rightarrow> bool" where
  "test_audit_ok run_id n off \<longleftrightarrow> audit_ok \<lparr>ar_run_id = run_id, ar_expected = n, ar_fetched_for_run = n, ar_missing = [],
     ar_unexpected = [], ar_committed_offset = off\<rparr>"

definition test_payload_roundtrip :: "string \<Rightarrow> u64 \<Rightarrow> nat \<Rightarrow> bool" where
  "test_payload_roundtrip run_id sq n \<longleftrightarrow> unwrap (parse_payload (encode_payload run_id sq n)) (\<lambda>(r, s). r = run_id \<and> s = sq)"

definition test_ledger_roundtrip :: "u64 \<Rightarrow> u64 \<Rightarrow> bool" where
  "test_ledger_roundtrip a b \<longleftrightarrow>
     (let l = ledger_record a (ledger_record b (ledger_record a ledger_open))
      in unwrap (load_ledger (Some (lg_file l))) (\<lambda>loaded. set loaded = {a, b}))"

definition test_expected_messages :: "u64 \<Rightarrow> u64 \<Rightarrow> bool" where
  "test_expected_messages rps secs \<longleftrightarrow>
     expected_messages \<lparr>sc_topic_id = 1, sc_partition_id = 0, sc_run_id = ''t'', sc_target_rps = rps, sc_duration = secs, sc_warmup = 0,
       sc_workers = 4, sc_payload_bytes = 64, sc_producer_id = 1, sc_ledger_path = None\<rparr> = rps * secs"

lemma test_audit_ok_passes: "test_audit_ok run_id n off"
  by (simp add: test_audit_ok_def audit_ok_def)

lemma test_payload_roundtrip_passes:
  assumes "valid_str run_id" and "CHR '':'' \<notin> set run_id" and "length (payload_header run_id sq) \<le> n"
  shows "test_payload_roundtrip run_id sq n"
  using parse_encode_payload [OF assms] by (simp add: test_payload_roundtrip_def)

lemma test_expected_messages_passes:
  assumes "unat rps * unat secs < 2 ^ 64"
  shows "test_expected_messages rps secs"
  using assms by (simp add: test_expected_messages_def expected_messages_def)

lemma test_ledger_roundtrip_passes: "test_ledger_roundtrip a b"
proof -
  have "ledger_record a (ledger_record b (ledger_record a ledger_open)) = fold ledger_record [a, b, a] ledger_open" by simp
  moreover have "set (sorted_list_of_set (set [a, b, a])) = {a, b}" by (subst set_sorted_list_of_set) auto
  ultimately show ?thesis
    using conjunct1 [OF ledger_roundtrip, of "[a, b, a]"] unfolding test_ledger_roundtrip_def Let_def by (simp only: unwrap_simps)
qed

end
