(* ===== verification/Spec2Isabelle.thy ===== *)
theory Spec2Isabelle
  imports Cluster_Steps Stress_Window Session Server_Process
    Restart Tests_Core Tests_Protocol Tests_Broker Tests_Stress
begin

text \<open>
  Verification of \<open>custom-dmq\<close>, a message broker in Rust.  Producers append records to the
  partitions of a topic, consumers fetch them by offset or have them pushed, brokers of a
  cluster replicate partitions and fail over when a leader is silent.

  \<^bold>\<open>The program and its model.\<close>  Everything below is under \<open>src/crates\<close>.

  \<^item> Ground.  \<open>Dmq_Prelude\<close> (integers as words, results as an error or a panic against a value,
    hash maps as association lists), \<open>Rust_Bytes\<close> (big-endian integers and checked reads),
    \<open>Rust_Text\<close> (UTF-8, decimal numbers, splitting, white space, the process environment as a
    function), \<open>Rust_Float\<close> (binary64 numbers with their rounding and printing).  These model what
    the sources use of the language and its library.
  \<^item> Storage (\<open>dmq-storage\<close>).  \<open>Data_Dir\<close> is the data directory: for each file the contents
    that the process sees and those that survive a power loss, with \<open>fsync.rs\<close>.
    \<open>Partition_Log\<close> is the in-memory log with retention (\<open>partition_log.rs\<close>), \<open>Log_Store\<close> its
    file and the reload (\<open>log_store.rs\<close>), \<open>Metadata\<close> the small files (\<open>metadata.rs\<close>,
    \<open>topic_config.rs\<close>), \<open>Idempotency\<close> the last sequence of each producer (\<open>idempotency.rs\<close>),
    \<open>Ring_Queue\<close> the two ring buffers (\<open>mmap_queue.rs\<close> and the \<open>Queue\<close> of \<open>topic.rs\<close>).
  \<^item> Protocol (\<open>dmq-protocol\<close>).  \<open>Message\<close> has all messages with their codecs and the frame
    parser (\<open>message.rs\<close>), \<open>Framing\<close> the two wire formats over a byte stream (\<open>protocol.rs\<close>).
  \<^item> Core (\<open>dmq-core\<close>).  \<open>Topic\<close> is the push path (\<open>topic.rs\<close>, \<open>cgroup.rs\<close>, \<open>partition.rs\<close>),
    \<open>Fetch_Batch\<close> the record batches and their envelope (\<open>fetch_batch.rs\<close>, \<open>compression.rs\<close>),
    \<open>Cluster\<close> and \<open>Cluster_State\<close> the static and the live cluster (\<open>cluster.rs\<close>,
    \<open>cluster_state.rs\<close>), \<open>Security\<close> access lists, tokens, limits and counters (\<open>acl.rs\<close>,
    \<open>auth.rs\<close>, \<open>limits.rs\<close>, \<open>metrics.rs\<close>).
  \<^item> Broker (\<open>dmq-broker\<close>).  \<open>Broker\<close> is the state record and every operation of \<open>broker.rs\<close>,
    composed of the operations above; \<open>Coordinator\<close> the consumer groups (\<open>coordinator.rs\<close>);
    \<open>Replication\<close> the leader's side of replication and both sides of the handshake
    (\<open>replication.rs\<close>, \<open>client.rs\<close>); \<open>Tls\<close> the choice of TLS and its configuration (\<open>tls.rs\<close>), \<open>Session\<close>
    the client's end of a session (\<open>client.rs\<close>); \<open>Storage\<close> the storage trait of
    \<open>dmq-storage/src/storage.rs\<close> with the broker as its implementation.
  \<^item> Server (\<open>dmq-cli/src/runner.rs\<close>).  \<open>Server\<close> has one handler per request, the connection
    loop as a function from the bytes received to the bytes sent and the new broker, and
    the background tasks.  What other tasks do to the broker between two points where a
    handler gives up the lock is an argument (\<open>request_context\<close>).  \<open>Cluster_Run\<close> puts
    several such brokers on a network that runs their connection loops, \<open>Cluster_Sync\<close> has the
    round of the cluster task between two of them, \<open>Cluster_Steps\<close> the cluster as a state machine.
    \<open>Server_Process\<close> has the start of the server, its accept loops, the start of each client and
    the binaries.
  \<^item> Operations.  \<open>Ops_Server\<close> has the text of the counters (\<open>metrics.rs\<close>), the HTTP server for them
    and for the probes (\<open>metrics_server.rs\<close>) and the names in the request log (\<open>request_log.rs\<close>).
  \<^item> Clients (\<open>dmq-cli\<close>).  \<open>Client\<close> has a connection (what was sent, how much of the answer was
    read) to a peer, and on it the direct producer (\<open>producer_direct.rs\<close>) and the fetch
    consumer (\<open>consumer_fetch.rs\<close>).
    \<open>Push_Client\<close> has the clients of the push path (\<open>producer.rs\<close>, \<open>consumer_client.rs\<close>) against
    the tasks of the broker that dial back, and \<open>Admin\<close> the administration tool (\<open>admin.rs\<close>) with
    the lines it prints, and the command line of \<open>custom-dmq\<close>.
  \<^item> Stress tool (\<open>dmq-stress\<close>).  \<open>Stress_Client\<close> has the payloads, sessions and the ledger
    (\<open>client.rs\<close>, \<open>ledger.rs\<close>), \<open>Stress_Tool\<close> the options, the worker task and the audit
    (\<open>config.rs\<close>, \<open>stress.rs\<close>, \<open>audit.rs\<close>), \<open>Stress_Run\<close> the size of the topic and the numbers that a
    window hands out, \<open>Stress_Report\<close> the latency report (\<open>report.rs\<close>), \<open>Stress_Window\<close> a window with all its workers and the channel between them
    as a step relation, the whole run and the command (\<open>stress.rs\<close>, \<open>main.rs\<close>).
  \<^item> Unit tests.  \<open>Tests_Storage\<close>, \<open>Tests_Core\<close>, \<open>Tests_Protocol\<close>, \<open>Tests_Broker\<close> and \<open>Tests_Stress\<close>
    have the tests in the modules of the five crates as functions of the model, with lemmas
    that they pass.

  \<^bold>\<open>Interfaces.\<close>  Laws that one component relies on are locales, interpreted on the model:
  \<open>fixed_codec\<close> (integers), \<open>request_codec\<close> (the fourteen requests with a payload), \<open>file_store\<close> (the
  metadata files), \<open>append_only_log\<close> (the partition log), \<open>fifo_queue\<close> (both ring buffers),
  \<open>ordered_delivery\<close> (numbered records that are accepted once and in order: a producer's
  sequences and a follower's offsets), \<open>row_table\<close> (the tables that the administration tool
  reads back), \<open>replication_network\<close> (what an acknowledgement of a peer means; interpreted in
  \<open>Cluster_Run\<close> on a network of brokers that run the connection loop), \<open>stepwise_network\<close> (what a
  handler leaves of the network it sends to; interpreted on the same network), \<open>push_storage\<close>
  (the storage trait over the list specification; interpreted on the broker).

  \<^bold>\<open>What is shown.\<close>
  \<^item> Safety of a broker under any operations (\<open>Broker_Steps\<close>) and under any bytes from any client
    (\<open>Server_Safety\<close>): the history of every partition, the payloads it received, only grows,
    memory and disk agree, and the routing view is the one of the cluster state.
  \<^item> No panic (\<open>Broker_Panics\<close>): in a broker that was opened on an empty directory, after any
    operations and any restarts, no operation fails an \<open>expect\<close> or leaves the range of an index.
  \<^item> Refinement of the push path (\<open>Push_Refinement\<close>): routing, draining, polling and registering over
    memory-mapped queues and metadata files refine operations on lists, so that every group
    gets every message exactly once; as a storage it is a broadcast queue (\<open>Storage\<close>).
  \<^item> Sessions (\<open>Session\<close>): responses match requests in order, format and correlation id, a version 2
    session is answered completely, client and broker agree in the handshake; what a server
    serves and what a client trusts (\<open>Server_Process\<close>, \<open>Tls\<close>).
  \<^item> The functional behaviour of produce, fetch, idempotent produce, replication, reload after
    a crash and start (\<open>Log_Store\<close>, \<open>Broker_History\<close>), on one broker and across the wire
    (\<open>Request_Path\<close> and this theory), and what an acknowledgement says about the followers
    (\<open>Replication\<close>, \<open>Cluster_Run\<close>).
  \<^item> Restart (\<open>Restart\<close>): the files of a broker always determine it, so that a broker opened on
    what any run left has the topics, configurations, histories, queued messages and
    idempotency decisions of the one that stopped.
  \<^item> Round trips of all messages, frames, batches and files, with the exact bounds where a
    length field is too narrow, and the exact inputs on which a parser panics.
  \<^item> Safety of a cluster under any run (\<open>Cluster_Steps\<close>): all histories of all brokers only grow, and
    the replicas that a leader counted under \<open>DMQ_ACKS=all\<close> keep a record at the offset.
  \<^item> Agreement of two brokers on the routing after a round of the cluster task (\<open>Cluster_Sync\<close>).
  \<^item> Failover, group assignment and the invariant of the groups; the queues against lists.
  \<^item> The clients and the stress tool against the broker of this development: what one
    connection can do, what the tools show of the broker's histories and counters, that the
    push path delivers every message once and in order, what the audit decides, and that a
    window of the stress tool ends and accounts for every number, also in the report.

  \<^bold>\<open>Bounds and fuel.\<close>  Loops over data are structural or have a measure.  \<open>drain\<close> has the fuel
  \<open>QUEUE_CAPACITY\<close>, which a queue cannot exceed; the long poll of a fetch and the delivery
  loop have the number of polls before their deadline as an argument; the loops of the
  clients (\<open>simulate_loop\<close>, \<open>cli_fetch_loop\<close>, \<open>stress_fetch_all\<close>) are watched for a number of
  rounds and have a value for a loop that still runs; the loop that hands out the numbers of
  a stress window is a partial function, with its termination as a theorem; the search for
  a free group member id has the number of members as fuel; an accept loop is watched for a
  list of accepted connections.  Lengths that a theorem
  bounds are those of the 16-bit and 64-bit fields that store them.

  \<^bold>\<open>Parameters.\<close>  The LZ4 library with its documented law (\<open>lz4_law\<close>), the TLS library (\<open>tls_lib\<close>),
  the latency histogram with its documented laws (\<open>hist_lib\<close>, \<open>hist_law\<close>),
  the network, the outcome of binding, dialling and accepting sockets, the clock, the
  environment, and reading and parsing the TOML cluster file.

  \<^bold>\<open>Not modelled.\<close>  The inside of the third-party libraries above, the log lines on the
  console, the test that reads the example TOML file, and the integration tests under
  \<open>src/tests\<close>, which talk to a broker over sockets.  Interleaving is modelled at the points where the code releases the broker's
  lock, not inside a critical section.
\<close>

section \<open>Across the wire\<close>

lemma wire_produce:
  assumes h: "history b t p h" and x: "length x \<le> 65000" "length x \<le> max_payload_bytes e"
    and lead: "b_cluster b = None \<or> is_partition_leader b t p"
    and open_access: "\<not> require_handshake e" "check_produce_acl b ''anonymous'' t = Inr ()"
    and cx: "\<forall>k. cx_gap (cxs k) = (\<lambda>_ b. b) \<and> cx_write_ok (cxs k)"
  obtains w out b1 n1
  where "write_frame (frame_v2 cid (Produce \<lparr>produce_topic_id = t, produce_partition_id = p, produce_payload = x\<rparr>)) V2 = Inr w"
    and "handle_broker_connection e lz net cxs 0 w session_default (b, n) = (out, [], b1, n1)"
    and "read_frame out = Inr (frame_v2 cid (RProduce (of_nat (length h))), V2, [])"
    and "history b1 t p (h @ [x])" and "same_role b b1" and "retention b1 t p = retention b t p"
proof -
  let ?s = "session_default\<lparr>sess_wire_format := V2\<rparr>"
  let ?p = "Produce \<lparr>produce_topic_id = t, produce_partition_id = p, produce_payload = x\<rparr>"
  have hs: "\<not> handshake_missing e ?s" using open_access(1) by (simp add: handshake_missing_def)
  have small: "small_payload x" using x(1) by (simp add: small_payload_def)
  obtain b1 n1 where d: "dispatch_message e lz net (cxs 0) ?p ?s (b, n) = (Some (RProduce (of_nat (length h))), ?s, [], b1, n1)"
    and b1: "history b1 t p (h @ [x])" "same_role b b1" "retention b1 t p = retention b t p"
    using dispatch_produce [OF h small x(2) lead _ hs] open_access(2) cx by (metis session_default_principal)
  let ?b1 = "b1\<lparr>b_metrics := record_request_latency (cx_latency (cxs 0)) (b_metrics b1)\<rparr>"
  obtain fr fr' where enc: "encode_message ?p = Inr fr" "length fr \<le> 65530"
      "encode_message (RProduce (of_nat (length h))) = Inr fr'" "length fr' \<le> 65530"
    using x(1) by (simp add: encode_message_def produce_encode_def)
  have cx0: "cx_write_ok (cxs 0)" using cx by simp
  obtain w out where "write_frame (frame_v2 cid ?p) V2 = Inr w"
      "handle_broker_connection e lz net cxs 0 w session_default (b, n) = (out, [], ?b1, n1)"
      "read_frame out = Inr (frame_v2 cid (RProduce (of_nat (length h))), V2, [])"
    using one_request [where cxs = cxs, OF _ enc(1,2) _ d _ enc(3,4) cx0, of cid] by auto
  moreover have "same_role b ?b1" using b1(2) by (simp add: same_role_def)
  ultimately show thesis using that b1 by simp
qed

lemma wire_fetch_newest:
  assumes h: "history b t p (h @ [x])" "length h + 1 < 2 ^ 64" and x: "length x \<le> 65000"
    and lead: "b_cluster b = None \<or> is_partition_leader b t p" "is_partition_replica b t p"
    and open_access: "\<not> require_handshake e" "\<not> compression_enabled e" "check_fetch_acl b ''anonymous'' t = Inr ()"
    and keep: "retention b t p = Some m" "0 < m"
    and cx: "\<forall>k. cx_gap (cxs k) = (\<lambda>_ b. b) \<and> cx_write_ok (cxs k)"
  obtains w out b2 body
  where "write_frame (frame_v2 cid (Fetch \<lparr>fetch_topic_id = t, fetch_partition_id = p,
        fetch_offset = of_nat (length h), fetch_max_bytes = mb, fetch_max_wait_ms = mw\<rparr>)) V2 = Inr w"
    and "handle_broker_connection e lz net cxs 0 w session_default (b, n) = (out, [], b2, n)"
    and "read_frame out = Inr (frame_v2 cid (RFetch body), V2, [])"
    and "res_bind (unwrap_batch lz body) decode_records = Inr [\<lparr>rec_offset = of_nat (length h), rec_payload = x\<rparr>]"
proof -
  let ?s = "session_default\<lparr>sess_wire_format := V2\<rparr>"
  let ?q = "\<lparr>fetch_topic_id = t, fetch_partition_id = p, fetch_offset = of_nat (length h),
      fetch_max_bytes = mb, fetch_max_wait_ms = mw\<rparr>"
  let ?r = "\<lparr>rec_offset = of_nat (length h) :: u64, rec_payload = x\<rparr>"
  let ?resp = "RFetch (CODEC_NONE # encode_records [?r])"
  have hs: "\<not> handshake_missing e ?s" using open_access(1) by (simp add: handshake_missing_def)
  from fetch_log_newest [OF h lead(2) _ _ _ keep, of ?q e]
  obtain b2 where "fetch_log e ?q b = (Inr [?r], b2)" by (cases "fetch_log e ?q b") auto
  from dispatch_fetch [OF this, of ?s "cxs 0" lz net n]
  have f: "dispatch_message e lz net (cxs 0) (Fetch ?q) ?s (b, n) = (Some ?resp, ?s, [], b2, n)"
    using lead(1) hs open_access(2,3) cx by simp
  obtain fr fr' where enc: "encode_message (Fetch ?q) = Inr fr" "length fr \<le> 65530"
      "encode_message ?resp = Inr fr'" "length fr' \<le> 65530"
    using x by (simp add: encode_message_def fetch_encode_def length_one_record_batch)
  have cx0: "cx_write_ok (cxs 0)" using cx by simp
  have "res_bind (unwrap_batch lz (CODEC_NONE # encode_records [?r])) decode_records = Inr [?r]"
    using x by (simp add: unwrap_batch_def decode_encode_records truncate_record_def)
  then show thesis
    using that one_request [where cxs = cxs, OF _ enc(1,2) _ f _ enc(3,4) cx0, of cid] by auto
qed



end
